(* ===== verification/Prelude.thy ===== *)
theory Prelude
  imports Main "HOL-Library.Word"
begin

text \<open>
  Shared vocabulary of the development: the machine integers and byte strings of the
  C++ sources, the result type of fallible code, and the generic facts on lists and
  words that several components use. The named collections gather the rules the
  component proofs hand to the simplifier.
\<close>

unbundle bit_operations_syntax

type_synonym u8 = "8 word"
type_synonym u16 = "16 word"
type_synonym u32 = "32 word"
type_synonym u64 = "64 word"

text \<open>A byte string (\<open>utils::bytes_t\<close>, \<open>utils::bytes_view_t\<close>).\<close>

type_synonym bytes = "u8 list"

text \<open>\<open>outcome::result<T>\<close>: the error on the left, the value on the right.\<close>

type_synonym ('e, 'a) result = "'e + 'a"

named_theorems list_facts \<open>generic list facts shared by the components\<close>
named_theorems word_facts \<open>facts on machine words shared by the components\<close>

subsection \<open>Lists\<close>

lemma take_drop_append_exact [simp]:
  "length xs = n \<Longrightarrow> take n (xs @ ys) = xs"
  "length xs = n \<Longrightarrow> drop n (xs @ ys) = ys"
  by auto

lemma find_SomeD:
  "find P xs = Some x \<Longrightarrow> x \<in> set xs \<and> P x"
  by (auto simp: find_Some_iff)

lemma find_None_iff_all:
  "find P xs = None \<longleftrightarrow> (\<forall>x \<in> set xs. \<not> P x)"
  by (auto simp: find_None_iff)

text \<open>Under a key that occurs once, \<open>find\<close> returns the element that has it.\<close>

lemma find_unique_key:
  assumes "distinct (map f xs)" and "x \<in> set xs"
  shows "find (\<lambda>y. f y = f x) xs = Some x"
  using assms
proof (induction xs)
  case Nil
  then show ?case by simp
next
  case (Cons y ys)
  then show ?case by (auto simp: rev_image_eqI)
qed

lemma find_filter_other [list_facts]:
  "(\<And>x. Q x \<Longrightarrow> P x) \<Longrightarrow> find Q (filter P xs) = find Q xs"
  by (induction xs) auto

end
