(* ===== verification/Version.thy ===== *)
theory Version
  imports Prelude
begin

text \<open>
  Version vectors (\<^verbatim>\<open>src/model/version.cpp\<close>). A version is a list of counters, one per
  device that modified the file; the most significant bit of a counter's value marks the
  counter of the latest modification. The theory models the conversions from and to the
  wire format, the bump made by a local modification, and the two comparisons the
  conflict resolver uses.
\<close>

subsection \<open>Counters and the best mark\<close>

record counter =
  counter_id :: u64
  counter_value :: u64

type_synonym version = "counter list"

definition BEST_MASK :: u64 where
  "BEST_MASK = push_bit 63 1"

text \<open>The three uses of the mask in the source: test, set and clear.\<close>

definition is_marked :: "counter \<Rightarrow> bool" where
  "is_marked c \<longleftrightarrow> counter_value c AND BEST_MASK \<noteq> 0"

definition mark :: "u64 \<Rightarrow> u64" where
  "mark v = v OR BEST_MASK"

definition unmark :: "u64 \<Rightarrow> u64" where
  "unmark v = v AND NOT BEST_MASK"

text \<open>
  \<open>version_t(const proto::Vector &)\<close>: the loop keeps the best counter so far and its
  index; an empty vector violates the assertion of the constructor (\<open>None\<close>).
\<close>

fun scan_best :: "version \<Rightarrow> nat \<Rightarrow> counter \<Rightarrow> nat \<Rightarrow> nat" where
  "scan_best [] i best best_index = best_index"
| "scan_best (c # cs) i best best_index =
     (if counter_value best < counter_value c then scan_best cs (Suc i) c i
      else scan_best cs (Suc i) best best_index)"

definition version_of_proto :: "version \<Rightarrow> version option" where
  "version_of_proto v = (case v of [] \<Rightarrow> None
     | c0 # _ \<Rightarrow> (let best_index = scan_best v 0 c0 0; selected = v ! best_index
        in Some (v[best_index := selected\<lparr>counter_value := mark (counter_value selected)\<rparr>])))"

definition to_proto :: "version \<Rightarrow> version" where
  "to_proto cs = map (\<lambda>c. \<lparr>counter_id = counter_id c, counter_value = unmark (counter_value c)\<rparr>) cs"

text \<open>
  \<open>version_t::update\<close>: every marked counter raises the new value and triggers the inner
  search for the device's own counter. \<open>now\<close> is the wall clock in seconds and \<open>dev\<close> the
  device's short identifier.
\<close>

fun index_of_id :: "u64 \<Rightarrow> version \<Rightarrow> nat option" where
  "index_of_id dev [] = None"
| "index_of_id dev (c # cs) =
     (if counter_id c = dev then Some 0 else map_option Suc (index_of_id dev cs))"

fun update_scan :: "version \<Rightarrow> u64 \<Rightarrow> version \<Rightarrow> u64 \<Rightarrow> nat option \<Rightarrow> u64 \<times> nat option" where
  "update_scan all dev [] v best_index = (v, best_index)"
| "update_scan all dev (c # cs) v best_index =
     (if is_marked c
      then update_scan all dev cs (max (unmark (counter_value c) + 1) v)
             (case index_of_id dev all of Some i \<Rightarrow> Some i | None \<Rightarrow> best_index)
      else update_scan all dev cs v best_index)"

definition version_update :: "u64 \<Rightarrow> u64 \<Rightarrow> version \<Rightarrow> version" where
  "version_update now dev cs = (case update_scan cs dev cs now None of
       (v, None) \<Rightarrow> cs @ [\<lparr>counter_id = dev, counter_value = mark v\<rparr>]
     | (v, Some i) \<Rightarrow> cs[i := (cs ! i)\<lparr>counter_value := mark v\<rparr>])"

definition version_of_device :: "u64 \<Rightarrow> u64 \<Rightarrow> version" where
  "version_of_device now dev = version_update now dev []"

fun get_best_loop :: "counter \<Rightarrow> version \<Rightarrow> counter" where
  "get_best_loop r [] = r"
| "get_best_loop r (c # cs) =
     (if is_marked c
      then get_best_loop \<lparr>counter_id = counter_id c, counter_value = unmark (counter_value c)\<rparr> cs
      else get_best_loop r cs)"

definition get_best :: "version \<Rightarrow> counter" where
  "get_best cs = get_best_loop \<lparr>counter_id = 0, counter_value = 0\<rparr> cs"

fun contains_loop :: "version \<Rightarrow> counter \<Rightarrow> bool" where
  "contains_loop [] other_best = False"
| "contains_loop (c # cs) other_best =
     (if counter_id c = counter_id other_best
      then counter_value other_best \<le> unmark (counter_value c)
      else contains_loop cs other_best)"

definition version_contains :: "version \<Rightarrow> version \<Rightarrow> bool" where
  "version_contains cs other = contains_loop cs (get_best other)"

fun identical_loop :: "version \<Rightarrow> version \<Rightarrow> bool" where
  "identical_loop (c # cs) (d # ds) =
     (if counter_id c = counter_id d \<and> unmark (counter_value c) = unmark (counter_value d)
      then identical_loop cs ds else False)"
| "identical_loop _ _ = True"

definition version_identical_to :: "version \<Rightarrow> version \<Rightarrow> bool" where
  "version_identical_to cs other =
     (if length cs = length other then identical_loop cs other else False)"

definition counters_size :: "version \<Rightarrow> nat" where
  "counters_size cs = length cs"

text \<open>
  \<open>version_t::get_counters\<close> fills a copy with cleared marks and then returns the member
  itself, marks included.
\<close>

definition get_counters :: "version \<Rightarrow> version" where
  "get_counters cs =
     (let copy = map (\<lambda>c. \<lparr>counter_id = counter_id c, counter_value = unmark (counter_value c)\<rparr>) cs
      in cs)"

subsection \<open>The mask\<close>

lemma counter_eta [simp]: "\<lparr>counter_id = counter_id c, counter_value = counter_value c\<rparr> = c"
  by (cases c) simp

lemma bit_BEST_MASK [word_facts]: "bit BEST_MASK n \<longleftrightarrow> n = 63"
  unfolding BEST_MASK_def bit_push_bit_iff by (auto simp: bit_1_iff)

lemma is_marked_bit [word_facts]: "is_marked c \<longleftrightarrow> bit (counter_value c) 63"
proof
  assume "is_marked c"
  then obtain n where "bit (counter_value c AND BEST_MASK) n"
    unfolding is_marked_def using bit_eqI by (metis bit_0_eq bot_apply bot_bool_def)
  then show "bit (counter_value c) 63" by (auto simp: bit_and_iff bit_BEST_MASK)
next
  assume "bit (counter_value c) 63"
  then have "bit (counter_value c AND BEST_MASK) 63" by (simp add: bit_and_iff bit_BEST_MASK)
  then show "is_marked c" unfolding is_marked_def by auto
qed

lemma unmark_mark [simp]: "unmark (mark v) = unmark v"
  by (rule bit_eqI) (auto simp: unmark_def mark_def bit_simps bit_BEST_MASK)

lemma unmark_unmark [simp]: "unmark (unmark v) = unmark v"
  by (rule bit_eqI) (auto simp: unmark_def bit_simps)

lemma unmark_plain: "\<not> bit v 63 \<Longrightarrow> unmark v = v"
  by (rule bit_eqI) (auto simp: unmark_def bit_simps bit_BEST_MASK)

lemma bit_mark [simp]: "bit (mark v) 63"
  by (simp add: mark_def bit_simps bit_BEST_MASK)

lemma bit_unmark [simp]: "\<not> bit (unmark v) 63"
  by (simp add: unmark_def bit_simps bit_BEST_MASK)

text \<open>A plain counter is one that came off the wire: its value leaves the mark bit clear.\<close>

definition plain :: "version \<Rightarrow> bool" where
  "plain v \<longleftrightarrow> (\<forall>c \<in> set v. \<not> bit (counter_value c) 63)"

lemma not_bit63_less: "\<not> bit (v :: u64) 63 \<longleftrightarrow> v < 0x8000000000000000"
proof -
  have "bit v 63 \<longleftrightarrow> bit (unat v) 63" by (simp add: bit_unsigned_iff)
  then have "bit v 63 \<longleftrightarrow> odd (unat v div 2 ^ 63)" by (simp add: bit_iff_odd)
  moreover have "unat v < 2 ^ 64" using unsigned_less [of v] by simp
  moreover have "v < 0x8000000000000000 \<longleftrightarrow> unat v < 2 ^ 63" by (simp add: word_less_nat_alt)
  moreover have "unat v div 2 ^ 63 < 2" if "unat v < 2 ^ 64"
    using that by (simp add: less_mult_imp_div_less)
  moreover have "unat v < 2 ^ 63 \<longleftrightarrow> unat v div 2 ^ 63 = 0" by (simp add: div_eq_0_iff)
  ultimately show ?thesis by (auto simp: less_2_cases_iff)
qed

subsection \<open>Selecting the best counter\<close>

lemma scan_best_max_aux:
  assumes "best_index < length (pre @ cs)" and "(pre @ cs) ! best_index = best"
    and "\<forall>c \<in> set pre. counter_value c \<le> counter_value best"
    and "r = scan_best cs (length pre) best best_index"
  shows "r < length (pre @ cs) \<and>
    (\<forall>c \<in> set (pre @ cs). counter_value c \<le> counter_value ((pre @ cs) ! r))"
  using assms
proof (induction cs arbitrary: pre best best_index)
  case Nil
  then show ?case by auto
next
  case (Cons c cs)
  show ?case
  proof (cases "counter_value best < counter_value c")
    case True
    have "r = scan_best cs (length (pre @ [c])) c (length pre)" using Cons.prems(4) True by simp
    moreover have "\<forall>d \<in> set (pre @ [c]). counter_value d \<le> counter_value c"
      using Cons.prems(3) True by force
    ultimately show ?thesis using Cons.IH [of "length pre" "pre @ [c]" c] by simp
  next
    case False
    have "r = scan_best cs (length (pre @ [c])) best best_index" using Cons.prems(4) False by simp
    moreover have "\<forall>d \<in> set (pre @ [c]). counter_value d \<le> counter_value best"
      using Cons.prems(3) False by auto
    ultimately show ?thesis using Cons.IH [of best_index "pre @ [c]" best] Cons.prems(1,2) by simp
  qed
qed

lemma scan_best_max:
  assumes "v \<noteq> []" and "r = scan_best v 0 (hd v) 0"
  shows "r < length v" and "\<forall>c \<in> set v. counter_value c \<le> counter_value (v ! r)"
  using scan_best_max_aux [of 0 "[]" v "hd v" r] assms by (auto simp: hd_conv_nth)

text \<open>The conversion marks exactly one counter, one with the greatest value.\<close>

lemma version_of_proto_SomeE:
  assumes "version_of_proto v = Some ver"
  obtains r where "r < length v" and "\<forall>c \<in> set v. counter_value c \<le> counter_value (v ! r)"
    and "ver = v[r := (v ! r)\<lparr>counter_value := mark (counter_value (v ! r))\<rparr>]"
proof -
  from assms have "v \<noteq> []"
    and "ver = v[scan_best v 0 (hd v) 0 := (v ! scan_best v 0 (hd v) 0)
      \<lparr>counter_value := mark (counter_value (v ! scan_best v 0 (hd v) 0))\<rparr>]"
    by (auto simp: version_of_proto_def Let_def split: list.splits)
  with that scan_best_max [of v] show thesis by blast
qed

lemma version_of_proto_nonempty: "v \<noteq> [] \<Longrightarrow> \<exists>ver. version_of_proto v = Some ver"
  by (auto simp: version_of_proto_def Let_def split: list.splits)

lemma get_best_loop_unmarked: "\<forall>c \<in> set cs. \<not> is_marked c \<Longrightarrow> get_best_loop r cs = r"
  by (induction cs) auto

lemma get_best_loop_append: "get_best_loop r (xs @ ys) = get_best_loop (get_best_loop r xs) ys"
  by (induction xs arbitrary: r) auto

text \<open>With a single mark, \<open>get_best\<close> is the marked counter.\<close>

lemma get_best_single:
  assumes "r < length v" and "plain v"
  shows "get_best (v[r := (v ! r)\<lparr>counter_value := mark x\<rparr>]) =
    \<lparr>counter_id = counter_id (v ! r), counter_value = unmark x\<rparr>"
proof -
  have "\<forall>c \<in> set (take r v). \<not> is_marked c" and "\<forall>c \<in> set (drop (Suc r) v). \<not> is_marked c"
    using assms(2) by (auto simp: plain_def is_marked_bit dest: in_set_takeD in_set_dropD)
  with assms(1) show ?thesis
    by (simp add: get_best_def upd_conv_take_nth_drop get_best_loop_append get_best_loop_unmarked
        is_marked_bit)
qed

lemma to_proto_update:
  assumes "r < length v" and "plain v"
  shows "to_proto (v[r := (v ! r)\<lparr>counter_value := mark x\<rparr>]) =
    v[r := \<lparr>counter_id = counter_id (v ! r), counter_value = unmark x\<rparr>]"
proof -
  have "map (\<lambda>c. \<lparr>counter_id = counter_id c, counter_value = unmark (counter_value c)\<rparr>) v = v"
    using assms(2) by (intro map_idI) (simp add: plain_def unmark_plain)
  then show ?thesis by (simp add: to_proto_def map_update)
qed


text \<open>A counter strictly above all the others is the one selected.\<close>

lemma version_of_proto_dominant:
  assumes "j < length w" and "plain w"
    and "\<And>k. k < length w \<Longrightarrow> k \<noteq> j \<Longrightarrow> counter_value (w ! k) < counter_value (w ! j)"
  shows "\<exists>ver. version_of_proto w = Some ver \<and> get_best ver = w ! j \<and> to_proto ver = w"
proof -
  from assms(1) obtain ver where ver: "version_of_proto w = Some ver"
    using version_of_proto_nonempty [of w] by fastforce
  then obtain r where r: "r < length w" "\<forall>c \<in> set w. counter_value c \<le> counter_value (w ! r)"
    "ver = w[r := (w ! r)\<lparr>counter_value := mark (counter_value (w ! r))\<rparr>]"
    by (rule version_of_proto_SomeE)
  have "r = j" using assms(1) assms(3) [of r] r(1,2) by (fastforce simp: not_le [symmetric])
  moreover have "unmark (counter_value (w ! j)) = counter_value (w ! j)"
    using assms(1,2) by (simp add: plain_def unmark_plain)
  ultimately show ?thesis
    using ver r(1,3) get_best_single [OF r(1) assms(2)] to_proto_update [OF r(1) assms(2)]
    by (simp add: counter.equality)
qed

subsection \<open>The bump of a local modification\<close>

lemma index_of_id_SomeD:
  "index_of_id dev cs = Some i \<Longrightarrow> i < length cs \<and> counter_id (cs ! i) = dev"
  by (induction cs arbitrary: i) (auto split: if_splits)

lemma index_of_id_ids:
  "index_of_id dev cs = Some i \<Longrightarrow> (map counter_id cs)[i := dev] = map counter_id cs"
  by (frule index_of_id_SomeD) (auto simp: list_update_same_conv)

lemma index_of_id_None: "index_of_id dev cs = None \<longleftrightarrow> dev \<notin> counter_id ` set cs"
  by (induction cs) auto

lemma index_of_id_update_value [simp]:
  "index_of_id dev (cs[r := (cs ! r)\<lparr>counter_value := x\<rparr>]) = index_of_id dev cs"
proof (induction cs arbitrary: r)
  case Nil
  then show ?case by simp
next
  case (Cons c cs)
  then show ?case by (cases r) auto
qed

lemma update_scan_unmarked:
  "\<forall>c \<in> set cs. \<not> is_marked c \<Longrightarrow> update_scan all dev cs v bi = (v, bi)"
  by (induction cs) auto

lemma update_scan_append:
  "update_scan all dev (xs @ ys) v bi =
     (case update_scan all dev xs v bi of (v', bi') \<Rightarrow> update_scan all dev ys v' bi')"
  by (induction xs arbitrary: v bi) auto

lemma update_scan_single:
  assumes "r < length v" and "plain v"
  shows "update_scan all dev (v[r := (v ! r)\<lparr>counter_value := mark x\<rparr>]) now None =
    (max (unmark x + 1) now, index_of_id dev all)"
proof -
  have "\<forall>c \<in> set (take r v). \<not> is_marked c" and "\<forall>c \<in> set (drop (Suc r) v). \<not> is_marked c"
    using assms(2) by (auto simp: plain_def is_marked_bit dest: in_set_takeD in_set_dropD)
  with assms(1) show ?thesis
    by (simp add: upd_conv_take_nth_drop update_scan_append update_scan_unmarked is_marked_bit
        split: option.splits)
qed

text \<open>
  What \<open>update\<close> writes, in wire format: the device's counter, replaced in place or
  appended, gets the successor of the best value or the clock, whichever is greater.
\<close>

lemma to_proto_version_update:
  assumes "plain v" and "version_of_proto v = Some ver"
    and "x = \<lparr>counter_id = dev, counter_value = unmark (max (counter_value (get_best ver) + 1) now)\<rparr>"
  shows "to_proto (version_update now dev ver) =
    (case index_of_id dev v of None \<Rightarrow> v @ [x] | Some i \<Rightarrow> v[i := x])"
proof -
  from assms(2) obtain r where r: "r < length v"
    "ver = v[r := (v ! r)\<lparr>counter_value := mark (counter_value (v ! r))\<rparr>]"
    by (rule version_of_proto_SomeE)
  have plain_r: "unmark (counter_value (v ! r)) = counter_value (v ! r)"
    using assms(1) r(1) by (simp add: plain_def unmark_plain)
  have best: "get_best ver = v ! r"
    using get_best_single [OF r(1) assms(1)] r(2) plain_r by (simp add: counter.equality)
  have wire: "to_proto ver = v"
    using to_proto_update [OF r(1) assms(1)] r(2) plain_r by (simp add: counter.equality)
  have scan: "update_scan ver dev ver now None =
      (max (counter_value (get_best ver) + 1) now, index_of_id dev v)"
    using update_scan_single [OF r(1) assms(1)] r(2) plain_r best by simp
  show ?thesis
  proof (cases "index_of_id dev v")
    case None
    with scan wire show ?thesis by (simp add: version_update_def to_proto_def assms(3))
  next
    case (Some i)
    then have "i < length v" "counter_id (v ! i) = dev" by (auto dest: index_of_id_SomeD)
    moreover have "counter_id (ver ! i) = counter_id (v ! i)"
      using r calculation(1) by (simp add: nth_list_update)
    ultimately show ?thesis using Some scan wire
      by (simp add: version_update_def to_proto_def map_update assms(3))
  qed
qed

lemma succ_above:
  assumes "(b :: u64) < 0x7FFFFFFFFFFFFFFF"
  shows "b < b + 1" and "b + 1 < 0x8000000000000000"
proof -
  have "unat b < 0x7FFFFFFFFFFFFFFF" using assms by (simp add: word_less_nat_alt)
  then have "unat (b + 1) = unat b + 1" by (simp add: unat_word_ariths)
  with \<open>unat b < _\<close> show "b < b + 1" and "b + 1 < 0x8000000000000000"
    by (simp_all add: word_less_nat_alt)
qed

lemma plain_max:
  assumes "(b :: u64) < 0x7FFFFFFFFFFFFFFF" and "now < 0x8000000000000000"
  shows "unmark (max (b + 1) now) = max (b + 1) now" and "b < max (b + 1) now"
    and "\<not> bit (max (b + 1) now) 63"
proof -
  show "\<not> bit (max (b + 1) now) 63"
    using succ_above(2) [OF assms(1)] assms(2) by (auto simp: not_bit63_less max_def)
  then show "unmark (max (b + 1) now) = max (b + 1) now" by (rule unmark_plain)
  show "b < max (b + 1) now" using succ_above(1) [OF assms(1)] by (simp add: less_max_iff_disj)
qed

lemma version_update_wire:
  assumes "plain v" and "version_of_proto v = Some ver"
    and "counter_value (get_best ver) < 0x7FFFFFFFFFFFFFFF" and "now < 0x8000000000000000"
    and "x = \<lparr>counter_id = dev, counter_value = max (counter_value (get_best ver) + 1) now\<rparr>"
  shows "to_proto (version_update now dev ver) =
    (case index_of_id dev v of None \<Rightarrow> v @ [x] | Some i \<Rightarrow> v[i := x])"
  by (rule to_proto_version_update [OF assms(1,2)]) (simp add: assms(5) plain_max(1) [OF assms(3,4)])

text \<open>The written vector has one dominating counter, the device's own.\<close>

lemma version_update_dominant:
  assumes "plain v" and "version_of_proto v = Some ver"
    and "counter_value (get_best ver) < 0x7FFFFFFFFFFFFFFF" and "now < 0x8000000000000000"
    and "w = to_proto (version_update now dev ver)"
    and "x = \<lparr>counter_id = dev, counter_value = max (counter_value (get_best ver) + 1) now\<rparr>"
  shows "\<exists>j. j < length w \<and> w ! j = x \<and> plain w \<and>
    (\<forall>k < length w. k \<noteq> j \<longrightarrow> counter_value (w ! k) < counter_value x)"
proof -
  let ?nv = "max (counter_value (get_best ver) + 1) now"
  have w: "w = (case index_of_id dev v of None \<Rightarrow> v @ [x] | Some i \<Rightarrow> v[i := x])"
    using version_update_wire [OF assms(1-4,6)] assms(5) by simp
  have nv: "\<not> bit ?nv 63" by (rule plain_max(3) [OF assms(3,4)])
  from assms(2) obtain r where r: "r < length v"
    "\<forall>c \<in> set v. counter_value c \<le> counter_value (v ! r)"
    "ver = v[r := (v ! r)\<lparr>counter_value := mark (counter_value (v ! r))\<rparr>]"
    by (rule version_of_proto_SomeE)
  have "get_best ver = v ! r"
    using get_best_single [OF r(1) assms(1)] r(1,3) assms(1)
    by (simp add: counter.equality plain_def unmark_plain)
  then have below: "\<forall>c \<in> set v. counter_value c < ?nv"
    using r(2) plain_max(2) [OF assms(3,4)] by (auto intro: le_less_trans)
  show ?thesis
  proof (cases "index_of_id dev v")
    case None
    with w below nv assms(1,6) show ?thesis
      by (intro exI [of _ "length v"]) (auto simp: plain_def nth_append)
  next
    case (Some i)
    then have "i < length v" by (auto dest: index_of_id_SomeD)
    with Some w below nv assms(1,6) show ?thesis
      by (intro exI [of _ i])
        (auto simp: plain_def nth_list_update dest!: set_update_subset_insert [THEN subsetD])
  qed
qed


subsection \<open>Comparisons\<close>

lemma contains_loop_to_proto: "contains_loop (to_proto cs) b = contains_loop cs b"
  by (induction cs) (auto simp: to_proto_def)

lemma contains_loop_imp:
  "contains_loop cs b \<Longrightarrow>
     \<exists>c \<in> set cs. counter_id c = counter_id b \<and> counter_value b \<le> unmark (counter_value c)"
  by (induction cs) (auto split: if_splits)

lemma contains_loop_distinct:
  "distinct (map counter_id cs) \<Longrightarrow> c \<in> set cs \<Longrightarrow> counter_id c = counter_id b \<Longrightarrow>
     counter_value b \<le> unmark (counter_value c) \<Longrightarrow> contains_loop cs b"
  by (induction cs) (auto simp: image_iff)

lemma get_best_in_proto:
  assumes "plain v" and "version_of_proto v = Some ver"
  shows "get_best ver \<in> set v" and "to_proto ver = v"
    and "\<forall>c \<in> set v. counter_value c \<le> counter_value (get_best ver)"
proof -
  from assms(2) obtain r where r: "r < length v"
    "\<forall>c \<in> set v. counter_value c \<le> counter_value (v ! r)"
    "ver = v[r := (v ! r)\<lparr>counter_value := mark (counter_value (v ! r))\<rparr>]"
    by (rule version_of_proto_SomeE)
  moreover have "unmark (counter_value (v ! r)) = counter_value (v ! r)"
    using assms(1) r(1) by (simp add: plain_def unmark_plain)
  ultimately have "get_best ver = v ! r" and "to_proto ver = v"
    using get_best_single [OF r(1) assms(1)] to_proto_update [OF r(1) assms(1)] by simp_all
  with r show "get_best ver \<in> set v" and "to_proto ver = v"
    and "\<forall>c \<in> set v. counter_value c \<le> counter_value (get_best ver)" by simp_all
qed

lemma not_contains_bumped:
  assumes "plain v" and "version_of_proto v = Some ver"
    and "counter_value (get_best ver) < 0x7FFFFFFFFFFFFFFF" and "now < 0x8000000000000000"
  shows "\<not> contains_loop v \<lparr>counter_id = dev, counter_value = max (counter_value (get_best ver) + 1) now\<rparr>"
proof
  let ?nv = "max (counter_value (get_best ver) + 1) now"
  assume "contains_loop v \<lparr>counter_id = dev, counter_value = ?nv\<rparr>"
  then obtain c where c: "c \<in> set v" "?nv \<le> unmark (counter_value c)"
    using contains_loop_imp by fastforce
  then have "?nv \<le> counter_value c" using assms(1) by (simp add: plain_def unmark_plain)
  then show False
    using c(1) get_best_in_proto(3) [OF assms(1,2)] plain_max(2) [OF assms(3,4)]
    by (meson leD order.trans)
qed

lemma bumped_contains_best:
  assumes "plain v" and "version_of_proto v = Some ver" and "distinct (map counter_id v)"
    and "counter_value (get_best ver) < 0x7FFFFFFFFFFFFFFF" and "now < 0x8000000000000000"
  shows "contains_loop (to_proto (version_update now dev ver)) (get_best ver)"
proof -
  let ?w = "to_proto (version_update now dev ver)"
  let ?x = "\<lparr>counter_id = dev, counter_value = max (counter_value (get_best ver) + 1) now\<rparr>"
  note w = version_update_wire [OF assms(1,2,4,5) refl, of dev]
  have best: "get_best ver \<in> set v" "unmark (counter_value (get_best ver)) = counter_value (get_best ver)"
    using get_best_in_proto(1) [OF assms(1,2)] assms(1) by (auto simp: plain_def unmark_plain)
  have "get_best ver \<in> set ?w \<or> (counter_id ?x = counter_id (get_best ver) \<and> ?x \<in> set ?w)"
  proof (cases "index_of_id dev v")
    case None
    with w best(1) show ?thesis by simp
  next
    case (Some i)
    with w have wi: "?w = v[i := ?x]" "i < length v" "counter_id (v ! i) = dev"
      by (auto dest: index_of_id_SomeD)
    obtain r where "r < length v" "v ! r = get_best ver" using best(1) by (auto simp: in_set_conv_nth)
    with wi show ?thesis by (cases "r = i") (auto simp: set_update_memI in_set_conv_nth nth_list_update)
  qed
  then have "\<exists>c \<in> set ?w. counter_id c = counter_id (get_best ver) \<and>
      counter_value (get_best ver) \<le> unmark (counter_value c)"
    using best(2) plain_max(1,2) [OF assms(4,5)] by (metis counter.select_convs(2) order.refl order.strict_implies_order)
  moreover have "distinct (map counter_id ?w)"
    using w assms(3) by (cases "index_of_id dev v")
      (auto simp: index_of_id_None map_update index_of_id_ids)
  ultimately show ?thesis using contains_loop_distinct by blast
qed

lemma identical_loop_iff:
  "length cs = length ds \<Longrightarrow> identical_loop cs ds \<longleftrightarrow> to_proto cs = to_proto ds"
  by (induction cs ds rule: identical_loop.induct) (auto simp: to_proto_def)

subsection \<open>Properties\<close>

text \<open>
  A non-empty version vector received from a peer survives the conversion to the
  internal form and back, and the counter the internal form marks as best is one of the
  received counters with the greatest value.
\<close>

theorem version_roundtrip:
  assumes "v \<noteq> []" and "plain v"
  shows "\<exists>ver. version_of_proto v = Some ver \<and> to_proto ver = v \<and> get_best ver \<in> set v \<and>
    (\<forall>c \<in> set v. counter_value c \<le> counter_value (get_best ver))"
  using version_of_proto_nonempty [OF assms(1)] get_best_in_proto [OF assms(2)] by blast

lemma version_roundtrip_witness:
  "\<exists>ver. version_of_proto [\<lparr>counter_id = 1, counter_value = 10\<rparr>, \<lparr>counter_id = 2, counter_value = 11\<rparr>] = Some ver
    \<and> to_proto ver = [\<lparr>counter_id = 1, counter_value = 10\<rparr>, \<lparr>counter_id = 2, counter_value = 11\<rparr>]"
  using version_roundtrip [of "[\<lparr>counter_id = 1, counter_value = 10\<rparr>, \<lparr>counter_id = 2, counter_value = 11\<rparr>]"]
  by (auto simp: plain_def not_bit63_less)

text \<open>
  A local modification written to the wire and read back has the modifying device's
  counter as its best counter, with a value above every previous one and not below the clock.
\<close>

theorem version_update_best:
  assumes "plain v" and "version_of_proto v = Some ver"
    and "counter_value (get_best ver) < 0x7FFFFFFFFFFFFFFF" and "now < 0x8000000000000000"
  shows "\<exists>ver'. version_of_proto (to_proto (version_update now dev ver)) = Some ver' \<and>
    get_best ver' = \<lparr>counter_id = dev, counter_value = max (counter_value (get_best ver) + 1) now\<rparr> \<and>
    (\<forall>c \<in> set v. counter_value c < counter_value (get_best ver'))"
proof -
  let ?w = "to_proto (version_update now dev ver)"
  let ?x = "\<lparr>counter_id = dev, counter_value = max (counter_value (get_best ver) + 1) now\<rparr>"
  obtain j where "j < length ?w" "?w ! j = ?x" "plain ?w"
    "\<forall>k < length ?w. k \<noteq> j \<longrightarrow> counter_value (?w ! k) < counter_value ?x"
    using version_update_dominant [OF assms refl refl] by blast
  with version_of_proto_dominant [of j ?w] obtain ver' where
    "version_of_proto ?w = Some ver'" "get_best ver' = ?x" by auto
  moreover have "\<forall>c \<in> set v. counter_value c < counter_value ?x"
    using get_best_in_proto(3) [OF assms(1,2)] plain_max(2) [OF assms(3,4)]
    by (auto intro: le_less_trans)
  ultimately show ?thesis by auto
qed

lemma version_update_best_witness:
  "\<exists>ver'. version_of_proto (to_proto (version_update 5 1
      [\<lparr>counter_id = 1, counter_value = 10\<rparr>, \<lparr>counter_id = 2, counter_value = 0x800000000000000B\<rparr>])) = Some ver' \<and>
    get_best ver' = \<lparr>counter_id = 1, counter_value = 12\<rparr>"
  using version_update_best [of "[\<lparr>counter_id = 1, counter_value = 10\<rparr>, \<lparr>counter_id = 2, counter_value = 11\<rparr>]"
      "[\<lparr>counter_id = 1, counter_value = 10\<rparr>, \<lparr>counter_id = 2, counter_value = 0x800000000000000B\<rparr>]" 5 1]
  by (auto simp: plain_def not_bit63_less version_of_proto_def mark_def BEST_MASK_def get_best_def
      is_marked_def unmark_def)

lemma update_supersedes:
  assumes "plain v" and "version_of_proto v = Some ver" and "distinct (map counter_id v)"
    and "counter_value (get_best ver) < 0x7FFFFFFFFFFFFFFF" and "now < 0x8000000000000000"
    and "version_of_proto (to_proto (version_update now dev ver)) = Some ver'"
  shows "get_best ver' = \<lparr>counter_id = dev, counter_value = max (counter_value (get_best ver) + 1) now\<rparr> \<and>
    version_contains ver' ver \<and> \<not> version_contains ver ver'"
proof -
  let ?w = "to_proto (version_update now dev ver)"
  let ?x = "\<lparr>counter_id = dev, counter_value = max (counter_value (get_best ver) + 1) now\<rparr>"
  obtain j where "j < length ?w" "?w ! j = ?x" "plain ?w"
    "\<forall>k < length ?w. k \<noteq> j \<longrightarrow> counter_value (?w ! k) < counter_value ?x"
    using version_update_dominant [OF assms(1,2,4,5) refl refl] by blast
  then have best': "get_best ver' = ?x" and wire': "to_proto ver' = ?w"
    using version_of_proto_dominant [of j ?w] assms(6) by auto
  have "\<not> contains_loop v ?x" by (rule not_contains_bumped [OF assms(1,2,4,5)])
  moreover have "contains_loop ?w (get_best ver)" by (rule bumped_contains_best [OF assms(1-5)])
  ultimately show ?thesis
    using contains_loop_to_proto [of ver] contains_loop_to_proto [of ver']
    by (simp add: version_contains_def best' wire' get_best_in_proto(2) [OF assms(1,2)])
qed

text \<open>
  The version after a local modification supersedes the version before it, and never
  the other way round; this is what makes a peer holding the old version take the new one.
\<close>

theorem version_update_supersedes:
  assumes "plain v" and "version_of_proto v = Some ver" and "distinct (map counter_id v)"
    and "counter_value (get_best ver) < 0x7FFFFFFFFFFFFFFF" and "now < 0x8000000000000000"
    and "version_of_proto (to_proto (version_update now dev ver)) = Some ver'"
  shows "version_contains ver' ver \<and> \<not> version_contains ver ver'"
  using update_supersedes [OF assms] by blast

lemma version_update_supersedes_witness:
  "version_contains [\<lparr>counter_id = 1, counter_value = 0x800000000000000C\<rparr>, \<lparr>counter_id = 2, counter_value = 11\<rparr>]
     [\<lparr>counter_id = 1, counter_value = 10\<rparr>, \<lparr>counter_id = 2, counter_value = 0x800000000000000B\<rparr>]"
  using version_update_supersedes [of "[\<lparr>counter_id = 1, counter_value = 10\<rparr>, \<lparr>counter_id = 2, counter_value = 11\<rparr>]"
      "[\<lparr>counter_id = 1, counter_value = 10\<rparr>, \<lparr>counter_id = 2, counter_value = 0x800000000000000B\<rparr>]" 5 1
      "[\<lparr>counter_id = 1, counter_value = 0x800000000000000C\<rparr>, \<lparr>counter_id = 2, counter_value = 11\<rparr>]"]
  by (auto simp: plain_def not_bit63_less version_of_proto_def mark_def BEST_MASK_def get_best_def
      is_marked_def unmark_def version_update_def to_proto_def)

text \<open>
  Two versions are identical exactly when they have the same wire form: the order and
  the values of the counters count, the internal mark does not.
\<close>

theorem version_identical_iff: "version_identical_to cs ds \<longleftrightarrow> to_proto cs = to_proto ds"
proof (cases "length cs = length ds")
  case True
  then show ?thesis by (simp add: version_identical_to_def identical_loop_iff)
next
  case False
  then have "to_proto cs \<noteq> to_proto ds" by (metis length_map to_proto_def)
  with False show ?thesis by (simp add: version_identical_to_def)
qed

text \<open>
  Right after a local modification, before the version goes through the wire format,
  \<open>get_best\<close> can still name the previous counter: \<open>update\<close> leaves the old mark in place and
  \<open>get_best\<close> returns the last marked counter.
\<close>

theorem version_update_stale_best:
  "\<exists>v ver now dev. plain v \<and> version_of_proto v = Some ver \<and> now < 0x8000000000000000 \<and>
     get_best (version_update now dev ver) \<noteq>
       \<lparr>counter_id = dev, counter_value = max (counter_value (get_best ver) + 1) now\<rparr>"
proof (intro exI conjI)
  let ?v = "[\<lparr>counter_id = 1, counter_value = 10\<rparr>, \<lparr>counter_id = 2, counter_value = 11\<rparr>] :: version"
  let ?ver = "[\<lparr>counter_id = 1, counter_value = 10\<rparr>, \<lparr>counter_id = 2, counter_value = 0x800000000000000B\<rparr>] :: version"
  show "plain ?v" by (simp add: plain_def not_bit63_less)
  show "version_of_proto ?v = Some ?ver"
    by (simp add: version_of_proto_def mark_def BEST_MASK_def)
  show "(5::u64) < 0x8000000000000000" by simp
  show "get_best (version_update 5 1 ?ver) \<noteq>
     \<lparr>counter_id = 1, counter_value = max (counter_value (get_best ?ver) + 1) 5\<rparr>"
    by (simp add: version_update_def get_best_def is_marked_def mark_def unmark_def BEST_MASK_def)
qed

end
