(* ===== verification/Base32.thy ===== *)
theory Base32
  imports Prelude
begin

text \<open>
  The base32 codec (\<^verbatim>\<open>src/utils/base32.cpp\<close>) and the Luhn mod 32 check character
  (\<^verbatim>\<open>src/proto/luhn32.cpp\<close>). The encoder keeps a 16-bit window of pending input bits in a
  32-bit integer, the decoder an accumulator of less than eight pending bits; both are
  refined to the plain bit-string reading of base32, and the round trip follows from it.
\<close>

subsection \<open>The alphabets\<close>

definition in_alphabet :: string where
  "in_alphabet = ''ABCDEFGHIJKLMNOPQRSTUVWXYZ234567''"

text \<open>
  The table of the source: \<open>2\<close>--\<open>7\<close> at 50--55, \<open>A\<close>--\<open>Z\<close> at 65--90, \<open>-1\<close> elsewhere. It has
  255 entries, so the byte 255 has none.
\<close>

definition out_alphabet :: "int list" where
  "out_alphabet =
     replicate 50 (-1) @ [26, 27, 28, 29, 30, 31] @ replicate 9 (-1) @
     [0, 1, 2, 3, 4, 5, 6, 7, 8, 9, 10, 11, 12, 13, 14, 15, 16, 17, 18, 19, 20, 21, 22, 23, 24, 25] @
     replicate 164 (-1)"

subsection \<open>Encoder\<close>

record encoder =
  enc_in :: u32
  enc_in_bits :: int
  enc_sign_bits :: int
  enc_rest :: bytes

definition pull_in :: "encoder \<Rightarrow> encoder" where
  "pull_in s =
     (let s = (case enc_rest s of [] \<Rightarrow> s
        | in_byte # rest \<Rightarrow> s\<lparr>enc_in_bits := enc_in_bits s + 8,
            enc_in := enc_in s OR push_bit (nat (16 - (enc_in_bits s + 8))) (ucast in_byte),
            enc_rest := rest\<rparr>)
      in s\<lparr>enc_sign_bits := enc_sign_bits s + 8\<rparr>)"

definition enc_index :: "encoder \<Rightarrow> u32" where
  "enc_index s = drop_bit 11 (enc_in s AND push_bit 11 0x1F)"

text \<open>One turn of the loop after its character has been written.\<close>

definition enc_turn :: "encoder \<Rightarrow> encoder" where
  "enc_turn s =
     (let s = s\<lparr>enc_in_bits := enc_in_bits s - 5, enc_sign_bits := enc_sign_bits s - 5,
                enc_in := push_bit 5 (enc_in s) AND 0xFFFE\<rparr>
      in if enc_sign_bits s \<le> 8 \<and> enc_rest s \<noteq> [] then pull_in s else s)"

function encode_loop :: "encoder \<Rightarrow> string" where
  "encode_loop s =
     (if enc_rest s \<noteq> [] \<or> enc_in_bits s > 0
      then in_alphabet ! unat (enc_index s) # encode_loop (enc_turn s)
      else [])"
  by pat_completeness auto
termination
  by (relation "measures [\<lambda>s. length (enc_rest s),
        \<lambda>s. nat (if enc_rest s = [] then enc_in_bits s else enc_sign_bits s)]")
    (auto simp: enc_turn_def pull_in_def Let_def split: list.splits)

declare encode_loop.simps [simp del]

definition encoded_size :: "nat \<Rightarrow> nat" where
  "encoded_size dec_len = (dec_len + 4) div 5 * 8"

definition encode :: "bytes \<Rightarrow> string" where
  "encode input = encode_loop (pull_in (pull_in
     \<lparr>enc_in = 0, enc_in_bits = 0, enc_sign_bits = 0, enc_rest = input\<rparr>))"

subsection \<open>Decoder\<close>

datatype base32_error =
    base32_decoding_failure
  | out_of_table \<comment> \<open>the table or the input is read out of its bounds\<close>

text \<open>
  \<open>char\<close> is signed on the supported targets: the conversion of a byte from 128 up to a
  32-bit index leaves the table.
\<close>

definition quartet_of :: "char \<Rightarrow> (base32_error, u32) result" where
  "quartet_of c = (if 128 \<le> (of_char c :: nat) then Inl out_of_table
     else let quartet = out_alphabet ! of_char c
          in if quartet = -1 then Inl base32_decoding_failure else Inr (word_of_int quartet))"

record decoder =
  dec_out :: u32
  dec_out_bits :: int
  dec_decoded :: bytes

definition push_out :: "decoder \<Rightarrow> decoder" where
  "push_out s = (if 8 \<le> dec_out_bits s
     then let shift = nat (dec_out_bits s - 8);
              byte = drop_bit shift (dec_out s AND push_bit shift 0xFF)
          in s\<lparr>dec_out_bits := dec_out_bits s - 8,
               dec_decoded := dec_decoded s @ [ucast byte],
               dec_out := dec_out s AND (push_bit shift 1 - 1)\<rparr>
     else s)"

fun decode_loop :: "string \<Rightarrow> decoder \<Rightarrow> (base32_error, bytes) result" where
  "decode_loop [] s = Inl out_of_table"
| "decode_loop (c # cs) s =
     (case quartet_of c of
        Inl e \<Rightarrow> Inl e
      | Inr quartet \<Rightarrow>
          (let s = push_out (s\<lparr>dec_out := push_bit 5 (dec_out s) OR quartet,
                              dec_out_bits := dec_out_bits s + 5\<rparr>)
           in if cs = [] then Inr (dec_decoded s) else decode_loop cs s))"

definition decoded_size :: "nat \<Rightarrow> nat" where
  "decoded_size dec_len = dec_len * 5 div 8"

definition decode :: "string \<Rightarrow> (base32_error, bytes) result" where
  "decode input = decode_loop input \<lparr>dec_out = 0, dec_out_bits = 0, dec_decoded = []\<rparr>"

subsection \<open>Luhn mod 32\<close>

text \<open>
  \<open>calc\<close> of \<^verbatim>\<open>luhn32.cpp\<close>; a character outside the alphabet violates its assertion
  or has no table entry (\<open>None\<close>). The factor alternates between 1 and 2.
\<close>

definition luhn_addend :: "int \<Rightarrow> int \<Rightarrow> int" where
  "luhn_addend factor code_point =
     (let addend = factor * code_point in addend div 32 + addend mod 32)"

fun luhn_sum :: "string \<Rightarrow> int \<Rightarrow> int \<Rightarrow> int option" where
  "luhn_sum [] factor acc = Some acc"
| "luhn_sum (c # cs) factor acc =
     (let index = of_char c; code_point = out_alphabet ! index
      in if length out_alphabet \<le> index \<or> code_point < 0 then None
         else luhn_sum cs (if factor = 2 then 1 else 2) (acc + luhn_addend factor code_point))"

definition luhn_calculate :: "string \<Rightarrow> char option" where
  "luhn_calculate s = (case luhn_sum s 1 0 of None \<Rightarrow> None
     | Some acc \<Rightarrow> let remainder = acc mod 32; check_char_index = (32 - remainder) mod 32
                   in Some (in_alphabet ! nat check_char_index))"

definition luhn_validate :: "string \<Rightarrow> bool option" where
  "luhn_validate s = (if s = [] then Some False
     else map_option (\<lambda>c. last s = c) (luhn_calculate (butlast s)))"

subsection \<open>Bit strings\<close>

text \<open>Bit strings are written most significant bit first.\<close>

definition bits_val :: "bool list \<Rightarrow> 'a::len word" where
  "bits_val bs = horner_sum of_bool 2 (rev bs)"

definition word_bits :: "nat \<Rightarrow> 'a::len word \<Rightarrow> bool list" where
  "word_bits n w = map (bit w) (rev [0..<n])"

abbreviation byte_bits :: "u8 \<Rightarrow> bool list" where
  "byte_bits \<equiv> word_bits 8"

definition bytes_bits :: "bytes \<Rightarrow> bool list" where
  "bytes_bits bs = concat (map byte_bits bs)"

lemma bit_bits_val [word_facts]:
  "bit (bits_val bs :: 'a::len word) n \<longleftrightarrow> n < LENGTH('a) \<and> n < length bs \<and> bs ! (length bs - Suc n)"
  by (auto simp: bits_val_def bit_horner_sum_bit_iff rev_nth)

lemma length_word_bits [simp]: "length (word_bits n w) = n"
  by (simp add: word_bits_def)

lemma nth_word_bits [simp]: "k < n \<Longrightarrow> word_bits n w ! k = bit w (n - Suc k)"
  by (simp add: word_bits_def rev_nth)

lemma bits_val_word_bits:
  assumes "\<And>k. n \<le> k \<Longrightarrow> \<not> bit w k"
  shows "bits_val (word_bits n w) = (w :: 'a::len word)"
proof (rule bit_word_eqI)
  fix m
  assume "m < LENGTH('a)"
  with assms show "bit (bits_val (word_bits n w) :: 'a word) m = bit w m"
    by (cases "m < n") (auto simp: bit_bits_val not_less)
qed

lemma word_bits_bits_val:
  "length bs = n \<Longrightarrow> n \<le> LENGTH('a) \<Longrightarrow> word_bits n (bits_val bs :: 'a::len word) = bs"
  by (rule nth_equalityI) (auto simp: bit_bits_val)

lemma byte_bits_inverse [simp]: "bits_val (byte_bits b) = b"
  by (rule bits_val_word_bits) (auto dest: bit_imp_le_length)

lemma length_bytes_bits [simp]: "length (bytes_bits bs) = 8 * length bs"
  by (induction bs) (auto simp: bytes_bits_def)


lemma bytes_bits_Cons [simp]: "bytes_bits (b # bs) = byte_bits b @ bytes_bits bs"
  by (simp add: bytes_bits_def)

lemma bytes_bits_Nil [simp]: "bytes_bits [] = []"
  by (simp add: bytes_bits_def)

lemma bytes_bits_append [simp]: "bytes_bits (xs @ ys) = bytes_bits xs @ bytes_bits ys"
  by (simp add: bytes_bits_def)

text \<open>The reference reading: groups of five bits, the last one padded with zero bits.\<close>

fun quintets :: "bool list \<Rightarrow> bool list list" where
  "quintets bs = (if bs = [] then [] else take 5 (bs @ replicate 4 False) # quintets (drop 5 bs))"

declare quintets.simps [simp del]

lemma quintets_Nil [simp]: "quintets [] = []"
  by (simp add: quintets.simps)

definition quintet_char :: "bool list \<Rightarrow> char" where
  "quintet_char q = in_alphabet ! unat (bits_val q :: u32)"

subsection \<open>The encoder refines the reference reading\<close>

text \<open>A 32-bit window holds pending bits left-aligned in its low 16 bits.\<close>

definition window :: "u32 \<Rightarrow> bool list \<Rightarrow> bool" where
  "window w P \<longleftrightarrow> length P \<le> 16 \<and> (\<forall>k. bit w k \<longleftrightarrow> k < 16 \<and> 15 - k < length P \<and> P ! (15 - k))"

lemma window_bit:
  "window w P \<Longrightarrow> bit w k \<longleftrightarrow> k < 16 \<and> 15 - k < length P \<and> P ! (15 - k)"
  by (simp add: window_def)

lemma window_len: "window w P \<Longrightarrow> length P \<le> 16"
  by (simp add: window_def)

lemma bit_pushed_byte:
  assumes "n \<le> 8"
  shows "bit (push_bit n (ucast (b :: u8)) :: u32) k \<longleftrightarrow> n \<le> k \<and> k < n + 8 \<and> bit b (k - n)"
proof -
  have "bit b (k - n) \<Longrightarrow> k - n < 8" using bit_imp_le_length [of b "k - n"] by simp
  then show ?thesis
    using assms unfolding bit_push_bit_iff bit_unsigned_iff by auto
qed

lemma window_pull:
  assumes "window w P" and "length P + 8 \<le> 16"
  shows "window (w OR push_bit (8 - length P) (ucast b)) (P @ byte_bits b)"
proof -
  have "bit (w OR push_bit (8 - length P) (ucast b)) k \<longleftrightarrow>
      k < 16 \<and> 15 - k < length P + 8 \<and> (P @ byte_bits b) ! (15 - k)" (is "?l \<longleftrightarrow> ?r") for k
  proof -
    have l: "?l \<longleftrightarrow> (k < 16 \<and> 15 - k < length P \<and> P ! (15 - k)) \<or>
        (8 - length P \<le> k \<and> k < 8 - length P + 8 \<and> bit b (k - (8 - length P)))"
      by (simp add: bit_or_iff window_bit [OF assms(1)] bit_pushed_byte)
    have a: ?thesis if h: "k < 16" "15 - k < length P"
    proof -
      have "\<not> k < 8 - length P + 8" using assms(2) h by linarith
      moreover have "(P @ byte_bits b) ! (15 - k) = P ! (15 - k)"
        using h(2) by (simp only: nth_append if_True)
      ultimately show ?thesis using l h trans_less_add1 [OF h(2), of 8] by blast
    qed
    have b: ?thesis if h: "k < 16" "\<not> 15 - k < length P" "8 - length P \<le> k"
    proof -
      have i: "k < 8 - length P + 8" and j: "15 - k < length P + 8"
        using assms(2) h by linarith+
      have m: "15 - k - length P < 8" and n: "8 - Suc (15 - k - length P) = k - (8 - length P)"
        using assms(2) h by linarith+
      have "(P @ byte_bits b) ! (15 - k) = byte_bits b ! (15 - k - length P)"
        using h(2) by (simp only: nth_append if_False)
      also have "\<dots> = bit b (k - (8 - length P))" using m n by (simp only: nth_word_bits)
      finally show ?thesis using l h i j by blast
    qed
    have c: ?thesis if "\<not> k < 16"
    proof -
      have "\<not> k < 8 - length P + 8" using assms(2) that by linarith
      then show ?thesis using l that by blast
    qed
    have d: ?thesis if h: "\<not> 8 - length P \<le> k"
    proof -
      have "\<not> 15 - k < length P + 8" and "\<not> 15 - k < length P" using h by linarith+
      then show ?thesis using l h by blast
    qed
    from a b c d show ?thesis by blast
  qed
  with assms(2) show ?thesis by (simp add: window_def)
qed

lemma window_shift:
  assumes "window w P"
  shows "window (push_bit 5 w AND 0xFFFE) (drop 5 P)"
proof -
  have mask: "bit (0xFFFE :: u32) k \<longleftrightarrow> 1 \<le> k \<and> k < 16" for k
  proof -
    have "(0xFFFE :: u32) = mask 16 AND NOT 1" by (simp add: mask_eq_exp_minus_1)
    then show ?thesis by (simp only: bit_and_iff bit_not_iff bit_mask_iff bit_1_iff) auto
  qed
  have "bit (push_bit 5 w AND 0xFFFE) k \<longleftrightarrow>
      k < 16 \<and> 15 - k < length (drop 5 P) \<and> drop 5 P ! (15 - k)" (is "?l \<longleftrightarrow> ?r") for k
  proof -
    have l: "?l \<longleftrightarrow> 5 \<le> k \<and> k < 16 \<and> 15 - (k - 5) < length P \<and> P ! (15 - (k - 5))"
      unfolding bit_and_iff mask bit_push_bit_iff window_bit [OF assms] by auto
    show ?thesis
    proof (cases "5 \<le> k \<and> k < 16")
      case True
      then have i: "15 - (k - 5) = 5 + (15 - k)" by linarith
      have "drop 5 P ! (15 - k) = P ! (5 + (15 - k))" if "15 - k < length P - 5"
        using that by (intro nth_drop) linarith
      with True l [unfolded i] show ?thesis by (auto simp only: length_drop less_diff_conv add.commute)
    next
      case False
      moreover have "length (drop 5 P) \<le> 11" using window_len [OF assms] unfolding length_drop by linarith
      ultimately show ?thesis using l by linarith
    qed
  qed
  moreover have "length (drop 5 P) \<le> 16" using window_len [OF assms] unfolding length_drop by linarith
  ultimately show ?thesis unfolding window_def by blast
qed

lemma window_index:
  assumes "window (enc_in s) P"
  shows "enc_index s = bits_val (take 5 (P @ replicate 5 False))"
proof (rule bit_word_eqI)
  fix k
  have mask: "bit (0x1F :: u32) n \<longleftrightarrow> n < 5" for n
  proof -
    have "(0x1F :: u32) = mask 5" by (simp add: mask_eq_exp_minus_1)
    then show ?thesis by (simp only: bit_mask_iff) auto
  qed
  have len: "length (take 5 (P @ replicate 5 False)) = 5" by simp
  have "bit (enc_index s) k \<longleftrightarrow> k < 5 \<and> bit (enc_in s) (11 + k)"
    unfolding enc_index_def bit_drop_bit_eq bit_and_iff bit_push_bit_iff mask comp_def
    by (auto dest: bit_imp_le_length)
  also have "\<dots> \<longleftrightarrow> k < 5 \<and> 4 - k < length P \<and> P ! (4 - k)"
    unfolding window_bit [OF assms] by auto
  also have "\<dots> \<longleftrightarrow> bit (bits_val (take 5 (P @ replicate 5 False)) :: u32) k"
    unfolding bit_bits_val len
    by (cases "k < 5"; cases "4 - k < length P") (simp_all add: nth_append diff_less_Suc [of 4, simplified])
  finally show "bit (enc_index s) k = bit (bits_val (take 5 (P @ replicate 5 False)) :: u32) k" .
qed

text \<open>
  The loop invariant of the encoder: while input is left both counters are the number of
  pending bits; once it is used up \<open>in_bits\<close> may drop below zero with nothing pending.
\<close>

definition enc_inv :: "encoder \<Rightarrow> bool list \<Rightarrow> bool" where
  "enc_inv s P \<longleftrightarrow> window (enc_in s) P \<and>
     (enc_rest s \<noteq> [] \<longrightarrow> 9 \<le> length P \<and> enc_in_bits s = int (length P) \<and> enc_sign_bits s = int (length P)) \<and>
     (enc_rest s = [] \<longrightarrow> enc_in_bits s = int (length P) \<or> enc_in_bits s \<le> 0 \<and> P = [])"

lemma pull_in_Cons:
  assumes "window (enc_in s) P" "length P + 8 \<le> 16" "enc_in_bits s = int (length P)"
    "enc_rest s = b # rest"
  shows "window (enc_in (pull_in s)) (P @ byte_bits b) \<and> enc_rest (pull_in s) = rest \<and>
    enc_in_bits (pull_in s) = int (length P + 8) \<and> enc_sign_bits (pull_in s) = enc_sign_bits s + 8"
proof -
  have "nat (16 - (enc_in_bits s + 8)) = 8 - length P" using assms(2,3) by simp
  with assms window_pull [OF assms(1,2), of b] show ?thesis
    by (simp add: pull_in_def Let_def)
qed

lemma enc_turn_inv:
  assumes inv: "enc_inv s P" and go: "enc_rest s \<noteq> [] \<or> enc_in_bits s > 0"
  shows "\<exists>P'. enc_inv (enc_turn s) P' \<and> P' @ bytes_bits (enc_rest (enc_turn s)) =
     drop 5 (P @ bytes_bits (enc_rest s))"
proof -
  define t where "t = s\<lparr>enc_in_bits := enc_in_bits s - 5, enc_sign_bits := enc_sign_bits s - 5,
                enc_in := push_bit 5 (enc_in s) AND 0xFFFE\<rparr>"
  have w: "window (enc_in t) (drop 5 P)" using inv window_shift by (simp add: t_def enc_inv_def)
  show ?thesis
  proof (cases "enc_rest s")
    case Nil
    then have turn: "enc_turn s = t" by (simp add: enc_turn_def t_def)
    have "enc_in_bits s = int (length P)" using Nil inv go by (auto simp: enc_inv_def)
    then have "enc_inv t (drop 5 P)" using w Nil by (auto simp: enc_inv_def t_def)
    then show ?thesis using Nil turn by (intro exI [of _ "drop 5 P"]) (simp add: t_def)
  next
    case (Cons b rest)
    then have P: "9 \<le> length P" "enc_in_bits s = int (length P)" "enc_sign_bits s = int (length P)"
      using inv by (auto simp: enc_inv_def)
    have T: "enc_in_bits t = int (length (drop 5 P))" "enc_sign_bits t = int (length (drop 5 P))"
      "enc_rest t = b # rest" using P Cons by (simp_all add: t_def)
    show ?thesis
    proof (cases "length (drop 5 P) \<le> 8")
      case True
      then have turn: "enc_turn s = pull_in t"
        using T Cons P by (simp add: enc_turn_def t_def Let_def)
      have p: "window (enc_in (pull_in t)) (drop 5 P @ byte_bits b) \<and> enc_rest (pull_in t) = rest \<and>
        enc_in_bits (pull_in t) = int (length (drop 5 P) + 8) \<and> enc_sign_bits (pull_in t) = enc_sign_bits t + 8"
        using True by (intro pull_in_Cons w T) simp
      have "enc_inv (pull_in t) (drop 5 P @ byte_bits b)"
        unfolding enc_inv_def using p T(2) P(1) by simp
      then show ?thesis using p Cons P(1) turn
        by (intro exI [of _ "drop 5 P @ byte_bits b"]) simp
    next
      case False
      then have turn: "enc_turn s = t"
        using T Cons P by (simp add: enc_turn_def t_def Let_def)
      have "enc_inv t (drop 5 P)" unfolding enc_inv_def using w T False by simp
      then show ?thesis using T(3) Cons P(1) turn by (intro exI [of _ "drop 5 P"]) simp
    qed
  qed
qed

lemma take_5_pad: "bs \<noteq> [] \<Longrightarrow> take 5 (bs @ replicate 5 False) = take 5 (bs @ replicate 4 False)"
  by (cases bs) (simp_all add: take_replicate min_def)

lemma encode_loop_quintets:
  "enc_inv s P \<Longrightarrow> encode_loop s = map quintet_char (quintets (P @ bytes_bits (enc_rest s)))"
proof (induction s arbitrary: P rule: encode_loop.induct)
  case (1 s)
  let ?bits = "P @ bytes_bits (enc_rest s)"
  show ?case
  proof (cases "enc_rest s \<noteq> [] \<or> enc_in_bits s > 0")
    case go: True
    obtain P' where P': "enc_inv (enc_turn s) P'"
      "P' @ bytes_bits (enc_rest (enc_turn s)) = drop 5 ?bits"
      using enc_turn_inv [OF 1(2) go] by blast
    have ne: "P \<noteq> []" using go 1(2) by (auto simp: enc_inv_def)
    have "take 5 (P @ replicate 5 False) = take 5 (?bits @ replicate 4 False)"
    proof (cases "enc_rest s")
      case Nil
      then show ?thesis using take_5_pad [OF ne] by simp
    next
      case Cons
      then show ?thesis using 1(2) by (simp add: enc_inv_def)
    qed
    then have "in_alphabet ! unat (enc_index s) = quintet_char (take 5 (?bits @ replicate 4 False))"
      using window_index [of s P] 1(2) by (simp add: quintet_char_def enc_inv_def)
    then show ?thesis
      using 1(1) [OF go P'(1)] P'(2) go ne
      by (simp add: encode_loop.simps [of s] quintets.simps [of ?bits])
  next
    case False
    then have "P = []" "enc_rest s = []" using 1(2) by (auto simp: enc_inv_def)
    with False show ?thesis by (simp add: encode_loop.simps)
  qed
qed

lemma window_0: "window 0 []"
  by (simp add: window_def)

lemma encode_quintets: "encode bs = map quintet_char (quintets (bytes_bits bs))"
proof -
  define s where "s = \<lparr>enc_in = 0 :: u32, enc_in_bits = 0, enc_sign_bits = 0, enc_rest = bs\<rparr>"
  have "\<exists>P. enc_inv (pull_in (pull_in s)) P \<and> P @ bytes_bits (enc_rest (pull_in (pull_in s))) = bytes_bits bs"
  proof (cases bs)
    case Nil
    then show ?thesis
      by (intro exI [of _ "[]"]) (simp add: s_def pull_in_def enc_inv_def window_0)
  next
    case (Cons b rest)
    have p: "window (enc_in (pull_in s)) (byte_bits b) \<and> enc_rest (pull_in s) = rest \<and>
       enc_in_bits (pull_in s) = 8 \<and> enc_sign_bits (pull_in s) = 8"
      using pull_in_Cons [of s "[]" b rest] window_0 Cons by (simp add: s_def)
    show ?thesis
    proof (cases rest)
      case Nil
      then have "enc_rest (pull_in s) = []" using p by simp
      then have "pull_in (pull_in s) = (pull_in s)\<lparr>enc_sign_bits := enc_sign_bits (pull_in s) + 8\<rparr>"
        unfolding pull_in_def [of "pull_in s"] by (simp add: Let_def)
      then show ?thesis using p Nil Cons
        by (intro exI [of _ "byte_bits b"]) (simp add: enc_inv_def)
    next
      case (Cons c rest')
      have "window (enc_in (pull_in (pull_in s))) (byte_bits b @ byte_bits c) \<and>
        enc_rest (pull_in (pull_in s)) = rest' \<and>
        enc_in_bits (pull_in (pull_in s)) = int (length (byte_bits b) + 8) \<and>
        enc_sign_bits (pull_in (pull_in s)) = enc_sign_bits (pull_in s) + 8"
        using p Cons by (intro pull_in_Cons) simp_all
      then show ?thesis using p Cons \<open>bs = b # rest\<close>
        by (intro exI [of _ "byte_bits b @ byte_bits c"]) (simp add: enc_inv_def)
    qed
  qed
  then show ?thesis
    using encode_loop_quintets unfolding encode_def s_def by metis
qed

subsection \<open>The decoder refines the reference reading\<close>

fun octets :: "bool list \<Rightarrow> bytes" where
  "octets bs = (if length bs < 8 then [] else bits_val (take 8 bs) # octets (drop 8 bs))"

declare octets.simps [simp del]

lemma octets_bytes_bits: "length pad < 8 \<Longrightarrow> octets (bytes_bits bs @ pad) = bs"
  by (induction bs) (simp_all add: octets.simps)

lemma length_octets: "length (octets bs) = length bs div 8"
  by (induction bs rule: octets.induct) (simp add: octets.simps [of "_ :: bool list"] div_if)

lemma alphabet_quartet: "n < 32 \<Longrightarrow> quartet_of (in_alphabet ! n) = Inr (of_nat n)"
proof -
  have "list_all (\<lambda>n. quartet_of (in_alphabet ! n) = Inr (of_nat n)) [0..<32]" by code_simp
  then show "n < 32 \<Longrightarrow> quartet_of (in_alphabet ! n) = Inr (of_nat n)" by (simp add: list_all_iff)
qed

lemma unat_bits_val_quintet:
  assumes "length q = 5"
  shows "unat (bits_val q :: u32) < 32"
proof -
  have "unat (bits_val q :: u32) = take_bit 5 (unat (bits_val q :: u32))"
    using assms by (intro bit_eqI) (auto simp: bit_take_bit_iff bit_unsigned_iff bit_bits_val)
  also have "\<dots> < 2 ^ 5" by (rule take_bit_nat_less_exp)
  finally show ?thesis by simp
qed

lemma quartet_of_quintet_char: "length q = 5 \<Longrightarrow> quartet_of (quintet_char q) = Inr (bits_val q)"
  using alphabet_quartet [OF unat_bits_val_quintet, of q] by (simp add: quintet_char_def)

lemma bits_val_snoc:
  assumes "length q = 5"
  shows "push_bit 5 (bits_val Q) OR bits_val q = (bits_val (Q @ q) :: u32)"
proof (rule bit_word_eqI)
  fix n
  assume "n < LENGTH(32)"
  then show "bit (push_bit 5 (bits_val Q) OR bits_val q :: u32) n = bit (bits_val (Q @ q) :: u32) n"
    unfolding bit_or_iff bit_push_bit_iff bit_bits_val using assms
    by (cases "n < 5") (auto simp: nth_append)
qed

definition dec_inv :: "decoder \<Rightarrow> bool list \<Rightarrow> bool" where
  "dec_inv s Q \<longleftrightarrow> dec_out s = bits_val Q \<and> dec_out_bits s = int (length Q)"

lemma push_out_inv:
  assumes inv: "dec_inv s Q" and len: "length Q < 16"
  shows "if 8 \<le> length Q
     then dec_inv (push_out s) (drop 8 Q) \<and> dec_decoded (push_out s) = dec_decoded s @ [bits_val (take 8 Q)]
     else push_out s = s"
proof (cases "8 \<le> length Q")
  case True
  define shift where "shift = length Q - 8"
  have shift: "nat (dec_out_bits s - 8) = shift" using inv True by (simp add: dec_inv_def shift_def)
  have out: "dec_out s = bits_val Q" using inv by (simp add: dec_inv_def)
  have mask8: "bit (0xFF :: u32) n \<longleftrightarrow> n < 8" for n
  proof -
    have "(0xFF :: u32) = mask 8" by (simp add: mask_eq_exp_minus_1)
    then show ?thesis by (simp only: bit_mask_iff) auto
  qed
  have byte: "(ucast (drop_bit shift (dec_out s AND push_bit shift 0xFF)) :: u8) = bits_val (take 8 Q)"
  proof (rule bit_word_eqI)
    fix n
    assume "n < LENGTH(8)"
    then have n: "n < 8" by simp
    then have "shift + n < 32" "length Q - Suc (shift + n) = 8 - Suc n" "shift + n < length Q"
      using True len by (auto simp: shift_def)
    then show "bit (ucast (drop_bit shift (dec_out s AND push_bit shift 0xFF)) :: u8) n =
        bit (bits_val (take 8 Q) :: u8) n"
      unfolding out bit_unsigned_iff bit_drop_bit_eq bit_and_iff bit_push_bit_iff mask8 bit_bits_val comp_def
      using n True by simp
  qed
  have rest: "dec_out s AND (push_bit shift 1 - 1) = bits_val (drop 8 Q)"
  proof (rule bit_word_eqI)
    fix n
    assume "n < LENGTH(32)"
    have m: "push_bit shift 1 - 1 = (mask shift :: u32)" by (simp add: mask_eq_exp_minus_1 push_bit_eq_mult)
    have "8 + (length Q - 8 - Suc n) = length Q - Suc n" if "n < shift" using that by (simp add: shift_def)
    then show "bit (dec_out s AND (push_bit shift 1 - 1)) n = bit (bits_val (drop 8 Q) :: u32) n"
      unfolding m out bit_and_iff bit_mask_iff bit_bits_val using \<open>n < LENGTH(32)\<close> True
      by (auto simp: shift_def)
  qed
  have "8 \<le> dec_out_bits s" using inv True by (simp add: dec_inv_def)
  then have "push_out s = s\<lparr>dec_out_bits := dec_out_bits s - 8,
      dec_decoded := dec_decoded s @ [bits_val (take 8 Q)], dec_out := bits_val (drop 8 Q)\<rparr>"
    unfolding push_out_def shift Let_def byte rest by simp
  then show ?thesis using True inv by (simp add: dec_inv_def)
next
  case False
  then show ?thesis using inv by (simp add: push_out_def dec_inv_def)
qed

lemma decode_loop_octets:
  assumes "dec_inv s Q" "length Q < 8" "\<forall>q \<in> set qs. length q = 5" "qs \<noteq> []"
  shows "decode_loop (map quintet_char qs) s = Inr (dec_decoded s @ octets (Q @ concat qs))"
  using assms
proof (induction qs arbitrary: s Q)
  case Nil
  then show ?case by simp
next
  case (Cons q qs)
  define t where "t = s\<lparr>dec_out := push_bit 5 (dec_out s) OR bits_val q, dec_out_bits := dec_out_bits s + 5\<rparr>"
  have len: "length q = 5" using Cons.prems by simp
  have t: "dec_inv t (Q @ q)" "dec_decoded t = dec_decoded s"
    using Cons.prems(1) len bits_val_snoc [OF len, of Q] by (simp_all add: t_def dec_inv_def)
  have step: "decode_loop (map quintet_char (q # qs)) s =
      (if qs = [] then Inr (dec_decoded (push_out t)) else decode_loop (map quintet_char qs) (push_out t))"
    using quartet_of_quintet_char [OF len] by (simp add: t_def Let_def)
  show ?case
  proof (cases "8 \<le> length (Q @ q)")
    case True
    then have p: "dec_inv (push_out t) (drop 8 (Q @ q))"
      "dec_decoded (push_out t) = dec_decoded s @ [bits_val (take 8 (Q @ q))]"
      using push_out_inv [OF t(1)] Cons.prems(2) len t(2) by simp_all
    have l: "length (drop 8 (Q @ q)) < 8" using len Cons.prems(2) by simp
    have "octets (Q @ concat (q # qs)) = bits_val (take 8 (Q @ q)) # octets (drop 8 (Q @ q) @ concat qs)"
      using True by (subst octets.simps) simp
    then show ?thesis
      using step p Cons.IH [OF p(1) l] Cons.prems l by (auto simp: octets.simps [of "drop _ _ @ _"])
  next
    case False
    then have p: "push_out t = t" using push_out_inv [OF t(1)] by auto
    show ?thesis
      using step p t Cons.IH [OF t(1)] Cons.prems False by (auto simp: octets.simps)
  qed
qed

lemma decode_octets:
  assumes "\<forall>q \<in> set qs. length q = 5" "qs \<noteq> []"
  shows "decode (map quintet_char qs) = Inr (octets (concat qs))"
  using decode_loop_octets [of "\<lparr>dec_out = 0, dec_out_bits = 0, dec_decoded = []\<rparr>" "[]" qs] assms
  by (simp add: decode_def dec_inv_def bits_val_def)

lemma decode_loop_length:
  assumes "decode_loop cs s = Inr bs" "0 \<le> dec_out_bits s" "dec_out_bits s < 8"
  shows "8 * int (length bs) \<le> 8 * int (length (dec_decoded s)) + dec_out_bits s + 5 * int (length cs) \<and>
    8 * int (length (dec_decoded s)) + dec_out_bits s + 5 * int (length cs) < 8 * int (length bs) + 8"
  using assms
proof (induction cs s rule: decode_loop.induct)
  case (2 c cs s)
  then obtain q where q: "quartet_of c = Inr q" by (cases "quartet_of c") auto
  define t where "t = push_out (s\<lparr>dec_out := push_bit 5 (dec_out s) OR q, dec_out_bits := dec_out_bits s + 5\<rparr>)"
  have t: "0 \<le> dec_out_bits t" "dec_out_bits t < 8"
    "8 * int (length (dec_decoded t)) + dec_out_bits t = 8 * int (length (dec_decoded s)) + dec_out_bits s + 5"
    using 2(3,4) by (auto simp: t_def push_out_def Let_def)
  show ?case
  proof (cases "cs = []")
    case True
    then have "bs = dec_decoded t" using 2(2) q by (simp add: t_def Let_def)
    then show ?thesis using t True by simp
  next
    case False
    then have "decode_loop cs t = Inr bs" using 2(2) q by (simp add: t_def Let_def)
    then show ?thesis
      using 2(1) [OF q t_def False] t by simp
  qed
qed simp

text \<open>
  Whatever the input, a successful decoding has exactly the \<^const>\<open>decoded_size\<close> bytes the
  decoder allocates: no byte is written past the buffer and none is left at its initial zero.
\<close>

theorem base32_decoded_length:
  assumes "decode input = Inr bs"
  shows "length bs = decoded_size (length input)"
proof -
  have "8 * int (length bs) \<le> 5 * int (length input) \<and> 5 * int (length input) < 8 * int (length bs) + 8"
    using decode_loop_length [OF assms [unfolded decode_def]] by simp
  then have "8 * length bs \<le> length input * 5" "length input * 5 < 8 * Suc (length bs)" by simp_all
  then show ?thesis unfolding decoded_size_def by (metis div_nat_eqI)
qed

theorem base32_decoded_length_witness:
  "decode ''KRUGKIDR'' = Inr [0x54, 0x68, 0x65, 0x20, 0x71] \<and>
   length [0x54, 0x68, 0x65, 0x20, 0x71 :: u8] = decoded_size (length ''KRUGKIDR'')"
proof -
  have d: "decode ''KRUGKIDR'' = Inr [0x54, 0x68, 0x65, 0x20, 0x71]" by code_simp
  show ?thesis using d base32_decoded_length [OF d] by (rule conjI)
qed

lemma concat_quintets:
  "\<exists>k \<le> 4. concat (quintets bs) = bs @ replicate k False"
proof (induction bs rule: quintets.induct)
  case (1 bs)
  show ?case
  proof (cases "length bs \<le> 5")
    case True
    then show ?thesis
      by (cases "bs = []")
         (auto simp: quintets.simps [of bs] intro!: exI [of _ "5 - length bs"] split: nat_diff_split)
  next
    case False
    then have ne: "bs \<noteq> []" by auto
    then obtain k where "k \<le> 4" "concat (quintets (drop 5 bs)) = drop 5 bs @ replicate k False" using 1 by blast
    then show ?thesis using ne False
      by (auto simp: quintets.simps [of bs] intro!: exI [of _ k])
  qed
qed

lemma length_quintets:
  "\<forall>q \<in> set (quintets bs). length q = 5"
proof (induction bs rule: quintets.induct)
  case (1 bs)
  show ?case
  proof (cases "bs = []")
    case False
    then have "1 \<le> length bs" by (cases bs) simp_all
    then have "length (take 5 (bs @ replicate 4 False)) = 5" by simp
    then show ?thesis using 1 [OF False] False by (simp add: quintets.simps [of bs])
  qed simp
qed

lemma quintets_count: "length (quintets bs) = (length bs + 4) div 5"
proof (induction bs rule: quintets.induct)
  case (1 bs)
  show ?case
  proof (cases "bs = []")
    case False
    then have "1 \<le> length bs" by (cases bs) simp_all
    moreover have "length (quintets bs) = Suc ((length bs - 5 + 4) div 5)"
      using 1 [OF False] False by (simp add: quintets.simps [of bs])
    ultimately show ?thesis by (cases "length bs < 5") (auto simp: div_if)
  qed simp
qed

lemma quintet_char_valid: "length q = 5 \<Longrightarrow> quintet_char q \<in> set in_alphabet"
  using unat_bits_val_quintet [of q] unfolding quintet_char_def
  by (intro nth_mem) (simp add: in_alphabet_def)

lemma base32_decode_encode:
  assumes "bs \<noteq> []"
  shows "decode (encode bs) = Inr bs"
proof -
  obtain k where "k \<le> 4" "concat (quintets (bytes_bits bs)) = bytes_bits bs @ replicate k False"
    using concat_quintets by blast
  moreover have "bytes_bits bs \<noteq> []" using assms by (metis length_bytes_bits length_0_conv mult_is_0 zero_neq_numeral)
  then have "quintets (bytes_bits bs) \<noteq> []" by (simp add: quintets.simps [of "bytes_bits bs"])
  ultimately show ?thesis
    by (simp add: encode_quintets decode_octets length_quintets octets_bytes_bits)
qed

lemma base32_encode_length: "length (encode bs) = (8 * length bs + 4) div 5"
  by (simp add: encode_quintets quintets_count)

lemma base32_encode_chars: "set (encode bs) \<subseteq> set in_alphabet"
  using length_quintets by (auto simp: encode_quintets intro: quintet_char_valid)

text \<open>
  Base32 encoding followed by decoding gives back every non-empty byte string.
\<close>

theorem base32_roundtrip:
  assumes "bs \<noteq> []"
  shows "decode (encode bs) = Inr bs"
  using assms by (rule base32_decode_encode)

theorem base32_roundtrip_witness:
  "[0xDE, 0xAD, 0xBE, 0xEF] \<noteq> ([] :: bytes) \<and> decode (encode [0xDE, 0xAD, 0xBE, 0xEF]) = Inr [0xDE, 0xAD, 0xBE, 0xEF]"
  using base32_roundtrip [of "[0xDE, 0xAD, 0xBE, 0xEF]"] by simp

text \<open>
  The encoder writes exactly \<open>\<lceil>8 n / 5\<rceil>\<close> characters, all of the alphabet, and stays
  within the buffer of \<^const>\<open>encoded_size\<close> characters it allocates.
\<close>

theorem base32_encode_bounds:
  "length (encode bs) = (8 * length bs + 4) div 5 \<and> length (encode bs) \<le> encoded_size (length bs) \<and>
   set (encode bs) \<subseteq> set in_alphabet"
  unfolding base32_encode_length encoded_size_def using base32_encode_chars by auto

subsection \<open>The check character\<close>

definition code_point :: "char \<Rightarrow> int" where
  "code_point c = out_alphabet ! of_char c"

lemma out_alphabet_in_alphabet:
  assumes "c \<in> set in_alphabet"
  shows "(of_char c :: nat) < length out_alphabet \<and> 0 \<le> code_point c \<and> code_point c < 32 \<and>
    in_alphabet ! nat (code_point c) = c"
proof -
  have "list_all (\<lambda>c. (of_char c :: nat) < length out_alphabet \<and> 0 \<le> code_point c \<and> code_point c < 32 \<and>
    in_alphabet ! nat (code_point c) = c) in_alphabet" by code_simp
  then show ?thesis using assms by (simp add: list_all_iff)
qed

lemma out_alphabet_negative:
  assumes "n < length out_alphabet" "n \<notin> {50..<56} \<union> {65..<91}"
  shows "out_alphabet ! n = -1"
proof -
  consider "n < 50" | "56 \<le> n" "n < 65" | "91 \<le> n" "n < 255"
    using assms by (auto simp: out_alphabet_def)
  then show ?thesis by cases (simp_all add: out_alphabet_def nth_append)
qed

lemma alphabet_codes: "(n :: nat) \<in> {50..<56} \<union> {65..<91} \<Longrightarrow> char_of n \<in> set in_alphabet"
proof -
  have "list_all (\<lambda>n. char_of n \<in> set in_alphabet) ([50..<56] @ [65..<91])" by code_simp
  then show "n \<in> {50..<56} \<union> {65..<91} \<Longrightarrow> char_of n \<in> set in_alphabet"
    unfolding list_all_iff by (metis set_append set_upt)
qed

lemma out_alphabet_other:
  assumes "c \<notin> set in_alphabet" "(of_char c :: nat) < length out_alphabet"
  shows "code_point c < 0"
proof -
  have "(of_char c :: nat) \<notin> {50..<56} \<union> {65..<91}"
    using assms(1) alphabet_codes [of "of_char c"] by (metis char_of_char)
  then show ?thesis using out_alphabet_negative [OF assms(2)] by (simp add: code_point_def)
qed

definition luhn_flip :: "int \<Rightarrow> int" where
  "luhn_flip factor = (if factor = 2 then 1 else 2)"

fun luhn_total :: "string \<Rightarrow> int \<Rightarrow> int" where
  "luhn_total [] factor = 0"
| "luhn_total (c # cs) factor = luhn_addend factor (code_point c) + luhn_total cs (luhn_flip factor)"

lemma luhn_sum_total:
  "luhn_sum s factor acc =
     (if set s \<subseteq> set in_alphabet then Some (acc + luhn_total s factor) else None)"
proof (induction s arbitrary: factor acc)
  case (Cons c cs)
  show ?case
  proof (cases "c \<in> set in_alphabet")
    case True
    then show ?thesis using out_alphabet_in_alphabet [OF True] Cons.IH
      by (auto simp: Let_def code_point_def luhn_flip_def)
  next
    case False
    then have "length out_alphabet \<le> of_char c \<or> code_point c < 0"
      using out_alphabet_other [OF False] by linarith
    then show ?thesis using False by (auto simp: Let_def code_point_def)
  qed
qed simp

lemma luhn_total_append:
  "luhn_total (xs @ ys) f = luhn_total xs f + luhn_total ys ((luhn_flip ^^ length xs) f)"
  by (induction xs arbitrary: f) (simp_all add: funpow_swap1)

text \<open>Both factors permute the residues modulo 32, so one changed character changes the sum.\<close>

lemma luhn_addend_2:
  assumes "0 \<le> x" "x < 32"
  shows "luhn_addend 2 x mod 32 = (if x < 16 then 2 * x else 2 * x - 31)"
proof (cases "x < 16")
  case True
  then show ?thesis using assms by (simp add: luhn_addend_def)
next
  case False
  then have "2 * x div 32 = 1" "2 * x mod 32 = 2 * x - 32" using assms by presburger+
  then show ?thesis using False assms by (simp add: luhn_addend_def)
qed

lemma luhn_addend_inj:
  assumes "factor \<in> {1, 2}" "0 \<le> x" "x < 32" "0 \<le> y" "y < 32"
    "luhn_addend factor x mod 32 = luhn_addend factor y mod 32"
  shows "x = y"
proof (cases "factor = 1")
  case True
  then show ?thesis using assms by (simp add: luhn_addend_def)
next
  case False
  then have "(if x < 16 then 2 * x else 2 * x - 31) = (if y < 16 then 2 * y else 2 * y - 31)"
    using assms luhn_addend_2 [of x] luhn_addend_2 [of y] by auto
  then show ?thesis by (auto split: if_splits) presburger+
qed

lemma luhn_complement_inj:
  fixes a b :: int
  assumes "0 \<le> a" "a < 32" "0 \<le> b" "b < 32" "(32 - a) mod 32 = (32 - b) mod 32"
  shows "a = b"
proof -
  have c: "(32 - x) mod 32 = (if x = 0 then 0 else 32 - x)" if "0 \<le> x" "x < 32" for x :: int
  proof (cases "x = 0")
    case False
    then have "(32 - x) mod 32 = 32 - x" using that by (intro mod_pos_pos_trivial) linarith+
    then show ?thesis using False by (simp only: if_False)
  qed simp
  from assms show ?thesis unfolding c [OF assms(1,2)] c [OF assms(3,4)] by (simp split: if_splits)
qed

lemma mod_addend_cancel:
  fixes a b c x y :: int
  assumes "(a + x + b) mod 32 = (a + y + b) mod 32"
  shows "x mod 32 = y mod 32"
  using assms by (simp add: mod_eq_dvd_iff)

lemma luhn_flip_range: "factor \<in> {1, 2} \<Longrightarrow> (luhn_flip ^^ n) factor \<in> {1, 2}"
  by (induction n) (auto simp: luhn_flip_def)

lemma luhn_calculate_eq:
  "luhn_calculate s = (if set s \<subseteq> set in_alphabet
     then Some (in_alphabet ! nat ((32 - luhn_total s 1 mod 32) mod 32)) else None)"
  by (simp add: luhn_calculate_def luhn_sum_total Let_def)

lemma luhn_calculate_char:
  assumes "set s \<subseteq> set in_alphabet"
  shows "\<exists>c. luhn_calculate s = Some c \<and> c \<in> set in_alphabet"
proof -
  have "nat ((32 - luhn_total s 1 mod 32) mod 32) < length in_alphabet" by (simp add: in_alphabet_def)
  then show ?thesis using assms nth_mem unfolding luhn_calculate_eq by fastforce
qed

lemma in_alphabet_inj:
  assumes "0 \<le> x" "x < 32" "0 \<le> y" "y < 32" "in_alphabet ! nat x = in_alphabet ! nat y"
  shows "x = (y :: int)"
proof -
  have "distinct in_alphabet" "length in_alphabet = 32" by (simp_all add: in_alphabet_def)
  then show ?thesis using assms nth_eq_iff_index_eq [of in_alphabet "nat x" "nat y"] by simp
qed

lemma luhn_total_update:
  assumes "i < length s" "s ! i \<in> set in_alphabet" "d \<in> set in_alphabet" "d \<noteq> s ! i"
  shows "luhn_total s 1 mod 32 \<noteq> luhn_total (s[i := d]) 1 mod 32"
proof
  let ?f = "(luhn_flip ^^ i) 1"
  let ?xs = "take i s" and ?ys = "drop (Suc i) s"
  assume eq: "luhn_total s 1 mod 32 = luhn_total (s[i := d]) 1 mod 32"
  have f: "?f \<in> {1, 2}" by (rule luhn_flip_range) simp
  have len: "length ?xs = i" using assms(1) by simp
  have total: "luhn_total (?xs @ [e] @ ?ys) 1 = luhn_total ?xs 1 + luhn_addend ?f (code_point e) +
      luhn_total ?ys (luhn_flip ?f)" for e
    unfolding luhn_total_append len by simp
  have split: "s = ?xs @ [s ! i] @ ?ys" "s[i := d] = ?xs @ [d] @ ?ys"
    using assms(1) by (simp_all add: id_take_nth_drop [symmetric] upd_conv_take_nth_drop)
  have "(luhn_total ?xs 1 + luhn_addend ?f (code_point (s ! i)) + luhn_total ?ys (luhn_flip ?f)) mod 32 =
    (luhn_total ?xs 1 + luhn_addend ?f (code_point d) + luhn_total ?ys (luhn_flip ?f)) mod 32"
    using eq unfolding total [symmetric] split [symmetric] .
  then have "luhn_addend ?f (code_point (s ! i)) mod 32 = luhn_addend ?f (code_point d) mod 32"
    by (rule mod_addend_cancel)
  then have "code_point (s ! i) = code_point d"
    using luhn_addend_inj [OF f] out_alphabet_in_alphabet [OF assms(2)]
      out_alphabet_in_alphabet [OF assms(3)] by metis
  then show False
    using out_alphabet_in_alphabet [OF assms(2)] out_alphabet_in_alphabet [OF assms(3)] assms(4) by metis
qed

lemma luhn_calculate_update:
  assumes "set s \<subseteq> set in_alphabet" "i < length s" "d \<in> set in_alphabet" "d \<noteq> s ! i"
  shows "\<exists>e. luhn_calculate (s[i := d]) = Some e \<and> luhn_calculate s \<noteq> Some e"
proof -
  let ?a = "luhn_total s 1 mod 32" and ?b = "luhn_total (s[i := d]) 1 mod 32"
  have "s ! i \<in> set in_alphabet" using assms(1,2) nth_mem by blast
  then have ne: "?a \<noteq> ?b" using luhn_total_update assms(2-4) by blast
  have sub: "set (s[i := d]) \<subseteq> set in_alphabet"
    using assms(1,3) set_update_subset_insert [of s i d] by blast
  have "(32 - ?a) mod 32 \<noteq> (32 - ?b) mod 32"
    using ne luhn_complement_inj [of ?a ?b] by (metis pos_mod_sign pos_mod_bound zero_less_numeral)
  then have "in_alphabet ! nat ((32 - ?a) mod 32) \<noteq> in_alphabet ! nat ((32 - ?b) mod 32)"
    using in_alphabet_inj by (metis pos_mod_sign pos_mod_bound zero_less_numeral)
  then show ?thesis unfolding luhn_calculate_eq using sub assms(1) by simp
qed

text \<open>
  A string of alphabet characters with its check character appended validates, and
  replacing any one of its characters by another alphabet character makes it invalid.
\<close>

theorem luhn_detects_substitution:
  assumes "set s \<subseteq> set in_alphabet" "luhn_calculate s = Some c"
    and "i < length (s @ [c])" "d \<in> set in_alphabet" "d \<noteq> (s @ [c]) ! i"
  shows "luhn_validate (s @ [c]) = Some True \<and> luhn_validate ((s @ [c])[i := d]) = Some False"
proof -
  have ok: "luhn_validate (s @ [c]) = Some True" using assms(2) by (simp add: luhn_validate_def)
  show ?thesis
  proof (cases "i = length s")
    case True
    then show ?thesis using ok assms(2,5) by (simp add: luhn_validate_def)
  next
    case False
    then have i: "i < length s" using assms(3) by simp
    then obtain e where "luhn_calculate (s[i := d]) = Some e" "c \<noteq> e"
      using luhn_calculate_update [OF assms(1) i assms(4)] assms(2,5) by (auto simp: nth_append)
    then show ?thesis using ok i by (simp add: luhn_validate_def list_update_append)
  qed
qed

theorem luhn_detects_substitution_witness:
  "luhn_validate ''P56IOI7MZJNU2Y'' = Some True \<and> luhn_validate ''P56IOI6MZJNU2Y'' = Some False"
proof -
  have "set ''P56IOI7MZJNU2'' \<subseteq> set in_alphabet" by (simp add: in_alphabet_def)
  moreover have "luhn_calculate ''P56IOI7MZJNU2'' = Some CHR ''Y''" by code_simp
  moreover have "CHR ''6'' \<in> set in_alphabet" by (simp add: in_alphabet_def)
  ultimately show ?thesis
    using luhn_detects_substitution [of "''P56IOI7MZJNU2''" "CHR ''Y''" 6 "CHR ''6''"] by simp
qed

end
