(* ===== verification/Device_Id.thy ===== *)
theory Device_Id
  imports Base32
begin

text \<open>
  Device identifiers (\<^verbatim>\<open>src/model/device_id.h\<close>, \<^verbatim>\<open>src/model/device_id.cpp\<close>): the dashed,
  check-digit carrying text of a SHA-256 digest. An assertion of the source that does not hold
  is the outer \<open>None\<close>; the empty optional is the inner one.
\<close>

subsection \<open>Constants and data\<close>

definition SHA256_B32_SIZE :: nat where "SHA256_B32_SIZE = 52"
definition CHECK_DIGIT_INT :: nat where "CHECK_DIGIT_INT = 13"
definition LUHN_ITERATIONS :: nat where "LUHN_ITERATIONS = SHA256_B32_SIZE div 13"
definition LUHNIZED_SIZE :: nat where "LUHNIZED_SIZE = SHA256_B32_SIZE + LUHN_ITERATIONS"
definition DASH_INT :: nat where "DASH_INT = 7"
definition DASH_ITERATIONS :: nat where "DASH_ITERATIONS = LUHNIZED_SIZE div DASH_INT"
definition DASHED_SIZE :: nat where "DASHED_SIZE = LUHNIZED_SIZE + DASH_ITERATIONS - 1"
definition digest_length :: nat where "digest_length = 32"

lemmas device_id_sizes = SHA256_B32_SIZE_def CHECK_DIGIT_INT_def LUHN_ITERATIONS_def LUHNIZED_SIZE_def
  DASH_INT_def DASH_ITERATIONS_def DASHED_SIZE_def digest_length_def

text \<open>The key of the source is the database prefix followed by the digest kept here.\<close>

record device_id =
  did_value :: string
  did_sha256 :: bytes

definition make_device_id :: "string \<Rightarrow> bytes \<Rightarrow> device_id option" where
  "make_device_id value sha256 =
     (if length sha256 = digest_length then Some \<lparr>did_value = value, did_sha256 = sha256\<rparr> else None)"

definition get_short :: "device_id \<Rightarrow> string" where
  "get_short d = take DASH_INT (did_value d)"

definition get_uint :: "device_id \<Rightarrow> u64" where
  "get_uint d = foldl (\<lambda>acc b. push_bit 8 acc OR ucast b) 0 (take 8 (did_sha256 d))"

definition matches_uint :: "device_id \<Rightarrow> u64 \<Rightarrow> bool" where
  "matches_uint d value \<longleftrightarrow> get_uint d = value"

subsection \<open>From text\<close>

text \<open>
  The dashes are removed in place, in one buffer: the characters kept move to its front and
  the last cells keep what they held. With the eight groups of the format these are seven
  cells past the part read below.
\<close>

definition remove_dashes :: "string \<Rightarrow> string" where
  "remove_dashes buff = (let kept = filter (\<lambda>c. c \<noteq> CHR ''-'') buff in kept @ drop (length kept) buff)"

fun validate_pieces :: "nat \<Rightarrow> string \<Rightarrow> bool option" where
  "validate_pieces 0 buff = Some True"
| "validate_pieces (Suc n) buff =
     (case luhn_validate (take (CHECK_DIGIT_INT + 1) buff) of
        None \<Rightarrow> None
      | Some False \<Rightarrow> Some False
      | Some True \<Rightarrow> validate_pieces n (drop (CHECK_DIGIT_INT + 1) buff))"

fun strip_check_digits :: "string \<Rightarrow> nat \<Rightarrow> string" where
  "strip_check_digits [] c = []"
| "strip_check_digits (x # xs) c =
     (if c = CHECK_DIGIT_INT then strip_check_digits xs 0 else x # strip_check_digits xs (Suc c))"

definition from_string :: "string \<Rightarrow> device_id option option" where
  "from_string value =
     (if length value \<noteq> DASHED_SIZE then Some None
      else let buff = take LUHNIZED_SIZE (remove_dashes value)
           in case validate_pieces (LUHNIZED_SIZE div (CHECK_DIGIT_INT + 1)) buff of
                None \<Rightarrow> None
              | Some False \<Rightarrow> Some None
              | Some True \<Rightarrow>
                  (case decode (strip_check_digits buff 0) of
                     Inl e \<Rightarrow> Some None
                   | Inr sha \<Rightarrow> map_option Some (make_device_id value sha)))"

subsection \<open>From a digest\<close>

fun luhnize :: "nat \<Rightarrow> string \<Rightarrow> string option" where
  "luhnize 0 sha = Some []"
| "luhnize (Suc n) sha =
     (case luhn_calculate (take CHECK_DIGIT_INT sha) of
        None \<Rightarrow> None
      | Some c \<Rightarrow> map_option (\<lambda>rest. take CHECK_DIGIT_INT sha @ [c] @ rest) (luhnize n (drop CHECK_DIGIT_INT sha)))"

fun add_dashes :: "nat \<Rightarrow> string \<Rightarrow> string" where
  "add_dashes 0 s = []"
| "add_dashes (Suc n) s =
     take DASH_INT s @ (if n = 0 then [] else [CHR ''-'']) @ add_dashes n (drop DASH_INT s)"

definition from_sha256 :: "bytes \<Rightarrow> device_id option option" where
  "from_sha256 sha256 =
     (let sha256_enc = encode sha256
      in if length sha256_enc \<noteq> SHA256_B32_SIZE then Some None
         else case luhnize LUHN_ITERATIONS sha256_enc of
                None \<Rightarrow> None
              | Some luhnized \<Rightarrow> map_option Some (make_device_id (add_dashes DASH_ITERATIONS luhnized) sha256))"

text \<open>The digest of a certificate is computed by the TLS library, here an argument.\<close>

definition from_cert :: "(bytes \<Rightarrow> bytes option) \<Rightarrow> bytes \<Rightarrow> device_id option option" where
  "from_cert sha256_digest data =
     (case sha256_digest data of None \<Rightarrow> Some None | Some sha \<Rightarrow> from_sha256 sha)"

subsection \<open>Short names\<close>

definition be_bytes :: "u64 \<Rightarrow> bytes" where
  "be_bytes v = map (\<lambda>k. ucast (drop_bit (8 * k) v)) (rev [0..<8])"

definition make_short :: "u64 \<Rightarrow> string" where
  "make_short value = (if value = 0 then [] else take DASH_INT (encode (take 5 (be_bytes value))))"

text \<open>
  The overload for a digest copies its first eight bytes into an integer and swaps that
  integer to big endian in place, which reverses the bytes on the little-endian targets.
\<close>

definition make_short_sha :: "bytes \<Rightarrow> string" where
  "make_short_sha sha256 = take DASH_INT (encode (take 5 (rev (take 8 sha256))))"

subsection \<open>Round trip\<close>

lemma filter_add_dashes:
  "CHR ''-'' \<notin> set s \<Longrightarrow> length s = n * DASH_INT \<Longrightarrow> filter (\<lambda>c. c \<noteq> CHR ''-'') (add_dashes n s) = s"
proof (induction n arbitrary: s)
  case (Suc n)
  have "CHR ''-'' \<notin> set (take DASH_INT s)" "CHR ''-'' \<notin> set (drop DASH_INT s)"
    using Suc.prems(1) by (auto dest: in_set_takeD in_set_dropD)
  moreover from this have "filter (\<lambda>c. c \<noteq> CHR ''-'') (take DASH_INT s) = take DASH_INT s"
    by (intro filter_True) auto
  ultimately show ?case using Suc by simp
qed simp

lemma length_add_dashes:
  "length s = n * DASH_INT \<Longrightarrow> length (add_dashes n s) = n * DASH_INT + (n - 1)"
  by (induction n arbitrary: s) (auto simp: DASH_INT_def)

lemma strip_check_digits_run:
  "length xs + c \<le> CHECK_DIGIT_INT \<Longrightarrow> strip_check_digits (xs @ ys) c = xs @ strip_check_digits ys (c + length xs)"
  by (induction xs arbitrary: c) auto

lemma luhnize_ok:
  assumes "set sha \<subseteq> set in_alphabet" "length sha = n * CHECK_DIGIT_INT"
  shows "\<exists>l. luhnize n sha = Some l \<and> length l = n * (CHECK_DIGIT_INT + 1) \<and> set l \<subseteq> set in_alphabet \<and>
    validate_pieces n l = Some True \<and> strip_check_digits l 0 = sha"
  using assms
proof (induction n arbitrary: sha)
  case (Suc n)
  let ?p = "take CHECK_DIGIT_INT sha"
  have p: "set ?p \<subseteq> set in_alphabet" "length ?p = CHECK_DIGIT_INT"
    using Suc.prems by (auto dest: in_set_takeD)
  then obtain c where c: "luhn_calculate ?p = Some c" "c \<in> set in_alphabet"
    using luhn_calculate_char by blast
  obtain l where l: "luhnize n (drop CHECK_DIGIT_INT sha) = Some l" "length l = n * (CHECK_DIGIT_INT + 1)"
    "set l \<subseteq> set in_alphabet" "validate_pieces n l = Some True" "strip_check_digits l 0 = drop CHECK_DIGIT_INT sha"
    using Suc.IH [of "drop CHECK_DIGIT_INT sha"] Suc.prems by (auto dest: in_set_dropD)
  have "luhn_validate (?p @ [c]) = Some True" using c by (simp add: luhn_validate_def)
  moreover have "take (CHECK_DIGIT_INT + 1) (?p @ [c] @ l) = ?p @ [c]" "drop (CHECK_DIGIT_INT + 1) (?p @ [c] @ l) = l"
    using p(2) by simp_all
  moreover have "strip_check_digits (?p @ [c] @ l) 0 = sha"
    using p(2) l(5) strip_check_digits_run [of ?p 0 "[c] @ l"] by simp
  ultimately show ?case using c p l by (intro exI [of _ "?p @ [c] @ l"]) simp
qed simp

lemma no_dash_in_alphabet: "CHR ''-'' \<notin> set in_alphabet"
  by (simp add: in_alphabet_def)

text \<open>
  A 32-byte digest always gives an identifier, 63 characters long, and parsing its text
  gives the same identifier back.
\<close>

theorem device_id_roundtrip:
  assumes "length sha = digest_length"
  shows "\<exists>d. from_sha256 sha = Some (Some d) \<and> did_sha256 d = sha \<and> length (did_value d) = DASHED_SIZE \<and>
    from_string (did_value d) = Some (Some d)"
proof -
  have len: "length (encode sha) = SHA256_B32_SIZE"
    using base32_encode_length [of sha] assms by (simp add: device_id_sizes)
  obtain l where l: "luhnize LUHN_ITERATIONS (encode sha) = Some l" "length l = LUHNIZED_SIZE"
    "set l \<subseteq> set in_alphabet" "validate_pieces LUHN_ITERATIONS l = Some True" "strip_check_digits l 0 = encode sha"
    using luhnize_ok [of "encode sha" LUHN_ITERATIONS] base32_encode_chars [of sha] len
    by (auto simp: device_id_sizes)
  let ?v = "add_dashes DASH_ITERATIONS l"
  have v: "filter (\<lambda>c. c \<noteq> CHR ''-'') ?v = l" "length ?v = DASHED_SIZE"
    using l(2,3) no_dash_in_alphabet filter_add_dashes [of l DASH_ITERATIONS]
      length_add_dashes [of l DASH_ITERATIONS] by (auto simp: device_id_sizes)
  have "sha \<noteq> []" using assms by (auto simp: digest_length_def)
  then have d: "decode (encode sha) = Inr sha" by (rule base32_decode_encode)
  have "take LUHNIZED_SIZE (remove_dashes ?v) = l"
    using v(1) l(2) by (simp add: remove_dashes_def Let_def)
  moreover have "LUHNIZED_SIZE div (CHECK_DIGIT_INT + 1) = LUHN_ITERATIONS" by (simp add: device_id_sizes)
  ultimately have "from_string ?v = Some (Some \<lparr>did_value = ?v, did_sha256 = sha\<rparr>)"
    using v(2) l(4,5) d assms by (simp add: from_string_def make_device_id_def Let_def)
  moreover have "from_sha256 sha = Some (Some \<lparr>did_value = ?v, did_sha256 = sha\<rparr>)"
    using len l(1) assms by (simp add: from_sha256_def make_device_id_def Let_def)
  ultimately show ?thesis using v(2) by (intro exI [of _ "\<lparr>did_value = ?v, did_sha256 = sha\<rparr>"]) simp
qed

theorem device_id_roundtrip_witness:
  "\<exists>d. from_sha256 (replicate 32 0xFF) = Some (Some d) \<and> from_string (did_value d) = Some (Some d)"
  using device_id_roundtrip [of "replicate 32 0xFF"] by (auto simp: digest_length_def)

subsection \<open>Short names\<close>

lemma bits_val_be:
  fixes acc :: u64
  assumes "acc = bits_val Q"
  shows "push_bit 8 acc OR ucast b = bits_val (Q @ byte_bits b)"
proof (rule bit_word_eqI)
  fix n
  assume "n < LENGTH(64)"
  then show "bit (push_bit 8 acc OR ucast b) n = bit (bits_val (Q @ byte_bits b) :: u64) n"
    unfolding bit_or_iff bit_push_bit_iff bit_bits_val assms bit_unsigned_iff
    by (cases "n < 8") (auto simp: nth_append dest: bit_imp_le_length)
qed

lemma foldl_be:
  "foldl (\<lambda>acc b. push_bit 8 acc OR ucast b) (bits_val Q :: u64) bs = bits_val (Q @ bytes_bits bs)"
proof (induction bs arbitrary: Q)
  case (Cons b bs)
  then show ?case using bits_val_be [of "bits_val Q" Q b] by simp
qed simp

lemma get_uint_bits: "get_uint d = bits_val (bytes_bits (take 8 (did_sha256 d)))"
  using foldl_be [of "[]"] by (simp add: get_uint_def bits_val_def)

lemma be_bytes_octets: "length bs = 8 \<Longrightarrow> be_bytes (bits_val (bytes_bits bs)) = bs"
proof (rule nth_equalityI)
  fix k
  assume bs: "length bs = 8" and "k < length (be_bytes (bits_val (bytes_bits bs)))"
  then have k: "k < 8" by (simp add: be_bytes_def)
  have split: "bs = take k bs @ [bs ! k] @ drop (Suc k) bs" using k bs by (simp add: id_take_nth_drop [symmetric])
  have bits: "bytes_bits bs = bytes_bits (take k bs) @ byte_bits (bs ! k) @ bytes_bits (drop (Suc k) bs)"
    by (subst split) (simp only: bytes_bits_append bytes_bits_Cons bytes_bits_Nil append_Nil2)
  have "be_bytes (bits_val (bytes_bits bs)) ! k = ucast (drop_bit (8 * (7 - k)) (bits_val (bytes_bits bs) :: u64))"
    using k by (simp add: be_bytes_def rev_nth)
  also have "\<dots> = bs ! k"
  proof (rule bit_word_eqI)
    fix n
    assume "n < LENGTH(8)"
    then have n: "n < 8" by simp
    have i: "8 * (7 - k) + n < 64" using k n by linarith
    have j: "64 - Suc (8 * (7 - k) + n) = 8 * k + (7 - n)" using k n by linarith
    have "bit (ucast (drop_bit (8 * (7 - k)) (bits_val (bytes_bits bs) :: u64)) :: u8) n
        \<longleftrightarrow> bytes_bits bs ! (8 * k + (7 - n))"
      unfolding bit_unsigned_iff bit_drop_bit_eq bit_bits_val comp_def length_bytes_bits bs
      using i n j by simp
    also have "\<dots> \<longleftrightarrow> bit (bs ! k) n"
    proof -
      have l: "length (bytes_bits (take k bs)) = 8 * k" using k bs by simp
      have "(bytes_bits (take k bs) @ byte_bits (bs ! k) @ bytes_bits (drop (Suc k) bs)) ! (8 * k + (7 - n)) =
          byte_bits (bs ! k) ! (7 - n)"
      proof -
        have m: "7 - n < length (byte_bits (bs ! k))" using n by simp
        show ?thesis
          unfolding l [symmetric] nth_append_length_plus using m by (simp only: nth_append if_True)
      qed
      then show ?thesis using n unfolding bits [symmetric] by simp
    qed
    finally show "bit (ucast (drop_bit (8 * (7 - k)) (bits_val (bytes_bits bs) :: u64)) :: u8) n = bit (bs ! k) n" .
  qed
  finally show "be_bytes (bits_val (bytes_bits bs)) ! k = bs ! k" .
qed (simp add: be_bytes_def)

lemma take_quintets:
  "5 * n \<le> length bs \<Longrightarrow> take n (quintets (bs @ cs)) = take n (quintets bs)"
proof (induction n arbitrary: bs)
  case (Suc n)
  then have l: "5 \<le> length bs" "bs \<noteq> []" by auto
  then have "take n (quintets (drop 5 bs @ cs)) = take n (quintets (drop 5 bs))" using Suc by simp
  then show ?case using l by (simp add: quintets.simps [of "bs @ cs"] quintets.simps [of bs])
qed simp

lemma take_encode:
  assumes "5 * n \<le> 8 * m" "m \<le> length bs"
  shows "take n (encode (take m bs)) = take n (encode bs)"
proof -
  have "bytes_bits bs = bytes_bits (take m bs) @ bytes_bits (drop m bs)"
    by (metis bytes_bits_append append_take_drop_id)
  then show ?thesis
    using take_quintets [of n "bytes_bits (take m bs)" "bytes_bits (drop m bs)"] assms
    by (simp add: encode_quintets take_map)
qed

lemma get_short_from_sha256:
  assumes "from_sha256 sha = Some (Some d)"
  shows "length sha = digest_length \<and> did_sha256 d = sha \<and> get_short d = take DASH_INT (encode sha)"
proof -
  obtain l where l: "luhnize LUHN_ITERATIONS (encode sha) = Some l"
    and m: "make_device_id (add_dashes DASH_ITERATIONS l) sha = Some d"
    using assms by (auto simp: from_sha256_def Let_def split: if_splits option.splits)
  have d: "length sha = digest_length" "d = \<lparr>did_value = add_dashes DASH_ITERATIONS l, did_sha256 = sha\<rparr>"
    using m by (auto simp: make_device_id_def split: if_splits)
  have len: "length (encode sha) = 52" using base32_encode_length [of sha] d(1) by (simp add: digest_length_def)
  have it: "LUHN_ITERATIONS = Suc (Suc (Suc (Suc 0)))" "DASH_ITERATIONS = Suc (Suc (Suc (Suc (Suc (Suc (Suc (Suc 0)))))))"
    by (simp_all add: device_id_sizes)
  obtain rest where rest: "l = take CHECK_DIGIT_INT (encode sha) @ rest"
    using l unfolding it by (auto split: option.splits)
  have "take DASH_INT (add_dashes DASH_ITERATIONS l) = take DASH_INT l"
    unfolding it using rest len by (simp add: DASH_INT_def CHECK_DIGIT_INT_def)
  also have "\<dots> = take DASH_INT (encode sha)" using rest len by (simp add: DASH_INT_def CHECK_DIGIT_INT_def)
  finally have "take DASH_INT (add_dashes DASH_ITERATIONS l) = take DASH_INT (encode sha)" .
  then show ?thesis using d by (simp add: get_short_def)
qed

text \<open>
  The short name computed from the 64-bit identifier of a device, the one version vectors
  carry, is the first group of the device's textual identifier.
\<close>

theorem make_short_agrees:
  assumes "from_sha256 sha = Some (Some d)" "get_uint d \<noteq> 0"
  shows "make_short (get_uint d) = get_short d"
proof -
  note d = get_short_from_sha256 [OF assms(1)]
  have "be_bytes (get_uint d) = take 8 sha"
    using be_bytes_octets [of "take 8 sha"] d by (simp add: get_uint_bits digest_length_def)
  moreover have "take DASH_INT (encode (take 5 sha)) = take DASH_INT (encode sha)"
    using d by (intro take_encode) (simp_all add: DASH_INT_def digest_length_def)
  ultimately show ?thesis using assms(2) d by (simp add: make_short_def)
qed

theorem make_short_agrees_witness:
  "\<exists>d. from_sha256 (replicate 32 1) = Some (Some d) \<and> make_short (get_uint d) = get_short d"
proof -
  obtain d where d: "from_sha256 (replicate 32 1) = Some (Some d)" "did_sha256 d = replicate 32 1"
    by (rule that [of "the (the (from_sha256 (replicate 32 1)))"]; code_simp)
  have "foldl (\<lambda>acc b. push_bit 8 acc OR ucast b) (0 :: u64) (take 8 (replicate 32 (1 :: u8))) \<noteq> 0" by code_simp
  then have "get_uint d \<noteq> 0" unfolding get_uint_def d(2) .
  then show ?thesis using make_short_agrees [OF d(1)] d(1) by blast
qed

text \<open>
  The overload of \<open>make_short\<close> for a digest reads the bytes in reverse: for this digest its
  result is not the first group of the identifier.
\<close>

theorem make_short_sha_reversed:
  "map_option (map_option get_short) (from_sha256 (1 # replicate 31 0)) = Some (Some ''AEAAAAA'') \<and>
   make_short_sha (1 # replicate 31 0) = ''AAAAAAA''"
  by code_simp

end
