(* ===== verification/Messages.thy ===== *)
theory Messages
  imports Version
begin

text \<open>
  The protobuf messages the model layer exchanges with peers (\<^verbatim>\<open>bep.proto\<close>) and with its
  database (\<^verbatim>\<open>structs.proto\<close>), as the accessors of \<^verbatim>\<open>src/proto/proto-helpers-bep.h\<close> and
  \<^verbatim>\<open>src/proto/proto-helpers-db.h\<close> present them: a getter of an absent field gives the
  default, so a message is a record with a value in every field. Signed integers are \<open>int\<close>.
\<close>

datatype file_info_type = FILE | DIRECTORY | SYMLINK_FILE | SYMLINK_DIRECTORY | SYMLINK

subsection \<open>BEP messages\<close>

record pr_block =
  pb_offset :: int
  pb_size :: int
  pb_hash :: bytes

record pr_file =
  pf_name :: string
  pf_type :: file_info_type
  pf_size :: int
  pf_permissions :: u32
  pf_modified_s :: int
  pf_modified_ns :: int
  pf_modified_by :: u64
  pf_deleted :: bool
  pf_invalid :: bool
  pf_no_permissions :: bool
  pf_version :: version
  pf_sequence :: int
  pf_block_size :: int
  pf_blocks :: "pr_block list"
  pf_symlink_target :: string

text \<open>A device as a folder of a cluster configuration lists it.\<close>

datatype compression = METADATA | NEVER | ALWAYS

record pr_device =
  pd_id :: bytes
  pd_name :: string
  pd_addresses :: "string list"
  pd_compression :: compression
  pd_cert_name :: string
  pd_max_sequence :: int
  pd_introducer :: bool
  pd_index_id :: u64
  pd_skip_introduction_removals :: bool

record pr_folder =
  pfo_id :: string
  pfo_label :: string
  pfo_read_only :: bool
  pfo_ignore_permissions :: bool
  pfo_ignore_delete :: bool
  pfo_disable_temp_indexes :: bool
  pfo_paused :: bool
  pfo_devices :: "pr_device list"

text \<open>\<open>Index\<close> and \<open>IndexUpdate\<close>.\<close>

record pr_index =
  pi_folder :: string
  pi_files :: "pr_file list"

text \<open>
  A request for a block. The field of the offset has 64 bits; its setter and its getter go
  through a 32-bit integer.
\<close>

record pr_request =
  pq_id :: int
  pq_folder :: string
  pq_name :: string
  pq_offset :: int
  pq_size :: int
  pq_hash :: bytes
  pq_from_temporary :: bool

definition to_s32 :: "int \<Rightarrow> int" where
  "to_s32 x = (x + 2 ^ 31) mod 2 ^ 32 - 2 ^ 31"

definition request_set_offset :: "int \<Rightarrow> pr_request \<Rightarrow> pr_request" where
  "request_set_offset value msg = msg\<lparr>pq_offset := to_s32 value\<rparr>"

definition request_get_offset :: "pr_request \<Rightarrow> int" where
  "request_get_offset msg = to_s32 (pq_offset msg)"

text \<open>
  The offset a peer reads from a request is the one that was set exactly when it fits into
  32 signed bits; a block at 2 GiB or beyond is requested at another offset.
\<close>

theorem request_offset_faithful:
  "request_get_offset (request_set_offset off msg) = off \<longleftrightarrow> - (2 ^ 31) \<le> off \<and> off < 2 ^ 31"
proof -
  have range: "- (2 ^ 31) \<le> to_s32 x \<and> to_s32 x < 2 ^ 31" for x
    using pos_mod_sign [of "2 ^ 32" "x + 2 ^ 31"] pos_mod_bound [of "2 ^ 32" "x + 2 ^ 31"]
    unfolding to_s32_def by (simp del: pos_mod_sign pos_mod_bound)
  have id: "to_s32 x = x" if "- (2 ^ 31) \<le> x" "x < 2 ^ 31" for x
    using that unfolding to_s32_def by simp
  have "to_s32 (to_s32 off) = to_s32 off" using range [of off] by (intro id) auto
  then have "request_get_offset (request_set_offset off msg) = to_s32 off"
    by (simp add: request_get_offset_def request_set_offset_def)
  then show ?thesis using range [of off] id [of off] by metis
qed

subsection \<open>Database records\<close>

record db_file =
  df_name :: string
  df_type :: file_info_type
  df_size :: int
  df_permissions :: u32
  df_modified_s :: int
  df_modified_ns :: int
  df_modified_by :: u64
  df_deleted :: bool
  df_invalid :: bool
  df_no_permissions :: bool
  df_version :: version
  df_sequence :: int
  df_block_size :: int
  df_symlink_target :: string
  df_blocks :: "bytes list"

record db_folder_info =
  dfi_index_id :: u64
  dfi_max_sequence :: int
  dfi_introducer_device_key :: bytes

datatype folder_type = send | receive | send_and_receive

datatype pull_order = random | alphabetic | smallest | largest | oldest | newest

record db_folder =
  dfo_id :: string
  dfo_label :: string
  dfo_ignore_permissions :: bool
  dfo_ignore_delete :: bool
  dfo_disable_temp_indexes :: bool
  dfo_paused :: bool
  dfo_scheduled :: bool
  dfo_watched :: bool
  dfo_path :: string
  dfo_folder_type :: folder_type
  dfo_pull_order :: pull_order
  dfo_rescan_interval :: u32

record db_device =
  dd_name :: string
  dd_addresses :: "string list"
  dd_compression :: compression
  dd_cert_name :: string
  dd_introducer :: bool
  dd_skip_introduction_removals :: bool
  dd_auto_accept :: bool
  dd_paused :: bool
  dd_last_seen :: int

end
