(* ===== verification/Block_Info.thy ===== *)
theory Block_Info
  imports Messages
begin

text \<open>
  Blocks and their links to files (\<^verbatim>\<open>src/model/block_info.h\<close>, \<^verbatim>\<open>src/model/block_info.cpp\<close>,
  \<^verbatim>\<open>src/model/misc/file_block.h\<close>, \<^verbatim>\<open>src/model/misc/file_block.cpp\<close>). A block keeps the list of
  the places it occurs at; a list of exactly one place is stored inline, which a bit of
  the reference counter records. The theory shows that this representation, and the packing of
  lock, representation bit and reference count into one word, implement a plain list of places.
\<close>

type_synonym addr = nat

subsection \<open>File blocks\<close>

definition LOCAL_MASK :: u32 where "LOCAL_MASK = push_bit 31 1"
definition INDEX_MASK :: u32 where "INDEX_MASK = NOT LOCAL_MASK"

record file_block =
  fb_block :: addr
  fb_file :: addr
  fb_block_idx :: u32

definition fb_matches :: "addr \<Rightarrow> addr \<Rightarrow> file_block \<Rightarrow> bool" where
  "fb_matches b f fb \<longleftrightarrow> fb_block fb = b \<and> fb_file fb = f"

definition fb_mark_locally_available :: "bool \<Rightarrow> file_block \<Rightarrow> file_block" where
  "fb_mark_locally_available value fb =
     (if value then fb\<lparr>fb_block_idx := fb_block_idx fb OR LOCAL_MASK\<rparr>
      else fb\<lparr>fb_block_idx := fb_block_idx fb AND INDEX_MASK\<rparr>)"

definition fb_is_locally_available :: "file_block \<Rightarrow> bool" where
  "fb_is_locally_available fb \<longleftrightarrow> fb_block_idx fb AND LOCAL_MASK \<noteq> 0"

definition fb_block_index :: "file_block \<Rightarrow> nat" where
  "fb_block_index fb = unat (fb_block_idx fb AND INDEX_MASK)"

subsection \<open>Blocks\<close>

definition LOCK_MASK :: u32 where "LOCK_MASK = push_bit 31 1"
definition SINGLE_MASK :: u32 where "SINGLE_MASK = push_bit 30 1"
definition COUNTER_MASK :: u32 where "COUNTER_MASK = NOT (LOCK_MASK OR SINGLE_MASK)"

definition block_digest_length :: nat where "block_digest_length = 32"

datatype file_blocks_union = single file_block | multi "file_block list"

record block_info =
  bi_hash :: bytes
  bi_file_blocks :: file_blocks_union
  bi_size :: int
  bi_counter :: u32

definition bi_is_single :: "block_info \<Rightarrow> bool" where
  "bi_is_single b \<longleftrightarrow> bi_counter b AND SINGLE_MASK \<noteq> 0"

text \<open>
  What the file block iterator yields from its start to its end. It selects the union member by
  the bit; the member that is not there is read as empty, which is also what the freshly
  zeroed inline file block gives in \<open>link\<close>, before the bit is set.
\<close>

definition bi_iterate :: "block_info \<Rightarrow> file_block list" where
  "bi_iterate b = (if bi_is_single b
     then (case bi_file_blocks b of single fb \<Rightarrow> [fb] | multi _ \<Rightarrow> [])
     else (case bi_file_blocks b of single _ \<Rightarrow> [] | multi fbs \<Rightarrow> fbs))"

text \<open>One step of the iterator from an index: the file block there and the next index.\<close>

definition fbi_next :: "block_info \<Rightarrow> nat \<Rightarrow> file_block option \<times> nat" where
  "fbi_next b next_index =
     (if bi_is_single b
      then if next_index = 0
           then (case bi_file_blocks b of single fb \<Rightarrow> Some fb | multi _ \<Rightarrow> None, 1)
           else (None, next_index)
      else (case bi_file_blocks b of
              single _ \<Rightarrow> (None, next_index)
            | multi fbs \<Rightarrow> if next_index < length fbs then (Some (fbs ! next_index), next_index + 1)
                           else (None, next_index)))"

definition fbi_get_total :: "block_info \<Rightarrow> nat" where
  "fbi_get_total b = (if bi_is_single b then 1
     else (case bi_file_blocks b of single _ \<Rightarrow> 0 | multi fbs \<Rightarrow> length fbs))"

definition bi_local_file :: "block_info \<Rightarrow> file_block option" where
  "bi_local_file b = find fb_is_locally_available (bi_iterate b)"

text \<open>The constructor of \<open>file_block_t\<close>: a new place of a block that is available is available.\<close>

definition make_file_block :: "addr \<Rightarrow> block_info \<Rightarrow> addr \<Rightarrow> nat \<Rightarrow> file_block" where
  "make_file_block a b f block_index =
     (let fb = \<lparr>fb_block = a, fb_file = f, fb_block_idx = of_nat block_index\<rparr>
      in if bi_local_file b \<noteq> None then fb\<lparr>fb_block_idx := fb_block_idx fb OR LOCAL_MASK\<rparr> else fb)"

text \<open>\<open>link\<close>: the union is switched from inline to list and back as places come.\<close>

definition bi_link :: "addr \<Rightarrow> block_info \<Rightarrow> addr \<Rightarrow> nat \<Rightarrow> block_info" where
  "bi_link a b f block_index =
     (if bi_is_single b
      then case bi_file_blocks b of
             single first \<Rightarrow>
               (let b = b\<lparr>bi_counter := bi_counter b AND NOT SINGLE_MASK, bi_file_blocks := multi [first]\<rparr>
                in b\<lparr>bi_file_blocks := multi [first, make_file_block a b f block_index]\<rparr>)
           | multi _ \<Rightarrow> b
      else case bi_file_blocks b of
             multi [] \<Rightarrow> b\<lparr>bi_file_blocks := single (make_file_block a b f block_index),
                           bi_counter := bi_counter b OR SINGLE_MASK\<rparr>
           | multi fbs \<Rightarrow> b\<lparr>bi_file_blocks := multi (fbs @ [make_file_block a b f block_index])\<rparr>
           | single _ \<Rightarrow> b)"

text \<open>\<open>unlink\<close>: the removed indices; removing nothing violates the assertion (\<open>None\<close>).\<close>

definition bi_unlink :: "addr \<Rightarrow> block_info \<Rightarrow> addr \<Rightarrow> (nat list \<times> block_info) option" where
  "bi_unlink a b f =
     (let (r, b') =
        (if bi_is_single b
         then case bi_file_blocks b of
                single fb \<Rightarrow>
                  if fb_matches a f fb
                  then ([fb_block_index fb],
                        b\<lparr>bi_file_blocks := multi [], bi_counter := bi_counter b AND NOT SINGLE_MASK\<rparr>)
                  else ([], b)
              | multi _ \<Rightarrow> ([], b)
         else case bi_file_blocks b of
                multi fbs \<Rightarrow>
                  (let r = map fb_block_index (filter (fb_matches a f) fbs);
                       fbs = filter (\<lambda>fb. \<not> fb_matches a f fb) fbs
                   in case fbs of
                        [first] \<Rightarrow> (r, b\<lparr>bi_file_blocks := single first,
                                       bi_counter := bi_counter b OR SINGLE_MASK\<rparr>)
                      | _ \<Rightarrow> (r, b\<lparr>bi_file_blocks := multi fbs\<rparr>))
              | single _ \<Rightarrow> ([], b))
      in if r = [] then None else Some (r, b'))"

fun mark_first :: "addr \<Rightarrow> addr \<Rightarrow> file_block list \<Rightarrow> file_block list" where
  "mark_first a f [] = []"
| "mark_first a f (fb # fbs) =
     (if fb_matches a f fb then fb_mark_locally_available True fb # fbs else fb # mark_first a f fbs)"

definition bi_mark_local_available :: "addr \<Rightarrow> block_info \<Rightarrow> addr \<Rightarrow> block_info" where
  "bi_mark_local_available a b f =
     (if bi_is_single b
      then case bi_file_blocks b of
             single fb \<Rightarrow> if fb_matches a f fb
                          then b\<lparr>bi_file_blocks := single (fb_mark_locally_available True fb)\<rparr> else b
           | multi _ \<Rightarrow> b
      else case bi_file_blocks b of
             multi fbs \<Rightarrow> b\<lparr>bi_file_blocks := multi (mark_first a f fbs)\<rparr>
           | single _ \<Rightarrow> b)"

definition bi_is_locked :: "block_info \<Rightarrow> bool" where
  "bi_is_locked b \<longleftrightarrow> bi_counter b AND LOCK_MASK \<noteq> 0"

definition bi_lock :: "block_info \<Rightarrow> block_info option" where
  "bi_lock b = (if bi_is_locked b then None else Some (b\<lparr>bi_counter := bi_counter b OR LOCK_MASK\<rparr>))"

definition bi_unlock :: "block_info \<Rightarrow> block_info option" where
  "bi_unlock b = (if \<not> bi_is_locked b then None else Some (b\<lparr>bi_counter := bi_counter b AND NOT LOCK_MASK\<rparr>))"

definition refcouner_inc :: "u32 \<Rightarrow> u32" where
  "refcouner_inc counter =
     (let save_bits = (LOCK_MASK OR SINGLE_MASK) AND counter; value = COUNTER_MASK AND counter
      in save_bits OR (value + 1))"

definition refcouner_dec :: "u32 \<Rightarrow> u32 \<times> u32" where
  "refcouner_dec counter =
     (let save_bits = (LOCK_MASK OR SINGLE_MASK) AND counter; value = (COUNTER_MASK AND counter) - 1
      in (save_bits OR value, value))"

definition use_count :: "block_info \<Rightarrow> nat" where
  "use_count b = unat (bi_counter b AND COUNTER_MASK)"

definition bi_get_size :: "block_info \<Rightarrow> int" where
  "bi_get_size b = bi_size b mod 2 ^ 32"

subsection \<open>Creation and conversion\<close>

datatype block_error = invalid_block_key_length | invalid_block_prefix

definition block_prefix :: u8 where "block_prefix = 0x17"

definition make_strict_hash :: "bytes \<Rightarrow> bytes option" where
  "make_strict_hash h = (if length h \<le> block_digest_length
     then Some (h @ replicate (block_digest_length - length h) 0) else None)"

definition bi_create_db :: "bytes \<Rightarrow> int \<Rightarrow> (block_error, block_info) result" where
  "bi_create_db key db_size =
     (if length key \<noteq> block_digest_length + 1 then Inl invalid_block_key_length
      else if key ! 0 \<noteq> block_prefix then Inl invalid_block_prefix
      else Inr \<lparr>bi_hash = drop 1 key, bi_file_blocks = multi [], bi_size = db_size, bi_counter = 0\<rparr>)"

definition bi_create_proto :: "pr_block \<Rightarrow> (block_error, block_info) result" where
  "bi_create_proto block =
     (let h = pb_hash block
      in if length h > block_digest_length then Inl invalid_block_key_length
         else Inr \<lparr>bi_hash = h @ replicate (block_digest_length - length h) 0, bi_file_blocks = multi [],
                   bi_size = pb_size block, bi_counter = 0\<rparr>)"

definition as_bep :: "block_info \<Rightarrow> int \<Rightarrow> pr_block" where
  "as_bep b offset = \<lparr>pb_offset = offset, pb_size = bi_size b, pb_hash = bi_hash b\<rparr>"

subsection \<open>The packed words\<close>

lemma bit_masks [word_facts]:
  "bit LOCAL_MASK n \<longleftrightarrow> n = 31" "bit LOCK_MASK n \<longleftrightarrow> n = 31" "bit SINGLE_MASK n \<longleftrightarrow> n = 30"
  unfolding LOCAL_MASK_def LOCK_MASK_def SINGLE_MASK_def bit_push_bit_iff bit_1_iff by auto

lemma bit_COUNTER_MASK [word_facts]: "bit COUNTER_MASK n \<longleftrightarrow> n < 30"
  unfolding COUNTER_MASK_def bit_not_iff bit_or_iff bit_masks by (auto dest: bit_imp_le_length)

lemma bit_INDEX_MASK [word_facts]: "bit INDEX_MASK n \<longleftrightarrow> n < 31"
  unfolding INDEX_MASK_def bit_not_iff bit_masks by (auto dest: bit_imp_le_length)

lemma and_mask_bit:
  assumes "\<And>n. bit (m :: 'a::len word) n \<longleftrightarrow> n = k"
  shows "c AND m \<noteq> 0 \<longleftrightarrow> bit c k"
proof
  assume "c AND m \<noteq> 0"
  then obtain n where "bit (c AND m) n" by (metis bit_0_eq bit_word_eqI bot_apply bot_bool_def)
  then show "bit c k" using assms by (auto simp: bit_and_iff)
next
  assume "bit c k"
  then have "bit (c AND m) k" using assms by (simp add: bit_and_iff)
  then show "c AND m \<noteq> 0" by auto
qed

lemma is_single_bit: "bi_is_single b \<longleftrightarrow> bit (bi_counter b) 30"
  unfolding bi_is_single_def by (rule and_mask_bit) (rule bit_masks)

lemma is_locked_bit: "bi_is_locked b \<longleftrightarrow> bit (bi_counter b) 31"
  unfolding bi_is_locked_def by (rule and_mask_bit) (rule bit_masks)

lemma is_local_bit: "fb_is_locally_available fb \<longleftrightarrow> bit (fb_block_idx fb) 31"
  unfolding fb_is_locally_available_def by (rule and_mask_bit) (rule bit_masks)

lemma counter_take_bit: "c AND COUNTER_MASK = take_bit 30 c"
  by (rule bit_word_eqI) (simp add: bit_and_iff bit_COUNTER_MASK bit_take_bit_iff conj_commute)

lemma index_take_bit: "c AND INDEX_MASK = take_bit 31 c"
  by (rule bit_word_eqI) (simp add: bit_and_iff bit_INDEX_MASK bit_take_bit_iff conj_commute)

lemma use_count_eq: "use_count b = unat (bi_counter b) mod 2 ^ 30"
  unfolding use_count_def counter_take_bit unsigned_take_bit_eq by (simp only: take_bit_eq_mod)

text \<open>A word below \<open>2 ^ 30\<close> has no flag bit.\<close>

lemma small_word_bits:
  assumes "unat (v :: u32) < 2 ^ 30"
  shows "take_bit 30 v = v" "\<not> bit v 30" "\<not> bit v 31"
proof -
  have "unat (take_bit 30 v) = unat v" using assms by (simp add: unsigned_take_bit_eq take_bit_nat_eq_self)
  then show t: "take_bit 30 v = v" by (rule word_unat_eq_iff [THEN iffD2])
  show "\<not> bit v 30" "\<not> bit v 31" by (subst t [symmetric], simp add: bit_take_bit_iff)+
qed

lemma packed_counter:
  fixes c v :: u32
  assumes "unat v < 2 ^ 30"
  defines "c' \<equiv> ((LOCK_MASK OR SINGLE_MASK) AND c) OR v"
  shows "c' AND COUNTER_MASK = v" "bit c' 30 \<longleftrightarrow> bit c 30" "bit c' 31 \<longleftrightarrow> bit c 31"
proof -
  show "bit c' 30 \<longleftrightarrow> bit c 30" "bit c' 31 \<longleftrightarrow> bit c 31"
    unfolding c'_def bit_or_iff bit_and_iff bit_masks using small_word_bits [OF assms(1)] by simp_all
  show "c' AND COUNTER_MASK = v"
  proof (rule bit_word_eqI)
    fix n
    assume "n < LENGTH(32)"
    have "bit v n \<longrightarrow> n < 30"
      using small_word_bits(1) [OF assms(1)] bit_take_bit_iff [of 30 v n] by auto
    then show "bit (c' AND COUNTER_MASK) n = bit v n"
      unfolding c'_def bit_or_iff bit_and_iff bit_masks bit_COUNTER_MASK by auto
  qed
qed

lemma counter_flag_updates:
  fixes c :: u32
  shows "bit (c OR SINGLE_MASK) 30" "\<not> bit (c AND NOT SINGLE_MASK) 30"
    "bit (c OR SINGLE_MASK) 31 \<longleftrightarrow> bit c 31" "bit (c AND NOT SINGLE_MASK) 31 \<longleftrightarrow> bit c 31"
    "bit (c OR LOCK_MASK) 31" "\<not> bit (c AND NOT LOCK_MASK) 31"
    "bit (c OR LOCK_MASK) 30 \<longleftrightarrow> bit c 30" "bit (c AND NOT LOCK_MASK) 30 \<longleftrightarrow> bit c 30"
  by (simp_all add: bit_or_iff bit_and_iff bit_not_iff bit_masks)

lemma counter_value_updates:
  fixes c :: u32
  shows "(c OR SINGLE_MASK) AND COUNTER_MASK = c AND COUNTER_MASK"
    "(c AND NOT SINGLE_MASK) AND COUNTER_MASK = c AND COUNTER_MASK"
    "(c OR LOCK_MASK) AND COUNTER_MASK = c AND COUNTER_MASK"
    "(c AND NOT LOCK_MASK) AND COUNTER_MASK = c AND COUNTER_MASK"
  by (rule bit_word_eqI; auto simp: bit_or_iff bit_and_iff bit_not_iff bit_masks bit_COUNTER_MASK)+

lemma block_counter_inc:
  assumes "use_count b < 2 ^ 30 - 1"
  defines "inc \<equiv> b\<lparr>bi_counter := refcouner_inc (bi_counter b)\<rparr>"
  shows "use_count inc = use_count b + 1 \<and> bi_is_locked inc = bi_is_locked b \<and> bi_is_single inc = bi_is_single b"
proof -
  let ?v = "bi_counter b AND COUNTER_MASK"
  have i: "unat (?v + 1) = use_count b + 1"
    using assms(1) unfolding use_count_def by (simp add: unat_word_ariths)
  then have "unat (?v + 1) < 2 ^ 30" using assms(1) by simp
  note p = packed_counter [OF this, of "bi_counter b"]
  show ?thesis using i p
    by (simp add: inc_def refcouner_inc_def Let_def use_count_def is_locked_bit is_single_bit and.commute)
qed

lemma block_counter_dec:
  assumes "0 < use_count b"
  defines "dec \<equiv> b\<lparr>bi_counter := fst (refcouner_dec (bi_counter b))\<rparr>"
  shows "use_count dec + 1 = use_count b \<and> unat (snd (refcouner_dec (bi_counter b))) = use_count dec \<and>
    bi_is_locked dec = bi_is_locked b \<and> bi_is_single dec = bi_is_single b"
proof -
  let ?v = "bi_counter b AND COUNTER_MASK"
  have "?v \<noteq> 0" using assms(1) by (auto simp: use_count_def)
  then have d: "unat (?v - 1) + 1 = use_count b"
    using assms(1) unat_minus_one [of ?v] by (simp add: use_count_def)
  have "use_count b < 2 ^ 30" by (simp add: use_count_eq)
  then have "unat (?v - 1) < 2 ^ 30" using d by simp
  note p = packed_counter [OF this, of "bi_counter b"]
  show ?thesis using d p
    by (simp add: dec_def refcouner_dec_def Let_def use_count_def is_locked_bit is_single_bit and.commute)
qed

text \<open>
  Taking and releasing a reference changes the reference count by one and leaves the lock
  and the representation bit alone, as long as the count stays within its thirty bits; locking
  and unlocking leave the count alone.
\<close>

theorem block_counter_packing:
  fixes b :: block_info
  defines "inc \<equiv> b\<lparr>bi_counter := refcouner_inc (bi_counter b)\<rparr>"
    and "dec \<equiv> b\<lparr>bi_counter := fst (refcouner_dec (bi_counter b))\<rparr>"
  shows "(use_count b < 2 ^ 30 - 1 \<longrightarrow> use_count inc = use_count b + 1 \<and>
       bi_is_locked inc = bi_is_locked b \<and> bi_is_single inc = bi_is_single b) \<and>
     (0 < use_count b \<longrightarrow> use_count dec + 1 = use_count b \<and> unat (snd (refcouner_dec (bi_counter b))) = use_count dec \<and>
       bi_is_locked dec = bi_is_locked b \<and> bi_is_single dec = bi_is_single b) \<and>
     (\<forall>b'. bi_lock b = Some b' \<longrightarrow> bi_is_locked b' \<and> use_count b' = use_count b \<and> bi_unlock b' \<noteq> None)"
proof -
  have "bi_is_locked b' \<and> use_count b' = use_count b \<and> bi_unlock b' \<noteq> None" if "bi_lock b = Some b'" for b'
    using that by (auto simp: bi_lock_def bi_unlock_def is_locked_bit use_count_def
      counter_flag_updates counter_value_updates split: if_splits)
  then show ?thesis
    using block_counter_inc [of b] block_counter_dec [of b] unfolding inc_def dec_def by blast
qed

theorem block_counter_packing_witness:
  "use_count (\<lparr>bi_hash = [], bi_file_blocks = multi [], bi_size = 0, bi_counter = refcouner_inc LOCK_MASK\<rparr>) = 1"
proof -
  let ?b = "\<lparr>bi_hash = [], bi_file_blocks = multi [], bi_size = 0, bi_counter = LOCK_MASK\<rparr> :: block_info"
  have "use_count ?b = 0" by code_simp
  then show ?thesis using block_counter_packing [of ?b] by simp
qed

subsection \<open>Places of a block\<close>

text \<open>
  The representation invariant: the bit agrees with the union, the list form never holds
  exactly one place, and every place points back to the block at its address.
\<close>

definition bi_wf :: "addr \<Rightarrow> block_info \<Rightarrow> bool" where
  "bi_wf a b \<longleftrightarrow> (case bi_file_blocks b of
       single fb \<Rightarrow> bi_is_single b \<and> fb_block fb = a
     | multi fbs \<Rightarrow> \<not> bi_is_single b \<and> length fbs \<noteq> 1 \<and> (\<forall>fb \<in> set fbs. fb_block fb = a))"

definition places :: "block_info \<Rightarrow> (addr \<times> nat) list" where
  "places b = map (\<lambda>fb. (fb_file fb, fb_block_index fb)) (bi_iterate b)"

lemma make_file_block_simps [simp]:
  "fb_block (make_file_block a b f i) = a" "fb_file (make_file_block a b f i) = f"
  by (simp_all add: make_file_block_def Let_def)

lemma index_of_or_local: "fb_block_index (fb\<lparr>fb_block_idx := x OR LOCAL_MASK\<rparr>) = fb_block_index (fb\<lparr>fb_block_idx := x\<rparr>)"
proof -
  have "take_bit 31 (x OR LOCAL_MASK) = take_bit 31 x"
    by (rule bit_word_eqI) (auto simp: bit_take_bit_iff bit_or_iff bit_masks)
  then show ?thesis by (simp add: fb_block_index_def index_take_bit)
qed

lemma fb_block_index_mark [simp]: "fb_block_index (fb_mark_locally_available True fb) = fb_block_index fb"
  using index_of_or_local [of "fb_block_idx fb" fb] by (simp add: fb_mark_locally_available_def)

lemma fb_simps_mark [simp]:
  "fb_block (fb_mark_locally_available v fb) = fb_block fb" "fb_file (fb_mark_locally_available v fb) = fb_file fb"
  "fb_is_locally_available (fb_mark_locally_available True fb)"
  by (simp_all add: fb_mark_locally_available_def is_local_bit bit_or_iff bit_masks)

lemma make_file_block_index [simp]:
  assumes "i < 2 ^ 31"
  shows "fb_block_index (make_file_block a b f i) = i"
proof -
  have "unat (take_bit 31 (of_nat i :: u32)) = i"
    using assms by (simp add: unsigned_take_bit_eq unsigned_of_nat take_bit_nat_eq_self)
  then show ?thesis
    using index_of_or_local [of "of_nat i" "\<lparr>fb_block = a, fb_file = f, fb_block_idx = of_nat i\<rparr>"]
    by (simp add: make_file_block_def Let_def fb_block_index_def index_take_bit)
qed

lemma make_file_block_local [simp]:
  assumes "i < 2 ^ 31"
  shows "fb_is_locally_available (make_file_block a b f i) \<longleftrightarrow> bi_local_file b \<noteq> None"
proof -
  have "\<not> bit (of_nat i :: u32) 31"
  proof -
    have "of_nat i = take_bit 31 (of_nat i :: u32)"
      using assms by (simp add: take_bit_of_nat take_bit_nat_eq_self)
    then show ?thesis by (metis bit_take_bit_iff less_irrefl)
  qed
  then show ?thesis by (simp add: make_file_block_def Let_def is_local_bit bit_or_iff bit_masks)
qed

lemma bi_link_iterate:
  assumes "bi_wf a b"
  shows "bi_wf a (bi_link a b f i) \<and> bi_iterate (bi_link a b f i) = bi_iterate b @ [make_file_block a b f i]"
proof (cases "bi_file_blocks b")
  case (single fb)
  then have "bi_local_file (b\<lparr>bi_counter := bi_counter b AND NOT SINGLE_MASK, bi_file_blocks := multi [fb]\<rparr>) = bi_local_file b"
    using assms by (simp add: bi_local_file_def bi_iterate_def bi_wf_def is_single_bit counter_flag_updates)
  then have "make_file_block a (b\<lparr>bi_counter := bi_counter b AND NOT SINGLE_MASK, bi_file_blocks := multi [fb]\<rparr>) f i =
      make_file_block a b f i" by (simp add: make_file_block_def)
  then show ?thesis using assms single
    by (simp add: bi_link_def bi_wf_def bi_iterate_def is_single_bit counter_flag_updates Let_def)
next
  case (multi fbs)
  then show ?thesis using assms
    by (cases fbs) (auto simp: bi_link_def bi_wf_def bi_iterate_def is_single_bit counter_flag_updates)
qed

lemma bi_link_frame [simp]:
  "bi_hash (bi_link a b f i) = bi_hash b" "bi_size (bi_link a b f i) = bi_size b"
  "use_count (bi_link a b f i) = use_count b" "bi_is_locked (bi_link a b f i) = bi_is_locked b"
  by (auto simp: bi_link_def use_count_def is_locked_bit counter_flag_updates counter_value_updates Let_def
      split: file_blocks_union.splits list.splits)

text \<open>The list form after a removal: a single place left is moved inline.\<close>

definition bi_shrink :: "block_info \<Rightarrow> file_block list \<Rightarrow> block_info" where
  "bi_shrink b fbs = (case fbs of
       [first] \<Rightarrow> b\<lparr>bi_file_blocks := single first, bi_counter := bi_counter b OR SINGLE_MASK\<rparr>
     | _ \<Rightarrow> b\<lparr>bi_file_blocks := multi fbs\<rparr>)"

lemma bi_shrink_ok:
  assumes "\<not> bi_is_single b" "\<forall>fb \<in> set fbs. fb_block fb = a"
  shows "bi_wf a (bi_shrink b fbs) \<and> bi_iterate (bi_shrink b fbs) = fbs \<and> bi_hash (bi_shrink b fbs) = bi_hash b \<and>
    bi_size (bi_shrink b fbs) = bi_size b \<and> use_count (bi_shrink b fbs) = use_count b \<and>
    bi_is_locked (bi_shrink b fbs) = bi_is_locked b"
proof -
  consider "fbs = []" | fb where "fbs = [fb]" | x y zs where "fbs = x # y # zs"
    by (cases fbs; cases "tl fbs") auto
  then show ?thesis
    using assms by cases (simp_all add: bi_shrink_def bi_wf_def bi_iterate_def is_single_bit is_locked_bit
      use_count_def counter_flag_updates counter_value_updates)
qed

lemma bi_unlink_multi:
  assumes "\<not> bi_is_single b" "bi_file_blocks b = multi fbs" "\<forall>fb \<in> set fbs. fb_block fb = a"
  shows "bi_unlink a b f = (let r = map fb_block_index (filter (\<lambda>fb. fb_file fb = f) fbs)
     in if r = [] then None else Some (r, bi_shrink b (filter (\<lambda>fb. fb_file fb \<noteq> f) fbs)))"
proof -
  have m: "filter (fb_matches a f) fbs = filter (\<lambda>fb. fb_file fb = f) fbs"
    "filter (\<lambda>fb. \<not> fb_matches a f fb) fbs = filter (\<lambda>fb. fb_file fb \<noteq> f) fbs"
    using assms(3) by (auto simp: fb_matches_def intro!: filter_cong)
  show ?thesis
    unfolding bi_unlink_def assms(2) bi_shrink_def using assms(1)
    by (simp add: m Let_def split: list.splits)
qed

lemma bi_unlink_iterate:
  assumes "bi_wf a b"
  shows "case bi_unlink a b f of
      None \<Rightarrow> \<forall>fb \<in> set (bi_iterate b). fb_file fb \<noteq> f
    | Some (r, b') \<Rightarrow> r \<noteq> [] \<and> r = map fb_block_index (filter (\<lambda>fb. fb_file fb = f) (bi_iterate b)) \<and>
        bi_wf a b' \<and> bi_iterate b' = filter (\<lambda>fb. fb_file fb \<noteq> f) (bi_iterate b) \<and>
        bi_hash b' = bi_hash b \<and> bi_size b' = bi_size b \<and> use_count b' = use_count b \<and> bi_is_locked b' = bi_is_locked b"
proof (cases "bi_file_blocks b")
  case (single fb)
  then show ?thesis using assms
    by (auto simp: bi_unlink_def bi_wf_def bi_iterate_def is_single_bit is_locked_bit use_count_def
        counter_flag_updates counter_value_updates fb_matches_def)
next
  case (multi fbs)
  have wf: "\<not> bi_is_single b" "\<forall>fb \<in> set fbs. fb_block fb = a" "bi_iterate b = fbs"
    using assms multi by (auto simp: bi_wf_def bi_iterate_def)
  have "\<forall>fb \<in> set (filter (\<lambda>fb. fb_file fb \<noteq> f) fbs). fb_block fb = a" using wf(2) by simp
  note s = bi_shrink_ok [OF wf(1) this]
  show ?thesis
    unfolding bi_unlink_multi [OF wf(1) multi wf(2)] wf(3) Let_def
    using s by (simp add: filter_empty_conv)
qed

lemma mark_first_shape:
  "map (\<lambda>fb. (fb_block fb, fb_file fb, fb_block_index fb)) (mark_first a f fbs) =
   map (\<lambda>fb. (fb_block fb, fb_file fb, fb_block_index fb)) fbs"
  by (induction fbs) auto

lemma mark_first_places:
  "map (\<lambda>fb. (fb_file fb, fb_block_index fb)) (mark_first a f fbs) = map (\<lambda>fb. (fb_file fb, fb_block_index fb)) fbs"
  by (induction fbs) auto

lemma bi_mark_iterate:
  assumes "bi_wf a b"
  shows "bi_wf a (bi_mark_local_available a b f) \<and>
    bi_iterate (bi_mark_local_available a b f) = mark_first a f (bi_iterate b)"
proof (cases "bi_file_blocks b")
  case (single fb)
  then show ?thesis using assms
    by (simp add: bi_mark_local_available_def bi_wf_def bi_iterate_def is_single_bit)
next
  case (multi fbs)
  have l: "length (mark_first a f fbs) = length fbs" by (induction fbs) auto
  have "\<forall>fb \<in> set fbs. fb_block fb = a \<Longrightarrow> \<forall>fb \<in> set (mark_first a f fbs). fb_block fb = a"
    by (induction fbs) auto
  then show ?thesis using assms multi l
    by (simp add: bi_mark_local_available_def bi_wf_def bi_iterate_def is_single_bit)
qed

lemma bi_mark_frame [simp]:
  "bi_hash (bi_mark_local_available a b f) = bi_hash b" "bi_size (bi_mark_local_available a b f) = bi_size b"
  "bi_counter (bi_mark_local_available a b f) = bi_counter b"
  by (auto simp: bi_mark_local_available_def split: file_blocks_union.splits)

lemma use_count_mark [simp]: "use_count (bi_mark_local_available a b f) = use_count b"
  by (simp add: use_count_def)

subsection \<open>The interface of places\<close>

text \<open>
  What the files rely on: linking adds a place, unlinking a file removes exactly its places and
  says which they were, marking a file's copy available keeps the places.
\<close>

locale block_places =
  fixes wf :: "'b \<Rightarrow> bool"
    and plcs :: "'b \<Rightarrow> ('f \<times> nat) list"
    and refs :: "'b \<Rightarrow> nat"
    and lnk :: "'b \<Rightarrow> 'f \<Rightarrow> nat \<Rightarrow> 'b"
    and unl :: "'b \<Rightarrow> 'f \<Rightarrow> (nat list \<times> 'b) option"
    and mrk :: "'b \<Rightarrow> 'f \<Rightarrow> 'b"
  assumes lnk_wf: "wf b \<Longrightarrow> wf (lnk b f i)"
    and lnk_places: "wf b \<Longrightarrow> i < 2 ^ 31 \<Longrightarrow> plcs (lnk b f i) = plcs b @ [(f, i)]"
    and lnk_refs: "refs (lnk b f i) = refs b"
    and unl_None: "wf b \<Longrightarrow> unl b f = None \<Longrightarrow> f \<notin> fst ` set (plcs b)"
    and unl_Some: "wf b \<Longrightarrow> unl b f = Some (r, b') \<Longrightarrow>
      wf b' \<and> r \<noteq> [] \<and> r = map snd (filter (\<lambda>p. fst p = f) (plcs b)) \<and>
      plcs b' = filter (\<lambda>p. fst p \<noteq> f) (plcs b) \<and> refs b' = refs b"
    and mrk_wf: "wf b \<Longrightarrow> wf (mrk b f)"
    and mrk_places: "wf b \<Longrightarrow> plcs (mrk b f) = plcs b"
    and mrk_refs: "refs (mrk b f) = refs b"
begin

lemma unl_defined:
  assumes "wf b" "(f, i) \<in> set (plcs b)"
  shows "\<exists>r b'. unl b f = Some (r, b') \<and> i \<in> set r \<and> wf b' \<and> refs b' = refs b \<and>
    r = map snd (filter (\<lambda>p. fst p = f) (plcs b)) \<and> plcs b' = filter (\<lambda>p. fst p \<noteq> f) (plcs b)"
proof (cases "unl b f")
  case None
  then show ?thesis using unl_None [OF assms(1)] assms(2) by force
next
  case (Some p)
  obtain r b' where "p = (r, b')" by (cases p)
  with Some unl_Some [OF assms(1), of f r b'] assms(2) show ?thesis by force
qed

lemma unl_lnk:
  assumes "wf b" "i < 2 ^ 31" "f \<notin> fst ` set (plcs b)"
  shows "\<exists>b'. unl (lnk b f i) f = Some ([i], b') \<and> plcs b' = plcs b"
proof -
  have p: "plcs (lnk b f i) = plcs b @ [(f, i)]" using lnk_places assms by blast
  have none: "filter (\<lambda>p. fst p = f) (plcs b) = []" "filter (\<lambda>p. fst p \<noteq> f) (plcs b) = plcs b"
    using assms(3) by (auto simp: filter_empty_conv filter_id_conv image_iff)
  show ?thesis using unl_defined [OF lnk_wf [OF assms(1)], of f i f i] p none by auto
qed

end

lemma places_eq: "places b = map (\<lambda>fb. (fb_file fb, fb_block_index fb)) (bi_iterate b)"
  by (rule places_def)

interpretation bl: block_places "bi_wf a" places use_count "bi_link a" "bi_unlink a" "bi_mark_local_available a"
  for a
proof unfold_locales
  fix b f i
  assume wf: "bi_wf a b"
  show "bi_wf a (bi_link a b f i)" using bi_link_iterate [OF wf] by blast
  show "places (bi_link a b f i) = places b @ [(f, i)]" if "i < 2 ^ 31"
    using bi_link_iterate [OF wf, of f i] that by (simp add: places_eq)
  show "bi_unlink a b f = None \<Longrightarrow> f \<notin> fst ` set (places b)"
    using bi_unlink_iterate [OF wf, of f] by (auto simp: places_eq)
  show "bi_unlink a b f = Some (r, b') \<Longrightarrow> bi_wf a b' \<and> r \<noteq> [] \<and>
      r = map snd (filter (\<lambda>p. fst p = f) (places b)) \<and> places b' = filter (\<lambda>p. fst p \<noteq> f) (places b) \<and>
      use_count b' = use_count b" for r b'
    using bi_unlink_iterate [OF wf, of f] by (auto simp: places_eq filter_map comp_def)
  show "bi_wf a (bi_mark_local_available a b f)" using bi_mark_iterate [OF wf] by blast
  show "places (bi_mark_local_available a b f) = places b"
    using bi_mark_iterate [OF wf, of f] by (simp add: places_eq mark_first_places)
qed simp_all

text \<open>
  C39: with the inline and the list representation switching under it, a block behaves as the
  list of its places: linking appends a place, unlinking a file fails exactly when the file has
  no place and otherwise returns and removes its places, in order.
\<close>

theorem block_places_refine:
  assumes "bi_wf a b"
  shows "(i < 2 ^ 31 \<longrightarrow> bi_wf a (bi_link a b f i) \<and> places (bi_link a b f i) = places b @ [(f, i)]) \<and>
    (case bi_unlink a b f of
       None \<Rightarrow> f \<notin> fst ` set (places b)
     | Some (r, b') \<Rightarrow> bi_wf a b' \<and> r = map snd (filter (\<lambda>p. fst p = f) (places b)) \<and>
         places b' = filter (\<lambda>p. fst p \<noteq> f) (places b) \<and> use_count b' = use_count b)"
  using bl.lnk_wf [OF assms] bl.lnk_places [OF assms] bl.unl_None [OF assms] bl.unl_Some [OF assms]
  by (auto split: option.splits)

theorem block_places_refine_witness:
  "places (bi_link 7 (bi_link 7 \<lparr>bi_hash = [], bi_file_blocks = multi [], bi_size = 0, bi_counter = 0\<rparr> 1 0) 2 5) = [(1, 0), (2, 5)]"
proof -
  let ?b = "\<lparr>bi_hash = [], bi_file_blocks = multi [], bi_size = 0, bi_counter = 0\<rparr> :: block_info"
  have "bi_wf 7 ?b" by (simp add: bi_wf_def bi_is_single_def)
  then have 1: "bi_wf 7 (bi_link 7 ?b 1 0)" "places (bi_link 7 ?b 1 0) = [(1, 0)]"
    using block_places_refine [of 7 ?b 0 1] by (auto simp: places_def bi_iterate_def bi_is_single_def)
  then show ?thesis using block_places_refine [OF 1(1), of 5 2] by simp
qed

lemma mark_first_local:
  "\<exists>fb \<in> set fbs. fb_matches a f fb \<Longrightarrow> \<exists>fb \<in> set (mark_first a f fbs). fb_file fb = f \<and> fb_is_locally_available fb"
  by (induction fbs) (auto simp: fb_matches_def)

text \<open>
  After a file that holds the block marks its copy available, the block has a local file;
  and a place linked while the block has a local file is available from the start.
\<close>

theorem block_mark_available:
  assumes "bi_wf a b" "f \<in> fst ` set (places b)" "i < 2 ^ 31"
  shows "bi_local_file (bi_mark_local_available a b f) \<noteq> None \<and>
    (\<exists>fb \<in> set (bi_iterate (bi_link a (bi_mark_local_available a b f) g i)).
       fb_file fb = g \<and> fb_block_index fb = i \<and> fb_is_locally_available fb)"
proof -
  have "\<forall>fb \<in> set (bi_iterate b). fb_block fb = a"
    using assms(1) by (auto simp: bi_wf_def bi_iterate_def split: file_blocks_union.splits)
  then have "\<exists>fb \<in> set (bi_iterate b). fb_matches a f fb"
    using assms(2) by (auto simp: places_def fb_matches_def)
  then have l: "bi_local_file (bi_mark_local_available a b f) \<noteq> None"
    using bi_mark_iterate [OF assms(1), of f] mark_first_local [of "bi_iterate b" a f]
    by (auto simp: bi_local_file_def find_None_iff)
  have "bi_wf a (bi_mark_local_available a b f)" using bi_mark_iterate [OF assms(1)] by blast
  from bi_link_iterate [OF this, of g i] l assms(3) show ?thesis by simp
qed

theorem block_mark_available_witness:
  "bi_local_file (bi_mark_local_available 7 (bi_link 7 \<lparr>bi_hash = [], bi_file_blocks = multi [], bi_size = 0, bi_counter = 0\<rparr> 1 0) 1) \<noteq> None"
proof -
  let ?b = "\<lparr>bi_hash = [], bi_file_blocks = multi [], bi_size = 0, bi_counter = 0\<rparr> :: block_info"
  have wf: "bi_wf 7 ?b" by (simp add: bi_wf_def bi_is_single_def)
  have "places (bi_link 7 ?b 1 0) = [(1, 0)]"
    using bl.lnk_places [OF wf, of 0 1] by (simp add: places_def bi_iterate_def bi_is_single_def)
  then show ?thesis using block_mark_available [OF bl.lnk_wf [OF wf], of 1 1 0 0] by simp
qed

end
