(* ===== verification/File_Info.thy ===== *)
theory File_Info
  imports Block_Info
begin

text \<open>
  Files (\<^verbatim>\<open>src/model/file_info.h\<close>, \<^verbatim>\<open>src/model/file_info.cpp\<close>) in a store of file and block
  objects. A file holds raw pointers to its blocks with the availability bit in the pointer, a
  block holds the places it occurs at and a reference count: both sides are kept in step by
  assigning, removing and marking blocks. A step that would violate an assertion of the source,
  or touch memory that is not there, has no result (\<open>None\<close>).
\<close>

subsection \<open>Flags\<close>

definition f_type_file :: u16 where "f_type_file = push_bit 0 1"
definition f_type_dir :: u16 where "f_type_dir = push_bit 1 1"
definition f_type_link :: u16 where "f_type_link = push_bit 2 1"
definition f_deleted :: u16 where "f_deleted = push_bit 3 1"
definition f_invalid :: u16 where "f_invalid = push_bit 4 1"
definition f_no_permissions :: u16 where "f_no_permissions = push_bit 5 1"
definition f_synchronizing :: u16 where "f_synchronizing = push_bit 6 1"
definition f_unreachable :: u16 where "f_unreachable = push_bit 7 1"
definition f_local :: u16 where "f_local = push_bit 8 1"
definition f_available :: u16 where "f_available = push_bit 9 1"

text \<open>The six flags that come with a message; the rest is local to this host.\<close>

definition wire_flags :: u16 where "wire_flags = 0x3F"

definition as_flags :: "file_info_type \<Rightarrow> u16" where
  "as_flags t = (if t = DIRECTORY then f_type_dir else if t = SYMLINK then f_type_link else f_type_file)"

definition as_type :: "u16 \<Rightarrow> file_info_type" where
  "as_type flags = (if flags AND f_type_dir \<noteq> 0 then DIRECTORY
     else if flags AND f_type_link \<noteq> 0 then SYMLINK else FILE)"

subsection \<open>Files and the store\<close>

text \<open>A slot of a file: null, or a block's address with the bit that says it is available.\<close>

type_synonym raw_block = "(addr \<times> bool) option"

datatype content = file_content "raw_block list" | non_file_content string

record file_info =
  fi_key :: bytes
  fi_name :: string
  fi_modified_s :: int
  fi_modified_by :: u64
  fi_sequence :: int
  fi_permissions :: u32
  fi_modified_ns :: int
  fi_content :: content
  fi_version :: version
  fi_flags :: u16

record store =
  st_files :: "addr \<Rightarrow> file_info option"
  st_blocks :: "addr \<Rightarrow> block_info option"

definition uuid_length :: nat where "uuid_length = 16"
definition file_key_prefix :: u8 where "file_key_prefix = 0x13"

definition fi_get_uuid :: "file_info \<Rightarrow> bytes" where
  "fi_get_uuid f = take uuid_length (drop uuid_length (fi_key f))"

definition fi_get_folder_uuid :: "file_info \<Rightarrow> bytes" where
  "fi_get_folder_uuid f = take uuid_length (fi_key f)"

definition is_file :: "file_info \<Rightarrow> bool" where "is_file f \<longleftrightarrow> fi_flags f AND f_type_file \<noteq> 0"
definition is_dir :: "file_info \<Rightarrow> bool" where "is_dir f \<longleftrightarrow> fi_flags f AND f_type_dir \<noteq> 0"
definition is_link :: "file_info \<Rightarrow> bool" where "is_link f \<longleftrightarrow> fi_flags f AND f_type_link \<noteq> 0"
definition is_deleted :: "file_info \<Rightarrow> bool" where "is_deleted f \<longleftrightarrow> fi_flags f AND f_deleted \<noteq> 0"
definition is_invalid :: "file_info \<Rightarrow> bool" where "is_invalid f \<longleftrightarrow> fi_flags f AND f_invalid \<noteq> 0"
definition is_unreachable :: "file_info \<Rightarrow> bool" where "is_unreachable f \<longleftrightarrow> fi_flags f AND f_unreachable \<noteq> 0"
definition is_local :: "file_info \<Rightarrow> bool" where "is_local f \<longleftrightarrow> fi_flags f AND f_local \<noteq> 0"
definition is_synchronizing :: "file_info \<Rightarrow> bool" where "is_synchronizing f \<longleftrightarrow> fi_flags f AND f_synchronizing \<noteq> 0"
definition has_no_permissions :: "file_info \<Rightarrow> bool" where "has_no_permissions f \<longleftrightarrow> fi_flags f AND f_no_permissions \<noteq> 0"
definition get_type :: "file_info \<Rightarrow> u16" where "get_type f = fi_flags f AND 7"

definition fi_blocks :: "file_info \<Rightarrow> raw_block list" where
  "fi_blocks f = (case fi_content f of file_content bs \<Rightarrow> bs | non_file_content _ \<Rightarrow> [])"

definition fi_symlink_target :: "file_info \<Rightarrow> string" where
  "fi_symlink_target f = (case fi_content f of file_content _ \<Rightarrow> [] | non_file_content t \<Rightarrow> t)"

definition get_link_target :: "file_info \<Rightarrow> string" where
  "get_link_target f = (if is_link f then fi_symlink_target f else [])"

subsection \<open>Creation\<close>

datatype file_error = invalid_file_info_key_length | invalid_file_info_prefix

text \<open>
  \<open>fields_update\<close> from a peer's message; the version of the message may not be empty. The
  database variant takes the same steps on its own message type.
\<close>

definition set_wire_flags :: "u16 \<Rightarrow> file_info_type \<Rightarrow> bool \<Rightarrow> bool \<Rightarrow> bool \<Rightarrow> u16" where
  "set_wire_flags flags t deleted invalid no_permissions =
     (let flags = (flags AND NOT wire_flags) OR as_flags t;
          flags = (if deleted then flags OR f_deleted else flags);
          flags = (if invalid then flags OR f_invalid else flags)
      in if no_permissions then flags OR f_no_permissions else flags)"

definition new_content :: "u16 \<Rightarrow> int \<Rightarrow> nat \<Rightarrow> string \<Rightarrow> content" where
  "new_content flags declared_size blocks_size link =
     (if flags AND f_type_file \<noteq> 0
      then let has_content = declared_size \<noteq> 0; blocks_count = (if has_content then blocks_size else 0)
           in file_content (replicate blocks_count None)
      else non_file_content link)"

text \<open>Reserving space for at least one block drops the mark of complete availability.\<close>

definition reserved_flags :: "u16 \<Rightarrow> content \<Rightarrow> u16" where
  "reserved_flags flags c = (case c of
       file_content (_ # _) \<Rightarrow> flags AND NOT f_available
     | _ \<Rightarrow> flags)"

definition fields_update :: "pr_file \<Rightarrow> file_info \<Rightarrow> file_info option" where
  "fields_update source f = (case version_of_proto (pf_version source) of
       None \<Rightarrow> None
     | Some v \<Rightarrow>
        (let flags = set_wire_flags (fi_flags f) (pf_type source) (pf_deleted source) (pf_invalid source) (pf_no_permissions source);
             content = new_content flags (pf_size source) (length (pf_blocks source)) (pf_symlink_target source)
         in Some (f\<lparr>fi_name := pf_name source, fi_sequence := pf_sequence source,
              fi_flags := reserved_flags flags content,
              fi_permissions := pf_permissions source, fi_modified_s := pf_modified_s source,
              fi_modified_ns := pf_modified_ns source, fi_modified_by := pf_modified_by source,
              fi_version := v, fi_content := content\<rparr>)))"

definition fields_update_db :: "db_file \<Rightarrow> file_info \<Rightarrow> file_info option" where
  "fields_update_db source f = (case version_of_proto (df_version source) of
       None \<Rightarrow> None
     | Some v \<Rightarrow>
        (let flags = set_wire_flags (fi_flags f) (df_type source) (df_deleted source) (df_invalid source) (df_no_permissions source);
             content = new_content flags (df_size source) (length (df_blocks source)) (df_symlink_target source)
         in Some (f\<lparr>fi_name := df_name source, fi_sequence := df_sequence source,
              fi_flags := reserved_flags flags content,
              fi_permissions := df_permissions source, fi_modified_s := df_modified_s source,
              fi_modified_ns := df_modified_ns source, fi_modified_by := df_modified_by source,
              fi_version := v, fi_content := content\<rparr>)))"

definition blank_file :: "bytes \<Rightarrow> file_info" where
  "blank_file key = \<lparr>fi_key = key, fi_name = [], fi_modified_s = 0, fi_modified_by = 0, fi_sequence = 0,
     fi_permissions = 0, fi_modified_ns = 0, fi_content = non_file_content [], fi_version = [], fi_flags = 0\<rparr>"

definition create_key :: "bytes \<Rightarrow> bytes \<Rightarrow> bytes" where
  "create_key uuid folder_info_uuid = folder_info_uuid @ uuid"

definition decompose_key :: "bytes \<Rightarrow> (bytes \<times> bytes) option" where
  "decompose_key key = (if length key = 2 * uuid_length + 1
     then Some (take uuid_length (drop 1 key), drop (1 + uuid_length) key) else None)"

definition create_file :: "bytes \<Rightarrow> pr_file \<Rightarrow> bytes \<Rightarrow> file_info option" where
  "create_file uuid info folder_info_uuid = fields_update info (blank_file (create_key uuid folder_info_uuid))"

definition create_file_db :: "bytes \<Rightarrow> db_file \<Rightarrow> bytes \<Rightarrow> (file_error, file_info) result option" where
  "create_file_db key data folder_info_uuid =
     (if length key \<noteq> 2 * uuid_length + 1 then Some (Inl invalid_file_info_key_length)
      else if key ! 0 \<noteq> file_key_prefix then Some (Inl invalid_file_info_prefix)
      else if take uuid_length (drop 1 key) \<noteq> folder_info_uuid then None
      else map_option Inr (fields_update_db data (blank_file (drop 1 key))))"

subsection \<open>Sizes and conversion to messages\<close>

definition to_s64 :: "int \<Rightarrow> int" where
  "to_s64 x = (x + 2 ^ 63) mod 2 ^ 64 - 2 ^ 63"

definition slot_block :: "store \<Rightarrow> raw_block \<Rightarrow> block_info option" where
  "slot_block st raw = (case raw of None \<Rightarrow> None | Some (p, _) \<Rightarrow> st_blocks st p)"

text \<open>A null slot where the source dereferences it has no result.\<close>

definition get_block_size :: "store \<Rightarrow> file_info \<Rightarrow> int option" where
  "get_block_size st f =
     (if is_file f \<and> fi_blocks f \<noteq> [] then map_option bi_get_size (slot_block st (hd (fi_blocks f))) else Some 0)"

definition fi_get_size :: "store \<Rightarrow> file_info \<Rightarrow> int option" where
  "fi_get_size st f =
     (if is_file f \<and> \<not> is_deleted f \<and> \<not> is_invalid f \<and> fi_blocks f \<noteq> []
      then case slot_block st (last (fi_blocks f)) of
             None \<Rightarrow> None
           | Some last_block \<Rightarrow>
               if length (fi_blocks f) > 1
               then (case slot_block st (hd (fi_blocks f)) of
                       None \<Rightarrow> None
                     | Some first \<Rightarrow> Some (to_s64 (bi_get_size last_block +
                         int (length (fi_blocks f) - 1) * bi_get_size first)))
               else Some (bi_get_size last_block)
      else Some 0)"

definition get_block_offset :: "store \<Rightarrow> file_info \<Rightarrow> nat \<Rightarrow> int option" where
  "get_block_offset st f block_index =
     (if is_file f \<and> fi_blocks f \<noteq> []
      then map_option (\<lambda>b. bi_get_size b * int block_index) (slot_block st (hd (fi_blocks f))) else None)"

fun proto_blocks :: "store \<Rightarrow> raw_block list \<Rightarrow> int \<Rightarrow> pr_block list option" where
  "proto_blocks st [] offset = Some []"
| "proto_blocks st (raw # raws) offset = (case slot_block st raw of
       None \<Rightarrow> None
     | Some b \<Rightarrow> map_option (\<lambda>bs. as_bep b offset # bs) (proto_blocks st raws (offset + bi_get_size b)))"

text \<open>The hash of the empty block is computed by the crypto library, here an argument.\<close>

definition as_proto :: "bytes \<Rightarrow> store \<Rightarrow> file_info \<Rightarrow> bool \<Rightarrow> pr_file option" where
  "as_proto empty_digest st f include_blocks =
     (case (fi_get_size st f, get_block_size st f,
            if is_file f \<and> include_blocks then proto_blocks st (fi_blocks f) 0 else Some []) of
        (Some sz, Some block_size, Some blocks) \<Rightarrow>
          Some \<lparr>pf_name = fi_name f, pf_type = as_type (fi_flags f), pf_size = (if is_file f then sz else 0),
            pf_permissions = fi_permissions f, pf_modified_s = fi_modified_s f, pf_modified_ns = fi_modified_ns f,
            pf_modified_by = fi_modified_by f, pf_deleted = is_deleted f, pf_invalid = is_invalid f,
            pf_no_permissions = has_no_permissions f, pf_version = to_proto (fi_version f),
            pf_sequence = fi_sequence f, pf_block_size = (if is_file f then block_size else 0),
            pf_blocks = (if is_file f \<and> include_blocks \<and> fi_blocks f = [] \<and> \<not> is_deleted f
                         then [\<lparr>pb_offset = 0, pb_size = 0, pb_hash = empty_digest\<rparr>] else blocks),
            pf_symlink_target = (if is_file f then [] else fi_symlink_target f)\<rparr>
      | _ \<Rightarrow> None)"

definition as_db :: "store \<Rightarrow> file_info \<Rightarrow> bool \<Rightarrow> db_file option" where
  "as_db st f include_blocks =
     (case (fi_get_size st f, get_block_size st f) of
        (Some sz, Some block_size) \<Rightarrow>
          Some \<lparr>df_name = fi_name f, df_type = as_type (fi_flags f), df_size = (if is_file f then sz else 0),
            df_permissions = fi_permissions f, df_modified_s = fi_modified_s f, df_modified_ns = fi_modified_ns f,
            df_modified_by = fi_modified_by f, df_deleted = is_deleted f, df_invalid = is_invalid f,
            df_no_permissions = has_no_permissions f, df_version = to_proto (fi_version f),
            df_sequence = fi_sequence f, df_block_size = (if is_file f then block_size else 0),
            df_symlink_target = (if is_file f then [] else fi_symlink_target f),
            df_blocks = (if is_file f \<and> include_blocks
                         then map bi_hash (List.map_filter (slot_block st) (fi_blocks f)) else [])\<rparr>
      | _ \<Rightarrow> None)"

definition expected_meta_size :: "file_info \<Rightarrow> nat" where
  "expected_meta_size f = length (fi_name f) + 1 + 8 + 4 + 8 + 4 + 8 + 3 + 8 + 4 + counters_size (fi_version f) * 16 +
     (if is_file f then length (fi_blocks f) * (8 + 4 + 4 + 32) else length (fi_symlink_target f))"

subsection \<open>Comparison with a peer's message\<close>

fun same_hashes :: "store \<Rightarrow> raw_block list \<Rightarrow> pr_block list \<Rightarrow> bool" where
  "same_hashes st (raw # raws) (b # bs) =
     (case slot_block st raw of None \<Rightarrow> False
      | Some blk \<Rightarrow> bi_hash blk = pb_hash b \<and> same_hashes st raws bs)"
| "same_hashes st _ _ = True"

definition fi_identical_to :: "store \<Rightarrow> file_info \<Rightarrow> pr_file \<Rightarrow> bool option" where
  "fi_identical_to st f file = (case version_of_proto (pf_version file) of
       None \<Rightarrow> None
     | Some v \<Rightarrow> Some (version_identical_to (fi_version f) v \<and>
         length (pf_blocks file) = length (fi_blocks f) \<and> same_hashes st (fi_blocks f) (pf_blocks file)))"

definition identical_by_content_to :: "store \<Rightarrow> file_info \<Rightarrow> pr_file \<Rightarrow> bool option" where
  "identical_by_content_to st f file =
     (if pf_name file \<noteq> fi_name f then None
      else case (fi_get_size st f, get_block_size st f) of
        (Some file_size, Some block_size) \<Rightarrow> Some (
          pf_size file = file_size \<and>
          (pf_type file = as_type (fi_flags f) \<and> pf_modified_s file = fi_modified_s f \<and>
           pf_modified_ns file = fi_modified_ns f \<and> pf_deleted file = is_deleted f \<and> pf_invalid file = is_invalid f) \<and>
          (is_link f \<longrightarrow> pf_symlink_target file = get_link_target f) \<and>
          (\<not> has_no_permissions f \<longrightarrow> pf_permissions file = fi_permissions f) \<and>
          (pf_size file \<noteq> 0 \<longrightarrow> pf_block_size file = block_size))
      | _ \<Rightarrow> None)"

subsection \<open>Flag updates\<close>

definition mark_unreachable :: "bool \<Rightarrow> file_info \<Rightarrow> file_info" where
  "mark_unreachable value f = f\<lparr>fi_flags :=
     (if value then fi_flags f OR f_unreachable else fi_flags f AND NOT f_unreachable)\<rparr>"

definition available_blocks :: "raw_block list \<Rightarrow> nat" where
  "available_blocks raws = length (filter (\<lambda>raw. case raw of Some (_, True) \<Rightarrow> True | _ \<Rightarrow> False) raws)"

definition mark_local :: "bool \<Rightarrow> file_info \<Rightarrow> file_info" where
  "mark_local available f =
     (if available
      then let flags = (fi_flags f OR f_local) AND NOT f_unreachable
           in if flags AND f_type_file = 0 \<or> length (fi_blocks f) = available_blocks (fi_blocks f)
              then f\<lparr>fi_flags := flags OR f_available\<rparr> else f\<lparr>fi_flags := flags\<rparr>
      else f\<lparr>fi_flags := (fi_flags f AND NOT f_local) AND NOT f_available\<rparr>)"

definition is_locally_available :: "file_info \<Rightarrow> bool" where
  "is_locally_available f \<longleftrightarrow> \<not> is_file f \<or> (fi_flags f AND f_available \<noteq> 0 \<or> fi_blocks f = [])"

definition synchronizing_lock :: "file_info \<Rightarrow> file_info" where
  "synchronizing_lock f = f\<lparr>fi_flags := fi_flags f OR f_synchronizing\<rparr>"

definition synchronizing_unlock :: "file_info \<Rightarrow> file_info" where
  "synchronizing_unlock f = f\<lparr>fi_flags := fi_flags f AND NOT f_synchronizing\<rparr>"

subsection \<open>Block assignment in the store\<close>

definition put_file :: "addr \<Rightarrow> file_info \<Rightarrow> store \<Rightarrow> store" where
  "put_file f fi st = st\<lparr>st_files := (st_files st)(f := Some fi)\<rparr>"

definition put_block :: "addr \<Rightarrow> block_info \<Rightarrow> store \<Rightarrow> store" where
  "put_block p b st = st\<lparr>st_blocks := (st_blocks st)(p := Some b)\<rparr>"

definition set_slot :: "nat \<Rightarrow> raw_block \<Rightarrow> file_info \<Rightarrow> file_info" where
  "set_slot i raw f = f\<lparr>fi_content := file_content ((fi_blocks f)[i := raw])\<rparr>"

definition add_ref :: "addr \<Rightarrow> store \<Rightarrow> store option" where
  "add_ref p st = (case st_blocks st p of
       None \<Rightarrow> None
     | Some b \<Rightarrow> Some (put_block p (b\<lparr>bi_counter := refcouner_inc (bi_counter b)\<rparr>) st))"

definition release :: "addr \<Rightarrow> store \<Rightarrow> store option" where
  "release p st = (case st_blocks st p of
       None \<Rightarrow> None
     | Some b \<Rightarrow> (case refcouner_dec (bi_counter b) of (c, value) \<Rightarrow>
         if value = 0 then Some (st\<lparr>st_blocks := (st_blocks st)(p := None)\<rparr>)
         else Some (put_block p (b\<lparr>bi_counter := c\<rparr>) st)))"

definition assign_block :: "addr \<Rightarrow> addr \<Rightarrow> nat \<Rightarrow> store \<Rightarrow> store option" where
  "assign_block f p index st = (case (st_files st f, st_blocks st p) of
       (Some fi, Some b) \<Rightarrow>
         (if \<not> is_file fi \<or> length (fi_blocks fi) \<le> index \<or> fi_blocks fi ! index \<noteq> None then None
          else case add_ref p (put_file f (set_slot index (Some (p, False)) fi) st) of
                 None \<Rightarrow> None
               | Some st \<Rightarrow> (case st_blocks st p of None \<Rightarrow> None
                   | Some b \<Rightarrow> Some (put_block p (bi_link p b f index) st)))
     | _ \<Rightarrow> None)"

text \<open>Clearing the unlinked slots, each with the release of one reference.\<close>

fun clear_slots :: "addr \<Rightarrow> addr \<Rightarrow> nat list \<Rightarrow> store \<Rightarrow> store option" where
  "clear_slots f p [] st = Some st"
| "clear_slots f p (i # is) st = (case st_files st f of
       None \<Rightarrow> None
     | Some fi \<Rightarrow>
        (if length (fi_blocks fi) \<le> i then None
         else case release p (put_file f (set_slot i None fi) st) of
                None \<Rightarrow> None | Some st \<Rightarrow> clear_slots f p is st))"

definition remove_block :: "addr \<Rightarrow> raw_block \<Rightarrow> store \<Rightarrow> store option" where
  "remove_block f raw st = (case st_files st f of
       None \<Rightarrow> None
     | Some fi \<Rightarrow>
        (if \<not> is_file fi then None
         else case raw of
                None \<Rightarrow> Some st
              | Some (p, _) \<Rightarrow>
                 (case st_blocks st p of
                    None \<Rightarrow> None
                  | Some b \<Rightarrow> (case bi_unlink p b f of
                       None \<Rightarrow> None
                     | Some (indices, b) \<Rightarrow> clear_slots f p indices (put_block p b st)))))"

text \<open>The loop of \<open>remove_blocks\<close> from index \<open>i\<close>, \<open>n\<close> slots to go.\<close>

fun remove_blocks_loop :: "addr \<Rightarrow> nat \<Rightarrow> nat \<Rightarrow> store \<Rightarrow> store option" where
  "remove_blocks_loop f i 0 st = Some st"
| "remove_blocks_loop f i (Suc n) st = (case st_files st f of
       None \<Rightarrow> None
     | Some fi \<Rightarrow> (if length (fi_blocks fi) \<le> i then None
         else case remove_block f (fi_blocks fi ! i) st of
                None \<Rightarrow> None | Some st \<Rightarrow> remove_blocks_loop f (Suc i) n st))"

definition remove_blocks :: "addr \<Rightarrow> store \<Rightarrow> store option" where
  "remove_blocks f st = (case st_files st f of
       None \<Rightarrow> None
     | Some fi \<Rightarrow>
        (if \<not> is_file fi then Some st
         else case remove_blocks_loop f 0 (length (fi_blocks fi)) st of
                None \<Rightarrow> None
              | Some st \<Rightarrow> map_option (\<lambda>fi. put_file f (fi\<lparr>fi_flags := fi_flags fi AND NOT f_available\<rparr>) st) (st_files st f)))"

definition mark_local_available :: "addr \<Rightarrow> nat \<Rightarrow> store \<Rightarrow> store option" where
  "mark_local_available f block_index st = (case st_files st f of
       None \<Rightarrow> None
     | Some fi \<Rightarrow>
        (if length (fi_blocks fi) \<le> block_index then None
         else case fi_blocks fi ! block_index of
                Some (p, False) \<Rightarrow>
                  (case st_blocks st p of
                     None \<Rightarrow> None
                   | Some b \<Rightarrow>
                      (let st = put_block p (bi_mark_local_available p b f) st;
                           fi = set_slot block_index (Some (p, True)) fi;
                           fi = (if fi_flags fi AND f_available = 0 \<and> available_blocks (fi_blocks fi) = length (fi_blocks fi)
                                 then fi\<lparr>fi_flags := fi_flags fi OR f_available\<rparr> else fi)
                       in Some (put_file f fi st)))
              | _ \<Rightarrow> None))"

text \<open>The destructor: the blocks are unlinked one after the other and the file goes.\<close>

definition destroy_file :: "addr \<Rightarrow> store \<Rightarrow> store option" where
  "destroy_file f st = (case st_files st f of
       None \<Rightarrow> None
     | Some fi \<Rightarrow>
        (case (if is_file fi then remove_blocks_loop f 0 (length (fi_blocks fi)) st else Some st) of
           None \<Rightarrow> None
         | Some st \<Rightarrow> Some (st\<lparr>st_files := (st_files st)(f := None)\<rparr>)))"

subsection \<open>Taking over another file\<close>

definition file_local_hashes :: "addr \<Rightarrow> raw_block list \<Rightarrow> store \<Rightarrow> bytes list" where
  "file_local_hashes f raws st =
     map bi_hash (filter (\<lambda>b. \<exists>fb \<in> set (bi_iterate b). fb_is_locally_available fb \<and> fb_file fb = f)
       (List.map_filter (slot_block st) raws))"

fun add_refs :: "raw_block list \<Rightarrow> store \<Rightarrow> store option" where
  "add_refs [] st = Some st"
| "add_refs (None # raws) st = add_refs raws st"
| "add_refs (Some (p, l) # raws) st = (case add_ref p st of None \<Rightarrow> None | Some st \<Rightarrow> add_refs raws st)"

fun release_refs :: "raw_block list \<Rightarrow> store \<Rightarrow> store option" where
  "release_refs [] st = Some st"
| "release_refs (None # raws) st = release_refs raws st"
| "release_refs (Some (p, l) # raws) st = (case release p st of None \<Rightarrow> None | Some st \<Rightarrow> release_refs raws st)"

fun copy_blocks :: "addr \<Rightarrow> bytes list \<Rightarrow> nat \<Rightarrow> raw_block list \<Rightarrow> store \<Rightarrow> store option" where
  "copy_blocks f local_hashes i [] st = Some st"
| "copy_blocks f local_hashes i (None # raws) st = copy_blocks f local_hashes (Suc i) raws st"
| "copy_blocks f local_hashes i (Some (p, l) # raws) st = (case assign_block f p i st of
       None \<Rightarrow> None
     | Some st \<Rightarrow> (case st_blocks st p of
         None \<Rightarrow> None
       | Some b \<Rightarrow> (case (if bi_hash b \<in> set local_hashes then mark_local_available f i st else Some st) of
           None \<Rightarrow> None
         | Some st \<Rightarrow> copy_blocks f local_hashes (Suc i) raws st)))"

definition update_fields :: "file_info \<Rightarrow> file_info \<Rightarrow> file_info" where
  "update_fields other fi =
     (let fi = fi\<lparr>fi_permissions := fi_permissions other, fi_modified_s := fi_modified_s other,
           fi_modified_ns := fi_modified_ns other, fi_modified_by := fi_modified_by other,
           fi_version := fi_version other, fi_sequence := fi_sequence other\<rparr>
      in if is_link fi \<and> is_link other then fi\<lparr>fi_content := non_file_content (fi_symlink_target other)\<rparr> else fi)"

text \<open>The change of the union member, and the slots of the new size.\<close>

definition update_content :: "file_info \<Rightarrow> file_info \<Rightarrow> file_info" where
  "update_content other fi =
     (let n = length (fi_blocks other)
      in if is_file other
         then (if is_file fi
               then fi\<lparr>fi_content := file_content (take n (fi_blocks fi) @ replicate (n - length (fi_blocks fi)) None)\<rparr>
               else fi\<lparr>fi_content := file_content (replicate n None)\<rparr>)
         else if is_file fi then fi\<lparr>fi_content := non_file_content []\<rparr> else fi)"

definition finish_flags :: "file_info \<Rightarrow> file_info \<Rightarrow> file_info" where
  "finish_flags other fi = fi\<lparr>fi_flags := (fi_flags other AND wire_flags) OR (fi_flags fi AND NOT wire_flags)\<rparr>"

definition file_update :: "addr \<Rightarrow> addr \<Rightarrow> store \<Rightarrow> store option" where
  "file_update f g st = (case (st_files st f, st_files st g) of
       (Some fi, Some other) \<Rightarrow>
        (if fi_name fi \<noteq> fi_name other \<or>
            \<not> (fi_get_uuid fi = fi_get_uuid other \<or> version_identical_to (fi_version fi) (fi_version other)) then None
         else
          (let prev_file = is_file fi;
               blocks_copy = (if prev_file then fi_blocks fi else []);
               local_hashes = (if prev_file then file_local_hashes f (fi_blocks fi) st else []);
               st = put_file f (update_fields other fi) st
           in case add_refs blocks_copy st of None \<Rightarrow> None | Some st \<Rightarrow>
             (case (if prev_file then remove_blocks f st else Some st) of None \<Rightarrow> None | Some st \<Rightarrow>
             (case st_files st f of None \<Rightarrow> None | Some fi \<Rightarrow>
             (case copy_blocks f local_hashes 0 (if is_file other then fi_blocks other else [])
                     (put_file f (update_content other fi) st) of None \<Rightarrow> None | Some st \<Rightarrow>
             (case st_files st f of None \<Rightarrow> None | Some fi \<Rightarrow>
                release_refs blocks_copy (put_file f (finish_flags other fi) st)))))))
     | _ \<Rightarrow> None)"

subsection \<open>Flags bit by bit\<close>

lemma bit_flags [word_facts]:
  "bit f_type_file n \<longleftrightarrow> n = 0" "bit f_type_dir n \<longleftrightarrow> n = 1" "bit f_type_link n \<longleftrightarrow> n = 2"
  "bit f_deleted n \<longleftrightarrow> n = 3" "bit f_invalid n \<longleftrightarrow> n = 4" "bit f_no_permissions n \<longleftrightarrow> n = 5"
  "bit f_synchronizing n \<longleftrightarrow> n = 6" "bit f_unreachable n \<longleftrightarrow> n = 7" "bit f_local n \<longleftrightarrow> n = 8"
  "bit f_available n \<longleftrightarrow> n = 9"
  unfolding f_type_file_def f_type_dir_def f_type_link_def f_deleted_def f_invalid_def f_no_permissions_def
    f_synchronizing_def f_unreachable_def f_local_def f_available_def bit_push_bit_iff bit_1_iff
  by auto

lemma bit_wire_flags [word_facts]: "bit wire_flags n \<longleftrightarrow> n < 6"
proof -
  have m: "wire_flags = mask 6" by (simp add: wire_flags_def mask_eq_exp_minus_1)
  show ?thesis unfolding m bit_mask_iff by auto
qed

lemmas flag_bit = and_mask_bit [where 'a = 16]

lemma flag_tests:
  "x AND f_type_file \<noteq> 0 \<longleftrightarrow> bit x 0" "x AND f_type_dir \<noteq> 0 \<longleftrightarrow> bit x 1" "x AND f_type_link \<noteq> 0 \<longleftrightarrow> bit x 2"
  "x AND f_deleted \<noteq> 0 \<longleftrightarrow> bit x 3" "x AND f_invalid \<noteq> 0 \<longleftrightarrow> bit x 4" "x AND f_no_permissions \<noteq> 0 \<longleftrightarrow> bit x 5"
  "x AND f_synchronizing \<noteq> 0 \<longleftrightarrow> bit x 6" "x AND f_unreachable \<noteq> 0 \<longleftrightarrow> bit x 7" "x AND f_local \<noteq> 0 \<longleftrightarrow> bit x 8"
  "x AND f_available \<noteq> 0 \<longleftrightarrow> bit x 9"
  by (rule flag_bit, rule bit_flags)+

lemma is_file_flag: "is_file f \<longleftrightarrow> bit (fi_flags f) 0" unfolding is_file_def by (rule flag_tests)
lemma is_dir_flag: "is_dir f \<longleftrightarrow> bit (fi_flags f) 1" unfolding is_dir_def by (rule flag_tests)
lemma is_link_flag: "is_link f \<longleftrightarrow> bit (fi_flags f) 2" unfolding is_link_def by (rule flag_tests)
lemma is_deleted_flag: "is_deleted f \<longleftrightarrow> bit (fi_flags f) 3" unfolding is_deleted_def by (rule flag_tests)
lemma is_invalid_flag: "is_invalid f \<longleftrightarrow> bit (fi_flags f) 4" unfolding is_invalid_def by (rule flag_tests)
lemma no_permissions_flag: "has_no_permissions f \<longleftrightarrow> bit (fi_flags f) 5"
  unfolding has_no_permissions_def by (rule flag_tests)
lemma is_synchronizing_flag: "is_synchronizing f \<longleftrightarrow> bit (fi_flags f) 6"
  unfolding is_synchronizing_def by (rule flag_tests)
lemma is_unreachable_flag: "is_unreachable f \<longleftrightarrow> bit (fi_flags f) 7"
  unfolding is_unreachable_def by (rule flag_tests)
lemma is_local_flag: "is_local f \<longleftrightarrow> bit (fi_flags f) 8" unfolding is_local_def by (rule flag_tests)

lemmas flag_bits = is_file_flag is_dir_flag is_link_flag is_deleted_flag is_invalid_flag no_permissions_flag
  is_synchronizing_flag is_unreachable_flag is_local_flag

subsection \<open>Messages and back\<close>

definition one_type :: "file_info \<Rightarrow> bool" where
  "one_type f \<longleftrightarrow> get_type f \<in> {f_type_file, f_type_dir, f_type_link}"

lemma one_type_bits:
  assumes "one_type f"
  shows "(bit (fi_flags f) 0 \<longleftrightarrow> \<not> bit (fi_flags f) 1 \<and> \<not> bit (fi_flags f) 2) \<and> \<not> (bit (fi_flags f) 1 \<and> bit (fi_flags f) 2)"
proof -
  have m: "(7 :: u16) = mask 3" by (simp add: mask_eq_exp_minus_1)
  have b: "bit (get_type f) n \<longleftrightarrow> n < 3 \<and> bit (fi_flags f) n" for n
    unfolding get_type_def m bit_and_iff bit_mask_iff by (auto dest: bit_imp_le_length)
  from assms show ?thesis
    unfolding one_type_def using b [of 0] b [of 1] b [of 2] by (auto simp: bit_flags)
qed

lemma bit_set_wire_flags:
  "bit (set_wire_flags x t d v np) n \<longleftrightarrow>
     (if n < 6 then (n = 0 \<and> t \<noteq> DIRECTORY \<and> t \<noteq> SYMLINK) \<or> (n = 1 \<and> t = DIRECTORY) \<or> (n = 2 \<and> t = SYMLINK) \<or>
        (n = 3 \<and> d) \<or> (n = 4 \<and> v) \<or> (n = 5 \<and> np)
      else bit x n)"
proof (cases "n < 16")
  case True
  then show ?thesis
    unfolding set_wire_flags_def Let_def as_flags_def
    by (auto simp: bit_or_iff bit_and_iff bit_not_iff bit_flags bit_wire_flags)
next
  case False
  then show ?thesis by (auto dest: bit_imp_le_length)
qed

lemma set_wire_flags_same:
  assumes "one_type f"
  shows "set_wire_flags 0 (as_type (fi_flags f)) (is_deleted f) (is_invalid f) (has_no_permissions f) = fi_flags f AND wire_flags"
proof (rule bit_word_eqI)
  fix n
  assume "n < LENGTH(16)"
  have t: "as_type (fi_flags f) = (if bit (fi_flags f) 1 then DIRECTORY else if bit (fi_flags f) 2 then SYMLINK else FILE)"
    unfolding as_type_def flag_tests by simp
  consider "n = 0" | "n = 1" | "n = 2" | "n = 3" | "n = 4" | "n = 5" | "6 \<le> n" by linarith
  then show "bit (set_wire_flags 0 (as_type (fi_flags f)) (is_deleted f) (is_invalid f) (has_no_permissions f)) n =
      bit (fi_flags f AND wire_flags) n"
    unfolding bit_set_wire_flags bit_and_iff bit_wire_flags t
    using one_type_bits [OF assms] by cases (simp_all add: flag_bits)
qed

text \<open>
  A file written to a message and created again from it keeps its name, sequence, times,
  permissions, version and link target and the six flags of the message, drops the flags local to the
  host, and gets one empty slot per block unless the declared size is zero.
\<close>

theorem file_proto_roundtrip:
  assumes "as_proto empty_digest st fi True = Some m" "one_type fi" "file_content (fi_blocks fi) = fi_content fi \<or> \<not> is_file fi"
    "version_of_proto (to_proto (fi_version fi)) = Some (fi_version fi)"
  shows "\<exists>fi'. fields_update m (blank_file (fi_key fi)) = Some fi' \<and> fi_key fi' = fi_key fi \<and> fi_name fi' = fi_name fi \<and>
    fi_sequence fi' = fi_sequence fi \<and> fi_permissions fi' = fi_permissions fi \<and> fi_modified_s fi' = fi_modified_s fi \<and>
    fi_modified_ns fi' = fi_modified_ns fi \<and> fi_modified_by fi' = fi_modified_by fi \<and> fi_version fi' = fi_version fi \<and>
    fi_flags fi' = fi_flags fi AND wire_flags \<and> (\<not> is_file fi \<longrightarrow> fi_symlink_target fi' = fi_symlink_target fi) \<and>
    fi_blocks fi' = replicate (if is_file fi \<and> pf_size m \<noteq> 0 then length (fi_blocks fi) else 0) None"
proof -
  obtain sz bsz bs where parts: "fi_get_size st fi = Some sz" "get_block_size st fi = Some bsz"
    "(if is_file fi then proto_blocks st (fi_blocks fi) 0 else Some []) = Some bs"
    using assms(1) by (auto simp: as_proto_def split: option.splits if_splits)
  have m: "pf_name m = fi_name fi" "pf_type m = as_type (fi_flags fi)" "pf_size m = (if is_file fi then sz else 0)"
    "pf_permissions m = fi_permissions fi" "pf_modified_s m = fi_modified_s fi" "pf_modified_ns m = fi_modified_ns fi"
    "pf_modified_by m = fi_modified_by fi" "pf_deleted m = is_deleted fi" "pf_invalid m = is_invalid fi"
    "pf_no_permissions m = has_no_permissions fi" "pf_version m = to_proto (fi_version fi)" "pf_sequence m = fi_sequence fi"
    "pf_blocks m = (if is_file fi \<and> fi_blocks fi = [] \<and> \<not> is_deleted fi
        then [\<lparr>pb_offset = 0, pb_size = 0, pb_hash = empty_digest\<rparr>] else bs)"
    "pf_symlink_target m = (if is_file fi then [] else fi_symlink_target fi)"
    using assms(1) parts by (auto simp: as_proto_def)
  have len: "proto_blocks st raws off = Some bs \<Longrightarrow> length bs = length raws" for raws off bs
    by (induction raws arbitrary: off bs) (auto split: option.splits)
  have sz0: "fi_blocks fi = [] \<Longrightarrow> sz = 0" using parts(1) by (auto simp: fi_get_size_def split: if_splits)
  let ?fl = "fi_flags fi AND wire_flags"
  have fl: "set_wire_flags 0 (pf_type m) (pf_deleted m) (pf_invalid m) (pf_no_permissions m) = ?fl"
    unfolding m by (rule set_wire_flags_same [OF assms(2)])
  have isf: "?fl AND f_type_file \<noteq> 0 \<longleftrightarrow> is_file fi"
    unfolding flag_tests is_file_flag by (simp add: bit_and_iff bit_wire_flags)
  have avail: "reserved_flags ?fl c = ?fl" for c
  proof -
    have "?fl AND NOT f_available = ?fl"
      by (rule bit_word_eqI) (auto simp: bit_and_iff bit_not_iff bit_flags bit_wire_flags)
    then show ?thesis by (simp add: reserved_flags_def split: content.splits list.splits)
  qed
  let ?c = "new_content ?fl (pf_size m) (length (pf_blocks m)) (pf_symlink_target m)"
  have "fields_update m (blank_file (fi_key fi)) = Some ((blank_file (fi_key fi))\<lparr>fi_name := pf_name m,
      fi_sequence := pf_sequence m, fi_flags := ?fl, fi_permissions := pf_permissions m, fi_modified_s := pf_modified_s m,
      fi_modified_ns := pf_modified_ns m, fi_modified_by := pf_modified_by m, fi_version := fi_version fi, fi_content := ?c\<rparr>)"
    using assms(4) fl by (simp add: fields_update_def Let_def m(11) blank_file_def avail)
  moreover have "?c = (if is_file fi then file_content (replicate (if pf_size m \<noteq> 0 then length (fi_blocks fi) else 0) None)
      else non_file_content (fi_symlink_target fi))"
    unfolding new_content_def isf Let_def using parts(3) len sz0 by (auto simp: m(3,13,14))
  ultimately show ?thesis by (simp add: blank_file_def m fi_blocks_def fi_symlink_target_def)
qed

theorem file_proto_roundtrip_witness:
  "\<exists>fi'. fields_update \<lparr>pf_name = ''d'', pf_type = DIRECTORY, pf_size = 0, pf_permissions = 5, pf_modified_s = 6, pf_modified_ns = 7,
     pf_modified_by = 1, pf_deleted = False, pf_invalid = False, pf_no_permissions = False,
     pf_version = [\<lparr>counter_id = 1, counter_value = 3\<rparr>], pf_sequence = 4, pf_block_size = 0, pf_blocks = [], pf_symlink_target = []\<rparr>
     (blank_file []) = Some fi' \<and> fi_name fi' = ''d'' \<and> fi_flags fi' = f_type_dir"
proof -
  let ?st = "\<lparr>st_files = (\<lambda>_. None), st_blocks = (\<lambda>_. None)\<rparr>"
  let ?fi = "\<lparr>fi_key = [], fi_name = ''d'', fi_modified_s = 6, fi_modified_by = 1, fi_sequence = 4, fi_permissions = 5,
     fi_modified_ns = 7, fi_content = non_file_content [], fi_version = [\<lparr>counter_id = 1, counter_value = mark 3\<rparr>],
     fi_flags = f_type_dir OR f_local\<rparr>"
  have "as_proto [] ?st ?fi True = Some \<lparr>pf_name = ''d'', pf_type = DIRECTORY, pf_size = 0, pf_permissions = 5, pf_modified_s = 6, pf_modified_ns = 7,
     pf_modified_by = 1, pf_deleted = False, pf_invalid = False, pf_no_permissions = False,
     pf_version = [\<lparr>counter_id = 1, counter_value = 3\<rparr>], pf_sequence = 4, pf_block_size = 0, pf_blocks = [], pf_symlink_target = []\<rparr>"
    by code_simp
  moreover have "one_type ?fi" by code_simp
  moreover have "file_content (fi_blocks ?fi) = fi_content ?fi \<or> \<not> is_file ?fi" by code_simp
  moreover have "version_of_proto (to_proto (fi_version ?fi)) = Some (fi_version ?fi)" by code_simp
  moreover have "(f_type_dir OR f_local) AND wire_flags = f_type_dir" by code_simp
  ultimately show ?thesis using file_proto_roundtrip [of "[]" ?st ?fi] by auto
qed

subsection \<open>Changes of type in an update\<close>

text \<open>A store of two files of the same identity, for the observations below.\<close>

definition two_files :: "u16 \<Rightarrow> content \<Rightarrow> u16 \<Rightarrow> content \<Rightarrow> store" where
  "two_files flags c flags' c' =
     \<lparr>st_files = (\<lambda>_. None)(
        1 := Some ((blank_file [])\<lparr>fi_flags := flags, fi_content := c\<rparr>),
        2 := Some ((blank_file [])\<lparr>fi_flags := flags', fi_content := c'\<rparr>)),
      st_blocks = (\<lambda>_. None)(3 := Some \<lparr>bi_hash = [], bi_file_blocks = single \<lparr>fb_block = 3, fb_file = 2, fb_block_idx = 0\<rparr>,
        bi_size = 5, bi_counter = SINGLE_MASK OR 2\<rparr>)\<rparr>"

text \<open>
  A link is copied by \<open>update\<close> only onto a link: when a directory becomes a symbolic link, the
  updated file is a link with an empty target; when a directory becomes a file with a block, the
  type flag checked while its blocks are assigned is still the old one and the assertion fails.
\<close>

theorem update_type_change:
  "map_option (\<lambda>st. map_option (\<lambda>fi. (is_link fi, get_link_target fi)) (st_files st 1))
     (file_update 1 2 (two_files f_type_dir (non_file_content []) f_type_link (non_file_content ''t''))) = Some (Some (True, [])) \<and>
   file_update 1 2 (two_files f_type_dir (non_file_content []) f_type_file (file_content [Some (3, False)])) = None"
proof
  show "map_option (\<lambda>st. map_option (\<lambda>fi. (is_link fi, get_link_target fi)) (st_files st 1))
     (file_update 1 2 (two_files f_type_dir (non_file_content []) f_type_link (non_file_content ''t''))) = Some (Some (True, []))"
    by code_simp
  show "file_update 1 2 (two_files f_type_dir (non_file_content []) f_type_file (file_content [Some (3, False)])) = None"
    by code_simp
qed

end
