(* ===== verification/File_Links.thy ===== *)
theory File_Links
  imports File_Info
begin

text \<open>
  The two sides of the file--block links stay in step: a slot of a file points to a block exactly
  when the block lists that place, no pointer dangles, and a block is freed only when no slot
  points to it. The theory proves that assigning, marking and removing blocks, and taking
  over another file, keep this invariant and do not fail.
\<close>

subsection \<open>Slots and the store invariant\<close>

definition slot :: "store \<Rightarrow> addr \<Rightarrow> nat \<Rightarrow> raw_block" where
  "slot st f i = (case st_files st f of None \<Rightarrow> None
     | Some fi \<Rightarrow> if i < length (fi_blocks fi) then fi_blocks fi ! i else None)"

definition block_ok :: "store \<Rightarrow> addr \<Rightarrow> block_info \<Rightarrow> bool" where
  "block_ok st p b \<longleftrightarrow> bi_wf p b \<and> distinct (places b) \<and> length (places b) \<le> use_count b \<and>
     (\<forall>f i. (f, i) \<in> set (places b) \<longleftrightarrow> (\<exists>l. slot st f i = Some (p, l)))"

definition file_ok :: "file_info \<Rightarrow> bool" where
  "file_ok fi \<longleftrightarrow> length (fi_blocks fi) \<le> 2 ^ 31 \<and> (is_file fi \<longleftrightarrow> (\<exists>raws. fi_content fi = file_content raws))"

definition store_ok :: "store \<Rightarrow> bool" where
  "store_ok st \<longleftrightarrow> (\<forall>p b. st_blocks st p = Some b \<longrightarrow> block_ok st p b) \<and>
     (\<forall>f i p l. slot st f i = Some (p, l) \<longrightarrow> st_blocks st p \<noteq> None) \<and>
     (\<forall>f fi. st_files st f = Some fi \<longrightarrow> file_ok fi)"

lemma store_okD:
  assumes "store_ok st"
  shows "st_blocks st p = Some b \<Longrightarrow> bi_wf p b"
    "st_blocks st p = Some b \<Longrightarrow> distinct (places b)"
    "st_blocks st p = Some b \<Longrightarrow> length (places b) \<le> use_count b"
    "st_blocks st p = Some b \<Longrightarrow> (f, i) \<in> set (places b) \<longleftrightarrow> (\<exists>l. slot st f i = Some (p, l))"
    "slot st f i = Some (p, l) \<Longrightarrow> \<exists>b. st_blocks st p = Some b"
    "st_files st f = Some fi \<Longrightarrow> file_ok fi"
  using assms unfolding store_ok_def block_ok_def by blast+

lemma fi_blocks_set_slot [simp]: "fi_blocks (set_slot i raw fi) = (fi_blocks fi)[i := raw]"
  by (simp add: set_slot_def fi_blocks_def)

lemma fi_blocks_content [simp]: "fi_blocks (fi\<lparr>fi_content := file_content raws\<rparr>) = raws"
  by (simp add: fi_blocks_def)

lemma is_file_content [simp]: "is_file (fi\<lparr>fi_content := c\<rparr>) = is_file fi"
  by (simp add: is_file_def)

lemma fi_flags_set_slot [simp]: "fi_flags (set_slot i raw fi) = fi_flags fi"
  by (simp add: set_slot_def)

lemma st_put [simp]:
  "st_files (put_file f fi st) = (st_files st)(f := Some fi)" "st_blocks (put_file f fi st) = st_blocks st"
  "st_blocks (put_block p b st) = (st_blocks st)(p := Some b)" "st_files (put_block p b st) = st_files st"
  by (simp_all add: put_file_def put_block_def)

lemma slot_cong: "st_files st = st_files st' \<Longrightarrow> slot st = slot st'"
  by (intro ext) (simp add: slot_def)

lemma slot_put_block [simp]: "slot (put_block p b st) = slot st"
  by (rule slot_cong) simp

lemma slot_put_file:
  "slot (put_file f fi st) g i = (if g = f then if i < length (fi_blocks fi) then fi_blocks fi ! i else None else slot st g i)"
  by (simp add: slot_def)

lemma slot_set_slot:
  assumes "st_files st f = Some fi" "i < length (fi_blocks fi)"
  shows "slot (put_file f (set_slot i raw fi) st) g j = (if g = f \<and> j = i then raw else slot st g j)"
  using assms by (auto simp: slot_put_file slot_def nth_list_update)

subsection \<open>Reference counting\<close>

definition inc_ref :: "block_info \<Rightarrow> block_info" where
  "inc_ref b = b\<lparr>bi_counter := refcouner_inc (bi_counter b)\<rparr>"

definition dec_ref :: "block_info \<Rightarrow> block_info" where
  "dec_ref b = b\<lparr>bi_counter := fst (refcouner_dec (bi_counter b))\<rparr>"

lemma inc_ref_ok:
  assumes "use_count b < 2 ^ 30 - 1"
  shows "use_count (inc_ref b) = use_count b + 1" "places (inc_ref b) = places b" "bi_wf p (inc_ref b) = bi_wf p b"
    "bi_iterate (inc_ref b) = bi_iterate b"
proof -
  note c = block_counter_inc [OF assms]
  show u: "use_count (inc_ref b) = use_count b + 1" using c by (simp add: inc_ref_def)
  have s: "bi_is_single (inc_ref b) = bi_is_single b" using c by (simp add: inc_ref_def)
  show i: "bi_iterate (inc_ref b) = bi_iterate b" unfolding bi_iterate_def s by (simp add: inc_ref_def)
  then show "places (inc_ref b) = places b" by (simp add: places_def)
  show "bi_wf p (inc_ref b) = bi_wf p b" unfolding bi_wf_def s by (simp add: inc_ref_def)
qed

lemma dec_ref_ok:
  assumes "0 < use_count b"
  shows "use_count (dec_ref b) = use_count b - 1" "places (dec_ref b) = places b" "bi_wf p (dec_ref b) = bi_wf p b"
    "bi_iterate (dec_ref b) = bi_iterate b"
proof -
  note c = block_counter_dec [OF assms]
  show u: "use_count (dec_ref b) = use_count b - 1" unfolding dec_ref_def using c by linarith
  have s: "bi_is_single (dec_ref b) = bi_is_single b" using c by (simp add: dec_ref_def)
  show i: "bi_iterate (dec_ref b) = bi_iterate b" unfolding bi_iterate_def s by (simp add: dec_ref_def)
  then show "places (dec_ref b) = places b" by (simp add: places_def)
  show "bi_wf p (dec_ref b) = bi_wf p b" unfolding bi_wf_def s by (simp add: dec_ref_def)
qed

lemma ref_frame [simp]:
  "bi_hash (inc_ref b) = bi_hash b" "bi_size (inc_ref b) = bi_size b"
  "bi_hash (dec_ref b) = bi_hash b" "bi_size (dec_ref b) = bi_size b"
  by (simp_all add: inc_ref_def dec_ref_def)

lemma dec_refs_ok:
  assumes "n \<le> use_count b"
  shows "use_count ((dec_ref ^^ n) b) = use_count b - n \<and> places ((dec_ref ^^ n) b) = places b \<and>
    bi_wf p ((dec_ref ^^ n) b) = bi_wf p b \<and> bi_hash ((dec_ref ^^ n) b) = bi_hash b \<and>
    bi_size ((dec_ref ^^ n) b) = bi_size b \<and> bi_iterate ((dec_ref ^^ n) b) = bi_iterate b"
  using assms
proof (induction n)
  case (Suc n)
  then have "0 < use_count ((dec_ref ^^ n) b)" by simp
  with Suc show ?case using dec_ref_ok [of "(dec_ref ^^ n) b"] by simp
qed simp

lemma release_eq:
  assumes "st_blocks st p = Some b" "0 < use_count b"
  shows "release p st = Some (st\<lparr>st_blocks := (st_blocks st)(p := (if use_count b = 1 then None else Some (dec_ref b)))\<rparr>)"
proof -
  obtain c v where cv: "refcouner_dec (bi_counter b) = (c, v)" by fastforce
  have "unat v = use_count (dec_ref b)" using block_counter_dec [OF assms(2)] cv by (simp add: dec_ref_def)
  then have "v = 0 \<longleftrightarrow> use_count b = 1"
    using dec_ref_ok(1) [OF assms(2)] assms(2) by (metis One_nat_def diff_Suc_1 Suc_pred unat_eq_zero)
  then show ?thesis using assms(1) cv by (simp add: release_def put_block_def dec_ref_def)
qed

lemma add_ref_eq: "st_blocks st p = Some b \<Longrightarrow> add_ref p st = Some (put_block p (inc_ref b) st)"
  by (simp add: add_ref_def inc_ref_def)

subsection \<open>Removing blocks\<close>

definition nulls :: "nat list \<Rightarrow> raw_block list \<Rightarrow> raw_block list" where
  "nulls is raws = foldl (\<lambda>xs i. xs[i := None]) raws is"

lemma length_nulls [simp]: "length (nulls is raws) = length raws"
  unfolding nulls_def by (induction "is" arbitrary: raws) auto

lemma nth_nulls:
  "j < length raws \<Longrightarrow> nulls is raws ! j = (if j \<in> set is then None else raws ! j)"
  unfolding nulls_def by (induction "is" arbitrary: raws) (auto simp: nth_list_update)

lemma clear_slots_ok:
  assumes "st_files st f = Some fi" "st_blocks st p = Some b" "\<forall>i \<in> set is. i < length (fi_blocks fi)"
    "length is \<le> use_count b" "is \<noteq> []"
  shows "\<exists>st'. clear_slots f p is st = Some st' \<and>
     st_files st' = (st_files st)(f := Some (fi\<lparr>fi_content := file_content (nulls is (fi_blocks fi))\<rparr>)) \<and>
     st_blocks st' = (st_blocks st)(p := (if length is = use_count b then None else Some ((dec_ref ^^ length is) b)))"
  using assms
proof (induction "is" arbitrary: st fi b)
  case (Cons i "is")
  let ?fi = "set_slot i None fi"
  let ?st = "put_file f ?fi st"
  have i: "i < length (fi_blocks fi)" "0 < use_count b" using Cons.prems by auto
  define st1 where "st1 = ?st\<lparr>st_blocks := (st_blocks ?st)(p := (if use_count b = 1 then None else Some (dec_ref b)))\<rparr>"
  have rel: "release p ?st = Some st1" "st_files st1 = (st_files st)(f := Some ?fi)"
    "st_blocks st1 = (st_blocks st)(p := (if use_count b = 1 then None else Some (dec_ref b)))"
    using release_eq [of ?st p b] Cons.prems(2) i(2) by (simp_all add: st1_def)
  have step: "clear_slots f p (i # is) st = clear_slots f p is st1"
    using Cons.prems(1) i(1) rel(1) by simp
  have content: "?fi\<lparr>fi_content := file_content (nulls is (fi_blocks ?fi))\<rparr> = fi\<lparr>fi_content := file_content (nulls (i # is) (fi_blocks fi))\<rparr>"
    by (simp add: set_slot_def nulls_def fi_blocks_def)
  show ?case
  proof (cases "is = []")
    case True
    then have "clear_slots f p (i # is) st = Some st1" using step by simp
    moreover have "?fi = fi\<lparr>fi_content := file_content (nulls (i # is) (fi_blocks fi))\<rparr>"
      using True by (simp add: set_slot_def nulls_def)
    moreover have "(dec_ref ^^ length (i # is)) b = dec_ref b" "length (i # is) = use_count b \<longleftrightarrow> use_count b = 1"
      using True by auto
    ultimately show ?thesis using rel(2,3) by auto
  next
    case False
    then have many: "use_count b \<noteq> 1" using Cons.prems(4) by (cases "is") auto
    have "st_files st1 f = Some ?fi" "st_blocks st1 p = Some (dec_ref b)" "\<forall>i \<in> set is. i < length (fi_blocks ?fi)"
      "length is \<le> use_count (dec_ref b)"
      using rel many Cons.prems(3,4) dec_ref_ok(1) [OF i(2)] by auto
    from Cons.IH [OF this False] obtain st' where st': "clear_slots f p is st1 = Some st'"
      "st_files st' = (st_files st1)(f := Some (?fi\<lparr>fi_content := file_content (nulls is (fi_blocks ?fi))\<rparr>))"
      "st_blocks st' = (st_blocks st1)(p := (if length is = use_count (dec_ref b) then None else Some ((dec_ref ^^ length is) (dec_ref b))))"
      by blast
    have "(length is = use_count (dec_ref b)) = (length (i # is) = use_count b)"
      using dec_ref_ok(1) [OF i(2)] i(2) by auto
    then have "st_blocks st' = (st_blocks st)(p := (if length (i # is) = use_count b then None else Some ((dec_ref ^^ length (i # is)) b)))"
      using st'(3) rel(3) by (simp add: funpow_swap1)
    moreover have "st_files st' = (st_files st)(f := Some (fi\<lparr>fi_content := file_content (nulls (i # is) (fi_blocks fi))\<rparr>))"
      using st'(2) rel(2) unfolding content by simp
    ultimately show ?thesis using step st'(1) by auto
  qed
qed simp

text \<open>The effect of removing a block: every slot of the file that pointed to it is null.\<close>

definition drop_pointer :: "addr \<Rightarrow> raw_block \<Rightarrow> raw_block" where
  "drop_pointer p raw = (case raw of Some (q, l) \<Rightarrow> if q = p then None else raw | None \<Rightarrow> None)"

lemma drop_pointer_simps [simp]:
  "drop_pointer p None = None" "drop_pointer p (Some (q, l)) = (if q = p then None else Some (q, l))"
  by (simp_all add: drop_pointer_def)

lemma remove_block_eq:
  assumes ok: "store_ok st" and f: "st_files st f = Some fi" "is_file fi" and s: "slot st f i = Some (p, l)"
    and b: "st_blocks st p = Some b"
  shows "\<exists>st' r c. remove_block f (Some (p, l)) st = Some st' \<and>
    st_files st' = (st_files st)(f := Some (fi\<lparr>fi_content := file_content (map (drop_pointer p) (fi_blocks fi))\<rparr>)) \<and>
    st_blocks st' = (st_blocks st)(p := (if r = use_count b then None else Some c)) \<and>
    r + length (places c) = length (places b) \<and> use_count c = use_count b - r \<and> bi_wf p c \<and>
    places c = filter (\<lambda>q. fst q \<noteq> f) (places b) \<and> bi_iterate c = filter (\<lambda>fb. fb_file fb \<noteq> f) (bi_iterate b) \<and>
    bi_hash c = bi_hash b \<and> bi_size c = bi_size b"
proof -
  note wf = store_okD(1-3) [OF ok b]
  note pl = store_okD(4) [OF ok b]
  have "(f, i) \<in> set (places b)" using pl s by blast
  from bl.unl_defined [OF wf(1) this] obtain r b' where u: "bi_unlink p b f = Some (r, b')" "i \<in> set r" "bi_wf p b'"
    "use_count b' = use_count b" "r = map snd (filter (\<lambda>q. fst q = f) (places b))"
    "places b' = filter (\<lambda>q. fst q \<noteq> f) (places b)" by blast
  have it: "bi_iterate b' = filter (\<lambda>fb. fb_file fb \<noteq> f) (bi_iterate b)" "bi_hash b' = bi_hash b" "bi_size b' = bi_size b"
    using bi_unlink_iterate [OF wf(1), of f] u(1) by auto
  have r: "j \<in> set r \<longleftrightarrow> (\<exists>l. slot st f j = Some (p, l))" for j
  proof -
    have "j \<in> set r \<longleftrightarrow> (f, j) \<in> set (places b)" unfolding u(5) by (auto simp: image_iff)
    then show ?thesis using pl by blast
  qed
  have len: "length r + length (places b') = length (places b)"
    unfolding u(5,6) by (simp add: sum_length_filter_compl)
  then have le: "length r \<le> use_count b'" using wf(3) u(4) by simp
  have rng: "\<forall>i \<in> set r. i < length (fi_blocks fi)" using r f(1) by (auto simp: slot_def split: if_splits)
  have ne: "r \<noteq> []" using u(2) by auto
  have nulls: "nulls r (fi_blocks fi) = map (drop_pointer p) (fi_blocks fi)"
  proof (rule nth_equalityI)
    fix j
    assume "j < length (nulls r (fi_blocks fi))"
    then have "j < length (fi_blocks fi)" by simp
    moreover from this have "slot st f j = fi_blocks fi ! j" using f(1) by (simp add: slot_def)
    ultimately show "nulls r (fi_blocks fi) ! j = map (drop_pointer p) (fi_blocks fi) ! j"
      using r [of j] by (cases "fi_blocks fi ! j") (auto simp: nth_nulls)
  qed simp
  have "st_files (put_block p b' st) f = Some fi" "st_blocks (put_block p b' st) p = Some b'" using f by simp_all
  from clear_slots_ok [OF this rng le ne] obtain st' where st': "clear_slots f p r (put_block p b' st) = Some st'"
    "st_files st' = (st_files st)(f := Some (fi\<lparr>fi_content := file_content (map (drop_pointer p) (fi_blocks fi))\<rparr>))"
    "st_blocks st' = (st_blocks st)(p := (if length r = use_count b then None else Some ((dec_ref ^^ length r) b')))"
    unfolding nulls u(4) by auto
  have "remove_block f (Some (p, l)) st = Some st'" using f b u(1) st'(1) by (simp add: remove_block_def)
  then show ?thesis
    using st'(2,3) dec_refs_ok [OF le, of p] len u(3,4,6) it
    by (intro exI [of _ st'] exI [of _ "length r"] exI [of _ "(dec_ref ^^ length r) b'"] conjI) simp_all
qed

text \<open>
  The references to a block that come from elsewhere than its places. A sequence of link
  changes, at most \<open>n\<close> of them new links, keeps them, and frees only blocks without.
\<close>

definition slack :: "block_info \<Rightarrow> nat" where
  "slack b = use_count b - length (places b)"

definition block_kept :: "nat \<Rightarrow> store \<Rightarrow> store \<Rightarrow> bool" where
  "block_kept n st st' \<longleftrightarrow>
     (\<forall>q b'. st_blocks st' q = Some b' \<longrightarrow> (\<exists>b. st_blocks st q = Some b \<and> bi_hash b' = bi_hash b \<and>
        bi_size b' = bi_size b \<and> slack b' = slack b \<and> use_count b' \<le> use_count b + n)) \<and>
     (\<forall>q b. st_blocks st q = Some b \<longrightarrow> 0 < slack b \<longrightarrow> st_blocks st' q \<noteq> None)"

lemma block_keptD:
  assumes "block_kept n st st'"
  shows "st_blocks st' q = Some b' \<Longrightarrow> \<exists>b. st_blocks st q = Some b \<and> bi_hash b' = bi_hash b \<and>
        bi_size b' = bi_size b \<and> slack b' = slack b \<and> use_count b' \<le> use_count b + n"
    "st_blocks st q = Some b \<Longrightarrow> 0 < slack b \<Longrightarrow> \<exists>b'. st_blocks st' q = Some b'"
  using assms unfolding block_kept_def by blast+

lemma block_kept_trans:
  assumes "block_kept n st st'" "block_kept m st' st''"
  shows "block_kept (n + m) st st''"
  unfolding block_kept_def
proof (intro conjI allI impI)
  fix q b''
  assume "st_blocks st'' q = Some b''"
  from block_keptD(1) [OF assms(2) this] obtain b' where b': "st_blocks st' q = Some b'" "bi_hash b'' = bi_hash b'"
    "bi_size b'' = bi_size b'" "slack b'' = slack b'" "use_count b'' \<le> use_count b' + m" by blast
  from block_keptD(1) [OF assms(1) b'(1)] b'
  show "\<exists>b. st_blocks st q = Some b \<and> bi_hash b'' = bi_hash b \<and> bi_size b'' = bi_size b \<and> slack b'' = slack b \<and>
      use_count b'' \<le> use_count b + (n + m)"
    by auto
next
  fix q b
  assume b: "st_blocks st q = Some b" "0 < slack b"
  obtain b' where b': "st_blocks st' q = Some b'" using block_keptD(2) [OF assms(1) b] by blast
  from block_keptD(1) [OF assms(1) b'] b have "0 < slack b'" by auto
  from block_keptD(2) [OF assms(2) b' this] show "st_blocks st'' q \<noteq> None" by auto
qed

lemma block_kept_refl: "block_kept n st st"
  unfolding block_kept_def by auto

lemma remove_block_ok:
  assumes ok: "store_ok st" and f: "st_files st f = Some fi" "is_file fi" and s: "slot st f i = Some (p, l)"
  shows "\<exists>st'. remove_block f (Some (p, l)) st = Some st' \<and> store_ok st' \<and> block_kept 0 st st' \<and>
    st_files st' = (st_files st)(f := Some (fi\<lparr>fi_content := file_content (map (drop_pointer p) (fi_blocks fi))\<rparr>))"
proof -
  obtain b where b: "st_blocks st p = Some b" using store_okD(5) [OF ok s] by blast
  note pl = store_okD(4) [OF ok b]
  let ?fi = "fi\<lparr>fi_content := file_content (map (drop_pointer p) (fi_blocks fi))\<rparr>"
  obtain st' r c where eq: "remove_block f (Some (p, l)) st = Some st'"
    and files: "st_files st' = (st_files st)(f := Some ?fi)"
    and blocks: "st_blocks st' = (st_blocks st)(p := (if r = use_count b then None else Some c))"
    and len: "r + length (places c) = length (places b)" and uc: "use_count c = use_count b - r"
    and c: "bi_wf p c" "places c = filter (\<lambda>q. fst q \<noteq> f) (places b)" "bi_hash c = bi_hash b" "bi_size c = bi_size b"
    using remove_block_eq [OF ok f s b] by blast
  have slots: "slot st' g j = (if g = f then drop_pointer p (slot st g j) else slot st g j)" for g j
    unfolding slot_def files using f(1) by simp
  have ref: "(\<exists>l. slot st' g j = Some (q, l)) \<longleftrightarrow> (\<exists>l. slot st g j = Some (q, l)) \<and> \<not> (g = f \<and> q = p)" for g j q
    unfolding slots by (cases "slot st g j") (auto split: if_splits)
  have bok: "block_ok st' q d" if d: "st_blocks st' q = Some d" for q d
  proof (cases "q = p")
    case True
    then have "d = c" using d blocks by (simp split: if_splits)
    moreover have "length (places c) \<le> use_count c" using len uc store_okD(3) [OF ok b] by simp
    moreover have "(g, j) \<in> set (places c) \<longleftrightarrow> (\<exists>l. slot st' g j = Some (p, l))" for g j
      using pl [of g j] unfolding c(2) ref by auto
    ultimately show ?thesis using c(1) store_okD(2) [OF ok b] True by (simp add: block_ok_def c(2))
  next
    case False
    then have "st_blocks st q = Some d" using d blocks by simp
    then show ?thesis using False store_okD(1-4) [OF ok] unfolding block_ok_def ref by blast
  qed
  have dang: "st_blocks st' q \<noteq> None" if a: "slot st' g j = Some (q, k)" for g j q k
  proof -
    have a': "\<exists>l. slot st g j = Some (q, l)" "\<not> (g = f \<and> q = p)" using ref a by blast+
    then have ex: "st_blocks st q \<noteq> None" using store_okD(5) [OF ok] by blast
    show ?thesis
    proof (cases "q = p")
      case True
      then have "(g, j) \<in> set (places c)" using pl a' by (auto simp: c(2))
      then have "0 < length (places c)" by (cases "places c") auto
      then have "r \<noteq> use_count b" using len store_okD(3) [OF ok b] by linarith
      then show ?thesis using True blocks by simp
    qed (use ex blocks in simp)
  qed
  have fok: "file_ok gi" if "st_files st' g = Some gi" for g gi
  proof (cases "g = f")
    case True
    then have "gi = ?fi" using that files by simp
    then show ?thesis using store_okD(6) [OF ok f(1)] f(2) by (simp add: file_ok_def)
  qed (use that files store_okD(6) [OF ok] in simp)
  have "store_ok st'" unfolding store_ok_def using bok dang fok by blast
  moreover have "block_kept 0 st st'"
  proof -
    have sl: "slack c = slack b" using len uc store_okD(3) [OF ok b] by (simp add: slack_def)
    have "r \<noteq> use_count b" if "0 < slack b" using that len by (auto simp: slack_def)
    then show ?thesis unfolding block_kept_def blocks using b c(3,4) uc sl by (auto split: if_splits)
  qed
  ultimately show ?thesis using eq files by blast
qed

lemma remove_blocks_loop_ok:
  assumes "store_ok st" "st_files st f = Some fi" "is_file fi" "i + n = length (fi_blocks fi)"
    "\<forall>j < i. fi_blocks fi ! j = None"
  shows "\<exists>st'. remove_blocks_loop f i n st = Some st' \<and> store_ok st' \<and> block_kept 0 st st' \<and>
    st_files st' = (st_files st)(f := Some (fi\<lparr>fi_content := file_content (replicate (length (fi_blocks fi)) None)\<rparr>))"
  using assms
proof (induction n arbitrary: i st fi)
  case 0
  then have null: "fi_blocks fi = replicate (length (fi_blocks fi)) None" by (intro nth_equalityI) auto
  have "\<exists>raws. fi_content fi = file_content raws"
    using store_okD(6) [OF 0(1,2)] 0(3) by (simp add: file_ok_def)
  then have "fi\<lparr>fi_content := file_content (replicate (length (fi_blocks fi)) None)\<rparr> = fi"
    by (subst null [symmetric]) (auto simp: fi_blocks_def)
  then show ?case using 0 block_kept_refl by (simp add: fun_upd_idem)
next
  case (Suc n)
  then have i: "i < length (fi_blocks fi)" by simp
  show ?case
  proof (cases "fi_blocks fi ! i")
    case None
    then have "remove_block f (fi_blocks fi ! i) st = Some st" using Suc.prems by (simp add: remove_block_def)
    moreover have "\<forall>j < Suc i. fi_blocks fi ! j = None" using Suc.prems(5) None less_Suc_eq by auto
    ultimately show ?thesis using Suc.IH [OF Suc.prems(1-3), of "Suc i"] Suc.prems(2,4) i by simp
  next
    case (Some q)
    obtain p l where q: "q = (p, l)" by (cases q)
    have "slot st f i = Some (p, l)" using Suc.prems(2) i Some q by (simp add: slot_def)
    from remove_block_ok [OF Suc.prems(1-3) this] obtain st1 where st1: "remove_block f (Some (p, l)) st = Some st1"
      "store_ok st1" "block_kept 0 st st1"
      "st_files st1 = (st_files st)(f := Some (fi\<lparr>fi_content := file_content (map (drop_pointer p) (fi_blocks fi))\<rparr>))" by blast
    let ?fi = "fi\<lparr>fi_content := file_content (map (drop_pointer p) (fi_blocks fi))\<rparr>"
    have "map (drop_pointer p) (fi_blocks fi) ! j = None" if "j < Suc i" for j
      using that Suc.prems(5) i Some q by (cases "j = i") auto
    then have "\<exists>st'. remove_blocks_loop f (Suc i) n st1 = Some st' \<and> store_ok st' \<and> block_kept 0 st1 st' \<and>
      st_files st' = (st_files st1)(f := Some (?fi\<lparr>fi_content := file_content (replicate (length (fi_blocks ?fi)) None)\<rparr>))"
      using Suc.prems(3,4) st1(2,4) by (intro Suc.IH) auto
    then obtain st' where st': "remove_blocks_loop f (Suc i) n st1 = Some st'" "store_ok st'" "block_kept 0 st1 st'"
      "st_files st' = (st_files st1)(f := Some (fi\<lparr>fi_content := file_content (replicate (length (fi_blocks fi)) None)\<rparr>))" by auto
    have "remove_blocks_loop f i (Suc n) st = Some st'" using Suc.prems(2) i Some q st1(1) st'(1) by simp
    moreover have "block_kept 0 st st'" using block_kept_trans [OF st1(3) st'(3)] by simp
    moreover have "st_files st' = (st_files st)(f := Some (fi\<lparr>fi_content := file_content (replicate (length (fi_blocks fi)) None)\<rparr>))"
      using st'(4) st1(4) by simp
    ultimately show ?thesis using st'(2) by blast
  qed
qed

text \<open>Changes that leave every slot and every block as they are.\<close>

lemma store_ok_same_slots:
  assumes "store_ok st" "st_blocks st' = st_blocks st" "slot st' = slot st"
    "\<And>f fi. st_files st' f = Some fi \<Longrightarrow> file_ok fi"
  shows "store_ok st'"
  using assms unfolding store_ok_def block_ok_def by simp

lemma store_ok_put_file:
  assumes "store_ok st" "st_files st f = Some fi" "fi_blocks fi' = fi_blocks fi" "file_ok fi'"
  shows "store_ok (put_file f fi' st)"
proof (rule store_ok_same_slots [OF assms(1)])
  show "slot (put_file f fi' st) = slot st"
    using assms(2,3) by (intro ext) (simp add: slot_put_file slot_def)
  fix g gi
  assume "st_files (put_file f fi' st) g = Some gi"
  then show "file_ok gi" using assms(4) store_okD(6) [OF assms(1), of g] by (cases "g = f") auto
qed simp

lemma block_kept_put_file: "block_kept 0 st (put_file f fi st)"
  unfolding block_kept_def by auto

lemma is_file_and_not [simp]: "is_file (fi\<lparr>fi_flags := fi_flags fi AND NOT f_available\<rparr>) = is_file fi"
  by (simp add: is_file_flag bit_and_iff bit_not_iff bit_flags)

lemma is_file_or_available [simp]: "is_file (fi\<lparr>fi_flags := fi_flags fi OR f_available\<rparr>) = is_file fi"
  by (simp add: is_file_flag bit_or_iff bit_flags)

lemma fi_blocks_flags [simp]: "fi_blocks (fi\<lparr>fi_flags := x\<rparr>) = fi_blocks fi"
  by (simp add: fi_blocks_def)

lemma remove_blocks_ok:
  assumes "store_ok st" "st_files st f = Some fi" "is_file fi"
  shows "\<exists>st'. remove_blocks f st = Some st' \<and> store_ok st' \<and> block_kept 0 st st' \<and>
    st_files st' = (st_files st)(f := Some (fi\<lparr>fi_content := file_content (replicate (length (fi_blocks fi)) None),
      fi_flags := fi_flags fi AND NOT f_available\<rparr>))"
proof -
  from remove_blocks_loop_ok [OF assms, of 0] obtain st1 where st1:
    "remove_blocks_loop f 0 (length (fi_blocks fi)) st = Some st1" "store_ok st1" "block_kept 0 st st1"
    "st_files st1 = (st_files st)(f := Some (fi\<lparr>fi_content := file_content (replicate (length (fi_blocks fi)) None)\<rparr>))"
    by auto
  let ?fi1 = "fi\<lparr>fi_content := file_content (replicate (length (fi_blocks fi)) None)\<rparr>"
  let ?fi2 = "?fi1\<lparr>fi_flags := fi_flags fi AND NOT f_available\<rparr>"
  let ?st = "put_file f ?fi2 st1"
  have f1: "st_files st1 f = Some ?fi1" using st1(4) by simp
  have "remove_blocks f st = Some ?st" using assms(2,3) st1(1) f1 by (simp add: remove_blocks_def)
  moreover have "is_file ?fi2" using assms(3) by (simp add: is_file_flag bit_and_iff bit_not_iff bit_flags)
  then have "file_ok ?fi2" using store_okD(6) [OF st1(2) f1] by (simp add: file_ok_def)
  then have "store_ok ?st" by (intro store_ok_put_file [OF st1(2) f1]) simp_all
  moreover have "block_kept 0 st ?st" using block_kept_trans [OF st1(3) block_kept_put_file] by simp
  moreover have "st_files ?st = (st_files st)(f := Some ?fi2)" using st1(4) by simp
  ultimately show ?thesis by (intro exI [of _ ?st]) simp
qed

subsection \<open>Assigning and marking blocks\<close>

lemma assign_block_ok:
  assumes ok: "store_ok st" and f: "st_files st f = Some fi" "is_file fi"
    and i: "i < length (fi_blocks fi)" "fi_blocks fi ! i = None"
    and b: "st_blocks st p = Some b" "use_count b < 2 ^ 30 - 1"
  shows "\<exists>st'. assign_block f p i st = Some st' \<and> store_ok st' \<and> block_kept 1 st st' \<and>
    st_files st' = (st_files st)(f := Some (set_slot i (Some (p, False)) fi)) \<and>
    dom (st_blocks st') = dom (st_blocks st)"
proof -
  let ?fi = "set_slot i (Some (p, False)) fi"
  let ?b = "bi_link p (inc_ref b) f i"
  define st' where "st' = put_block p ?b (put_file f ?fi st)"
  have "add_ref p (put_file f ?fi st) = Some (put_block p (inc_ref b) (put_file f ?fi st))"
    using b(1) by (intro add_ref_eq) simp
  then have eq: "assign_block f p i st = Some st'"
    using f b(1) i by (simp add: assign_block_def st'_def put_block_def)
  have slots: "slot st' g j = (if g = f \<and> j = i then Some (p, False) else slot st g j)" for g j
    using slot_set_slot [OF f(1) i(1)] by (simp add: st'_def)
  note inc = inc_ref_ok [OF b(2)]
  note wf = store_okD(1-3) [OF ok b(1)]
  have i31: "i < 2 ^ 31" using i(1) store_okD(6) [OF ok f(1)] by (simp add: file_ok_def)
  have wf': "bi_wf p (inc_ref b)" using inc(3) wf(1) by simp
  have pl: "places ?b = places b @ [(f, i)]" using bl.lnk_places [OF wf' i31] inc(2) by simp
  have uc: "use_count ?b = use_count b + 1" using inc(1) by simp
  have new: "slot st f i = None" using f(1) i by (simp add: slot_def)
  then have fresh: "(f, i) \<notin> set (places b)" using store_okD(4) [OF ok b(1)] by simp
  have bok: "block_ok st' q d" if d: "st_blocks st' q = Some d" for q d
  proof (cases "q = p")
    case True
    then have "d = ?b" using d by (simp add: st'_def)
    moreover have "(g, j) \<in> set (places ?b) \<longleftrightarrow> (\<exists>l. slot st' g j = Some (p, l))" for g j
      using store_okD(4) [OF ok b(1), of g j] unfolding pl slots by auto
    ultimately show ?thesis
      using True bl.lnk_wf [OF wf'] wf(2,3) fresh uc by (simp add: block_ok_def pl)
  next
    case False
    then have d': "st_blocks st q = Some d" using d by (simp add: st'_def)
    have "(\<exists>l. slot st' g j = Some (q, l)) \<longleftrightarrow> (\<exists>l. slot st g j = Some (q, l))" for g j
      using False new unfolding slots by auto
    then show ?thesis using store_okD(1-4) [OF ok d'] by (simp add: block_ok_def)
  qed
  have dang: "st_blocks st' q \<noteq> None" if "slot st' g j = Some (q, k)" for g j q k
    using that store_okD(5) [OF ok, of g j q k] unfolding slots by (auto simp: st'_def split: if_splits)
  have fok: "file_ok gi" if gi: "st_files st' g = Some gi" for g gi
  proof (cases "g = f")
    case True
    then have "gi = ?fi" using gi by (simp add: st'_def)
    then show ?thesis using store_okD(6) [OF ok f(1)] f(2) by (simp add: file_ok_def set_slot_def)
  qed (use gi store_okD(6) [OF ok] in \<open>simp add: st'_def\<close>)
  have "store_ok st'" unfolding store_ok_def using bok dang fok by blast
  moreover have "slack ?b = slack b" using wf(3) inc(1) by (simp add: slack_def pl)
  then have "block_kept 1 st st'" unfolding block_kept_def using b(1) uc by (simp add: st'_def)
  moreover have "dom (st_blocks st') = dom (st_blocks st)" using b(1) by (auto simp: st'_def)
  ultimately show ?thesis using eq by (intro exI [of _ st']) (simp add: st'_def)
qed

lemma mark_local_available_ok:
  assumes ok: "store_ok st" and f: "st_files st f = Some fi" "is_file fi"
    and i: "i < length (fi_blocks fi)" "fi_blocks fi ! i = Some (p, False)"
  shows "\<exists>st' flags. mark_local_available f i st = Some st' \<and> store_ok st' \<and> block_kept 0 st st' \<and>
    st_files st' = (st_files st)(f := Some ((set_slot i (Some (p, True)) fi)\<lparr>fi_flags := flags\<rparr>)) \<and>
    (\<forall>n. n \<noteq> 9 \<longrightarrow> bit flags n = bit (fi_flags fi) n) \<and> dom (st_blocks st') = dom (st_blocks st)"
proof -
  have s: "slot st f i = Some (p, False)" using f(1) i by (simp add: slot_def)
  obtain b where b: "st_blocks st p = Some b" using store_okD(5) [OF ok s] by blast
  let ?raws = "(fi_blocks fi)[i := Some (p, True)]"
  define flags where "flags = (if fi_flags fi AND f_available = 0 \<and> available_blocks ?raws = length (fi_blocks fi)
    then fi_flags fi OR f_available else fi_flags fi)"
  let ?fi = "(set_slot i (Some (p, True)) fi)\<lparr>fi_flags := flags\<rparr>"
  let ?b = "bi_mark_local_available p b f"
  define st' where "st' = put_file f ?fi (put_block p ?b st)"
  have eq: "mark_local_available f i st = Some st'"
    using f(1) i b by (simp add: mark_local_available_def Let_def st'_def flags_def set_slot_def)
  have fl: "bit flags n = bit (fi_flags fi) n" if "n \<noteq> 9" for n
    using that by (auto simp: flags_def bit_or_iff bit_flags)
  have "fi_blocks ?fi = ?raws" by simp
  then have slots: "slot st' g j = (if g = f \<and> j = i then Some (p, True) else slot st g j)" for g j
    using f(1) i(1) by (auto simp: st'_def slot_put_file slot_def nth_list_update)
  have ref: "(\<exists>l. slot st' g j = Some (q, l)) \<longleftrightarrow> (\<exists>l. slot st g j = Some (q, l))" for g j q
    using s unfolding slots by auto
  note wf = store_okD(1-3) [OF ok b]
  have pl: "places ?b = places b" using bl.mrk_places [OF wf(1)] .
  have bok: "block_ok st' q d" if d: "st_blocks st' q = Some d" for q d
  proof (cases "q = p")
    case True
    then have "d = ?b" using d by (simp add: st'_def)
    then show ?thesis
      using True bl.mrk_wf [OF wf(1)] wf(2,3) store_okD(4) [OF ok b] by (simp add: block_ok_def pl ref)
  next
    case False
    then have d': "st_blocks st q = Some d" using d by (simp add: st'_def)
    then show ?thesis using store_okD(1-4) [OF ok d'] by (simp add: block_ok_def ref)
  qed
  have dang: "st_blocks st' q \<noteq> None" if "slot st' g j = Some (q, k)" for g j q k
    using that ref [of g j q] store_okD(5) [OF ok] by (fastforce simp: st'_def)
  have "is_file ?fi" using f(2) fl [of 0] by (simp add: is_file_flag)
  then have "file_ok ?fi" using store_okD(6) [OF ok f(1)] by (simp add: file_ok_def set_slot_def)
  then have fok: "file_ok gi" if "st_files st' g = Some gi" for g gi
    using that store_okD(6) [OF ok, of g] by (cases "g = f") (auto simp: st'_def)
  have "store_ok st'" unfolding store_ok_def using bok dang fok by blast
  moreover have "block_kept 0 st st'" unfolding block_kept_def using b by (simp add: st'_def slack_def pl)
  moreover have "dom (st_blocks st') = dom (st_blocks st)" using b by (auto simp: st'_def)
  moreover have "st_files st' = (st_files st)(f := Some ?fi)" by (simp add: st'_def)
  ultimately show ?thesis using eq fl by blast
qed

text \<open>Removing a file object: its slots are given back first.\<close>

lemma destroy_file_ok:
  assumes "store_ok st" "st_files st f = Some fi"
  shows "\<exists>st'. destroy_file f st = Some st' \<and> store_ok st' \<and> block_kept 0 st st' \<and>
    st_files st' = (st_files st)(f := None)"
proof -
  obtain st1 fi1 where st1: "(if is_file fi then remove_blocks_loop f 0 (length (fi_blocks fi)) st else Some st) = Some st1"
    "store_ok st1" "block_kept 0 st st1" "st_files st1 = (st_files st)(f := Some fi1)" "\<forall>j < length (fi_blocks fi1). fi_blocks fi1 ! j = None"
  proof (cases "is_file fi")
    case True
    from remove_blocks_loop_ok [OF assms True, of 0] show ?thesis
      using True by (auto intro!: that)
  next
    case False
    then have "fi_blocks fi = []"
      using store_okD(6) [OF assms] by (auto simp: file_ok_def fi_blocks_def split: content.splits)
    then show ?thesis using False assms block_kept_refl by (intro that [of st fi]) auto
  qed
  define st' where "st' = st1\<lparr>st_files := (st_files st1)(f := None)\<rparr>"
  have "slot st' g j = slot st1 g j" for g j
    using st1(4,5) by (simp add: st'_def slot_def)
  then have "slot st' = slot st1" by blast
  then have "store_ok st'"
    using store_okD(6) [OF st1(2)] by (intro store_ok_same_slots [OF st1(2)]) (auto simp: st'_def split: if_splits)
  moreover have "destroy_file f st = Some st'" using assms(2) st1(1) by (simp add: destroy_file_def st'_def)
  moreover have "block_kept 0 st st'" using st1(3) by (simp add: block_kept_def st'_def)
  ultimately show ?thesis using st1(4) by (intro exI [of _ st']) (simp add: st'_def)
qed

subsection \<open>Taking over the blocks of another file\<close>

definition hash_of :: "store \<Rightarrow> addr \<Rightarrow> bytes" where
  "hash_of st p = (case st_blocks st p of Some b \<Rightarrow> bi_hash b | None \<Rightarrow> [])"

definition copied :: "store \<Rightarrow> bytes list \<Rightarrow> raw_block \<Rightarrow> raw_block" where
  "copied st H raw = map_option (\<lambda>(p, l). (p, hash_of st p \<in> set H)) raw"

lemma hash_of_kept:
  assumes "block_kept n st st'" "st_blocks st' p \<noteq> None"
  shows "hash_of st' p = hash_of st p"
  using block_keptD(1) [OF assms(1)] assms(2) by (fastforce simp: hash_of_def)

lemma copy_step_ok:
  assumes ok: "store_ok st" and f: "st_files st f = Some fi" "is_file fi"
    and i: "i < length (fi_blocks fi)" "fi_blocks fi ! i = None"
    and b: "st_blocks st p = Some b" "use_count b < 2 ^ 30 - 1"
  shows "\<exists>st' flags. copy_blocks f H i (Some (p, l) # raws) st = copy_blocks f H (Suc i) raws st' \<and>
    store_ok st' \<and> block_kept 1 st st' \<and> dom (st_blocks st') = dom (st_blocks st) \<and>
    st_files st' = (st_files st)(f := Some ((set_slot i (Some (p, hash_of st p \<in> set H)) fi)\<lparr>fi_flags := flags\<rparr>)) \<and>
    (\<forall>n. n \<noteq> 9 \<longrightarrow> bit flags n = bit (fi_flags fi) n)"
proof -
  let ?fi1 = "set_slot i (Some (p, False)) fi"
  from assign_block_ok [OF ok f i b] obtain st1 where st1: "assign_block f p i st = Some st1" "store_ok st1"
    "block_kept 1 st st1" "st_files st1 = (st_files st)(f := Some ?fi1)" "dom (st_blocks st1) = dom (st_blocks st)" by blast
  obtain b1 where b1: "st_blocks st1 p = Some b1" using st1(5) b(1) by blast
  have h: "bi_hash b1 = hash_of st p" using block_keptD(1) [OF st1(3) b1] by (auto simp: hash_of_def)
  show ?thesis
  proof (cases "hash_of st p \<in> set H")
    case False
    then have "copy_blocks f H i (Some (p, l) # raws) st = copy_blocks f H (Suc i) raws st1"
      using st1(1) b1 h by simp
    then show ?thesis using st1 False by (intro exI [of _ st1] exI [of _ "fi_flags fi"]) (simp add: set_slot_def)
  next
    case True
    have f1: "st_files st1 f = Some ?fi1" "is_file ?fi1" "i < length (fi_blocks ?fi1)" "fi_blocks ?fi1 ! i = Some (p, False)"
      using st1(4) f(2) i(1) by (simp_all add: set_slot_def)
    from mark_local_available_ok [OF st1(2) f1] obtain st2 flags where st2: "mark_local_available f i st1 = Some st2"
      "store_ok st2" "block_kept 0 st1 st2"
      "st_files st2 = (st_files st1)(f := Some ((set_slot i (Some (p, True)) ?fi1)\<lparr>fi_flags := flags\<rparr>))"
      "\<forall>n. n \<noteq> 9 \<longrightarrow> bit flags n = bit (fi_flags ?fi1) n" "dom (st_blocks st2) = dom (st_blocks st1)" by blast
    have "copy_blocks f H i (Some (p, l) # raws) st = copy_blocks f H (Suc i) raws st2"
      using st1(1) b1 h True st2(1) by simp
    moreover have "block_kept 1 st st2" using block_kept_trans [OF st1(3) st2(3)] by simp
    moreover have "set_slot i (Some (p, True)) ?fi1 = set_slot i (Some (p, True)) fi"
      by (simp add: set_slot_def fi_blocks_def)
    then have "st_files st2 = (st_files st)(f := Some ((set_slot i (Some (p, True)) fi)\<lparr>fi_flags := flags\<rparr>))"
      using st2(4) st1(4) by simp
    ultimately show ?thesis using st2(2,5,6) st1(5) True
      by (intro exI [of _ st2] exI [of _ flags]) simp
  qed
qed

lemma copy_blocks_ok:
  assumes "store_ok st" "st_files st f = Some fi" "is_file fi" "i + length raws = length (fi_blocks fi)"
    "\<forall>j. i \<le> j \<and> j < length (fi_blocks fi) \<longrightarrow> fi_blocks fi ! j = None"
    "\<forall>p l. Some (p, l) \<in> set raws \<longrightarrow> st_blocks st p \<noteq> None"
    "\<forall>p b. st_blocks st p = Some b \<longrightarrow> use_count b + length raws < 2 ^ 30"
  shows "\<exists>st' flags. copy_blocks f H i raws st = Some st' \<and> store_ok st' \<and> block_kept (length raws) st st' \<and>
    dom (st_blocks st') = dom (st_blocks st) \<and>
    st_files st' = (st_files st)(f := Some (fi\<lparr>fi_content := file_content (take i (fi_blocks fi) @ map (copied st H) raws),
      fi_flags := flags\<rparr>)) \<and> (\<forall>n. n \<noteq> 9 \<longrightarrow> bit flags n = bit (fi_flags fi) n)"
  using assms
proof (induction raws arbitrary: i st fi)
  case Nil
  have "\<exists>raws. fi_content fi = file_content raws"
    using store_okD(6) [OF Nil(1,2)] Nil(3) by (simp add: file_ok_def)
  then have same: "fi\<lparr>fi_content := file_content (fi_blocks fi), fi_flags := fi_flags fi\<rparr> = fi"
    by (auto simp: fi_blocks_def)
  have "st_files st = (st_files st)(f := Some fi)" using Nil(2) by auto
  then show ?case
    using Nil block_kept_refl same by (intro exI [of _ st] exI [of _ "fi_flags fi"]) simp
next
  case (Cons raw raws)
  have i: "i < length (fi_blocks fi)" "fi_blocks fi ! i = None" using Cons.prems(4,5) by auto
  show ?case
  proof (cases raw)
    case None
    have "\<exists>st' flags. copy_blocks f H (Suc i) raws st = Some st' \<and> store_ok st' \<and> block_kept (length raws) st st' \<and>
      dom (st_blocks st') = dom (st_blocks st) \<and>
      st_files st' = (st_files st)(f := Some (fi\<lparr>fi_content := file_content (take (Suc i) (fi_blocks fi) @ map (copied st H) raws),
        fi_flags := flags\<rparr>)) \<and> (\<forall>n. n \<noteq> 9 \<longrightarrow> bit flags n = bit (fi_flags fi) n)"
    proof (intro Cons.IH)
      show "\<forall>p b. st_blocks st p = Some b \<longrightarrow> use_count b + length raws < 2 ^ 30"
        using Cons.prems(7) by fastforce
    qed (use Cons.prems in auto)
    moreover have "take (Suc i) (fi_blocks fi) @ map (copied st H) raws = take i (fi_blocks fi) @ map (copied st H) (raw # raws)"
      using i None by (simp add: take_Suc_conv_app_nth copied_def)
    moreover have "block_kept (length (raw # raws)) st st'" if "block_kept (length raws) st st'" for st'
      using that by (fastforce simp: block_kept_def)
    moreover have "copy_blocks f H i (raw # raws) st = copy_blocks f H (Suc i) raws st" using None by simp
    ultimately show ?thesis by metis
  next
    case (Some q)
    obtain p l where q: "raw = Some (p, l)" using Some by (cases q) simp
    obtain b where b: "st_blocks st p = Some b" using Cons.prems(6) q by auto
    then have "use_count b < 2 ^ 30 - 1" using Cons.prems(7) by fastforce
    from copy_step_ok [OF Cons.prems(1-3) i b this, of H l raws] obtain st1 flags where st1:
      "copy_blocks f H i (raw # raws) st = copy_blocks f H (Suc i) raws st1" "store_ok st1" "block_kept 1 st st1"
      "dom (st_blocks st1) = dom (st_blocks st)"
      "st_files st1 = (st_files st)(f := Some ((set_slot i (Some (p, hash_of st p \<in> set H)) fi)\<lparr>fi_flags := flags\<rparr>))"
      "\<forall>n. n \<noteq> 9 \<longrightarrow> bit flags n = bit (fi_flags fi) n" unfolding q by blast
    let ?fi = "(set_slot i (Some (p, hash_of st p \<in> set H)) fi)\<lparr>fi_flags := flags\<rparr>"
    have bl: "fi_blocks ?fi = (fi_blocks fi)[i := copied st H raw]" using q by (simp add: copied_def)
    have isf: "is_file ?fi" using Cons.prems(3) st1(6) by (simp add: is_file_flag)
    have pres: "\<forall>p l. Some (p, l) \<in> set raws \<longrightarrow> st_blocks st1 p \<noteq> None"
      using Cons.prems(6) st1(4) by (auto simp: dom_def)
    have bnd: "\<forall>p b. st_blocks st1 p = Some b \<longrightarrow> use_count b + length raws < 2 ^ 30"
      using block_keptD(1) [OF st1(3)] Cons.prems(7) by fastforce
    have len: "Suc i + length raws = length (fi_blocks ?fi)" using Cons.prems(4) by (simp add: bl)
    have null: "\<forall>j. Suc i \<le> j \<and> j < length (fi_blocks ?fi) \<longrightarrow> fi_blocks ?fi ! j = None"
      using Cons.prems(5) by (simp add: bl)
    have "st_files st1 f = Some ?fi" using st1(5) by simp
    from Cons.IH [OF st1(2) this isf len null pres bnd] obtain st' flags' where st':
      "copy_blocks f H (Suc i) raws st1 = Some st'" "store_ok st'" "block_kept (length raws) st1 st'"
      "dom (st_blocks st') = dom (st_blocks st1)"
      "st_files st' = (st_files st1)(f := Some (?fi\<lparr>fi_content := file_content (take (Suc i) (fi_blocks ?fi) @ map (copied st1 H) raws),
        fi_flags := flags'\<rparr>))" "\<forall>n. n \<noteq> 9 \<longrightarrow> bit flags' n = bit (fi_flags ?fi) n" by blast
    have "map (copied st1 H) raws = map (copied st H) raws"
    proof (intro map_cong refl)
      fix x
      assume x: "x \<in> set raws"
      show "copied st1 H x = copied st H x"
      proof (cases x)
        case (Some q)
        then obtain p l where "x = Some (p, l)" by (cases q) simp
        then show ?thesis using x hash_of_kept [OF st1(3), of p] pres by (auto simp: copied_def)
      qed (simp add: copied_def)
    qed
    then have "take (Suc i) (fi_blocks ?fi) @ map (copied st1 H) raws = take i (fi_blocks fi) @ map (copied st H) (raw # raws)"
      using i(1) q by (simp add: take_Suc_conv_app_nth copied_def [of st H "Some _"])
    then have files: "st_files st' = (st_files st)(f := Some (fi\<lparr>fi_content := file_content (take i (fi_blocks fi) @ map (copied st H) (raw # raws)),
        fi_flags := flags'\<rparr>))"
      using st'(5) st1(5) by (simp add: set_slot_def)
    have kept: "block_kept (length (raw # raws)) st st'" using block_kept_trans [OF st1(3) st'(3)] by simp
    have fl: "\<forall>n. n \<noteq> 9 \<longrightarrow> bit flags' n = bit (fi_flags fi) n" using st'(6) st1(6) by simp
    show ?thesis using st1(1,4) st'(1,2,4) files kept fl by (intro exI [of _ st'] exI [of _ flags']) simp
  qed
qed

definition held :: "raw_block list \<Rightarrow> addr \<Rightarrow> nat" where
  "held raws p = length (filter (\<lambda>raw. case raw of Some (q, _) \<Rightarrow> q = p | None \<Rightarrow> False) raws)"

lemma held_simps [simp]:
  "held [] p = 0" "held (None # raws) p = held raws p"
  "held (Some (q, l) # raws) p = (if q = p then 1 else 0) + held raws p"
  by (simp_all add: held_def)

lemma held_le: "held raws p \<le> length raws"
  by (simp add: held_def)

lemma held_mem: "Some (p, l) \<in> set raws \<Longrightarrow> 0 < held raws p"
  by (induction raws) (auto simp: held_def)

lemma store_ok_put_block:
  assumes ok: "store_ok st" and b: "st_blocks st p = Some b"
    and c: "bi_wf p c" "places c = places b" "length (places c) \<le> use_count c"
  shows "store_ok (put_block p c st)"
  unfolding store_ok_def
proof (intro conjI allI impI)
  fix q d
  assume "st_blocks (put_block p c st) q = Some d"
  then show "block_ok (put_block p c st) q d"
    using c store_okD(1-4) [OF ok] b by (cases "q = p") (auto simp: block_ok_def)
next
  fix f i q l
  assume "slot (put_block p c st) f i = Some (q, l)"
  then show "st_blocks (put_block p c st) q \<noteq> None" using store_okD(5) [OF ok, of f i q l] by auto
qed (use store_okD(6) [OF ok] in simp)

lemma add_refs_ok:
  assumes "store_ok st" "\<forall>p l. Some (p, l) \<in> set raws \<longrightarrow> st_blocks st p \<noteq> None"
    "\<forall>p b. st_blocks st p = Some b \<longrightarrow> use_count b + length raws < 2 ^ 30"
  shows "\<exists>st'. add_refs raws st = Some st' \<and> store_ok st' \<and> st_files st' = st_files st \<and>
    dom (st_blocks st') = dom (st_blocks st) \<and>
    (\<forall>q b'. st_blocks st' q = Some b' \<longrightarrow> (\<exists>b. st_blocks st q = Some b \<and> bi_hash b' = bi_hash b \<and> bi_size b' = bi_size b \<and>
       slack b' = slack b + held raws q \<and> use_count b' \<le> use_count b + length raws))"
  using assms
proof (induction raws arbitrary: st)
  case (Cons raw raws)
  show ?case
  proof (cases raw)
    case None
    have bnd: "\<forall>p b. st_blocks st p = Some b \<longrightarrow> use_count b + length raws < 2 ^ 30" using Cons.prems(3) by fastforce
    have "\<forall>p l. Some (p, l) \<in> set raws \<longrightarrow> st_blocks st p \<noteq> None" using Cons.prems(2) by simp
    from Cons.IH [OF Cons.prems(1) this bnd] show ?thesis using None by fastforce
  next
    case (Some q)
    obtain p l where q: "raw = Some (p, l)" using Some by (cases q) simp
    obtain b where b: "st_blocks st p = Some b" using Cons.prems(2) q by auto
    then have uc: "use_count b < 2 ^ 30 - 1" using Cons.prems(3) by fastforce
    note inc = inc_ref_ok [OF uc]
    let ?st = "put_block p (inc_ref b) st"
    have ok: "store_ok ?st"
      using store_okD(1,3) [OF Cons.prems(1) b] inc by (intro store_ok_put_block [OF Cons.prems(1) b]) auto
    have sl: "slack (inc_ref b) = slack b + 1"
      using store_okD(3) [OF Cons.prems(1) b] inc by (simp add: slack_def)
    have "\<forall>p l. Some (p, l) \<in> set raws \<longrightarrow> st_blocks ?st p \<noteq> None" using Cons.prems(2) by auto
    moreover have "\<forall>q c. st_blocks ?st q = Some c \<longrightarrow> use_count c + length raws < 2 ^ 30"
    proof (intro allI impI)
      fix q c
      assume c: "st_blocks ?st q = Some c"
      have "use_count b + Suc (length raws) < 2 ^ 30" using Cons.prems(3) b by simp
      moreover have "use_count c + Suc (length raws) < 2 ^ 30" if "q \<noteq> p" using Cons.prems(3) c that by simp
      ultimately show "use_count c + length raws < 2 ^ 30" using c inc(1) by (cases "q = p") auto
    qed
    ultimately obtain st' where st': "add_refs raws ?st = Some st'" "store_ok st'" "st_files st' = st_files ?st"
      "dom (st_blocks st') = dom (st_blocks ?st)"
      "\<forall>q b'. st_blocks st' q = Some b' \<longrightarrow> (\<exists>b. st_blocks ?st q = Some b \<and> bi_hash b' = bi_hash b \<and> bi_size b' = bi_size b \<and>
         slack b' = slack b + held raws q \<and> use_count b' \<le> use_count b + length raws)"
      using Cons.IH [OF ok] by blast
    have "\<exists>c. st_blocks st q = Some c \<and> bi_hash b' = bi_hash c \<and> bi_size b' = bi_size c \<and>
       slack b' = slack c + held (raw # raws) q \<and> use_count b' \<le> use_count c + length (raw # raws)"
      if "st_blocks st' q = Some b'" for q b'
      using st'(5) that b sl inc(1) unfolding \<open>raw = Some (p, l)\<close> by (cases "q = p") fastforce+
    then show ?thesis
      using st'(1-4) b q add_ref_eq [OF b] by (intro exI [of _ st']) auto
  qed
qed simp

lemma release_refs_ok:
  assumes "store_ok st" "\<forall>q b. st_blocks st q = Some b \<longrightarrow> held raws q \<le> slack b"
    "\<forall>p l. Some (p, l) \<in> set raws \<longrightarrow> st_blocks st p \<noteq> None"
  shows "\<exists>st'. release_refs raws st = Some st' \<and> store_ok st' \<and> st_files st' = st_files st \<and>
    (\<forall>q b'. st_blocks st' q = Some b' \<longrightarrow> (\<exists>b. st_blocks st q = Some b \<and> bi_hash b' = bi_hash b \<and> bi_size b' = bi_size b))"
  using assms
proof (induction raws arbitrary: st)
  case (Cons raw raws)
  show ?case
  proof (cases raw)
    case None
    then show ?thesis using Cons.IH [OF Cons.prems(1)] Cons.prems(2,3) by simp
  next
    case (Some q)
    obtain p l where q: "raw = Some (p, l)" using Some by (cases q) simp
    obtain b where b: "st_blocks st p = Some b" using Cons.prems(3) q by auto
    then have sl: "1 + held raws p \<le> slack b" using Cons.prems(2) q by fastforce
    then have uc: "0 < use_count b" by (simp add: slack_def)
    note dec = dec_ref_ok [OF uc]
    define st1 where "st1 = st\<lparr>st_blocks := (st_blocks st)(p := (if use_count b = 1 then None else Some (dec_ref b)))\<rparr>"
    have rel: "release p st = Some st1" using release_eq [OF b uc] by (simp add: st1_def)
    have ok: "store_ok st1"
    proof (cases "use_count b = 1")
      case True
      then have "length (places b) = 0" using sl unfolding slack_def by linarith
      then have "places b = []" by simp
      then have none: "slot st f i \<noteq> Some (p, l)" for f i l using store_okD(4) [OF Cons.prems(1) b, of f i] by auto
      have "slot st1 = slot st" by (rule slot_cong) (simp add: st1_def)
      then show ?thesis
        using Cons.prems(1) none True unfolding store_ok_def block_ok_def by (auto simp: st1_def)
    next
      case False
      then have "st1 = put_block p (dec_ref b) st" by (simp add: st1_def put_block_def)
      moreover have "length (places b) \<le> use_count b - 1" using sl uc by (simp add: slack_def)
      ultimately show ?thesis
        using store_okD(1) [OF Cons.prems(1) b] dec by (auto intro!: store_ok_put_block [OF Cons.prems(1) b])
    qed
    have hs: "\<forall>q c. st_blocks st1 q = Some c \<longrightarrow> held raws q \<le> slack c"
      using Cons.prems(2) sl dec(1,2) q by (auto simp: st1_def slack_def split: if_splits)
    have "held raws p = 0" if "use_count b = 1" using sl that by (simp add: slack_def)
    then have pr: "\<forall>p l. Some (p, l) \<in> set raws \<longrightarrow> st_blocks st1 p \<noteq> None"
      using Cons.prems(3) held_mem by (fastforce simp: st1_def)
    from Cons.IH [OF ok hs pr] obtain st' where st': "release_refs raws st1 = Some st'" "store_ok st'" "st_files st' = st_files st1"
      "\<forall>q b'. st_blocks st' q = Some b' \<longrightarrow> (\<exists>b. st_blocks st1 q = Some b \<and> bi_hash b' = bi_hash b \<and> bi_size b' = bi_size b)" by blast
    have "\<exists>c. st_blocks st q = Some c \<and> bi_hash b' = bi_hash c \<and> bi_size b' = bi_size c" if "st_blocks st' q = Some b'" for q b'
      using st'(4) that b by (cases "q = p") (fastforce simp: st1_def split: if_splits)+
    then show ?thesis using st' rel q by (intro exI [of _ st']) (simp add: st1_def)
  qed
qed simp

lemma bit_finish_flags:
  "bit (fi_flags (finish_flags other fi)) n \<longleftrightarrow> (if n < 6 then bit (fi_flags other) n else bit (fi_flags fi) n)"
proof (cases "n < 16")
  case True
  then show ?thesis
    by (auto simp: finish_flags_def bit_or_iff bit_and_iff bit_not_iff bit_wire_flags)
next
  case False
  then show ?thesis by (auto dest: bit_imp_le_length)
qed

lemma update_fields_file:
  assumes "is_file fi" "\<not> is_link fi"
  shows "fi_content (update_fields other fi) = fi_content fi" "fi_flags (update_fields other fi) = fi_flags fi"
  using assms by (simp_all add: update_fields_def Let_def is_link_def)

lemma slot_block_live:
  assumes "store_ok st" "st_files st f = Some fi" "Some (p, l) \<in> set (fi_blocks fi)"
  shows "\<exists>b. st_blocks st p = Some b"
proof -
  obtain i where "i < length (fi_blocks fi)" "fi_blocks fi ! i = Some (p, l)" using assms(3) by (metis in_set_conv_nth)
  then have "slot st f i = Some (p, l)" using assms(2) by (simp add: slot_def)
  then show ?thesis using store_okD(5) [OF assms(1)] by blast
qed

text \<open>What the copied pointers of \<open>update\<close> add to the references, in a later state.\<close>

definition extra_refs :: "raw_block list \<Rightarrow> store \<Rightarrow> store \<Rightarrow> bool" where
  "extra_refs raws st st' \<longleftrightarrow>
     (\<forall>q c. st_blocks st' q = Some c \<longrightarrow> (\<exists>b. st_blocks st q = Some b \<and> bi_hash c = bi_hash b \<and>
        slack c = slack b + held raws q \<and> use_count c \<le> use_count b + length raws)) \<and>
     (\<forall>p l. Some (p, l) \<in> set raws \<longrightarrow> st_blocks st' p \<noteq> None)"

lemma extra_refsD:
  assumes "extra_refs raws st st'"
  shows "st_blocks st' q = Some c \<Longrightarrow> \<exists>b. st_blocks st q = Some b \<and> bi_hash c = bi_hash b \<and>
        slack c = slack b + held raws q \<and> use_count c \<le> use_count b + length raws"
    "Some (p, l) \<in> set raws \<Longrightarrow> \<exists>c. st_blocks st' p = Some c"
  using assms unfolding extra_refs_def by blast+

lemma extra_refs_copied:
  assumes "extra_refs raws st st'" "\<And>p l. x = Some (p, l) \<Longrightarrow> st_blocks st' p \<noteq> None"
  shows "copied st' H x = copied st H x"
proof (cases x)
  case (Some q)
  then obtain p l where pl: "x = Some (p, l)" by (cases q) simp
  then obtain c where c: "st_blocks st' p = Some c" using assms(2) by blast
  then have "hash_of st' p = hash_of st p" using extra_refsD(1) [OF assms(1) c] by (auto simp: hash_of_def)
  then show ?thesis using pl by (simp add: copied_def)
qed (simp add: copied_def)

lemma update_content_resize:
  assumes "is_file other" "is_file fi" "fi_blocks fi = replicate n None"
  shows "update_content other fi = fi\<lparr>fi_content := file_content (replicate (length (fi_blocks other)) None)\<rparr>"
proof -
  let ?m = "length (fi_blocks other)"
  have "take ?m (replicate n None) @ replicate (?m - n) None = replicate ?m (None :: raw_block)"
    by (intro nth_equalityI) (auto simp: nth_append)
  then show ?thesis using assms by (simp add: update_content_def Let_def)
qed

text \<open>The first phase: the file lets go of its blocks, which the copied pointers keep alive.\<close>

lemma update_release_phase:
  assumes ok: "store_ok st" and fi: "st_files st f = Some fi" "is_file fi"
    and room: "\<forall>p b. st_blocks st p = Some b \<longrightarrow> use_count b + length (fi_blocks fi) < 2 ^ 30"
  shows "\<exists>st2 st3. add_refs (fi_blocks fi) st = Some st2 \<and> remove_blocks f st2 = Some st3 \<and> store_ok st3 \<and>
    extra_refs (fi_blocks fi) st st3 \<and>
    st_files st3 = (st_files st)(f := Some (fi\<lparr>fi_content := file_content (replicate (length (fi_blocks fi)) None),
      fi_flags := fi_flags fi AND NOT f_available\<rparr>))"
proof -
  let ?raws = "fi_blocks fi"
  have "\<forall>p l. Some (p, l) \<in> set ?raws \<longrightarrow> st_blocks st p \<noteq> None" using slot_block_live [OF ok fi(1)] by blast
  from add_refs_ok [OF ok this room] obtain st2 where st2: "add_refs ?raws st = Some st2" "store_ok st2" "st_files st2 = st_files st"
    "dom (st_blocks st2) = dom (st_blocks st)"
    "\<forall>q b'. st_blocks st2 q = Some b' \<longrightarrow> (\<exists>b. st_blocks st q = Some b \<and> bi_hash b' = bi_hash b \<and> bi_size b' = bi_size b \<and>
       slack b' = slack b + held ?raws q \<and> use_count b' \<le> use_count b + length ?raws)" by blast
  have "st_files st2 f = Some fi" using st2(3) fi(1) by simp
  from remove_blocks_ok [OF st2(2) this fi(2)] obtain st3 where st3: "remove_blocks f st2 = Some st3" "store_ok st3" "block_kept 0 st2 st3"
    "st_files st3 = (st_files st2)(f := Some (fi\<lparr>fi_content := file_content (replicate (length ?raws) None),
      fi_flags := fi_flags fi AND NOT f_available\<rparr>))" by blast
  have "extra_refs ?raws st st3"
    unfolding extra_refs_def
  proof (intro conjI allI impI)
    fix q c
    assume "st_blocks st3 q = Some c"
    from block_keptD(1) [OF st3(3) this] obtain d where d: "st_blocks st2 q = Some d" "bi_hash c = bi_hash d" "slack c = slack d"
      "use_count c \<le> use_count d" by auto
    from st2(5) d(1) obtain b where "st_blocks st q = Some b" "bi_hash d = bi_hash b" "slack d = slack b + held ?raws q"
      "use_count d \<le> use_count b + length ?raws" by blast
    with d show "\<exists>b. st_blocks st q = Some b \<and> bi_hash c = bi_hash b \<and> slack c = slack b + held ?raws q \<and>
        use_count c \<le> use_count b + length ?raws" by simp
  next
    fix p l
    assume p: "Some (p, l) \<in> set ?raws"
    obtain d where d: "st_blocks st2 p = Some d" using slot_block_live [OF ok fi(1) p] st2(4) by blast
    then have "0 < slack d" using st2(5) held_mem [OF p] by fastforce
    from block_keptD(2) [OF st3(3) d this] show "st_blocks st3 p \<noteq> None" by simp
  qed
  then show ?thesis using st2(1,3) st3(1,2,4) by (intro exI [of _ st2] exI [of _ st3]) simp
qed

text \<open>The second phase: the slots of the other file are copied and the kept pointers released.\<close>

lemma update_copy_phase:
  assumes ok: "store_ok st" and fi: "st_files st f = Some fi" "is_file fi" "fi_blocks fi = replicate (length oth) None"
    and live: "\<forall>p l. Some (p, l) \<in> set oth \<longrightarrow> st_blocks st p \<noteq> None"
    and room: "\<forall>p b. st_blocks st p = Some b \<longrightarrow> use_count b + length oth < 2 ^ 30"
    and raws: "\<forall>q b. st_blocks st q = Some b \<longrightarrow> held raws q \<le> slack b" "\<forall>p l. Some (p, l) \<in> set raws \<longrightarrow> st_blocks st p \<noteq> None"
    and other: "is_file other" and flen: "length oth \<le> 2 ^ 31"
  shows "\<exists>st5 st7 flags. copy_blocks f H 0 oth st = Some st5 \<and>
    st_files st5 f = Some (fi\<lparr>fi_content := file_content (map (copied st H) oth), fi_flags := flags\<rparr>) \<and>
    release_refs raws (put_file f (finish_flags other (fi\<lparr>fi_content := file_content (map (copied st H) oth), fi_flags := flags\<rparr>)) st5) = Some st7 \<and>
    store_ok st7 \<and>
    st_files st7 = (st_files st)(f := Some (finish_flags other (fi\<lparr>fi_content := file_content (map (copied st H) oth), fi_flags := flags\<rparr>))) \<and>
    (\<forall>n. n \<noteq> 9 \<longrightarrow> bit flags n = bit (fi_flags fi) n)"
proof -
  have "0 + length oth = length (fi_blocks fi)" "\<forall>j. 0 \<le> j \<and> j < length (fi_blocks fi) \<longrightarrow> fi_blocks fi ! j = None"
    using fi(3) by simp_all
  from copy_blocks_ok [OF ok fi(1,2) this live room, of H] obtain st5 flags where st5:
    "copy_blocks f H 0 oth st = Some st5" "store_ok st5" "block_kept (length oth) st st5" "dom (st_blocks st5) = dom (st_blocks st)"
    "st_files st5 = (st_files st)(f := Some (fi\<lparr>fi_content := file_content (map (copied st H) oth), fi_flags := flags\<rparr>))"
    "\<forall>n. n \<noteq> 9 \<longrightarrow> bit flags n = bit (fi_flags fi) n" by auto
  define fi5 where "fi5 = fi\<lparr>fi_content := file_content (map (copied st H) oth), fi_flags := flags\<rparr>"
  define fi6 where "fi6 = finish_flags other fi5"
  have f5: "st_files st5 f = Some fi5" using st5(5) by (simp add: fi5_def)
  have bl6: "fi_blocks fi6 = fi_blocks fi5" "fi_blocks fi5 = map (copied st H) oth"
    by (simp_all add: fi6_def finish_flags_def fi5_def fi_blocks_def)
  have "is_file fi6" using other by (simp add: fi6_def is_file_flag bit_finish_flags)
  then have "file_ok fi6" using flen bl6 by (simp add: file_ok_def) (simp add: fi6_def finish_flags_def fi5_def)
  then have ok6: "store_ok (put_file f fi6 st5)" using bl6 by (intro store_ok_put_file [OF st5(2) f5]) simp_all
  have hl: "\<forall>q b. st_blocks (put_file f fi6 st5) q = Some b \<longrightarrow> held raws q \<le> slack b"
  proof (intro allI impI)
    fix q b
    assume "st_blocks (put_file f fi6 st5) q = Some b"
    then have "st_blocks st5 q = Some b" by simp
    from block_keptD(1) [OF st5(3) this] raws(1) show "held raws q \<le> slack b" by auto
  qed
  have "\<forall>p l. Some (p, l) \<in> set raws \<longrightarrow> st_blocks (put_file f fi6 st5) p \<noteq> None"
    using raws(2) st5(4) unfolding dom_def by auto
  from release_refs_ok [OF ok6 hl this] obtain st7 where st7: "release_refs raws (put_file f fi6 st5) = Some st7" "store_ok st7"
    "st_files st7 = st_files (put_file f fi6 st5)" by blast
  have "st_files st7 = (st_files st)(f := Some fi6)" using st7(3) st5(5) by simp
  then show ?thesis
    using st5(1,6) f5 st7(1,2) unfolding fi6_def fi5_def by blast
qed

lemma file_update_ok:
  assumes ok: "store_ok st" and fi: "st_files st f = Some fi" "is_file fi" "\<not> is_link fi"
    and other: "st_files st g = Some other" "is_file other" and "f \<noteq> g"
    and same: "fi_name fi = fi_name other" "fi_get_uuid fi = fi_get_uuid other \<or> version_identical_to (fi_version fi) (fi_version other)"
    and room: "\<forall>p b. st_blocks st p = Some b \<longrightarrow> use_count b + length (fi_blocks fi) + length (fi_blocks other) < 2 ^ 30"
  shows "\<exists>st' fi'. file_update f g st = Some st' \<and> store_ok st' \<and> st_files st' = (st_files st)(f := Some fi') \<and>
    fi_blocks fi' = map (copied st (file_local_hashes f (fi_blocks fi) st)) (fi_blocks other) \<and>
    fi_version fi' = fi_version other \<and> fi_sequence fi' = fi_sequence other \<and>
    (\<forall>n. n \<noteq> 9 \<longrightarrow> bit (fi_flags fi') n = bit (fi_flags (if n < 6 then other else fi)) n)"
proof -
  let ?H = "file_local_hashes f (fi_blocks fi) st" and ?raws = "fi_blocks fi" and ?oth = "fi_blocks other"
  define fi1 where "fi1 = update_fields other fi"
  define st1 where "st1 = put_file f fi1 st"
  have fi1: "fi_blocks fi1 = ?raws" "is_file fi1" "file_ok fi1" "fi_flags fi1 = fi_flags fi"
    using update_fields_file [OF fi(2,3)] store_okD(6) [OF ok fi(1)] fi(2)
    by (simp_all add: fi1_def fi_blocks_def is_file_def file_ok_def)
  have ok1: "store_ok st1" unfolding st1_def using fi1 by (intro store_ok_put_file [OF ok fi(1)]) simp_all
  have f1: "st_files st1 f = Some fi1" by (simp add: st1_def)
  have room1: "\<forall>p b. st_blocks st1 p = Some b \<longrightarrow> use_count b + length (fi_blocks fi1) < 2 ^ 30"
  proof (intro allI impI)
    fix p b
    assume "st_blocks st1 p = Some b"
    then have "use_count b + length ?raws + length ?oth < 2 ^ 30" using room by (simp add: st1_def)
    then show "use_count b + length (fi_blocks fi1) < 2 ^ 30" unfolding fi1(1) by (rule add_lessD1)
  qed
  obtain st2 st3 where st2: "add_refs ?raws st1 = Some st2" and st3: "remove_blocks f st2 = Some st3" "store_ok st3"
    "extra_refs ?raws st1 st3" "st_files st3 = (st_files st1)(f := Some (fi1\<lparr>fi_content := file_content (replicate (length ?raws) None),
      fi_flags := fi_flags fi1 AND NOT f_available\<rparr>))"
    using update_release_phase [OF ok1 f1 fi1(2) room1] unfolding fi1(1) by blast
  define fi3 where "fi3 = fi1\<lparr>fi_content := file_content (replicate (length ?raws) None), fi_flags := fi_flags fi1 AND NOT f_available\<rparr>"
  define fi4 where "fi4 = update_content other fi3"
  define st4 where "st4 = put_file f fi4 st3"
  have f3: "st_files st3 f = Some fi3" using st3(4) by (simp add: fi3_def)
  have isf3: "is_file fi3" using fi1(2) by (simp add: fi3_def is_file_flag bit_and_iff bit_not_iff bit_flags)
  have fi4: "fi4 = fi3\<lparr>fi_content := file_content (replicate (length ?oth) None)\<rparr>"
    using other(2) isf3 by (simp add: fi4_def update_content_resize fi3_def)
  have bl4: "fi_blocks fi4 = replicate (length ?oth) None" "is_file fi4" using isf3 by (simp_all add: fi4)
  have sl4: "slot st4 = slot st3"
    using f3 bl4(1) by (intro ext) (simp add: st4_def slot_put_file slot_def fi3_def)
  have len: "length ?oth \<le> 2 ^ 31" using store_okD(6) [OF ok other(1)] by (simp add: file_ok_def)
  have fok4: "file_ok fi4" unfolding file_ok_def bl4(1) using len bl4(2) fi4 by simp
  have ok4: "store_ok st4"
  proof (intro store_ok_same_slots [OF st3(2) _ sl4])
    fix h hi
    assume "st_files st4 h = Some hi"
    then show "file_ok hi" using fok4 store_okD(6) [OF st3(2), of h hi] by (cases "h = f") (simp_all add: st4_def)
  qed (simp add: st4_def)
  have g4: "st_files st4 g = Some other" using st3(4) other(1) \<open>f \<noteq> g\<close> by (simp add: st4_def st1_def)
  have live: "\<forall>p l. Some (p, l) \<in> set ?oth \<longrightarrow> st_blocks st4 p \<noteq> None" using slot_block_live [OF ok4 g4] by blast
  have ex: "extra_refs ?raws st st4" using st3(3) by (simp add: extra_refs_def st4_def st1_def)
  have room4: "\<forall>p b. st_blocks st4 p = Some b \<longrightarrow> use_count b + length ?oth < 2 ^ 30"
  proof (intro allI impI)
    fix p c
    assume "st_blocks st4 p = Some c"
    from extra_refsD(1) [OF ex this] obtain b where "st_blocks st p = Some b" "use_count c \<le> use_count b + length ?raws" by blast
    moreover from this(1) have "use_count b + length ?raws + length ?oth < 2 ^ 30" using room by blast
    ultimately show "use_count c + length ?oth < 2 ^ 30" by linarith
  qed
  have hl: "\<forall>q b. st_blocks st4 q = Some b \<longrightarrow> held ?raws q \<le> slack b"
  proof (intro allI impI)
    fix q b
    assume "st_blocks st4 q = Some b"
    from extra_refsD(1) [OF ex this] show "held ?raws q \<le> slack b" by auto
  qed
  have pr: "\<forall>p l. Some (p, l) \<in> set ?raws \<longrightarrow> st_blocks st4 p \<noteq> None" using extra_refsD(2) [OF ex] by blast
  have f4: "st_files st4 f = Some fi4" by (simp add: st4_def)
  obtain st5 st7 flags where st5: "copy_blocks f ?H 0 ?oth st4 = Some st5"
    "st_files st5 f = Some (fi4\<lparr>fi_content := file_content (map (copied st4 ?H) ?oth), fi_flags := flags\<rparr>)"
    and st7: "release_refs ?raws (put_file f (finish_flags other (fi4\<lparr>fi_content := file_content (map (copied st4 ?H) ?oth), fi_flags := flags\<rparr>)) st5) = Some st7"
    "store_ok st7"
    "st_files st7 = (st_files st4)(f := Some (finish_flags other (fi4\<lparr>fi_content := file_content (map (copied st4 ?H) ?oth), fi_flags := flags\<rparr>)))"
    and fl: "\<forall>n. n \<noteq> 9 \<longrightarrow> bit flags n = bit (fi_flags fi4) n"
    using update_copy_phase [OF ok4 f4 bl4(2,1) live room4 hl pr other(2) len, of ?H] by blast
  define fi6 where "fi6 = finish_flags other (fi4\<lparr>fi_content := file_content (map (copied st4 ?H) ?oth), fi_flags := flags\<rparr>)"
  have run: "file_update f g st = Some st7"
    unfolding file_update_def Let_def using fi other same st2 st3(1) f3 st5 st7(1)
    unfolding fi1_def st1_def fi4_def st4_def by simp
  have cop: "map (copied st4 ?H) ?oth = map (copied st ?H) ?oth"
  proof (intro map_cong refl extra_refs_copied [OF ex])
    fix x p l
    assume "x \<in> set ?oth" "x = Some (p, l)"
    then show "st_blocks st4 p \<noteq> None" using live by auto
  qed
  have files: "st_files st7 = (st_files st)(f := Some fi6)"
    using st7(3) st3(4) by (simp add: fi6_def st4_def st1_def)
  have new: "fi_blocks fi6 = map (copied st4 ?H) ?oth" "fi_version fi6 = fi_version other" "fi_sequence fi6 = fi_sequence other"
    by (simp_all add: fi6_def finish_flags_def fi_blocks_def fi4 fi3_def fi1_def update_fields_def Let_def)
  have "bit (fi_flags fi6) n = bit (fi_flags (if n < 6 then other else fi)) n" if "n \<noteq> 9" for n
    using that fl fi1(4) unfolding fi6_def bit_finish_flags
    by (auto simp: fi4 fi3_def bit_and_iff bit_not_iff bit_flags dest: bit_imp_le_length)
  then show ?thesis using run st7(2) files new cop by (intro exI [of _ st7] exI [of _ fi6]) simp
qed


subsection \<open>Reachable stores\<close>

text \<open>
  One step of the model layer on the store: files and blocks are created, linked, marked,
  unlinked, taken over and destroyed, in any order. A new block is held by the pointer that
  created it; pointers to blocks may be copied and dropped.
\<close>

inductive store_step :: "store \<Rightarrow> store \<Rightarrow> bool" where
  new_file: "st_files st f = None \<Longrightarrow> create_file uuid info folder_uuid = Some fi \<Longrightarrow>
    length (pf_blocks info) \<le> 2 ^ 31 \<Longrightarrow> store_step st (put_file f fi st)"
| new_block: "st_blocks st p = None \<Longrightarrow> bi_create_proto info = Inr b \<Longrightarrow> store_step st (put_block p (inc_ref b) st)"
| copy_pointer: "st_blocks st p = Some b \<Longrightarrow> use_count b < 2 ^ 30 - 1 \<Longrightarrow> add_ref p st = Some st' \<Longrightarrow> store_step st st'"
| drop_pointer: "st_blocks st p = Some b \<Longrightarrow> 0 < slack b \<Longrightarrow> release p st = Some st' \<Longrightarrow> store_step st st'"
| assign: "st_blocks st p = Some b \<Longrightarrow> use_count b < 2 ^ 30 - 1 \<Longrightarrow> assign_block f p i st = Some st' \<Longrightarrow> store_step st st'"
| mark_available: "mark_local_available f i st = Some st' \<Longrightarrow> store_step st st'"
| clear: "remove_blocks f st = Some st' \<Longrightarrow> store_step st st'"
| take_over: "st_files st f = Some fi \<Longrightarrow> is_file fi \<Longrightarrow> \<not> is_link fi \<Longrightarrow> st_files st g = Some other \<Longrightarrow>
    is_file other \<Longrightarrow> f \<noteq> g \<Longrightarrow>
    \<forall>p b. st_blocks st p = Some b \<longrightarrow> use_count b + length (fi_blocks fi) + length (fi_blocks other) < 2 ^ 30 \<Longrightarrow>
    file_update f g st = Some st' \<Longrightarrow> store_step st st'"
| destroy: "destroy_file f st = Some st' \<Longrightarrow> store_step st st'"

definition empty_store :: store where
  "empty_store = \<lparr>st_files = (\<lambda>_. None), st_blocks = (\<lambda>_. None)\<rparr>"

lemma create_file_ok:
  assumes "create_file uuid info folder_uuid = Some fi"
  shows "(\<forall>i < length (fi_blocks fi). fi_blocks fi ! i = None) \<and> length (fi_blocks fi) \<le> length (pf_blocks info) \<and>
    (is_file fi \<longleftrightarrow> (\<exists>raws. fi_content fi = file_content raws))"
proof -
  obtain v where fi: "fi = (blank_file (create_key uuid folder_uuid))\<lparr>fi_name := pf_name info, fi_sequence := pf_sequence info,
      fi_flags := reserved_flags (set_wire_flags 0 (pf_type info) (pf_deleted info) (pf_invalid info) (pf_no_permissions info))
         (new_content (set_wire_flags 0 (pf_type info) (pf_deleted info) (pf_invalid info) (pf_no_permissions info)) (pf_size info) (length (pf_blocks info)) (pf_symlink_target info)),
      fi_permissions := pf_permissions info, fi_modified_s := pf_modified_s info,
      fi_modified_ns := pf_modified_ns info, fi_modified_by := pf_modified_by info, fi_version := v,
      fi_content := new_content (set_wire_flags 0 (pf_type info) (pf_deleted info) (pf_invalid info) (pf_no_permissions info)) (pf_size info) (length (pf_blocks info)) (pf_symlink_target info)\<rparr>"
    using assms by (auto simp: create_file_def fields_update_def Let_def blank_file_def split: option.splits)
  let ?fl = "set_wire_flags 0 (pf_type info) (pf_deleted info) (pf_invalid info) (pf_no_permissions info)"
  have "bit (reserved_flags x c) 0 = bit x 0" for x c
    by (auto simp: reserved_flags_def bit_and_iff bit_not_iff bit_flags split: content.splits list.splits)
  then have "is_file fi \<longleftrightarrow> bit ?fl 0" by (simp add: is_file_flag fi)
  then show ?thesis
    by (auto simp: fi fi_blocks_def new_content_def Let_def flag_tests)
qed

lemma new_file_ok:
  assumes ok: "store_ok st" and new: "st_files st f = None" and fi: "create_file uuid info folder_uuid = Some fi"
    and len: "length (pf_blocks info) \<le> 2 ^ 31"
  shows "store_ok (put_file f fi st)"
proof (rule store_ok_same_slots [OF ok])
  note c = create_file_ok [OF fi]
  show "slot (put_file f fi st) = slot st" using new c by (intro ext) (simp add: slot_put_file slot_def)
  fix g gi
  assume "st_files (put_file f fi st) g = Some gi"
  then show "file_ok gi" using c len store_okD(6) [OF ok, of g gi] by (cases "g = f") (auto simp: file_ok_def)
qed simp

lemma new_block_ok:
  assumes ok: "store_ok st" and new: "st_blocks st p = None" and b: "bi_create_proto info = Inr b"
  shows "store_ok (put_block p (inc_ref b) st)"
  unfolding store_ok_def
proof (intro conjI allI impI)
  have b': "bi_file_blocks b = multi []" "bi_counter b = 0" using b by (auto simp: bi_create_proto_def Let_def split: if_splits)
  then have wf: "bi_wf p b" "places b = []" "use_count b = 0" by (simp_all add: bi_wf_def bi_is_single_def places_def bi_iterate_def use_count_def)
  have inc: "bi_wf p (inc_ref b)" "places (inc_ref b) = []" using inc_ref_ok [of b] wf by simp_all
  fix q d
  assume d: "st_blocks (put_block p (inc_ref b) st) q = Some d"
  have "slot st f i \<noteq> Some (p, l)" for f i l using store_okD(5) [OF ok, of f i p l] new by auto
  then show "block_ok (put_block p (inc_ref b) st) q d"
    using d inc store_okD(1-4) [OF ok] by (cases "q = p") (auto simp: block_ok_def)
next
  fix f i q l
  assume "slot (put_block p (inc_ref b) st) f i = Some (q, l)"
  then show "st_blocks (put_block p (inc_ref b) st) q \<noteq> None" using store_okD(5) [OF ok, of f i q l] by auto
qed (use store_okD(6) [OF ok] in simp)

lemma store_step_ok:
  assumes "store_step st st'" "store_ok st"
  shows "store_ok st'"
  using assms
proof (induction rule: store_step.induct)
  case (new_file st f uuid info folder_uuid fi)
  then show ?case using new_file_ok by blast
next
  case (new_block st p info b)
  then show ?case using new_block_ok by blast
next
  case (copy_pointer st p b st')
  then show ?case
    using store_okD(1,3) [OF copy_pointer(4,1)] inc_ref_ok [OF copy_pointer(2)] add_ref_eq [OF copy_pointer(1)]
    by (auto intro!: store_ok_put_block [OF copy_pointer(4,1)])
next
  case (drop_pointer st p b st')
  have h: "\<forall>q c. st_blocks st q = Some c \<longrightarrow> held [Some (p, True)] q \<le> slack c" using drop_pointer(1,2) by auto
  have "\<forall>q l. Some (q, l) \<in> set [Some (p, True)] \<longrightarrow> st_blocks st q \<noteq> None" using drop_pointer(1) by simp
  from release_refs_ok [OF drop_pointer(4) h this] show ?case using drop_pointer(3) by auto
next
  case (assign st p b f i st')
  obtain fi where f: "st_files st f = Some fi" using assign(3) by (auto simp: assign_block_def split: option.splits)
  have null: "fi_blocks fi ! i = None"
    by (rule ccontr) (use f assign(1,3) in \<open>auto simp: assign_block_def split: if_splits\<close>)
  have fi: "is_file fi" "i < length (fi_blocks fi)"
    using f assign(1,3) by (simp_all add: assign_block_def split: if_splits)
  show ?case using assign_block_ok [OF assign(4) f fi null assign(1,2)] assign(3) by auto
next
  case (mark_available f i st st')
  obtain fi p where fi: "st_files st f = Some fi" "i < length (fi_blocks fi)" "fi_blocks fi ! i = Some (p, False)"
    using mark_available(1) by (auto simp: mark_local_available_def split: option.splits if_splits bool.splits)
  then have "is_file fi"
    using store_okD(6) [OF mark_available(2) fi(1)] by (auto simp: file_ok_def fi_blocks_def split: content.splits)
  then show ?case using mark_local_available_ok [OF mark_available(2) fi(1) _ fi(2,3)] mark_available(1) by auto
next
  case (clear f st st')
  obtain fi where fi: "st_files st f = Some fi" using clear(1) by (auto simp: remove_blocks_def split: option.splits)
  then show ?case using clear remove_blocks_ok [OF clear(2) fi] by (cases "is_file fi") (auto simp: remove_blocks_def)
next
  case (take_over st f fi g other st')
  have same: "fi_name fi = fi_name other" "fi_get_uuid fi = fi_get_uuid other \<or> version_identical_to (fi_version fi) (fi_version other)"
    using take_over(1,4,8) by (auto simp: file_update_def split: if_splits)
  from file_update_ok [OF take_over(9,1-6) same take_over(7)] take_over(8) show ?case by auto
next
  case (destroy f st st')
  obtain fi where fi: "st_files st f = Some fi" using destroy(1) by (auto simp: destroy_file_def split: option.splits)
  then show ?case using destroy_file_ok [OF destroy(2) fi] destroy(1) by auto
qed

lemma store_ok_empty: "store_ok empty_store"
  by (simp add: store_ok_def empty_store_def slot_def)


text \<open>A store for the concrete instances: one block and two files of one slot.\<close>

definition sample_info :: "nat \<Rightarrow> pr_file" where
  "sample_info n = \<lparr>pf_name = ''a'', pf_type = FILE, pf_size = 5, pf_permissions = 0, pf_modified_s = 0, pf_modified_ns = 0,
     pf_modified_by = 0, pf_deleted = False, pf_invalid = False, pf_no_permissions = False,
     pf_version = [\<lparr>counter_id = 1, counter_value = of_nat n\<rparr>], pf_sequence = int n, pf_block_size = 5,
     pf_blocks = [\<lparr>pb_offset = 0, pb_size = 5, pb_hash = [7]\<rparr>], pf_symlink_target = []\<rparr>"

definition sample_file :: "nat \<Rightarrow> file_info" where
  "sample_file n = the (create_file (replicate 16 9) (sample_info n) (replicate 16 8))"

definition sample_block :: block_info where
  "sample_block = \<lparr>bi_hash = 7 # replicate 31 0, bi_file_blocks = multi [], bi_size = 5, bi_counter = 0\<rparr>"

definition sample_store :: store where
  "sample_store = put_file 2 (sample_file 2) (put_file 1 (sample_file 1) (put_block 1 (inc_ref sample_block) empty_store))"

lemma sample_file_created:
  "create_file (replicate 16 9) (sample_info 1) (replicate 16 8) = Some (sample_file 1)"
  "create_file (replicate 16 9) (sample_info 2) (replicate 16 8) = Some (sample_file 2)"
  by code_simp+

lemma sample_file_facts:
  "is_file (sample_file 1)" "is_file (sample_file 2)" "\<not> is_link (sample_file 1)" "fi_blocks (sample_file 1) = [None]"
  "fi_blocks (sample_file 2) = [None]" "fi_name (sample_file 1) = fi_name (sample_file 2)"
  "fi_get_uuid (sample_file 1) = fi_get_uuid (sample_file 2)" "fi_version (sample_file 2) \<noteq> fi_version (sample_file 1)"
  by code_simp+

lemma sample_block_facts: "bi_create_proto \<lparr>pb_offset = 0, pb_size = 5, pb_hash = [7]\<rparr> = Inr sample_block" "use_count (inc_ref sample_block) = 1"
  by code_simp+

lemma sample_store_reachable: "store_step\<^sup>*\<^sup>* empty_store sample_store"
proof -
  let ?st1 = "put_block 1 (inc_ref sample_block) empty_store"
  have "store_step empty_store ?st1"
    by (rule store_step.new_block [OF _ sample_block_facts(1)]) (simp add: empty_store_def)
  moreover have "store_step ?st1 (put_file 1 (sample_file 1) ?st1)"
    by (rule store_step.new_file [OF _ sample_file_created(1)]) (simp_all add: empty_store_def sample_info_def)
  moreover have "store_step (put_file 1 (sample_file 1) ?st1) sample_store" unfolding sample_store_def
    by (rule store_step.new_file [OF _ sample_file_created(2)]) (simp_all add: empty_store_def sample_info_def)
  ultimately show ?thesis by (meson converse_rtranclp_into_rtranclp rtranclp.rtrancl_refl)
qed

lemma sample_store_facts:
  "st_files sample_store 1 = Some (sample_file 1)" "st_files sample_store 2 = Some (sample_file 2)"
  "st_blocks sample_store p = (if p = 1 then Some (inc_ref sample_block) else None)"
  by (simp_all add: sample_store_def empty_store_def)

lemma sample_assigned:
  assumes "store_ok sample_store"
  shows "\<exists>st'. assign_block 2 1 0 sample_store = Some st' \<and> store_ok st' \<and> block_kept 1 sample_store st' \<and>
    st_files st' = (st_files sample_store)(2 := Some (set_slot 0 (Some (1, False)) (sample_file 2))) \<and>
    dom (st_blocks st') = dom (st_blocks sample_store)"
  using sample_file_facts sample_store_facts sample_block_facts(2)
  by (intro assign_block_ok [OF assms]) auto



end
