(* ===== verification/Path.thy ===== *)
theory Path
  imports Prelude
begin

text \<open>
  File names as the model keeps them (\<^verbatim>\<open>src/model/misc/path.h\<close>, \<^verbatim>\<open>src/model/misc/path.cpp\<close>): the
  full name and the offsets at which its second and later components start. The components
  themselves come from the iteration of \<open>std::filesystem::path\<close>.
\<close>

subsection \<open>Components\<close>

text \<open>
  The iteration of a POSIX path: an initial run of slashes is the component \<open>/\<close>, other runs
  separate, a final one gives an empty last component.
\<close>

fun split_slash :: "string \<Rightarrow> string list" where
  "split_slash [] = [[]]"
| "split_slash (c # cs) = (if c = CHR ''/'' then [] # split_slash cs
     else case split_slash cs of [] \<Rightarrow> [[c]] | p # ps \<Rightarrow> (c # p) # ps)"

definition fs_components :: "string \<Rightarrow> string list" where
  "fs_components s =
     (if s = [] then []
      else let ps = split_slash s;
               root = (if hd s = CHR ''/'' then [''/''] else []);
               inner = filter (\<lambda>p. p \<noteq> []) ps
           in root @ inner @ (if last ps = [] \<and> inner \<noteq> [] then [[]] else []))"

record path =
  path_name :: string
  path_pieces :: "nat list"

text \<open>The loop over the components after the first.\<close>

fun piece_offsets :: "nat \<Rightarrow> string list \<Rightarrow> nat list" where
  "piece_offsets prev [] = []"
| "piece_offsets prev (p # ps) = (prev + 1) # piece_offsets (prev + length p + 1) ps"

definition make_path :: "string \<Rightarrow> path" where
  "make_path full_name = \<lparr>path_name = full_name,
     path_pieces = (case fs_components full_name of [] \<Rightarrow> [] | p # ps \<Rightarrow> piece_offsets (length p) ps)\<rparr>"

definition get_pieces_size :: "path \<Rightarrow> nat" where
  "get_pieces_size p = length (path_pieces p) + (if path_name p \<noteq> [] then 1 else 0)"

definition get_parent_name :: "path \<Rightarrow> string" where
  "get_parent_name p = (if path_pieces p \<noteq> [] then take (last (path_pieces p) - 1) (path_name p) else [])"

definition get_own_name :: "path \<Rightarrow> string" where
  "get_own_name p = (if path_pieces p \<noteq> [] then drop (last (path_pieces p)) (path_name p) else path_name p)"

text \<open>\<open>path_t::contains\<close>: the own name is found at the start of the other one.\<close>

definition path_contains :: "path \<Rightarrow> path \<Rightarrow> bool" where
  "path_contains p other \<longleftrightarrow> take (length (path_name p)) (path_name other) = path_name p"

subsection \<open>Iteration\<close>

text \<open>The iterator's position; \<open>None\<close> is the end. The last component runs to the end of the name.\<close>

definition iter_deref :: "path \<Rightarrow> nat \<Rightarrow> string" where
  "iter_deref p position =
     (let b = (if position = 0 then 0 else path_pieces p ! (position - 1));
          rest = drop b (path_name p)
      in if position < length (path_pieces p) then take (path_pieces p ! position - 1 - b) rest else rest)"

definition iter_next :: "path \<Rightarrow> nat \<Rightarrow> nat option" where
  "iter_next p position = (if length (path_pieces p) < position + 1 then None else Some (position + 1))"

function iter_run :: "path \<Rightarrow> nat \<Rightarrow> string list" where
  "iter_run p position = iter_deref p position #
     (case iter_next p position of None \<Rightarrow> [] | Some q \<Rightarrow> iter_run p q)"
  by pat_completeness auto
termination
  by (relation "measure (\<lambda>(p, i). Suc (length (path_pieces p)) - i)")
    (auto simp: iter_next_def split: if_splits)

declare iter_run.simps [simp del]

subsection \<open>Names in normal form\<close>

definition join_slash :: "string list \<Rightarrow> string" where
  "join_slash ps = concat (case ps of [] \<Rightarrow> [] | p # qs \<Rightarrow> p # map (\<lambda>q. CHR ''/'' # q) qs)"

definition plain_pieces :: "string list \<Rightarrow> bool" where
  "plain_pieces ps \<longleftrightarrow> ps \<noteq> [] \<and> (\<forall>p \<in> set ps. p \<noteq> [] \<and> CHR ''/'' \<notin> set p)"

lemma split_slash_nonempty [simp]: "split_slash s \<noteq> []"
  by (cases s) (auto split: list.splits)

lemma split_slash_plain: "CHR ''/'' \<notin> set p \<Longrightarrow> split_slash p = [p]"
  by (induction p) auto

lemma split_slash_append:
  "CHR ''/'' \<notin> set p \<Longrightarrow> split_slash (p @ CHR ''/'' # s) = p # split_slash s"
  by (induction p) auto

lemma join_slash_Cons: "join_slash (p # q # qs) = p @ CHR ''/'' # join_slash (q # qs)"
  by (simp add: join_slash_def)

lemma split_join:
  "ps \<noteq> [] \<Longrightarrow> \<forall>p \<in> set ps. CHR ''/'' \<notin> set p \<Longrightarrow> split_slash (join_slash ps) = ps"
proof (induction ps)
  case (Cons p ps)
  then show ?case
    by (cases ps) (auto simp: split_slash_plain join_slash_Cons split_slash_append, simp add: join_slash_def split_slash_plain)
qed simp

lemma fs_components_join:
  assumes "plain_pieces ps"
  shows "fs_components (join_slash ps) = ps"
proof -
  obtain p qs where ps: "ps = p # qs" using assms by (cases ps) (auto simp: plain_pieces_def)
  have p: "p \<noteq> []" "CHR ''/'' \<notin> set p" using assms ps by (auto simp: plain_pieces_def)
  then obtain c cs where c: "p = c # cs" by (cases p) auto
  have sp: "split_slash (join_slash ps) = ps" using assms by (intro split_join) (auto simp: plain_pieces_def)
  have "join_slash ps \<noteq> []" "hd (join_slash ps) = c" using ps c by (auto simp: join_slash_def)
  moreover have "c \<noteq> CHR ''/''" using p c by auto
  moreover have "filter (\<lambda>p. p \<noteq> []) ps = ps" using assms by (intro filter_True) (auto simp: plain_pieces_def)
  moreover have "last ps \<noteq> []" using assms by (auto simp: plain_pieces_def)
  ultimately show ?thesis using sp by (simp add: fs_components_def Let_def)
qed

lemma iter_run_suffix:
  assumes "path_name P = pre @ join_slash (p # qs)" "path_pieces P = offs @ piece_offsets (length pre + length p) qs"
    "(if offs = [] then 0 else last offs) = length pre"
  shows "iter_run P (length offs) = p # qs"
  using assms
proof (induction qs arbitrary: p pre offs)
  case Nil
  have "(if length offs = 0 then 0 else path_pieces P ! (length offs - 1)) = length pre"
    using Nil(2,3) by (cases "offs = []") (simp_all add: last_conv_nth)
  then have "iter_deref P (length offs) = p" using Nil(1,2) by (simp add: iter_deref_def Let_def join_slash_def)
  moreover have "iter_next P (length offs) = None" using Nil(2) by (simp add: iter_next_def)
  ultimately show ?case by (simp add: iter_run.simps)
next
  case (Cons q qs)
  let ?o = "length pre + length p + 1"
  have b: "(if length offs = 0 then 0 else path_pieces P ! (length offs - 1)) = length pre"
    using Cons.prems(2,3) by (cases "offs = []") (simp_all add: last_conv_nth nth_append)
  have o: "path_pieces P ! length offs = ?o" "length offs < length (path_pieces P)" using Cons.prems(2) by (simp_all add: nth_append)
  have d: "iter_deref P (length offs) = p"
    unfolding iter_deref_def Let_def b using Cons.prems(1) o by (simp add: join_slash_Cons)
  have n: "iter_next P (length offs) = Some (length (offs @ [?o]))" using o(2) by (simp add: iter_next_def)
  have "iter_run P (length (offs @ [?o])) = q # qs"
    using Cons.prems(1,2) by (intro Cons.IH [of "pre @ p @ ''/''"]) (simp_all add: join_slash_Cons)
  then show ?case using d n by (simp add: iter_run.simps [of P "length offs"])
qed

lemma length_join_slash: "length (join_slash (p # qs)) = length p + sum_list (map (\<lambda>q. length q + 1) qs)"
  by (simp add: join_slash_def length_concat comp_def)

lemma last_piece_offsets:
  "qs \<noteq> [] \<Longrightarrow> last (piece_offsets prev qs) = prev + 1 + sum_list (map (\<lambda>q. length q + 1) (butlast qs))"
proof (induction qs arbitrary: prev)
  case (Cons q qs)
  show ?case
  proof (cases "qs = []")
    case False
    have "piece_offsets (prev + length q + 1) qs \<noteq> []" using False by (cases qs) simp_all
    then show ?thesis using Cons.IH [OF False, of "prev + length q + 1"] False by simp
  qed simp
qed simp

lemma join_slash_snoc: "ps \<noteq> [] \<Longrightarrow> join_slash (ps @ [q]) = join_slash ps @ CHR ''/'' # q"
  by (cases ps) (simp_all add: join_slash_def)

text \<open>
  For a name of non-empty components separated by single slashes, iterating over the path
  yields exactly the components, and parent name, slash and own name put the name together again.
\<close>

theorem path_components:
  assumes "plain_pieces ps"
  shows "iter_run (make_path (join_slash ps)) 0 = ps \<and> get_own_name (make_path (join_slash ps)) = last ps \<and>
    get_parent_name (make_path (join_slash ps)) = join_slash (butlast ps) \<and>
    get_pieces_size (make_path (join_slash ps)) = length ps"
proof -
  obtain p qs where ps: "ps = p # qs" using assms by (cases ps) (auto simp: plain_pieces_def)
  let ?P = "make_path (join_slash ps)"
  have P: "path_name ?P = join_slash ps" "path_pieces ?P = piece_offsets (length p) qs"
    using fs_components_join [OF assms] ps by (simp_all add: make_path_def)
  have it: "iter_run ?P 0 = ps" using iter_run_suffix [of ?P "[]" p qs "[]"] P ps by simp
  have len: "length (piece_offsets k xs) = length xs" for k xs by (induction xs arbitrary: k) auto
  have "join_slash ps \<noteq> []" using assms ps by (auto simp: join_slash_def plain_pieces_def)
  then have sz: "get_pieces_size ?P = length ps" using P ps by (simp add: get_pieces_size_def len)
  show ?thesis
  proof (cases "qs = []")
    case True
    then have "path_pieces ?P = []" using P by simp
    then show ?thesis using it sz P ps True by (simp add: get_own_name_def get_parent_name_def join_slash_def)
  next
    case False
    have ne: "path_pieces ?P \<noteq> []" using P False len [of "length p" qs] by auto
    have last: "last (path_pieces ?P) = length (join_slash (p # butlast qs)) + 1"
      using last_piece_offsets [OF False] P by (simp add: length_join_slash)
    have "ps = (p # butlast qs) @ [last qs]" using ps False by simp
    then have name: "join_slash ps = join_slash (p # butlast qs) @ CHR ''/'' # last qs"
      using join_slash_snoc [of "p # butlast qs" "last qs"] by simp
    show ?thesis using it sz ne last P name ps False by (simp add: get_own_name_def get_parent_name_def)
  qed
qed

theorem path_components_witness:
  "get_parent_name (make_path ''a/bc/d'') = ''a/bc'' \<and> get_own_name (make_path ''a/bc/d'') = ''d''"
proof -
  have "plain_pieces [''a'', ''bc'', ''d'']" by (simp add: plain_pieces_def)
  then show ?thesis using path_components [of "[''a'', ''bc'', ''d'']"] by (simp add: join_slash_def)
qed

end
