(* ===== verification/Device.thy ===== *)
theory Device
  imports Device_Id Messages Multi_Index "HOL-Library.Product_Lexorder"
begin

text \<open>
  Devices (\<^verbatim>\<open>src/model/device.cpp\<close>), their connection state (\<^verbatim>\<open>src/model/device_state.cpp\<close>), the
  devices known only by name (\<^verbatim>\<open>src/model/some_device.cpp\<close>) and the remote views
  (\<^verbatim>\<open>src/model/remote_view.cpp\<close>). Parsing of an address is done by the URL library, whose two
  operations are an argument. A failed assertion has no result.
\<close>

subsection \<open>Addresses\<close>

record uri =
  uri_buffer :: string
  uri_scheme :: string
  uri_port :: "nat option"

record url_lib =
  ul_parse_uri :: "string \<Rightarrow> uri option"
  ul_set_port_number :: "nat \<Rightarrow> uri \<Rightarrow> uri"

definition make_uri :: "url_lib \<Rightarrow> uri \<Rightarrow> uri" where
  "make_uri lib u =
     (if uri_port u = None
      then if uri_scheme u = ''http'' then ul_set_port_number lib 80 u
           else if uri_scheme u = ''https'' then ul_set_port_number lib 443 u else u
      else u)"

definition uri_parse :: "url_lib \<Rightarrow> string \<Rightarrow> uri option" where
  "uri_parse lib str = map_option (make_uri lib) (ul_parse_uri lib str)"

definition port_number :: "uri \<Rightarrow> nat" where
  "port_number u = (case uri_port u of Some p \<Rightarrow> p | None \<Rightarrow> 0)"

subsection \<open>Connection states\<close>

datatype connection_state = offline | unknown | discovering | connecting | connected | online

fun state_rank :: "connection_state \<Rightarrow> nat" where
  "state_rank offline = 0" | "state_rank unknown = 1" | "state_rank discovering = 2"
| "state_rank connecting = 3" | "state_rank connected = 4" | "state_rank online = 5"

record device_state =
  ds_token :: u32
  ds_connection :: connection_state
  ds_online_url :: "uri option"

definition starts_with :: "string \<Rightarrow> string \<Rightarrow> bool" where
  "starts_with prefix s \<longleftrightarrow> take (length prefix) s = prefix"

text \<open>The counter of the tokens is global; making a state advances it.\<close>

definition make_offline :: "u32 \<Rightarrow> u32 \<times> device_state" where
  "make_offline next_token_id =
     (next_token_id + 1, \<lparr>ds_token = next_token_id + 1, ds_connection = offline, ds_online_url = None\<rparr>)"

text \<open>Two online states are compared by their addresses, which both must have.\<close>

definition ds_less :: "device_state \<Rightarrow> device_state \<Rightarrow> bool option" where
  "ds_less s t =
     (if ds_connection t = ds_connection s \<and> ds_connection s = online
      then case (ds_online_url s, ds_online_url t) of
             (Some lhs, Some rhs) \<Rightarrow>
               (let lhs_relay = starts_with ''relay'' (uri_scheme lhs); rhs_relay = starts_with ''relay'' (uri_scheme rhs);
                    lhs_tcp = starts_with ''tcp'' (uri_scheme lhs); rhs_tcp = starts_with ''tcp'' (uri_scheme rhs)
                in if lhs_relay \<and> rhs_tcp then Some True
                   else if lhs_tcp \<and> rhs_relay then Some False
                   else Some (port_number lhs < port_number rhs))
           | _ \<Rightarrow> None
      else Some (state_rank (ds_connection s) < state_rank (ds_connection t)))"

definition ds_equal :: "device_state \<Rightarrow> device_state \<Rightarrow> bool option" where
  "ds_equal s t =
     (if ds_token s \<noteq> ds_token t \<or> ds_connection s \<noteq> ds_connection t then Some False
      else if ds_connection s \<noteq> online then Some True
      else case (ds_online_url s, ds_online_url t) of
             (Some u, Some v) \<Rightarrow> Some (uri_buffer u = uri_buffer v)
           | (None, None) \<Rightarrow> None
           | _ \<Rightarrow> Some False)"

definition can_roollback_to :: "device_state \<Rightarrow> device_state \<Rightarrow> bool option" where
  "can_roollback_to s other =
     (if ds_token other = ds_token s then ds_less other s else Some False)"

definition with_connection :: "connection_state \<Rightarrow> device_state \<Rightarrow> device_state" where
  "with_connection c s = \<lparr>ds_token = ds_token s, ds_connection = c, ds_online_url = None\<rparr>"

definition to_offline :: "device_state \<Rightarrow> device_state" where
  "to_offline s = with_connection offline s"

definition to_connecting :: "device_state \<Rightarrow> device_state option" where
  "to_connecting s = (if ds_connection s = offline then Some (with_connection connecting s) else None)"

definition to_connected :: "device_state \<Rightarrow> device_state option" where
  "to_connected s = (if ds_connection s = connecting then Some (with_connection connected s) else None)"

definition to_discover :: "device_state \<Rightarrow> device_state option" where
  "to_discover s = (if ds_connection s = unknown then Some (with_connection discovering s) else None)"

definition to_unknown :: "device_state \<Rightarrow> device_state option" where
  "to_unknown s = (if ds_connection s = offline then Some (with_connection unknown s) else None)"

definition ds_clone :: "device_state \<Rightarrow> device_state" where
  "ds_clone s = \<lparr>ds_token = ds_token s, ds_connection = ds_connection s, ds_online_url = ds_online_url s\<rparr>"

definition to_online :: "url_lib \<Rightarrow> string \<Rightarrow> device_state \<Rightarrow> device_state option" where
  "to_online lib url s =
     (if ds_connection s \<noteq> connected then None
      else case uri_parse lib url of
             None \<Rightarrow> None
           | Some u \<Rightarrow>
               if starts_with ''tcp'' (uri_scheme u) \<or> starts_with ''relay'' (uri_scheme u)
               then Some \<lparr>ds_token = ds_token s, ds_connection = online, ds_online_url = Some u\<rparr> else None)"

text \<open>The states a device can be in, through the operations above.\<close>

inductive device_states :: "url_lib \<Rightarrow> device_state \<Rightarrow> bool" for lib where
  "device_states lib (snd (make_offline next_token_id))"
| "device_states lib s \<Longrightarrow> device_states lib (to_offline s)"
| "device_states lib s \<Longrightarrow> to_connecting s = Some t \<Longrightarrow> device_states lib t"
| "device_states lib s \<Longrightarrow> to_connected s = Some t \<Longrightarrow> device_states lib t"
| "device_states lib s \<Longrightarrow> to_discover s = Some t \<Longrightarrow> device_states lib t"
| "device_states lib s \<Longrightarrow> to_unknown s = Some t \<Longrightarrow> device_states lib t"
| "device_states lib s \<Longrightarrow> device_states lib (ds_clone s)"
| "device_states lib s \<Longrightarrow> to_online lib url s = Some t \<Longrightarrow> device_states lib t"

lemmas state_changes = make_offline_def to_offline_def to_connecting_def to_connected_def to_discover_def
  to_unknown_def ds_clone_def to_online_def with_connection_def

text \<open>An online state has an address of one of the two kinds, the other states have none.\<close>

definition url_kind :: "uri \<Rightarrow> nat option" where
  "url_kind u = (if starts_with ''relay'' (uri_scheme u) then Some 0
     else if starts_with ''tcp'' (uri_scheme u) then Some 1 else None)"

lemma device_states_url:
  "device_states lib s \<Longrightarrow> (case ds_online_url s of
     None \<Rightarrow> ds_connection s \<noteq> online | Some u \<Rightarrow> ds_connection s = online \<and> url_kind u \<noteq> None)"
  by (induction rule: device_states.induct)
    (auto simp: state_changes url_kind_def split: option.splits if_splits)

text \<open>The place of a state in the order: its rank, then relays before direct connections, then the port.\<close>

definition ds_place :: "device_state \<Rightarrow> nat \<times> nat \<times> nat" where
  "ds_place s = (state_rank (ds_connection s), (case ds_online_url s of
       None \<Rightarrow> (0, 0) | Some u \<Rightarrow> (the (url_kind u), port_number u)))"

lemma relay_not_tcp: "starts_with ''relay'' s \<Longrightarrow> \<not> starts_with ''tcp'' s"
  by (cases s) (auto simp: starts_with_def)

lemma state_rank_inj: "state_rank s = state_rank t \<longleftrightarrow> s = t"
  by (cases s; cases t) simp_all

text \<open>
  On the states a device can be in, the comparison never meets a missing address and is the
  lexicographic order of connection state, kind of address (a relay below a direct
  connection) and port, hence a strict weak order.
\<close>

theorem device_state_order:
  assumes "device_states lib s" "device_states lib t"
  shows "ds_less s t = Some (ds_place s < ds_place t)"
proof (cases "ds_connection s = ds_connection t \<and> ds_connection s = online")
  case True
  then obtain u v where uv: "ds_online_url s = Some u" "ds_online_url t = Some v"
      "url_kind u \<noteq> None" "url_kind v \<noteq> None"
    using device_states_url [OF assms(1)] device_states_url [OF assms(2)] by (auto split: option.splits)
  show ?thesis using True uv relay_not_tcp [of "uri_scheme u"] relay_not_tcp [of "uri_scheme v"]
    by (auto simp: ds_less_def ds_place_def url_kind_def Let_def split: if_splits)
next
  case False
  show ?thesis
  proof (cases "ds_connection s = ds_connection t")
    case True
    then have "ds_online_url s = None" "ds_online_url t = None"
      using False device_states_url [OF assms(1)] device_states_url [OF assms(2)] by (auto split: option.splits)
    then show ?thesis using True False by (auto simp: ds_less_def ds_place_def)
  next
    case False
    then have "state_rank (ds_connection s) \<noteq> state_rank (ds_connection t)" by (simp add: state_rank_inj)
    then show ?thesis using False by (auto simp: ds_less_def ds_place_def)
  qed
qed

theorem device_state_order_witness:
  "ds_less (snd (make_offline 4)) (with_connection connecting (snd (make_offline 4))) = Some True"
proof -
  let ?s = "snd (make_offline 4)"
  let ?lib = "\<lparr>ul_parse_uri = Map.empty, ul_set_port_number = \<lambda>_ u. u\<rparr>"
  have "device_states ?lib ?s" by (rule device_states.intros(1))
  moreover have "device_states ?lib (with_connection connecting ?s)"
    by (rule device_states.intros(3) [OF calculation]) (simp add: to_connecting_def make_offline_def)
  ultimately show ?thesis using device_state_order [of ?lib ?s "with_connection connecting ?s"]
    by (simp add: ds_place_def with_connection_def make_offline_def)
qed

subsection \<open>Remote views\<close>

text \<open>What a peer is known to have: the index and the maximal sequence per folder and device.\<close>

type_synonym remote_views = "(string \<times> bytes) \<Rightarrow> (u64 \<times> int) option"

definition view_push :: "bytes \<Rightarrow> string \<Rightarrow> u64 \<Rightarrow> int \<Rightarrow> remote_views \<Rightarrow> remote_views" where
  "view_push dev fid index_id max_sequence views = views((fid, dev) \<mapsto> (index_id, max_sequence))"

definition view_get :: "bytes \<Rightarrow> string \<Rightarrow> remote_views \<Rightarrow> (u64 \<times> int) option" where
  "view_get dev fid views = views (fid, dev)"

subsection \<open>Devices\<close>

definition device_prefix :: u8 where "device_prefix = 0x10"

text \<open>
  Times are microseconds since the epoch. The key of the local device is the one of a fixed
  identifier and not its own: \<open>dv_local_key\<close> is that key for a \<open>local_device_t\<close>.
\<close>

record device =
  dv_id :: device_id
  dv_local_key :: "bytes option"
  dv_name :: string
  dv_compression :: compression
  dv_cert_name :: "string option"
  dv_uris :: "uri list"
  dv_static_uris :: "uri list"
  dv_introducer :: bool
  dv_auto_accept :: bool
  dv_paused :: bool
  dv_skip_introduction_removals :: bool
  dv_state :: device_state
  dv_client_name :: string
  dv_client_version :: string
  dv_remote_view_map :: remote_views
  dv_last_seen :: int
  dv_rx_bytes :: nat
  dv_tx_bytes :: nat

abbreviation dv_sha :: "device \<Rightarrow> bytes" where "dv_sha d \<equiv> did_sha256 (dv_id d)"

definition did_get_key :: "device_id \<Rightarrow> bytes" where
  "did_get_key d = device_prefix # did_sha256 d"

definition dv_key :: "device \<Rightarrow> bytes" where
  "dv_key d = (case dv_local_key d of Some k \<Rightarrow> k | None \<Rightarrow> did_get_key (dv_id d))"

datatype device_error = invalid_device_prefix | invalid_device_sha256_digest | malformed_url

definition from_time_t :: "int \<Rightarrow> int" where
  "from_time_t s = s * 1000000"

definition as_seconds :: "int \<Rightarrow> int" where
  "as_seconds t = (if t < 0 then - ((- t) div 1000000) else t div 1000000)"

definition new_device :: "device_id \<Rightarrow> string \<Rightarrow> string \<Rightarrow> device_state \<Rightarrow> device" where
  "new_device did name cert_name state =
     \<lparr>dv_id = did, dv_local_key = None, dv_name = name, dv_compression = METADATA, dv_cert_name = Some cert_name,
      dv_uris = [], dv_static_uris = [], dv_introducer = False, dv_auto_accept = False, dv_paused = False,
      dv_skip_introduction_removals = False, dv_state = state, dv_client_name = [], dv_client_version = [],
      dv_remote_view_map = Map.empty, dv_last_seen = from_time_t 0, dv_rx_bytes = 0, dv_tx_bytes = 0\<rparr>"

fun parse_addresses :: "url_lib \<Rightarrow> string list \<Rightarrow> uri list option" where
  "parse_addresses lib [] = Some []"
| "parse_addresses lib (a # as) = (case uri_parse lib a of
       None \<Rightarrow> None | Some u \<Rightarrow> map_option ((#) u) (parse_addresses lib as))"

text \<open>
  \<open>assign\<close>: the fields are overwritten before the addresses are parsed, so a malformed address
  is reported on a device that is already changed.
\<close>

definition device_assign :: "url_lib \<Rightarrow> db_device \<Rightarrow> device \<Rightarrow> device_error option \<times> device" where
  "device_assign lib data d =
     (let d = d\<lparr>dv_name := dd_name data, dv_compression := dd_compression data, dv_cert_name := Some (dd_cert_name data),
           dv_introducer := dd_introducer data, dv_auto_accept := dd_auto_accept data, dv_paused := dd_paused data,
           dv_skip_introduction_removals := dd_skip_introduction_removals data,
           dv_static_uris := [], dv_uris := [], dv_last_seen := from_time_t (dd_last_seen data)\<rparr>
      in case parse_addresses lib (dd_addresses data) of
           None \<Rightarrow> (Some malformed_url, d)
         | Some uris \<Rightarrow> (None, d\<lparr>dv_static_uris := uris\<rparr>))"

text \<open>The outer option is a failed assertion of the identifier, or an empty key.\<close>

definition device_create :: "url_lib \<Rightarrow> u32 \<Rightarrow> bytes \<Rightarrow> db_device \<Rightarrow> (device_error, device) result option" where
  "device_create lib next_token_id key data = (case key of
       [] \<Rightarrow> None
     | p # sha \<Rightarrow>
        (if p \<noteq> device_prefix then Some (Inl invalid_device_prefix)
         else case from_sha256 sha of
                None \<Rightarrow> None
              | Some None \<Rightarrow> Some (Inl invalid_device_sha256_digest)
              | Some (Some did) \<Rightarrow>
                  (case device_assign lib data
                          (new_device did (dd_name data) (dd_cert_name data) (snd (make_offline next_token_id))) of
                     (Some ec, _) \<Rightarrow> Some (Inl ec)
                   | (None, d) \<Rightarrow> Some (Inr d))))"

definition device_update :: "url_lib \<Rightarrow> db_device \<Rightarrow> device \<Rightarrow> device_error option \<times> device" where
  "device_update lib source d = device_assign lib source d"

definition device_serialize :: "device \<Rightarrow> db_device" where
  "device_serialize d =
     \<lparr>dd_name = dv_name d, dd_addresses = map uri_buffer (dv_static_uris d), dd_compression = dv_compression d,
      dd_cert_name = (case dv_cert_name d of Some cn \<Rightarrow> cn | None \<Rightarrow> []), dd_introducer = dv_introducer d,
      dd_skip_introduction_removals = dv_skip_introduction_removals d, dd_auto_accept = dv_auto_accept d,
      dd_paused = dv_paused d, dd_last_seen = as_seconds (dv_last_seen d)\<rparr>"

definition is_dynamic :: "device \<Rightarrow> bool" where
  "is_dynamic d \<longleftrightarrow> dv_static_uris d = []"

definition update_state :: "int \<Rightarrow> device_state \<Rightarrow> device \<Rightarrow> device" where
  "update_state local_time new_state d =
     (let d = (if ds_connection new_state = online \<or> ds_connection (dv_state d) = online
               then d\<lparr>dv_last_seen := local_time\<rparr> else d)
      in d\<lparr>dv_state := new_state\<rparr>)"

definition update_contact :: "string \<Rightarrow> string \<Rightarrow> device \<Rightarrow> device" where
  "update_contact client_name client_version d = d\<lparr>dv_client_name := client_name, dv_client_version := client_version\<rparr>"

definition assign_uris :: "uri list \<Rightarrow> device \<Rightarrow> device" where
  "assign_uris uris d = d\<lparr>dv_uris := uris\<rparr>"

text \<open>The devices of a cluster, by key and by digest.\<close>

definition dv_indices :: "(device \<Rightarrow> bytes) list" where
  "dv_indices = [dv_key, dv_sha]"

definition devices_by_sha256 :: "bytes \<Rightarrow> device list \<Rightarrow> device option" where
  "devices_by_sha256 sha devices = gm_get dv_sha sha devices"

definition devices_by_key :: "bytes \<Rightarrow> device list \<Rightarrow> device option" where
  "devices_by_key key devices = gm_get dv_key key devices"

lemma parse_addresses_buffers:
  "(\<And>u. u \<in> set us \<Longrightarrow> uri_parse lib (uri_buffer u) = Some u) \<Longrightarrow> parse_addresses lib (map uri_buffer us) = Some us"
  by (induction us) auto

text \<open>
  A device written to the database and created again from its key has all that was
  written: identifier, settings, addresses, and the time it was last seen cut to the second. The
  addresses are assumed to survive printing and parsing by the URL library.
\<close>

theorem device_database_roundtrip:
  assumes uris: "\<And>u. u \<in> set (dv_static_uris d) \<Longrightarrow> uri_parse lib (uri_buffer u) = Some u"
    and did: "from_sha256 (dv_sha d) = Some (Some (dv_id d))" and remote: "dv_local_key d = None"
  shows "\<exists>d'. device_create lib tok (dv_key d) (device_serialize d) = Some (Inr d') \<and>
    device_serialize d' = device_serialize d \<and> dv_id d' = dv_id d \<and> dv_static_uris d' = dv_static_uris d \<and>
    dv_last_seen d' = from_time_t (as_seconds (dv_last_seen d)) \<and> ds_connection (dv_state d') = offline"
proof -
  have "as_seconds (from_time_t s) = s" for s
    using nonzero_mult_div_cancel_right [of 1000000 "- s"] by (simp add: as_seconds_def from_time_t_def del: nonzero_mult_div_cancel_right)
  moreover have "parse_addresses lib (dd_addresses (device_serialize d)) = Some (dv_static_uris d)"
    using uris by (simp add: device_serialize_def parse_addresses_buffers)
  ultimately show ?thesis using did remote
    by (simp add: device_create_def dv_key_def did_get_key_def device_assign_def Let_def new_device_def make_offline_def)
      (simp add: device_serialize_def)
qed

lemma from_sha256_zero:
  "from_sha256 (replicate 32 0) = Some (Some \<lparr>did_value = did_value (the (the (from_sha256 (replicate 32 0)))), did_sha256 = replicate 32 0\<rparr>)"
  by code_simp

theorem device_database_roundtrip_witness:
  "\<exists>d'. device_create \<lparr>ul_parse_uri = \<lambda>s. Some \<lparr>uri_buffer = s, uri_scheme = ''tcp'', uri_port = Some 22000\<rparr>,
       ul_set_port_number = \<lambda>_ u. u\<rparr> 7 (device_prefix # replicate 32 0)
     (device_serialize ((new_device (the (the (from_sha256 (replicate 32 0)))) ''nas'' [] (snd (make_offline 0)))
        \<lparr>dv_static_uris := [\<lparr>uri_buffer = ''tcp://10.0.0.1:22000'', uri_scheme = ''tcp'', uri_port = Some 22000\<rparr>]\<rparr>)) = Some (Inr d') \<and>
     dv_name d' = ''nas''"
proof -
  let ?lib = "\<lparr>ul_parse_uri = \<lambda>s. Some \<lparr>uri_buffer = s, uri_scheme = ''tcp'', uri_port = Some 22000\<rparr>, ul_set_port_number = \<lambda>_ u. u\<rparr>"
  let ?did = "the (the (from_sha256 (replicate 32 0)))"
  let ?d = "(new_device ?did ''nas'' [] (snd (make_offline 0)))
        \<lparr>dv_static_uris := [\<lparr>uri_buffer = ''tcp://10.0.0.1:22000'', uri_scheme = ''tcp'', uri_port = Some 22000\<rparr>]\<rparr>"
  have sha: "did_sha256 ?did = replicate 32 0" "from_sha256 (replicate 32 0) = Some (Some ?did)"
    by (metis from_sha256_zero device_id.select_convs(2) option.sel, metis from_sha256_zero option.sel)
  have local: "dv_local_key ?d = None" "dv_id ?d = ?did" by (simp_all add: new_device_def)
  have uris: "u \<in> set (dv_static_uris ?d) \<Longrightarrow> uri_parse ?lib (uri_buffer u) = Some u" for u
    by (simp add: uri_parse_def make_uri_def)
  have key: "dv_key ?d = device_prefix # replicate 32 0" using local sha by (simp add: dv_key_def did_get_key_def)
  obtain d' where "device_create ?lib 7 (dv_key ?d) (device_serialize ?d) = Some (Inr d')" "device_serialize d' = device_serialize ?d"
    using device_database_roundtrip [of ?d ?lib 7] uris local sha by auto
  moreover from this(2) have "dv_name d' = dv_name ?d" by (metis device_serialize_def db_device.select_convs(1))
  ultimately show ?thesis unfolding key by (auto simp: new_device_def)
qed

subsection \<open>Devices that are only known\<close>

record db_some_device =
  sd_name :: string
  sd_client_name :: string
  sd_client_version :: string
  sd_address :: string
  sd_last_seen :: int

record some_device =
  so_device_id :: device_id
  so_prefix :: u8
  so_name :: string
  so_client_name :: string
  so_client_version :: string
  so_address :: string
  so_last_seen :: int

definition so_key :: "some_device \<Rightarrow> bytes" where
  "so_key s = so_prefix s # did_sha256 (so_device_id s)"

definition some_device_assign :: "db_some_device \<Rightarrow> some_device \<Rightarrow> some_device" where
  "some_device_assign db s = s\<lparr>so_name := sd_name db, so_client_name := sd_client_name db,
     so_client_version := sd_client_version db, so_address := sd_address db, so_last_seen := from_time_t (sd_last_seen db)\<rparr>"

definition some_device_create :: "u8 \<Rightarrow> device_id \<Rightarrow> db_some_device \<Rightarrow> some_device" where
  "some_device_create prefix did db = some_device_assign db
     \<lparr>so_device_id = did, so_prefix = prefix, so_name = [], so_client_name = [], so_client_version = [],
      so_address = [], so_last_seen = 0\<rparr>"

definition some_device_serialize :: "some_device \<Rightarrow> db_some_device" where
  "some_device_serialize s = \<lparr>sd_name = so_name s, sd_client_name = so_client_name s,
     sd_client_version = so_client_version s, sd_address = so_address s, sd_last_seen = as_seconds (so_last_seen s)\<rparr>"

definition some_by_sha256 :: "bytes \<Rightarrow> some_device list \<Rightarrow> some_device option" where
  "some_by_sha256 sha m = gm_get (\<lambda>s. did_sha256 (so_device_id s)) sha m"

end
