(* ===== verification/Folder.thy ===== *)
theory Folder
  imports File_Info Multi_Index Device
begin

text \<open>
  Folders as each device sees them (\<^verbatim>\<open>src/model/folder_info.cpp\<close>), the folders with their
  settings and scan and synchronization state (\<^verbatim>\<open>src/model/folder.cpp\<close>,
  \<^verbatim>\<open>src/model/folder_data.cpp\<close>) and the folders a peer offers or this host ignores
  (\<^verbatim>\<open>src/model/pending_folder.cpp\<close>, \<^verbatim>\<open>src/model/ignored_folder.cpp\<close>). The files of a folder info
  are addresses into the store of files.
\<close>

subsection \<open>Folder infos\<close>

text \<open>The device is kept as its digest and its key, which differ for the local device.\<close>

record folder_info =
  fo_device :: bytes
  fo_device_key :: bytes
  fo_folder_uuid :: bytes
  fo_uuid :: bytes
  fo_index :: u64
  fo_max_sequence :: int
  fo_introducer_device_key :: bytes
  fo_file_infos :: "addr list"

definition folder_info_prefix :: u8 where "folder_info_prefix = 0x12"
definition folder_prefix :: u8 where "folder_prefix = 0x11"

definition folder_info_length :: nat where
  "folder_info_length = uuid_length * 2 + digest_length + 1"

definition folder_info_key :: "folder_info \<Rightarrow> bytes" where
  "folder_info_key fo = folder_info_prefix # drop 1 (fo_device_key fo) @ fo_folder_uuid fo @ fo_uuid fo"

text \<open>The key taken apart: device key, folder key and the identifier; \<open>None\<close> is a failed assertion.\<close>

definition folder_info_decompose_key :: "bytes \<Rightarrow> (bytes \<times> bytes \<times> bytes) option" where
  "folder_info_decompose_key key =
     (if length key \<noteq> folder_info_length then None
      else let device_key = take digest_length (drop 1 key);
               folder_id = take uuid_length (drop (1 + length device_key) key);
               folder_info_id = take uuid_length (drop (1 + length device_key + length folder_id) key)
           in Some (device_prefix # device_key, folder_prefix # folder_id, folder_info_id))"

definition fo_assign_fields :: "db_folder_info \<Rightarrow> folder_info \<Rightarrow> folder_info" where
  "fo_assign_fields data fo = fo\<lparr>fo_index := dfi_index_id data, fo_max_sequence := dfi_max_sequence data,
     fo_introducer_device_key := dfi_introducer_device_key data\<rparr>"

definition fo_serialize :: "folder_info \<Rightarrow> db_folder_info" where
  "fo_serialize fo = \<lparr>dfi_index_id = fo_index fo, dfi_max_sequence = fo_max_sequence fo,
     dfi_introducer_device_key = fo_introducer_device_key fo\<rparr>"

datatype folder_error = invalid_folder_info_key_length | invalid_folder_info_prefix |
  invalid_folder_key_length | invalid_folder_prefix

definition blank_folder_info :: "device \<Rightarrow> bytes \<Rightarrow> bytes \<Rightarrow> folder_info" where
  "blank_folder_info dev fuuid uuid = \<lparr>fo_device = dv_sha dev, fo_device_key = dv_key dev, fo_folder_uuid = fuuid, fo_uuid = uuid, fo_index = 0,
     fo_max_sequence = 0, fo_introducer_device_key = [], fo_file_infos = []\<rparr>"

definition fo_create_uuid :: "bytes \<Rightarrow> db_folder_info \<Rightarrow> device \<Rightarrow> bytes \<Rightarrow> folder_info" where
  "fo_create_uuid uuid data dev fuuid = fo_assign_fields data (blank_folder_info dev fuuid uuid)"

text \<open>From a database key; a key of another device or folder violates an assertion.\<close>

definition fo_create_key :: "bytes \<Rightarrow> db_folder_info \<Rightarrow> device \<Rightarrow> bytes \<Rightarrow> (folder_error, folder_info) result option" where
  "fo_create_key key data dev fuuid =
     (if length key \<noteq> folder_info_length then Some (Inl invalid_folder_info_key_length)
      else if hd key \<noteq> folder_info_prefix then Some (Inl invalid_folder_info_prefix)
      else if take digest_length (drop 1 key) \<noteq> drop 1 (dv_key dev) \<or> take uuid_length (drop (1 + digest_length) key) \<noteq> fuuid then None
      else Some (Inr (fo_assign_fields data
             (blank_folder_info dev fuuid (drop (1 + digest_length + uuid_length) key)))))"

subsection \<open>The files of a folder info\<close>

definition file_at :: "store \<Rightarrow> addr \<Rightarrow> file_info" where
  "file_at st a = (case st_files st a of Some fi \<Rightarrow> fi | None \<Rightarrow> blank_file [])"

abbreviation uuid_at :: "store \<Rightarrow> addr \<Rightarrow> bytes" where "uuid_at st a \<equiv> fi_get_uuid (file_at st a)"
abbreviation name_at :: "store \<Rightarrow> addr \<Rightarrow> string" where "name_at st a \<equiv> fi_name (file_at st a)"
abbreviation seq_at :: "store \<Rightarrow> addr \<Rightarrow> int" where "seq_at st a \<equiv> fi_sequence (file_at st a)"

definition files_agree :: "store \<Rightarrow> addr \<Rightarrow> addr \<Rightarrow> bool" where
  "files_agree st = fm_agree (uuid_at st) (name_at st) (seq_at st)"

definition by_name :: "store \<Rightarrow> string \<Rightarrow> folder_info \<Rightarrow> addr option" where
  "by_name st name fo = fm_by (name_at st) name (fo_file_infos fo)"

definition by_uuid :: "store \<Rightarrow> bytes \<Rightarrow> folder_info \<Rightarrow> addr option" where
  "by_uuid st uuid fo = fm_by (uuid_at st) uuid (fo_file_infos fo)"

definition by_sequence :: "store \<Rightarrow> int \<Rightarrow> folder_info \<Rightarrow> addr option" where
  "by_sequence st seq fo = fm_by (seq_at st) seq (fo_file_infos fo)"

definition files_put :: "(addr list \<Rightarrow> addr) \<Rightarrow> store \<Rightarrow> addr \<Rightarrow> folder_info \<Rightarrow> folder_info" where
  "files_put pick st a fo = fo\<lparr>fo_file_infos := fst (fm_put pick (files_agree st) a True (fo_file_infos fo))\<rparr>"

definition files_remove :: "store \<Rightarrow> addr \<Rightarrow> folder_info \<Rightarrow> folder_info" where
  "files_remove st a fo = fo\<lparr>fo_file_infos := fm_remove (uuid_at st) (name_at st) (seq_at st) a (fo_file_infos fo)\<rparr>"

definition add_relaxed :: "(addr list \<Rightarrow> addr) \<Rightarrow> store \<Rightarrow> addr \<Rightarrow> folder_info \<Rightarrow> folder_info" where
  "add_relaxed pick st a fo =
     (let fo = files_put pick st a fo
      in fo\<lparr>fo_max_sequence := max (fo_max_sequence fo) (seq_at st a)\<rparr>)"

definition add_strict :: "(addr list \<Rightarrow> addr) \<Rightarrow> store \<Rightarrow> addr \<Rightarrow> folder_info \<Rightarrow> folder_info \<times> bool" where
  "add_strict pick st a fo =
     (if fo_max_sequence fo < seq_at st a
      then (files_put pick st a (fo\<lparr>fo_max_sequence := seq_at st a\<rparr>), True)
      else (fo, False))"

definition set_index :: "u64 \<Rightarrow> folder_info \<Rightarrow> folder_info" where
  "set_index value fo = (if value \<noteq> fo_index fo
     then fo\<lparr>fo_index := value, fo_max_sequence := 0, fo_file_infos := []\<rparr> else fo)"

definition is_introduced_by :: "device_id \<Rightarrow> folder_info \<Rightarrow> bool" where
  "is_introduced_by d fo \<longleftrightarrow> fo_introducer_device_key fo = did_get_key d"

subsection \<open>Folders\<close>

record folder =
  fd_uuid :: bytes
  fd_data :: db_folder
  fd_folder_infos :: "folder_info list"
  fd_scan_start :: "int option"
  fd_scan_finish :: "int option"
  fd_synchronizing :: int
  fd_suspended :: bool
  fd_suspend_reason :: "nat option"

definition blank_folder :: "bytes \<Rightarrow> db_folder \<Rightarrow> folder" where
  "blank_folder uuid data = \<lparr>fd_uuid = uuid, fd_data = data, fd_folder_infos = [], fd_scan_start = None,
     fd_scan_finish = None, fd_synchronizing = 0, fd_suspended = False, fd_suspend_reason = None\<rparr>"

definition folder_create :: "bytes \<Rightarrow> db_folder \<Rightarrow> (folder_error, folder) result" where
  "folder_create key data =
     (if length key \<noteq> uuid_length + 1 then Inl invalid_folder_key_length
      else if hd key \<noteq> folder_prefix then Inl invalid_folder_prefix
      else Inr (blank_folder (drop 1 key) data))"

text \<open>The three indices of the folder infos of a folder: identifier, device digest, device key.\<close>

definition fo_indices :: "(folder_info \<Rightarrow> bytes) list" where
  "fo_indices = [fo_uuid, fo_device, fo_device_key]"

definition folder_add :: "folder_info \<Rightarrow> folder \<Rightarrow> folder" where
  "folder_add fo fd = fd\<lparr>fd_folder_infos := fst (gm_put fo_indices fo True (fd_folder_infos fd))\<rparr>"

definition by_device :: "bytes \<Rightarrow> folder \<Rightarrow> folder_info option" where
  "by_device sha fd = gm_get fo_device sha (fd_folder_infos fd)"

definition is_shared_with :: "bytes \<Rightarrow> folder \<Rightarrow> folder_info option" where
  "is_shared_with sha fd = by_device sha fd"

definition set_scan_start :: "int \<Rightarrow> folder \<Rightarrow> folder" where
  "set_scan_start value fd = fd\<lparr>fd_scan_start := Some value\<rparr>"

definition set_scan_finish :: "int \<Rightarrow> folder \<Rightarrow> folder option" where
  "set_scan_finish value fd = (case fd_scan_start fd of
       None \<Rightarrow> None
     | Some start \<Rightarrow> if start \<le> value then Some (fd\<lparr>fd_scan_finish := Some value\<rparr>) else None)"

definition is_scanning :: "folder \<Rightarrow> bool" where
  "is_scanning fd = (case fd_scan_start fd of
       None \<Rightarrow> False
     | Some start \<Rightarrow> (case fd_scan_finish fd of None \<Rightarrow> True | Some finish \<Rightarrow> finish < start))"

definition folder_is_synchronizing :: "folder \<Rightarrow> bool" where
  "folder_is_synchronizing fd \<longleftrightarrow> 0 < fd_synchronizing fd"

definition adjust_synchronization :: "int \<Rightarrow> folder \<Rightarrow> folder option" where
  "adjust_synchronization delta fd =
     (let fd = fd\<lparr>fd_synchronizing := fd_synchronizing fd + delta\<rparr>
      in if 0 \<le> fd_synchronizing fd then Some fd else None)"

definition mark_suspended :: "bool \<Rightarrow> nat option \<Rightarrow> folder \<Rightarrow> folder option" where
  "mark_suspended value ec fd =
     (if \<not> value \<and> ec \<noteq> None then None
      else Some (fd\<lparr>fd_suspended := value, fd_suspend_reason := ec\<rparr>))"

subsection \<open>Devices and cluster configuration\<close>

definition generate_device :: "(bytes \<Rightarrow> device) \<Rightarrow> folder_info \<Rightarrow> pr_device" where
  "generate_device dev fo =
     (let d = dev (fo_device fo)
      in \<lparr>pd_id = dv_sha d, pd_name = dv_name d, pd_addresses = [], pd_compression = dv_compression d,
          pd_cert_name = (case dv_cert_name d of Some cn \<Rightarrow> cn | None \<Rightarrow> []), pd_max_sequence = fo_max_sequence fo,
          pd_introducer = dv_introducer d, pd_index_id = fo_index fo,
          pd_skip_introduction_removals = dv_skip_introduction_removals d\<rparr>)"

text \<open>What a device is told about a folder; \<open>dev\<close> gives the device behind a folder info.\<close>

definition folder_generate :: "(bytes \<Rightarrow> device) \<Rightarrow> bytes \<Rightarrow> folder \<Rightarrow> pr_folder option" where
  "folder_generate dev target fd = (case is_shared_with target fd of
       None \<Rightarrow> None
     | Some _ \<Rightarrow> Some \<lparr>pfo_id = dfo_id (fd_data fd), pfo_label = dfo_label (fd_data fd),
         pfo_read_only = (dfo_folder_type (fd_data fd) = send),
         pfo_ignore_permissions = dfo_ignore_permissions (fd_data fd),
         pfo_ignore_delete = dfo_ignore_delete (fd_data fd), pfo_disable_temp_indexes = True,
         pfo_paused = dfo_paused (fd_data fd), pfo_devices = map (generate_device dev) (fd_folder_infos fd)\<rparr>)"

definition cluster_generate :: "(bytes \<Rightarrow> device) \<Rightarrow> bytes \<Rightarrow> folder list \<Rightarrow> pr_folder list" where
  "cluster_generate dev target folders = List.map_filter (folder_generate dev target) folders"

subsection \<open>Keys\<close>

text \<open>
  The database key of a folder info taken apart gives the keys of its device and of its folder
  and its identifier, and creating the folder info from key and record restores it.
\<close>

theorem folder_info_key_roundtrip:
  assumes "fo = fo_create_uuid uuid data dev fuuid" "length (dv_key dev) = digest_length + 1" "hd (dv_key dev) = device_prefix"
    "length fuuid = uuid_length" "length uuid = uuid_length"
  shows "folder_info_decompose_key (folder_info_key fo) = Some (dv_key dev, folder_prefix # fuuid, uuid) \<and>
    fo_create_key (folder_info_key fo) (fo_serialize fo) dev fuuid = Some (Inr fo)"
proof -
  obtain k where k: "dv_key dev = device_prefix # k" "length k = digest_length"
    using assms(2,3) by (cases "dv_key dev") auto
  show ?thesis using assms k
    by (simp add: folder_info_decompose_key_def folder_info_key_def folder_info_length_def fo_create_key_def Let_def
        fo_assign_fields_def fo_serialize_def blank_folder_info_def fo_create_uuid_def)
qed

definition sample_device :: device where
  "sample_device = new_device \<lparr>did_value = [], did_sha256 = replicate 32 1\<rparr> ''nas'' [] (snd (make_offline 0))"

theorem folder_info_key_roundtrip_witness:
  "folder_info_decompose_key (folder_info_key (fo_create_uuid (replicate 16 3)
       \<lparr>dfi_index_id = 5, dfi_max_sequence = 7, dfi_introducer_device_key = []\<rparr> sample_device (replicate 16 2))) =
     Some (device_prefix # replicate 32 1, folder_prefix # replicate 16 2, replicate 16 3)"
proof -
  have key: "dv_key sample_device = device_prefix # replicate 32 1"
    by (simp add: sample_device_def dv_key_def did_get_key_def new_device_def)
  show ?thesis
    using folder_info_key_roundtrip [OF refl, of sample_device "replicate 16 2" "replicate 16 3"]
    by (simp add: key digest_length_def uuid_length_def)
qed

subsection \<open>Adding files\<close>

text \<open>
  The invariant of a folder info: its files are known under unique identifiers, names and
  sequence numbers, and none is above the maximal sequence number.
\<close>

definition fo_ok :: "store \<Rightarrow> folder_info \<Rightarrow> bool" where
  "fo_ok st fo \<longleftrightarrow> fm_ok (uuid_at st) (name_at st) (seq_at st) (fo_file_infos fo) \<and>
     (\<forall>a \<in> set (fo_file_infos fo). seq_at st a \<le> fo_max_sequence fo)"

lemma fo_ok_distinct: "fo_ok st fo \<Longrightarrow> distinct (fo_file_infos fo)"
  by (auto simp: fo_ok_def fm_ok_def unique_by_def distinct_map)

text \<open>What a put leaves, given that at most one file of the folder is in the way.\<close>

lemma files_put_at_most_one:
  assumes pick: "\<And>xs. xs \<noteq> [] \<Longrightarrow> pick xs \<in> set xs" and ok: "fm_ok (uuid_at st) (name_at st) (seq_at st) m"
    and one: "length (filter (files_agree st a) m) \<le> 1"
  shows "set (fst (fm_put pick (files_agree st) a True m)) = {b \<in> set m. \<not> files_agree st a b} \<union> {a} \<and>
    fm_ok (uuid_at st) (name_at st) (seq_at st) (fst (fm_put pick (files_agree st) a True m))"
proof -
  have d: "distinct m" using ok by (auto simp: fm_ok_def unique_by_def distinct_map)
  note put = file_map_put_eq [of "files_agree st" "uuid_at st" "name_at st" "seq_at st" pick m a, OF _ pick ok d]
  have agree: "\<And>x y. files_agree st x y = fm_agree (uuid_at st) (name_at st) (seq_at st) x y" by (simp add: files_agree_def)
  have dist: "distinct (map k (map (\<lambda>z. if z = y then a else z) m))"
    if "distinct (map k m)" "\<forall>z \<in> set m. z \<noteq> y \<longrightarrow> k a \<noteq> k z" for k :: "addr \<Rightarrow> 'k" and y
    using that by (induction m) (auto simp: image_iff)
  consider "filter (files_agree st a) m = []" | y where "filter (files_agree st a) m = [y]"
    using one by (cases "filter (files_agree st a) m"; cases "tl (filter (files_agree st a) m)") auto
  then show ?thesis
  proof cases
    case 1
    then have free: "\<forall>b \<in> set m. \<not> files_agree st a b" by (simp add: filter_empty_conv)
    then show ?thesis
      using put [OF agree] 1 ok by (auto simp: fm_ok_def unique_by_def files_agree_def fm_agree_def image_iff)
  next
    case (2 y)
    have y: "y \<in> set m" "files_agree st a y" using filter_Cons_mem [OF 2] by auto
    have other: "\<not> files_agree st a b" if "b \<in> set m" "b \<noteq> y" for b
    proof
      assume "files_agree st a b"
      then have "b \<in> set (filter (files_agree st a) m)" using that(1) by simp
      then show False using that(2) unfolding 2 by simp
    qed
    then have keys: "\<forall>z \<in> set m. z \<noteq> y \<longrightarrow> uuid_at st a \<noteq> uuid_at st z"
      "\<forall>z \<in> set m. z \<noteq> y \<longrightarrow> name_at st a \<noteq> name_at st z" "\<forall>z \<in> set m. z \<noteq> y \<longrightarrow> seq_at st a \<noteq> seq_at st z"
      by (auto simp: files_agree_def fm_agree_def)
    have "fm_ok (uuid_at st) (name_at st) (seq_at st) (map (\<lambda>z. if z = y then a else z) m)"
      using dist [of "uuid_at st", OF _ keys(1)] dist [of "name_at st", OF _ keys(2)] dist [of "seq_at st", OF _ keys(3)] ok
      unfolding fm_ok_def unique_by_def by blast
    then show ?thesis using put [OF agree] 2 y other by auto
  qed
qed

text \<open>
  A file received in sequence (\<open>add_strict\<close>) is refused exactly when its number is not above all
  seen so far; otherwise the maximal number advances to it, it replaces the file of
  its name, the others stay, and the folder keeps unique identifiers, names and numbers.
\<close>

theorem add_strict_correct:
  assumes pick: "\<And>xs. xs \<noteq> [] \<Longrightarrow> pick xs \<in> set xs" and ok: "fo_ok st fo"
    and one: "length (filter (files_agree st a) (fo_file_infos fo)) \<le> 1"
  shows "case add_strict pick st a fo of (fo', added) \<Rightarrow>
    (added \<longleftrightarrow> fo_max_sequence fo < seq_at st a) \<and> (\<not> added \<longrightarrow> fo' = fo) \<and>
    (added \<longrightarrow> fo_ok st fo' \<and> fo_max_sequence fo' = seq_at st a \<and> by_name st (name_at st a) fo' = Some a \<and>
       set (fo_file_infos fo') = {b \<in> set (fo_file_infos fo). \<not> files_agree st a b} \<union> {a})"
proof (cases "fo_max_sequence fo < seq_at st a")
  case True
  have m: "fm_ok (uuid_at st) (name_at st) (seq_at st) (fo_file_infos fo)" using ok by (simp add: fo_ok_def)
  note p = files_put_at_most_one [OF pick m one]
  let ?fo = "files_put pick st a (fo\<lparr>fo_max_sequence := seq_at st a\<rparr>)"
  have files: "fo_file_infos ?fo = fst (fm_put pick (files_agree st) a True (fo_file_infos fo))"
    "fo_max_sequence ?fo = seq_at st a" by (simp_all add: files_put_def)
  have "fo_ok st ?fo" unfolding fo_ok_def files using p ok True by (auto simp: fo_ok_def)
  moreover have "by_name st (name_at st a) ?fo = Some a"
    unfolding by_name_def fm_by_def files using p by (intro find_unique_key) (auto simp: fm_ok_def unique_by_def)
  ultimately show ?thesis using True p files by (simp add: add_strict_def)
qed (simp add: add_strict_def)

theorem add_strict_correct_witness:
  "snd (add_strict hd \<lparr>st_files = (\<lambda>_. None)(1 := Some ((blank_file [])\<lparr>fi_name := ''a'', fi_sequence := 4\<rparr>)), st_blocks = (\<lambda>_. None)\<rparr> 1
     (blank_folder_info sample_device [] []))"
proof -
  let ?st = "\<lparr>st_files = (\<lambda>_. None)(1 := Some ((blank_file [])\<lparr>fi_name := ''a'', fi_sequence := 4\<rparr>)), st_blocks = (\<lambda>_. None)\<rparr> :: store"
  let ?fo = "blank_folder_info sample_device [] []"
  have "fo_ok ?st ?fo" by (simp add: fo_ok_def blank_folder_info_def fm_ok_def unique_by_def)
  moreover have "length (filter (files_agree ?st 1) (fo_file_infos ?fo)) \<le> 1" by (simp add: blank_folder_info_def)
  moreover have "fo_max_sequence ?fo < seq_at ?st 1" by (simp add: blank_folder_info_def file_at_def)
  ultimately show ?thesis using add_strict_correct [of hd ?st ?fo 1] by (auto split: prod.splits)
qed

end
