(* ===== verification/Resolver.thy ===== *)
theory Resolver
  imports Folder Path
begin

text \<open>
  Conflict resolution (\<^verbatim>\<open>src/model/misc/resolver.cpp\<close>): what to do with a file of a peer, given the
  local file of the same name, and the name under which the loser of a conflict is kept
  (\<open>make_conflicting_name\<close> of \<^verbatim>\<open>src/model/file_info.cpp\<close>).
\<close>

subsection \<open>Decisions\<close>

datatype advance_action = ignore | remote_copy | local_update | resolve_remote_win

definition compare_by_version :: "file_info \<Rightarrow> file_info \<Rightarrow> advance_action" where
  "compare_by_version remote local =
     (let r_best = get_best (fi_version remote); l_best = get_best (fi_version local);
          rv = counter_value r_best; lv = counter_value l_best;
          r_id = counter_id r_best; l_id = counter_id l_best
      in if r_id = l_id
         then if lv > rv then ignore else if lv < rv then remote_copy else ignore
         else let r_superior = version_contains (fi_version remote) (fi_version local);
                  l_superior = version_contains (fi_version local) (fi_version remote);
                  concurrent = (\<not> r_superior \<and> \<not> l_superior)
              in if concurrent \<and> is_deleted remote then ignore
                 else if concurrent \<and> is_deleted local then remote_copy
                 else if r_superior then remote_copy
                 else if l_superior then ignore
                 else let rm = fi_modified_s remote; lm = fi_modified_s local
                      in if rm > lm then resolve_remote_win
                         else if lm > rm then ignore
                         else if l_id \<le> r_id then resolve_remote_win else ignore)"

definition compare :: "file_info \<Rightarrow> file_info \<Rightarrow> int" where
  "compare file_1 file_2 =
     (if is_deleted file_1 \<and> is_deleted file_2 then 0
      else if compare_by_version file_2 file_1 = ignore then 1 else - 1)"

text \<open>
  The loop over the other devices' views of the folder: a file of the same name elsewhere whose
  version the remote one does not contain stops the advance.
\<close>

fun others_contained :: "store \<Rightarrow> addr \<Rightarrow> folder_info \<Rightarrow> folder_info list \<Rightarrow> bool" where
  "others_contained st remote local_folder [] = True"
| "others_contained st remote local_folder (fo # fos) =
     (if fo = local_folder then others_contained st remote local_folder fos
      else case by_name st (name_at st remote) fo of
             None \<Rightarrow> others_contained st remote local_folder fos
           | Some other \<Rightarrow>
               if other \<noteq> remote \<and> \<not> version_contains (fi_version (file_at st remote)) (fi_version (file_at st other))
               then False else others_contained st remote local_folder fos)"

definition resolve_basic :: "store \<Rightarrow> addr \<Rightarrow> addr option \<Rightarrow> folder_info \<Rightarrow> folder \<Rightarrow> advance_action" where
  "resolve_basic st remote local local_folder fd =
     (let r = file_at st remote
      in if is_unreachable r then ignore
         else if is_invalid r then ignore
         else if \<not> others_contained st remote local_folder (fd_folder_infos fd) then ignore
         else if is_deleted r \<and> dfo_ignore_delete (fd_data fd) then ignore
         else case local of
                None \<Rightarrow> remote_copy
              | Some l \<Rightarrow>
                  if \<not> is_local (file_at st l) then ignore
                  else if is_deleted r \<and> is_deleted (file_at st l) then ignore
                  else compare_by_version r (file_at st l))"

subsection \<open>The name of the conflicting copy\<close>

definition digits :: "nat \<Rightarrow> nat \<Rightarrow> string" where
  "digits n v = map (\<lambda>k. char_of (48 + (v div 10 ^ k) mod 10)) (rev [0..<n])"

text \<open>
  The last dot of a file name, unless it starts the name (or makes it \<open>..\<close>), splits it into stem
  and extension.
\<close>

definition last_dot :: "string \<Rightarrow> nat option" where
  "last_dot name = (if name = ''..'' then None
     else case filter (\<lambda>i. name ! i = CHR ''.'') [1..<length name] of [] \<Rightarrow> None | is \<Rightarrow> Some (last is))"

definition file_stem :: "string \<Rightarrow> string" where
  "file_stem name = (case last_dot name of None \<Rightarrow> name | Some i \<Rightarrow> take i name)"

definition file_extension :: "string \<Rightarrow> string" where
  "file_extension name = (case last_dot name of None \<Rightarrow> [] | Some i \<Rightarrow> drop i name)"

text \<open>
  The modification time in local time is an argument: year, month, day, hours, minutes, seconds
  for a time in seconds since the epoch.
\<close>

type_synonym civil_time = "nat \<times> nat \<times> nat \<times> nat \<times> nat \<times> nat"

definition make_conflicting_name :: "(int \<Rightarrow> civil_time) \<Rightarrow> file_info \<Rightarrow> string" where
  "make_conflicting_name local_time f =
     (let p = make_path (fi_name f); file_name = get_own_name p; parent = get_parent_name p;
          device_short = make_short (counter_id (get_best (fi_version f)))
      in case local_time (fi_modified_s f) of (y, m, d, h, mi, s) \<Rightarrow>
         (let conflicted = file_stem file_name @ ''.sync-conflict-'' @ digits 4 y @ digits 2 m @ digits 2 d @ ''-'' @
                digits 2 h @ digits 2 mi @ digits 2 s @ ''-'' @ device_short @ file_extension file_name
          in if parent = [] then conflicted else parent @ ''/'' @ conflicted))"

definition has_infix :: "string \<Rightarrow> string \<Rightarrow> bool" where
  "has_infix s needle \<longleftrightarrow> (\<exists>i \<in> set [0..<Suc (length s)]. take (length needle) (drop i s) = needle)"

text \<open>What the platform supports, symbolic links and names, are arguments.\<close>

definition resolve ::
  "bool \<Rightarrow> (string \<Rightarrow> bool) \<Rightarrow> (int \<Rightarrow> civil_time) \<Rightarrow> store \<Rightarrow> addr \<Rightarrow> addr option \<Rightarrow> folder_info \<Rightarrow> folder \<Rightarrow> advance_action" where
  "resolve symlinks_supported path_supported local_time st remote local local_folder fd =
     (let r = file_at st remote
      in if is_link r \<and> \<not> is_deleted r \<and> \<not> symlinks_supported then ignore
         else if \<not> path_supported (fi_name r) then ignore
         else let action = resolve_basic st remote local local_folder fd
              in if action = resolve_remote_win
                 then if has_infix (get_own_name (make_path (fi_name r))) ''.sync-conflict-'' then ignore
                      else case local of
                             None \<Rightarrow> action
                           | Some l \<Rightarrow>
                               if by_name st (make_conflicting_name local_time (file_at st l)) local_folder \<noteq> None
                               then ignore else action
                 else action)"

subsection \<open>Two peers agree\<close>

text \<open>A version as it is read from a message: the best counter is one of the greatest.\<close>

definition best_greatest :: "version \<Rightarrow> bool" where
  "best_greatest v \<longleftrightarrow> (\<forall>c \<in> set v. unmark (counter_value c) \<le> counter_value (get_best v))"

lemma contains_loop_le:
  "contains_loop cs b \<Longrightarrow> \<exists>c \<in> set cs. counter_id c = counter_id b \<and> counter_value b \<le> unmark (counter_value c)"
  by (induction cs) (auto split: if_splits)

lemma contains_best_le:
  assumes "best_greatest v" "version_contains v w"
  shows "counter_value (get_best w) \<le> counter_value (get_best v)"
  using contains_loop_le [of v "get_best w"] assms by (force simp: version_contains_def best_greatest_def)

text \<open>
  C24: two peers that hold conflicting versions of a file and each see the other's come to opposite
  decisions: exactly one takes over the other's file. Excluded are two deletions, equal best
  counters, and versions with equal best values that contain each other.
\<close>

theorem exactly_one_advances:
  assumes "best_greatest (fi_version a)" "best_greatest (fi_version b)"
    and "get_best (fi_version a) \<noteq> get_best (fi_version b)" "\<not> (is_deleted a \<and> is_deleted b)"
    and "counter_value (get_best (fi_version a)) \<noteq> counter_value (get_best (fi_version b)) \<or>
      \<not> (version_contains (fi_version a) (fi_version b) \<and> version_contains (fi_version b) (fi_version a))"
  shows "(compare_by_version a b = ignore) \<noteq> (compare_by_version b a = ignore)"
proof -
  have anti: "\<not> (version_contains (fi_version a) (fi_version b) \<and> version_contains (fi_version b) (fi_version a))"
    using contains_best_le [OF assms(1), of "fi_version b"] contains_best_le [OF assms(2), of "fi_version a"] assms(5) by force
  show ?thesis
  proof (cases "counter_id (get_best (fi_version a)) = counter_id (get_best (fi_version b))")
    case True
    then have "counter_value (get_best (fi_version a)) \<noteq> counter_value (get_best (fi_version b))"
      using assms(3) by (metis counter.equality old.unit.exhaust)
    then show ?thesis using True by (auto simp: compare_by_version_def Let_def)
  next
    case False
    then show ?thesis using anti assms(4) by (auto simp: compare_by_version_def Let_def)
  qed
qed

theorem exactly_one_advances_witness:
  "(compare_by_version ((blank_file [])\<lparr>fi_version := [\<lparr>counter_id = 1, counter_value = mark 5\<rparr>], fi_modified_s := 3\<rparr>)
      ((blank_file [])\<lparr>fi_version := [\<lparr>counter_id = 2, counter_value = mark 4\<rparr>], fi_modified_s := 7\<rparr>) = ignore) \<noteq>
   (compare_by_version ((blank_file [])\<lparr>fi_version := [\<lparr>counter_id = 2, counter_value = mark 4\<rparr>], fi_modified_s := 7\<rparr>)
      ((blank_file [])\<lparr>fi_version := [\<lparr>counter_id = 1, counter_value = mark 5\<rparr>], fi_modified_s := 3\<rparr>) = ignore)"
proof (rule exactly_one_advances)
qed code_simp+

subsection \<open>Modifications reach the peers\<close>

lemma less_max_succ:
  assumes "x < (0x7FFFFFFFFFFFFFFF :: u64)"
  shows "x < max (x + 1) y"
proof -
  have "x < x + 1" by (rule succ_above(1) [OF assms])
  then show ?thesis by (simp add: less_max_iff_disj)
qed

text \<open>A file whose version is the update of another's wins over it without a conflict.\<close>

lemma updated_wins:
  assumes "plain v" "version_of_proto v = Some (fi_version old)" "distinct (map counter_id v)"
    and "counter_value (get_best (fi_version old)) < 0x7FFFFFFFFFFFFFFF" "now < 0x8000000000000000"
    and "version_of_proto (to_proto (version_update now dev (fi_version old))) = Some (fi_version new)"
  shows "compare_by_version new old = remote_copy \<and> compare_by_version old new = ignore"
proof -
  obtain m where "get_best (fi_version new) = \<lparr>counter_id = dev, counter_value = m\<rparr>" "counter_value (get_best (fi_version old)) < m"
      "version_contains (fi_version new) (fi_version old)" "\<not> version_contains (fi_version old) (fi_version new)"
    using update_supersedes [OF assms] less_max_succ [OF assms(4)] by blast
  then show ?thesis by (auto simp: compare_by_version_def Let_def)
qed

end
