(* ===== verification/Diff_Chain.thy ===== *)
theory Diff_Chain
  imports Prelude
begin

text \<open>
  Diffs of the cluster as trees (\<^verbatim>\<open>src/model/diff/cluster_diff.cpp\<close>), the assembler that
  chains them and puts an interrupt after every batch (\<^verbatim>\<open>src/model/diff/diff_assembler.cpp\<close>), and
  the controller that applies a chain piece by piece between other messages
  (\<^verbatim>\<open>src/model/diff/iterative_controller.cpp\<close>). A chain is a diff with its siblings; the pointer
  to the first child of a diff is the chain of its children. What a kind of diff does is given
  by a record of steps; the theories of the diffs instantiate it.
\<close>

subsection \<open>Diffs and their application\<close>

datatype 'p diff = Diff (payload: 'p) (children: "'p diff list")

text \<open>\<open>load::interrupt_t\<close> and \<open>load::commit_t\<close> are handled by the controller itself.\<close>

datatype 'a item = interrupt | commit | change 'a

text \<open>
  The parts of \<open>apply_impl\<close>: before the children, after them, and after the siblings; the last
  part runs whatever the siblings returned. A part gives an error or none, and the state. A
  diff that does not apply to the cluster goes to its siblings at once.
\<close>

record ('a, 'c, 'e) steps =
  skips :: "'a \<Rightarrow> 'c \<Rightarrow> bool"
  before_children :: "'a \<Rightarrow> 'c \<Rightarrow> 'e option \<times> 'c"
  after_children :: "'a \<Rightarrow> 'c \<Rightarrow> 'e option \<times> 'c"
  after_siblings :: "'a \<Rightarrow> 'c \<Rightarrow> 'c"
  commit_loading :: "'c \<Rightarrow> 'c"
  mark_tainted :: "'c \<Rightarrow> 'c"

text \<open>The state of an application: the cluster and the chain a later message continues with.\<close>

type_synonym ('a, 'c) apply_state = "'c \<times> 'a item diff list"

definition and_then :: "'e option \<times> 's \<Rightarrow> ('s \<Rightarrow> 'e option \<times> 's) \<Rightarrow> 'e option \<times> 's" where
  "and_then r f = (case r of (None, s) \<Rightarrow> f s | (Some e, s) \<Rightarrow> (Some e, s))"

definition lift :: "('c \<Rightarrow> 'e option \<times> 'c) \<Rightarrow> ('a, 'c) apply_state \<Rightarrow> 'e option \<times> ('a, 'c) apply_state" where
  "lift f s = (case f (fst s) of (e, c) \<Rightarrow> (e, (c, snd s)))"

text \<open>\<open>apply\<close> marks the cluster when \<open>apply_forward\<close> fails, at every level it passes.\<close>

definition tainting :: "('a, 'c, 'e) steps \<Rightarrow> 'e option \<times> ('a, 'c) apply_state \<Rightarrow> 'e option \<times> ('a, 'c) apply_state" where
  "tainting k r = (case r of (None, s) \<Rightarrow> (None, s) | (Some e, s) \<Rightarrow> (Some e, (mark_tainted k (fst s), snd s)))"

text \<open>
  \<open>iterative\<close> selects the controller: the iterative one stops at an interrupt and remembers its
  sibling, and does not go past a commit; for the plain one both are empty diffs.
\<close>

fun apply_chain :: "bool \<Rightarrow> ('a, 'c, 'e) steps \<Rightarrow> 'a item diff list \<Rightarrow> ('a, 'c) apply_state \<Rightarrow> 'e option \<times> ('a, 'c) apply_state" where
  "apply_chain iterative k [] s = (None, s)"
| "apply_chain iterative k (Diff p ch # siblings) s = tainting k
     (case p of
        interrupt \<Rightarrow> if iterative then (None, (fst s, siblings))
                     else and_then (apply_chain iterative k ch s) (apply_chain iterative k siblings)
      | commit \<Rightarrow> if iterative then (None, (commit_loading k (fst s), snd s))
                  else and_then (apply_chain iterative k ch s) (apply_chain iterative k siblings)
      | change a \<Rightarrow>
          if skips k a (fst s) then apply_chain iterative k siblings s else
          and_then (lift (before_children k a) s) (\<lambda>s.
          and_then (apply_chain iterative k ch s) (\<lambda>s.
          and_then (lift (after_children k a) s) (\<lambda>s.
            case apply_chain iterative k siblings s of (r, s) \<Rightarrow> (r, (after_siblings k a (fst s), snd s))))))"

subsection \<open>The assembler\<close>

text \<open>
  The root is the chain; \<open>next\<close> points to one of its diffs, by its index. Appending after a diff
  that has a sibling already violates an assertion.
\<close>

record 'p assembler =
  as_batch_limit :: nat
  as_left :: nat
  as_total :: nat
  as_root :: "'p item diff list"
  as_next :: "nat option"

definition new_assembler :: "nat \<Rightarrow> 'p assembler option" where
  "new_assembler batch_limit = (if 1 < batch_limit
     then Some \<lparr>as_batch_limit = batch_limit, as_left = batch_limit, as_total = 0, as_root = [], as_next = None\<rparr> else None)"

definition assign_sibling :: "'p item diff list \<Rightarrow> 'p assembler \<Rightarrow> 'p assembler option" where
  "assign_sibling diff a = (case as_next a of
       None \<Rightarrow> None
     | Some i \<Rightarrow> if Suc i = length (as_root a)
                 then Some (a\<lparr>as_root := as_root a @ diff, as_next := Some (length (as_root a @ diff) - 1)\<rparr>) else None)"

definition push_back :: "'p item diff list \<Rightarrow> 'p assembler \<Rightarrow> ('p assembler \<times> bool) option" where
  "push_back diff a =
     (let a = a\<lparr>as_left := as_left a - 1, as_total := Suc (as_total a)\<rparr>
      in case (if as_next a \<noteq> None then assign_sibling diff a else Some (a\<lparr>as_root := diff, as_next := Some 0\<rparr>)) of
           None \<Rightarrow> None
         | Some a \<Rightarrow>
             (if as_left a = 0
              then map_option (\<lambda>a. (a\<lparr>as_left := as_batch_limit a\<rparr>, True)) (assign_sibling [Diff interrupt []] a)
              else Some (a, False)))"

text \<open>\<open>push_front\<close>: the new diff becomes the root and the place where the next one is appended.\<close>

definition put_front :: "'p item diff list \<Rightarrow> 'p assembler \<Rightarrow> 'p assembler option" where
  "put_front diff a = (if length diff = 1 then Some (a\<lparr>as_root := diff @ as_root a, as_next := Some 0\<rparr>) else None)"

definition push_front :: "'p item diff list \<Rightarrow> 'p assembler \<Rightarrow> ('p assembler \<times> bool) option" where
  "push_front diff a =
     (let a = a\<lparr>as_left := as_left a - 1, as_total := Suc (as_total a)\<rparr>
      in case (if as_next a \<noteq> None then put_front diff a else Some (a\<lparr>as_root := diff, as_next := Some 0\<rparr>)) of
           None \<Rightarrow> None
         | Some a \<Rightarrow>
             (if as_left a = 0
              then map_option (\<lambda>a. (a\<lparr>as_left := as_batch_limit a\<rparr>, True)) (put_front [Diff interrupt []] a)
              else Some (a, False)))"

definition has_diffs :: "'p assembler \<Rightarrow> bool" where "has_diffs a \<longleftrightarrow> as_root a \<noteq> []"
definition is_overused :: "'p assembler \<Rightarrow> bool" where "is_overused a \<longleftrightarrow> as_batch_limit a \<le> as_total a"

definition consume :: "'p assembler \<Rightarrow> 'p assembler \<times> 'p item diff list" where
  "consume a = (a\<lparr>as_root := [], as_next := None, as_left := as_batch_limit a\<rparr>, as_root a)"

fun push_all :: "'p item diff list \<Rightarrow> 'p assembler \<Rightarrow> 'p assembler option" where
  "push_all [] a = Some a"
| "push_all (d # ds) a = (case push_back [d] a of None \<Rightarrow> None | Some (a, _) \<Rightarrow> push_all ds a)"

subsection \<open>The iterative controller\<close>

text \<open>
  A model update message carries a chain; the message of an interrupt carries the chain that is
  left. A failed application shuts the owner down.
\<close>

record ('a, 'c) controller =
  co_cluster :: 'c
  co_interrupted :: bool
  co_delayed :: "'a item diff list list"
  co_resume :: "'a item diff list option"
  co_operational :: bool

fun find_commit :: "'a item diff list \<Rightarrow> 'a item diff list" where
  "find_commit [] = []"
| "find_commit (d # ds) = (if payload d = commit then d # ds else find_commit ds)"

definition process :: "('a, 'c, 'e) steps \<Rightarrow> 'a item diff list \<Rightarrow> ('a, 'c) controller \<Rightarrow> ('a, 'c) controller" where
  "process k diff s =
     (let target = (if \<not> co_operational s \<and> find_commit diff \<noteq> [] then find_commit diff else diff)
      in case apply_chain True k target (co_cluster s, []) of
           (Some e, (c, _)) \<Rightarrow> s\<lparr>co_cluster := c, co_operational := False\<rparr>
         | (None, (c, left)) \<Rightarrow> s\<lparr>co_cluster := c, co_interrupted := (left \<noteq> []),
             co_resume := (if left \<noteq> [] then Some left else co_resume s)\<rparr>)"

definition on_model_update :: "('a, 'c, 'e) steps \<Rightarrow> 'a item diff list \<Rightarrow> ('a, 'c) controller \<Rightarrow> ('a, 'c) controller" where
  "on_model_update k diff s =
     (if co_interrupted s then s\<lparr>co_delayed := co_delayed s @ [diff]\<rparr> else process k diff s)"

lemma process_delayed [simp]: "co_delayed (process k d s) = co_delayed s"
  by (auto simp: process_def Let_def split: prod.splits option.splits)

text \<open>The loop over the delayed updates: each is processed and then taken off the queue.\<close>

function drain :: "('a, 'c, 'e) steps \<Rightarrow> ('a, 'c) controller \<Rightarrow> ('a, 'c) controller" where
  "drain k s =
     (if \<not> co_interrupted s \<and> co_delayed s \<noteq> []
      then drain k ((process k (hd (co_delayed s)) s)\<lparr>co_delayed := tl (co_delayed s)\<rparr>) else s)"
  by auto
termination
  by (relation "measure (\<lambda>(k, s). length (co_delayed s))") auto

declare drain.simps [simp del]

definition on_model_interrupt :: "('a, 'c, 'e) steps \<Rightarrow> ('a, 'c) controller \<Rightarrow> ('a, 'c) controller option" where
  "on_model_interrupt k s = (case co_resume s of
       None \<Rightarrow> None
     | Some diff \<Rightarrow> Some (drain k (process k diff (s\<lparr>co_resume := None\<rparr>))))"

subsection \<open>What the assembler builds\<close>

text \<open>The chain with an interrupt after every full batch, \<open>left\<close> diffs to go in the current one.\<close>

fun batched :: "nat \<Rightarrow> nat \<Rightarrow> 'p item diff list \<Rightarrow> 'p item diff list" where
  "batched limit left [] = []"
| "batched limit left (d # ds) =
     (if left \<le> 1 then d # Diff interrupt [] # batched limit limit ds else d # batched limit (left - 1) ds)"

definition as_ok :: "'p assembler \<Rightarrow> bool" where
  "as_ok a \<longleftrightarrow> 1 < as_batch_limit a \<and> 0 < as_left a \<and>
     as_next a = (if as_root a = [] then None else Some (length (as_root a) - 1))"

lemma push_back_ok:
  assumes "as_ok a"
  shows "\<exists>a' b. push_back [d] a = Some (a', b) \<and> as_ok a' \<and> as_batch_limit a' = as_batch_limit a \<and>
    as_left a' = (if as_left a \<le> 1 then as_batch_limit a else as_left a - 1) \<and>
    as_root a' = as_root a @ d # (if as_left a \<le> 1 then [Diff interrupt []] else [])"
  using assms by (auto simp: push_back_def as_ok_def Let_def assign_sibling_def Suc_le_eq)

lemma push_all_ok:
  assumes "as_ok a"
  shows "\<exists>a'. push_all ds a = Some a' \<and> as_root a' = as_root a @ batched (as_batch_limit a) (as_left a) ds"
  using assms
proof (induction ds arbitrary: a)
  case (Cons d ds)
  obtain a' b where a': "push_back [d] a = Some (a', b)" "as_ok a'" "as_batch_limit a' = as_batch_limit a"
      "as_left a' = (if as_left a \<le> 1 then as_batch_limit a else as_left a - 1)"
      "as_root a' = as_root a @ d # (if as_left a \<le> 1 then [Diff interrupt []] else [])"
    using push_back_ok [OF Cons.prems] by blast
  show ?case using Cons.IH [OF a'(2)] a' by auto
qed simp

lemma batched_diffs:
  "(\<And>d. d \<in> set ds \<Longrightarrow> payload d \<noteq> interrupt) \<Longrightarrow> filter (\<lambda>d. payload d \<noteq> interrupt) (batched limit left ds) = ds"
  by (induction limit left ds rule: batched.induct) auto

text \<open>
  Pushing diffs to the back of a fresh assembler never violates its assertion and gives
  exactly these diffs in order, with an interrupt after every batch.
\<close>

theorem assembler_batches:
  assumes "new_assembler limit = Some a" "\<And>d. d \<in> set ds \<Longrightarrow> payload d \<noteq> interrupt"
  shows "\<exists>a'. push_all ds a = Some a' \<and> snd (consume a') = batched limit limit ds \<and>
    filter (\<lambda>d. payload d \<noteq> interrupt) (snd (consume a')) = ds"
proof -
  have a: "as_ok a" "as_batch_limit a = limit" "as_left a = limit" "as_root a = []"
    using assms(1) by (auto simp: new_assembler_def as_ok_def split: if_splits)
  show ?thesis using push_all_ok [OF a(1), of ds] batched_diffs [OF assms(2)] a by (auto simp: consume_def)
qed

theorem assembler_batches_witness:
  "\<exists>a'. push_all [Diff (change 1) [], Diff (change 2) [], Diff (change (3::nat)) []] (the (new_assembler 2)) = Some a' \<and>
     map payload (snd (consume a')) = [change 1, change 2, interrupt, change 3]"
proof -
  let ?ds = "[Diff (change 1) [], Diff (change 2) [], Diff (change (3::nat)) []]"
  have "new_assembler 2 = Some (the (new_assembler 2 :: nat assembler option))" by (simp add: new_assembler_def)
  moreover have "d \<in> set ?ds \<Longrightarrow> payload d \<noteq> interrupt" for d by auto
  ultimately show ?thesis using assembler_batches [of 2 "the (new_assembler 2)" ?ds] by fastforce
qed

text \<open>
  After a diff was put to the front of a non-empty chain, the assembler cannot take another
  diff at the back: its place to append is the new front, which has a sibling.
\<close>

theorem push_front_blocks_push_back:
  assumes "as_next a \<noteq> None" "as_root a \<noteq> []" "push_front d a = Some (a', b)"
  shows "push_back e a' = None"
  using assms by (auto simp: push_front_def push_back_def put_front_def assign_sibling_def Let_def split: if_splits)

theorem push_front_blocks_push_back_witness:
  "push_back [Diff (change 3) []] (fst (the (push_front [Diff (change 2) []]
     (fst (the (push_back [Diff (change (1::nat)) []] (the (new_assembler 256)))))))) = None"
proof -
  let ?a = "fst (the (push_back [Diff (change (1::nat)) []] (the (new_assembler 256))))"
  have "as_next ?a \<noteq> None" "as_root ?a \<noteq> []" by (simp_all add: new_assembler_def push_back_def Let_def)
  moreover have "push_front [Diff (change 2) []] ?a \<noteq> None"
    by (simp add: new_assembler_def push_back_def push_front_def put_front_def Let_def)
  then have "push_front [Diff (change 2) []] ?a = Some (fst (the (push_front [Diff (change 2) []] ?a)), snd (the (push_front [Diff (change 2) []] ?a)))"
    by auto
  ultimately show ?thesis by (rule push_front_blocks_push_back)
qed

subsection \<open>Interrupted application\<close>

text \<open>What is left over is the part of a chain behind one of its interrupts, hence smaller.\<close>

lemma apply_chain_left:
  "snd (snd (apply_chain True k ds s)) = snd s \<or> size_list size (snd (snd (apply_chain True k ds s))) < size_list size ds"
proof (induction True k ds s rule: apply_chain.induct)
  case (2 k p ch siblings s)
  have taint: "snd (snd (tainting k r)) = snd (snd r)" for r :: "'c option \<times> ('a, 'b) apply_state"
    by (cases r) (auto simp: tainting_def split: option.splits)
  show ?case
  proof (cases p)
    case interrupt
    then show ?thesis by (simp add: taint)
  next
    case commit
    then show ?thesis by (simp add: taint)
  next
    case (change a)
    show ?thesis
    proof (cases "skips k a (fst s)")
      case True
      then show ?thesis using 2(5) [OF change True] change by (auto simp: taint)
    next
      case False
      obtain e1 s1 where r1: "lift (before_children k a) s = (e1, s1)" by (cases "lift (before_children k a) s")
      obtain e2 s2 where r2: "apply_chain True k ch s1 = (e2, s2)" by (cases "apply_chain True k ch s1")
      obtain e3 s3 where r3: "lift (after_children k a) s2 = (e3, s3)" by (cases "lift (after_children k a) s2")
      obtain e4 s4 where r4: "apply_chain True k siblings s3 = (e4, s4)" by (cases "apply_chain True k siblings s3")
      have "snd s1 = snd s" "snd s3 = snd s2" using r1 r3 by (auto simp: lift_def split: prod.splits)
      moreover have "snd s2 = snd s1 \<or> size_list size (snd s2) < size_list size ch" if "e1 = None"
        using 2(6) [OF change False, of s1] r2 by simp
      moreover have "snd s4 = snd s3 \<or> size_list size (snd s4) < size_list size siblings" if "e3 = None"
        using 2(7) [OF change False, of s3] r4 by simp
      ultimately show ?thesis using change False r1 r2 r3 r4
        by (cases e1; cases e2; cases e3) (auto simp: taint and_then_def)
    qed
  qed
qed simp

text \<open>A chain applied piece by piece: after each interrupt the rest, in a message of its own.\<close>

function run_pieces :: "('a, 'c, 'e) steps \<Rightarrow> 'a item diff list \<Rightarrow> 'c \<Rightarrow> 'e option \<times> 'c" where
  "run_pieces k ds c = (case apply_chain True k ds (c, []) of
       (Some e, s) \<Rightarrow> (Some e, fst s)
     | (None, s) \<Rightarrow> if snd s = [] then (None, fst s) else run_pieces k (snd s) (fst s))"
  by auto
termination
proof (relation "measure (\<lambda>(k, ds, c). size_list size ds)", goal_cases)
  case (2 k ds c e s)
  then have "apply_chain True k ds (c, []) = (e, s)" by simp
  then show ?case using apply_chain_left [of k ds "(c, [])"] 2(3) by simp
qed simp

declare run_pieces.simps [simp del]

text \<open>The same chain applied at once.\<close>

definition run_whole :: "('a, 'c, 'e) steps \<Rightarrow> 'a item diff list \<Rightarrow> 'c \<Rightarrow> 'e option \<times> 'c" where
  "run_whole k ds c = (case apply_chain False k ds (c, []) of (r, s) \<Rightarrow> (r, fst s))"

text \<open>Diffs with neither interrupts nor commits inside.\<close>

fun unbroken :: "'a item diff \<Rightarrow> bool" where
  "unbroken (Diff p ch) \<longleftrightarrow> p \<noteq> interrupt \<and> p \<noteq> commit \<and> list_all unbroken ch"

text \<open>
  Chains with interrupts only between the diffs and not among their children, and without
  diffs that do something after their siblings.
\<close>

definition flat :: "('a, 'c, 'e) steps \<Rightarrow> 'a item diff list \<Rightarrow> bool" where
  "flat k ds \<longleftrightarrow> (\<forall>d \<in> set ds. d = Diff interrupt [] \<or>
     (unbroken d \<and> (\<forall>a c. payload d = change a \<longrightarrow> after_siblings k a c = c)))"

definition idempotent :: "('a, 'c, 'e) steps \<Rightarrow> bool" where
  "idempotent k \<longleftrightarrow> (\<forall>c. mark_tainted k (mark_tainted k c) = mark_tainted k c)"

lemma lift_left: "snd (snd (lift f s)) = snd s"
  by (auto simp: lift_def split: prod.splits)

lemma tainting_left: "snd (snd (tainting k r)) = snd (snd r)"
  by (cases r) (auto simp: tainting_def split: option.splits)

lemma and_then_left:
  "(\<And>s. snd (snd (f s)) = snd s) \<Longrightarrow> snd (snd (and_then r f)) = snd (snd r)"
  by (cases r) (auto simp: and_then_def split: option.splits)

lemma unbroken_same:
  "list_all unbroken ds \<Longrightarrow> apply_chain True k ds s = apply_chain False k ds s \<and> snd (snd (apply_chain False k ds s)) = snd s"
proof (induction False k ds s rule: apply_chain.induct)
  case (2 k p ch siblings s)
  then obtain a where p: "p = change a" by (cases p) auto
  have pl: "list_all unbroken ch" "list_all unbroken siblings" using "2.prems" by simp_all
  show ?case
  proof (cases "skips k a (fst s)")
    case True
    then show ?thesis using 2(5) [OF p True pl(2)] p by (simp add: tainting_left)
  next
    case False
  have ch: "apply_chain True k ch t = apply_chain False k ch t \<and> snd (snd (apply_chain False k ch t)) = snd t" for t
    using 2(6) [OF p False pl(1), of t] .
  have si: "apply_chain True k siblings t = apply_chain False k siblings t \<and> snd (snd (apply_chain False k siblings t)) = snd t" for t
    using 2(7) [OF p False pl(2), of t] .
  have eq: "apply_chain True k ch = apply_chain False k ch" "apply_chain True k siblings = apply_chain False k siblings"
    using ch si by auto
  define f4 where "f4 = (\<lambda>s. case apply_chain False k siblings s of (r, s) \<Rightarrow> (r, (after_siblings k a (fst s), snd s)))"
  have "snd (snd (f4 t)) = snd t" for t using si [of t] by (auto simp: f4_def split: prod.splits)
  then have "snd (snd (and_then (lift (after_children k a) t) f4)) = snd t" for t by (simp add: and_then_left lift_left)
  then have "snd (snd (and_then (apply_chain False k ch t) (\<lambda>s. and_then (lift (after_children k a) s) f4))) = snd t" for t
    using ch by (simp add: and_then_left)
  then show ?thesis unfolding p apply_chain.simps item.case eq f4_def [symmetric]
    using False by (simp add: tainting_left and_then_left lift_left)
  qed
qed simp

text \<open>One diff of a flat chain: its own steps around its children.\<close>

definition one_diff :: "('a, 'c, 'e) steps \<Rightarrow> 'a item diff \<Rightarrow> ('a, 'c) apply_state \<Rightarrow> 'e option \<times> ('a, 'c) apply_state" where
  "one_diff k d s = tainting k (case payload d of change a \<Rightarrow>
       if skips k a (fst s) then (None, s) else
       and_then (lift (before_children k a) s) (\<lambda>s.
       and_then (apply_chain False k (children d) s) (lift (after_children k a)))
     | _ \<Rightarrow> (None, s))"

lemma tainting_and_then:
  "tainting k (and_then r f) = and_then (tainting k r) (\<lambda>s. tainting k (f s))"
  by (cases r) (auto simp: and_then_def tainting_def split: option.splits)

lemma and_then_assoc: "and_then (and_then r f) g = and_then r (\<lambda>s. and_then (f s) g)"
  by (cases r) (auto simp: and_then_def split: option.splits)

lemma tainting_apply_chain: "idempotent k \<Longrightarrow> tainting k (apply_chain b k ds s) = apply_chain b k ds s"
proof -
  assume "idempotent k"
  then have "tainting k (tainting k r) = tainting k r" for r :: "'c option \<times> ('a, 'b) apply_state"
    by (cases r) (auto simp: tainting_def idempotent_def split: option.splits)
  then show ?thesis by (cases ds; cases "hd ds") (auto simp: tainting_def)
qed

lemma flat_Cons:
  assumes "flat k (d # ds)" "idempotent k" "d \<noteq> Diff interrupt []"
  shows "apply_chain b k (d # ds) s = and_then (one_diff k d s) (apply_chain b k ds)"
proof -
  obtain p ch where d: "d = Diff p ch" by (cases d)
  then obtain a where p: "p = change a" and pl: "list_all unbroken ch" and quiet: "\<And>c. after_siblings k a c = c"
    using assms(1,3) by (cases p) (auto simp: flat_def)
  have eq: "apply_chain b k ch = apply_chain False k ch" using unbroken_same [OF pl, of k] by (cases b) (auto intro!: ext)
  have q: "(\<lambda>s. case apply_chain b k ds s of (r, s) \<Rightarrow> (r, (after_siblings k a (fst s), snd s))) = apply_chain b k ds"
    by (simp add: quiet)
  have none: "and_then (tainting k (None, s)) f = f s" for f :: "_ \<Rightarrow> 'c option \<times> _"
    by (simp add: and_then_def tainting_def)
  show ?thesis unfolding d p apply_chain.simps item.case eq one_diff_def diff.sel q
    by (simp add: tainting_and_then and_then_assoc tainting_apply_chain [OF assms(2)] none)
qed

lemma one_diff_left: "unbroken d \<Longrightarrow> snd (snd (one_diff k d s)) = snd s"
  using unbroken_same [of "children d" k]
  by (cases d; cases "payload d") (simp_all add: one_diff_def tainting_left and_then_left lift_left)

lemma flat_tl: "flat k (d # ds) \<Longrightarrow> flat k ds"
  by (simp add: flat_def)

lemma run_whole_Cons:
  assumes "flat k (d # ds)" "idempotent k"
  shows "run_whole k (d # ds) c =
    (if d = Diff interrupt [] then run_whole k ds c
     else case one_diff k d (c, []) of (Some e, s) \<Rightarrow> (Some e, fst s) | (None, s) \<Rightarrow> run_whole k ds (fst s))"
proof (cases "d = Diff interrupt []")
  case True
  then show ?thesis by (simp add: run_whole_def and_then_def tainting_apply_chain [OF assms(2)])
next
  case False
  obtain e s where r: "one_diff k d (c, []) = (e, s)" by (cases "one_diff k d (c, [])")
  have "snd s = []" using one_diff_left [of d k "(c, [])"] assms(1) False r by (auto simp: flat_def)
  then show ?thesis using False r flat_Cons [OF assms False, of False "(c, [])"]
    by (cases e; cases s) (auto simp: run_whole_def and_then_def)
qed

lemma run_pieces_Nil: "run_pieces k [] c = (None, c)"
  by (simp add: run_pieces.simps)

lemma run_pieces_Cons:
  assumes "flat k (d # ds)" "idempotent k"
  shows "run_pieces k (d # ds) c =
    (if d = Diff interrupt [] then run_pieces k ds c
     else case one_diff k d (c, []) of (Some e, s) \<Rightarrow> (Some e, fst s) | (None, s) \<Rightarrow> run_pieces k ds (fst s))"
proof (cases "d = Diff interrupt []")
  case True
  have "run_pieces k (Diff interrupt [] # ds) c = run_pieces k ds c"
    by (subst run_pieces.simps) (simp add: tainting_def run_pieces_Nil)
  then show ?thesis using True by simp
next
  case False
  obtain e s where r: "one_diff k d (c, []) = (e, s)" by (cases "one_diff k d (c, [])")
  have "snd s = []" using one_diff_left [of d k "(c, [])"] assms(1) False r by (auto simp: flat_def)
  then show ?thesis using False r
    unfolding run_pieces.simps [of k "d # ds"] flat_Cons [OF assms False, of True "(c, [])"]
    by (cases e; cases s) (auto simp: and_then_def run_pieces.simps [of k ds])
qed

lemma pieces_whole:
  assumes "flat k ds" "idempotent k"
  shows "run_pieces k ds c = run_whole k ds c"
  using assms
proof (induction ds arbitrary: c)
  case Nil
  then show ?case by (simp add: run_pieces_Nil run_whole_def)
next
  case (Cons d ds)
  then show ?case
    unfolding run_pieces_Cons [OF Cons.prems] run_whole_Cons [OF Cons.prems] using flat_tl [OF Cons.prems(1)]
    by (auto split: prod.splits option.splits)
qed

text \<open>
  C35: interrupting the application of a chain between its diffs changes nothing: the pieces one
  after the other give the cluster and the error that the chain gives at once.
\<close>

theorem interruption_transparent:
  assumes "flat k ds" "idempotent k"
  shows "run_pieces k ds c = run_whole k ds c"
  using assms by (rule pieces_whole)

text \<open>A cluster of numbers with the diffs that append one, and fail on zero.\<close>

definition sample_steps :: "(nat, nat list \<times> bool, unit) steps" where
  "sample_steps = \<lparr>skips = (\<lambda>a c. False), before_children = (\<lambda>a c. (None, c)),
     after_children = (\<lambda>a c. if a = 0 then (Some (), c) else (None, (fst c @ [a], snd c))),
     after_siblings = (\<lambda>a c. c), commit_loading = (\<lambda>c. c), mark_tainted = (\<lambda>c. (fst c, True))\<rparr>"

theorem interruption_transparent_witness:
  "run_pieces sample_steps [Diff (change 1) [], Diff interrupt [], Diff (change 2) [Diff (change 3) []]] ([], False) =
     (None, ([1, 3, 2], False))"
proof -
  let ?ds = "[Diff (change 1) [], Diff interrupt [], Diff (change 2) [Diff (change (3::nat)) []]]"
  have "flat sample_steps ?ds" "idempotent sample_steps"
    by (simp_all add: flat_def idempotent_def sample_steps_def)
  then have "run_pieces sample_steps ?ds ([], False) = run_whole sample_steps ?ds ([], False)"
    by (rule interruption_transparent)
  also have "\<dots> = (None, ([1, 3, 2], False))"
    by (simp add: run_whole_def sample_steps_def tainting_def and_then_def lift_def)
  finally show ?thesis .
qed

text \<open>
  An interrupt among the children of a diff breaks this: the diff takes its own step before
  its remaining children are applied, and when the chain of its siblings is interrupted too, the
  remaining children are never applied.
\<close>

theorem nested_interrupt_loses:
  "run_whole sample_steps [Diff (change 1) [Diff (change 2) [], Diff interrupt [], Diff (change 3) []]] ([], False) =
     (None, ([2, 3, 1], False)) \<and>
   run_pieces sample_steps [Diff (change 1) [Diff (change 2) [], Diff interrupt [], Diff (change 3) []]] ([], False) =
     (None, ([2, 1, 3], False)) \<and>
   run_pieces sample_steps [Diff (change 1) [Diff (change 2) [], Diff interrupt [], Diff (change 3) []],
       Diff interrupt [], Diff (change 4) []] ([], False) =
     (None, ([2, 1, 4], False))"
proof (intro conjI)
qed (simp_all add: run_whole_def run_pieces.simps sample_steps_def tainting_def and_then_def lift_def)

subsection \<open>The controller between messages\<close>

fun run_seq :: "('a, 'c, 'e) steps \<Rightarrow> 'a item diff list list \<Rightarrow> 'c \<Rightarrow> 'e option \<times> 'c" where
  "run_seq k [] c = (None, c)"
| "run_seq k (ds # dss) c = and_then (run_whole k ds c) (run_seq k dss)"

text \<open>The states of a controller and the chains that arrived so far, from a given cluster.\<close>

inductive controller_reaches :: "('a, 'c, 'e) steps \<Rightarrow> 'c \<Rightarrow> 'a item diff list list \<Rightarrow> ('a, 'c) controller \<Rightarrow> bool"
  for k c0 where
  start: "controller_reaches k c0 []
    \<lparr>co_cluster = c0, co_interrupted = False, co_delayed = [], co_resume = None, co_operational = True\<rparr>"
| update: "controller_reaches k c0 arrived s \<Longrightarrow> controller_reaches k c0 (arrived @ [ds]) (on_model_update k ds s)"
| resume: "controller_reaches k c0 arrived s \<Longrightarrow> on_model_interrupt k s = Some s' \<Longrightarrow> controller_reaches k c0 arrived s'"

inductive_cases controller_reachesE: "controller_reaches k c0 arrived s"

text \<open>What is still to be applied: the rest of the interrupted chain and the delayed updates.\<close>

definition pending :: "('a, 'c) controller \<Rightarrow> 'a item diff list list" where
  "pending s = (case co_resume s of None \<Rightarrow> [] | Some ds \<Rightarrow> [ds]) @ co_delayed s"

definition co_ok :: "('a, 'c, 'e) steps \<Rightarrow> ('a, 'c) controller \<Rightarrow> bool" where
  "co_ok k s \<longleftrightarrow> co_interrupted s = (co_resume s \<noteq> None) \<and> (\<forall>ds \<in> set (pending s). flat k ds)"

lemma run_seq_append: "run_seq k (xs @ ys) c = and_then (run_seq k xs c) (run_seq k ys)"
  by (induction xs arbitrary: c) (auto simp: and_then_def split: prod.splits option.splits)

lemma run_seq_Cons_idle: "run_seq k [ds] c = run_whole k ds c"
  by (cases "run_whole k ds c") (auto simp: and_then_def split: option.splits)

lemma flat_left:
  "flat k ds \<Longrightarrow> idempotent k \<Longrightarrow> flat k (snd s) \<Longrightarrow> flat k (snd (snd (apply_chain True k ds s)))"
proof (induction ds arbitrary: s)
  case (Cons d ds)
  note tl = flat_tl [OF Cons.prems(1)]
  show ?case
  proof (cases "d = Diff interrupt []")
    case True
    then show ?thesis using tl by (simp add: tainting_def)
  next
    case False
    obtain e t where r: "one_diff k d s = (e, t)" by (cases "one_diff k d s")
    have "snd t = snd s" using one_diff_left [of d k s] Cons.prems(1) False r by (auto simp: flat_def)
    then show ?thesis using Cons.IH [OF tl Cons.prems(2), of t] Cons.prems(3) r
      by (simp add: flat_Cons [OF Cons.prems(1,2) False] and_then_def split: option.splits)
  qed
qed simp

text \<open>Processing a chain, in terms of the chain applied at once.\<close>

lemma process_spec:
  assumes "flat k ds" "idempotent k" "co_operational s" "co_resume s = None" and s': "s' = process k ds s" and op: "co_operational s'"
  shows "run_whole k ds (co_cluster s) = run_seq k (case co_resume s' of None \<Rightarrow> [] | Some l \<Rightarrow> [l]) (co_cluster s') \<and>
    co_interrupted s' = (co_resume s' \<noteq> None) \<and> (\<forall>l. co_resume s' = Some l \<longrightarrow> flat k l)"
proof -
  obtain e c l where r: "apply_chain True k ds (co_cluster s, []) = (e, (c, l))"
    by (cases "apply_chain True k ds (co_cluster s, [])") auto
  have e: "e = None" using op assms(3) r unfolding s' process_def by (auto simp: Let_def split: option.splits)
  have fl: "flat k l" using flat_left [OF assms(1,2), of "(co_cluster s, [])"] r by (simp add: flat_def)
  have st: "co_cluster s' = c" "co_interrupted s' = (l \<noteq> [])" "co_resume s' = (if l \<noteq> [] then Some l else None)"
    using r e assms(3,4) unfolding s' process_def by (simp_all add: Let_def)
  have "run_whole k ds (co_cluster s) = run_pieces k ds (co_cluster s)" using pieces_whole [OF assms(1,2)] by simp
  also have "\<dots> = (if l = [] then (None, c) else run_pieces k l c)"
    unfolding run_pieces.simps [of k ds] using r e by simp
  also have "\<dots> = run_seq k (case co_resume s' of None \<Rightarrow> [] | Some l \<Rightarrow> [l]) (co_cluster s')"
    using st pieces_whole [OF fl assms(2)] by (simp add: run_seq_Cons_idle del: run_seq.simps(2))
  finally show ?thesis using st fl by auto
qed

lemma process_operational: "co_operational (process k ds s) \<Longrightarrow> co_operational s"
  by (auto simp: process_def Let_def split: prod.splits option.splits)

lemma drain_operational: "co_operational (drain k s) \<Longrightarrow> co_operational s"
proof (induction k s rule: drain.induct)
  case (1 k s)
  show ?case
  proof (cases "\<not> co_interrupted s \<and> co_delayed s \<noteq> []")
    case True
    let ?s = "(process k (hd (co_delayed s)) s)\<lparr>co_delayed := tl (co_delayed s)\<rparr>"
    have "co_operational ?s" using 1 True by (simp add: drain.simps [of k s])
    then show ?thesis by (auto dest: process_operational)
  next
    case False
    then show ?thesis using 1(2) by (auto simp: drain.simps [of k s] split: if_splits)
  qed
qed

lemma drain_spec:
  assumes "co_ok k s" "idempotent k" "co_operational (drain k s)"
  shows "run_seq k (pending s) (co_cluster s) = run_seq k (pending (drain k s)) (co_cluster (drain k s)) \<and>
    co_ok k (drain k s) \<and> (\<not> co_interrupted (drain k s) \<longrightarrow> co_delayed (drain k s) = [])"
  using assms
proof (induction k s rule: drain.induct)
  case (1 k s)
  show ?case
  proof (cases "\<not> co_interrupted s \<and> co_delayed s \<noteq> []")
    case True
    then obtain d dd where dl: "co_delayed s = d # dd" by (cases "co_delayed s") auto
    have no: "co_resume s = None" and fl: "flat k d" "\<forall>x \<in> set dd. flat k x"
      using True "1.prems"(1) dl by (auto simp: co_ok_def pending_def)
    let ?p = "process k d s" let ?s = "?p\<lparr>co_delayed := dd\<rparr>"
    have dr: "drain k s = drain k ?s" using True dl by (simp add: drain.simps [of k s])
    have op: "co_operational ?p" using drain_operational [of k ?s] "1.prems"(3) dr by simp
    note sp = process_spec [OF fl(1) "1.prems"(2) process_operational [OF op] no refl op]
    have ok: "co_ok k ?s" using sp fl by (auto simp: co_ok_def pending_def split: option.splits)
    have "run_seq k (pending s) (co_cluster s) = run_seq k (pending ?s) (co_cluster ?s)"
      using sp no dl by (simp add: pending_def run_seq_append)
    then show ?thesis using "1.IH" [OF True] ok "1.prems" dl dr by simp
  next
    case False
    then show ?thesis using "1.prems" by (auto simp: drain.simps [of k s])
  qed
qed

lemma controller_invariant:
  assumes "controller_reaches k c0 arrived s" "idempotent k" "\<forall>ds \<in> set arrived. flat k ds" "co_operational s"
  shows "run_seq k arrived c0 = run_seq k (pending s) (co_cluster s) \<and> co_ok k s \<and>
    (\<not> co_interrupted s \<longrightarrow> co_delayed s = [])"
  using assms
proof (induction rule: controller_reaches.induct)
  case start
  then show ?case by (simp add: pending_def co_ok_def)
next
  case (update arrived s ds)
  have op: "co_operational s" using update.prems(3) by (auto simp: on_model_update_def split: if_splits dest: process_operational)
  then have ih: "run_seq k arrived c0 = run_seq k (pending s) (co_cluster s)" "co_ok k s"
      "\<not> co_interrupted s \<longrightarrow> co_delayed s = []"
    using update.IH update.prems by auto
  have fl: "flat k ds" using update.prems(2) by simp
  show ?case
  proof (cases "co_interrupted s")
    case True
    then have p: "pending (on_model_update k ds s) = pending s @ [ds]" "co_cluster (on_model_update k ds s) = co_cluster s"
        "co_resume (on_model_update k ds s) = co_resume s" "co_interrupted (on_model_update k ds s)"
      by (simp_all add: on_model_update_def pending_def)
    then show ?thesis using ih fl True by (auto simp: run_seq_append co_ok_def)
  next
    case False
    then have no: "co_resume s = None" "co_delayed s = []" using ih by (auto simp: co_ok_def)
    have p: "on_model_update k ds s = process k ds s" using False by (simp add: on_model_update_def)
    have op': "co_operational (process k ds s)" using update.prems(3) p by simp
    note sp = process_spec [OF fl update.prems(1) op no(1) refl op']
    show ?thesis unfolding p using sp ih no
      by (auto simp: run_seq_append pending_def co_ok_def run_seq_Cons_idle and_then_def simp del: run_seq.simps(2) split: option.splits)
  qed
next
  case (resume arrived s s')
  then obtain ds where ds: "co_resume s = Some ds" and s': "s' = drain k (process k ds (s\<lparr>co_resume := None\<rparr>))"
    by (auto simp: on_model_interrupt_def split: option.splits)
  let ?t = "s\<lparr>co_resume := None\<rparr>" let ?p = "process k ds ?t"
  have op: "co_operational ?p" "co_operational ?t"
    using drain_operational resume.prems(3) process_operational s' by metis+
  then have ih: "run_seq k arrived c0 = run_seq k (pending s) (co_cluster s)" "co_ok k s"
    using resume.IH resume.prems by auto
  have fl: "flat k ds" "\<forall>x \<in> set (co_delayed s). flat k x" using ih(2) ds by (auto simp: co_ok_def pending_def)
  have no: "co_resume ?t = None" by simp
  note sp = process_spec [OF fl(1) resume.prems(1) op(2) no refl op(1)]
  have ok: "co_ok k ?p" using sp fl by (auto simp: co_ok_def pending_def split: option.splits)
  have "run_seq k (pending s) (co_cluster s) = run_seq k (pending ?p) (co_cluster ?p)"
    using sp ds by (simp add: pending_def run_seq_append)
  then show ?case using drain_spec [OF ok resume.prems(1)] ih resume.prems(3) s' by simp
qed



subsection \<open>Every interrupted chain comes to its end\<close>

text \<open>The size of what is still to be applied.\<close>

definition backlog :: "('a, 'c) controller \<Rightarrow> nat" where
  "backlog s = sum_list (map (\<lambda>ds. Suc (size_list size ds)) (pending s))"

lemma process_backlog:
  assumes "co_resume s = None"
  shows "(case co_resume (process k ds s) of None \<Rightarrow> 0 | Some left \<Rightarrow> Suc (size_list size left)) \<le> size_list size ds"
proof -
  have commit_smaller: "size_list size (find_commit ds) \<le> size_list size ds" by (induction ds) auto
  let ?target = "if \<not> co_operational s \<and> find_commit ds \<noteq> [] then find_commit ds else ds"
  have "snd (snd (apply_chain True k ?target (co_cluster s, []))) = [] \<or>
      size_list size (snd (snd (apply_chain True k ?target (co_cluster s, [])))) < size_list size ?target"
    using apply_chain_left [of k ?target "(co_cluster s, [])"] by simp
  moreover have "size_list size ?target \<le> size_list size ds" using commit_smaller by simp
  ultimately show ?thesis using assms by (auto simp: process_def Let_def split: prod.splits option.splits)
qed

lemma drain_backlog:
  "co_resume s = None \<Longrightarrow> backlog (drain k s) \<le> backlog s"
proof (induction k s rule: drain.induct)
  case (1 k s)
  show ?case
  proof (cases "\<not> co_interrupted s \<and> co_delayed s \<noteq> []")
    case True
    let ?s = "(process k (hd (co_delayed s)) s)\<lparr>co_delayed := tl (co_delayed s)\<rparr>"
    have d: "drain k s = drain k ?s" by (subst drain.simps) (simp add: True)
    have b: "backlog ?s \<le> backlog s"
      using process_backlog [OF "1.prems", of k "hd (co_delayed s)"] "1.prems" True
      by (cases "co_delayed s") (auto simp: backlog_def pending_def split: option.splits)
    show ?thesis
    proof (cases "co_resume ?s")
      case None
      then show ?thesis using "1.IH" [OF True None] b d by simp
    next
      case (Some left)
      then have "co_interrupted ?s"
        using "1.prems" by (auto simp: process_def Let_def split: prod.splits option.splits if_splits)
      then have "drain k ?s = ?s" by (subst drain.simps) simp
      then show ?thesis using b d by simp
    qed
  next
    case False
    then show ?thesis by (subst drain.simps) auto
  qed
qed

lemma interrupt_backlog: "on_model_interrupt k s = Some s' \<Longrightarrow> backlog s' < backlog s"
proof -
  assume s': "on_model_interrupt k s = Some s'"
  then obtain ds where ds: "co_resume s = Some ds" by (auto simp: on_model_interrupt_def split: option.splits)
  let ?p = "process k ds (s\<lparr>co_resume := None\<rparr>)"
  have r: "s' = drain k ?p" using s' ds by (simp add: on_model_interrupt_def)
  have p: "backlog ?p < backlog s"
    using process_backlog [of "s\<lparr>co_resume := None\<rparr>" k ds] ds by (auto simp: backlog_def pending_def split: option.splits)
  show "backlog s' < backlog s"
  proof (cases "co_resume ?p")
    case None
    then show ?thesis using drain_backlog [OF None, of k] p r by simp
  next
    case (Some left)
    then have "co_interrupted ?p" by (auto simp: process_def Let_def split: prod.splits option.splits if_splits)
    then have "drain k ?p = ?p" by (subst drain.simps) simp
    then show ?thesis using p r by simp
  qed
qed

lemma resumed: "\<exists>s'. (\<lambda>s t. on_model_interrupt k s = Some t)\<^sup>*\<^sup>* s s' \<and> co_resume s' = None"
proof (induction "backlog s" arbitrary: s rule: less_induct)
  case less
  show ?case
  proof (cases "co_resume s")
    case None
    then show ?thesis by blast
  next
    case (Some ds)
    then obtain t where t: "on_model_interrupt k s = Some t" by (simp add: on_model_interrupt_def)
    then obtain s' where "(\<lambda>s t. on_model_interrupt k s = Some t)\<^sup>*\<^sup>* t s'" "co_resume s' = None"
      using less [OF interrupt_backlog [OF t]] by blast
    then show ?thesis using t by (meson converse_rtranclp_into_rtranclp)
  qed
qed

text \<open>An operational controller without a rest to resume is idle: nothing is delayed either.\<close>

definition settled :: "('a, 'c) controller \<Rightarrow> bool" where
  "settled s \<longleftrightarrow> (co_operational s \<longrightarrow> co_interrupted s = (co_resume s \<noteq> None) \<and> (\<not> co_interrupted s \<longrightarrow> co_delayed s = []))"

lemma drain_settled:
  "(co_operational s \<longrightarrow> co_interrupted s = (co_resume s \<noteq> None)) \<Longrightarrow> settled (drain k s)"
proof (induction k s rule: drain.induct)
  case (1 k s)
  show ?case
  proof (cases "\<not> co_interrupted s \<and> co_delayed s \<noteq> []")
    case True
    let ?s = "(process k (hd (co_delayed s)) s)\<lparr>co_delayed := tl (co_delayed s)\<rparr>"
    have "co_operational ?s \<longrightarrow> co_interrupted ?s = (co_resume ?s \<noteq> None)"
      using "1.prems" True by (auto simp: process_def Let_def split: prod.splits option.splits)
    then show ?thesis using "1.IH" [OF True] by (subst drain.simps) (simp add: True)
  next
    case False
    have "drain k s = s" by (subst drain.simps) (use False in auto)
    then show ?thesis using False "1.prems" by (auto simp: settled_def)
  qed
qed

lemma controller_settled: "controller_reaches k c0 arrived s \<Longrightarrow> settled s"
proof (induction rule: controller_reaches.induct)
  case (update arrived s ds)
  then show ?case
    by (auto simp: settled_def on_model_update_def process_def Let_def split: prod.splits option.splits)
next
  case (resume arrived s s')
  then obtain ds where "s' = drain k (process k ds (s\<lparr>co_resume := None\<rparr>))"
    by (auto simp: on_model_interrupt_def split: option.splits)
  moreover have "co_operational (process k ds (s\<lparr>co_resume := None\<rparr>)) \<longrightarrow>
      co_interrupted (process k ds (s\<lparr>co_resume := None\<rparr>)) = (co_resume (process k ds (s\<lparr>co_resume := None\<rparr>)) \<noteq> None)"
    by (auto simp: process_def Let_def split: prod.splits option.splits)
  ultimately show ?case using drain_settled by blast
qed (simp add: settled_def)

lemma interrupts_reach:
  assumes "(\<lambda>s t. on_model_interrupt k s = Some t)\<^sup>*\<^sup>* s s'" "controller_reaches k c0 arrived s"
  shows "controller_reaches k c0 arrived s'"
  using assms by (induction rule: rtranclp_induct) (auto intro: resume)

text \<open>
  C36: the interrupted work of a controller comes to an end: from every reachable state finitely many
  interrupt messages lead to one with nothing to resume, and there an operational controller
  has no delayed updates left either.
\<close>

theorem controller_becomes_idle:
  assumes "controller_reaches k c0 arrived s"
  shows "\<exists>s'. (\<lambda>s t. on_model_interrupt k s = Some t)\<^sup>*\<^sup>* s s' \<and> co_resume s' = None \<and>
    (co_operational s' \<longrightarrow> \<not> co_interrupted s' \<and> co_delayed s' = [])"
proof -
  obtain s' where s': "(\<lambda>s t. on_model_interrupt k s = Some t)\<^sup>*\<^sup>* s s'" "co_resume s' = None"
    using resumed by blast
  then show ?thesis using controller_settled [OF interrupts_reach [OF s'(1) assms]] by (auto simp: settled_def)
qed

theorem controller_becomes_idle_witness:
  "\<exists>s'. (\<lambda>s t. on_model_interrupt sample_steps s = Some t)\<^sup>*\<^sup>*
       (on_model_update sample_steps [Diff (change 1) [], Diff interrupt [], Diff (change 2) []]
          \<lparr>co_cluster = ([], False), co_interrupted = False, co_delayed = [], co_resume = None, co_operational = True\<rparr>) s' \<and>
     co_resume s' = None \<and> (co_operational s' \<longrightarrow> \<not> co_interrupted s' \<and> co_delayed s' = [])"
  by (rule controller_becomes_idle [OF update [OF start]])

subsection \<open>Invariants of the applied state\<close>

text \<open>A property of the state that every part of every diff keeps is kept by chains and by the controller.\<close>

locale kept_by_steps =
  fixes k :: "('a, 'c, 'e) steps" and P :: "'c \<Rightarrow> bool"
  assumes before_keeps: "P c \<Longrightarrow> P (snd (before_children k a c))"
    and after_keeps: "P c \<Longrightarrow> P (snd (after_children k a c))"
    and siblings_keep: "P c \<Longrightarrow> P (after_siblings k a c)"
    and loading_keeps: "P c \<Longrightarrow> P (commit_loading k c)"
    and taint_keeps: "P c \<Longrightarrow> P (mark_tainted k c)"
begin

lemma tainting_keeps: "P (fst (snd r)) \<Longrightarrow> P (fst (snd (tainting k r)))"
  by (cases r) (auto simp: tainting_def taint_keeps split: option.splits)

lemma and_then_keeps:
  "P (fst (snd r)) \<Longrightarrow> (\<And>s. P (fst s) \<Longrightarrow> P (fst (snd (f s)))) \<Longrightarrow> P (fst (snd (and_then r f)))"
  by (cases r) (auto simp: and_then_def split: option.splits)

lemma lift_keeps: "(\<And>c. P c \<Longrightarrow> P (snd (f c))) \<Longrightarrow> P (fst s) \<Longrightarrow> P (fst (snd (lift f s)))"
proof -
  assume "\<And>c. P c \<Longrightarrow> P (snd (f c))" "P (fst s)"
  then have "P (snd (f (fst s)))" by blast
  then show ?thesis by (auto simp: lift_def split: prod.splits)
qed

lemma chain_keeps: "P (fst s) \<Longrightarrow> P (fst (snd (apply_chain b k ds s)))"
proof (induction b k\<equiv>k ds s rule: apply_chain.induct)
  case (2 b p ch siblings s)
  have finally_keeps: "P (fst t) \<Longrightarrow> P (fst (snd (case apply_chain b k siblings t of (r, s) \<Rightarrow> (r, (after_siblings k a (fst s), snd s)))))"
    if "\<And>t. P (fst t) \<Longrightarrow> P (fst (snd (apply_chain b k siblings t)))" for a t
    using that [of t] by (auto split: prod.splits intro: siblings_keep)
  show ?case
  proof (cases p)
    case interrupt
    then show ?thesis using 2 by (auto intro!: tainting_keeps and_then_keeps)
  next
    case commit
    then show ?thesis using 2 by (auto intro!: tainting_keeps and_then_keeps intro: loading_keeps)
  next
    case (change a)
    show ?thesis
    proof (cases "skips k a (fst s)")
      case True
      then show ?thesis using 2(5) [OF change True] 2(8) change by (auto intro!: tainting_keeps)
    next
      case False
      have "P (fst (snd (and_then (lift (before_children k a) s) (\<lambda>s. and_then (apply_chain b k ch s) (\<lambda>s.
          and_then (lift (after_children k a) s) (\<lambda>s. case apply_chain b k siblings s of
            (r, s) \<Rightarrow> (r, (after_siblings k a (fst s), snd s)))))))) "
        using 2(6,7) [OF change False] 2(8)
        by (intro and_then_keeps lift_keeps finally_keeps before_keeps after_keeps) blast+
      then show ?thesis using change False by (simp add: tainting_keeps)
    qed
  qed
qed simp

lemma process_keeps: "P (co_cluster s) \<Longrightarrow> P (co_cluster (process k ds s))"
proof -
  assume P: "P (co_cluster s)"
  have "P (fst (snd (apply_chain True k t (co_cluster s, []))))" for t using chain_keeps [of "(co_cluster s, [])" True t] P by simp
  then show ?thesis by (auto simp: process_def Let_def split: prod.splits option.splits) (metis fst_conv snd_conv)+
qed

lemma drain_keeps: "P (co_cluster s) \<Longrightarrow> P (co_cluster (drain k s))"
proof (induction k\<equiv>k s rule: drain.induct)
  case (1 s)
  then show ?case by (subst drain.simps) (simp add: process_keeps)
qed

lemma controller_keeps: "controller_reaches k c0 arrived s \<Longrightarrow> P c0 \<Longrightarrow> P (co_cluster s)"
proof (induction rule: controller_reaches.induct)
  case (resume arrived s s')
  then show ?case by (auto simp: on_model_interrupt_def drain_keeps process_keeps split: option.splits)
qed (auto simp: on_model_update_def process_keeps)

end

end
