(* ===== verification/Orphaned_Blocks.thy ===== *)
theory Orphaned_Blocks
  imports File_Links
begin

text \<open>
  Blocks that become unused when files go (\<^verbatim>\<open>src/model/misc/orphaned_blocks.cpp\<close>). The files are
  recorded first; a block is orphaned when all its places are in recorded files.
\<close>

subsection \<open>Deduction\<close>

text \<open>The blocks of a file in order, as its iterator yields them: a null slot ends the iteration.\<close>

fun iterate_file :: "store \<Rightarrow> raw_block list \<Rightarrow> block_info list" where
  "iterate_file st [] = []"
| "iterate_file st (raw # raws) = (case slot_block st raw of None \<Rightarrow> [] | Some b \<Rightarrow> b # iterate_file st raws)"

definition record_file :: "addr \<Rightarrow> addr list \<Rightarrow> addr list" where
  "record_file f file_for_removal = (if f \<in> set file_for_removal then file_for_removal else file_for_removal @ [f])"

text \<open>The result and the hashes already looked at, after one more block.\<close>

definition deduce_block :: "addr list \<Rightarrow> bytes list \<Rightarrow> block_info \<Rightarrow> bytes list \<times> bytes list \<Rightarrow> bytes list \<times> bytes list" where
  "deduce_block file_for_removal white_listed b acc = (case acc of (r, processed) \<Rightarrow>
     (let h = bi_hash b
      in if h \<in> set white_listed then (r, processed)
         else if h \<in> set processed then (r, processed)
         else let usages = fbi_get_total b - length (filter (\<lambda>fb. fb_file fb \<in> set file_for_removal) (bi_iterate b))
              in (if usages = 0 then r @ [h] else r, processed @ [h])))"

definition deduce_file :: "store \<Rightarrow> addr list \<Rightarrow> bytes list \<Rightarrow> addr \<Rightarrow> bytes list \<times> bytes list \<Rightarrow> bytes list \<times> bytes list" where
  "deduce_file st file_for_removal white_listed f acc = (case st_files st f of
       None \<Rightarrow> acc
     | Some fi \<Rightarrow> if is_file fi
         then fold (deduce_block file_for_removal white_listed) (iterate_file st (fi_blocks fi)) acc else acc)"

definition deduce :: "store \<Rightarrow> addr list \<Rightarrow> bytes list \<Rightarrow> bytes list" where
  "deduce st file_for_removal white_listed =
     fst (fold (deduce_file st file_for_removal white_listed) file_for_removal ([], []))"

subsection \<open>Correctness\<close>

text \<open>The blocks the loops look at, in order.\<close>

definition looked_at :: "store \<Rightarrow> addr list \<Rightarrow> block_info list" where
  "looked_at st fs = concat (map (\<lambda>f. case st_files st f of None \<Rightarrow> []
     | Some fi \<Rightarrow> if is_file fi then iterate_file st (fi_blocks fi) else []) fs)"

lemma deduce_file_fold:
  "deduce_file st R W f acc = fold (deduce_block R W) (case st_files st f of None \<Rightarrow> []
     | Some fi \<Rightarrow> if is_file fi then iterate_file st (fi_blocks fi) else []) acc"
  by (auto simp: deduce_file_def split: option.splits)

lemma deduce_looked_at:
  "fold (deduce_file st R W) fs acc = fold (deduce_block R W) (looked_at st fs) acc"
  by (induction fs arbitrary: acc) (simp_all add: looked_at_def deduce_file_fold)

definition unused_outside :: "addr list \<Rightarrow> block_info \<Rightarrow> bool" where
  "unused_outside R b \<longleftrightarrow> (\<forall>fb \<in> set (bi_iterate b). fb_file fb \<in> set R)"

lemma usages_zero:
  "fbi_get_total b = length (bi_iterate b) \<Longrightarrow>
    (fbi_get_total b - length (filter (\<lambda>fb. fb_file fb \<in> set R) (bi_iterate b)) = 0) = unused_outside R b"
proof -
  assume t: "fbi_get_total b = length (bi_iterate b)"
  have "(fbi_get_total b - length (filter (\<lambda>fb. fb_file fb \<in> set R) (bi_iterate b)) = 0) =
      (filter (\<lambda>fb. fb_file fb \<notin> set R) (bi_iterate b) = [])"
    using sum_length_filter_compl [of "\<lambda>fb. fb_file fb \<in> set R" "bi_iterate b"] t by (metis diff_add_inverse length_0_conv)
  then show ?thesis by (simp add: unused_outside_def filter_empty_conv)
qed

text \<open>
  The loop over a list of blocks, when a hash determines whether the block is unused outside: the
  hashes looked at are those of the list, the result those of unused blocks.
\<close>

lemma fold_deduce_block:
  assumes "\<forall>b \<in> set bs. fbi_get_total b = length (bi_iterate b)"
    and "\<forall>b \<in> set bs. unused_outside R b \<longleftrightarrow> U (bi_hash b)"
    and "set r = {h \<in> set p. U h}"
  shows "set (fst (fold (deduce_block R W) bs (r, p))) = {h \<in> set p \<union> (bi_hash ` set bs - set W). U h}"
  using assms
proof (induction bs arbitrary: r p)
  case (Cons b bs)
  have u: "(fbi_get_total b - length (filter (\<lambda>fb. fb_file fb \<in> set R) (bi_iterate b)) = 0) = U (bi_hash b)"
    using usages_zero Cons.prems(1,2) by simp
  let ?h = "bi_hash b"
  define r' where "r' = (if ?h \<in> set W \<union> set p \<or> \<not> U ?h then r else r @ [?h])"
  define p' where "p' = (if ?h \<in> set W \<union> set p then p else p @ [?h])"
  have acc: "deduce_block R W b (r, p) = (r', p')"
    unfolding deduce_block_def Let_def u r'_def p'_def by simp
  have p': "set p' = set p \<union> ({?h} - set W)" unfolding p'_def by auto
  have r': "set r' = {h \<in> set p'. U h}" unfolding p' unfolding r'_def using Cons.prems(3) by auto
  have "set (fst (fold (deduce_block R W) bs (r', p'))) = {h \<in> set p' \<union> (bi_hash ` set bs - set W). U h}"
    using Cons.prems by (intro Cons.IH r') simp_all
  then show ?case using acc p' by auto
qed simp

lemma iterate_total:
  assumes "bi_wf p b"
  shows "fbi_get_total b = length (bi_iterate b)"
  using assms by (auto simp: bi_wf_def fbi_get_total_def bi_iterate_def split: file_blocks_union.splits)

lemma iterate_file_slots:
  "b \<in> set (iterate_file st raws) \<Longrightarrow> \<exists>p l. Some (p, l) \<in> set raws \<and> st_blocks st p = Some b"
proof (induction raws)
  case (Cons raw raws)
  show ?case
  proof (cases "slot_block st raw")
    case (Some c)
    then obtain p l where "raw = Some (p, l)" "st_blocks st p = Some c" by (auto simp: slot_block_def split: option.splits)
    then show ?thesis using Cons Some by auto
  qed (use Cons in simp)
qed simp

definition hashes_unique :: "store \<Rightarrow> bool" where
  "hashes_unique st \<longleftrightarrow> (\<forall>p q b c. st_blocks st p = Some b \<longrightarrow> st_blocks st q = Some c \<longrightarrow> bi_hash b = bi_hash c \<longrightarrow> p = q)"

lemma looked_at_live: "b \<in> set (looked_at st fs) \<Longrightarrow> \<exists>p. st_blocks st p = Some b"
  by (auto simp: looked_at_def split: option.splits if_splits dest!: iterate_file_slots)

lemma deduce_eq:
  assumes "store_ok st" "hashes_unique st"
  shows "set (deduce st R W) = {bi_hash b | b. b \<in> set (looked_at st R) \<and> bi_hash b \<notin> set W \<and> unused_outside R b}"
proof -
  let ?bs = "looked_at st R"
  define U where "U h \<longleftrightarrow> (\<exists>b \<in> set ?bs. bi_hash b = h \<and> unused_outside R b)" for h
  have same: "b = c" if "b \<in> set ?bs" "c \<in> set ?bs" "bi_hash b = bi_hash c" for b c
    using looked_at_live [OF that(1)] looked_at_live [OF that(2)] that(3) assms(2) unfolding hashes_unique_def
    by (metis option.inject)
  have "\<forall>b \<in> set ?bs. fbi_get_total b = length (bi_iterate b)"
    using looked_at_live store_okD(1) [OF assms(1)] iterate_total by blast
  moreover have "\<forall>b \<in> set ?bs. unused_outside R b \<longleftrightarrow> U (bi_hash b)" unfolding U_def using same by blast
  ultimately have "set (deduce st R W) = {h \<in> bi_hash ` set ?bs - set W. U h}"
    unfolding deduce_def deduce_looked_at by (subst fold_deduce_block [where U = U]) auto
  then show ?thesis by (auto simp: U_def dest: same)
qed

text \<open>
  C25: in a consistent store, a block whose hash is deduced to be orphaned is referenced by no
  slot of any file that stays, and is not on the white list; and every block met in the recorded
  files that is not on the white list and occurs in recorded files only is deduced.
\<close>

theorem orphaned_blocks_exact:
  assumes "store_ok st" "hashes_unique st"
  shows "(\<forall>p b f i l. st_blocks st p = Some b \<longrightarrow> bi_hash b \<in> set (deduce st R W) \<longrightarrow>
      bi_hash b \<notin> set W \<and> (slot st f i = Some (p, l) \<longrightarrow> f \<in> set R)) \<and>
    (\<forall>p b. st_blocks st p = Some b \<longrightarrow> b \<in> set (looked_at st R) \<longrightarrow> bi_hash b \<notin> set W \<longrightarrow>
      (\<forall>f i l. slot st f i = Some (p, l) \<longrightarrow> f \<in> set R) \<longrightarrow> bi_hash b \<in> set (deduce st R W))"
proof -
  have unused: "unused_outside R b \<longleftrightarrow> (\<forall>f i l. slot st f i = Some (p, l) \<longrightarrow> f \<in> set R)" if "st_blocks st p = Some b" for p b
  proof -
    have "(f, i) \<in> set (places b) \<longleftrightarrow> (\<exists>l. slot st f i = Some (p, l))" for f i
      using store_okD(4) [OF assms(1) that] .
    moreover have "unused_outside R b \<longleftrightarrow> (\<forall>f i. (f, i) \<in> set (places b) \<longrightarrow> f \<in> set R)"
      by (auto simp: unused_outside_def places_def)
    ultimately show ?thesis by blast
  qed
  have same: "b = c" if "st_blocks st p = Some b" "c \<in> set (looked_at st R)" "bi_hash b = bi_hash c" for p b c
    using looked_at_live [OF that(2)] that(1,3) assms(2) unfolding hashes_unique_def by (metis option.inject)
  show ?thesis unfolding deduce_eq [OF assms] using unused same by blast
qed

theorem orphaned_blocks_exact_witness:
  "\<exists>st b. st_blocks st 1 = Some b \<and> slot st 2 0 = Some (1, False) \<and> bi_hash b \<in> set (deduce st [2] []) \<and>
     bi_hash b \<notin> set (deduce st [1] [])"
proof -
  have ok: "store_ok sample_store"
    using sample_store_reachable store_step_ok store_ok_empty by (induction rule: rtranclp_induct) blast+
  obtain st where st: "store_ok st" "dom (st_blocks st) = dom (st_blocks sample_store)"
    "st_files st = (st_files sample_store)(2 := Some (set_slot 0 (Some (1, False)) (sample_file 2)))"
    using sample_assigned [OF ok] by blast
  have only: "st_blocks st p \<noteq> None \<longleftrightarrow> p = 1" for p
    using st(2) sample_store_facts(3) unfolding dom_def by (auto split: if_splits)
  then obtain b where b: "st_blocks st 1 = Some b" by blast
  have u: "hashes_unique st" unfolding hashes_unique_def using only by (metis option.distinct(1))
  have sl: "slot st 2 0 = Some (1, False)" using st(3) sample_file_facts by (simp add: slot_def)
  have all: "f \<in> set [2]" if "slot st f i = Some (1, l)" for f i l
  proof -
    have "st_files st g = (if g = 1 then Some (sample_file 1) else if g = 2 then Some (set_slot 0 (Some (1, False)) (sample_file 2)) else None)" for g
      using st(3) by (simp add: sample_store_def empty_store_def)
    then show ?thesis using that sample_file_facts(4)
      by (auto simp: slot_def split: if_splits)
  qed
  have "is_file (set_slot 0 (Some (1, False)) (sample_file 2))" using sample_file_facts(2) by (simp add: is_file_def)
  then have look: "b \<in> set (looked_at st [2])"
    using st(3) b sample_file_facts(5) by (simp add: looked_at_def slot_block_def)
  note ex = orphaned_blocks_exact [OF st(1) u]
  have "bi_hash b \<in> set (deduce st [2] [])" using conjunct2 [OF ex] b look all by fastforce
  moreover have "bi_hash b \<notin> set (deduce st [1] [])" using conjunct1 [OF ex] b sl by fastforce
  ultimately show ?thesis using b sl by blast
qed

end
