(* ===== verification/Cluster.thy ===== *)
theory Cluster
  imports Orphaned_Blocks Resolver Diff_Chain
begin

text \<open>
  The cluster (\<^verbatim>\<open>src/model/cluster.cpp\<close>): devices, folders, blocks and the pending and ignored
  items, over the store of file and block objects. The folders a peer offers are in
  \<^verbatim>\<open>src/model/pending_folder.cpp\<close>, the ignored ones in \<^verbatim>\<open>src/model/ignored_folder.cpp\<close>. The theory has
  the primitives that the diffs of the following theories are made of. Folders and
  folder infos are values held by the cluster; an operation on the object behind a pointer
  replaces the value with its keys.
\<close>

subsection \<open>Errors and surroundings\<close>

text \<open>
  The codes of \<open>error_code_t\<close> that the modelled operations report; \<open>assertion_failed\<close> stands for a
  violated assertion or a null pointer that is dereferenced, where the program stops.
\<close>

datatype cluster_error =
  no_such_device | no_such_folder | cannot_remove_self | folder_does_not_exist | folder_is_already_shared |
  folder_is_not_shared | malformed_deviceid | missing_version | mismatch_file_size | invalid_sequence |
  unknown_device | empty_folder_name | invalid_pending_folder_length | invalid_ignored_folder_prefix |
  deserialization_failure | block_failure block_error | device_failure device_error | file_failure file_error |
  folder_failure folder_error | io_error | assertion_failed

text \<open>
  What the model calls but does not contain: the choice of the multi-index container among several
  elements in the way, the URL library, the clock, and the decoders of database records.
\<close>

record env =
  en_pick :: "addr list \<Rightarrow> addr"
  en_url :: url_lib
  en_local_time :: int
  en_decode_device :: "bytes \<Rightarrow> db_device option"
  en_decode_folder :: "bytes \<Rightarrow> db_folder option"
  en_decode_some_device :: "bytes \<Rightarrow> db_some_device option"
  en_decode_ignored_folder :: "bytes \<Rightarrow> string option"

subsection \<open>Pending and ignored folders\<close>

definition str_bytes :: "string \<Rightarrow> bytes" where
  "str_bytes s = map (\<lambda>c. of_nat (of_char c)) s"

definition pending_folder_prefix :: u8 where "pending_folder_prefix = 0x16"
definition ignored_folder_prefix :: u8 where "ignored_folder_prefix = 0x15"

record db_pending_folder =
  dpf_folder :: db_folder
  dpf_folder_info :: db_folder_info

record pending_folder =
  pn_uuid :: bytes
  pn_device :: device_id
  pn_data :: db_folder
  pn_index :: u64
  pn_max_sequence :: int

definition pn_key :: "pending_folder \<Rightarrow> bytes" where
  "pn_key p = pending_folder_prefix # pn_uuid p @ did_sha256 (pn_device p)"

definition pn_id :: "pending_folder \<Rightarrow> string" where "pn_id p = dfo_id (pn_data p)"

definition pn_create_uuid :: "bytes \<Rightarrow> db_pending_folder \<Rightarrow> device_id \<Rightarrow> pending_folder" where
  "pn_create_uuid uuid data did = \<lparr>pn_uuid = uuid, pn_device = did, pn_data = dpf_folder data,
     pn_index = dfi_index_id (dpf_folder_info data), pn_max_sequence = dfi_max_sequence (dpf_folder_info data)\<rparr>"

definition pn_create_key :: "bytes \<Rightarrow> db_pending_folder \<Rightarrow> (cluster_error, pending_folder) result" where
  "pn_create_key key data =
     (if length key \<noteq> uuid_length + digest_length + 1 then Inl invalid_pending_folder_length
      else if hd key \<noteq> pending_folder_prefix then Inl (folder_failure invalid_folder_prefix)
      else case from_sha256 (drop (uuid_length + 1) key) of
             Some (Some did) \<Rightarrow> Inr (pn_create_uuid (take uuid_length (drop 1 key)) data did)
           | Some None \<Rightarrow> Inl malformed_deviceid
           | None \<Rightarrow> Inl assertion_failed)"

definition pn_serialize :: "pending_folder \<Rightarrow> db_pending_folder" where
  "pn_serialize p = \<lparr>dpf_folder = pn_data p,
     dpf_folder_info = \<lparr>dfi_index_id = pn_index p, dfi_max_sequence = pn_max_sequence p, dfi_introducer_device_key = []\<rparr>\<rparr>"

text \<open>The map has the key and the folder identifier as unique indices.\<close>

definition pn_indices :: "(pending_folder \<Rightarrow> bytes) list" where
  "pn_indices = [pn_key, \<lambda>p. str_bytes (pn_id p)]"

record ignored_folder =
  ig_key :: bytes
  ig_label :: string

definition ig_create :: "string \<Rightarrow> string \<Rightarrow> ignored_folder" where
  "ig_create fid label = \<lparr>ig_key = ignored_folder_prefix # str_bytes fid, ig_label = label\<rparr>"

text \<open>The label is decoded from the database value.\<close>

definition ig_create_key :: "(bytes \<Rightarrow> string option) \<Rightarrow> bytes \<Rightarrow> bytes \<Rightarrow> (cluster_error, ignored_folder) result" where
  "ig_create_key dec key data =
     (if key = [] then Inl assertion_failed
      else if hd key \<noteq> ignored_folder_prefix then Inl invalid_ignored_folder_prefix
      else case dec data of None \<Rightarrow> Inl deserialization_failure
             | Some label \<Rightarrow> Inr \<lparr>ig_key = key, ig_label = label\<rparr>)"

definition ig_id :: "ignored_folder \<Rightarrow> bytes" where "ig_id f = drop 1 (ig_key f)"

subsection \<open>The cluster\<close>

text \<open>
  The local device is also one of the devices once these are loaded. \<open>cl_pinned\<close> are files
  that another object still owns: they outlive their removal from a folder.
  \<open>cl_next\<close> is the next free address, \<open>cl_token\<close> the counter of the state tokens of devices.
\<close>

record cluster =
  cl_device :: device
  cl_store :: store
  cl_blocks :: "addr list"
  cl_folders :: "folder list"
  cl_devices :: "device list"
  cl_ignored_devices :: "some_device list"
  cl_ignored_folders :: "ignored_folder list"
  cl_pending_folders :: "pending_folder list"
  cl_pending_devices :: "some_device list"
  cl_locked_paths :: "string list"
  cl_tainted :: bool
  cl_write_requests :: int
  cl_pinned :: "addr list"
  cl_next :: addr
  cl_token :: u32

abbreviation cl_self :: "cluster \<Rightarrow> bytes" where "cl_self cl \<equiv> dv_sha (cl_device cl)"

text \<open>The constructor.\<close>

definition new_cluster :: "device \<Rightarrow> int \<Rightarrow> cluster" where
  "new_cluster dev write_requests = \<lparr>cl_device = dev, cl_store = empty_store, cl_blocks = [], cl_folders = [], cl_devices = [],
     cl_ignored_devices = [], cl_ignored_folders = [], cl_pending_folders = [], cl_pending_devices = [], cl_locked_paths = [],
     cl_tainted = False, cl_write_requests = write_requests, cl_pinned = [], cl_next = 0, cl_token = 0\<rparr>"

type_synonym outcome = "cluster_error option \<times> cluster"

definition is_locked :: "string \<Rightarrow> cluster \<Rightarrow> bool" where
  "is_locked path cl \<longleftrightarrow> path \<in> set (cl_locked_paths cl)"

definition lock_path :: "string \<Rightarrow> cluster \<Rightarrow> cluster option" where
  "lock_path path cl = (if is_locked path cl then None else Some (cl\<lparr>cl_locked_paths := path # cl_locked_paths cl\<rparr>))"

definition unlock_path :: "string \<Rightarrow> cluster \<Rightarrow> cluster" where
  "unlock_path path cl = cl\<lparr>cl_locked_paths := filter (\<lambda>p. p \<noteq> path) (cl_locked_paths cl)\<rparr>"

definition modify_write_requests :: "int \<Rightarrow> cluster \<Rightarrow> cluster option" where
  "modify_write_requests delta cl =
     (let cl = cl\<lparr>cl_write_requests := cl_write_requests cl + delta\<rparr> in if 0 \<le> cl_write_requests cl then Some cl else None)"

subsection \<open>Folders\<close>

definition fd_key :: "folder \<Rightarrow> bytes" where "fd_key fd = folder_prefix # fd_uuid fd"
definition fd_id :: "folder \<Rightarrow> string" where "fd_id fd = dfo_id (fd_data fd)"
definition fd_indices :: "(folder \<Rightarrow> bytes) list" where "fd_indices = [fd_key, \<lambda>fd. str_bytes (fd_id fd)]"

definition folders_by_id :: "string \<Rightarrow> cluster \<Rightarrow> folder option" where
  "folders_by_id fid cl = gm_get fd_id fid (cl_folders cl)"

definition folders_by_key :: "bytes \<Rightarrow> cluster \<Rightarrow> folder option" where
  "folders_by_key key cl = gm_get fd_key key (cl_folders cl)"

definition set_folder :: "folder \<Rightarrow> cluster \<Rightarrow> cluster" where
  "set_folder fd cl = cl\<lparr>cl_folders := map (\<lambda>x. if fd_uuid x = fd_uuid fd \<and> fd_id x = fd_id fd then fd else x) (cl_folders cl)\<rparr>"

definition set_folder_info :: "folder_info \<Rightarrow> folder \<Rightarrow> folder" where
  "set_folder_info fo fd = fd\<lparr>fd_folder_infos := map (\<lambda>x. if fo_uuid x = fo_uuid fo \<and> fo_device x = fo_device fo \<and>
     fo_device_key x = fo_device_key fo then fo else x) (fd_folder_infos fd)\<rparr>"

definition by_device_key :: "bytes \<Rightarrow> folder \<Rightarrow> folder_info option" where
  "by_device_key key fd = gm_get fo_device_key key (fd_folder_infos fd)"

text \<open>The folder info of a device in a folder given by its identifier.\<close>

definition folder_info_of :: "string \<Rightarrow> bytes \<Rightarrow> cluster \<Rightarrow> (folder \<times> folder_info) option" where
  "folder_info_of fid dev cl = (case folders_by_id fid cl of
       None \<Rightarrow> None | Some fd \<Rightarrow> map_option (Pair fd) (by_device dev fd))"

definition same_device :: "device \<Rightarrow> device \<Rightarrow> bool" where
  "same_device d x \<longleftrightarrow> dv_sha x = dv_sha d \<and> dv_key x = dv_key d"

definition set_device :: "device \<Rightarrow> cluster \<Rightarrow> cluster" where
  "set_device d cl = cl\<lparr>cl_devices := map (\<lambda>x. if same_device d x then d else x) (cl_devices cl),
     cl_device := (if same_device d (cl_device cl) then d else cl_device cl)\<rparr>"

subsection \<open>Objects\<close>

definition with_store :: "(store \<Rightarrow> store option) \<Rightarrow> cluster \<Rightarrow> outcome" where
  "with_store f cl = (case f (cl_store cl) of
       None \<Rightarrow> (Some assertion_failed, cl) | Some st \<Rightarrow> (None, cl\<lparr>cl_store := st\<rparr>))"

definition hash_at :: "store \<Rightarrow> addr \<Rightarrow> bytes" where
  "hash_at st p = (case st_blocks st p of Some b \<Rightarrow> bi_hash b | None \<Rightarrow> [])"

definition blocks_by_hash :: "bytes \<Rightarrow> cluster \<Rightarrow> addr option" where
  "blocks_by_hash h cl = find (\<lambda>p. hash_at (cl_store cl) p = h) (cl_blocks cl)"

text \<open>\<open>block_infos_map_t::put\<close> of a new block: it holds a reference, or the block is dropped at once.\<close>

definition put_new_block :: "block_info \<Rightarrow> cluster \<Rightarrow> cluster" where
  "put_new_block b cl =
     (if blocks_by_hash (bi_hash b) cl \<noteq> None then cl
      else cl\<lparr>cl_store := put_block (cl_next cl) (b\<lparr>bi_counter := refcouner_inc (bi_counter b)\<rparr>) (cl_store cl),
             cl_blocks := cl_blocks cl @ [cl_next cl], cl_next := Suc (cl_next cl)\<rparr>)"

definition erase_block :: "addr \<Rightarrow> cluster \<Rightarrow> outcome" where
  "erase_block p cl = with_store (release p) (cl\<lparr>cl_blocks := filter (\<lambda>q. q \<noteq> p) (cl_blocks cl)\<rparr>)"

text \<open>A file leaves its last owner.\<close>

definition drop_file :: "addr \<Rightarrow> cluster \<Rightarrow> outcome" where
  "drop_file f cl = (if f \<in> set (cl_pinned cl) then (None, cl) else with_store (destroy_file f) cl)"

fun drop_files :: "addr list \<Rightarrow> cluster \<Rightarrow> outcome" where
  "drop_files [] cl = (None, cl)"
| "drop_files (f # fs) cl = and_then (drop_file f cl) (drop_files fs)"

text \<open>
  \<open>add_strict\<close> and \<open>add_relaxed\<close> on a folder info of the cluster; what the map gives up is dropped, and
  the file itself when it is not stored.
\<close>

definition settle :: "folder \<Rightarrow> folder_info \<Rightarrow> folder_info \<Rightarrow> addr \<Rightarrow> cluster \<Rightarrow> outcome" where
  "settle fd fo fo' f cl =
     drop_files (filter (\<lambda>g. g \<notin> set (fo_file_infos fo')) (fo_file_infos fo @ [f])) (set_folder (set_folder_info fo' fd) cl)"

definition cl_add_strict :: "env \<Rightarrow> folder \<Rightarrow> folder_info \<Rightarrow> addr \<Rightarrow> cluster \<Rightarrow> outcome" where
  "cl_add_strict E fd fo f cl = settle fd fo (fst (add_strict (en_pick E) (cl_store cl) f fo)) f cl"

definition cl_add_relaxed :: "env \<Rightarrow> folder \<Rightarrow> folder_info \<Rightarrow> addr \<Rightarrow> cluster \<Rightarrow> outcome" where
  "cl_add_relaxed E fd fo f cl = settle fd fo (add_relaxed (en_pick E) (cl_store cl) f fo) f cl"

text \<open>The generator of identifiers is a sequence of values; the index of the next ones is the state.\<close>

record sequencer =
  sq_uuids :: "nat \<Rightarrow> bytes"
  sq_uints :: "nat \<Rightarrow> u64"
  sq_next :: nat
  sq_next_uint :: nat

definition next_uuid :: "sequencer \<Rightarrow> bytes \<times> sequencer" where
  "next_uuid sq = (sq_uuids sq (sq_next sq), sq\<lparr>sq_next := Suc (sq_next sq)\<rparr>)"

definition next_uint64 :: "sequencer \<Rightarrow> u64 \<times> sequencer" where
  "next_uint64 sq = (sq_uints sq (sq_next_uint sq), sq\<lparr>sq_next_uint := Suc (sq_next_uint sq)\<rparr>)"

end
