(* ===== verification/Changes.thy ===== *)
theory Changes
  imports Cluster
begin

text \<open>
  The diffs of the cluster (\<^verbatim>\<open>src/model/diff/\<close>): one constructor per class with the data it carries,
  one definition per \<open>apply_impl\<close>, and the record of steps that the chains of \<open>Diff_Chain\<close> run.
  Notifications of the augmentations and of the peers' file iterators change no cluster state
  and are left out. Local device, folders and files are looked up again in every
  step, as the code does.
\<close>

subsection \<open>The kinds of diffs\<close>

datatype change =
  add_blocks "pr_block list"
| remove_blocks "bytes list"
| update_folder string bytes "pr_file list" "bytes list"
| advance advance_action string bytes bytes pr_file pr_file
| block_ack string string bytes bytes nat bool
| file_availability string string version
| blocks_availability string bytes string "bool list"
| mark_reachable string bytes string bool
| remove_files string bytes "bytes list"
| reset_folder_infos
| remove_folder_infos "bytes list"
| upsert_folder bytes db_folder bool
| upsert_folder_info bytes bytes bytes string u64
| share_folder
| unshare_folder
| remove_folder string bytes
| remove_peer bytes
| update_peer bytes db_device
| add_pending_device device_id db_some_device
| add_pending_folders "(db_pending_folder \<times> bytes \<times> bytes) list"
| add_ignored_device device_id db_some_device
| remove_ignored_device bytes
| remove_pending_device bytes
| remove_pending_folders "bytes list"
| suspend_folder string bool "nat option"
| scan_start string string int
| scan_finish string int
| scan_request string string
| synchronization_start string
| synchronization_finish string
| io_failure
| peer_state bytes device_state string string bool
| unknown_connected device_id db_some_device
| ignored_connected device_id db_some_device
| update_contact_diff device_id bool "uri list"
| rx_tx bytes nat nat
| update_remote_views bytes "(string \<times> device_id \<times> u64 \<times> int) list"
| cluster_update bytes
| load_cluster nat nat
| load_blocks "(bytes \<times> int) list"
| load_devices "(bytes \<times> bytes) list"
| load_folders "(bytes \<times> bytes) list"
| load_folder_infos "(bytes \<times> db_folder_info) list"
| load_file_infos "(bytes \<times> db_file) list"
| load_ignored_devices "(bytes \<times> bytes) list"
| load_pending_devices "(bytes \<times> bytes) list"
| load_ignored_folders "(bytes \<times> bytes) list"
| load_pending_folders "(bytes \<times> db_pending_folder option) list"
| remove_corrupted_files "bytes list"

subsection \<open>Blocks\<close>

fun apply_add_blocks :: "pr_block list \<Rightarrow> cluster \<Rightarrow> outcome" where
  "apply_add_blocks [] cl = (None, cl)"
| "apply_add_blocks (b # bs) cl = (case bi_create_proto b of
       Inl e \<Rightarrow> (Some (block_failure e), cl)
     | Inr blk \<Rightarrow> apply_add_blocks bs (put_new_block blk cl))"

fun apply_remove_blocks :: "bytes list \<Rightarrow> cluster \<Rightarrow> outcome" where
  "apply_remove_blocks [] cl = (None, cl)"
| "apply_remove_blocks (h # hs) cl = (case blocks_by_hash h cl of
       None \<Rightarrow> (Some assertion_failed, cl)
     | Some p \<Rightarrow> and_then (erase_block p cl) (apply_remove_blocks hs))"

text \<open>The loop that assigns the blocks of a message to a file, from index \<open>i\<close>; each may be marked available.\<close>

fun assign_blocks :: "bool \<Rightarrow> addr \<Rightarrow> nat \<Rightarrow> pr_block list \<Rightarrow> cluster \<Rightarrow> outcome" where
  "assign_blocks avail f i [] cl = (None, cl)"
| "assign_blocks avail f i (b # bs) cl = (case make_strict_hash (pb_hash b) of
       None \<Rightarrow> (Some assertion_failed, cl)
     | Some h \<Rightarrow> (case blocks_by_hash h cl of
         None \<Rightarrow> (Some assertion_failed, cl)
       | Some p \<Rightarrow> and_then (with_store (assign_block f p i) cl) (\<lambda>cl.
            and_then (if avail then with_store (mark_local_available f i) cl else (None, cl))
              (assign_blocks avail f (Suc i) bs))))"

subsection \<open>Index updates\<close>

text \<open>A new file object from a message; a missing name or version violates an assertion.\<close>

definition new_file :: "bytes \<Rightarrow> pr_file \<Rightarrow> folder_info \<Rightarrow> cluster \<Rightarrow> (addr \<times> cluster) option" where
  "new_file uuid info fo cl =
     (if pf_name info = [] then None
      else case create_file uuid info (fo_uuid fo) of
             None \<Rightarrow> None
           | Some fi \<Rightarrow> Some (cl_next cl, cl\<lparr>cl_store := put_file (cl_next cl) fi (cl_store cl), cl_next := Suc (cl_next cl)\<rparr>))"

text \<open>
  \<open>prev\<close> leaves the map of the folder info, takes over the fields and blocks of the new object \<open>g\<close>,
  which goes.
\<close>

definition take_over :: "folder \<Rightarrow> folder_info \<Rightarrow> addr \<Rightarrow> addr \<Rightarrow> cluster \<Rightarrow> outcome" where
  "take_over fd fo prev g cl =
     (let fo' = files_remove (cl_store cl) prev fo
      in and_then (with_store (file_update prev g) (set_folder (set_folder_info fo' fd) cl)) (drop_file g))"

definition apply_update_file :: "env \<Rightarrow> string \<Rightarrow> bytes \<Rightarrow> pr_file \<Rightarrow> bytes \<Rightarrow> cluster \<Rightarrow> outcome" where
  "apply_update_file E fid peer_id f uuid cl = (case folder_info_of fid peer_id cl of
       None \<Rightarrow> (Some assertion_failed, cl)
     | Some (fd, fo) \<Rightarrow> (case new_file uuid f fo cl of
         None \<Rightarrow> (Some assertion_failed, cl)
       | Some (g, cl) \<Rightarrow>
          and_then (if is_file (file_at (cl_store cl) g) \<and> \<not> is_deleted (file_at (cl_store cl) g) \<and> pf_size f \<noteq> 0
                    then assign_blocks False g 0 (pf_blocks f) cl else (None, cl)) (\<lambda>cl.
            case by_name (cl_store cl) (pf_name f) fo of
              None \<Rightarrow> cl_add_strict E fd fo g cl
            | Some prev \<Rightarrow>
                if seq_at (cl_store cl) prev < seq_at (cl_store cl) g
                then and_then (take_over fd fo prev g cl) (\<lambda>cl.
                  case folder_info_of fid peer_id cl of
                    None \<Rightarrow> (Some assertion_failed, cl)
                  | Some (fd, fo) \<Rightarrow> cl_add_strict E fd fo prev cl)
                else if seq_at (cl_store cl) prev = seq_at (cl_store cl) g then drop_file g cl
                else cl_add_strict E fd fo g cl)))"

fun apply_update_folder :: "env \<Rightarrow> string \<Rightarrow> bytes \<Rightarrow> pr_file list \<Rightarrow> bytes list \<Rightarrow> cluster \<Rightarrow> outcome" where
  "apply_update_folder E fid peer_id (f # fs) (u # us) cl =
     and_then (apply_update_file E fid peer_id f u cl) (apply_update_folder E fid peer_id fs us)"
| "apply_update_folder E fid peer_id fs us cl = (if fs = [] then (None, cl) else (Some assertion_failed, cl))"

subsection \<open>Advancing local files\<close>

text \<open>A diff of this kind passes when the folder is gone or suspended, or the peer no longer shares it.\<close>

definition skips_advance :: "advance_action \<Rightarrow> string \<Rightarrow> bytes \<Rightarrow> cluster \<Rightarrow> bool" where
  "skips_advance action fid peer_id cl = (case folders_by_id fid cl of
       None \<Rightarrow> True
     | Some fd \<Rightarrow> fd_suspended fd \<or> (action \<noteq> local_update \<and> by_device peer_id fd = None))"

text \<open>\<open>remote_win_t\<close> takes the local file that loses out of the map before its children run.\<close>

definition before_advance :: "advance_action \<Rightarrow> string \<Rightarrow> pr_file \<Rightarrow> cluster \<Rightarrow> outcome" where
  "before_advance action fid source cl =
     (if action \<noteq> resolve_remote_win then (None, cl)
      else case folder_info_of fid (cl_self cl) cl of
             None \<Rightarrow> (Some assertion_failed, cl)
           | Some (fd, fo) \<Rightarrow> (case by_name (cl_store cl) (pf_name source) fo of
               None \<Rightarrow> (Some assertion_failed, cl)
             | Some prev \<Rightarrow> drop_file prev (set_folder (set_folder_info (files_remove (cl_store cl) prev fo) fd) cl)))"

text \<open>The last part: the file is local, gets the next sequence number and enters the map.\<close>

definition finish_advance :: "env \<Rightarrow> string \<Rightarrow> addr \<Rightarrow> cluster \<Rightarrow> outcome" where
  "finish_advance E fid f cl = (case (folder_info_of fid (cl_self cl) cl, st_files (cl_store cl) f) of
       (Some (fd, fo), Some fi) \<Rightarrow>
         cl_add_strict E fd fo f (cl\<lparr>cl_store := put_file f ((mark_local True fi)\<lparr>fi_sequence := fo_max_sequence fo + 1\<rparr>) (cl_store cl)\<rparr>)
     | _ \<Rightarrow> (Some assertion_failed, cl))"

definition apply_advance :: "env \<Rightarrow> string \<Rightarrow> bytes \<Rightarrow> pr_file \<Rightarrow> cluster \<Rightarrow> outcome" where
  "apply_advance E fid uuid proto_local cl = (case folder_info_of fid (cl_self cl) cl of
       None \<Rightarrow> (Some assertion_failed, cl)
     | Some (fd, fo) \<Rightarrow> (case new_file uuid proto_local fo cl of
         None \<Rightarrow> (Some assertion_failed, cl)
       | Some (g, cl) \<Rightarrow>
          (let prev = by_name (cl_store cl) (pf_name proto_local) fo;
               f = (case prev of None \<Rightarrow> g | Some p \<Rightarrow> p)
           in and_then (case prev of None \<Rightarrow> (None, cl) | Some p \<Rightarrow> take_over fd fo p g cl) (\<lambda>cl.
              and_then (if pf_size proto_local \<noteq> 0 then assign_blocks True f 0 (pf_blocks proto_local) cl else (None, cl))
                (finish_advance E fid f)))))"


subsection \<open>Availability of local files\<close>

text \<open>\<open>is_locally_available\<close> of one block of a file.\<close>

definition block_available :: "addr \<Rightarrow> nat \<Rightarrow> store \<Rightarrow> bool option" where
  "block_available f i st = (case st_files st f of
       None \<Rightarrow> None
     | Some fi \<Rightarrow> if length (fi_blocks fi) \<le> i then None
         else Some (case fi_blocks fi ! i of Some (_, avail) \<Rightarrow> avail | None \<Rightarrow> False))"

definition make_available :: "addr \<Rightarrow> nat \<Rightarrow> cluster \<Rightarrow> outcome" where
  "make_available f i cl = (case block_available f i (cl_store cl) of
       None \<Rightarrow> (Some assertion_failed, cl)
     | Some True \<Rightarrow> (None, cl)
     | Some False \<Rightarrow> with_store (mark_local_available f i) cl)"

definition apply_block_ack :: "string \<Rightarrow> string \<Rightarrow> bytes \<Rightarrow> nat \<Rightarrow> cluster \<Rightarrow> outcome" where
  "apply_block_ack file_name fid dev i cl = (case folder_info_of fid dev cl of
       None \<Rightarrow> (None, cl)
     | Some (fd, fo) \<Rightarrow> (case by_name (cl_store cl) file_name fo of
         None \<Rightarrow> (None, cl) | Some f \<Rightarrow> make_available f i cl))"

fun for_blocks :: "(nat \<Rightarrow> cluster \<Rightarrow> outcome) \<Rightarrow> nat list \<Rightarrow> cluster \<Rightarrow> outcome" where
  "for_blocks step [] cl = (None, cl)"
| "for_blocks step (i # is) cl = and_then (step i cl) (for_blocks step is)"

definition set_file :: "addr \<Rightarrow> (file_info \<Rightarrow> file_info) \<Rightarrow> cluster \<Rightarrow> outcome" where
  "set_file f upd = with_store (\<lambda>st. map_option (\<lambda>fi. put_file f (upd fi) st) (st_files st f))"

definition apply_file_availability :: "string \<Rightarrow> string \<Rightarrow> version \<Rightarrow> cluster \<Rightarrow> outcome" where
  "apply_file_availability fid file_name v cl = (case folders_by_id fid cl of
       None \<Rightarrow> (None, cl)
     | Some fd \<Rightarrow> (case by_device (cl_self cl) fd of
         None \<Rightarrow> (Some assertion_failed, cl)
       | Some fo \<Rightarrow> (case by_name (cl_store cl) file_name fo of
           None \<Rightarrow> (Some assertion_failed, cl)
         | Some f \<Rightarrow>
            (let fi = file_at (cl_store cl) f
             in if version_identical_to (fi_version fi) v
                then and_then (for_blocks (make_available f) [0..<(if is_file fi then length (fi_blocks fi) else 0)] cl)
                       (set_file f (mark_local True))
                else (None, cl)))))"

definition apply_blocks_availability :: "string \<Rightarrow> bytes \<Rightarrow> string \<Rightarrow> bool list \<Rightarrow> cluster \<Rightarrow> outcome" where
  "apply_blocks_availability fid dev file_name valid cl = (case folder_info_of fid dev cl of
       None \<Rightarrow> (Some assertion_failed, cl)
     | Some (fd, fo) \<Rightarrow> (case by_name (cl_store cl) file_name fo of
         None \<Rightarrow> (Some assertion_failed, cl)
       | Some f \<Rightarrow> for_blocks (\<lambda>i. with_store (mark_local_available f i)) (filter ((!) valid) [0..<length valid]) cl))"

definition apply_mark_reachable :: "string \<Rightarrow> bytes \<Rightarrow> string \<Rightarrow> bool \<Rightarrow> cluster \<Rightarrow> outcome" where
  "apply_mark_reachable fid dev file_name reachable cl =
     (if devices_by_sha256 dev (cl_devices cl) = None then (Some assertion_failed, cl)
      else case folder_info_of fid dev cl of
             None \<Rightarrow> (Some assertion_failed, cl)
           | Some (fd, fo) \<Rightarrow> (case by_name (cl_store cl) file_name fo of
               None \<Rightarrow> (Some assertion_failed, cl)
             | Some f \<Rightarrow> set_file f (mark_unreachable (\<not> reachable)) cl))"

subsection \<open>Removing files and folder infos\<close>

fun apply_remove_files :: "string \<Rightarrow> bytes \<Rightarrow> bytes list \<Rightarrow> cluster \<Rightarrow> outcome" where
  "apply_remove_files fid dev [] cl = (None, cl)"
| "apply_remove_files fid dev (key # keys) cl = (case folder_info_of fid dev cl of
       None \<Rightarrow> (None, cl)
     | Some (fd, fo) \<Rightarrow> (case decompose_key key of
         None \<Rightarrow> (Some assertion_failed, cl)
       | Some (_, file_id) \<Rightarrow> (case by_uuid (cl_store cl) file_id fo of
           None \<Rightarrow> (Some assertion_failed, cl)
         | Some f \<Rightarrow> and_then (drop_file f (set_folder (set_folder_info (files_remove (cl_store cl) f fo) fd) cl))
              (apply_remove_files fid dev keys))))"

text \<open>A folder info leaves its folder with the files it still has.\<close>

definition erase_folder_info :: "folder \<Rightarrow> folder_info \<Rightarrow> cluster \<Rightarrow> outcome" where
  "erase_folder_info fd fo cl =
     drop_files (fo_file_infos fo)
       (set_folder (fd\<lparr>fd_folder_infos := gm_remove fo_indices fo (fd_folder_infos fd)\<rparr>) cl)"

fun apply_remove_folder_infos :: "bytes list \<Rightarrow> cluster \<Rightarrow> outcome" where
  "apply_remove_folder_infos [] cl = (None, cl)"
| "apply_remove_folder_infos (key # keys) cl = (case folder_info_decompose_key key of
       None \<Rightarrow> (Some assertion_failed, cl)
     | Some (device_key, folder_key, _) \<Rightarrow> (case folders_by_key folder_key cl of
         None \<Rightarrow> (Some assertion_failed, cl)
       | Some fd \<Rightarrow> (case by_device_key device_key fd of
           None \<Rightarrow> (Some assertion_failed, cl)
         | Some fo \<Rightarrow> and_then (erase_folder_info fd fo cl) (apply_remove_folder_infos keys))))"

subsection \<open>Folders\<close>

definition apply_upsert_folder :: "bytes \<Rightarrow> db_folder \<Rightarrow> cluster \<Rightarrow> outcome" where
  "apply_upsert_folder uuid db cl = (case folders_by_id (dfo_id db) cl of
       None \<Rightarrow> (None, cl\<lparr>cl_folders := gm_fold fd_indices (blank_folder uuid db) (cl_folders cl)\<rparr>)
     | Some prev \<Rightarrow> (None, set_folder (prev\<lparr>fd_data := db\<rparr>) cl))"

definition apply_upsert_folder_info :: "bytes \<Rightarrow> bytes \<Rightarrow> bytes \<Rightarrow> string \<Rightarrow> u64 \<Rightarrow> cluster \<Rightarrow> outcome" where
  "apply_upsert_folder_info uuid dev introducer_key fid index_id cl = (case devices_by_sha256 dev (cl_devices cl) of
       None \<Rightarrow> (Some no_such_device, cl)
     | Some d \<Rightarrow> (case folders_by_id fid cl of
         None \<Rightarrow> (Some no_such_folder, cl)
       | Some fd \<Rightarrow> (case by_device dev fd of
           Some fo \<Rightarrow> (let fo' = set_index index_id fo
             in drop_files (filter (\<lambda>f. f \<notin> set (fo_file_infos fo')) (fo_file_infos fo)) (set_folder (set_folder_info fo' fd) cl))
         | None \<Rightarrow> (None, set_folder (folder_add (fo_create_uuid uuid
             \<lparr>dfi_index_id = index_id, dfi_max_sequence = 0, dfi_introducer_device_key = introducer_key\<rparr> d (fd_uuid fd)) fd) cl))))"

definition apply_remove_folder :: "string \<Rightarrow> cluster \<Rightarrow> outcome" where
  "apply_remove_folder fid cl = (case folders_by_id fid cl of
       None \<Rightarrow> (Some assertion_failed, cl)
     | Some fd \<Rightarrow> drop_files (concat (map fo_file_infos (fd_folder_infos fd)))
         (cl\<lparr>cl_folders := gm_remove fd_indices fd (cl_folders cl)\<rparr>))"

definition apply_suspend_folder :: "string \<Rightarrow> bool \<Rightarrow> nat option \<Rightarrow> cluster \<Rightarrow> outcome" where
  "apply_suspend_folder fid value ec cl = (case folders_by_id fid cl of
       None \<Rightarrow> (None, cl)
     | Some fd \<Rightarrow> (case mark_suspended value ec fd of
         None \<Rightarrow> (Some assertion_failed, cl) | Some fd \<Rightarrow> (None, set_folder fd cl)))"

text \<open>
  A scan start sets the time before its siblings; the local files under its directory lose
  their local mark after them. The local folder info is dereferenced only then; that it is there is
  required at the start.
\<close>

definition before_scan_start :: "string \<Rightarrow> int \<Rightarrow> cluster \<Rightarrow> outcome" where
  "before_scan_start fid at cl = (case folder_info_of fid (cl_self cl) cl of
       None \<Rightarrow> (Some assertion_failed, cl)
     | Some (fd, _) \<Rightarrow> (None, set_folder (set_scan_start at fd) cl))"

definition under_dir :: "string \<Rightarrow> string \<Rightarrow> bool" where
  "under_dir sub_dir name \<longleftrightarrow> length sub_dir \<le> length name \<and>
     (sub_dir \<noteq> [] \<longrightarrow> take (length sub_dir) name = sub_dir \<and>
        (length sub_dir < length name \<longrightarrow> name ! length sub_dir = CHR ''/''))"

definition scan_mark :: "string \<Rightarrow> addr \<Rightarrow> store \<Rightarrow> store" where
  "scan_mark sub_dir f st = (case st_files st f of
       None \<Rightarrow> st
     | Some fi \<Rightarrow> if is_local fi \<and> under_dir sub_dir (fi_name fi) then put_file f (mark_local False fi) st else st)"

definition after_scan_start :: "string \<Rightarrow> string \<Rightarrow> cluster \<Rightarrow> cluster" where
  "after_scan_start fid sub_dir cl = (case folder_info_of fid (cl_self cl) cl of
       None \<Rightarrow> cl
     | Some (_, fo) \<Rightarrow> cl\<lparr>cl_store := fold (scan_mark sub_dir) (fo_file_infos fo) (cl_store cl)\<rparr>)"

definition apply_scan_finish :: "string \<Rightarrow> int \<Rightarrow> cluster \<Rightarrow> outcome" where
  "apply_scan_finish fid at cl = (case folder_info_of fid (cl_self cl) cl of
       None \<Rightarrow> (Some assertion_failed, cl)
     | Some (fd, _) \<Rightarrow> (case set_scan_finish at fd of
         None \<Rightarrow> (Some assertion_failed, cl) | Some fd \<Rightarrow> (None, set_folder fd cl)))"

definition apply_synchronization :: "int \<Rightarrow> string \<Rightarrow> cluster \<Rightarrow> outcome" where
  "apply_synchronization delta fid cl = (case folders_by_id fid cl of
       None \<Rightarrow> (None, cl)
     | Some fd \<Rightarrow> (case adjust_synchronization delta fd of
         None \<Rightarrow> (Some assertion_failed, cl) | Some fd \<Rightarrow> (None, set_folder fd cl)))"

subsection \<open>Devices\<close>

definition pending_device_prefix :: u8 where "pending_device_prefix = 0x18"
definition ignored_device_prefix :: u8 where "ignored_device_prefix = 0x14"

text \<open>\<open>device_t::create\<close>; a new state takes the next token, also when an address is refused afterwards.\<close>

definition cl_create_device :: "env \<Rightarrow> bytes \<Rightarrow> db_device \<Rightarrow> cluster \<Rightarrow> (device_error, device) result option \<times> cluster" where
  "cl_create_device E key data cl =
     (let r = device_create (en_url E) (cl_token cl) key data
      in (r, if (case r of Some (Inr _) \<Rightarrow> True | Some (Inl malformed_url) \<Rightarrow> True | _ \<Rightarrow> False)
             then cl\<lparr>cl_token := cl_token cl + 1\<rparr> else cl))"

definition put_device :: "device \<Rightarrow> cluster \<Rightarrow> cluster" where
  "put_device d cl = cl\<lparr>cl_devices := gm_fold dv_indices d (cl_devices cl)\<rparr>"

definition add_device :: "env \<Rightarrow> bytes \<Rightarrow> db_device \<Rightarrow> cluster \<Rightarrow> outcome" where
  "add_device E key data cl = (case cl_create_device E key data cl of
       (None, cl) \<Rightarrow> (Some assertion_failed, cl)
     | (Some (Inl e), cl) \<Rightarrow> (Some (device_failure e), cl)
     | (Some (Inr d), cl) \<Rightarrow> (None, put_device d cl))"

definition apply_remove_peer :: "bytes \<Rightarrow> cluster \<Rightarrow> outcome" where
  "apply_remove_peer peer_key cl =
     (let sha256 = drop 1 peer_key
      in if length sha256 \<noteq> digest_length then (Some assertion_failed, cl)
         else case devices_by_sha256 sha256 (cl_devices cl) of
                None \<Rightarrow> (Some no_such_device, cl)
              | Some peer \<Rightarrow> if dv_sha peer = cl_self cl then (Some cannot_remove_self, cl)
                  else (None, cl\<lparr>cl_devices := gm_remove dv_indices peer (cl_devices cl)\<rparr>))"

definition apply_update_peer :: "env \<Rightarrow> bytes \<Rightarrow> db_device \<Rightarrow> cluster \<Rightarrow> outcome" where
  "apply_update_peer E peer_id item cl = (case devices_by_sha256 peer_id (cl_devices cl) of
       None \<Rightarrow> (case from_sha256 peer_id of
           None \<Rightarrow> (Some assertion_failed, cl)
         | Some None \<Rightarrow> (Some malformed_deviceid, cl)
         | Some (Some _) \<Rightarrow> add_device E (device_prefix # peer_id) item cl)
     | Some peer \<Rightarrow> (case device_update (en_url E) item peer of
           (Some e, d) \<Rightarrow> (Some (device_failure e), set_device d cl)
         | (None, d) \<Rightarrow> (None, set_device d cl)))"

text \<open>The digest is the only key of a pending or ignored device.\<close>

definition put_some :: "some_device \<Rightarrow> some_device list \<Rightarrow> some_device list" where
  "put_some s m = gm_fold [\<lambda>x. did_sha256 (so_device_id x)] s m"

definition remove_some :: "bytes \<Rightarrow> some_device list \<Rightarrow> some_device list option" where
  "remove_some device_key m = (case some_by_sha256 (drop 1 device_key) m of
       None \<Rightarrow> None | Some s \<Rightarrow> Some (gm_remove [\<lambda>x. did_sha256 (so_device_id x)] s m))"

definition update_some :: "device_id \<Rightarrow> db_some_device \<Rightarrow> some_device list \<Rightarrow> some_device list option" where
  "update_some did db m = (if some_by_sha256 (did_sha256 did) m = None then None
     else Some (map (\<lambda>x. if did_sha256 (so_device_id x) = did_sha256 did then some_device_assign db x else x) m))"

definition with_pending :: "some_device list option \<Rightarrow> cluster \<Rightarrow> outcome" where
  "with_pending m cl = (case m of None \<Rightarrow> (Some no_such_device, cl) | Some m \<Rightarrow> (None, cl\<lparr>cl_pending_devices := m\<rparr>))"

definition with_ignored :: "some_device list option \<Rightarrow> cluster \<Rightarrow> outcome" where
  "with_ignored m cl = (case m of None \<Rightarrow> (Some no_such_device, cl) | Some m \<Rightarrow> (None, cl\<lparr>cl_ignored_devices := m\<rparr>))"

definition apply_add_pending_device :: "device_id \<Rightarrow> db_some_device \<Rightarrow> cluster \<Rightarrow> outcome" where
  "apply_add_pending_device did db cl =
     with_pending (Some (put_some (some_device_create pending_device_prefix did db) (cl_pending_devices cl))) cl"

definition apply_add_ignored_device :: "device_id \<Rightarrow> db_some_device \<Rightarrow> cluster \<Rightarrow> outcome" where
  "apply_add_ignored_device did db cl =
     with_ignored (Some (put_some (some_device_create ignored_device_prefix did db) (cl_ignored_devices cl))) cl"

definition apply_peer_state :: "env \<Rightarrow> bytes \<Rightarrow> device_state \<Rightarrow> string \<Rightarrow> string \<Rightarrow> cluster \<Rightarrow> outcome" where
  "apply_peer_state E peer_id state client_name client_version cl = (case devices_by_sha256 peer_id (cl_devices cl) of
       None \<Rightarrow> (Some assertion_failed, cl)
     | Some peer \<Rightarrow>
        (case (case ds_less (dv_state peer) state of
                 Some False \<Rightarrow> can_roollback_to (dv_state peer) state | r \<Rightarrow> r) of
           None \<Rightarrow> (Some assertion_failed, cl)
         | Some False \<Rightarrow> (None, cl)
         | Some True \<Rightarrow>
             (let peer = update_state (en_local_time E) (ds_clone state) peer
              in (None, set_device (if ds_connection state = online then update_contact client_name client_version peer else peer) cl))))"

definition apply_update_contact :: "device_id \<Rightarrow> bool \<Rightarrow> uri list \<Rightarrow> cluster \<Rightarrow> outcome" where
  "apply_update_contact did known uris cl =
     (if \<not> known then (None, cl)
      else case devices_by_sha256 (did_sha256 did) (cl_devices cl) of
             None \<Rightarrow> (Some assertion_failed, cl)
           | Some d \<Rightarrow> (None, set_device (assign_uris uris d) cl))"

text \<open>Transferred bytes are counted for the peer and for the local device, in 64 bits.\<close>

definition count_rx_tx :: "nat \<Rightarrow> nat \<Rightarrow> device \<Rightarrow> device" where
  "count_rx_tx rx tx d = d\<lparr>dv_rx_bytes := (dv_rx_bytes d + rx) mod 2 ^ 64, dv_tx_bytes := (dv_tx_bytes d + tx) mod 2 ^ 64\<rparr>"

definition apply_rx_tx :: "bytes \<Rightarrow> nat \<Rightarrow> nat \<Rightarrow> cluster \<Rightarrow> outcome" where
  "apply_rx_tx peer_id rx tx cl =
     (let cl = (case devices_by_sha256 peer_id (cl_devices cl) of
                  None \<Rightarrow> cl | Some peer \<Rightarrow> set_device (count_rx_tx rx tx peer) cl)
      in (None, set_device (count_rx_tx rx tx (cl_device cl)) cl))"

definition set_views :: "bytes \<Rightarrow> (remote_views \<Rightarrow> remote_views) \<Rightarrow> cluster \<Rightarrow> outcome" where
  "set_views peer_id upd cl = (case devices_by_sha256 peer_id (cl_devices cl) of
       None \<Rightarrow> (Some assertion_failed, cl)
     | Some peer \<Rightarrow> (None, set_device (peer\<lparr>dv_remote_view_map := upd (dv_remote_view_map peer)\<rparr>) cl))"

definition apply_update_remote_views :: "bytes \<Rightarrow> (string \<times> device_id \<times> u64 \<times> int) list \<Rightarrow> cluster \<Rightarrow> outcome" where
  "apply_update_remote_views peer_id items =
     set_views peer_id (fold (\<lambda>(fid, d, index_id, max_seq). view_push (did_sha256 d) fid index_id max_seq) items)"

definition before_cluster_update :: "bytes \<Rightarrow> cluster \<Rightarrow> outcome" where
  "before_cluster_update peer_id = set_views peer_id (\<lambda>_. Map.empty)"

subsection \<open>Pending folders\<close>

definition put_pending_folder :: "pending_folder \<Rightarrow> cluster \<Rightarrow> cluster" where
  "put_pending_folder p cl = cl\<lparr>cl_pending_folders := gm_fold pn_indices p (cl_pending_folders cl)\<rparr>"

fun apply_add_pending_folders :: "(db_pending_folder \<times> bytes \<times> bytes) list \<Rightarrow> cluster \<Rightarrow> outcome" where
  "apply_add_pending_folders [] cl = (None, cl)"
| "apply_add_pending_folders ((db, peer_id, uuid) # items) cl = (case devices_by_sha256 peer_id (cl_devices cl) of
       None \<Rightarrow> (Some assertion_failed, cl)
     | Some peer \<Rightarrow> apply_add_pending_folders items (put_pending_folder (pn_create_uuid uuid db (dv_id peer)) cl))"

fun apply_remove_pending_folders :: "bytes list \<Rightarrow> cluster \<Rightarrow> outcome" where
  "apply_remove_pending_folders [] cl = (None, cl)"
| "apply_remove_pending_folders (key # keys) cl = (case gm_get pn_key key (cl_pending_folders cl) of
       None \<Rightarrow> (Some assertion_failed, cl)
     | Some p \<Rightarrow> apply_remove_pending_folders keys (cl\<lparr>cl_pending_folders := gm_remove pn_indices p (cl_pending_folders cl)\<rparr>))"

subsection \<open>Loading from the database\<close>

fun each :: "('i \<Rightarrow> cluster \<Rightarrow> outcome) \<Rightarrow> 'i list \<Rightarrow> cluster \<Rightarrow> outcome" where
  "each step [] cl = (None, cl)"
| "each step (x # xs) cl = and_then (step x cl) (each step xs)"

definition apply_load_block :: "bytes \<times> int \<Rightarrow> cluster \<Rightarrow> outcome" where
  "apply_load_block item cl = (case item of (key, db_size) \<Rightarrow> (case bi_create_db key db_size of
       Inl e \<Rightarrow> (Some (block_failure e), cl) | Inr b \<Rightarrow> (None, put_new_block b cl)))"

definition apply_load_device :: "env \<Rightarrow> bytes \<times> bytes \<Rightarrow> cluster \<Rightarrow> outcome" where
  "apply_load_device E item cl = (case item of (key, value) \<Rightarrow>
     if key = dv_key (cl_device cl) then (None, put_device (cl_device cl) cl)
     else case en_decode_device E value of
            None \<Rightarrow> (Some deserialization_failure, cl)
          | Some db \<Rightarrow> add_device E key db cl)"

definition apply_load_devices :: "env \<Rightarrow> (bytes \<times> bytes) list \<Rightarrow> cluster \<Rightarrow> outcome" where
  "apply_load_devices E items cl = and_then (each (apply_load_device E) items cl) (\<lambda>cl.
     if devices_by_sha256 (cl_self cl) (cl_devices cl) = None then (Some assertion_failed, cl) else (None, cl))"

definition apply_load_folder :: "env \<Rightarrow> bytes \<times> bytes \<Rightarrow> cluster \<Rightarrow> outcome" where
  "apply_load_folder E item cl = (case item of (key, value) \<Rightarrow> (case en_decode_folder E value of
       None \<Rightarrow> (Some deserialization_failure, cl)
     | Some db \<Rightarrow> (case folder_create key db of
         Inl e \<Rightarrow> (Some (folder_failure e), cl)
       | Inr fd \<Rightarrow> (None, cl\<lparr>cl_folders := gm_fold fd_indices fd (cl_folders cl)\<rparr>))))"

definition apply_load_folder_info :: "bytes \<times> db_folder_info \<Rightarrow> cluster \<Rightarrow> outcome" where
  "apply_load_folder_info item cl = (case item of (key, db) \<Rightarrow> (case folder_info_decompose_key key of
       None \<Rightarrow> (Some assertion_failed, cl)
     | Some (device_key, folder_key, _) \<Rightarrow> (case devices_by_key device_key (cl_devices cl) of
         None \<Rightarrow> (Some no_such_device, cl)
       | Some d \<Rightarrow> (case folders_by_key folder_key cl of
           None \<Rightarrow> (Some no_such_folder, cl)
         | Some fd \<Rightarrow> (case fo_create_key key db d (fd_uuid fd) of
             None \<Rightarrow> (Some assertion_failed, cl)
           | Some (Inl e) \<Rightarrow> (Some (folder_failure e), cl)
           | Some (Inr fo) \<Rightarrow> (None, set_folder (folder_add fo fd) cl))))))"

text \<open>The folder info with an identifier, with its folder.\<close>

definition folder_info_by_uuid :: "bytes \<Rightarrow> cluster \<Rightarrow> (folder \<times> folder_info) option" where
  "folder_info_by_uuid uuid cl =
     find (\<lambda>(fd, fo). fo_uuid fo = uuid) (concat (map (\<lambda>fd. map (Pair fd) (fd_folder_infos fd)) (cl_folders cl)))"

fun assign_loaded :: "addr \<Rightarrow> nat \<Rightarrow> bytes list \<Rightarrow> cluster \<Rightarrow> outcome" where
  "assign_loaded f i [] cl = (None, cl)"
| "assign_loaded f i (h # hs) cl = (case blocks_by_hash h cl of
       None \<Rightarrow> (Some assertion_failed, cl)
     | Some p \<Rightarrow> and_then (with_store (assign_block f p i) cl) (assign_loaded f (Suc i) hs))"

definition apply_load_file :: "env \<Rightarrow> bytes \<times> db_file \<Rightarrow> cluster \<Rightarrow> outcome" where
  "apply_load_file E item cl = (case item of (key, db) \<Rightarrow>
     (case folder_info_by_uuid (take uuid_length (drop 1 key)) cl of
        None \<Rightarrow> (Some assertion_failed, cl)
      | Some (fd, fo) \<Rightarrow> (case create_file_db key db (fo_uuid fo) of
          None \<Rightarrow> (Some assertion_failed, cl)
        | Some (Inl e) \<Rightarrow> (Some (file_failure e), cl)
        | Some (Inr fi) \<Rightarrow>
            (let f = cl_next cl
             in and_then (assign_loaded f 0 (df_blocks db)
                   (cl\<lparr>cl_store := put_file f fi (cl_store cl), cl_next := Suc f\<rparr>)) (cl_add_relaxed E fd fo f)))))"

definition load_some_device :: "env \<Rightarrow> u8 \<Rightarrow> bytes \<times> bytes \<Rightarrow> (cluster_error, some_device) result" where
  "load_some_device E prefix item = (case item of (key, value) \<Rightarrow>
     (case from_sha256 (take digest_length (drop 1 key)) of
        None \<Rightarrow> Inl assertion_failed
      | Some None \<Rightarrow> Inl malformed_deviceid
      | Some (Some did) \<Rightarrow> (case en_decode_some_device E value of
          None \<Rightarrow> Inl deserialization_failure | Some db \<Rightarrow> Inr (some_device_create prefix did db))))"

definition apply_load_pending_device :: "env \<Rightarrow> bytes \<times> bytes \<Rightarrow> cluster \<Rightarrow> outcome" where
  "apply_load_pending_device E item cl = (case load_some_device E pending_device_prefix item of
       Inl e \<Rightarrow> (Some e, cl) | Inr s \<Rightarrow> (None, cl\<lparr>cl_pending_devices := put_some s (cl_pending_devices cl)\<rparr>))"

definition apply_load_ignored_device :: "env \<Rightarrow> bytes \<times> bytes \<Rightarrow> cluster \<Rightarrow> outcome" where
  "apply_load_ignored_device E item cl = (case load_some_device E ignored_device_prefix item of
       Inl e \<Rightarrow> (Some e, cl) | Inr s \<Rightarrow> (None, cl\<lparr>cl_ignored_devices := put_some s (cl_ignored_devices cl)\<rparr>))"

definition apply_load_ignored_folder :: "env \<Rightarrow> bytes \<times> bytes \<Rightarrow> cluster \<Rightarrow> outcome" where
  "apply_load_ignored_folder E item cl = (case item of (key, value) \<Rightarrow>
     (case ig_create_key (en_decode_ignored_folder E) key value of
        Inl e \<Rightarrow> (Some e, cl)
      | Inr f \<Rightarrow> (None, cl\<lparr>cl_ignored_folders := gm_fold [ig_key] f (cl_ignored_folders cl)\<rparr>)))"

definition apply_load_pending_folder :: "bytes \<times> db_pending_folder option \<Rightarrow> cluster \<Rightarrow> outcome" where
  "apply_load_pending_folder item cl = (case item of (key, value) \<Rightarrow> (case value of
       None \<Rightarrow> (Some deserialization_failure, cl)
     | Some db \<Rightarrow> (case pn_create_key key db of Inl e \<Rightarrow> (Some e, cl) | Inr p \<Rightarrow> (None, put_pending_folder p cl))))"

subsection \<open>The steps of a diff\<close>

text \<open>
  A diff that only calls its siblings has no children: its own part stands before them. The
  other diffs apply their children first and fail with them.
\<close>

fun step_before :: "env \<Rightarrow> change \<Rightarrow> cluster \<Rightarrow> outcome" where
  "step_before E (add_blocks bs) cl = apply_add_blocks bs cl"
| "step_before E (remove_blocks hs) cl = apply_remove_blocks hs cl"
| "step_before E (advance action fid peer_id uuid source local) cl = before_advance action fid source cl"
| "step_before E (block_ack file_name fid dev h i unlock) cl = apply_block_ack file_name fid dev i cl"
| "step_before E (file_availability fid file_name v) cl = apply_file_availability fid file_name v cl"
| "step_before E (blocks_availability fid dev file_name valid) cl = apply_blocks_availability fid dev file_name valid cl"
| "step_before E (mark_reachable fid dev file_name r) cl = apply_mark_reachable fid dev file_name r cl"
| "step_before E (upsert_folder uuid db is_new) cl = apply_upsert_folder uuid db cl"
| "step_before E (upsert_folder_info uuid dev ikey fid index_id) cl = apply_upsert_folder_info uuid dev ikey fid index_id cl"
| "step_before E (add_pending_device did db) cl = apply_add_pending_device did db cl"
| "step_before E (add_pending_folders items) cl = apply_add_pending_folders items cl"
| "step_before E (remove_ignored_device key) cl = with_ignored (remove_some key (cl_ignored_devices cl)) cl"
| "step_before E (remove_pending_device key) cl = with_pending (remove_some key (cl_pending_devices cl)) cl"
| "step_before E (remove_pending_folders keys) cl = apply_remove_pending_folders keys cl"
| "step_before E (suspend_folder fid value ec) cl = apply_suspend_folder fid value ec cl"
| "step_before E (scan_start fid sub_dir at) cl = before_scan_start fid at cl"
| "step_before E (scan_finish fid at) cl = apply_scan_finish fid at cl"
| "step_before E (synchronization_start fid) cl = apply_synchronization 1 fid cl"
| "step_before E (synchronization_finish fid) cl = apply_synchronization (- 1) fid cl"
| "step_before E (peer_state peer_id state cn cv was_online) cl = apply_peer_state E peer_id state cn cv cl"
| "step_before E (unknown_connected did db) cl = with_pending (update_some did db (cl_pending_devices cl)) cl"
| "step_before E (ignored_connected did db) cl = with_ignored (update_some did db (cl_ignored_devices cl)) cl"
| "step_before E (update_contact_diff did known uris) cl = apply_update_contact did known uris cl"
| "step_before E (rx_tx peer_id rx tx) cl = apply_rx_tx peer_id rx tx cl"
| "step_before E (update_remote_views peer_id items) cl = apply_update_remote_views peer_id items cl"
| "step_before E (cluster_update peer_id) cl = before_cluster_update peer_id cl"
| "step_before E (load_blocks items) cl = each apply_load_block items cl"
| "step_before E (load_devices items) cl = apply_load_devices E items cl"
| "step_before E (load_folders items) cl = each (apply_load_folder E) items cl"
| "step_before E (load_folder_infos items) cl = each apply_load_folder_info items cl"
| "step_before E (load_file_infos items) cl = each (apply_load_file E) items cl"
| "step_before E (load_ignored_devices items) cl = each (apply_load_ignored_device E) items cl"
| "step_before E (load_pending_devices items) cl = each (apply_load_pending_device E) items cl"
| "step_before E (load_ignored_folders items) cl = each (apply_load_ignored_folder E) items cl"
| "step_before E (load_pending_folders items) cl = each apply_load_pending_folder items cl"
| "step_before E a cl = (None, cl)"

fun step_after :: "env \<Rightarrow> change \<Rightarrow> cluster \<Rightarrow> outcome" where
  "step_after E (update_folder fid peer_id fs uuids) cl = apply_update_folder E fid peer_id fs uuids cl"
| "step_after E (advance action fid peer_id uuid source local) cl = apply_advance E fid uuid local cl"
| "step_after E (remove_files fid dev keys) cl = apply_remove_files fid dev keys cl"
| "step_after E (remove_folder_infos keys) cl = apply_remove_folder_infos keys cl"
| "step_after E (remove_folder fid key) cl = apply_remove_folder fid cl"
| "step_after E (remove_peer key) cl = apply_remove_peer key cl"
| "step_after E (update_peer peer_id db) cl = apply_update_peer E peer_id db cl"
| "step_after E (add_ignored_device did db) cl = apply_add_ignored_device did db cl"
| "step_after E a cl = (None, cl)"

fun step_finally :: "change \<Rightarrow> cluster \<Rightarrow> cluster" where
  "step_finally (scan_start fid sub_dir at) cl = after_scan_start fid sub_dir cl"
| "step_finally a cl = cl"

fun step_skips :: "change \<Rightarrow> cluster \<Rightarrow> bool" where
  "step_skips (advance action fid peer_id uuid source local) cl = skips_advance action fid peer_id cl"
| "step_skips a cl = False"

definition cluster_steps :: "env \<Rightarrow> (change, cluster, cluster_error) steps" where
  "cluster_steps E = \<lparr>skips = step_skips, before_children = step_before E, after_children = step_after E,
     after_siblings = step_finally, commit_loading = (\<lambda>cl. cl), mark_tainted = (\<lambda>cl. cl\<lparr>cl_tainted := True\<rparr>)\<rparr>"

text \<open>A chain applied as a whole.\<close>

definition cluster_apply :: "env \<Rightarrow> change item diff list \<Rightarrow> cluster \<Rightarrow> outcome" where
  "cluster_apply E d cl = (case apply_chain False (cluster_steps E) d (cl, []) of (e, (cl, _)) \<Rightarrow> (e, cl))"

end
