(* ===== verification/Create.thy ===== *)
theory Create
  imports Changes "HOL-Library.List_Lexorder"
begin

text \<open>
  How the diffs that change folders, devices and their files are made from the cluster: the
  constructors and \<open>create\<close> functions of \<^verbatim>\<open>src/model/diff/modify/\<close>. A constructor gives the diff with its children.
  Ordered sets of keys are sorted lists; the folder infos of a hash map come in the order
  the caller lists them, with their folder. Files recorded for the deduction of orphaned
  blocks are handed from one constructor to the next, as the pointer to the common set is.
\<close>

type_synonym cdiff = "change item diff"

definition diffs_batch :: nat where "diffs_batch = 256"

definition assemble :: "cdiff list \<Rightarrow> cdiff list" where
  "assemble ds = (case new_assembler diffs_batch of
       None \<Rightarrow> []
     | Some a \<Rightarrow> (case push_all ds a of None \<Rightarrow> [] | Some a \<Rightarrow> snd (consume a)))"

abbreviation leaf :: "change \<Rightarrow> cdiff" where "leaf a \<equiv> Diff (change a) []"

definition diffs_if :: "bool \<Rightarrow> cdiff list \<Rightarrow> cdiff list" where
  "diffs_if b ds = (if b then ds else [])"

text \<open>The blocks to remove when they are to be deduced here and not by the caller.\<close>

definition remove_orphans :: "store \<Rightarrow> addr list \<Rightarrow> cdiff list" where
  "remove_orphans st orphaned = (let hs = sort (deduce st orphaned []) in diffs_if (hs \<noteq> []) [leaf (remove_blocks hs)])"

subsection \<open>Files and folder infos\<close>

definition file_db_key :: "store \<Rightarrow> addr \<Rightarrow> bytes" where
  "file_db_key st f = file_key_prefix # fi_key (file_at st f)"

text \<open>\<open>shared\<close> is the caller's set of recorded files, or \<open>None\<close> without one.\<close>

definition own_orphans :: "store \<Rightarrow> addr list option \<Rightarrow> addr list \<Rightarrow> cdiff list" where
  "own_orphans st shared recorded = (case shared of Some _ \<Rightarrow> [] | None \<Rightarrow> remove_orphans st recorded)"

definition record_all :: "addr list \<Rightarrow> addr list option \<Rightarrow> addr list" where
  "record_all fs shared = fold record_file fs (case shared of Some r \<Rightarrow> r | None \<Rightarrow> [])"

definition make_remove_files :: "store \<Rightarrow> folder \<Rightarrow> folder_info \<Rightarrow> addr list \<Rightarrow> addr list option \<Rightarrow> cdiff \<times> addr list" where
  "make_remove_files st fd fo fs shared =
     (let recorded = record_all fs shared
      in (Diff (change (remove_files (fd_id fd) (fo_device fo) (map (file_db_key st) fs))) (own_orphans st shared recorded),
          recorded))"

fun remove_each :: "store \<Rightarrow> (folder \<times> folder_info) list \<Rightarrow> addr list \<Rightarrow> cdiff list \<times> addr list" where
  "remove_each st [] recorded = ([], recorded)"
| "remove_each st ((fd, fo) # items) recorded =
     (if fo_file_infos fo = [] then remove_each st items recorded
      else case make_remove_files st fd fo (fo_file_infos fo) (Some recorded) of
             (d, recorded) \<Rightarrow> (case remove_each st items recorded of (ds, recorded) \<Rightarrow> (d # ds, recorded)))"

definition make_reset_folder_infos :: "store \<Rightarrow> (folder \<times> folder_info) list \<Rightarrow> addr list option \<Rightarrow> cdiff \<times> addr list" where
  "make_reset_folder_infos st items shared =
     (case remove_each st items (record_all [] shared) of
        (ds, recorded) \<Rightarrow> (Diff (change reset_folder_infos) (assemble (ds @ own_orphans st shared recorded)), recorded))"

definition make_remove_folder_infos :: "store \<Rightarrow> (folder \<times> folder_info) list \<Rightarrow> addr list option \<Rightarrow> cdiff \<times> addr list" where
  "make_remove_folder_infos st items shared =
     (case make_reset_folder_infos st items shared of
        (d, recorded) \<Rightarrow>
          (Diff (change (remove_folder_infos (remdups (sort (map (folder_info_key \<circ> snd) items))))) [d], recorded))"

definition make_unshare_folder :: "store \<Rightarrow> folder \<Rightarrow> folder_info \<Rightarrow> addr list option \<Rightarrow> cdiff \<times> addr list" where
  "make_unshare_folder st fd fo shared =
     (case make_remove_folder_infos st [(fd, fo)] (Some (record_all [] shared)) of
        (d, recorded) \<Rightarrow> (Diff (change unshare_folder) (assemble (d # own_orphans st shared recorded)), recorded))"

fun unshare_each :: "store \<Rightarrow> (folder \<times> folder_info) list \<Rightarrow> addr list \<Rightarrow> cdiff list \<times> addr list" where
  "unshare_each st [] recorded = ([], recorded)"
| "unshare_each st ((fd, fo) # items) recorded =
     (case make_unshare_folder st fd fo (Some recorded) of
        (d, recorded) \<Rightarrow> (case unshare_each st items recorded of (ds, recorded) \<Rightarrow> (d # ds, recorded)))"

subsection \<open>Folders\<close>

text \<open>A peer keeps offering the folder that is removed here; the interval and the watch flag are left unset.\<close>

definition pending_of :: "folder \<Rightarrow> folder_info \<Rightarrow> db_pending_folder" where
  "pending_of fd fo = \<lparr>dpf_folder = (fd_data fd)\<lparr>dfo_watched := False, dfo_rescan_interval := 0\<rparr>,
     dpf_folder_info = \<lparr>dfi_index_id = fo_index fo, dfi_max_sequence = fo_max_sequence fo, dfi_introducer_device_key = []\<rparr>\<rparr>"

fun pendings_of :: "bytes \<Rightarrow> folder \<Rightarrow> folder_info list \<Rightarrow> sequencer \<Rightarrow> (db_pending_folder \<times> bytes \<times> bytes) list \<times> sequencer" where
  "pendings_of self fd [] sq = ([], sq)"
| "pendings_of self fd (fo # fos) sq =
     (if fo_device fo \<noteq> self \<and> fo_index fo \<noteq> 0
      then case next_uuid sq of (uuid, sq) \<Rightarrow>
             (case pendings_of self fd fos sq of (items, sq) \<Rightarrow> ((pending_of fd fo, fo_device fo, uuid) # items, sq))
      else pendings_of self fd fos sq)"

definition make_remove_folder :: "cluster \<Rightarrow> folder \<Rightarrow> sequencer \<Rightarrow> cdiff \<times> sequencer" where
  "make_remove_folder cl fd sq =
     (case unshare_each (cl_store cl) (map (Pair fd) (fd_folder_infos fd)) [] of (ds, recorded) \<Rightarrow>
     (case pendings_of (cl_self cl) fd (fd_folder_infos fd) sq of (offers, sq) \<Rightarrow>
       (Diff (change (remove_folder (fd_id fd) (fd_key fd)))
          (assemble (ds @ remove_orphans (cl_store cl) recorded @ diffs_if (offers \<noteq> []) [leaf (add_pending_folders offers)])), sq)))"

definition make_upsert_folder :: "cluster \<Rightarrow> db_folder \<Rightarrow> u64 \<Rightarrow> sequencer \<Rightarrow> cdiff \<times> sequencer" where
  "make_upsert_folder cl db index_id sq =
     (let prev = folders_by_id (dfo_id db) cl;
          self = cl_device cl;
          fo = (case prev of None \<Rightarrow> None | Some fd \<Rightarrow> by_device (dv_sha self) fd)
      in case (case prev of Some fd \<Rightarrow> (fd_uuid fd, sq) | None \<Rightarrow> next_uuid sq) of (uuid, sq) \<Rightarrow>
         (case (if index_id = 0 then next_uint64 sq else (index_id, sq)) of (index_id, sq) \<Rightarrow>
         (let d = change (upsert_folder uuid (db\<lparr>dfo_disable_temp_indexes := True\<rparr>) (prev = None))
          in case fo of
               Some _ \<Rightarrow> (Diff d [], sq)
             | None \<Rightarrow> (case next_uuid sq of (fi_uuid, sq) \<Rightarrow>
                 (Diff d [leaf (upsert_folder_info fi_uuid (dv_sha self) (did_get_key (dv_id self)) (dfo_id db) index_id)], sq)))))"

definition make_share_folder :: "cluster \<Rightarrow> device \<Rightarrow> device_id \<Rightarrow> folder \<Rightarrow> sequencer \<Rightarrow> (cluster_error, cdiff \<times> sequencer) result" where
  "make_share_folder cl peer introducer fd sq =
     (if by_device (dv_sha peer) fd \<noteq> None then Inl folder_is_already_shared
      else let pf = find (\<lambda>p. did_sha256 (pn_device p) = dv_sha peer \<and> pn_id p = fd_id fd) (cl_pending_folders cl)
           in case next_uuid sq of (uuid, sq) \<Rightarrow>
              Inr (Diff (change share_folder) (assemble
                     (leaf (upsert_folder_info uuid (dv_sha peer) (did_get_key introducer) (fd_id fd)
                        (case pf of None \<Rightarrow> 0 | Some p \<Rightarrow> pn_index p)) #
                      (case pf of None \<Rightarrow> [] | Some p \<Rightarrow> [leaf (remove_pending_folders [pn_key p])]))), sq))"

subsection \<open>Devices\<close>

text \<open>The folder infos of a device, with their folders.\<close>

definition shared_with :: "bytes \<Rightarrow> cluster \<Rightarrow> (folder \<times> folder_info) list" where
  "shared_with dev cl = List.map_filter (\<lambda>fd. map_option (Pair fd) (is_shared_with dev fd)) (cl_folders cl)"

definition make_remove_peer :: "cluster \<Rightarrow> device \<Rightarrow> cdiff" where
  "make_remove_peer cl peer =
     (let offers = remdups (sort (map pn_key (filter (\<lambda>p. did_sha256 (pn_device p) = dv_sha peer) (cl_pending_folders cl))))
      in case unshare_each (cl_store cl) (shared_with (dv_sha peer) cl) [] of (ds, recorded) \<Rightarrow>
         Diff (change (remove_peer (dv_key peer)))
           (assemble (diffs_if (offers \<noteq> []) [leaf (remove_pending_folders offers)] @ ds @ remove_orphans (cl_store cl) recorded)))"

definition make_update_peer :: "cluster \<Rightarrow> device_id \<Rightarrow> db_device \<Rightarrow> cdiff" where
  "make_update_peer cl did db =
     Diff (change (update_peer (did_sha256 did) db)) (assemble
       ((case some_by_sha256 (did_sha256 did) (cl_pending_devices cl) of None \<Rightarrow> [] | Some s \<Rightarrow> [leaf (remove_pending_device (so_key s))]) @
        (case some_by_sha256 (did_sha256 did) (cl_ignored_devices cl) of None \<Rightarrow> [] | Some s \<Rightarrow> [leaf (remove_ignored_device (so_key s))])))"

definition make_add_ignored_device :: "cluster \<Rightarrow> device_id \<Rightarrow> db_some_device \<Rightarrow> cdiff" where
  "make_add_ignored_device cl did db =
     Diff (change (add_ignored_device did db))
       (case some_by_sha256 (did_sha256 did) (cl_pending_devices cl) of None \<Rightarrow> [] | Some s \<Rightarrow> [leaf (remove_pending_device (so_key s))])"

text \<open>A state that is neither above the present one nor one it can fall back to gives no diff.\<close>

definition make_peer_state :: "cluster \<Rightarrow> bytes \<Rightarrow> device_state \<Rightarrow> string \<Rightarrow> string \<Rightarrow> cdiff option option" where
  "make_peer_state cl peer_id state client_name client_version = (case devices_by_sha256 peer_id (cl_devices cl) of
       None \<Rightarrow> Some None
     | Some peer \<Rightarrow>
        (case (case ds_less (dv_state peer) state of Some False \<Rightarrow> can_roollback_to (dv_state peer) state | r \<Rightarrow> r) of
           None \<Rightarrow> None
         | Some False \<Rightarrow> Some None
         | Some True \<Rightarrow> Some (Some (leaf (peer_state peer_id (ds_clone state) client_name client_version
             (ds_connection (dv_state peer) = online \<and> ds_connection state \<noteq> online))))))"

end
