(* ===== verification/Index_Update.thy ===== *)
theory Index_Update
  imports Create "HOL-Library.Sublist"
begin

text \<open>
  How the index message of a peer becomes a diff (\<^verbatim>\<open>src/model/diff/peer/update_folder.cpp\<close>): outdated
  entries of the message are skipped, the others are checked, new blocks are collected, and the
  blocks that nothing uses afterwards are deduced.
\<close>

subsection \<open>Choosing the files\<close>

text \<open>The first pass goes from the last file to the first and gives the indices of files named again later.\<close>

fun outdated :: "nat \<Rightarrow> pr_file list \<Rightarrow> string list \<Rightarrow> nat list" where
  "outdated i [] seen = []"
| "outdated i (f # fs) seen =
     (if pf_name f \<in> set seen then (i - 1) # outdated (i - 1) fs seen
      else outdated (i - 1) fs (pf_name f # seen))"

definition outdated_files :: "pr_file list \<Rightarrow> nat list" where
  "outdated_files fs = outdated (length fs) (rev fs) []"

text \<open>
  The loop over the blocks of a file: the sum of the sizes, the hashes of new blocks and the new
  blocks; a hash that is too long violates an assertion.
\<close>

fun collect_blocks :: "cluster \<Rightarrow> pr_block list \<Rightarrow> int \<Rightarrow> bytes list \<Rightarrow> pr_block list \<Rightarrow> (int \<times> bytes list \<times> pr_block list) option" where
  "collect_blocks cl [] size_by_blocks hashes new = Some (size_by_blocks, hashes, new)"
| "collect_blocks cl (b # bs) size_by_blocks hashes new = (case make_strict_hash (pb_hash b) of
       None \<Rightarrow> None
     | Some h \<Rightarrow>
        (if blocks_by_hash h cl = None \<and> h \<notin> set hashes
         then collect_blocks cl bs (to_s64 (size_by_blocks + pb_size b)) (h # hashes) (new @ [b])
         else collect_blocks cl bs (to_s64 (size_by_blocks + pb_size b)) hashes new))"

definition is_downloadable :: "pr_file \<Rightarrow> bool" where
  "is_downloadable f \<longleftrightarrow> \<not> pf_deleted f \<and> \<not> pf_invalid f \<and> pf_type f = FILE"

text \<open>What becomes of a file of the message.\<close>

datatype verdict = known_file | refused cluster_error | accepted "bytes list" "pr_block list"

definition examine :: "cluster \<Rightarrow> folder_info \<Rightarrow> pr_file \<Rightarrow> bytes list \<Rightarrow> pr_block list \<Rightarrow> verdict" where
  "examine cl fo f hashes new =
     (if pf_sequence f \<le> fo_max_sequence fo
      then case by_name (cl_store cl) (pf_name f) fo of
             None \<Rightarrow> refused invalid_sequence
           | Some prev \<Rightarrow> (case fi_identical_to (cl_store cl) (file_at (cl_store cl) prev) f of
               None \<Rightarrow> refused assertion_failed
             | Some False \<Rightarrow> refused invalid_sequence
             | Some True \<Rightarrow> known_file)
      else if pf_sequence f \<le> 0 then refused invalid_sequence
      else case collect_blocks cl (pf_blocks f) 0 hashes new of
             None \<Rightarrow> refused assertion_failed
           | Some (size_by_blocks, hashes, new) \<Rightarrow>
               if is_downloadable f \<and> pf_size f \<noteq> size_by_blocks then refused mismatch_file_size
               else if pf_version f = [] then refused missing_version
               else accepted hashes new)"

text \<open>The second pass, over the files with their indices.\<close>

fun select_files :: "cluster \<Rightarrow> folder_info \<Rightarrow> nat list \<Rightarrow> (nat \<times> pr_file) list \<Rightarrow> bytes list \<Rightarrow> pr_block list \<Rightarrow>
    (cluster_error, pr_file list \<times> pr_block list) result" where
  "select_files cl fo skipped [] hashes new = Inr ([], new)"
| "select_files cl fo skipped ((i, f) # fs) hashes new =
     (if i \<in> set skipped then select_files cl fo skipped fs hashes new
      else case examine cl fo f hashes new of
             known_file \<Rightarrow> select_files cl fo skipped fs hashes new
           | refused e \<Rightarrow> Inl e
           | accepted hashes new \<Rightarrow> (case select_files cl fo skipped fs hashes new of
               Inl e \<Rightarrow> Inl e | Inr (files, new) \<Rightarrow> Inr (f # files, new)))"

subsection \<open>Making the diff\<close>

text \<open>The identifiers: the one of the known file with the name, or a new one; known files are recorded.\<close>

fun name_files :: "store \<Rightarrow> folder_info \<Rightarrow> pr_file list \<Rightarrow> addr list \<Rightarrow> sequencer \<Rightarrow> bytes list \<times> addr list \<times> sequencer" where
  "name_files st fo [] recorded sq = ([], recorded, sq)"
| "name_files st fo (f # fs) recorded sq = (case by_name st (pf_name f) fo of
       Some prev \<Rightarrow> (case name_files st fo fs (record_file prev recorded) sq of
         (uuids, r) \<Rightarrow> (fi_get_uuid (file_at st prev) # uuids, r))
     | None \<Rightarrow> (case next_uuid sq of (uuid, sq) \<Rightarrow>
         (case name_files st fo fs recorded sq of (uuids, r) \<Rightarrow> (uuid # uuids, r))))"

definition strict_hashes :: "pr_block list \<Rightarrow> bytes list" where
  "strict_hashes bs = List.map_filter (make_strict_hash \<circ> pb_hash) bs"

text \<open>Orphaned are the blocks of replaced versions, save those of the new versions and the new blocks.\<close>

definition construct :: "cluster \<Rightarrow> string \<Rightarrow> folder_info \<Rightarrow> pr_file list \<Rightarrow> pr_block list \<Rightarrow> sequencer \<Rightarrow> cdiff \<times> sequencer" where
  "construct cl fid fo files new sq =
     (case name_files (cl_store cl) fo files [] sq of (uuids, recorded, sq) \<Rightarrow>
       (let white = strict_hashes (concat (map pf_blocks files));
            orphaned = filter (\<lambda>h. h \<notin> set (strict_hashes new)) (sort (deduce (cl_store cl) recorded white))
        in (Diff (change (update_folder fid (fo_device fo) files uuids))
              (assemble (diffs_if (new \<noteq> []) [leaf (add_blocks new)] @ diffs_if (orphaned \<noteq> []) [leaf (remove_blocks orphaned)])), sq)))"

definition make_update_folder :: "cluster \<Rightarrow> bytes \<Rightarrow> pr_index \<Rightarrow> sequencer \<Rightarrow> (cluster_error, cdiff \<times> sequencer) result" where
  "make_update_folder cl source message sq = (case folders_by_id (pi_folder message) cl of
       None \<Rightarrow> Inl folder_does_not_exist
     | Some fd \<Rightarrow> (case by_device source fd of
         None \<Rightarrow> Inl folder_is_not_shared
       | Some fo \<Rightarrow>
          (case select_files cl fo (outdated_files (pi_files message)) (enumerate 0 (pi_files message)) [] [] of
             Inl e \<Rightarrow> Inl e
           | Inr (files, new) \<Rightarrow> Inr (construct cl (fd_id fd) fo files new sq))))"

subsection \<open>Only the latest entry of a name\<close>

lemma outdated_iff:
  "n \<le> length fs \<Longrightarrow> set (outdated n (rev (take n fs)) seen) =
     {i. i < n \<and> (pf_name (fs ! i) \<in> set seen \<or> (\<exists>j. i < j \<and> j < n \<and> pf_name (fs ! j) = pf_name (fs ! i)))}"
proof (induction n arbitrary: seen)
  case (Suc n)
  have t: "rev (take (Suc n) fs) = fs ! n # rev (take n fs)" using Suc.prems by (simp add: take_Suc_conv_app_nth)
  have split: "{i. i < Suc n \<and> P i} = {i. i < n \<and> P i} \<union> (if P n then {n} else {})" for P by (auto simp: less_Suc_eq)
  have last: "(\<exists>j. i < j \<and> j < Suc n \<and> pf_name (fs ! j) = pf_name (fs ! i)) \<longleftrightarrow>
      pf_name (fs ! i) = pf_name (fs ! n) \<or> (\<exists>j. i < j \<and> j < n \<and> pf_name (fs ! j) = pf_name (fs ! i))" if "i < n" for i
    using that by (metis less_Suc_eq)
  have none: "\<not> (\<exists>j. n < j \<and> j < Suc n \<and> Q j)" for Q by simp
  show ?case
  proof (cases "pf_name (fs ! n) \<in> set seen")
    case True
    then show ?thesis using Suc.IH [of seen] Suc.prems by (simp add: t split none) (auto simp: less_Suc_eq)
  next
    case False
    then show ?thesis using Suc.IH [of "pf_name (fs ! n) # seen"] Suc.prems by (simp add: t split none) (use last in auto)
  qed
qed simp

lemma outdated_files_iff:
  "set (outdated_files fs) = {i. i < length fs \<and> (\<exists>j. i < j \<and> j < length fs \<and> pf_name (fs ! j) = pf_name (fs ! i))}"
  using outdated_iff [of "length fs" fs "[]"] by (simp add: outdated_files_def)

text \<open>The files of the second pass have distinct names, and every name of the message is among them.\<close>

definition latest :: "pr_file list \<Rightarrow> pr_file list" where
  "latest fs = map snd (filter (\<lambda>(i, f). i \<notin> set (outdated_files fs)) (enumerate 0 fs))"

lemma latest_names: "distinct (map pf_name (latest fs))"
proof -
  let ?is = "filter (\<lambda>(i, f). i \<notin> set (outdated_files fs)) (enumerate 0 fs)"
  have "inj_on (\<lambda>x. pf_name (snd x)) (set ?is)"
  proof (rule inj_onI)
    fix x y assume "x \<in> set ?is" "y \<in> set ?is" "pf_name (snd x) = pf_name (snd y)"
    then have "fst x = fst y" "snd x = fs ! fst x" "snd y = fs ! fst y"
      by (auto simp: in_set_enumerate_eq outdated_files_iff) (metis nat_neq_iff)
    then show "x = y" by (simp add: prod_eq_iff)
  qed
  moreover have "distinct ?is" by (simp add: distinct_enumerate)
  ultimately show ?thesis by (simp add: latest_def distinct_map comp_def)
qed

lemma latest_mem: "set (latest fs) \<subseteq> set fs"
  by (auto simp: latest_def in_set_enumerate_eq)

lemma latest_complete: "f \<in> set fs \<Longrightarrow> \<exists>g \<in> set (latest fs). pf_name g = pf_name f"
proof -
  assume "f \<in> set fs"
  then obtain i where i: "i < length fs" "fs ! i = f" by (auto simp: in_set_conv_nth)
  define j where "j = Max {j. j < length fs \<and> pf_name (fs ! j) = pf_name f}"
  have fin: "finite {j. j < length fs \<and> pf_name (fs ! j) = pf_name f}" by simp
  have "{j. j < length fs \<and> pf_name (fs ! j) = pf_name f} \<noteq> {}" using i by auto
  then have "j \<in> {j. j < length fs \<and> pf_name (fs ! j) = pf_name f}" unfolding j_def by (rule Max_in [OF fin])
  then have j: "j < length fs" "pf_name (fs ! j) = pf_name f" by simp_all
  have "j \<notin> set (outdated_files fs)"
  proof
    assume "j \<in> set (outdated_files fs)"
    then obtain m where m: "j < m" "m < length fs" "pf_name (fs ! m) = pf_name f" using j(2) by (auto simp: outdated_files_iff)
    then have "m \<le> j" unfolding j_def by (intro Max_ge [OF fin]) simp
    then show False using m(1) by simp
  qed
  then have "(j, fs ! j) \<in> set (filter (\<lambda>(i, f). i \<notin> set (outdated_files fs)) (enumerate 0 fs))"
    using j by (simp add: in_set_enumerate_eq)
  then have "snd (j, fs ! j) \<in> set (latest fs)" unfolding latest_def by (simp only: set_map image_eqI)
  then show ?thesis using j(2) by auto
qed

subsection \<open>New blocks\<close>

definition fresh_blocks :: "cluster \<Rightarrow> bytes list \<Rightarrow> pr_block list \<Rightarrow> bool" where
  "fresh_blocks cl hashes new \<longleftrightarrow> distinct (strict_hashes new) \<and> set (strict_hashes new) = set hashes \<and>
     (\<forall>h \<in> set hashes. blocks_by_hash h cl = None)"

definition found_blocks :: "cluster \<Rightarrow> bytes list \<Rightarrow> pr_block list \<Rightarrow> bool" where
  "found_blocks cl hashes bs \<longleftrightarrow>
     (\<forall>b \<in> set bs. \<exists>h. make_strict_hash (pb_hash b) = Some h \<and> (blocks_by_hash h cl \<noteq> None \<or> h \<in> set hashes))"

lemma found_blocks_mono: "found_blocks cl H bs \<Longrightarrow> set H \<subseteq> set H' \<Longrightarrow> found_blocks cl H' bs"
  by (fastforce simp: found_blocks_def)

lemma strict_hashes_append [simp]: "strict_hashes (bs @ cs) = strict_hashes bs @ strict_hashes cs"
  by (induction bs) (auto simp: strict_hashes_def List.map_filter_def)

lemma strict_hashes_single: "make_strict_hash (pb_hash b) = Some h \<Longrightarrow> strict_hashes [b] = [h]"
  by (simp add: strict_hashes_def List.map_filter_def)

lemma collect_blocks_ok:
  "collect_blocks cl bs n H N = Some (n', H', N') \<Longrightarrow> fresh_blocks cl H N \<Longrightarrow>
     fresh_blocks cl H' N' \<and> set H \<subseteq> set H' \<and> found_blocks cl H' bs"
proof (induction bs arbitrary: n H N)
  case (Cons b bs)
  obtain h where h: "make_strict_hash (pb_hash b) = Some h" using Cons.prems(1) by (auto split: option.splits)
  show ?case
  proof (cases "blocks_by_hash h cl = None \<and> h \<notin> set H")
    case True
    then have "fresh_blocks cl (h # H) (N @ [b])" using Cons.prems(2) h by (auto simp: fresh_blocks_def strict_hashes_single)
    then show ?thesis using Cons.IH [of "to_s64 (n + pb_size b)" "h # H" "N @ [b]"] Cons.prems(1) h True
      by (auto simp: found_blocks_def)
  next
    case False
    then show ?thesis using Cons.IH [of "to_s64 (n + pb_size b)" H N] Cons.prems h by (auto simp: found_blocks_def)
  qed
qed (auto simp: found_blocks_def)

definition acceptable :: "cluster \<Rightarrow> folder_info \<Rightarrow> bytes list \<Rightarrow> pr_file \<Rightarrow> bool" where
  "acceptable cl fo H f \<longleftrightarrow> fo_max_sequence fo < pf_sequence f \<and> 0 < pf_sequence f \<and> pf_version f \<noteq> [] \<and> found_blocks cl H (pf_blocks f)"

lemma examine_accepted:
  assumes "examine cl fo f H N = accepted H' N'" "fresh_blocks cl H N"
  shows "fresh_blocks cl H' N' \<and> set H \<subseteq> set H' \<and> acceptable cl fo H' f"
  using assms collect_blocks_ok [of cl "pf_blocks f" 0 H N]
  by (auto simp: examine_def acceptable_def split: if_splits option.splits bool.splits)

lemma examine_known: "examine cl fo f H N = known_file \<Longrightarrow> pf_sequence f \<le> fo_max_sequence fo"
  by (auto simp: examine_def split: if_splits option.splits bool.splits)

lemma select_files_ok:
  "select_files cl fo skipped ifs H N = Inr (files, N') \<Longrightarrow> fresh_blocks cl H N \<Longrightarrow>
     \<exists>H'. fresh_blocks cl H' N' \<and> set H \<subseteq> set H' \<and> (\<forall>f \<in> set files. acceptable cl fo H' f) \<and>
       subseq files (map snd (filter (\<lambda>(i, f). i \<notin> set skipped) ifs)) \<and>
       (\<forall>(i, f) \<in> set ifs. i \<notin> set skipped \<longrightarrow> f \<in> set files \<or> pf_sequence f \<le> fo_max_sequence fo)"
proof (induction cl fo skipped ifs H N arbitrary: files rule: select_files.induct)
  case (2 cl fo skipped i f fs H N)
  show ?case
  proof (cases "i \<in> set skipped")
    case True
    then show ?thesis using 2(1) [OF True] 2(4,5) by auto
  next
    case False
    show ?thesis
    proof (cases "examine cl fo f H N")
      case known_file
      then show ?thesis using 2(2) [OF False known_file] 2(4,5) False examine_known [OF known_file]
        by simp (metis (no_types, lifting) list_emb_Cons)
    next
      case (refused e)
      then show ?thesis using 2(4) False by simp
    next
      case (accepted H1 N1)
      then obtain rest where rest: "select_files cl fo skipped fs H1 N1 = Inr (rest, N')" "files = f # rest"
        using 2(4) False by (auto split: sum.splits)
      note ok = examine_accepted [OF accepted 2(5)]
      obtain H' where H': "fresh_blocks cl H' N'" "set H1 \<subseteq> set H'" "\<forall>f \<in> set rest. acceptable cl fo H' f"
          "subseq rest (map snd (filter (\<lambda>(i, f). i \<notin> set skipped) fs))"
          "\<forall>(i, f) \<in> set fs. i \<notin> set skipped \<longrightarrow> f \<in> set rest \<or> pf_sequence f \<le> fo_max_sequence fo"
        using 2(3) [OF False accepted rest(1)] ok by blast
      have "acceptable cl fo H' f" using ok H'(2) by (auto simp: acceptable_def intro: found_blocks_mono)
      then show ?thesis using H' ok rest False by (intro exI [of _ H']) auto
    qed
  qed
qed auto

subsection \<open>What an accepted message gives\<close>

lemma batched_short: "length ds < left \<Longrightarrow> batched limit left ds = ds"
  by (induction limit left ds rule: batched.induct) auto

lemma assemble_batched: "assemble ds = batched diffs_batch diffs_batch ds"
proof -
  obtain a :: "change assembler" where a: "new_assembler diffs_batch = Some a" "as_ok a" "as_batch_limit a = diffs_batch" "as_left a = diffs_batch" "as_root a = []"
    by (simp add: new_assembler_def diffs_batch_def as_ok_def)
  obtain a' where "push_all ds a = Some a'" "as_root a' = as_root a @ batched (as_batch_limit a) (as_left a) ds"
    using push_all_ok [OF a(2)] by blast
  then show ?thesis using a by (simp add: assemble_def consume_def)
qed

lemma deduce_white_listed: "h \<in> set (deduce st R W) \<Longrightarrow> h \<notin> set W"
proof -
  have step: "set (fst (deduce_block R W b acc)) \<inter> set W = {}" if "set (fst acc) \<inter> set W = {}" for b acc
    using that by (cases acc) (auto simp: deduce_block_def Let_def)
  have "set (fst (fold (deduce_block R W) bs acc)) \<inter> set W = {}" if "set (fst acc) \<inter> set W = {}" for bs acc
    using that by (induction bs arbitrary: acc) (simp_all add: step)
  from this [of "([], [])" "looked_at st R"] show "h \<in> set (deduce st R W) \<Longrightarrow> h \<notin> set W"
    unfolding deduce_def deduce_looked_at by auto
qed

lemma length_name_files: "length (fst (name_files st fo fs recorded sq)) = length fs"
  by (induction st fo fs recorded sq rule: name_files.induct) (auto split: option.splits prod.splits)

lemma strict_hashes_mem: "b \<in> set bs \<Longrightarrow> make_strict_hash (pb_hash b) = Some h \<Longrightarrow> h \<in> set (strict_hashes bs)"
  by (auto simp: strict_hashes_def List.map_filter_def image_iff intro!: bexI [of _ b])

lemma subseq_members: "subseq xs ys \<Longrightarrow> set xs \<subseteq> set ys"
  by (auto dest: list_emb_set)

lemma subseq_keeps_distinct: "subseq xs ys \<Longrightarrow> distinct ys \<Longrightarrow> distinct xs"
  by (induction rule: list_emb.induct) (auto dest: subseq_members)

text \<open>The diff made from the chosen files.\<close>

lemma construct_shape:
  obtains uuids orphaned where
    "fst (construct cl fid fo files new sq) = Diff (change (update_folder fid (fo_device fo) files uuids))
       (diffs_if (new \<noteq> []) [leaf (add_blocks new)] @ diffs_if (orphaned \<noteq> []) [leaf (remove_blocks orphaned)])"
    "length uuids = length files"
    "\<And>f b h. f \<in> set files \<Longrightarrow> b \<in> set (pf_blocks f) \<Longrightarrow> make_strict_hash (pb_hash b) = Some h \<Longrightarrow> h \<notin> set orphaned"
proof -
  obtain uuids recorded sq' where n: "name_files (cl_store cl) fo files [] sq = (uuids, recorded, sq')"
    by (cases "name_files (cl_store cl) fo files [] sq")
  define orphaned where "orphaned = filter (\<lambda>h. h \<notin> set (strict_hashes new))
    (sort (deduce (cl_store cl) recorded (strict_hashes (concat (map pf_blocks files)))))"
  have "fst (construct cl fid fo files new sq) = Diff (change (update_folder fid (fo_device fo) files uuids))
       (diffs_if (new \<noteq> []) [leaf (add_blocks new)] @ diffs_if (orphaned \<noteq> []) [leaf (remove_blocks orphaned)])"
    by (simp add: construct_def n Let_def orphaned_def [symmetric] assemble_batched batched_short diffs_batch_def diffs_if_def)
  moreover have "length uuids = length files" using length_name_files [of "cl_store cl" fo files "[]" sq] n by simp
  moreover have "h \<notin> set orphaned" if "f \<in> set files" "b \<in> set (pf_blocks f)" "make_strict_hash (pb_hash b) = Some h" for f b h
    using strict_hashes_mem [of b "concat (map pf_blocks files)" h] that deduce_white_listed [of h] by (auto simp: orphaned_def)
  ultimately show thesis by (rule that)
qed

text \<open>
  C14: an index message that is accepted gives a diff over entries of the message with distinct names,
  each with a sequence number above all known ones and a version; every name of the message is
  covered, by such an entry or by one already known. The blocks to add are new to the cluster
  and distinct, every block of the files is in the cluster or among them, and
  none of the blocks to remove belongs to one of the files.
\<close>

theorem index_update_accepted:
  assumes "make_update_folder cl source message sq = Inr (d, sq')"
  shows "\<exists>fd fo files uuids new orphaned. folders_by_id (pi_folder message) cl = Some fd \<and> by_device source fd = Some fo \<and>
    d = Diff (change (update_folder (fd_id fd) (fo_device fo) files uuids))
      (diffs_if (new \<noteq> []) [leaf (add_blocks new)] @ diffs_if (orphaned \<noteq> []) [leaf (remove_blocks orphaned)]) \<and>
    length uuids = length files \<and> distinct (map pf_name files) \<and> set files \<subseteq> set (pi_files message) \<and>
    (\<forall>f \<in> set files. fo_max_sequence fo < pf_sequence f \<and> 0 < pf_sequence f \<and> pf_version f \<noteq> [] \<and>
       (\<forall>b \<in> set (pf_blocks f). \<exists>h. make_strict_hash (pb_hash b) = Some h \<and> h \<notin> set orphaned \<and>
          (blocks_by_hash h cl \<noteq> None \<or> h \<in> set (strict_hashes new)))) \<and>
    (\<forall>f \<in> set (pi_files message). \<exists>g \<in> set (pi_files message). pf_name g = pf_name f \<and>
       (g \<in> set files \<or> pf_sequence g \<le> fo_max_sequence fo)) \<and>
    distinct (strict_hashes new) \<and> (\<forall>h \<in> set (strict_hashes new). blocks_by_hash h cl = None)"
proof -
  let ?fs = "pi_files message"
  obtain fd fo files new where fd: "folders_by_id (pi_folder message) cl = Some fd" "by_device source fd = Some fo"
      and sel: "select_files cl fo (outdated_files ?fs) (enumerate 0 ?fs) [] [] = Inr (files, new)"
      and d: "d = fst (construct cl (fd_id fd) fo files new sq)"
    using assms by (auto simp: make_update_folder_def split: option.splits sum.splits)
  have "fresh_blocks cl [] []" by (simp add: fresh_blocks_def strict_hashes_def List.map_filter_def)
  then obtain H where H: "fresh_blocks cl H new" "\<forall>f \<in> set files. acceptable cl fo H f" "subseq files (latest ?fs)"
      "\<forall>(i, f) \<in> set (enumerate 0 ?fs). i \<notin> set (outdated_files ?fs) \<longrightarrow> f \<in> set files \<or> pf_sequence f \<le> fo_max_sequence fo"
    using select_files_ok [OF sel] unfolding latest_def by blast
  have names: "distinct (map pf_name files)" using subseq_keeps_distinct [OF subseq_map [OF H(3)] latest_names] .
  have mem: "set files \<subseteq> set ?fs" using subseq_members [OF H(3)] latest_mem by blast
  have cover: "\<exists>g \<in> set ?fs. pf_name g = pf_name f \<and> (g \<in> set files \<or> pf_sequence g \<le> fo_max_sequence fo)" if f: "f \<in> set ?fs" for f
  proof -
    obtain g where g: "g \<in> set (latest ?fs)" "pf_name g = pf_name f" using latest_complete [OF f] by blast
    then have "g \<in> set files \<or> pf_sequence g \<le> fo_max_sequence fo" using H(4) by (auto simp: latest_def)
    then show ?thesis using g latest_mem by blast
  qed
  obtain uuids orphaned where c: "d = Diff (change (update_folder (fd_id fd) (fo_device fo) files uuids))
       (diffs_if (new \<noteq> []) [leaf (add_blocks new)] @ diffs_if (orphaned \<noteq> []) [leaf (remove_blocks orphaned)])"
      "length uuids = length files"
      "\<And>f b h. f \<in> set files \<Longrightarrow> b \<in> set (pf_blocks f) \<Longrightarrow> make_strict_hash (pb_hash b) = Some h \<Longrightarrow> h \<notin> set orphaned"
    using construct_shape [of cl "fd_id fd" fo files new sq] d by metis
  have blocks: "\<exists>h. make_strict_hash (pb_hash b) = Some h \<and> h \<notin> set orphaned \<and> (blocks_by_hash h cl \<noteq> None \<or> h \<in> set (strict_hashes new))"
    if "f \<in> set files" "b \<in> set (pf_blocks f)" for f b
    using H(1,2) c(3) that by (fastforce simp: acceptable_def found_blocks_def fresh_blocks_def)
  have "\<forall>f \<in> set files. fo_max_sequence fo < pf_sequence f \<and> 0 < pf_sequence f \<and> pf_version f \<noteq> []"
    using H(2) by (simp add: acceptable_def)
  moreover have "distinct (strict_hashes new)" "\<forall>h \<in> set (strict_hashes new). blocks_by_hash h cl = None"
    using H(1) by (auto simp: fresh_blocks_def)
  ultimately show ?thesis
    by (intro exI [of _ fd] exI [of _ fo] exI [of _ files] exI [of _ uuids] exI [of _ new] exI [of _ orphaned] conjI)
      (use fd c(1,2) names mem cover blocks in \<open>simp_all\<close>)
qed

definition sample_db_folder :: db_folder where
  "sample_db_folder = \<lparr>dfo_id = ''f'', dfo_label = ''files'', dfo_ignore_permissions = False, dfo_ignore_delete = False,
     dfo_disable_temp_indexes = True, dfo_paused = False, dfo_scheduled = False, dfo_watched = False, dfo_path = ''/f'',
     dfo_folder_type = send_and_receive, dfo_pull_order = random, dfo_rescan_interval = 0\<rparr>"

text \<open>A cluster with one folder, shared with one device, without files.\<close>

definition sample_cluster :: cluster where
  "sample_cluster = (new_cluster sample_device 0)\<lparr>cl_devices := [sample_device], cl_folders :=
     [(blank_folder (replicate 16 2) sample_db_folder)\<lparr>fd_folder_infos := [blank_folder_info sample_device (replicate 16 2) (replicate 16 3)]\<rparr>]\<rparr>"

definition sample_sequencer :: sequencer where
  "sample_sequencer = \<lparr>sq_uuids = \<lambda>n. replicate 16 (of_nat n), sq_uints = \<lambda>n. of_nat n, sq_next = 0, sq_next_uint = 0\<rparr>"

definition sample_message :: pr_index where
  "sample_message = \<lparr>pi_folder = ''f'', pi_files = [sample_info 1, sample_info 2]\<rparr>"

lemma sample_update: "case make_update_folder sample_cluster (replicate 32 1) sample_message sample_sequencer of
    Inl _ \<Rightarrow> False | Inr (d, sq) \<Rightarrow> payload d = change (update_folder ''f'' (replicate 32 1) [sample_info 2] [replicate 16 0])"
  by code_simp

theorem index_update_accepted_witness:
  "\<exists>d new orphaned. payload d = change (update_folder ''f'' (replicate 32 1) [sample_info 2] [replicate 16 0]) \<and>
     children d = diffs_if (new \<noteq> []) [leaf (add_blocks new)] @ diffs_if (orphaned \<noteq> []) [leaf (remove_blocks orphaned)] \<and>
     distinct (strict_hashes new) \<and> (\<forall>h \<in> set (strict_hashes new). blocks_by_hash h sample_cluster = None)"
proof -
  obtain d sq where d: "make_update_folder sample_cluster (replicate 32 1) sample_message sample_sequencer = Inr (d, sq)"
      "payload d = change (update_folder ''f'' (replicate 32 1) [sample_info 2] [replicate 16 0])"
    using sample_update by (auto split: sum.splits)
  show ?thesis using index_update_accepted [OF d(1)] d(2) by (metis diff.sel(2))
qed

end
