(* ===== verification/Advance.thy ===== *)
theory Advance
  imports Create
begin

text \<open>
  How a local file is advanced (\<^verbatim>\<open>src/model/diff/advance/\<close>): the diffs that copy a remote file, that
  let a remote file win over a conflicting local one, and that record a local modification. \<open>None\<close>
  stands for a violated assertion or a null pointer that is dereferenced.
\<close>

text \<open>
  What the program finds in an identifier it has not assigned, the digest of the empty block and
  the calendar are given from outside.
\<close>

record advance_env =
  ae_unset_uuid :: bytes
  ae_empty_digest :: bytes
  ae_local_time :: "int \<Rightarrow> civil_time"

subsection \<open>Blocks of the advanced file\<close>

text \<open>The blocks that are new, and the orphans that are not among the blocks of the file.\<close>

fun split_blocks :: "cluster \<Rightarrow> pr_block list \<Rightarrow> pr_block list \<Rightarrow> bytes list \<Rightarrow> (pr_block list \<times> bytes list) option" where
  "split_blocks cl [] new orphans = Some (new, orphans)"
| "split_blocks cl (b # bs) new orphans = (case make_strict_hash (pb_hash b) of
       None \<Rightarrow> None
     | Some h \<Rightarrow> if blocks_by_hash h cl = None then split_blocks cl bs (new @ [b]) orphans
         else split_blocks cl bs new (filter (\<lambda>x. x \<noteq> h) orphans))"

text \<open>
  \<open>initialize\<close>: with \<open>keep\<close> (the removal of blocks is disabled) and a local file of that name the
  identifier is not assigned.
\<close>

definition initialize :: "advance_env \<Rightarrow> cluster \<Rightarrow> bool \<Rightarrow> advance_action \<Rightarrow> string \<Rightarrow> pr_file \<Rightarrow> string \<Rightarrow>
    sequencer \<Rightarrow> (bytes \<times> pr_file \<times> pr_file \<times> cdiff list \<times> sequencer) option" where
  "initialize A cl keep action fid source local_name sq =
     (let local_name = (if local_name = [] then pf_name source else local_name)
      in if pf_blocks source \<noteq> [] \<and> pf_deleted source then None
         else case folder_info_of fid (cl_self cl) cl of
                None \<Rightarrow> None
              | Some (fd, fo) \<Rightarrow>
                 (let local = source\<lparr>pf_sequence := 0, pf_name := local_name\<rparr>;
                      local_file = by_name (cl_store cl) local_name fo
                  in case (case local_file of
                             None \<Rightarrow> (case next_uuid sq of (uuid, sq) \<Rightarrow> (uuid, [], sq))
                           | Some f \<Rightarrow> if keep then (ae_unset_uuid A, [], sq)
                               else (fi_get_uuid (file_at (cl_store cl) f), sort (deduce (cl_store cl) [f] []), sq)) of
                       (uuid, orphans, sq) \<Rightarrow>
                         (case split_blocks cl (if pf_size local \<noteq> 0 then pf_blocks local else []) [] orphans of
                            None \<Rightarrow> None
                          | Some (new, orphans) \<Rightarrow>
                              if new \<noteq> [] \<and> action \<noteq> local_update then None
                              else Some (uuid, source, local,
                                diffs_if (new \<noteq> []) [leaf (add_blocks new)] @ diffs_if (orphans \<noteq> []) [leaf (remove_blocks orphans)], sq))))"

definition advance_diff :: "advance_action \<Rightarrow> string \<Rightarrow> bytes \<Rightarrow> bytes \<times> pr_file \<times> pr_file \<times> cdiff list \<times> sequencer \<Rightarrow> cdiff \<times> sequencer" where
  "advance_diff action fid peer_id r = (case r of (uuid, source, local, ch, sq) \<Rightarrow>
     (Diff (change (advance action fid peer_id uuid source local)) ch, sq))"

subsection \<open>Remote files\<close>

definition make_remote_copy :: "advance_env \<Rightarrow> cluster \<Rightarrow> pr_file \<Rightarrow> string \<Rightarrow> bytes \<Rightarrow> bool \<Rightarrow> sequencer \<Rightarrow> (cdiff \<times> sequencer) option" where
  "make_remote_copy A cl f fid peer_id keep sq =
     map_option (advance_diff remote_copy fid peer_id) (initialize A cl keep remote_copy fid f [] sq)"

text \<open>The local file is renamed; the copy of the remote file follows as a sibling, with blocks kept.\<close>

definition make_remote_win :: "advance_env \<Rightarrow> cluster \<Rightarrow> pr_file \<Rightarrow> string \<Rightarrow> bytes \<Rightarrow> sequencer \<Rightarrow> (cdiff list \<times> sequencer) option" where
  "make_remote_win A cl f fid peer_id sq = (case folder_info_of fid (cl_self cl) cl of
       None \<Rightarrow> None
     | Some (fd, fo) \<Rightarrow> (case by_name (cl_store cl) (pf_name f) fo of
         None \<Rightarrow> None
       | Some g \<Rightarrow> (case as_proto (ae_empty_digest A) (cl_store cl) (file_at (cl_store cl) g) True of
           None \<Rightarrow> None
         | Some local_source \<Rightarrow>
            (case initialize A cl False resolve_remote_win fid local_source
                    (make_conflicting_name (ae_local_time A) (file_at (cl_store cl) g)) sq of
               None \<Rightarrow> None
             | Some r \<Rightarrow> (case advance_diff resolve_remote_win fid peer_id r of (d, sq) \<Rightarrow>
                 map_option (\<lambda>(copy, sq). ([d, copy], sq)) (make_remote_copy A cl f fid peer_id True sq))))))"

definition make_advance :: "advance_env \<Rightarrow> cluster \<Rightarrow> advance_action \<Rightarrow> addr \<Rightarrow> string \<Rightarrow> bytes \<Rightarrow> sequencer \<Rightarrow> (cdiff list \<times> sequencer) option" where
  "make_advance A cl action source fid peer_id sq =
     (case as_proto (ae_empty_digest A) (cl_store cl) (file_at (cl_store cl) source) True of
        None \<Rightarrow> None
      | Some f \<Rightarrow>
         if action = remote_copy then map_option (\<lambda>(d, sq). ([d], sq)) (make_remote_copy A cl f fid peer_id False sq)
         else if action = resolve_remote_win then make_remote_win A cl f fid peer_id sq else None)"

subsection \<open>Local modifications\<close>

text \<open>The blocks of a candidate against the hashes of the message.\<close>

definition same_content :: "store \<Rightarrow> file_info \<Rightarrow> pr_file \<Rightarrow> bool" where
  "same_content st c f \<longleftrightarrow> length (fi_blocks c) = length (pf_blocks f) \<and>
     list_all (\<lambda>(b, pb). bi_hash b = pb_hash pb) (zip (iterate_file st (fi_blocks c)) (pf_blocks f))"

definition matches_original :: "store \<Rightarrow> file_info \<Rightarrow> pr_file \<Rightarrow> bool option" where
  "matches_original st c f = (case fi_get_size st c of
       None \<Rightarrow> None
     | Some sz \<Rightarrow> Some (sz = pf_size f \<and>
         (as_flags (pf_type f) = get_type c \<and> pf_deleted f = is_deleted c \<and> pf_invalid f = is_invalid c \<and>
          (pf_no_permissions f = has_no_permissions c \<or> pf_permissions f = fi_permissions c)) \<and>
         (is_file c \<longrightarrow> same_content st c f)))"

text \<open>
  A file of a peer with the same name and content; the later one replaces an earlier one when
  their comparison is above 1.
\<close>

fun get_original :: "store \<Rightarrow> bytes \<Rightarrow> pr_file \<Rightarrow> folder_info list \<Rightarrow> addr option \<Rightarrow> addr option option" where
  "get_original st self f [] r = Some r"
| "get_original st self f (fo # fos) r =
     (if fo_device fo = self then get_original st self f fos r
      else case by_name st (pf_name f) fo of
             None \<Rightarrow> get_original st self f fos r
           | Some c \<Rightarrow> (case matches_original st (file_at st c) f of
               None \<Rightarrow> None
             | Some False \<Rightarrow> get_original st self f fos r
             | Some True \<Rightarrow> get_original st self f fos
                 (case r of None \<Rightarrow> Some c
                  | Some o' \<Rightarrow> if 1 < compare (file_at st c) (file_at st o') then Some c else r)))"

definition make_local_update :: "advance_env \<Rightarrow> u64 \<Rightarrow> cluster \<Rightarrow> pr_file \<Rightarrow> string \<Rightarrow> bool \<Rightarrow> sequencer \<Rightarrow> (cdiff \<times> sequencer) option" where
  "make_local_update A clock cl f fid keep sq =
     (if devices_by_sha256 (cl_self cl) (cl_devices cl) = None \<or> pf_name f = [] then None
      else case folder_info_of fid (cl_self cl) cl of
             None \<Rightarrow> None
           | Some (fd, fo) \<Rightarrow>
              (let st = cl_store cl; self = get_uint (dv_id (cl_device cl))
               in case get_original st (cl_self cl) f (fd_folder_infos fd) None of
                    None \<Rightarrow> None
                  | Some (Some o') \<Rightarrow> (case as_proto (ae_empty_digest A) st (file_at st o') True of
                      None \<Rightarrow> None
                    | Some source \<Rightarrow> map_option (advance_diff local_update fid (cl_self cl))
                        (initialize A cl keep local_update fid source (pf_name f) sq))
                  | Some None \<Rightarrow>
                      (case initialize A cl keep local_update fid (f\<lparr>pf_modified_by := self\<rparr>) (pf_name f) sq of
                         None \<Rightarrow> None
                       | Some (uuid, source, local, r) \<Rightarrow>
                          (case by_name st (pf_name f) fo of
                             None \<Rightarrow> Some (advance_diff local_update fid (cl_self cl)
                               (uuid, source, local\<lparr>pf_version := to_proto (version_of_device clock self)\<rparr>, r))
                           | Some g \<Rightarrow> (case version_update clock self (fi_version (file_at st g)) of
                               v \<Rightarrow> Some (advance_diff local_update fid (cl_self cl)
                                 (if keep then fi_get_uuid (file_at st g) else uuid, source, local\<lparr>pf_version := to_proto v\<rparr>, r)))))))"

subsection \<open>What a local modification sends out\<close>

lemma make_local_update_known:
  assumes "make_local_update A clock cl f fid keep sq = Some (d, sq')" "folder_info_of fid (cl_self cl) cl = Some (fd, fo)"
    and "get_original (cl_store cl) (cl_self cl) f (fd_folder_infos fd) None = Some None"
    and "by_name (cl_store cl) (pf_name f) fo = Some g"
  shows "\<exists>uuid source local ch. d = Diff (change (advance local_update fid (cl_self cl) uuid source local)) ch \<and>
    pf_name local = pf_name f \<and> pf_modified_by local = get_uint (dv_id (cl_device cl)) \<and>
    pf_blocks local = pf_blocks f \<and> pf_deleted local = pf_deleted f \<and>
    pf_version local = to_proto (version_update clock (get_uint (dv_id (cl_device cl))) (fi_version (file_at (cl_store cl) g)))"
proof -
  let ?self = "get_uint (dv_id (cl_device cl))"
  have name: "pf_name f \<noteq> []" using assms(1) by (auto simp: make_local_update_def split: if_splits)
  obtain uuid source local ch sq1 where i: "initialize A cl keep local_update fid (f\<lparr>pf_modified_by := ?self\<rparr>) (pf_name f) sq =
      Some (uuid, source, local, ch, sq1)"
    using assms by (auto simp: make_local_update_def Let_def split: if_splits option.splits)
  have local: "local = f\<lparr>pf_modified_by := ?self, pf_sequence := 0, pf_name := pf_name f\<rparr>"
    using i name by (auto simp: initialize_def Let_def split: if_splits option.splits prod.splits)
  show ?thesis using assms i by (auto simp: make_local_update_def Let_def advance_diff_def local split: if_splits)
qed

text \<open>
  When a conflict is resolved for the remote file, the copy that follows is made without an
  identifier: it carries whatever the program finds in the unset field.
\<close>

theorem remote_win_unset_uuid:
  assumes "make_remote_win A cl f fid peer_id sq = Some (ds, sq')"
  shows "\<exists>d source local ch. ds = [d, Diff (change (advance remote_copy fid peer_id (ae_unset_uuid A) source local)) ch]"
proof -
  obtain fd fo g where fo: "folder_info_of fid (cl_self cl) cl = Some (fd, fo)" "by_name (cl_store cl) (pf_name f) fo = Some g"
    using assms by (auto simp: make_remote_win_def split: option.splits)
  have copy: "\<exists>source local ch. c = Diff (change (advance remote_copy fid peer_id (ae_unset_uuid A) source local)) ch"
    if "make_remote_copy A cl f fid peer_id True s = Some (c, s')" for s c s'
    using that fo by (auto simp: make_remote_copy_def initialize_def advance_diff_def Let_def split: if_splits option.splits prod.splits)
  obtain d c s s' where "ds = [d, c]" "make_remote_copy A cl f fid peer_id True s = Some (c, s')"
    using assms fo by (auto simp: make_remote_win_def split: option.splits prod.splits)
  then show ?thesis using copy by blast
qed

end
