(* ===== verification/Cluster_Update.thy ===== *)
theory Cluster_Update
  imports Create
begin

text \<open>
  How the cluster configuration message of a peer becomes a diff (\<^verbatim>\<open>src/model/diff/peer/cluster_update.cpp\<close>):
  a first pass over the folders of the message for the sender and the local device, a second for all
  other devices, then what the message no longer mentions is removed.
\<close>

subsection \<open>What the passes collect\<close>

record gathered =
  ga_folder_device_set :: "string list"
  ga_new_pending :: "(db_pending_folder \<times> bytes \<times> bytes) list"
  ga_remote_views :: "(string \<times> device_id \<times> u64 \<times> int) list"
  ga_reset_folders :: "(folder \<times> folder_info) list"
  ga_removed_pending :: "bytes list"
  ga_confirmed_pending :: "bytes list"
  ga_confirmed_folders :: "bytes list"
  ga_processed_introduced :: "bytes list"
  ga_seen_devices :: "bytes list"
  ga_introduced :: "(db_device \<times> device_id) list"
  ga_folder_infos :: "(string \<times> u64 \<times> device_id) list"
  ga_folders :: "db_folder list"
  ga_sequencer :: sequencer

definition nothing_gathered :: "sequencer \<Rightarrow> gathered" where
  "nothing_gathered sq = \<lparr>ga_folder_device_set = [], ga_new_pending = [], ga_remote_views = [], ga_reset_folders = [],
     ga_removed_pending = [], ga_confirmed_pending = [], ga_confirmed_folders = [], ga_processed_introduced = [],
     ga_seen_devices = [], ga_introduced = [], ga_folder_infos = [], ga_folders = [], ga_sequencer = sq\<rparr>"

text \<open>
  The surroundings: \<open>ce_make_dirs\<close> creates a directory for a name below the default path and gives
  its path, or fails.
\<close>

record update_env =
  ce_url :: url_lib
  ce_make_dirs :: "string \<Rightarrow> string option"

text \<open>Known offers of the sender for the folder: a current one ends the search.\<close>

fun match_pending :: "bytes \<Rightarrow> pr_folder \<Rightarrow> pr_device \<Rightarrow> pending_folder list \<Rightarrow> gathered \<Rightarrow> bool \<times> gathered" where
  "match_pending source f d [] g = (False, g)"
| "match_pending source f d (p # ps) g =
     (if did_sha256 (pn_device p) = source \<and> pn_id p = pfo_id f
      then let g = g\<lparr>ga_confirmed_pending := insort_insert (pn_key p) (ga_confirmed_pending g)\<rparr>
           in if pn_index p = pd_index_id d \<and> pn_max_sequence p = pd_max_sequence d then (True, g)
              else match_pending source f d ps (g\<lparr>ga_removed_pending := insort_insert (pn_key p) (ga_removed_pending g)\<rparr>)
      else match_pending source f d ps g)"

text \<open>The fields that are not set have the defaults of the message format.\<close>

definition offer_of :: "pr_folder \<Rightarrow> pr_device \<Rightarrow> db_pending_folder" where
  "offer_of f d = \<lparr>dpf_folder = \<lparr>dfo_id = pfo_id f, dfo_label = pfo_label f,
       dfo_ignore_permissions = pfo_ignore_permissions f, dfo_ignore_delete = pfo_ignore_delete f,
       dfo_disable_temp_indexes = pfo_disable_temp_indexes f, dfo_paused = pfo_paused f, dfo_scheduled = False,
       dfo_watched = False, dfo_path = [], dfo_folder_type = send_and_receive, dfo_pull_order = random,
       dfo_rescan_interval = 0\<rparr>,
     dpf_folder_info = \<lparr>dfi_index_id = pd_index_id d, dfi_max_sequence = pd_max_sequence d, dfi_introducer_device_key = []\<rparr>\<rparr>"

definition add_pending :: "bytes \<Rightarrow> pending_folder list \<Rightarrow> pr_folder \<Rightarrow> pr_device \<Rightarrow> gathered \<Rightarrow> gathered" where
  "add_pending source known f d g = (case match_pending source f d known g of
       (True, g) \<Rightarrow> g
     | (False, g) \<Rightarrow> (case next_uuid (ga_sequencer g) of (uuid, sq) \<Rightarrow>
         g\<lparr>ga_new_pending := ga_new_pending g @ [(offer_of f d, source, uuid)], ga_sequencer := sq\<rparr>))"

definition add_folder_info :: "string \<Rightarrow> u64 \<Rightarrow> device_id \<Rightarrow> gathered \<Rightarrow> gathered" where
  "add_folder_info fid index_id did g = g\<lparr>ga_folder_infos := ga_folder_infos g @ [(fid, index_id, did)]\<rparr>"

definition try_make_path :: "update_env \<Rightarrow> string \<Rightarrow> (cluster_error, string) result" where
  "try_make_path C name = (if name = [] then Inl empty_folder_name
     else case ce_make_dirs C name of None \<Rightarrow> Inl io_error | Some path \<Rightarrow> Inr path)"

definition new_folder :: "pr_folder \<Rightarrow> string \<Rightarrow> db_folder" where
  "new_folder f path = \<lparr>dfo_id = pfo_id f, dfo_label = pfo_label f, dfo_ignore_permissions = pfo_ignore_permissions f,
     dfo_ignore_delete = pfo_ignore_delete f, dfo_disable_temp_indexes = pfo_disable_temp_indexes f,
     dfo_paused = pfo_paused f, dfo_scheduled = False, dfo_watched = False, dfo_path = path,
     dfo_folder_type = send_and_receive, dfo_pull_order = random, dfo_rescan_interval = 3600\<rparr>"

definition add_folder :: "update_env \<Rightarrow> pr_folder \<Rightarrow> gathered \<Rightarrow> (cluster_error, gathered) result" where
  "add_folder C f g =
     (case (case try_make_path C (pfo_label f) of Inl _ \<Rightarrow> try_make_path C (pfo_id f) | Inr p \<Rightarrow> Inr p) of
        Inl e \<Rightarrow> Inl e
      | Inr path \<Rightarrow> Inr (g\<lparr>ga_folders := ga_folders g @ [new_folder f path]\<rparr>))"

fun static_addresses :: "url_lib \<Rightarrow> string list \<Rightarrow> string list option" where
  "static_addresses lib [] = Some []"
| "static_addresses lib (a # as) =
     (if a = ''dynamic'' then static_addresses lib as
      else if ul_parse_uri lib a = None then None
      else map_option ((#) a) (static_addresses lib as))"

definition introduced_device :: "pr_device \<Rightarrow> string list \<Rightarrow> db_device" where
  "introduced_device d addresses = \<lparr>dd_name = pd_name d, dd_addresses = addresses, dd_compression = pd_compression d,
     dd_cert_name = [], dd_introducer = pd_introducer d, dd_skip_introduction_removals = pd_skip_introduction_removals d,
     dd_auto_accept = False, dd_paused = False, dd_last_seen = 0\<rparr>"

definition introduce_device :: "update_env \<Rightarrow> string \<Rightarrow> pr_device \<Rightarrow> device_id \<Rightarrow> gathered \<Rightarrow> (cluster_error, gathered) result" where
  "introduce_device C fid d did g =
     (if pd_id d \<in> set (ga_processed_introduced g) then Inr (add_folder_info fid (pd_index_id d) did g)
      else case static_addresses (ce_url C) (pd_addresses d) of
             None \<Rightarrow> Inl (device_failure malformed_url)
           | Some addresses \<Rightarrow> Inr (add_folder_info fid (pd_index_id d) did
               (g\<lparr>ga_processed_introduced := insort_insert (pd_id d) (ga_processed_introduced g),
                  ga_seen_devices := insort_insert (pd_id d) (ga_seen_devices g),
                  ga_introduced := ga_introduced g @ [(introduced_device d addresses, did)]\<rparr>)))"

definition is_shared_with_source :: "cluster \<Rightarrow> bytes \<Rightarrow> string \<Rightarrow> gathered \<Rightarrow> bool" where
  "is_shared_with_source cl source fid g \<longleftrightarrow> folder_info_of fid source cl \<noteq> None \<or> (\<exists>db \<in> set (ga_folders g). dfo_id db = fid)"

subsection \<open>The first pass\<close>

text \<open>The sender's own entry for a folder.\<close>

definition source_entry :: "update_env \<Rightarrow> cluster \<Rightarrow> device \<Rightarrow> pr_folder \<Rightarrow> pr_device \<Rightarrow> device_id \<Rightarrow> gathered \<Rightarrow> (cluster_error, gathered) result" where
  "source_entry C cl source f d did g = (case folder_info_of (pfo_id f) (dv_sha source) cl of
       None \<Rightarrow>
         (if dv_auto_accept source
          then (case (if folders_by_id (pfo_id f) cl = None then add_folder C f g else Inr g) of
                  Inl e \<Rightarrow> Inl e | Inr g \<Rightarrow> Inr (add_folder_info (pfo_id f) (pd_index_id d) did g))
          else Inr (add_pending (dv_sha source) (cl_pending_folders cl) f d g))
     | Some (fd, fo) \<Rightarrow>
         (let g = g\<lparr>ga_confirmed_folders := insort_insert (folder_info_key fo) (ga_confirmed_folders g)\<rparr>
          in if pd_index_id d \<noteq> fo_index fo
             then Inr (add_folder_info (pfo_id f) (pd_index_id d) did
               (g\<lparr>ga_reset_folders := (if fo_uuid fo \<in> fo_uuid ` snd ` set (ga_reset_folders g) then ga_reset_folders g
                    else ga_reset_folders g @ [(fd, fo)])\<rparr>))
             else Inr g))"

definition first_pass_device :: "update_env \<Rightarrow> cluster \<Rightarrow> device \<Rightarrow> pr_folder \<Rightarrow> pr_device \<Rightarrow> gathered \<Rightarrow> (cluster_error, gathered) result" where
  "first_pass_device C cl source f d g = (case from_sha256 (pd_id d) of
       None \<Rightarrow> Inl assertion_failed
     | Some None \<Rightarrow> Inl (device_failure malformed_url)
     | Some (Some did) \<Rightarrow>
        (let pair = pfo_id f @ ''-'' @ did_value did
         in if pair \<in> set (ga_folder_device_set g) then Inr g
            else let g = g\<lparr>ga_folder_device_set := pair # ga_folder_device_set g\<rparr>
                 in case devices_by_sha256 (pd_id d) (cl_devices cl) of
                      None \<Rightarrow> Inr g
                    | Some dev \<Rightarrow>
                       (let g = g\<lparr>ga_seen_devices := insort_insert (pd_id d) (ga_seen_devices g)\<rparr>
                        in if pd_id d \<noteq> dv_sha source \<and> dv_sha dev \<noteq> cl_self cl then Inr g
                           else let g = g\<lparr>ga_remote_views := ga_remote_views g @ [(pfo_id f, did, pd_index_id d, pd_max_sequence d)]\<rparr>
                                in if dv_sha dev = cl_self cl then Inr g else source_entry C cl source f d did g)))"

fun gather_all :: "('i \<Rightarrow> gathered \<Rightarrow> (cluster_error, gathered) result) \<Rightarrow> 'i list \<Rightarrow> gathered \<Rightarrow> (cluster_error, gathered) result" where
  "gather_all step [] g = Inr g"
| "gather_all step (x # xs) g = (case step x g of Inl e \<Rightarrow> Inl e | Inr g \<Rightarrow> gather_all step xs g)"

definition first_pass :: "update_env \<Rightarrow> cluster \<Rightarrow> device \<Rightarrow> pr_folder list \<Rightarrow> gathered \<Rightarrow> (cluster_error, gathered) result" where
  "first_pass C cl source = gather_all (\<lambda>f. gather_all (first_pass_device C cl source f) (pfo_devices f))"

subsection \<open>The second pass\<close>

definition second_pass_device :: "update_env \<Rightarrow> cluster \<Rightarrow> device \<Rightarrow> pr_folder \<Rightarrow> pr_device \<Rightarrow> gathered \<Rightarrow> (cluster_error, gathered) result" where
  "second_pass_device C cl source f d g =
     (if pd_id d = dv_sha source \<or> pd_id d = cl_self cl then Inr g
      else case from_sha256 (pd_id d) of
             Some (Some did) \<Rightarrow>
              (case devices_by_sha256 (pd_id d) (cl_devices cl) of
                 None \<Rightarrow> if dv_introducer source \<and> is_shared_with_source cl (dv_sha source) (pfo_id f) g
                         then introduce_device C (pfo_id f) d did g else Inr g
               | Some _ \<Rightarrow>
                  (let g = g\<lparr>ga_seen_devices := insort_insert (pd_id d) (ga_seen_devices g)\<rparr>
                   in case folder_info_of (pfo_id f) (pd_id d) cl of
                        None \<Rightarrow> if dv_introducer source then Inr (add_folder_info (pfo_id f) (pd_index_id d) did g) else Inr g
                      | Some (_, fo) \<Rightarrow> Inr (g\<lparr>ga_confirmed_folders := insort_insert (folder_info_key fo) (ga_confirmed_folders g)\<rparr>)))
           | _ \<Rightarrow> Inl assertion_failed)"

definition second_pass :: "update_env \<Rightarrow> cluster \<Rightarrow> device \<Rightarrow> pr_folder list \<Rightarrow> gathered \<Rightarrow> (cluster_error, gathered) result" where
  "second_pass C cl source = gather_all (\<lambda>f. gather_all (second_pass_device C cl source f) (pfo_devices f))"

subsection \<open>What is no longer mentioned\<close>

definition forgotten_offers :: "cluster \<Rightarrow> bytes \<Rightarrow> gathered \<Rightarrow> bytes list" where
  "forgotten_offers cl source g = fold insort_insert
     (map pn_key (filter (\<lambda>p. did_sha256 (pn_device p) = source \<and> pn_key p \<notin> set (ga_confirmed_pending g)) (cl_pending_folders cl)))
     (ga_removed_pending g)"

text \<open>Folder infos of the sender that the message does not confirm; they are shared again, empty.\<close>

definition unshared_folders :: "cluster \<Rightarrow> bytes \<Rightarrow> gathered \<Rightarrow> (folder \<times> folder_info) list" where
  "unshared_folders cl source g =
     filter (\<lambda>(fd, fo). folder_info_key fo \<notin> set (ga_confirmed_folders g) \<and> fo_max_sequence fo \<noteq> 0) (shared_with source cl)"

text \<open>Folder infos that the sender introduced and no longer mentions.\<close>

definition introduced_infos :: "cluster \<Rightarrow> device \<Rightarrow> gathered \<Rightarrow> (folder \<times> folder_info) list" where
  "introduced_infos cl source g =
     (if dv_skip_introduction_removals source then []
      else filter (\<lambda>(fd, fo). is_introduced_by (dv_id source) fo \<and> folder_info_key fo \<notin> set (ga_confirmed_folders g) \<and>
             fo_uuid fo \<notin> fo_uuid ` snd ` set (unshared_folders cl (dv_sha source) g))
           (concat (map (\<lambda>fd. map (Pair fd) (fd_folder_infos fd)) (cl_folders cl))))"

definition removed_infos :: "cluster \<Rightarrow> device \<Rightarrow> gathered \<Rightarrow> (folder \<times> folder_info) list" where
  "removed_infos cl source g = unshared_folders cl (dv_sha source) g @
     filter (\<lambda>(fd, fo). fo_device fo \<in> set (ga_seen_devices g)) (introduced_infos cl source g)"

definition removed_devices :: "cluster \<Rightarrow> device \<Rightarrow> gathered \<Rightarrow> bytes list" where
  "removed_devices cl source g = fold insort_insert
     (map (fo_device \<circ> snd) (filter (\<lambda>(fd, fo). fo_device fo \<notin> set (ga_seen_devices g)) (introduced_infos cl source g))) []"

subsection \<open>Making the diff\<close>

fun upsert_each :: "cluster \<Rightarrow> db_folder list \<Rightarrow> sequencer \<Rightarrow> cdiff list \<times> sequencer" where
  "upsert_each cl [] sq = ([], sq)"
| "upsert_each cl (db # dbs) sq = (case make_upsert_folder cl db 0 sq of
     (d, sq) \<Rightarrow> (case upsert_each cl dbs sq of (ds, sq) \<Rightarrow> (d # ds, sq)))"

fun share_each :: "device_id \<Rightarrow> (string \<times> u64 \<times> device_id) list \<Rightarrow> sequencer \<Rightarrow> cdiff list \<times> sequencer" where
  "share_each source [] sq = ([], sq)"
| "share_each source ((fid, index_id, did) # infos) sq = (case next_uuid sq of
     (uuid, sq) \<Rightarrow> (case share_each source infos sq of
       (ds, sq) \<Rightarrow> (leaf (upsert_folder_info uuid (did_sha256 did) (did_get_key source) fid index_id) # ds, sq)))"

fun remove_peers :: "cluster \<Rightarrow> bytes list \<Rightarrow> cdiff list option" where
  "remove_peers cl [] = Some []"
| "remove_peers cl (sha # shas) = (case devices_by_sha256 sha (cl_devices cl) of
     None \<Rightarrow> None | Some peer \<Rightarrow> map_option ((#) (make_remove_peer cl peer)) (remove_peers cl shas))"

text \<open>The reset and the removed folder infos record their files in the same set.\<close>

definition removals :: "store \<Rightarrow> (folder \<times> folder_info) list \<Rightarrow> cdiff list \<Rightarrow> (folder \<times> folder_info) list \<Rightarrow> cdiff list" where
  "removals st reset peers removed =
     (let (ds1, recorded) = (if reset = [] then ([], [])
            else case make_reset_folder_infos st reset (Some []) of (d, r) \<Rightarrow> ([d], r));
          (ds2, recorded) = (if removed = [] then ([], recorded)
            else case make_remove_folder_infos st removed (Some recorded) of (d, r) \<Rightarrow> ([d], r))
      in ds1 @ peers @ ds2 @ remove_orphans st recorded)"

definition reshare :: "folder \<times> folder_info \<Rightarrow> cdiff" where
  "reshare item = (case item of (fd, fo) \<Rightarrow>
     leaf (upsert_folder_info (fo_uuid fo) (fo_device fo) (fo_introducer_device_key fo) (fd_id fd) 0))"

definition update_diffs :: "cluster \<Rightarrow> device \<Rightarrow> gathered \<Rightarrow> (cdiff list \<times> sequencer) option" where
  "update_diffs cl source g =
     (case upsert_each cl (ga_folders g) (ga_sequencer g) of (upserts, sq) \<Rightarrow>
     (case remove_peers cl (removed_devices cl source g) of
        None \<Rightarrow> None
      | Some peers \<Rightarrow>
         (let offers = forgotten_offers cl (dv_sha source) g
          in case share_each (dv_id source) (ga_folder_infos g) sq of (shares, sq) \<Rightarrow>
             Some (upserts @ removals (cl_store cl) (ga_reset_folders g) peers (removed_infos cl source g) @
               diffs_if (offers \<noteq> []) [leaf (remove_pending_folders offers)] @
               map reshare (unshared_folders cl (dv_sha source) g) @
               diffs_if (ga_new_pending g \<noteq> []) [leaf (add_pending_folders (ga_new_pending g))] @
               diffs_if (ga_remote_views g \<noteq> []) [leaf (update_remote_views (dv_sha source) (ga_remote_views g))] @
               map (\<lambda>(db, did). make_update_peer cl did db) (ga_introduced g) @ shares, sq))))"

definition make_cluster_update :: "update_env \<Rightarrow> cluster \<Rightarrow> device \<Rightarrow> pr_folder list \<Rightarrow> sequencer \<Rightarrow> (cluster_error, cdiff \<times> sequencer) result" where
  "make_cluster_update C cl source message sq =
     (case first_pass C cl source message (nothing_gathered sq) of
        Inl e \<Rightarrow> Inl e
      | Inr g \<Rightarrow> (case second_pass C cl source message g of
          Inl e \<Rightarrow> Inl e
        | Inr g \<Rightarrow> (case update_diffs cl source g of
            None \<Rightarrow> Inl assertion_failed
          | Some (ds, sq) \<Rightarrow> Inr (Diff (change (cluster_update (dv_sha source))) (assemble ds), sq))))"

end
