(* ===== verification/Key_Invariant.thy ===== *)
theory Key_Invariant
  imports Changes
begin

text \<open>
  The containers of the cluster keep unique keys whatever diffs are applied: every part of every
  diff keeps them, so every chain and every state of the iterative controller does.
\<close>

definition keys_ok :: "cluster \<Rightarrow> bool" where
  "keys_ok cl \<longleftrightarrow> gm_ok dv_indices (cl_devices cl) \<and>
     gm_ok [\<lambda>s. did_sha256 (so_device_id s)] (cl_pending_devices cl) \<and>
     gm_ok [\<lambda>s. did_sha256 (so_device_id s)] (cl_ignored_devices cl) \<and>
     gm_ok [ig_key] (cl_ignored_folders cl) \<and> gm_ok pn_indices (cl_pending_folders cl) \<and>
     gm_ok fd_indices (cl_folders cl) \<and> (\<forall>fd \<in> set (cl_folders cl). gm_ok fo_indices (fd_folder_infos fd))"

subsection \<open>Containers\<close>

lemma gm_ok_fold: "gm_ok ks m \<Longrightarrow> ks \<noteq> [] \<Longrightarrow> gm_ok ks (gm_fold ks x m)"
  using gm_put_replace [of ks m x] unfolding gm_fold_def by blast

lemma set_gm_fold: "gm_ok ks m \<Longrightarrow> ks \<noteq> [] \<Longrightarrow> set (gm_fold ks x m) \<subseteq> insert x (set m)"
  by (auto simp: gm_fold_def gm_put_replace)

lemma gm_ok_remove: "gm_ok ks m \<Longrightarrow> gm_ok ks (gm_remove ks x m)"
  by (simp add: gm_remove_filter gm_ok_def unique_by_filter)

lemma gm_ok_map:
  assumes "gm_ok ks m" "\<And>k x. k \<in> set ks \<Longrightarrow> k (f x) = k x"
  shows "gm_ok ks (map f m)"
proof -
  have "map k (map f m) = map k m" if "k \<in> set ks" for k using assms(2) [OF that] by simp
  then show ?thesis using assms(1) unfolding gm_ok_def unique_by_def by metis
qed

lemma gm_get_mem: "gm_get k key m = Some x \<Longrightarrow> x \<in> set m"
  unfolding gm_get_def by (auto dest: find_SomeD)

lemma indices_nonempty [simp]: "dv_indices \<noteq> []" "pn_indices \<noteq> []" "fd_indices \<noteq> []" "fo_indices \<noteq> []"
  by (simp_all add: dv_indices_def pn_indices_def fd_indices_def fo_indices_def)

subsection \<open>Primitives\<close>

text \<open>The containers a primitive leaves alone.\<close>

definition same_keys :: "cluster \<Rightarrow> cluster \<Rightarrow> bool" where
  "same_keys cl cl' \<longleftrightarrow> cl_devices cl' = cl_devices cl \<and> cl_pending_devices cl' = cl_pending_devices cl \<and>
     cl_ignored_devices cl' = cl_ignored_devices cl \<and> cl_ignored_folders cl' = cl_ignored_folders cl \<and>
     cl_pending_folders cl' = cl_pending_folders cl \<and> cl_folders cl' = cl_folders cl"

lemma keys_ok_same: "keys_ok cl \<Longrightarrow> same_keys cl cl' \<Longrightarrow> keys_ok cl'"
  by (simp add: keys_ok_def same_keys_def)

lemma keys_and_then:
  "keys_ok (snd r) \<Longrightarrow> (\<And>s. keys_ok s \<Longrightarrow> keys_ok (snd (f s))) \<Longrightarrow> keys_ok (snd (and_then r f))"
  by (cases r) (auto simp: and_then_def split: option.splits)

lemma keys_with_store: "keys_ok cl \<Longrightarrow> keys_ok (snd (with_store f cl))"
  by (auto simp: with_store_def same_keys_def intro: keys_ok_same split: option.splits)

lemma keys_put_new_block: "keys_ok cl \<Longrightarrow> keys_ok (put_new_block b cl)"
  by (auto simp: put_new_block_def same_keys_def intro: keys_ok_same)

lemma keys_erase_block: "keys_ok cl \<Longrightarrow> keys_ok (snd (erase_block p cl))"
  unfolding erase_block_def by (intro keys_with_store) (auto simp: same_keys_def intro: keys_ok_same)

lemma keys_drop_file: "keys_ok cl \<Longrightarrow> keys_ok (snd (drop_file f cl))"
  by (simp add: drop_file_def keys_with_store)

lemma keys_drop_files: "keys_ok cl \<Longrightarrow> keys_ok (snd (drop_files fs cl))"
  by (induction fs arbitrary: cl) (auto intro: keys_and_then keys_drop_file)

lemma keys_set_folder:
  assumes "keys_ok cl" "gm_ok fo_indices (fd_folder_infos fd)"
  shows "keys_ok (set_folder fd cl)"
  using assms by (auto simp: keys_ok_def set_folder_def fd_indices_def fd_key_def intro!: gm_ok_map)

lemma infos_set_folder_info: "gm_ok fo_indices (fd_folder_infos fd) \<Longrightarrow> gm_ok fo_indices (fd_folder_infos (set_folder_info fo fd))"
  by (auto simp: set_folder_info_def fo_indices_def intro!: gm_ok_map)

lemma keys_set_device: "keys_ok cl \<Longrightarrow> keys_ok (set_device d cl)"
  by (auto simp: keys_ok_def set_device_def dv_indices_def same_device_def intro!: gm_ok_map)

lemma keys_put_device: "keys_ok cl \<Longrightarrow> keys_ok (put_device d cl)"
  by (simp add: keys_ok_def put_device_def gm_ok_fold)

lemma keys_put_folder:
  assumes "keys_ok cl" "gm_ok fo_indices (fd_folder_infos fd)"
  shows "keys_ok (cl\<lparr>cl_folders := gm_fold fd_indices fd (cl_folders cl)\<rparr>)"
  using assms set_gm_fold [of fd_indices "cl_folders cl" fd] by (auto simp: keys_ok_def gm_ok_fold)

lemma infos_blank [simp]: "gm_ok fo_indices (fd_folder_infos (blank_folder uuid db))"
  by (simp add: blank_folder_def gm_ok_def unique_by_def)

lemma keys_folder_mem: "keys_ok cl \<Longrightarrow> fd \<in> set (cl_folders cl) \<Longrightarrow> gm_ok fo_indices (fd_folder_infos fd)"
  by (simp add: keys_ok_def)

lemma folders_by_id_infos: "folders_by_id fid cl = Some fd \<Longrightarrow> keys_ok cl \<Longrightarrow> gm_ok fo_indices (fd_folder_infos fd)"
  by (auto simp: folders_by_id_def intro: keys_folder_mem dest: gm_get_mem)

lemma folders_by_key_infos: "folders_by_key key cl = Some fd \<Longrightarrow> keys_ok cl \<Longrightarrow> gm_ok fo_indices (fd_folder_infos fd)"
  by (auto simp: folders_by_key_def intro: keys_folder_mem dest: gm_get_mem)

lemma folder_info_of_infos: "folder_info_of fid dev cl = Some (fd, fo) \<Longrightarrow> keys_ok cl \<Longrightarrow> gm_ok fo_indices (fd_folder_infos fd)"
  by (auto simp: folder_info_of_def intro: folders_by_id_infos split: option.splits)

lemma folder_info_by_uuid_infos: "folder_info_by_uuid uuid cl = Some (fd, fo) \<Longrightarrow> keys_ok cl \<Longrightarrow> gm_ok fo_indices (fd_folder_infos fd)"
  by (auto simp: folder_info_by_uuid_def intro: keys_folder_mem dest!: find_SomeD)

lemma infos_folder_add: "gm_ok fo_indices (fd_folder_infos fd) \<Longrightarrow> gm_ok fo_indices (fd_folder_infos (folder_add fo fd))"
  using gm_ok_fold [of fo_indices "fd_folder_infos fd" fo] by (simp add: folder_add_def gm_fold_def)

lemma keys_settle:
  "keys_ok cl \<Longrightarrow> gm_ok fo_indices (fd_folder_infos fd) \<Longrightarrow> keys_ok (snd (settle fd fo fo' f cl))"
  by (simp add: settle_def keys_drop_files keys_set_folder infos_set_folder_info)

lemmas keys_intros = keys_with_store keys_put_new_block keys_erase_block keys_drop_file keys_drop_files keys_set_folder
  infos_set_folder_info keys_set_device keys_put_device keys_put_folder keys_settle infos_folder_add gm_ok_remove
  infos_blank

lemmas keys_dests = folders_by_id_infos folders_by_key_infos folder_info_of_infos folder_info_by_uuid_infos

subsection \<open>Diffs\<close>

lemma keys_add_blocks: "keys_ok cl \<Longrightarrow> keys_ok (snd (apply_add_blocks bs cl))"
  by (induction bs arbitrary: cl) (auto intro: keys_intros split: sum.splits)

lemma keys_remove_blocks: "keys_ok cl \<Longrightarrow> keys_ok (snd (apply_remove_blocks hs cl))"
  by (induction hs arbitrary: cl) (auto intro: keys_intros keys_and_then split: option.splits)

lemma keys_assign_blocks: "keys_ok cl \<Longrightarrow> keys_ok (snd (assign_blocks avail f i bs cl))"
  by (induction bs arbitrary: cl i) (auto intro!: keys_and_then intro: keys_intros split: option.splits)

lemma keys_new_file: "new_file uuid info fo cl = Some (g, cl') \<Longrightarrow> keys_ok cl \<Longrightarrow> keys_ok cl'"
  by (auto simp: new_file_def same_keys_def intro: keys_ok_same split: if_splits option.splits)

lemma keys_take_over:
  "keys_ok cl \<Longrightarrow> gm_ok fo_indices (fd_folder_infos fd) \<Longrightarrow> keys_ok (snd (take_over fd fo prev g cl))"
  unfolding take_over_def Let_def by (intro keys_and_then keys_intros)

lemma keys_add_strict:
  "keys_ok cl \<Longrightarrow> gm_ok fo_indices (fd_folder_infos fd) \<Longrightarrow> keys_ok (snd (cl_add_strict E fd fo f cl))"
  by (simp add: cl_add_strict_def keys_settle)

lemma keys_update_file: "keys_ok cl \<Longrightarrow> keys_ok (snd (apply_update_file E fid peer_id f uuid cl))"
proof -
  assume ok: "keys_ok cl"
  have place: "keys_ok (snd (case by_name (cl_store c) (pf_name f) fo of
              None \<Rightarrow> cl_add_strict E fd fo g c
            | Some prev \<Rightarrow>
                if seq_at (cl_store c) prev < seq_at (cl_store c) g
                then and_then (take_over fd fo prev g c) (\<lambda>cl. case folder_info_of fid peer_id cl of
                    None \<Rightarrow> (Some assertion_failed, cl)
                  | Some (fd, fo) \<Rightarrow> cl_add_strict E fd fo prev cl)
                else if seq_at (cl_store c) prev = seq_at (cl_store c) g then drop_file g c
                else cl_add_strict E fd fo g c))"
    if "keys_ok c" "gm_ok fo_indices (fd_folder_infos fd)" for c fd fo g
    using that by (auto intro!: keys_and_then keys_take_over keys_add_strict keys_drop_file
        dest: folder_info_of_infos split: option.splits)
  show ?thesis
    unfolding apply_update_file_def
    by (auto split: option.splits simp: ok intro!: keys_and_then keys_assign_blocks place
        dest: keys_new_file [OF _ ok] folder_info_of_infos [OF _ ok])
qed

lemma keys_update_folder: "keys_ok cl \<Longrightarrow> keys_ok (snd (apply_update_folder E fid peer_id fs us cl))"
  by (induction E fid peer_id fs us cl rule: apply_update_folder.induct) (auto intro!: keys_and_then keys_update_file)

lemma keys_before_advance: "keys_ok cl \<Longrightarrow> keys_ok (snd (before_advance action fid source cl))"
  by (auto simp: before_advance_def intro!: keys_intros dest: keys_dests split: option.splits)

lemma keys_put_file: "keys_ok cl \<Longrightarrow> keys_ok (cl\<lparr>cl_store := st\<rparr>)"
  by (auto simp: same_keys_def intro: keys_ok_same)

lemma keys_finish_advance: "keys_ok cl \<Longrightarrow> keys_ok (snd (finish_advance E fid f cl))"
  by (auto simp: finish_advance_def intro!: keys_add_strict keys_put_file dest: keys_dests split: option.splits)

lemma keys_advance: "keys_ok cl \<Longrightarrow> keys_ok (snd (apply_advance E fid uuid local cl))"
  unfolding apply_advance_def Let_def
  by (auto intro!: keys_and_then keys_take_over keys_assign_blocks keys_finish_advance
      dest: keys_dests keys_new_file split: option.splits)

lemma keys_make_available: "keys_ok cl \<Longrightarrow> keys_ok (snd (make_available f i cl))"
  by (auto simp: make_available_def intro: keys_intros split: option.splits bool.splits)

lemma keys_for_blocks:
  "keys_ok cl \<Longrightarrow> (\<And>i c. keys_ok c \<Longrightarrow> keys_ok (snd (step i c))) \<Longrightarrow> keys_ok (snd (for_blocks step is cl))"
  by (induction "is" arbitrary: cl) (auto intro!: keys_and_then)

lemma keys_set_file: "keys_ok cl \<Longrightarrow> keys_ok (snd (set_file f upd cl))"
  by (simp add: set_file_def keys_with_store)

lemma keys_availability:
  assumes "keys_ok cl"
  shows "keys_ok (snd (apply_block_ack file_name fid dev i cl))" "keys_ok (snd (apply_file_availability fid file_name v cl))"
    "keys_ok (snd (apply_blocks_availability fid dev file_name valid cl))" "keys_ok (snd (apply_mark_reachable fid dev file_name r cl))"
  using assms
  by (auto simp: apply_block_ack_def apply_file_availability_def apply_blocks_availability_def apply_mark_reachable_def Let_def
      intro!: keys_make_available keys_for_blocks keys_set_file keys_with_store keys_and_then split: option.splits)

lemma keys_remove_files: "keys_ok cl \<Longrightarrow> keys_ok (snd (apply_remove_files fid dev keys cl))"
  by (induction keys arbitrary: cl)
    (auto intro!: keys_and_then keys_intros dest: keys_dests split: option.splits)

lemma keys_erase_folder_info:
  "keys_ok cl \<Longrightarrow> gm_ok fo_indices (fd_folder_infos fd) \<Longrightarrow> keys_ok (snd (erase_folder_info fd fo cl))"
  unfolding erase_folder_info_def by (intro keys_drop_files keys_set_folder) (simp_all add: gm_ok_remove)

lemma keys_remove_folder_infos: "keys_ok cl \<Longrightarrow> keys_ok (snd (apply_remove_folder_infos keys cl))"
  by (induction keys arbitrary: cl)
    (auto intro!: keys_and_then keys_erase_folder_info dest: keys_dests split: option.splits)

lemma keys_folder_removed: "keys_ok cl \<Longrightarrow> keys_ok (cl\<lparr>cl_folders := gm_remove fd_indices fd (cl_folders cl)\<rparr>)"
  by (auto simp: keys_ok_def gm_remove_filter gm_ok_def unique_by_filter)

lemma keys_folders:
  assumes "keys_ok cl"
  shows "keys_ok (snd (apply_upsert_folder uuid db cl))" "keys_ok (snd (apply_upsert_folder_info uuid dev ikey fid index_id cl))"
    "keys_ok (snd (apply_remove_folder fid cl))" "keys_ok (snd (apply_suspend_folder fid value ec cl))"
    "keys_ok (snd (before_scan_start fid at cl))" "keys_ok (after_scan_start fid sub_dir cl)"
    "keys_ok (snd (apply_scan_finish fid at cl))" "keys_ok (snd (apply_synchronization delta fid cl))"
proof -
  show "keys_ok (snd (apply_upsert_folder uuid db cl))"
    using assms by (auto simp: apply_upsert_folder_def intro!: keys_put_folder keys_set_folder dest: keys_dests split: option.splits)
  show "keys_ok (snd (apply_upsert_folder_info uuid dev ikey fid index_id cl))"
    using assms by (auto simp: apply_upsert_folder_info_def Let_def intro!: keys_intros dest: keys_dests split: option.splits)
  show "keys_ok (snd (apply_remove_folder fid cl))"
    using assms by (auto simp: apply_remove_folder_def intro!: keys_drop_files keys_folder_removed split: option.splits)
qed (use assms in \<open>auto simp: apply_suspend_folder_def before_scan_start_def after_scan_start_def apply_scan_finish_def
      apply_synchronization_def mark_suspended_def set_scan_start_def set_scan_finish_def adjust_synchronization_def Let_def
      intro!: keys_set_folder keys_put_file dest: keys_dests split: option.splits if_splits\<close>)

lemma keys_token: "keys_ok (cl\<lparr>cl_token := t\<rparr>) = keys_ok cl" "keys_ok (cl\<lparr>cl_tainted := b\<rparr>) = keys_ok cl"
  by (simp_all add: keys_ok_def)

lemma keys_add_device: "keys_ok cl \<Longrightarrow> keys_ok (snd (add_device E key data cl))"
  by (auto simp: add_device_def cl_create_device_def Let_def keys_token intro!: keys_put_device split: option.splits sum.splits)

lemma keys_some:
  "gm_ok [\<lambda>s. did_sha256 (so_device_id s)] m \<Longrightarrow> gm_ok [\<lambda>s. did_sha256 (so_device_id s)] (put_some s m)"
  "gm_ok [\<lambda>s. did_sha256 (so_device_id s)] m \<Longrightarrow> remove_some key m = Some m' \<Longrightarrow> gm_ok [\<lambda>s. did_sha256 (so_device_id s)] m'"
  "gm_ok [\<lambda>s. did_sha256 (so_device_id s)] m \<Longrightarrow> update_some did db m = Some m' \<Longrightarrow> gm_ok [\<lambda>s. did_sha256 (so_device_id s)] m'"
  by (auto simp: put_some_def remove_some_def update_some_def some_device_assign_def
      intro!: gm_ok_fold gm_ok_remove gm_ok_map simp del: gm_remove.simps split: option.splits if_splits)

lemma keys_with_some:
  assumes "keys_ok cl"
  shows "(\<And>m'. m = Some m' \<Longrightarrow> gm_ok [\<lambda>s. did_sha256 (so_device_id s)] m') \<Longrightarrow> keys_ok (snd (with_pending m cl))"
    "(\<And>m'. m = Some m' \<Longrightarrow> gm_ok [\<lambda>s. did_sha256 (so_device_id s)] m') \<Longrightarrow> keys_ok (snd (with_ignored m cl))"
  using assms by (auto simp: with_pending_def with_ignored_def keys_ok_def split: option.splits)

lemma keys_some_parts:
  "keys_ok cl \<Longrightarrow> gm_ok [\<lambda>s. did_sha256 (so_device_id s)] (cl_pending_devices cl)"
  "keys_ok cl \<Longrightarrow> gm_ok [\<lambda>s. did_sha256 (so_device_id s)] (cl_ignored_devices cl)"
  by (simp_all add: keys_ok_def)

lemma keys_some_diffs:
  assumes "keys_ok cl"
  shows "keys_ok (snd (with_pending (remove_some key (cl_pending_devices cl)) cl))"
    "keys_ok (snd (with_ignored (remove_some key (cl_ignored_devices cl)) cl))"
    "keys_ok (snd (with_pending (update_some did db (cl_pending_devices cl)) cl))"
    "keys_ok (snd (with_ignored (update_some did db (cl_ignored_devices cl)) cl))"
    "keys_ok (snd (apply_add_pending_device did db cl))" "keys_ok (snd (apply_add_ignored_device did db cl))"
  using keys_some_parts [OF assms] unfolding apply_add_pending_device_def apply_add_ignored_device_def
  by (auto intro!: keys_with_some [OF assms] dest: keys_some(2,3) intro: keys_some(1))

lemma keys_devices:
  assumes "keys_ok cl"
  shows "keys_ok (snd (apply_remove_peer key cl))" "keys_ok (snd (apply_update_peer E peer_id item cl))"
    "keys_ok (snd (apply_peer_state E peer_id state cn cv cl))" "keys_ok (snd (apply_update_contact did known uris cl))"
    "keys_ok (snd (apply_rx_tx peer_id rx tx cl))" "keys_ok (snd (set_views peer_id upd cl))"
proof -
  show "keys_ok (snd (apply_remove_peer key cl))"
    using assms by (auto simp: apply_remove_peer_def Let_def keys_ok_def gm_ok_remove split: option.splits)
  show "keys_ok (snd (apply_update_peer E peer_id item cl))"
    using assms by (auto simp: apply_update_peer_def intro!: keys_add_device keys_set_device split: option.splits prod.splits)
  show "keys_ok (snd (apply_rx_tx peer_id rx tx cl))"
    using assms by (auto simp: apply_rx_tx_def Let_def intro!: keys_set_device split: option.splits)
qed (use assms in \<open>auto simp: apply_peer_state_def apply_update_contact_def set_views_def Let_def
      intro!: keys_set_device split: option.splits bool.splits\<close>)

lemma keys_put_pending: "keys_ok cl \<Longrightarrow> keys_ok (put_pending_folder p cl)"
  by (simp add: put_pending_folder_def keys_ok_def gm_ok_fold)

lemma keys_pending_folders:
  "keys_ok cl \<Longrightarrow> keys_ok (snd (apply_add_pending_folders items cl))"
  "keys_ok cl \<Longrightarrow> keys_ok (snd (apply_remove_pending_folders keys cl))"
proof -
  show "keys_ok cl \<Longrightarrow> keys_ok (snd (apply_add_pending_folders items cl))"
    by (induction items cl rule: apply_add_pending_folders.induct) (auto intro: keys_put_pending split: option.splits)
  show "keys_ok cl \<Longrightarrow> keys_ok (snd (apply_remove_pending_folders keys cl))"
    by (induction keys cl rule: apply_remove_pending_folders.induct) (auto simp: keys_ok_def gm_ok_remove split: option.splits)
qed

lemma keys_each: "keys_ok cl \<Longrightarrow> (\<And>x c. keys_ok c \<Longrightarrow> keys_ok (snd (step x c))) \<Longrightarrow> keys_ok (snd (each step xs cl))"
  by (induction xs arbitrary: cl) (auto intro!: keys_and_then)

lemma keys_load:
  assumes "keys_ok cl"
  shows "keys_ok (snd (apply_load_block b cl))" "keys_ok (snd (apply_load_device E d cl))"
    "keys_ok (snd (apply_load_folder E fd cl))" "keys_ok (snd (apply_load_folder_info fo cl))"
    "keys_ok (snd (apply_load_pending_device E s cl))" "keys_ok (snd (apply_load_ignored_device E s cl))"
    "keys_ok (snd (apply_load_ignored_folder E ig cl))" "keys_ok (snd (apply_load_pending_folder p cl))"
proof -
  show "keys_ok (snd (apply_load_block b cl))"
    using assms by (auto simp: apply_load_block_def intro!: keys_put_new_block split: prod.splits sum.splits)
  show "keys_ok (snd (apply_load_device E d cl))"
    using assms by (auto simp: apply_load_device_def intro!: keys_put_device keys_add_device split: prod.splits option.splits)
  show "keys_ok (snd (apply_load_folder E fd cl))"
    using assms by (auto simp: apply_load_folder_def folder_create_def intro!: keys_put_folder split: prod.splits option.splits sum.splits if_splits)
  show "keys_ok (snd (apply_load_folder_info fo cl))"
    using assms by (auto simp: apply_load_folder_info_def intro!: keys_set_folder infos_folder_add dest: keys_dests
        split: prod.splits option.splits sum.splits)
  show "keys_ok (snd (apply_load_pending_device E s cl))"
    using assms keys_some(1) [OF keys_some_parts(1) [OF assms]] by (auto simp: apply_load_pending_device_def keys_ok_def split: sum.splits)
  show "keys_ok (snd (apply_load_ignored_device E s cl))"
    using assms keys_some(1) [OF keys_some_parts(2) [OF assms]] by (auto simp: apply_load_ignored_device_def keys_ok_def split: sum.splits)
  show "keys_ok (snd (apply_load_ignored_folder E ig cl))"
    using assms by (auto simp: apply_load_ignored_folder_def keys_ok_def intro: gm_ok_fold split: prod.splits sum.splits)
  show "keys_ok (snd (apply_load_pending_folder p cl))"
    using assms by (auto simp: apply_load_pending_folder_def intro!: keys_put_pending split: prod.splits option.splits sum.splits)
qed

lemma keys_assign_loaded: "keys_ok cl \<Longrightarrow> keys_ok (snd (assign_loaded f i hs cl))"
  by (induction hs arbitrary: cl i) (auto intro!: keys_and_then keys_with_store split: option.splits)

lemma keys_load_file: "keys_ok cl \<Longrightarrow> keys_ok (snd (apply_load_file E item cl))"
proof -
  assume ok: "keys_ok cl"
  have "keys_ok (cl\<lparr>cl_store := st, cl_next := n\<rparr>)" for st n using ok by (auto simp: same_keys_def intro: keys_ok_same)
  then show ?thesis using ok
    by (auto simp: apply_load_file_def cl_add_relaxed_def Let_def intro!: keys_and_then keys_assign_loaded keys_settle
        dest: keys_dests split: prod.splits option.splits sum.splits)
qed

lemma keys_load_devices: "keys_ok cl \<Longrightarrow> keys_ok (snd (apply_load_devices E items cl))"
  unfolding apply_load_devices_def by (intro keys_and_then keys_each) (auto intro: keys_load)

subsection \<open>Chains and the controller\<close>

lemmas keys_diffs = keys_add_blocks keys_remove_blocks keys_before_advance keys_availability keys_folders keys_devices
  keys_pending_folders keys_each keys_load keys_load_file keys_load_devices keys_some_diffs keys_update_folder keys_advance
  keys_remove_files keys_remove_folder_infos

lemma keys_step_before: "keys_ok cl \<Longrightarrow> keys_ok (snd (step_before E a cl))"
  by (cases a) (simp_all add: keys_diffs apply_update_remote_views_def before_cluster_update_def)

lemma keys_step_after: "keys_ok cl \<Longrightarrow> keys_ok (snd (step_after E a cl))"
  by (cases a) (simp_all add: keys_diffs)

interpretation keys: kept_by_steps "cluster_steps E" keys_ok for E
proof
  fix a cl
  assume ok: "keys_ok cl"
  show "keys_ok (snd (before_children (cluster_steps E) a cl))" by (simp add: cluster_steps_def keys_step_before ok)
  show "keys_ok (snd (after_children (cluster_steps E) a cl))" by (simp add: cluster_steps_def keys_step_after ok)
  show "keys_ok (after_siblings (cluster_steps E) a cl)" using ok by (cases a) (simp_all add: cluster_steps_def keys_folders)
  show "keys_ok (commit_loading (cluster_steps E) cl)" "keys_ok (mark_tainted (cluster_steps E) cl)"
    using ok by (simp_all add: cluster_steps_def keys_token)
qed

lemma keys_new_cluster: "keys_ok (new_cluster dev n)"
  by (simp add: keys_ok_def new_cluster_def gm_ok_def unique_by_def)



text \<open>The same for a chain applied as a whole.\<close>

lemma keys_cluster_apply: "keys_ok cl \<Longrightarrow> keys_ok (snd (cluster_apply E d cl))"
  using keys.chain_keeps [of "(cl, [])" False E d] by (auto simp: cluster_apply_def split: prod.splits)

subsection \<open>Offers of the same folder\<close>

lemma put_pending_same_id:
  assumes "keys_ok cl"
  shows "filter (\<lambda>q. pn_id q = pn_id p) (cl_pending_folders (put_pending_folder p cl)) = [p]"
proof -
  have "gm_fold pn_indices p (cl_pending_folders cl) = filter (\<lambda>y. \<not> gm_agree pn_indices p y) (cl_pending_folders cl) @ [p]"
    using gm_put_replace [of pn_indices "cl_pending_folders cl" p] assms by (simp add: gm_fold_def keys_ok_def)
  moreover have "filter (\<lambda>q. pn_id q = pn_id p) (filter (\<lambda>y. \<not> gm_agree pn_indices p y) (cl_pending_folders cl)) = []"
    by (auto simp: filter_empty_conv gm_agree_def pn_indices_def)
  ultimately show ?thesis by (simp add: put_pending_folder_def)
qed

text \<open>
  Offers of one folder by two peers do not stand side by side: after both are added, the second is
  the only pending folder with this identifier, although keys are made per peer.
\<close>

theorem second_offer_replaces:
  assumes "keys_ok cl" "devices_by_sha256 a (cl_devices cl) = Some p" "devices_by_sha256 b (cl_devices cl) = Some q"
    and "dfo_id (dpf_folder db1) = fid" "dfo_id (dpf_folder db2) = fid"
  shows "\<exists>cl'. apply_add_pending_folders [(db1, a, u1), (db2, b, u2)] cl = (None, cl') \<and>
    filter (\<lambda>x. pn_id x = fid) (cl_pending_folders cl') = [pn_create_uuid u2 db2 (dv_id q)]"
proof -
  let ?cl = "put_pending_folder (pn_create_uuid u1 db1 (dv_id p)) cl"
  have "cl_devices ?cl = cl_devices cl" by (simp add: put_pending_folder_def)
  moreover have "pn_id (pn_create_uuid u2 db2 (dv_id q)) = fid" by (simp add: pn_id_def pn_create_uuid_def assms)
  ultimately show ?thesis
    using put_pending_same_id [OF keys_put_pending [OF assms(1), of "pn_create_uuid u1 db1 (dv_id p)"], of "pn_create_uuid u2 db2 (dv_id q)"] assms
    by simp
qed

definition second_device :: device where
  "second_device = new_device \<lparr>did_value = [], did_sha256 = replicate 32 2\<rparr> ''laptop'' [] (snd (make_offline 1))"

definition sample_offer :: db_pending_folder where
  "sample_offer = \<lparr>dpf_folder = \<lparr>dfo_id = ''f'', dfo_label = [], dfo_ignore_permissions = False, dfo_ignore_delete = False,
     dfo_disable_temp_indexes = False, dfo_paused = False, dfo_scheduled = False, dfo_watched = False, dfo_path = [],
     dfo_folder_type = send_and_receive, dfo_pull_order = random, dfo_rescan_interval = 0\<rparr>,
     dpf_folder_info = \<lparr>dfi_index_id = 1, dfi_max_sequence = 1, dfi_introducer_device_key = []\<rparr>\<rparr>"

theorem second_offer_replaces_witness:
  "\<exists>cl'. apply_add_pending_folders [(sample_offer, replicate 32 1, [1]), (sample_offer, replicate 32 2, [2])]
      ((new_cluster sample_device 0)\<lparr>cl_devices := [sample_device, second_device]\<rparr>) = (None, cl') \<and>
    map (did_sha256 \<circ> pn_device) (filter (\<lambda>x. pn_id x = ''f'') (cl_pending_folders cl')) = [replicate 32 2]"
proof -
  let ?cl = "(new_cluster sample_device 0)\<lparr>cl_devices := [sample_device, second_device]\<rparr>"
  have sha: "dv_sha sample_device = replicate 32 1" "dv_sha second_device = replicate 32 2"
    by (simp_all add: sample_device_def second_device_def new_device_def)
  have other: "(replicate 32 1 :: bytes) \<noteq> replicate 32 2" by (simp add: eval_nat_numeral)
  have keys: "dv_key sample_device = device_prefix # replicate 32 1" "dv_key second_device = device_prefix # replicate 32 2"
    by (simp_all add: dv_key_def did_get_key_def sample_device_def second_device_def new_device_def)
  have "keys_ok ?cl" using other by (simp add: keys_ok_def new_cluster_def gm_ok_def unique_by_def dv_indices_def sha keys)
  moreover have "devices_by_sha256 (replicate 32 1) (cl_devices ?cl) = Some sample_device"
    "devices_by_sha256 (replicate 32 2) (cl_devices ?cl) = Some second_device"
    using other by (simp_all add: devices_by_sha256_def gm_get_def sha)
  ultimately obtain cl' where cl': "apply_add_pending_folders [(sample_offer, replicate 32 1, [1]), (sample_offer, replicate 32 2, [2])] ?cl = (None, cl')"
      "filter (\<lambda>x. pn_id x = ''f'') (cl_pending_folders cl') = [pn_create_uuid [2] sample_offer (dv_id second_device)]"
    using second_offer_replaces [of ?cl "replicate 32 1" sample_device "replicate 32 2" second_device sample_offer "''f''" sample_offer "[1]" "[2]"]
    by (auto simp: sample_offer_def)
  then show ?thesis by (simp add: pn_create_uuid_def sha)
qed

end
