(* ===== verification/Bep.thy ===== *)
theory Bep
  imports Messages
begin

text \<open>
  Framing of the block exchange protocol (\<^verbatim>\<open>src/proto/bep_support.cpp\<close>): the hello message, the
  frames of all other messages with their optional compression, and the announcements of the
  local discovery. The protobuf coder and LZ4 are third-party code: they are the fields of the
  record \<open>codec\<close>, and what the framing relies on is the predicate \<open>codec_ok\<close>. Reading past the
  received bytes is the value \<open>Out_of_bounds\<close>.
\<close>

subsection \<open>Big-endian integers\<close>

definition be16 :: "u16 \<Rightarrow> bytes" where
  "be16 w = [ucast (drop_bit 8 w), ucast w]"

definition be32 :: "u32 \<Rightarrow> bytes" where
  "be32 w = [ucast (drop_bit 24 w), ucast (drop_bit 16 w), ucast (drop_bit 8 w), ucast w]"

text \<open>Reading at the head of a buffer; \<open>None\<close> where the buffer ends too early.\<close>

definition read_be16 :: "bytes \<Rightarrow> u16 option" where
  "read_be16 bs = (if length bs < 2 then None else Some (push_bit 8 (ucast (bs ! 0)) OR ucast (bs ! 1)))"

definition read_be32 :: "bytes \<Rightarrow> u32 option" where
  "read_be32 bs = (if length bs < 4 then None
     else Some (push_bit 24 (ucast (bs ! 0)) OR push_bit 16 (ucast (bs ! 1)) OR push_bit 8 (ucast (bs ! 2)) OR ucast (bs ! 3)))"

lemma be_lengths [simp]: "length (be16 h) = 2" "length (be32 w) = 4"
  by (simp_all add: be16_def be32_def)

lemma read_be16_be16 [simp]: "read_be16 (be16 w @ rest) = Some w"
proof -
  have "push_bit 8 (ucast (ucast (drop_bit 8 w) :: u8)) OR ucast (ucast w :: u8) = w"
    by (rule bit_word_eqI) (auto simp: bit_simps)
  then show ?thesis by (simp add: be16_def read_be16_def)
qed

lemma join_bytes:
  fixes w :: u32
  shows "push_bit 24 (ucast (ucast (drop_bit 24 w) :: u8)) OR push_bit 16 (ucast (ucast (drop_bit 16 w) :: u8))
    OR push_bit 8 (ucast (ucast (drop_bit 8 w) :: u8)) OR ucast (ucast w :: u8) = w" (is "?v = w")
proof (rule bit_word_eqI)
  fix n assume "n < LENGTH(32)"
  then have "n < 8 \<or> (8 \<le> n \<and> n < 16) \<or> (16 \<le> n \<and> n < 24) \<or> (24 \<le> n \<and> n < 32)" by auto
  then show "bit ?v n = bit w n" by (elim disjE) (auto simp: bit_simps)
qed

lemma read_be32_be32 [simp]: "read_be32 (be32 w @ rest) = Some w"
  using join_bytes [of w] by (simp add: be32_def read_be32_def)

lemma read_be16_None_iff: "read_be16 bs = None \<longleftrightarrow> length bs < 2"
  by (simp add: read_be16_def)

lemma read_be32_None_iff: "read_be32 bs = None \<longleftrightarrow> length bs < 4"
  by (simp add: read_be32_def)

lemma be16_inject: "be16 v = be16 w \<longleftrightarrow> v = w"
  by (metis append_Nil2 option.inject read_be16_be16)

subsection \<open>Messages\<close>

record pr_hello =
  ph_device_name :: string
  ph_client_name :: string
  ph_client_version :: string

datatype bep_code = NO_BEP_ERROR | GENERIC | NO_SUCH_FILE | INVALID_FILE

record pr_response =
  ps_id :: int
  ps_data :: bytes
  ps_code :: bep_code

datatype progress_type = APPEND | FORGET

record pr_progress_update =
  pu_update_type :: progress_type
  pu_name :: string
  pu_version :: version
  pu_block_indexes :: "int list"

record pr_progress =
  pp_folder :: string
  pp_updates :: "pr_progress_update list"

datatype bep_message = Hello pr_hello | ClusterConfig "pr_folder list" | Index pr_index
  | IndexUpdate pr_index | Request pr_request | Response pr_response
  | DownloadProgress pr_progress | Ping | Close string

record pr_announce =
  pa_id :: bytes
  pa_addresses :: "string list"
  pa_instance_id :: u64

text \<open>The type a header carries: a value the coder found but the enumeration lacks is \<open>OTHER\<close>.\<close>

datatype message_type = CLUSTER_CONFIG | INDEX | INDEX_UPDATE | REQUEST | RESPONSE
  | DOWNLOAD_PROGRESS | PING | CLOSE | OTHER

datatype message_compression = NONE | LZ4

text \<open>
  The coder of the messages and the compression. A decoder gives \<open>None\<close> when bytes are left
  over. \<open>decompress\<close> is given the compressed block and the room for the result; \<open>None\<close> is a
  negative code, and fewer bytes than the room may be produced.
\<close>

record codec =
  enc_header :: "message_type \<Rightarrow> message_compression \<Rightarrow> bytes"
  dec_header :: "bytes \<Rightarrow> (message_type \<times> message_compression) option"
  enc_body :: "bep_message \<Rightarrow> bytes"
  dec_body :: "message_type \<Rightarrow> bytes \<Rightarrow> bep_message option"
  dec_hello :: "bytes \<Rightarrow> pr_hello option"
  enc_announce :: "pr_announce \<Rightarrow> bytes"
  dec_announce :: "bytes \<Rightarrow> pr_announce option"
  compress :: "bytes \<Rightarrow> bytes"
  decompress :: "bytes \<Rightarrow> nat \<Rightarrow> bytes option"

datatype bep_error = Protobuf_err | Lz4_decoding | Wrong_magic | Out_of_bounds | Aborted

definition bep_magic :: u32 where "bep_magic = 0x2EA7D90B"
definition compression_threshold :: nat where "compression_threshold = 128"

definition message_type_of :: "bep_message \<Rightarrow> message_type option" where
  "message_type_of m = (case m of
       Hello _ \<Rightarrow> None
     | ClusterConfig _ \<Rightarrow> Some CLUSTER_CONFIG
     | Index _ \<Rightarrow> Some INDEX
     | IndexUpdate _ \<Rightarrow> Some INDEX_UPDATE
     | Request _ \<Rightarrow> Some REQUEST
     | Response _ \<Rightarrow> Some RESPONSE
     | DownloadProgress _ \<Rightarrow> Some DOWNLOAD_PROGRESS
     | Ping \<Rightarrow> Some PING
     | Close _ \<Rightarrow> Some CLOSE)"

text \<open>\<open>encode\<close> and \<open>decode\<close> of a message: those of a ping neither write nor read anything.\<close>

definition encode_body :: "codec \<Rightarrow> bep_message \<Rightarrow> bytes" where
  "encode_body c m = (if m = Ping then [] else enc_body c m)"

definition decode_body :: "codec \<Rightarrow> message_type \<Rightarrow> bytes \<Rightarrow> bep_message option" where
  "decode_body c ty bs = (if ty = PING then Some Ping else dec_body c ty bs)"

subsection \<open>Writing\<close>

definition make_hello_message :: "codec \<Rightarrow> string \<Rightarrow> string \<Rightarrow> bytes" where
  "make_hello_message c client_version device_name =
     (let body = encode_body c (Hello \<lparr>ph_device_name = device_name, ph_client_name = ''syncspirit'',
            ph_client_version = client_version\<rparr>)
      in be32 bep_magic @ be16 (of_nat (length body)) @ body)"

text \<open>Which compression a message of the given size gets.\<close>

definition applied_compression :: "bep_message \<Rightarrow> compression \<Rightarrow> nat \<Rightarrow> message_compression" where
  "applied_compression m compression sz =
     (if sz > compression_threshold \<and> compression \<noteq> NEVER
      then (case m of
          Response _ \<Rightarrow> if compression = ALWAYS then LZ4 else NONE
        | _ \<Rightarrow> LZ4)
      else NONE)"

text \<open>
  \<open>serialize\<close> has an instance for every message but the hello; an empty result of the
  compression violates its assertion.
\<close>

definition serialize :: "codec \<Rightarrow> bep_message \<Rightarrow> compression \<Rightarrow> bytes option" where
  "serialize c m compression =
     (case message_type_of m of
       None \<Rightarrow> None
     | Some ty \<Rightarrow>
         let body = encode_body c m;
             compr = applied_compression m compression (length body);
             header = enc_header c ty compr;
             head = be16 (of_nat (length header)) @ header
         in if compr = NONE then Some (head @ be32 (of_nat (length body)) @ body)
            else let block = compress c body
                 in if block = [] then None
                    else Some (head @ be32 (of_nat (length block + 4)) @ be32 (of_nat (length body)) @ block))"

definition make_announce_message :: "codec \<Rightarrow> nat \<Rightarrow> bytes \<Rightarrow> string list \<Rightarrow> u64 \<Rightarrow> bytes option" where
  "make_announce_message c buff_size device_id uris instance_id =
     (let body = enc_announce c \<lparr>pa_id = device_id, pa_addresses = uris, pa_instance_id = instance_id\<rparr>
      in if buff_size \<ge> length body then Some (be32 bep_magic @ body) else None)"

subsection \<open>Reading\<close>

type_synonym parsed = "bep_message \<times> nat"

text \<open>What is returned while the bytes of a message have not all arrived.\<close>

definition need_more :: parsed where
  "need_more = (Hello \<lparr>ph_device_name = [], ph_client_name = [], ph_client_version = []\<rparr>, 0)"

text \<open>
  \<open>parse_hello\<close> is given what follows the magic number. The comparison of the announced size
  with the size of the rest decides for more bytes when there are too many, and the view on the
  body of a message that has not all arrived lies beyond the received bytes.
\<close>

definition parse_hello :: "codec \<Rightarrow> bytes \<Rightarrow> (bep_error, parsed) result" where
  "parse_hello c buff = (case read_be16 buff of
       None \<Rightarrow> Inl Out_of_bounds
     | Some sz \<Rightarrow>
         let msg_sz = unat sz; rest = drop 2 buff
         in if msg_sz < length rest then Inr need_more
            else if length rest < msg_sz then Inl Out_of_bounds
            else (case dec_hello c rest of
                None \<Rightarrow> Inl Protobuf_err
              | Some msg \<Rightarrow> Inr (Hello msg, msg_sz + 6)))"

definition parse_msg :: "codec \<Rightarrow> message_type \<Rightarrow> bytes \<Rightarrow> nat \<Rightarrow> (bep_error, parsed) result" where
  "parse_msg c ty buff consumed =
     (if ty = OTHER then Inl Aborted
      else case decode_body c ty buff of
          None \<Rightarrow> Inl Protobuf_err
        | Some item \<Rightarrow> Inr (item, consumed + length buff))"

text \<open>
  A compressed body: the size it expands to and the block. The result of the expansion is
  read to its announced size, the part that was not written being zeros. In a body too short for
  the first size, reading it leaves the body and the length of the block wraps around.
\<close>

definition parse_compressed :: "codec \<Rightarrow> message_type \<Rightarrow> bytes \<Rightarrow> nat \<Rightarrow> (bep_error, parsed) result" where
  "parse_compressed c ty body consumed = (case read_be32 body of
       None \<Rightarrow> Inl Out_of_bounds
     | Some sz \<Rightarrow> (case decompress c (drop 4 body) (unat sz) of
           None \<Rightarrow> Inl Lz4_decoding
         | Some out \<Rightarrow> (case parse_msg c ty (take (unat sz) (out @ replicate (unat sz) 0)) 0 of
               Inl e \<Rightarrow> Inl e
             | Inr (item, _) \<Rightarrow> Inr (item, consumed + length body))))"

definition parse_bep :: "codec \<Rightarrow> bytes \<Rightarrow> (bep_error, parsed) result" where
  "parse_bep c buff =
     (if length buff < 4 then Inr need_more
      else if take 4 buff = be32 bep_magic then parse_hello c (drop 4 buff)
      else case read_be16 buff of
          None \<Rightarrow> Inl Out_of_bounds
        | Some sz \<Rightarrow>
            let header_sz = unat sz
            in if int (2 + header_sz) > to_s32 (int (length buff)) then Inr need_more
               else case dec_header c (take header_sz (drop 2 buff)) of
                   None \<Rightarrow> Inl Protobuf_err
                 | Some (ty, compr) \<Rightarrow> (case read_be32 (drop (2 + header_sz) buff) of
                       None \<Rightarrow> Inl Out_of_bounds
                     | Some sz \<Rightarrow>
                         let message_sz = unat sz; rest = drop (2 + header_sz + 4) buff
                         in if message_sz > length rest then Inr need_more
                            else if compr = NONE then parse_msg c ty (take message_sz rest) (2 + header_sz + 4)
                            else parse_compressed c ty (take message_sz rest) (2 + header_sz + 4)))"

definition parse_announce :: "codec \<Rightarrow> bytes \<Rightarrow> (bep_error, pr_announce) result" where
  "parse_announce c buff =
     (if length buff \<le> 4 then Inl Wrong_magic
      else if read_be32 buff \<noteq> Some bep_magic then Inl Wrong_magic
      else case dec_announce c (drop 4 buff) of None \<Rightarrow> Inl Protobuf_err | Some msg \<Rightarrow> Inr msg)"

subsection \<open>Frames\<close>

text \<open>
  What the framing relies on for a message: the coder reads back the headers and the body it
  writes, a header has at most the four bytes of its two enumerations, the body stays below
  2 GiB, and LZ4 restores what it compressed, within its documented bound.
\<close>

definition faithful :: "codec \<Rightarrow> bep_message \<Rightarrow> bool" where
  "faithful c m = (case message_type_of m of
       None \<Rightarrow> False
     | Some ty \<Rightarrow>
         let body = encode_body c m
         in (\<forall>compr \<in> {NONE, LZ4}. dec_header c (enc_header c ty compr) = Some (ty, compr)
               \<and> length (enc_header c ty compr) \<le> 4)
            \<and> decode_body c ty body = Some m \<and> length body < 2 ^ 30
            \<and> (length body > compression_threshold \<longrightarrow> compress c body \<noteq> []
               \<and> length (compress c body) < 2 ^ 31
               \<and> decompress c (compress c body) (length body) = Some body))"

lemma read_be16_take: "2 \<le> n \<Longrightarrow> read_be16 (take n bs) = read_be16 bs"
  by (auto simp: read_be16_def)

lemma read_be32_take: "4 \<le> n \<Longrightarrow> read_be32 (take n bs) = read_be32 bs"
  by (auto simp: read_be32_def)

lemma read_be16_magic: "read_be16 (be32 bep_magic) = Some 0x2EA7"
  by (simp add: read_be16_def be32_def bep_magic_def)

lemma unat_of_nat_u16: "n < 2 ^ 16 \<Longrightarrow> unat (of_nat n :: u16) = n"
  by (simp add: unat_of_nat)

lemma unat_of_nat_u32: "n < 2 ^ 32 \<Longrightarrow> unat (of_nat n :: u32) = n"
  by (simp add: unat_of_nat)

lemma to_s32_small: "n < 2 ^ 31 \<Longrightarrow> to_s32 (int n) = int n"
  by (simp add: to_s32_def)

lemma not_magic:
  assumes "length header \<le> 4" and "4 \<le> length buff" and "buff = be16 (of_nat (length header)) @ tail"
  shows "take 4 buff \<noteq> be32 bep_magic"
proof
  assume "take 4 buff = be32 bep_magic"
  then have "read_be16 (take 4 buff) = Some 0x2EA7" using read_be16_magic by simp
  then have "(of_nat (length header) :: u16) = 0x2EA7" using assms(3) by (simp add: read_be16_take)
  then have "length header = 0x2EA7"
    using unat_of_nat_u16 [of "length header"] assms(1) by simp
  then show False using assms(1) by simp
qed

text \<open>How a buffer is read that begins with a header.\<close>

lemma parse_bep_header:
  assumes header: "dec_header c header = Some (ty, compr)" "length header \<le> 4"
    and buff: "buff = be16 (of_nat (length header)) @ header @ tail" "4 \<le> length buff" "length buff < 2 ^ 31"
  shows "parse_bep c buff = (case read_be32 tail of
       None \<Rightarrow> Inl Out_of_bounds
     | Some sz \<Rightarrow>
         if unat sz > length (drop 4 tail) then Inr need_more
         else if compr = NONE then parse_msg c ty (take (unat sz) (drop 4 tail)) (2 + length header + 4)
         else parse_compressed c ty (take (unat sz) (drop 4 tail)) (2 + length header + 4))"
proof -
  let ?hs = "length header"
  have hs: "unat (of_nat ?hs :: u16) = ?hs" using header(2) by (intro unat_of_nat_u16) simp
  have len: "length buff = 2 + ?hs + length tail" using buff(1) by simp
  then have "\<not> int (2 + ?hs) > to_s32 (int (length buff))"
    using to_s32_small [OF buff(3)] by linarith
  moreover have rest: "drop (2 + ?hs) buff = tail" and "take ?hs (drop 2 buff) = header"
    using buff(1) by (simp_all add: be16_def)
  moreover have "drop (2 + ?hs + 4) buff = drop 4 tail"
    using rest by (metis add.commute drop_drop)
  moreover have "read_be16 buff = Some (of_nat ?hs)" using buff(1) by simp
  moreover have "take 4 buff \<noteq> be32 bep_magic" using not_magic [OF header(2) buff(2) buff(1)] .
  ultimately show ?thesis using buff(2) header(1) hs
    by (simp add: parse_bep_def Let_def split: option.split)
qed

lemma parse_bep_short: "length buff < 4 \<Longrightarrow> parse_bep c buff = Inr need_more"
  by (simp add: parse_bep_def)

text \<open>The parts of a written frame: header, size of the body, body.\<close>

lemma serialize_parts:
  assumes ok: "faithful c m" and ty: "message_type_of m = Some ty"
  obtains compr header body where
    "serialize c m compression = Some (be16 (of_nat (length header)) @ header @ be32 (of_nat (length body)) @ body)"
    "dec_header c header = Some (ty, compr)" "length header \<le> 4" "length body < 2 ^ 32"
    "if compr = NONE then body = encode_body c m
     else body = be32 (of_nat (length (encode_body c m))) @ compress c (encode_body c m)
       \<and> decompress c (compress c (encode_body c m)) (length (encode_body c m)) = Some (encode_body c m)"
proof -
  define raw where "raw = encode_body c m"
  define compr where "compr = applied_compression m compression (length raw)"
  define header where "header = enc_header c ty compr"
  have header: "dec_header c header = Some (ty, compr)" "length header \<le> 4"
    using ok ty by (cases compr; simp add: faithful_def header_def Let_def)+
  have size: "length raw < 2 ^ 30" using ok ty by (simp add: faithful_def raw_def Let_def)
  show thesis
  proof (cases compr)
    case NONE
    then have "serialize c m compression = Some (be16 (of_nat (length header)) @ header @ be32 (of_nat (length raw)) @ raw)"
      using ty by (simp add: serialize_def Let_def header_def compr_def raw_def)
    then show thesis using that [of header raw compr] header size NONE by (simp add: raw_def)
  next
    case LZ4
    then have "length raw > compression_threshold"
      by (auto simp: compr_def applied_compression_def split: if_splits)
    then have block: "compress c raw \<noteq> []" "length (compress c raw) < 2 ^ 31"
        "decompress c (compress c raw) (length raw) = Some raw"
      using ok ty by (simp_all add: faithful_def raw_def Let_def)
    let ?body = "be32 (of_nat (length raw)) @ compress c raw"
    have "serialize c m compression = Some (be16 (of_nat (length header)) @ header @ be32 (of_nat (length ?body)) @ ?body)"
      using ty LZ4 block(1) by (simp add: serialize_def Let_def header_def compr_def raw_def add.commute)
    then show thesis using that [of header ?body compr] header block LZ4 by (simp add: raw_def)
  qed
qed

text \<open>What is read of a complete body.\<close>

lemma parse_body:
  assumes ok: "faithful c m" and ty: "message_type_of m = Some ty"
    and body: "if compr = NONE then body = encode_body c m
     else body = be32 (of_nat (length (encode_body c m))) @ compress c (encode_body c m)
       \<and> decompress c (compress c (encode_body c m)) (length (encode_body c m)) = Some (encode_body c m)"
  shows "(if compr = NONE then parse_msg c ty body n else parse_compressed c ty body n) = Inr (m, n + length body)"
proof -
  have "ty \<noteq> OTHER" using ty by (auto simp: message_type_of_def split: bep_message.splits)
  then have msg: "parse_msg c ty (encode_body c m) k = Inr (m, k + length (encode_body c m))" for k
    using ok ty by (simp add: faithful_def parse_msg_def Let_def)
  have size: "unat (of_nat (length (encode_body c m)) :: u32) = length (encode_body c m)"
    using ok ty by (intro unat_of_nat_u32) (simp add: faithful_def Let_def)
  show ?thesis
  proof (cases compr)
    case NONE
    then show ?thesis using body msg by simp
  next
    case LZ4
    then show ?thesis using body msg size by (simp add: parse_compressed_def)
  qed
qed

lemma parse_frame:
  assumes "faithful c m"
    and "serialize c m compression = Some frame" and "length frame + length rest < 2 ^ 31"
  shows "parse_bep c (frame @ rest) = Inr (m, length frame)"
proof -
  obtain ty where ty: "message_type_of m = Some ty"
    using assms(1) by (auto simp: faithful_def split: option.splits)
  obtain compr header body where
    "serialize c m compression = Some (be16 (of_nat (length header)) @ header @ be32 (of_nat (length body)) @ body)"
    and header: "dec_header c header = Some (ty, compr)" "length header \<le> 4" and small: "length body < 2 ^ 32"
    and body: "if compr = NONE then body = encode_body c m
     else body = be32 (of_nat (length (encode_body c m))) @ compress c (encode_body c m)
       \<and> decompress c (compress c (encode_body c m)) (length (encode_body c m)) = Some (encode_body c m)"
    using serialize_parts [OF assms(1) ty] .
  then have frame: "frame = be16 (of_nat (length header)) @ header @ be32 (of_nat (length body)) @ body"
    using assms(2) by simp
  have "frame @ rest = be16 (of_nat (length header)) @ header @ (be32 (of_nat (length body)) @ body @ rest)"
    by (simp add: frame)
  from parse_bep_header [OF header this]
  have "parse_bep c (frame @ rest) =
      (if compr = NONE then parse_msg c ty body (2 + length header + 4)
       else parse_compressed c ty body (2 + length header + 4))"
    using assms(3) by (simp add: frame unat_of_nat_u32 [OF small])
  also have "\<dots> = Inr (m, 2 + length header + 4 + length body)" by (rule parse_body [OF assms(1) ty body])
  finally show ?thesis by (simp add: frame)
qed

text \<open>
  C17: every message but the hello is written, with whatever compression, as a frame that is
  read back as the message, also when other bytes follow it in the buffer, and exactly the bytes
  of the frame are consumed.
\<close>

theorem bep_frame_roundtrip:
  assumes "faithful c m"
  shows "\<exists>frame. serialize c m compression = Some frame
    \<and> (\<forall>rest. length frame + length rest < 2 ^ 31 \<longrightarrow> parse_bep c (frame @ rest) = Inr (m, length frame))"
proof -
  obtain ty where ty: "message_type_of m = Some ty"
    using assms by (auto simp: faithful_def split: option.splits)
  obtain frame where "serialize c m compression = Some frame"
    using serialize_parts [OF assms ty] by blast
  then show ?thesis using parse_frame [OF assms] by blast
qed

text \<open>The first bytes of a frame.\<close>

lemma parse_bep_prefix:
  assumes header: "dec_header c header = Some (ty, compr)" "length header \<le> 4" and small: "length body < 2 ^ 32"
    and frame: "frame = be16 (of_nat (length header)) @ header @ be32 (of_nat (length body)) @ body"
    and n: "length frame < 2 ^ 31" "n < length frame"
  shows "parse_bep c (take n frame) = (if 4 \<le> n \<and> 2 + length header \<le> n \<and> n < 2 + length header + 4
      then Inl Out_of_bounds else Inr need_more)"
proof -
  let ?hs = "length header"
  let ?tail = "be32 (of_nat (length body)) @ body"
  consider "n < 4" | "4 \<le> n" "n < 2 + ?hs" | "4 \<le> n" "2 + ?hs \<le> n" by linarith
  then show ?thesis
  proof cases
    case 1
    then show ?thesis by (simp add: parse_bep_short)
  next
    case 2
    have start: "take n frame = be16 (of_nat ?hs) @ take (n - 2) (header @ ?tail)"
      using 2 by (simp add: frame)
    have "take 4 (take n frame) \<noteq> be32 bep_magic"
      using 2 n(2) by (intro not_magic [OF header(2) _ start]) simp
    moreover have "unat (of_nat ?hs :: u16) = ?hs" using header(2) by (intro unat_of_nat_u16) simp
    moreover have "to_s32 (int n) = int n" using n by (intro to_s32_small) simp
    ultimately show ?thesis using 2 n
      by (simp add: parse_bep_def Let_def read_be16_take min_absorb2) (simp add: frame)
  next
    case 3
    have start: "take n frame = be16 (of_nat ?hs) @ header @ take (n - 2 - ?hs) ?tail"
      using 3 by (simp add: frame)
    have size: "length body + ?hs + 6 = length frame" by (simp add: frame)
    have "parse_bep c (take n frame) = (case read_be32 (take (n - 2 - ?hs) ?tail) of
       None \<Rightarrow> Inl Out_of_bounds
     | Some sz \<Rightarrow>
         if unat sz > length (drop 4 (take (n - 2 - ?hs) ?tail)) then Inr need_more
         else if compr = NONE then parse_msg c ty (take (unat sz) (drop 4 (take (n - 2 - ?hs) ?tail))) (2 + length header + 4)
         else parse_compressed c ty (take (unat sz) (drop 4 (take (n - 2 - ?hs) ?tail))) (2 + length header + 4))"
      using 3 n by (intro parse_bep_header [OF header start]) simp_all
    moreover have "read_be32 (take k ?tail) = None" if "k < 4" for k
      using that by (simp add: read_be32_None_iff)
    moreover have "read_be32 (take k ?tail) = Some (of_nat (length body))" if "4 \<le> k" for k
      using that by (simp add: read_be32_take)
    ultimately show ?thesis using 3 n size unat_of_nat_u32 [OF small]
      by (cases "n < 2 + ?hs + 4") auto
  qed
qed

text \<open>
  C38: a frame of which only a part has arrived. Before the header is complete and again once
  the size of the body is, the reader asks for more bytes; with the header but not all four
  bytes of the size it reads the size from beyond the received bytes.
\<close>

theorem bep_partial_frame:
  assumes "faithful c m" and "serialize c m compression = Some frame" and "length frame < 2 ^ 31"
  shows "\<exists>hs \<le> 4. \<forall>n < length frame. parse_bep c (take n frame) =
    (if 4 \<le> n \<and> 2 + hs \<le> n \<and> n < 2 + hs + 4 then Inl Out_of_bounds else Inr need_more)"
proof -
  obtain ty where ty: "message_type_of m = Some ty"
    using assms(1) by (auto simp: faithful_def split: option.splits)
  obtain compr header body where
    "serialize c m compression = Some (be16 (of_nat (length header)) @ header @ be32 (of_nat (length body)) @ body)"
    and header: "dec_header c header = Some (ty, compr)" "length header \<le> 4" and small: "length body < 2 ^ 32"
    using serialize_parts [OF assms(1) ty] .
  then have frame: "frame = be16 (of_nat (length header)) @ header @ be32 (of_nat (length body)) @ body"
    using assms(2) by simp
  have "parse_bep c (take n frame) = (if 4 \<le> n \<and> 2 + length header \<le> n \<and> n < 2 + length header + 4
      then Inl Out_of_bounds else Inr need_more)" if "n < length frame" for n
    using parse_bep_prefix [OF header small frame assms(3) that] .
  then show ?thesis using header(2) by blast
qed

text \<open>
  The hello message is understood only when it is alone and complete in the buffer. With
  the first byte of the next message behind it, it is never consumed, and a part of it that
  has the magic number makes the reader look beyond the received bytes.
\<close>

theorem hello_only_alone:
  assumes "dec_hello c (encode_body c (Hello h)) = Some h" and "length (encode_body c (Hello h)) < 2 ^ 16"
    and "h = \<lparr>ph_device_name = device_name, ph_client_name = ''syncspirit'', ph_client_version = client_version\<rparr>"
    and "hello = make_hello_message c client_version device_name"
  shows "parse_bep c hello = Inr (Hello h, length hello)
    \<and> (rest \<noteq> [] \<longrightarrow> parse_bep c (hello @ rest) = Inr need_more)
    \<and> (4 \<le> n \<and> n < length hello \<longrightarrow> parse_bep c (take n hello) = Inl Out_of_bounds)"
proof -
  define body where "body = encode_body c (Hello h)"
  have hello: "hello = be32 bep_magic @ be16 (of_nat (length body)) @ body"
    using assms(3,4) by (simp add: make_hello_message_def body_def Let_def)
  have size: "unat (of_nat (length body) :: u16) = length body"
    using assms(2) by (intro unat_of_nat_u16) (simp add: body_def)
  have magic: "parse_bep c (be32 bep_magic @ bs) = parse_hello c bs" for bs
    by (simp add: parse_bep_def)
  have alone: "parse_bep c hello = Inr (Hello h, length hello)"
    using assms(1) by (simp add: hello magic parse_hello_def size flip: body_def)
  have followed: "parse_bep c (hello @ rest) = Inr need_more" if "rest \<noteq> []"
    using that by (simp add: hello magic parse_hello_def size)
  have "parse_bep c (take n hello) = Inl Out_of_bounds" if "4 \<le> n" "n < length hello"
  proof -
    have "take n hello = be32 bep_magic @ take (n - 4) (be16 (of_nat (length body)) @ body)"
      using that by (simp add: hello)
    moreover have "parse_hello c (take k (be16 (of_nat (length body)) @ body)) = Inl Out_of_bounds"
      if "k < 2 + length body" for k
      using that by (cases "k < 2") (auto simp: parse_hello_def read_be16_take size Let_def read_be16_None_iff [THEN iffD2])
    moreover have "n - 4 < 2 + length body" using that by (simp add: hello)
    ultimately show ?thesis by (simp only: magic)
  qed
  then show ?thesis using alone followed by blast
qed

text \<open>An announcement that fits into its buffer is read back with all it says.\<close>

theorem announce_roundtrip:
  assumes "dec_announce c (enc_announce c a) = Some a" and "enc_announce c a \<noteq> []"
    and "length (enc_announce c a) \<le> buff_size"
  shows "\<exists>msg. make_announce_message c buff_size (pa_id a) (pa_addresses a) (pa_instance_id a) = Some msg
    \<and> parse_announce c msg = Inr a"
proof -
  have "make_announce_message c buff_size (pa_id a) (pa_addresses a) (pa_instance_id a)
      = Some (be32 bep_magic @ enc_announce c a)"
    using assms(3) by (cases a) (simp add: make_announce_message_def Let_def)
  moreover have "parse_announce c (be32 bep_magic @ enc_announce c a) = Inr a"
    using assms(1,2) by (simp add: parse_announce_def)
  ultimately show ?thesis by blast
qed

subsection \<open>A codec\<close>

text \<open>
  A codec with the headers protobuf gives, which writes the reasons of closing, the data of responses
  and the names in hellos as they are and compresses nothing: the assumptions above hold of it.
\<close>

definition header_bytes :: "message_type \<Rightarrow> message_compression \<Rightarrow> bytes" where
  "header_bytes ty compr =
     (case ty of CLUSTER_CONFIG \<Rightarrow> [] | INDEX \<Rightarrow> [8, 1] | INDEX_UPDATE \<Rightarrow> [8, 2] | REQUEST \<Rightarrow> [8, 3]
        | RESPONSE \<Rightarrow> [8, 4] | DOWNLOAD_PROGRESS \<Rightarrow> [8, 5] | PING \<Rightarrow> [8, 6] | CLOSE \<Rightarrow> [8, 7] | OTHER \<Rightarrow> [8, 8])
     @ (case compr of NONE \<Rightarrow> [] | LZ4 \<Rightarrow> [16, 1])"

definition all_headers :: "(message_type \<times> message_compression) list" where
  "all_headers = List.product [CLUSTER_CONFIG, INDEX, INDEX_UPDATE, REQUEST, RESPONSE,
     DOWNLOAD_PROGRESS, PING, CLOSE] [NONE, LZ4]"

definition text_bytes :: "string \<Rightarrow> bytes" where
  "text_bytes = map (\<lambda>ch. of_nat (of_char ch))"

definition bytes_text :: "bytes \<Rightarrow> string" where
  "bytes_text = map (\<lambda>b. char_of (unat b))"

definition sample_codec :: codec where
  "sample_codec = \<lparr>enc_header = header_bytes,
     dec_header = map_of (map (\<lambda>(ty, compr). (header_bytes ty compr, (ty, compr))) all_headers),
     enc_body = (\<lambda>m. case m of
         Hello h \<Rightarrow> text_bytes (ph_device_name h)
       | Response r \<Rightarrow> ps_data r
       | Close reason \<Rightarrow> text_bytes reason
       | _ \<Rightarrow> []),
     dec_body = (\<lambda>ty bs. if ty = CLOSE then Some (Close (bytes_text bs))
         else if ty = RESPONSE then Some (Response \<lparr>ps_id = 1, ps_data = bs, ps_code = NO_BEP_ERROR\<rparr>)
         else if ty = CLUSTER_CONFIG then Some (ClusterConfig []) else None),
     dec_hello = (\<lambda>bs. Some \<lparr>ph_device_name = bytes_text bs, ph_client_name = ''syncspirit'', ph_client_version = ''1''\<rparr>),
     enc_announce = pa_id,
     dec_announce = (\<lambda>bs. Some \<lparr>pa_id = bs, pa_addresses = [], pa_instance_id = 7\<rparr>),
     compress = (\<lambda>bs. bs),
     decompress = (\<lambda>bs n. if length bs = n then Some bs else None)\<rparr>"

lemma bytes_text_text_bytes [simp]: "bytes_text (text_bytes s) = s"
proof -
  have "char_of (unat (of_nat (of_char ch) :: u8)) = ch" for ch
    by (simp add: unat_of_nat)
  then show ?thesis by (simp add: bytes_text_def text_bytes_def comp_def)
qed

lemma header_bytes_short: "ty \<noteq> OTHER \<Longrightarrow> length (header_bytes ty compr) \<le> 4"
  by (cases ty; cases compr) (simp_all add: header_bytes_def)

lemma sample_header: "ty \<noteq> OTHER \<Longrightarrow> dec_header sample_codec (header_bytes ty compr) = Some (ty, compr)"
  by (cases ty; cases compr) (simp_all add: sample_codec_def all_headers_def header_bytes_def)

lemma sample_close_faithful:
  assumes "length reason < 2 ^ 30"
  shows "faithful sample_codec (Close reason)"
proof -
  have "length (text_bytes reason) = length reason" by (simp add: text_bytes_def)
  moreover have "enc_header sample_codec = header_bytes" by (simp add: sample_codec_def)
  moreover have "compression_threshold < length reason \<longrightarrow> text_bytes reason \<noteq> []" by (auto simp: text_bytes_def)
  ultimately show ?thesis
    using assms sample_header header_bytes_short
    by (auto simp: faithful_def message_type_of_def encode_body_def decode_body_def Let_def sample_codec_def)
qed

lemma sample_response_faithful:
  assumes "length data < 2 ^ 30"
  shows "faithful sample_codec (Response \<lparr>ps_id = 1, ps_data = data, ps_code = NO_BEP_ERROR\<rparr>)"
proof -
  have "enc_header sample_codec = header_bytes" by (simp add: sample_codec_def)
  moreover have "compression_threshold < length data \<longrightarrow> data \<noteq> []" by auto
  ultimately show ?thesis
    using assms sample_header header_bytes_short
    by (auto simp: faithful_def message_type_of_def encode_body_def decode_body_def Let_def sample_codec_def)
qed

lemma sample_config_faithful: "faithful sample_codec (ClusterConfig [])"
proof -
  have "enc_header sample_codec = header_bytes" by (simp add: sample_codec_def)
  then show ?thesis using sample_header header_bytes_short
    by (auto simp: faithful_def message_type_of_def encode_body_def decode_body_def Let_def sample_codec_def)
qed

theorem bep_frame_roundtrip_witness:
  "(\<exists>frame. serialize sample_codec (Close ''bye'') NEVER = Some frame
      \<and> (\<forall>rest. length frame + length rest < 2 ^ 31 \<longrightarrow> parse_bep sample_codec (frame @ rest) = Inr (Close ''bye'', length frame)))
   \<and> (\<exists>frame. serialize sample_codec (Close (replicate 200 CHR ''a'')) ALWAYS = Some frame
      \<and> (\<forall>rest. length frame + length rest < 2 ^ 31 \<longrightarrow>
           parse_bep sample_codec (frame @ rest) = Inr (Close (replicate 200 CHR ''a''), length frame)))"
  using bep_frame_roundtrip [OF sample_close_faithful [of "''bye''"], of NEVER]
    bep_frame_roundtrip [OF sample_close_faithful [of "replicate 200 CHR ''a''"], of ALWAYS] by simp

lemma sample_frame:
  "serialize sample_codec (Close ''bye'') NEVER = Some [0, 2, 8, 7, 0, 0, 0, 3, 98, 121, 101]"
  by code_simp

theorem bep_partial_frame_witness:
  "\<exists>hs \<le> 4. \<forall>n < length ([0, 2, 8, 7, 0, 0, 0, 3, 98, 121, 101] :: bytes).
    parse_bep sample_codec (take n [0, 2, 8, 7, 0, 0, 0, 3, 98, 121, 101]) =
      (if 4 \<le> n \<and> 2 + hs \<le> n \<and> n < 2 + hs + 4 then Inl Out_of_bounds else Inr need_more)"
  by (rule bep_partial_frame [OF sample_close_faithful sample_frame]) simp_all

lemma sample_hello:
  defines "h \<equiv> \<lparr>ph_device_name = ''me'', ph_client_name = ''syncspirit'', ph_client_version = ''1''\<rparr>"
  shows "dec_hello sample_codec (encode_body sample_codec (Hello h)) = Some h"
    and "length (encode_body sample_codec (Hello h)) < 2 ^ 16"
proof -
  have "encode_body sample_codec (Hello h) = text_bytes ''me''"
    by (simp add: encode_body_def sample_codec_def h_def)
  then show "dec_hello sample_codec (encode_body sample_codec (Hello h)) = Some h"
    and "length (encode_body sample_codec (Hello h)) < 2 ^ 16"
    by (simp add: sample_codec_def h_def) (simp add: \<open>encode_body _ _ = _\<close> text_bytes_def)
qed

theorem hello_only_alone_witness:
  "parse_bep sample_codec (make_hello_message sample_codec ''1'' ''me'' @ [0]) = Inr need_more"
  using hello_only_alone [OF sample_hello refl refl, of "[0]"] by blast

theorem announce_roundtrip_witness:
  "\<exists>msg. make_announce_message sample_codec 1500 [1, 2, 3] [] 7 = Some msg
    \<and> parse_announce sample_codec msg = Inr \<lparr>pa_id = [1, 2, 3], pa_addresses = [], pa_instance_id = 7\<rparr>"
  using announce_roundtrip [of sample_codec "\<lparr>pa_id = [1, 2, 3], pa_addresses = [], pa_instance_id = 7\<rparr>" 1500]
  by (simp add: sample_codec_def)

end
