(* ===== verification/Relay.thy ===== *)
theory Relay
  imports Bep Device_Id
begin

text \<open>
  The protocol spoken with relay servers (\<^verbatim>\<open>src/proto/relay_support.cpp\<close>): its messages, their
  wire form, the identifier and the ping interval in the address of a relay, and the list of
  relays fetched from a server. JSON and URL parsing are third-party code and arguments here.
\<close>

datatype relay_message =
    Relay_ping
  | Relay_pong
  | Join_relay_request
  | Join_session_request bytes
  | Relay_response u32 string
  | Connect_request bytes
  | Session_invitation (inv_from: bytes) (inv_key: bytes) (inv_address: "u32 option") (inv_port: u32)
      (inv_server_socket: bool)

datatype parse_result = Incomplete | Protocol_error | Wrapped nat relay_message

definition header_sz :: nat where "header_sz = 12"
definition max_packet_sz :: nat where "max_packet_sz = 1400"
definition magic :: u32 where "magic = 0x9E79BC40"

subsection \<open>Writing\<close>

definition serialize_header :: "nat \<Rightarrow> nat \<Rightarrow> bytes" where
  "serialize_header type payload_sz = be32 magic @ be32 (of_nat type) @ be32 (of_nat payload_sz)"

text \<open>
  Writing goes into a buffer that may hold an earlier message: it gets the computed size and the
  bytes written replace its first ones.
\<close>

definition resized :: "nat \<Rightarrow> bytes \<Rightarrow> bytes" where
  "resized n out = take n out @ replicate (n - length out) 0"

definition lay :: "bytes \<Rightarrow> bytes \<Rightarrow> bytes" where
  "lay bs out = bs @ drop (length bs) out"

definition sized :: "bytes \<Rightarrow> bytes" where
  "sized bs = be32 (of_nat (length bs)) @ bs"

text \<open>The type, the announced size of the payload and the payload itself.\<close>

definition payload :: "relay_message \<Rightarrow> nat \<times> nat \<times> bytes" where
  "payload msg = (case msg of
       Relay_ping \<Rightarrow> (0, 0, [])
     | Relay_pong \<Rightarrow> (1, 0, [])
     | Join_relay_request \<Rightarrow> (2, 0, [])
     | Join_session_request key \<Rightarrow> (3, 4 + length key, sized key)
     | Relay_response code details \<Rightarrow> (4, 4 + 4 + length details, be32 code @ sized (text_bytes details))
     | Connect_request device_id \<Rightarrow> (5, 4 + length device_id, sized device_id)
     | Session_invitation from key address port server_socket \<Rightarrow>
         let addr = be32 (case address of None \<Rightarrow> 0 | Some a \<Rightarrow> a)
         in (6, 4 * 6 + length from + length key + length addr,
             sized from @ sized key @ sized addr @ be32 port @ be32 (if server_socket then 1 else 0)))"

definition relay_serialize :: "relay_message \<Rightarrow> bytes \<Rightarrow> bytes" where
  "relay_serialize msg out =
     (case payload msg of (type, payload_sz, body) \<Rightarrow>
        lay (serialize_header type payload_sz @ body) (resized (header_sz + payload_sz) out))"

subsection \<open>Reading\<close>

definition parse_join_session_request :: "bytes \<Rightarrow> parse_result" where
  "parse_join_session_request data = (case read_be32 data of
       None \<Rightarrow> Protocol_error
     | Some sz \<Rightarrow> if unat sz + 4 > length data then Protocol_error
         else Wrapped (header_sz + length data) (Join_session_request (drop 4 data)))"

definition parse_response :: "bytes \<Rightarrow> parse_result" where
  "parse_response data =
     (if length data < 8 then Protocol_error
      else case (read_be32 data, read_be32 (drop 4 data)) of
          (Some code, Some sz) \<Rightarrow>
            if unat sz + 8 > length data then Protocol_error
            else Wrapped (header_sz + length data) (Relay_response code (bytes_text (take (unat sz) (drop 8 data))))
        | _ \<Rightarrow> Protocol_error)"

definition parse_connect_request :: "bytes \<Rightarrow> parse_result" where
  "parse_connect_request data = (case read_be32 data of
       None \<Rightarrow> Protocol_error
     | Some sz \<Rightarrow> if unat sz + 4 \<noteq> length data then Protocol_error
         else Wrapped (header_sz + length data) (Connect_request (drop 4 data)))"

text \<open>A size and as many bytes; what they are and what follows, or \<open>None\<close> when there are too few.\<close>

definition read_sized :: "bytes \<Rightarrow> (bytes \<times> bytes) option" where
  "read_sized data = (case read_be32 data of
       None \<Rightarrow> None
     | Some sz \<Rightarrow> let rest = drop 4 data
         in if length rest < unat sz then None else Some (take (unat sz) rest, drop (unat sz) rest))"

definition address_of :: "bytes \<Rightarrow> u32 option" where
  "address_of addr =
     (if length addr = 4 then (case read_be32 addr of Some n \<Rightarrow> if n = 0 then None else Some n | None \<Rightarrow> None)
      else None)"

definition parse_session_invitation :: "bytes \<Rightarrow> parse_result" where
  "parse_session_invitation data = (case read_sized data of
       None \<Rightarrow> Protocol_error
     | Some (from, rest) \<Rightarrow> (case read_sized rest of
           None \<Rightarrow> Protocol_error
         | Some (key, rest) \<Rightarrow> (case read_sized rest of
               None \<Rightarrow> Protocol_error
             | Some (addr, rest) \<Rightarrow> (case read_be32 rest of
                   None \<Rightarrow> Protocol_error
                 | Some port \<Rightarrow> (case read_be32 (drop 4 rest) of
                       None \<Rightarrow> Protocol_error
                     | Some server_socket \<Rightarrow> Wrapped (header_sz + length data)
                         (Session_invitation from key (address_of addr) port (server_socket \<noteq> 0)))))))"

definition relay_parse :: "bytes \<Rightarrow> parse_result" where
  "relay_parse data =
     (if length data < header_sz then Incomplete
      else if read_be32 data \<noteq> Some magic then Protocol_error
      else case (read_be32 (drop 4 data), read_be32 (drop 8 data)) of
          (Some ty, Some sz) \<Rightarrow>
            let type = unat ty in
            if type > 6 then Protocol_error
            else if unat sz > max_packet_sz then Protocol_error
            else if length data < header_sz + unat sz then Incomplete
            else let tail = drop header_sz data in
              if type = 0 then Wrapped header_sz Relay_ping
              else if type = 1 then Wrapped header_sz Relay_pong
              else if type = 2 then Wrapped header_sz Join_relay_request
              else if type = 3 then parse_join_session_request tail
              else if type = 4 then parse_response tail
              else if type = 5 then parse_connect_request tail
              else parse_session_invitation tail
        | _ \<Rightarrow> Protocol_error)"

subsection \<open>Addresses of relays\<close>

text \<open>
  The digits of an interval are added up in an \<open>int\<close>, without a test that they are digits;
  \<open>None\<close> is its overflow. Characters are signed.
\<close>

definition signed_char :: "char \<Rightarrow> int" where
  "signed_char c = (let n = of_char c in if n < 128 then n else n - 256)"

definition in_s32 :: "int \<Rightarrow> bool" where
  "in_s32 x \<longleftrightarrow> - (2 ^ 31) \<le> x \<and> x < 2 ^ 31"

fun digits :: "int \<Rightarrow> string \<Rightarrow> int option" where
  "digits acc [] = Some acc"
| "digits acc (c # cs) =
     (let shifted = acc * 10; next = shifted + (signed_char c - 48)
      in if in_s32 shifted \<and> in_s32 next then digits next cs else None)"

text \<open>
  Minutes up to the letter m, then seconds up to the letter s. Without an m the search for it
  has moved to the end of the text. The result is in seconds.
\<close>

definition parse_interval :: "string \<Rightarrow> int option" where
  "parse_interval text =
     (let before_m = takeWhile (\<lambda>c. c \<noteq> CHR ''m'') text;
          has_m = CHR ''m'' \<in> set text;
          rest = (if has_m then drop (Suc (length before_m)) text else []);
          before_s = takeWhile (\<lambda>c. c \<noteq> CHR ''s'') rest;
          has_s = CHR ''s'' \<in> set rest
      in case digits 0 (if has_m then before_m else []) of
          None \<Rightarrow> None
        | Some mins \<Rightarrow> (case digits 0 (if has_s then before_s else []) of
              None \<Rightarrow> None
            | Some secs \<Rightarrow> Some ((if mins = 0 \<and> secs = 0 then 1 else mins) * 60 + secs)))"

text \<open>What the code reads of a parsed URL; the text is that of the whole URL.\<close>

record relay_uri =
  ru_text :: string
  ru_scheme :: string
  ru_params :: "(string \<times> string) list"

text \<open>The outer \<open>None\<close> is a violated assertion of \<open>from_string\<close>.\<close>

definition parse_device :: "relay_uri \<Rightarrow> device_id option option" where
  "parse_device u =
     (if ru_scheme u \<noteq> ''relay'' then Some None
      else let device_id_str = (case map_of (ru_params u) ''id'' of None \<Rightarrow> [] | Some v \<Rightarrow> v)
           in if device_id_str = [] then Some None else from_string device_id_str)"

subsection \<open>The list of relays\<close>

text \<open>JSON as the library presents it; numbers with a fraction carry what \<open>get<float>\<close> gives.\<close>

datatype 'f json = JNull | JBool bool | JInt int | JFloat 'f | JString string
  | JArray "'f json list" | JObject "(string \<times> 'f json) list"

record 'f location =
  lo_latitude :: 'f
  lo_longitude :: 'f
  lo_city :: string
  lo_country :: string
  lo_continent :: string

record 'f relay_info =
  ri_uri :: relay_uri
  ri_device_id :: device_id
  ri_location :: "'f location"
  ri_ping_interval :: int

datatype json_error = Malformed_json | Incorrect_json | Assertion_failed

text \<open>\<open>operator[]\<close> of an object: a key that is missing is entered with null.\<close>

definition json_at :: "(string \<times> 'f json) list \<Rightarrow> string \<Rightarrow> 'f json" where
  "json_at entries key = (case map_of entries key of None \<Rightarrow> JNull | Some v \<Rightarrow> v)"

definition text_or :: "string \<Rightarrow> 'f json \<Rightarrow> string" where
  "text_or d j = (case j of JString s \<Rightarrow> s | _ \<Rightarrow> d)"

definition float_or :: "'f \<Rightarrow> 'f json \<Rightarrow> 'f" where
  "float_or d j = (case j of JFloat x \<Rightarrow> x | _ \<Rightarrow> d)"

definition parse_location :: "'f :: zero json \<Rightarrow> 'f location" where
  "parse_location j = (let entries = (case j of JObject fs \<Rightarrow> fs | _ \<Rightarrow> []) in
     \<lparr>lo_latitude = float_or 0 (json_at entries ''latitude''), lo_longitude = float_or 0 (json_at entries ''longitude''),
      lo_city = text_or [] (json_at entries ''city''), lo_country = text_or [] (json_at entries ''country''),
      lo_continent = text_or [] (json_at entries ''continent'')\<rparr>)"

text \<open>The last parameter of a name wins here, unlike in \<open>parse_device\<close>.\<close>

definition last_param :: "string \<Rightarrow> (string \<times> string) list \<Rightarrow> string" where
  "last_param key params = (case map_of (rev params) key of None \<Rightarrow> [] | Some v \<Rightarrow> v)"

text \<open>
  One element of the list: \<open>Some None\<close> where it is skipped, \<open>None\<close> where an assertion or the
  arithmetic of the interval fails. The text handed to the URL parser ends at its first NUL.
\<close>

definition parse_relay :: "(string \<Rightarrow> relay_uri option) \<Rightarrow> 'f :: zero json \<Rightarrow> 'f relay_info option option" where
  "parse_relay parse_uri it = (case it of
       JObject entries \<Rightarrow> (case json_at entries ''url'' of
           JString url \<Rightarrow> (case parse_uri (takeWhile (\<lambda>c. c \<noteq> CHR 0x00) url) of
               None \<Rightarrow> Some None
             | Some u \<Rightarrow>
                 if ru_scheme u \<noteq> ''relay'' then Some None
                 else if last_param ''id'' (ru_params u) = [] then Some None
                 else (case from_string (last_param ''id'' (ru_params u)) of
                     None \<Rightarrow> None
                   | Some None \<Rightarrow> Some None
                   | Some (Some device_id) \<Rightarrow>
                       map_option (\<lambda>ping_interval. Some \<lparr>ri_uri = u, ri_device_id = device_id,
                           ri_location = parse_location (json_at entries ''location''), ri_ping_interval = ping_interval\<rparr>)
                         (parse_interval (last_param ''pingInterval'' (ru_params u)))))
         | _ \<Rightarrow> Some None)
     | _ \<Rightarrow> Some None)"

fun parse_relays :: "(string \<Rightarrow> relay_uri option) \<Rightarrow> 'f :: zero json list \<Rightarrow> 'f relay_info list option" where
  "parse_relays parse_uri [] = Some []"
| "parse_relays parse_uri (it # its) = (case parse_relay parse_uri it of
       None \<Rightarrow> None
     | Some r \<Rightarrow> map_option (\<lambda>rs. (case r of None \<Rightarrow> rs | Some i \<Rightarrow> i # rs)) (parse_relays parse_uri its))"

definition parse_endpoint :: "(string \<Rightarrow> 'f :: zero json option) \<Rightarrow> (string \<Rightarrow> relay_uri option) \<Rightarrow> string
    \<Rightarrow> (json_error, 'f relay_info list) result" where
  "parse_endpoint parse_json parse_uri buff = (case parse_json buff of
       None \<Rightarrow> Inl Malformed_json
     | Some (JObject entries) \<Rightarrow> (case json_at entries ''relays'' of
           JArray relays \<Rightarrow> (case parse_relays parse_uri relays of
               None \<Rightarrow> Inl Assertion_failed
             | Some r \<Rightarrow> Inr r)
         | _ \<Rightarrow> Inl Incorrect_json)
     | Some _ \<Rightarrow> Inl Incorrect_json)"

subsection \<open>Round trip\<close>

text \<open>
  The messages the wire form can carry: the whole payload within the limit of a packet, and no
  address that is written as its absence.
\<close>

definition sendable :: "relay_message \<Rightarrow> bool" where
  "sendable msg \<longleftrightarrow> fst (snd (payload msg)) \<le> max_packet_sz \<and>
     (case msg of Session_invitation _ _ address _ _ \<Rightarrow> address \<noteq> Some 0 | _ \<Rightarrow> True)"

lemma length_resized [simp]: "length (resized n out) = n"
  by (simp add: resized_def)

lemma text_bytes_length [simp]: "length (text_bytes s) = length s"
  by (simp add: text_bytes_def)

lemma sized_length [simp]: "length (sized bs) = 4 + length bs"
  by (simp add: sized_def)

text \<open>What is written has the announced size; the invitation leaves four bytes of the buffer.\<close>

lemma payload_size:
  "payload msg = (ty, sz, body) \<Longrightarrow> length body \<le> sz"
  by (auto simp: payload_def Let_def split: relay_message.splits)

lemma read_be32_drop_be32: "read_be32 (drop 4 (be32 v @ be32 w @ rest)) = Some w"
  "read_be32 (drop 8 (be32 u @ be32 v @ be32 w @ rest)) = Some w"
proof -
  show "read_be32 (drop 4 (be32 v @ be32 w @ rest)) = Some w" by simp
  have "drop 8 (be32 u @ be32 v @ be32 w @ rest) = drop 4 (drop 4 (be32 u @ be32 v @ be32 w @ rest))" by simp
  then show "read_be32 (drop 8 (be32 u @ be32 v @ be32 w @ rest)) = Some w"
    by (simp del: drop_drop)
qed

lemma read_sized_sized [simp]:
  "length bs < 2 ^ 32 \<Longrightarrow> read_sized (sized bs @ rest) = Some (bs, rest)"
  by (simp add: read_sized_def sized_def unat_of_nat_u32 Let_def)

lemma relay_parse_frame:
  assumes "ty \<le> 6" and "sz \<le> max_packet_sz"
    and "data = serialize_header ty sz @ tail"
  shows "relay_parse data = (if length tail < sz then Incomplete else
     if ty = 0 then Wrapped header_sz Relay_ping
     else if ty = 1 then Wrapped header_sz Relay_pong
     else if ty = 2 then Wrapped header_sz Join_relay_request
     else if ty = 3 then parse_join_session_request tail
     else if ty = 4 then parse_response tail
     else if ty = 5 then parse_connect_request tail
     else parse_session_invitation tail)"
proof -
  have "unat (of_nat ty :: u32) = ty" using assms(1) by (intro unat_of_nat_u32) simp
  moreover have "unat (of_nat sz :: u32) = sz" using assms(2) by (intro unat_of_nat_u32) (simp add: max_packet_sz_def)
  moreover have "drop header_sz data = tail" "length data = header_sz + length tail"
    by (simp_all add: assms(3) serialize_header_def header_sz_def)
  moreover have "read_be32 data = Some magic" "read_be32 (drop 4 data) = Some (of_nat ty)" "read_be32 (drop 8 data) = Some (of_nat sz)"
    by (simp_all add: assms(3) serialize_header_def read_be32_drop_be32)
  moreover have "\<not> 6 < ty" using assms(1) by simp
  ultimately show ?thesis using assms(2)
    by (simp add: relay_parse_def Let_def)
qed

text \<open>The bytes of a message: its header, its payload and what the buffer had behind it.\<close>

lemma relay_serialize_parts:
  assumes "payload msg = (ty, sz, body)"
  obtains pad where "relay_serialize msg out = serialize_header ty sz @ body @ pad"
    and "length (body @ pad) = sz"
proof
  let ?pad = "drop (header_sz + length body) (resized (header_sz + sz) out)"
  have "length (serialize_header ty sz) = header_sz" by (simp add: serialize_header_def header_sz_def)
  then show "relay_serialize msg out = serialize_header ty sz @ body @ ?pad"
    using assms by (simp add: relay_serialize_def lay_def)
  show "length (body @ ?pad) = sz" using payload_size [OF assms] by simp
qed

lemma address_roundtrip:
  "a \<noteq> Some 0 \<Longrightarrow> address_of (be32 (case a of None \<Rightarrow> 0 | Some x \<Rightarrow> x)) = a"
  using read_be32_be32 [of "case a of None \<Rightarrow> 0 | Some x \<Rightarrow> x" "[]"]
  by (auto simp: address_of_def split: option.splits)

text \<open>Only the invitation is written with less than it announces.\<close>

lemma payload_pad:
  assumes "payload msg = (ty, sz, body)" and "length (body @ pad) = sz" and "ty \<noteq> 6"
  shows "pad = []"
proof -
  have "length body = sz" using assms(1,3) by (auto simp: payload_def Let_def split: relay_message.splits)
  then show ?thesis using assms(2) by simp
qed

lemma invitation_parses:
  assumes "length sender < 2 ^ 32" "length key < 2 ^ 32" "address \<noteq> Some 0"
    and "payload (Session_invitation sender key address port server_socket) = (ty, sz, body)"
  shows "parse_session_invitation (body @ pad) =
    Wrapped (header_sz + length (body @ pad)) (Session_invitation sender key address port server_socket)"
proof -
  define addr where "addr = be32 (case address of None \<Rightarrow> 0 | Some x \<Rightarrow> x)"
  define flag where "flag = (if server_socket then 1 else 0 :: u32)"
  have addr: "address_of addr = address" "length addr < 2 ^ 32"
    using address_roundtrip [OF assms(3)] by (simp_all add: addr_def)
  have flag: "(flag \<noteq> 0) = server_socket" by (simp add: flag_def)
  have body: "body @ pad = sized sender @ sized key @ sized addr @ be32 port @ be32 flag @ pad"
    using assms(4) by (simp add: payload_def Let_def addr_def flag_def)
  show ?thesis unfolding body parse_session_invitation_def
    using assms(1,2) addr flag by simp
qed

lemma sized_parses:
  assumes "length bs < 2 ^ 32"
  shows "parse_join_session_request (sized bs) = Wrapped (header_sz + length (sized bs)) (Join_session_request bs)"
    and "parse_connect_request (sized bs) = Wrapped (header_sz + length (sized bs)) (Connect_request bs)"
  using assms by (simp_all add: parse_join_session_request_def parse_connect_request_def sized_def unat_of_nat_u32)

lemma response_parses:
  assumes "length details < 2 ^ 32"
  shows "parse_response (be32 code @ sized (text_bytes details))
    = Wrapped (header_sz + (8 + length details)) (Relay_response code details)"
proof -
  let ?bs = "text_bytes details"
  have "drop 8 (be32 code @ be32 n @ xs) = xs" for n xs
    using append_eq_conv_conj [of "be32 code @ be32 n" xs "be32 code @ be32 n @ xs"] by simp
  then show ?thesis using assms
    by (simp add: parse_response_def sized_def unat_of_nat_u32)
qed

lemma payload_parses:
  assumes "sendable msg" and "payload msg = (ty, sz, body)" and "length (body @ pad) = sz"
  shows "relay_parse (serialize_header ty sz @ body @ pad) = Wrapped (header_sz + sz) msg"
proof -
  have small: "sz \<le> max_packet_sz" using assms(1,2) by (simp add: sendable_def)
  have "ty \<le> 6" using assms(2) by (auto simp: payload_def Let_def split: relay_message.splits)
  note frame = relay_parse_frame [OF this small refl, of "body @ pad"]
  have sz: "sz < 2 ^ 32" using small by (simp add: max_packet_sz_def)
  have pad: "pad = []" if "ty \<noteq> 6" by (rule payload_pad [OF assms(2,3) that])
  show ?thesis
  proof (cases msg)
    case (Session_invitation sender key address port server_socket)
    have parts: "ty = 6" "length sender < 2 ^ 32" "length key < 2 ^ 32" "address \<noteq> Some 0"
      using assms(1,2) sz unfolding Session_invitation by (simp_all add: payload_def sendable_def Let_def)
    have "parse_session_invitation (body @ pad) = Wrapped (header_sz + length (body @ pad)) msg"
      using assms(2) unfolding Session_invitation by (rule invitation_parses [OF parts(2-4)])
    then show ?thesis using frame assms(3) parts(1) by simp
  next
    case (Relay_response code details)
    then have parts: "ty = 4" "sz = 8 + length details" "body = be32 code @ sized (text_bytes details)"
      using assms(2) by (simp_all add: payload_def)
    then have "parse_response body = Wrapped (header_sz + sz) msg"
      using response_parses [of details code] sz Relay_response by simp
    then show ?thesis using frame assms(3) parts(1) pad by simp
  next
    case (Join_session_request key)
    then have parts: "ty = 3" "sz = 4 + length key" "body = sized key"
      using assms(2) by (simp_all add: payload_def)
    then have "parse_join_session_request body = Wrapped (header_sz + sz) msg"
      using sized_parses(1) [of key] sz Join_session_request by simp
    then show ?thesis using frame assms(3) parts(1) pad by simp
  next
    case (Connect_request device_id)
    then have parts: "ty = 5" "sz = 4 + length device_id" "body = sized device_id"
      using assms(2) by (simp_all add: payload_def)
    then have "parse_connect_request body = Wrapped (header_sz + sz) msg"
      using sized_parses(2) [of device_id] sz Connect_request by simp
    then show ?thesis using frame assms(3) parts(1) pad by simp
  qed (use frame assms(2,3) pad in \<open>simp_all add: payload_def\<close>)
qed



text \<open>
  Bytes that arrive behind a message are not left for the next reading: a request to join a
  session takes them into its key, a response is reported with their length, and a connect
  request followed by them is refused.
\<close>

theorem relay_swallows_following_bytes:
  assumes "length key + 4 \<le> max_packet_sz" and "rest \<noteq> []"
  shows "relay_parse (relay_serialize (Join_session_request key) [] @ rest)
      = Wrapped (header_sz + 4 + length key + length rest) (Join_session_request (key @ rest))
    \<and> relay_parse (relay_serialize (Connect_request key) [] @ rest) = Protocol_error"
proof -
  have size: "unat (of_nat (length key) :: u32) = length key"
    using assms(1) by (intro unat_of_nat_u32) (simp add: max_packet_sz_def)
  have form: "relay_serialize m [] @ rest = serialize_header ty (4 + length key) @ sized key @ rest"
    if payload: "payload m = (ty, 4 + length key, sized key)" for m ty
  proof -
    obtain pad where "relay_serialize m [] = serialize_header ty (4 + length key) @ sized key @ pad"
      and "length (sized key @ pad) = 4 + length key" using relay_serialize_parts [OF payload] .
    then show ?thesis by simp
  qed
  have "relay_parse (relay_serialize (Join_session_request key) [] @ rest) = parse_join_session_request (sized key @ rest)"
    using relay_parse_frame [OF _ _ form [of "Join_session_request key" 3]] assms(1) by (simp add: payload_def)
  moreover have "relay_parse (relay_serialize (Connect_request key) [] @ rest) = parse_connect_request (sized key @ rest)"
    using relay_parse_frame [OF _ _ form [of "Connect_request key" 5]] assms(1) by (simp add: payload_def)
  ultimately show ?thesis using assms(2) size
    by (simp add: parse_join_session_request_def parse_connect_request_def sized_def add.assoc)
qed

theorem relay_swallows_following_bytes_witness:
  "relay_parse (relay_serialize (Join_session_request [1]) [] @ [5])
      = Wrapped (header_sz + 4 + length ([1] :: bytes) + length ([5] :: bytes)) (Join_session_request ([1] @ [5]))
    \<and> relay_parse (relay_serialize (Connect_request [1]) [] @ [5]) = Protocol_error"
  by (rule relay_swallows_following_bytes) (simp_all add: max_packet_sz_def)

text \<open>An interval given in seconds alone is lost: the default of one minute is taken.\<close>

lemma interval_without_minutes:
  "CHR ''m'' \<notin> set text \<Longrightarrow> parse_interval text = Some 60"
  by (simp add: parse_interval_def)

end
