(* ===== verification/Peer.thy ===== *)
theory Peer
  imports Create Bep "HOL-Library.Monad_Syntax"
begin

text \<open>
  The connection to a peer (\<^verbatim>\<open>src/net/peer_actor.cpp\<close>): the queue of outgoing buffers, the
  receiving buffer with the loop that takes messages out of it, the handshake, and the timers.
  Every handler is a function on the state of the actor; what it sends to the transport, to
  other actors and to the timers is appended to the list of effects, in order. \<open>None\<close> is a
  violated assertion, of the actor or of the resource counters it acquires and releases. A
  request for shutdown takes effect later, when the supervisor starts it.
\<close>

subsection \<open>State\<close>

datatype resource = io_read | io_write | ping_timer | stats_timer | finalization

datatype reason = Normal | Io_failure | Rx_limit_reached | Parse_failure bep_error | Unexpected_message
  | Already_connected | Unknown_or_ignored | Closed string | Controller_down

datatype effect =
    Async_send bytes
  | Async_recv nat
  | Cancel_transport
  | Do_shutdown reason
  | Model_update "cdiff list"
  | Forward "bep_message list"
  | Tx_signal
  | Peer_down
  | Start_timer resource
  | Cancel_timer resource

record tx_item =
  tx_buff :: bytes
  tx_final :: bool

datatype read_action = Read_hello | Read_controlled

text \<open>The phases of an actor that matter here, in the order of the framework.\<close>

datatype lifecycle = Operational | Shutting_down

record peer =
  pe_device_name :: string
  pe_device_id :: device_id
  pe_peer_state :: device_state
  pe_url :: uri
  pe_rx_size :: nat
  pe_rx :: bytes
  pe_tx_queue :: "tx_item list"
  pe_tx_item :: "tx_item option"
  pe_read_action :: "read_action option"
  pe_controller :: bool
  pe_rx_bytes :: nat
  pe_tx_bytes :: nat
  pe_tx_in_progress :: u32
  pe_received :: "bep_message list"
  pe_finished :: bool
  pe_io_error :: bool
  pe_had_writes :: bool
  pe_had_reads :: bool
  pe_had_ping :: bool
  pe_ping_request :: bool
  pe_stats_request :: bool
  pe_resources :: "resource \<Rightarrow> nat"
  pe_life :: lifecycle
  pe_effects :: "effect list"

definition MAX_TX_CHUNK :: nat where "MAX_TX_CHUNK = 1024 * 1024"

text \<open>What the handlers use of other components: the coder, the URL library and the clock.\<close>

record peer_env =
  pv_codec :: codec
  pv_env :: env
  pv_authority :: "uri \<Rightarrow> string"
  pv_client_version :: string

definition emit :: "effect \<Rightarrow> peer \<Rightarrow> peer" where
  "emit e p = p\<lparr>pe_effects := pe_effects p @ [e]\<rparr>"

definition acquire :: "resource \<Rightarrow> peer \<Rightarrow> peer" where
  "acquire r p = p\<lparr>pe_resources := (pe_resources p)(r := Suc (pe_resources p r))\<rparr>"

definition release :: "resource \<Rightarrow> peer \<Rightarrow> peer option" where
  "release r p = (if pe_resources p r = 0 then None
     else Some (p\<lparr>pe_resources := (pe_resources p)(r := pe_resources p r - 1)\<rparr>))"

definition has :: "resource \<Rightarrow> peer \<Rightarrow> bool" where
  "has r p \<longleftrightarrow> pe_resources p r > 0"

definition release_if_held :: "resource \<Rightarrow> peer \<Rightarrow> peer option" where
  "release_if_held r p = (if has r p then release r p else Some p)"

definition new_peer :: "string \<Rightarrow> device_id \<Rightarrow> device_state \<Rightarrow> uri \<Rightarrow> nat \<Rightarrow> peer" where
  "new_peer device_name did state url rx_size = \<lparr>pe_device_name = device_name, pe_device_id = did, pe_peer_state = state,
     pe_url = url, pe_rx_size = rx_size, pe_rx = [], pe_tx_queue = [], pe_tx_item = None, pe_read_action = None,
     pe_controller = False, pe_rx_bytes = 0, pe_tx_bytes = 0, pe_tx_in_progress = 0, pe_received = [],
     pe_finished = False, pe_io_error = False, pe_had_writes = False, pe_had_reads = False, pe_had_ping = False,
     pe_ping_request = False, pe_stats_request = False, pe_resources = (\<lambda>_. 0), pe_life = Operational,
     pe_effects = []\<rparr>"

subsection \<open>Sending\<close>

definition process_tx_queue :: "peer \<Rightarrow> peer option" where
  "process_tx_queue p =
     (if pe_finished p then Some p
      else if pe_tx_item p \<noteq> None then None
      else case pe_tx_queue p of
          [] \<Rightarrow> Some p
        | item # rest \<Rightarrow>
            let p = p\<lparr>pe_tx_item := Some item, pe_tx_queue := rest\<rparr>
            in if tx_buff item \<noteq> [] then Some (emit (Async_send (tx_buff item)) (acquire io_write p))
               else if tx_final item then Some ((emit (Do_shutdown Normal) p)\<lparr>pe_finished := True\<rparr>)
               else None)"

text \<open>Data is merged into the last buffer in the queue while that is not too large.\<close>

definition merges :: "bool \<Rightarrow> peer \<Rightarrow> bool" where
  "merges final p \<longleftrightarrow> \<not> final \<and> pe_tx_item p \<noteq> None \<and> pe_tx_queue p \<noteq> []
     \<and> length (tx_buff (last (pe_tx_queue p))) < MAX_TX_CHUNK"

definition push_write :: "bytes \<Rightarrow> bool \<Rightarrow> peer \<Rightarrow> peer option" where
  "push_write buff final p =
     (if pe_io_error p then Some p
      else if merges final p
      then let item = last (pe_tx_queue p)
           in Some (p\<lparr>pe_tx_queue := butlast (pe_tx_queue p) @ [item\<lparr>tx_buff := tx_buff item @ buff\<rparr>]\<rparr>)
      else do {
        let p = p\<lparr>pe_tx_queue := pe_tx_queue p @ [\<lparr>tx_buff = buff, tx_final = final\<rparr>]\<rparr>;
        p \<leftarrow> (if pe_tx_item p = None then process_tx_queue p else Some p);
        Some (if final then acquire finalization p else p)
      })"

definition cancel_io :: "peer \<Rightarrow> peer" where
  "cancel_io p = (if has io_read p then emit Cancel_transport p
     else if has io_write p then emit Cancel_transport p else p)"

definition report_written :: "nat \<Rightarrow> peer \<Rightarrow> peer" where
  "report_written sz p =
     (if pe_controller p
      then let reported = min (of_nat sz) (pe_tx_in_progress p)
           in if reported \<noteq> 0
              then emit Tx_signal (p\<lparr>pe_tx_in_progress := pe_tx_in_progress p - reported\<rparr>)
              else p
      else p)"

definition on_write :: "nat \<Rightarrow> peer \<Rightarrow> peer option" where
  "on_write sz p = do {
     p \<leftarrow> release io_write p;
     let p = report_written sz p;
     let p = p\<lparr>pe_tx_bytes := pe_tx_bytes p + sz, pe_had_writes := True\<rparr>;
     case pe_tx_item p of
       None \<Rightarrow> None
     | Some item \<Rightarrow>
         if tx_final item then do {
           p \<leftarrow> release_if_held finalization p;
           let p = cancel_io p;
           Some (if pe_ping_request p then emit (Cancel_timer ping_timer) p else p)
         }
         else process_tx_queue (p\<lparr>pe_tx_item := None\<rparr>)
   }"

definition on_transfer :: "bytes \<Rightarrow> peer \<Rightarrow> peer option" where
  "on_transfer data p = push_write data False p"

subsection \<open>Timers\<close>

definition reset_ping_timer :: "peer \<Rightarrow> peer option" where
  "reset_ping_timer p =
     (if pe_life p = Operational
      then if pe_ping_request p then None
           else Some (acquire ping_timer (emit (Start_timer ping_timer) (p\<lparr>pe_ping_request := True\<rparr>)))
      else Some p)"

definition reset_stats_timer :: "peer \<Rightarrow> peer option" where
  "reset_stats_timer p =
     (if pe_life p = Operational
      then if pe_stats_request p then None
           else Some (acquire stats_timer (emit (Start_timer stats_timer) (p\<lparr>pe_stats_request := True\<rparr>)))
      else Some p)"

definition on_ping_timeout :: "bool \<Rightarrow> peer \<Rightarrow> peer option" where
  "on_ping_timeout cancelled p = do {
     p \<leftarrow> release ping_timer p;
     let p = p\<lparr>pe_ping_request := False\<rparr>;
     if cancelled then Some p
     else if has finalization p then Some (cancel_io p)
     else if pe_had_writes p \<and> pe_had_reads p
     then reset_ping_timer (p\<lparr>pe_had_reads := True, pe_had_writes := True, pe_had_ping := True\<rparr>)
     else if \<not> pe_had_ping p then reset_ping_timer (p\<lparr>pe_had_ping := True\<rparr>)
     else Some (cancel_io p)
   }"

definition rx_tx_diff :: "peer \<Rightarrow> cdiff" where
  "rx_tx_diff p = leaf (rx_tx (did_sha256 (pe_device_id p)) (pe_rx_bytes p) (pe_tx_bytes p))"

definition on_stats_timeout :: "bool \<Rightarrow> peer \<Rightarrow> peer option" where
  "on_stats_timeout cancelled p = do {
     p \<leftarrow> release stats_timer p;
     let p = p\<lparr>pe_stats_request := False\<rparr>;
     if cancelled \<or> \<not> pe_controller p then Some p
     else do {
       p \<leftarrow> reset_stats_timer p;
       Some (if pe_rx_bytes p \<noteq> 0 \<or> pe_tx_bytes p \<noteq> 0
             then emit (Model_update [rx_tx_diff p]) (p\<lparr>pe_rx_bytes := 0, pe_tx_bytes := 0\<rparr>)
             else p)
     }
   }"

subsection \<open>Handling messages\<close>

text \<open>The record of a peer that is not a device of the cluster.\<close>

definition some_device_of :: "peer_env \<Rightarrow> pr_hello \<Rightarrow> peer \<Rightarrow> db_some_device" where
  "some_device_of pv msg p = \<lparr>sd_name = ph_device_name msg, sd_client_name = ph_client_name msg,
     sd_client_version = ph_client_version msg,
     sd_address = (if starts_with ''tcp'' (uri_scheme (pe_url p)) then ''tcp'' else ''relay'') @ ''://'' @ pv_authority pv (pe_url p),
     sd_last_seen = en_local_time (pv_env pv)\<rparr>"

definition send_diff :: "cdiff option \<Rightarrow> peer \<Rightarrow> bool \<times> peer" where
  "send_diff diff p = (case diff of
       None \<Rightarrow> (False, p)
     | Some d \<Rightarrow> (True, (emit (Model_update [d]) p)\<lparr>pe_read_action := Some Read_controlled\<rparr>))"

definition handle_hello :: "peer_env \<Rightarrow> cluster \<Rightarrow> pr_hello \<Rightarrow> peer \<Rightarrow> (bool \<times> peer) option" where
  "handle_hello pv cl msg p =
     (let sha = did_sha256 (pe_device_id p); db = some_device_of pv msg p
      in case devices_by_sha256 sha (cl_devices cl) of
          Some known \<Rightarrow>
            if ds_connection (dv_state known) = online
            then Some (False, emit (Do_shutdown Already_connected) p)
            else (case to_online (en_url (pv_env pv)) (uri_buffer (pe_url p)) (pe_peer_state p) of
                None \<Rightarrow> None
              | Some state \<Rightarrow>
                  map_option (\<lambda>diff. send_diff diff p)
                    (make_peer_state cl sha state (ph_client_name msg) (ph_client_version msg)))
        | None \<Rightarrow>
            let p = emit (Do_shutdown Unknown_or_ignored) p
            in if some_by_sha256 sha (cl_ignored_devices cl) \<noteq> None
               then Some (send_diff (Some (leaf (ignored_connected (pe_device_id p) db))) p)
               else let p = (if some_by_sha256 sha (cl_pending_devices cl) = None
                             then emit (Model_update [leaf (add_pending_device (pe_device_id p) db)]) p else p)
                    in Some (send_diff (Some (leaf (unknown_connected (pe_device_id p) db))) p))"

definition handle_close :: "string \<Rightarrow> peer \<Rightarrow> peer" where
  "handle_close reason p = emit (Do_shutdown (Closed (if reason = [] then ''no reason specified'' else reason))) p"

definition read_hello :: "peer_env \<Rightarrow> cluster \<Rightarrow> bep_message \<Rightarrow> peer \<Rightarrow> (bool \<times> peer) option" where
  "read_hello pv cl msg p = (case msg of
       Hello h \<Rightarrow> handle_hello pv cl h p
     | _ \<Rightarrow> Some (False, emit (Do_shutdown Unexpected_message) p))"

text \<open>
  A message for the controller joins the others of this reading, or waits while there is no
  controller. The flag tells whether the reading goes on.
\<close>

definition read_controlled :: "bep_message \<Rightarrow> bep_message list \<Rightarrow> peer \<Rightarrow> bool \<times> bep_message list \<times> peer" where
  "read_controlled msg messages p = (case msg of
       Hello _ \<Rightarrow> (False, messages, emit (Do_shutdown Unexpected_message) p)
     | Ping \<Rightarrow> (True, messages, p)
     | Close reason \<Rightarrow> (False, messages, handle_close reason p)
     | DownloadProgress _ \<Rightarrow> (True, messages, p)
     | _ \<Rightarrow> if pe_controller p then (True, messages @ [msg], p)
            else (True, messages, p\<lparr>pe_received := pe_received p @ [msg]\<rparr>))"

definition act :: "peer_env \<Rightarrow> cluster \<Rightarrow> bep_message \<Rightarrow> bep_message list \<Rightarrow> peer
    \<Rightarrow> (bool \<times> bep_message list \<times> peer) option" where
  "act pv cl msg messages p = (case pe_read_action p of
       None \<Rightarrow> None
     | Some Read_hello \<Rightarrow> map_option (\<lambda>(continue, p). (continue, messages, p)) (read_hello pv cl msg p)
     | Some Read_controlled \<Rightarrow> Some (read_controlled msg messages p))"

subsection \<open>Receiving\<close>

definition read_more :: "peer \<Rightarrow> peer option" where
  "read_more p =
     (if has io_read p then None
      else if pe_life p \<noteq> Operational then Some p
      else if length (pe_rx p) \<ge> pe_rx_size p then Some (emit (Do_shutdown Rx_limit_reached) p)
      else Some (emit (Async_recv (pe_rx_size p - length (pe_rx p))) (acquire io_read p)))"

text \<open>
  How the loop over the received bytes ends: with an assertion, with an error of the parser, or
  with the bytes that are left, the messages for the controller and whether to read on.
\<close>

datatype loop_end = Assertion | Parse_error bep_error peer | Loop_done bytes "bep_message list" bool peer

partial_function (option) read_loop ::
    "peer_env \<Rightarrow> cluster \<Rightarrow> bool \<Rightarrow> bytes \<Rightarrow> bep_message list \<Rightarrow> peer \<Rightarrow> loop_end option" where
  "read_loop pv cl read_next buff messages p =
     (if buff = [] then Some (Loop_done buff messages read_next p)
      else case parse_bep (pv_codec pv) buff of
          Inl e \<Rightarrow> Some (Parse_error e p)
        | Inr (msg, consumed) \<Rightarrow>
            if consumed = 0 then Some (Loop_done buff messages read_next p)
            else (case act pv cl msg messages p of
                None \<Rightarrow> Some Assertion
              | Some (continue, messages, p) \<Rightarrow>
                  if continue then read_loop pv cl continue (drop consumed buff) messages p
                  else Some (Loop_done (drop consumed buff) messages continue p)))"

text \<open>The outer \<open>None\<close> would be a loop that does not end, the inner one is an assertion.\<close>

definition on_read :: "peer_env \<Rightarrow> cluster \<Rightarrow> bytes \<Rightarrow> peer \<Rightarrow> peer option option" where
  "on_read pv cl bytes p =
     (if pe_read_action p = None then Some None
      else case release io_read p of
          None \<Rightarrow> Some None
        | Some p \<Rightarrow>
            let p = p\<lparr>pe_rx := pe_rx p @ bytes, pe_rx_bytes := pe_rx_bytes p + length bytes\<rparr>
            in map_option (\<lambda>r. case r of
                  Assertion \<Rightarrow> None
                | Parse_error e p \<Rightarrow> Some (emit (Do_shutdown (Parse_failure e)) p)
                | Loop_done rest messages read_next p \<Rightarrow> do {
                    let p = p\<lparr>pe_rx := rest\<rparr>;
                    p \<leftarrow> (if read_next \<and> \<not> has finalization p then read_more p else Some p);
                    let p = p\<lparr>pe_had_reads := True\<rparr>;
                    Some (if messages \<noteq> [] \<and> pe_controller p then emit (Forward messages) p else p)
                  }) (read_loop pv cl True (pe_rx p) [] p))"

subsection \<open>Starting and stopping\<close>

definition on_start :: "peer_env \<Rightarrow> peer \<Rightarrow> peer option" where
  "on_start pv p = do {
     p \<leftarrow> push_write (make_hello_message (pv_codec pv) (pv_client_version pv) (pe_device_name p)) False p;
     p \<leftarrow> read_more p;
     p \<leftarrow> reset_ping_timer p;
     p \<leftarrow> reset_stats_timer p;
     Some (p\<lparr>pe_read_action := Some Read_hello\<rparr>)
   }"

text \<open>The flag tells whether the operation was cancelled, which only the log distinguishes.\<close>

definition on_io_error :: "resource \<Rightarrow> peer \<Rightarrow> peer option" where
  "on_io_error r p = do {
     p \<leftarrow> release r p;
     p \<leftarrow> release_if_held finalization p;
     let p = p\<lparr>pe_io_error := True\<rparr>;
     Some (if pe_life p = Operational then emit (Do_shutdown Io_failure) p else p)
   }"

definition on_controller_up :: "bool \<Rightarrow> u32 \<Rightarrow> peer \<Rightarrow> peer" where
  "on_controller_up for_me tx_size p =
     (if for_me
      then let p = p\<lparr>pe_controller := True, pe_tx_in_progress := tx_size\<rparr>
           in if pe_received p \<noteq> [] then (emit (Forward (pe_received p)) p)\<lparr>pe_received := []\<rparr> else p
      else p)"

definition on_controller_predown :: "bool \<Rightarrow> bool \<Rightarrow> peer \<Rightarrow> peer" where
  "on_controller_predown for_me has_reason p =
     (if for_me \<and> \<not> has_reason then emit (Do_shutdown Controller_down) p else p)"

definition shutdown_start :: "peer_env \<Rightarrow> string \<Rightarrow> peer \<Rightarrow> peer option" where
  "shutdown_start pv reason p = do {
     let p = (if pe_controller p then emit Peer_down p else p);
     let p = acquire finalization p;
     let p = (if pe_ping_request p
              then let p = emit (Cancel_timer ping_timer) p
                   in if pe_finished p then p else acquire ping_timer (emit (Start_timer ping_timer) p)
              else p);
     buff \<leftarrow> serialize (pv_codec pv) (Close reason) NEVER;
     p \<leftarrow> push_write buff True (p\<lparr>pe_tx_queue := []\<rparr>);
     p \<leftarrow> release finalization p;
     Some (p\<lparr>pe_life := Shutting_down\<rparr>)
   }"

text \<open>The change of state and the statistics are chained when both are due.\<close>

definition shutdown_finish :: "cluster \<Rightarrow> peer \<Rightarrow> peer option" where
  "shutdown_finish cl p =
     (let p = (if pe_controller p then emit Peer_down p else p)
      in map_option (\<lambda>diff.
           let stats = (if pe_rx_bytes p \<noteq> 0 \<or> pe_tx_bytes p \<noteq> 0 then [rx_tx_diff p] else []);
               diffs = (case diff of None \<Rightarrow> [] | Some d \<Rightarrow> [d]) @ stats
           in if diffs \<noteq> [] then emit (Model_update diffs) p else p)
         (make_peer_state cl (did_sha256 (pe_device_id p)) (to_offline (pe_peer_state p)) [] []))"

subsection \<open>The receiving loop\<close>

lemma parse_hello_consumed: "parse_hello c buff = Inr (m, n) \<Longrightarrow> n \<le> length buff + 4"
  by (auto simp: parse_hello_def need_more_def Let_def read_be16_def split: option.splits if_splits)

lemma parse_msg_consumed: "parse_msg c ty body n = Inr (m, k) \<Longrightarrow> k = n + length body"
  by (auto simp: parse_msg_def split: option.splits if_splits)

lemma parse_compressed_consumed: "parse_compressed c ty body n = Inr (m, k) \<Longrightarrow> k = n + length body"
  by (auto simp: parse_compressed_def split: option.splits sum.splits)

text \<open>No message is reported longer than the bytes it was found in.\<close>

lemma parse_bep_consumed: "parse_bep c buff = Inr (m, n) \<Longrightarrow> n \<le> length buff"
  by (auto simp: parse_bep_def need_more_def Let_def read_be32_def
      dest!: parse_hello_consumed parse_msg_consumed parse_compressed_consumed
      split: option.splits if_splits prod.splits)

lemma read_loop_returns:
  "\<exists>r. read_loop pv cl go buff messages p = Some r"
proof (induction buff arbitrary: go messages p rule: length_induct)
  case (1 buff)
  show ?case
    by (subst read_loop.simps) (use 1 in \<open>auto split: sum.split option.split\<close>)
qed

text \<open>
  Reading from the connection always comes to an end: whatever bytes have arrived and
  whatever the coder makes of them, the loop over the buffer returns.
\<close>

theorem on_read_terminates: "\<exists>r. on_read pv cl bytes p = Some r"
proof (cases "release io_read p")
  case None
  then show ?thesis by (simp add: on_read_def)
next
  case (Some q)
  obtain r where "read_loop pv cl True (pe_rx q @ bytes) [] (q\<lparr>pe_rx := pe_rx q @ bytes,
      pe_rx_bytes := pe_rx_bytes q + length bytes\<rparr>) = Some r"
    using read_loop_returns by blast
  then show ?thesis using Some by (simp add: on_read_def Let_def)
qed

text \<open>
  The parser never reports to have consumed more than it was given, so that the bytes left
  after a reading, and the position the next one is stored at, stay within the buffer.
\<close>

theorem consumed_within_buffer:
  "parse_bep c buff = Inr (m, n) \<Longrightarrow> n \<le> length buff"
  by (rule parse_bep_consumed)

theorem consumed_within_buffer_witness:
  "11 \<le> length ([0, 2, 8, 7, 0, 0, 0, 3, 98, 121, 101, 0] :: bytes)"
proof -
  have "parse_bep sample_codec ([0, 2, 8, 7, 0, 0, 0, 3, 98, 121, 101] @ [0])
      = Inr (Close ''bye'', length ([0, 2, 8, 7, 0, 0, 0, 3, 98, 121, 101] :: bytes))"
    by (rule parse_frame [OF sample_close_faithful sample_frame]) simp_all
  then show ?thesis using consumed_within_buffer [of sample_codec "[0, 2, 8, 7, 0, 0, 0, 3, 98, 121, 101, 0]"] by simp
qed

text \<open>The messages that go to the controller.\<close>

definition forwarded :: "bep_message \<Rightarrow> bool" where
  "forwarded m \<longleftrightarrow> (case m of ClusterConfig _ \<Rightarrow> True | Index _ \<Rightarrow> True | IndexUpdate _ \<Rightarrow> True
     | Request _ \<Rightarrow> True | Response _ \<Rightarrow> True | _ \<Rightarrow> False)"

lemma read_controlled_forwarded:
  "forwarded m \<Longrightarrow> pe_controller p \<Longrightarrow> read_controlled m messages p = (True, messages @ [m], p)"
  by (cases m) (simp_all add: forwarded_def read_controlled_def)

text \<open>Frames that lie one behind the other are taken out one by one.\<close>

lemma read_loop_frames:
  assumes "pe_read_action p = Some Read_controlled" and "pe_controller p"
    and "\<forall>m \<in> set ms. faithful (pv_codec pv) m \<and> forwarded m"
    and "list_all2 (\<lambda>m frame. \<exists>compression. serialize (pv_codec pv) m compression = Some frame) ms frames"
    and "length (concat frames) < 2 ^ 31"
  shows "read_loop pv cl True (concat frames) messages p = Some (Loop_done [] (messages @ ms) True p)"
  using assms(3-)
proof (induction ms arbitrary: frames messages)
  case Nil
  then show ?case by (subst read_loop.simps) simp
next
  case (Cons m ms)
  then obtain frame rest compression where frames: "frames = frame # rest"
    and frame: "serialize (pv_codec pv) m compression = Some frame"
    and rest: "list_all2 (\<lambda>m frame. \<exists>compression. serialize (pv_codec pv) m compression = Some frame) ms rest"
    by (auto simp: list_all2_Cons1)
  have faithful: "faithful (pv_codec pv) m" and "forwarded m" using Cons.prems(1) by simp_all
  have "parse_bep (pv_codec pv) (frame @ concat rest) = Inr (m, length frame)"
    using Cons.prems(3) by (intro parse_frame [OF faithful frame]) (simp add: frames)
  moreover have "frame \<noteq> []" using frame by (auto simp: serialize_def Let_def be16_def split: option.splits if_splits)
  moreover have "act pv cl m messages p = Some (True, messages @ [m], p)"
    using assms(1,2) \<open>forwarded m\<close> by (simp add: act_def read_controlled_forwarded)
  ultimately have "read_loop pv cl True (concat frames) messages p
      = read_loop pv cl True (concat rest) (messages @ [m]) p"
    by (subst read_loop.simps) (simp add: frames)
  also have "\<dots> = Some (Loop_done [] ((messages @ [m]) @ ms) True p)"
    using Cons.prems by (intro Cons.IH rest) (simp_all add: frames)
  finally show ?case by simp
qed


definition sample_peer :: peer where
  "sample_peer = (new_peer ''me'' \<lparr>did_value = ''P'', did_sha256 = [1]\<rparr>
       \<lparr>ds_token = 1, ds_connection = connected, ds_online_url = None\<rparr>
       \<lparr>uri_buffer = ''tcp://a:1'', uri_scheme = ''tcp'', uri_port = Some 1\<rparr> 65536)
     \<lparr>pe_read_action := Some Read_controlled, pe_controller := True, pe_resources := (\<lambda>r. if r = io_read then 1 else 0)\<rparr>"

definition sample_env :: env where
  "sample_env = \<lparr>en_pick = hd, en_url = \<lparr>ul_parse_uri = (\<lambda>_. None), ul_set_port_number = (\<lambda>_ u. u)\<rparr>,
     en_local_time = 0, en_decode_device = (\<lambda>_. None), en_decode_folder = (\<lambda>_. None),
     en_decode_some_device = (\<lambda>_. None), en_decode_ignored_folder = (\<lambda>_. None)\<rparr>"

definition sample_peer_env :: peer_env where
  "sample_peer_env = \<lparr>pv_codec = sample_codec, pv_env = sample_env, pv_authority = (\<lambda>_. ''a:1''), pv_client_version = ''1''\<rparr>"

lemma sample_frames:
  "serialize sample_codec (ClusterConfig []) NEVER = Some [0, 0, 0, 0, 0, 0]"
  "serialize sample_codec (Response \<lparr>ps_id = 1, ps_data = [9], ps_code = NO_BEP_ERROR\<rparr>) NEVER
     = Some [0, 2, 8, 4, 0, 0, 0, 1, 9]"
  by code_simp+


subsection \<open>The stream of outgoing bytes\<close>

text \<open>
  Two kinds of events concern the queue: data to be sent arrives, and the transport reports that
  a buffer was written.
\<close>

datatype tx_event = Transfer bytes | Written nat

fun tx_step :: "tx_event \<Rightarrow> peer \<Rightarrow> peer option" where
  "tx_step (Transfer data) p = on_transfer data p"
| "tx_step (Written sz) p = on_write sz p"

fun tx_run :: "tx_event list \<Rightarrow> peer \<Rightarrow> peer option" where
  "tx_run [] p = Some p"
| "tx_run (e # es) p = do { q \<leftarrow> tx_step e p; tx_run es q }"

fun transferred :: "tx_event list \<Rightarrow> bytes" where
  "transferred [] = []"
| "transferred (Transfer data # es) = data @ transferred es"
| "transferred (Written sz # es) = transferred es"

fun sent_by :: "effect \<Rightarrow> bytes" where
  "sent_by (Async_send buff) = buff"
| "sent_by _ = []"

text \<open>What was handed to the transport, and what waits behind it.\<close>

definition sent :: "peer \<Rightarrow> bytes" where
  "sent p = concat (map sent_by (pe_effects p))"

definition waiting :: "peer \<Rightarrow> bytes" where
  "waiting p = concat (map tx_buff (pe_tx_queue p))"

text \<open>The queue in the time of regular operation: nothing waits unless a buffer is being written.\<close>

definition tx_ok :: "peer \<Rightarrow> bool" where
  "tx_ok p \<longleftrightarrow> \<not> pe_finished p \<and> \<not> pe_io_error p
     \<and> (pe_tx_item p = None \<longrightarrow> pe_tx_queue p = [])
     \<and> (\<forall>item \<in> set (pe_tx_queue p) \<union> set_option (pe_tx_item p). tx_buff item \<noteq> [] \<and> \<not> tx_final item)
     \<and> pe_resources p io_write = (if pe_tx_item p = None then 0 else 1)"

lemma sent_emit [simp]: "sent (emit e p) = sent p @ sent_by e"
  by (simp add: sent_def emit_def)

lemma sent_update [simp]:
  "sent (p\<lparr>pe_tx_queue := q\<rparr>) = sent p" "sent (p\<lparr>pe_tx_item := i\<rparr>) = sent p" "sent (acquire r p) = sent p"
  "sent (p\<lparr>pe_tx_bytes := n, pe_had_writes := b\<rparr>) = sent p" "sent (p\<lparr>pe_tx_in_progress := w\<rparr>) = sent p"
  "sent (p\<lparr>pe_resources := rs\<rparr>) = sent p"
  by (simp_all add: sent_def acquire_def)

text \<open>Taking the first buffer of the queue into writing.\<close>

lemma process_tx_queue_sends:
  assumes "\<not> pe_finished p" and "pe_tx_item p = None" and "\<not> pe_io_error p" and "pe_resources p io_write = 0"
    and "\<forall>item \<in> set (pe_tx_queue p). tx_buff item \<noteq> [] \<and> \<not> tx_final item"
  shows "\<exists>q. process_tx_queue p = Some q \<and> tx_ok q \<and> sent q @ waiting q = sent p @ waiting p"
  using assms
  by (cases "pe_tx_queue p")
    (auto simp: process_tx_queue_def tx_ok_def waiting_def emit_def acquire_def sent_def Let_def)

lemma on_transfer_appends:
  assumes "tx_ok p" and "data \<noteq> []"
  shows "\<exists>q. on_transfer data p = Some q \<and> tx_ok q \<and> sent q @ waiting q = sent p @ waiting p @ data"
proof (cases "merges False p")
  case True
  let ?last = "last (pe_tx_queue p)"
  have queue: "pe_tx_queue p = butlast (pe_tx_queue p) @ [?last]" using True by (simp add: merges_def)
  have waiting: "waiting p = concat (map tx_buff (butlast (pe_tx_queue p))) @ tx_buff ?last"
    unfolding waiting_def by (subst queue) simp
  have items: "tx_buff item \<noteq> [] \<and> \<not> tx_final item"
    if "item \<in> set (butlast (pe_tx_queue p)) \<or> item = ?last" for item
    using assms(1) that True in_set_butlastD [of item "pe_tx_queue p"]
    by (auto simp: tx_ok_def merges_def)
  show ?thesis using True assms items
    by (simp add: on_transfer_def push_write_def Let_def waiting tx_ok_def) (auto simp: waiting_def merges_def)
next
  case False
  let ?p = "p\<lparr>pe_tx_queue := pe_tx_queue p @ [\<lparr>tx_buff = data, tx_final = False\<rparr>]\<rparr>"
  have waiting: "waiting ?p = waiting p @ data" by (simp add: waiting_def)
  show ?thesis
  proof (cases "pe_tx_item p")
    case None
    then have "\<exists>q. process_tx_queue ?p = Some q \<and> tx_ok q \<and> sent q @ waiting q = sent ?p @ waiting ?p"
      using assms by (intro process_tx_queue_sends) (auto simp: tx_ok_def)
    then show ?thesis using None False assms(1) waiting
      by (auto simp: on_transfer_def push_write_def Let_def tx_ok_def)
  next
    case (Some item)
    then show ?thesis using False assms waiting
      by (auto simp: on_transfer_def push_write_def Let_def tx_ok_def)
  qed
qed

lemma report_written_fields [simp]:
  "pe_tx_item (report_written sz p) = pe_tx_item p" "pe_tx_queue (report_written sz p) = pe_tx_queue p"
  "pe_finished (report_written sz p) = pe_finished p" "pe_io_error (report_written sz p) = pe_io_error p"
  "pe_resources (report_written sz p) = pe_resources p" "sent (report_written sz p) = sent p"
  by (simp_all add: report_written_def Let_def emit_def sent_def)

lemma on_write_keeps:
  assumes "tx_ok p" and "pe_tx_item p \<noteq> None"
  shows "\<exists>q. on_write sz p = Some q \<and> tx_ok q \<and> sent q @ waiting q = sent p @ waiting p"
proof -
  obtain item where item: "pe_tx_item p = Some item" using assms(2) by blast
  define r where "r = p\<lparr>pe_resources := (pe_resources p)(io_write := 0)\<rparr>"
  define s where "s = (report_written sz r)\<lparr>pe_tx_bytes := pe_tx_bytes (report_written sz r) + sz,
    pe_had_writes := True, pe_tx_item := None\<rparr>"
  have "release io_write p = Some r" using assms item by (simp add: release_def tx_ok_def r_def)
  moreover have "\<not> tx_final item" using assms(1) item by (simp add: tx_ok_def)
  ultimately have "on_write sz p = process_tx_queue s"
    using item by (simp add: on_write_def Let_def s_def r_def)
  moreover have "sent s = sent p" "waiting s = waiting p"
    by (simp_all add: s_def r_def sent_def waiting_def report_written_def Let_def emit_def)
  moreover have "\<exists>q. process_tx_queue s = Some q \<and> tx_ok q \<and> sent q @ waiting q = sent s @ waiting s"
    using assms(1) by (intro process_tx_queue_sends) (auto simp: s_def r_def tx_ok_def)
  ultimately show ?thesis by simp
qed

lemma tx_run_stream:
  assumes "tx_ok p" and "tx_run es p = Some q" and "Transfer [] \<notin> set es"
  shows "tx_ok q \<and> sent q @ waiting q = sent p @ waiting p @ transferred es"
  using assms
proof (induction es arbitrary: p)
  case Nil
  then show ?case by simp
next
  case (Cons e es)
  then obtain r where step: "tx_step e p = Some r" and run: "tx_run es r = Some q"
    by (auto split: Option.bind_splits)
  show ?case
  proof (cases e)
    case (Transfer data)
    then have "tx_ok r" "sent r @ waiting r = sent p @ waiting p @ data"
      using on_transfer_appends [OF Cons.prems(1), of data] step Cons.prems(3) by auto
    then show ?thesis using Cons.IH [OF _ run] Cons.prems(3) Transfer by simp
  next
    case (Written sz)
    have "pe_tx_item p \<noteq> None"
    proof
      assume "pe_tx_item p = None"
      then have "on_write sz p = None" using Cons.prems(1) by (simp add: on_write_def release_def tx_ok_def)
      then show False using step Written by simp
    qed
    then have "tx_ok r" "sent r @ waiting r = sent p @ waiting p"
      using on_write_keeps [OF Cons.prems(1), of sz] step Written by auto
    then show ?thesis using Cons.IH [OF _ run] Cons.prems(3) Written by simp
  qed
qed

text \<open>
  C19: in regular operation the queue is a byte stream. After any sequence of transfers and
  completed writes, what was handed to the transport followed by what still waits is what was
  before, followed by the transferred data in the order of the transfers, however the buffers
  were merged; at most one write is under way, and nothing waits when none is.
\<close>

theorem transfers_in_order:
  assumes "tx_ok p" and "tx_run es p = Some q" and "Transfer [] \<notin> set es"
  shows "sent q @ waiting q = sent p @ waiting p @ transferred es \<and> pe_resources q io_write \<le> 1
    \<and> (pe_tx_item q = None \<longrightarrow> waiting q = [])"
  using tx_run_stream [OF assms] by (auto simp: tx_ok_def waiting_def)

lemmas tx_evaluation = tx_run.simps tx_step.simps on_transfer_def push_write_def merges_def process_tx_queue_def
  on_write_def release_def report_written_def emit_def acquire_def has_def sample_peer_def new_peer_def MAX_TX_CHUNK_def Let_def

theorem transfers_in_order_witness:
  "\<exists>q. tx_run [Transfer [1], Transfer [2], Transfer [3], Written 1] sample_peer = Some q
    \<and> sent q @ waiting q = sent sample_peer @ waiting sample_peer @ [1, 2, 3] \<and> pe_resources q io_write \<le> 1
    \<and> (pe_tx_item q = None \<longrightarrow> waiting q = [])"
proof -
  obtain q where run: "tx_run [Transfer [1], Transfer [2], Transfer [3], Written 1] sample_peer = Some q"
    by (simp add: tx_evaluation)
  moreover have "tx_ok sample_peer" by (simp add: tx_ok_def sample_peer_def new_peer_def)
  ultimately show ?thesis using transfers_in_order [OF _ run] by simp
qed

subsection \<open>Idle connections\<close>

fun ping_timeouts :: "nat \<Rightarrow> peer \<Rightarrow> peer option" where
  "ping_timeouts 0 p = Some p"
| "ping_timeouts (Suc n) p = do { q \<leftarrow> on_ping_timeout False p; ping_timeouts n q }"

text \<open>
  The timer that is to end an idle connection does so only when nothing was ever read or
  written: once both happened, any number of timeouts passes without the transport being
  cancelled, since the flags are set again instead of being cleared.
\<close>

theorem idle_connection_kept:
  assumes "pe_had_reads p" and "pe_had_writes p" and "pe_life p = Operational"
    and "\<not> has finalization p" and "pe_resources p ping_timer = 1"
  shows "\<exists>q. ping_timeouts n p = Some q \<and> pe_effects q = pe_effects p @ replicate n (Start_timer ping_timer)"
  using assms
proof (induction n arbitrary: p)
  case 0
  then show ?case by simp
next
  case (Suc n)
  let ?q = "p\<lparr>pe_ping_request := True, pe_had_reads := True, pe_had_writes := True, pe_had_ping := True,
    pe_resources := (pe_resources p)(ping_timer := Suc 0), pe_effects := pe_effects p @ [Start_timer ping_timer]\<rparr>"
  have "on_ping_timeout False p = Some ?q"
    using Suc.prems by (simp add: on_ping_timeout_def release_def has_def reset_ping_timer_def acquire_def emit_def Let_def)
  moreover have "\<exists>q. ping_timeouts n ?q = Some q \<and> pe_effects q = pe_effects ?q @ replicate n (Start_timer ping_timer)"
    by (rule Suc.IH) (use Suc.prems in \<open>simp_all add: has_def\<close>)
  ultimately show ?case by (auto simp: replicate_append_same)
qed

theorem idle_connection_kept_witness:
  "\<exists>q. ping_timeouts 1000 (sample_peer\<lparr>pe_had_reads := True, pe_had_writes := True, pe_resources := (\<lambda>r. if r = ping_timer then 1 else 0)\<rparr>) = Some q
    \<and> pe_effects q = pe_effects (sample_peer\<lparr>pe_had_reads := True, pe_had_writes := True, pe_resources := (\<lambda>r. if r = ping_timer then 1 else 0)\<rparr>)
        @ replicate 1000 (Start_timer ping_timer)"
  by (rule idle_connection_kept) (simp_all add: sample_peer_def new_peer_def has_def)

end
