(* ===== verification/Pull.thy ===== *)
theory Pull
  imports Folder
begin

text \<open>
  What is fetched of a file: the iterator over the blocks that are missing
  (\<^verbatim>\<open>src/model/misc/block_iterator.cpp\<close>) and the files that wait for blocks another file is
  already fetching (\<^verbatim>\<open>src/model/misc/postponed_files.cpp\<close>).
\<close>

subsection \<open>The iterator over missing blocks\<close>

text \<open>
  The position is a 32-bit integer whose greatest value says that there is nothing more. The
  sequence number is left unset for a file without blocks.
\<close>

definition wrong_index :: nat where "wrong_index = 2 ^ 32 - 1"

record blocks_iterator =
  it_source :: addr
  it_sequence :: "int option"
  it_i :: nat

definition here :: "raw_block \<Rightarrow> bool" where
  "here raw = (case raw of Some (_, b) \<Rightarrow> b | None \<Rightarrow> False)"

text \<open>The loop of \<open>advance\<close>: locally available blocks are passed over.\<close>

fun skip_local :: "raw_block list \<Rightarrow> nat \<Rightarrow> nat" where
  "skip_local [] i = i"
| "skip_local (raw # raws) i = (if here raw then skip_local raws (Suc i) else i)"

definition prepare :: "store \<Rightarrow> blocks_iterator \<Rightarrow> blocks_iterator" where
  "prepare st it =
     (if it_i it \<noteq> wrong_index
         \<and> (is_unreachable (file_at st (it_source it)) \<or> it_i it \<ge> length (fi_blocks (file_at st (it_source it))))
      then it\<lparr>it_i := wrong_index\<rparr> else it)"

definition it_advance :: "store \<Rightarrow> blocks_iterator \<Rightarrow> blocks_iterator" where
  "it_advance st it =
     prepare st (it\<lparr>it_i := skip_local (drop (it_i it) (fi_blocks (file_at st (it_source it)))) (it_i it)\<rparr>)"

definition make_blocks_iterator :: "store \<Rightarrow> addr \<Rightarrow> blocks_iterator" where
  "make_blocks_iterator st source =
     (let it = \<lparr>it_source = source, it_sequence = None, it_i = 0\<rparr>
      in if fi_blocks (file_at st source) = [] then it\<lparr>it_i := wrong_index\<rparr>
         else it_advance st (it\<lparr>it_sequence := Some (seq_at st source)\<rparr>))"

definition it_valid :: "store \<Rightarrow> blocks_iterator \<Rightarrow> bool" where
  "it_valid st it \<longleftrightarrow> it_i it \<noteq> wrong_index \<and> it_sequence it = Some (seq_at st (it_source it))"

text \<open>\<open>next\<close>: the block under the position; \<open>None\<close> where there is none to refer to.\<close>

definition it_next :: "store \<Rightarrow> blocks_iterator \<Rightarrow> (file_block \<times> blocks_iterator) option" where
  "it_next st it =
     (let idx = it_i it; sb = fi_blocks (file_at st (it_source it));
          it = it_advance st (it\<lparr>it_i := Suc idx\<rparr>)
      in if length sb \<le> idx then None
         else (case sb ! idx of
             None \<Rightarrow> None
           | Some (block, _) \<Rightarrow> (case st_blocks st block of
                 None \<Rightarrow> None
               | Some b \<Rightarrow> Some (make_file_block block b (it_source it) idx, it))))"

text \<open>
  How the controller uses it: \<open>next\<close> as long as the iterator is valid. A file has finitely many
  blocks; \<open>it_rest\<close> bounds the calls.
\<close>

definition it_rest :: "store \<Rightarrow> blocks_iterator \<Rightarrow> nat" where
  "it_rest st it = length (fi_blocks (file_at st (it_source it))) - it_i it"

lemma skip_local_stops:
  "skip_local raws i = i + length (takeWhile here raws)"
  by (induction raws i rule: skip_local.induct) auto

lemma skip_local_ge: "i \<le> skip_local raws i"
  by (simp add: skip_local_stops)

lemma it_advance_fields [simp]:
  "it_source (it_advance st it) = it_source it" "it_sequence (it_advance st it) = it_sequence it"
  by (simp_all add: it_advance_def prepare_def)

function fetch_all :: "store \<Rightarrow> blocks_iterator \<Rightarrow> file_block list option" where
  "fetch_all st it =
     (if \<not> it_valid st it then Some []
      else case it_next st it of
          None \<Rightarrow> None
        | Some (fb, it') \<Rightarrow> map_option ((#) fb) (fetch_all st it'))"
  by pat_completeness auto
termination
proof (relation "measure (\<lambda>(st, it). if it_valid st it then Suc (it_rest st it) else 0)")
  show "wf (measure (\<lambda>(st, it). if it_valid st it then Suc (it_rest st it) else 0))" by simp
  fix st it x fb it'
  assume valid: "\<not> \<not> it_valid st it" and "it_next st it = Some x" "(fb, it') = x"
  then have it': "it' = it_advance st (it\<lparr>it_i := Suc (it_i it)\<rparr>)"
    and idx: "it_i it < length (fi_blocks (file_at st (it_source it)))"
    by (auto simp: it_next_def Let_def split: if_splits option.splits)
  have "it_i it < it_i it'" if "it_i it' \<noteq> wrong_index"
    using that skip_local_ge [of "Suc (it_i it)"] by (auto simp: it' it_advance_def prepare_def Suc_le_eq split: if_splits)
  then show "((st, it'), st, it) \<in> measure (\<lambda>(st, it). if it_valid st it then Suc (it_rest st it) else 0)"
    using idx valid by (auto simp: it_rest_def it' it_valid_def)
qed

declare fetch_all.simps [simp del]


text \<open>A file whose blocks are all known and that can be fetched.\<close>

definition fetchable :: "store \<Rightarrow> addr \<Rightarrow> bool" where
  "fetchable st f \<longleftrightarrow> \<not> is_unreachable (file_at st f) \<and> length (fi_blocks (file_at st f)) < wrong_index
     \<and> (\<forall>raw \<in> set (fi_blocks (file_at st f)). case raw of Some (a, _) \<Rightarrow> st_blocks st a \<noteq> None | None \<Rightarrow> False)"

definition missing :: "store \<Rightarrow> addr \<Rightarrow> nat \<Rightarrow> bool" where
  "missing st f i \<longleftrightarrow> \<not> here (fi_blocks (file_at st f) ! i)"

definition place :: "store \<Rightarrow> addr \<Rightarrow> nat \<Rightarrow> file_block" where
  "place st f i = (case fi_blocks (file_at st f) ! i of
     Some (a, _) \<Rightarrow> make_file_block a (the (st_blocks st a)) f i)"

lemma filter_upt_first:
  assumes "i \<le> j" "j \<le> n" "\<And>k. i \<le> k \<Longrightarrow> k < j \<Longrightarrow> \<not> P k" "j < n \<Longrightarrow> P j"
  shows "filter P [i..<n] = (if j < n then j # filter P [Suc j..<n] else [])"
proof -
  have "[i..<n] = [i..<j] @ [j..<n]" using assms(1,2) upt_add_eq_append [of i j "n - j"] by simp
  moreover have "filter P [i..<j] = []" using assms(3) by (auto simp: filter_empty_conv)
  ultimately show ?thesis using assms(4) by (auto simp: upt_conv_Cons)
qed

lemma fetch_from:
  assumes ok: "fetchable st f"
  shows "i \<le> length (fi_blocks (file_at st f)) \<Longrightarrow>
    fetch_all st (it_advance st \<lparr>it_source = f, it_sequence = Some (seq_at st f), it_i = i\<rparr>)
      = Some (map (place st f) (filter (missing st f) [i..<length (fi_blocks (file_at st f))]))"
proof (induction "length (fi_blocks (file_at st f)) - i" arbitrary: i rule: less_induct)
  case less
  let ?sb = "fi_blocks (file_at st f)"
  define j where "j = i + length (takeWhile here (drop i ?sb))"
  have j_le: "j \<le> length ?sb" using less.prems length_takeWhile_le [of here "drop i ?sb"] by (simp add: j_def)
  have skip: "skip_local (drop i ?sb) i = j" by (simp add: skip_local_stops j_def)
  have before: "\<not> missing st f k" if "i \<le> k" "k < j" for k
  proof -
    have "here (takeWhile here (drop i ?sb) ! (k - i))"
      using that set_takeWhileD [OF nth_mem, of "k - i" here "drop i ?sb"] by (simp add: j_def)
    moreover have "takeWhile here (drop i ?sb) ! (k - i) = ?sb ! k"
      using that less.prems takeWhile_nth [of "k - i" here "drop i ?sb"] by (simp add: j_def)
    ultimately show ?thesis by (simp add: missing_def)
  qed
  have at: "missing st f j" if "j < length ?sb"
    using that nth_length_takeWhile [of here "drop i ?sb"] less.prems
    by (simp add: j_def missing_def less_diff_conv add.commute)
  note split = filter_upt_first [of i j "length ?sb" "missing st f", OF _ j_le before at]
  have small: "length ?sb < wrong_index" "\<not> is_unreachable (file_at st f)" using ok by (auto simp: fetchable_def)
  show ?case
  proof (cases "j < length ?sb")
    case False
    then have "it_i (it_advance st \<lparr>it_source = f, it_sequence = Some (seq_at st f), it_i = i\<rparr>) = wrong_index"
      using small j_le by (simp add: it_advance_def skip prepare_def)
    then show ?thesis using False split by (subst fetch_all.simps) (simp add: it_valid_def j_def)
  next
    case True
    let ?it = "\<lparr>it_source = f, it_sequence = Some (seq_at st f), it_i = j\<rparr>"
    have it: "it_advance st \<lparr>it_source = f, it_sequence = Some (seq_at st f), it_i = i\<rparr> = ?it"
      using True small by (simp add: it_advance_def skip prepare_def)
    have valid: "it_valid st ?it" using True small by (simp add: it_valid_def)
    have "case ?sb ! j of Some (a, _) \<Rightarrow> st_blocks st a \<noteq> None | None \<Rightarrow> False"
      using ok nth_mem [OF True] unfolding fetchable_def by blast
    then obtain a b where slot: "?sb ! j = Some (a, b)" and "st_blocks st a \<noteq> None"
      by (cases "?sb ! j") auto
    then have "it_next st ?it = Some (place st f j, it_advance st (?it\<lparr>it_i := Suc j\<rparr>))"
      using True by (auto simp: it_next_def Let_def place_def)
    moreover have "fetch_all st (it_advance st (?it\<lparr>it_i := Suc j\<rparr>))
        = Some (map (place st f) (filter (missing st f) [Suc j..<length ?sb]))"
      using less.hyps [of "Suc j"] True by (simp add: j_def)
    ultimately show ?thesis using True split valid
      by (subst fetch_all.simps) (simp add: it j_def)
  qed
qed

text \<open>
  C23: the iterator over a file's blocks gives every block that is not here yet exactly once, in the
  order of the file, and then ends; blocks that are here already are passed over.
\<close>

theorem block_iterator_complete:
  assumes "fetchable st f"
  shows "fetch_all st (make_blocks_iterator st f)
    = Some (map (place st f) (filter (missing st f) [0..<length (fi_blocks (file_at st f))]))"
proof (cases "fi_blocks (file_at st f) = []")
  case True
  then show ?thesis by (subst fetch_all.simps) (simp add: make_blocks_iterator_def it_valid_def)
next
  case False
  then show ?thesis using fetch_from [OF assms, of 0] by (simp add: make_blocks_iterator_def Let_def)
qed


subsection \<open>Postponed files\<close>

text \<open>
  Pairs of a block that is being fetched for another file and a file that needs it, in the order of
  their insertion, and the files that can be taken up again. Which of these is taken first is the
  choice of the hash set.
\<close>

record postponed_files =
  po_pairs :: "(addr \<times> addr) list"
  po_ready :: "addr list"

definition no_postponed :: postponed_files where
  "no_postponed = \<lparr>po_pairs = [], po_ready = []\<rparr>"

definition postpone :: "addr \<Rightarrow> addr \<Rightarrow> postponed_files \<Rightarrow> postponed_files" where
  "postpone block file po =
     (if (block, file) \<in> set (po_pairs po) then po else po\<lparr>po_pairs := po_pairs po @ [(block, file)]\<rparr>)"

definition get_ready :: "(addr list \<Rightarrow> addr) \<Rightarrow> postponed_files \<Rightarrow> addr option \<times> postponed_files" where
  "get_ready pick po = (if po_ready po = [] then (None, po)
     else (Some (pick (po_ready po)), po\<lparr>po_ready := filter (\<lambda>f. f \<noteq> pick (po_ready po)) (po_ready po)\<rparr>))"

definition forget :: "addr \<Rightarrow> postponed_files \<Rightarrow> postponed_files" where
  "forget file po = \<lparr>po_pairs = filter (\<lambda>(b, f). f \<noteq> file) (po_pairs po), po_ready = filter (\<lambda>f. f \<noteq> file) (po_ready po)\<rparr>"

text \<open>The loop of \<open>advance\<close> over the files that wait for the block.\<close>

fun release_waiting :: "addr \<Rightarrow> addr list \<Rightarrow> postponed_files \<Rightarrow> postponed_files" where
  "release_waiting block [] po = po"
| "release_waiting block (file # files) po =
     release_waiting block files
       (if length (filter (\<lambda>(b, f). f = file) (po_pairs po)) = 1
        then \<lparr>po_pairs = filter (\<lambda>p. p \<noteq> (block, file)) (po_pairs po),
              po_ready = (if file \<in> set (po_ready po) then po_ready po else po_ready po @ [file])\<rparr>
        else po)"

definition po_advance :: "addr \<Rightarrow> postponed_files \<Rightarrow> postponed_files" where
  "po_advance block po = release_waiting block (map snd (filter (\<lambda>(b, f). b = block) (po_pairs po))) po"

definition po_clear :: "postponed_files \<Rightarrow> postponed_files" where
  "po_clear po = \<lparr>po_pairs = [], po_ready = []\<rparr>"

text \<open>The number of blocks a file waits for.\<close>

definition waits_for :: "postponed_files \<Rightarrow> addr \<Rightarrow> addr set" where
  "waits_for po file = {b. (b, file) \<in> set (po_pairs po)}"

definition po_ok :: "postponed_files \<Rightarrow> bool" where
  "po_ok po \<longleftrightarrow> distinct (po_pairs po) \<and> distinct (po_ready po)"

lemma count_waits:
  assumes "distinct ps"
  shows "length (filter (\<lambda>(b, f). f = file) ps) = card {b. (b, file) \<in> set ps}"
proof -
  have "card {b. (b, file) \<in> set ps} = card (set (filter (\<lambda>(b, f). f = file) ps))"
    by (rule bij_betw_same_card [of "\<lambda>b. (b, file)"]) (auto simp: bij_betw_def inj_on_def)
  also have "\<dots> = length (filter (\<lambda>(b, f). f = file) ps)"
    using assms by (intro distinct_card) simp
  finally show ?thesis by simp
qed

lemma release_waiting_exact:
  assumes "po_ok po" and "distinct files" and "\<forall>f \<in> set files. (block, f) \<in> set (po_pairs po)"
  shows "po_ok (release_waiting block files po)
    \<and> set (po_ready (release_waiting block files po)) = set (po_ready po) \<union> {f \<in> set files. waits_for po f = {block}}
    \<and> set (po_pairs (release_waiting block files po))
        = set (po_pairs po) - Pair block ` {f \<in> set files. waits_for po f = {block}}"
  using assms
proof (induction files arbitrary: po)
  case Nil
  then show ?case by simp
next
  case (Cons f fs)
  have count: "length (filter (\<lambda>(b, g). g = f) (po_pairs po)) = card (waits_for po f)"
    using count_waits [of "po_pairs po" f] Cons.prems(1) by (simp add: po_ok_def waits_for_def)
  have "finite (waits_for po f)" unfolding waits_for_def
    by (rule finite_subset [of _ "fst ` set (po_pairs po)"]) (auto intro: rev_image_eqI)
  moreover have "block \<in> waits_for po f" using Cons.prems(3) by (simp add: waits_for_def)
  ultimately have single: "card (waits_for po f) = 1 \<longleftrightarrow> waits_for po f = {block}"
    by (auto simp: card_1_singleton_iff)
  show ?case
  proof (cases "waits_for po f = {block}")
    case False
    then have "release_waiting block (f # fs) po = release_waiting block fs po"
      "{g \<in> set (f # fs). waits_for po g = {block}} = {g \<in> set fs. waits_for po g = {block}}"
      using count single by auto
    then show ?thesis using Cons.IH [of po] Cons.prems by simp
  next
    case True
    define po' where "po' = \<lparr>po_pairs = filter (\<lambda>p. p \<noteq> (block, f)) (po_pairs po),
      po_ready = (if f \<in> set (po_ready po) then po_ready po else po_ready po @ [f])\<rparr>"
    have step: "release_waiting block (f # fs) po = release_waiting block fs po'"
      using True count single by (simp add: po'_def)
    have others: "waits_for po' g = waits_for po g" if "g \<in> set fs" for g
      using that Cons.prems(2) by (auto simp: waits_for_def po'_def)
    have "po_ok po'" using Cons.prems(1) by (auto simp: po_ok_def po'_def)
    moreover have "\<forall>g \<in> set fs. (block, g) \<in> set (po_pairs po')" using Cons.prems(2,3) by (auto simp: po'_def)
    ultimately have IH: "po_ok (release_waiting block fs po')
        \<and> set (po_ready (release_waiting block fs po')) = set (po_ready po') \<union> {g \<in> set fs. waits_for po' g = {block}}
        \<and> set (po_pairs (release_waiting block fs po'))
            = set (po_pairs po') - Pair block ` {g \<in> set fs. waits_for po' g = {block}}"
      using Cons.IH [of po'] Cons.prems(2) by simp
    have same: "{g \<in> set fs. waits_for po' g = {block}} = {g \<in> set fs. waits_for po g = {block}}"
      by (rule Collect_cong) (use others in auto)
    have more: "{g \<in> set (f # fs). waits_for po g = {block}} = insert f {g \<in> set fs. waits_for po g = {block}}"
      using True by auto
    have "set (po_ready po') = insert f (set (po_ready po))" "set (po_pairs po') = set (po_pairs po) - {(block, f)}"
      by (auto simp: po'_def)
    then show ?thesis using IH unfolding step same more by blast
  qed
qed

lemma advance_exact:
  assumes "po_ok po"
  shows "po_ok (po_advance block po)"
    and "set (po_ready (po_advance block po)) = set (po_ready po) \<union> {f. waits_for po f = {block}}"
    and "waits_for (po_advance block po) f = (if waits_for po f = {block} then {} else waits_for po f)"
proof -
  let ?files = "map snd (filter (\<lambda>(b, f). b = block) (po_pairs po))"
  have "distinct ?files" using assms
    by (auto simp: po_ok_def distinct_map inj_on_def)
  moreover have member: "f \<in> set ?files \<longleftrightarrow> block \<in> waits_for po f" for f
    by (auto simp: waits_for_def image_iff)
  ultimately have exact: "po_ok (po_advance block po)
      \<and> set (po_ready (po_advance block po)) = set (po_ready po) \<union> {f \<in> set ?files. waits_for po f = {block}}
      \<and> set (po_pairs (po_advance block po)) = set (po_pairs po) - Pair block ` {f \<in> set ?files. waits_for po f = {block}}"
    unfolding po_advance_def using assms by (intro release_waiting_exact) (auto simp: waits_for_def)
  show "waits_for (po_advance block po) f = (if waits_for po f = {block} then {} else waits_for po f)"
  proof -
    have "waits_for (po_advance block po) f = waits_for po f - {b. b = block \<and> f \<in> set ?files \<and> waits_for po f = {block}}"
      using exact by (auto simp: waits_for_def)
    then show ?thesis using member [of f] by auto
  qed
  have "{f \<in> set ?files. waits_for po f = {block}} = {f. waits_for po f = {block}}"
    using member by auto
  then show "po_ok (po_advance block po)"
    and "set (po_ready (po_advance block po)) = set (po_ready po) \<union> {f. waits_for po f = {block}}"
    using exact by simp_all
qed

text \<open>
  When a block has been fetched, exactly those files become ready that waited for this block
  alone. A file that waits for several blocks keeps waiting for all of them, also for the one that
  has just been fetched.
\<close>

theorem advance_releases_single_waits:
  assumes "po_ok po"
  shows "po_ok (po_advance block po)
    \<and> set (po_ready (po_advance block po)) = set (po_ready po) \<union> {f. waits_for po f = {block}}
    \<and> (\<forall>f. waits_for (po_advance block po) f = (if waits_for po f = {block} then {} else waits_for po f))"
  using advance_exact [OF assms] by blast

text \<open>
  A file that waits for two blocks is never taken up again, whatever blocks are fetched
  afterwards, in whatever order.
\<close>

theorem two_waits_stuck:
  assumes "po_ok po" and "b \<in> waits_for po f" and "c \<in> waits_for po f" and "b \<noteq> c" and "f \<notin> set (po_ready po)"
  shows "f \<notin> set (po_ready (foldl (\<lambda>po block. po_advance block po) po blocks))"
  using assms
proof (induction blocks arbitrary: po)
  case Nil
  then show ?case by simp
next
  case (Cons block blocks)
  have "waits_for po f \<noteq> {block}" using Cons.prems by auto
  then show ?case
    using Cons.IH [of "po_advance block po"] Cons.prems by (simp add: advance_exact)
qed


subsection \<open>Examples\<close>

definition half_fetched :: store where
  "half_fetched = \<lparr>st_files = [0 \<mapsto> (blank_file [])\<lparr>fi_content := file_content [Some (10, True), Some (11, False)], fi_flags := f_type_file\<rparr>],
     st_blocks = [10 \<mapsto> \<lparr>bi_hash = [1], bi_file_blocks = multi [], bi_size = 5, bi_counter = 0\<rparr>,
       11 \<mapsto> \<lparr>bi_hash = [2], bi_file_blocks = multi [], bi_size = 5, bi_counter = 0\<rparr>]\<rparr>"

lemma half_fetched_fetchable: "fetchable half_fetched 0"
proof -
  have "fi_flags (file_at half_fetched 0) = f_type_file" by (simp add: half_fetched_def file_at_def)
  then have "\<not> is_unreachable (file_at half_fetched 0)"
    by (simp add: is_unreachable_def f_type_file_def f_unreachable_def)
  then show ?thesis
    by (simp add: fetchable_def half_fetched_def file_at_def fi_blocks_def wrong_index_def)
qed

theorem block_iterator_complete_witness:
  "fetch_all half_fetched (make_blocks_iterator half_fetched 0)
    = Some (map (place half_fetched 0) (filter (missing half_fetched 0) [0..<length (fi_blocks (file_at half_fetched 0))]))
   \<and> filter (missing half_fetched 0) [0..<length (fi_blocks (file_at half_fetched 0))] = [1]"
  using block_iterator_complete [OF half_fetched_fetchable]
  by (simp add: half_fetched_def file_at_def fi_blocks_def missing_def here_def upt_conv_Cons)

definition waiting_twice :: postponed_files where
  "waiting_twice = postpone 1 9 (postpone 2 9 (postpone 1 8 no_postponed))"

lemma waiting_twice_waits:
  "po_ok waiting_twice" "waits_for waiting_twice 9 = {1, 2}" "waits_for waiting_twice 8 = {1}" "po_ready waiting_twice = []"
  by (auto simp: waiting_twice_def postpone_def no_postponed_def po_ok_def waits_for_def)

theorem advance_releases_single_waits_witness:
  "set (po_ready (po_advance 1 waiting_twice)) = {f. waits_for waiting_twice f = {1}}
    \<and> 8 \<in> set (po_ready (po_advance 1 waiting_twice)) \<and> 9 \<notin> set (po_ready (po_advance 1 waiting_twice))"
  using advance_releases_single_waits [OF waiting_twice_waits(1), of 1] waiting_twice_waits by auto

theorem two_waits_stuck_witness:
  "9 \<notin> set (po_ready (foldl (\<lambda>po block. po_advance block po) waiting_twice [1, 2, 1, 2]))"
  by (rule two_waits_stuck [of _ 1 _ 2]) (simp_all add: waiting_twice_waits)

end
