(* ===== verification/Streamer.thy ===== *)
theory Streamer
  imports Cluster
begin

text \<open>
  Which local files a peer has still to be told about (\<^verbatim>\<open>src/model/misc/updates_streamer.cpp\<close>). For every
  folder sent to the peer the streamer keeps the sequence number up to which the peer has seen
  the local files, and for one folder at a time the files that are being announced.
\<close>

subsection \<open>State\<close>

text \<open>
  A folder info is known by its identifier. The order of the entries stands for the order in which
  the hash map is traversed. The folder infos are shared objects, read through \<open>info\<close> at the
  time of each call.
\<close>

record streamer =
  sm_seen :: "(bytes \<times> int) list"
  sm_streaming :: "(bytes \<times> addr list) option"

type_synonym infos = "bytes \<Rightarrow> folder_info"

definition seen_of :: "bytes \<Rightarrow> (bytes \<times> int) list \<Rightarrow> int" where
  "seen_of k seen = (case map_of seen k of None \<Rightarrow> 0 | Some n \<Rightarrow> n)"

definition set_seen :: "bytes \<Rightarrow> int \<Rightarrow> (bytes \<times> int) list \<Rightarrow> (bytes \<times> int) list" where
  "set_seen k n seen =
     (if map_of seen k = None then seen @ [(k, n)]
      else map (\<lambda>(j, m). if j = k then (j, n) else (j, m)) seen)"

definition unseen :: "store \<Rightarrow> infos \<Rightarrow> bytes \<Rightarrow> int \<Rightarrow> addr list" where
  "unseen st info k seen = fm_range (seq_at st) (seen + 1) (fo_max_sequence (info k)) (fo_file_infos (info k))"

text \<open>Files put one after the other into a fresh map.\<close>

definition put_all :: "(addr list \<Rightarrow> addr) \<Rightarrow> store \<Rightarrow> addr list \<Rightarrow> addr list" where
  "put_all pick st files = foldl (\<lambda>m f. fst (fm_put pick (files_agree st) f True m)) [] files"

subsection \<open>Operations\<close>

text \<open>
  The loop of \<open>refresh_remote\<close>: the entry of a folder and whether its files are being announced; a
  missing local folder info is a null pointer where the peer has a view of the folder.
\<close>

fun refresh_folders :: "cluster \<Rightarrow> device \<Rightarrow> streamer \<Rightarrow> folder list \<Rightarrow> ((bytes \<times> int) list \<times> folder_info option) option" where
  "refresh_folders cl peer s [] = Some ([], None)"
| "refresh_folders cl peer s (fd # fds) =
     (case refresh_folders cl peer s fds of
       None \<Rightarrow> None
     | Some (entries, streaming) \<Rightarrow>
         if dfo_folder_type (fd_data fd) = receive \<or> is_shared_with (dv_sha peer) fd = None then Some (entries, streaming)
         else let fo = by_device (cl_self cl) fd;
                  streaming = (if streaming = None
                    then (case (fo, sm_streaming s) of
                        (Some fo, Some (k, _)) \<Rightarrow> if k = fo_uuid fo then Some fo else None
                      | _ \<Rightarrow> None)
                    else streaming)
              in case view_get (cl_self cl) (fd_id fd) (dv_remote_view_map peer) of
                  None \<Rightarrow> Some (entries, streaming)
                | Some (index_id, max_sequence) \<Rightarrow> (case fo of
                      None \<Rightarrow> None
                    | Some fo \<Rightarrow>
                        let remote_max = (if index_id = fo_index fo then max_sequence else 0)
                        in Some ((fo_uuid fo, max remote_max (seen_of (fo_uuid fo) (sm_seen s))) # entries, streaming)))"

definition refresh_remote :: "cluster \<Rightarrow> device \<Rightarrow> streamer \<Rightarrow> streamer option" where
  "refresh_remote cl peer s = (case refresh_folders cl peer s (cl_folders cl) of
       None \<Rightarrow> None
     | Some (entries, streaming_folder) \<Rightarrow>
         Some (s\<lparr>sm_seen := entries, sm_streaming := (case streaming_folder of
             None \<Rightarrow> None
           | Some fo \<Rightarrow>
               (case find (\<lambda>fd. by_device (cl_self cl) fd = Some fo) (cl_folders cl) of
                 None \<Rightarrow> sm_streaming s
               | Some fd \<Rightarrow> (case view_get (cl_self cl) (fd_id fd) (dv_remote_view_map peer) of
                     Some (index_id, _) \<Rightarrow> if index_id \<noteq> fo_index fo then None else sm_streaming s
                   | None \<Rightarrow> sm_streaming s)))\<rparr>))"

definition make_streamer :: "cluster \<Rightarrow> device \<Rightarrow> streamer option" where
  "make_streamer cl peer = refresh_remote cl peer \<lparr>sm_seen = [], sm_streaming = None\<rparr>"

text \<open>\<open>on_update\<close>: the first part is its assertion.\<close>

definition on_update :: "(addr list \<Rightarrow> addr) \<Rightarrow> store \<Rightarrow> infos \<Rightarrow> bytes \<Rightarrow> addr \<Rightarrow> folder_info \<Rightarrow> streamer \<Rightarrow> (bool \<times> streamer) option" where
  "on_update pick st info self file fi s =
     (if fo_device fi \<noteq> self then None
      else Some (case sm_streaming s of
          None \<Rightarrow> (case map_of (sm_seen s) (fo_uuid fi) of
              None \<Rightarrow> (False, s)
            | Some seen \<Rightarrow> (True, s\<lparr>sm_streaming := Some (fo_uuid fi, put_all pick st (unseen st info (fo_uuid fi) seen))\<rparr>))
        | Some (k, files) \<Rightarrow>
            if k = fo_uuid fi
            then (True, s\<lparr>sm_streaming := Some (k, fst (fm_put pick (files_agree st) file True files))\<rparr>)
            else (False, s)))"

text \<open>The loop of \<open>next\<close> over the folders, when no files are being announced.\<close>

fun next_folder :: "store \<Rightarrow> infos \<Rightarrow> (bytes \<times> int) list \<Rightarrow> (bytes \<times> int \<times> addr list) option" where
  "next_folder st info [] = None"
| "next_folder st info ((k, seen) # rest) =
     (if seen < fo_max_sequence (info k) \<and> unseen st info k seen \<noteq> []
      then Some (k, seen, unseen st info k seen) else next_folder st info rest)"

definition start_folder :: "(addr list \<Rightarrow> addr) \<Rightarrow> store \<Rightarrow> infos \<Rightarrow> streamer \<Rightarrow> (addr \<times> bytes \<times> bool) option \<times> streamer" where
  "start_folder pick st info s = (case next_folder st info (sm_seen s) of
       Some (k, seen, file # files) \<Rightarrow>
         (Some (file, k, seen = 0),
          s\<lparr>sm_seen := set_seen k (seq_at st file) (sm_seen s),
            sm_streaming := (if files = [] then None else Some (k, put_all pick st files))\<rparr>)
     | _ \<Rightarrow> (None, s\<lparr>sm_streaming := None\<rparr>))"

definition sm_next :: "(addr list \<Rightarrow> addr) \<Rightarrow> store \<Rightarrow> infos \<Rightarrow> streamer \<Rightarrow> (addr \<times> bytes \<times> bool) option \<times> streamer" where
  "sm_next pick st info s = (case sm_streaming s of
       Some (k, files) \<Rightarrow> (case sort_key (seq_at st) files of
           file # _ \<Rightarrow>
             (Some (file, k, seen_of k (sm_seen s) = 0),
              s\<lparr>sm_seen := set_seen k (seq_at st file) (sm_seen s),
                sm_streaming := Some (k, fm_remove (uuid_at st) (name_at st) (seq_at st) file files)\<rparr>)
         | [] \<Rightarrow> start_folder pick st info (s\<lparr>sm_streaming := None\<rparr>))
     | None \<Rightarrow> start_folder pick st info s)"

text \<open>The updates of as many calls, until there is none.\<close>

fun updates :: "(addr list \<Rightarrow> addr) \<Rightarrow> store \<Rightarrow> infos \<Rightarrow> nat \<Rightarrow> streamer \<Rightarrow> (addr \<times> bytes) list" where
  "updates pick st info 0 s = []"
| "updates pick st info (Suc n) s = (case sm_next pick st info s of
       (None, _) \<Rightarrow> []
     | (Some (file, k, _), s) \<Rightarrow> (file, k) # updates pick st info n s)"

subsection \<open>Everything is announced once, in order\<close>

lemma unseen_sorted:
  assumes "fo_ok st (info k)"
  shows "sorted_wrt (\<lambda>a b. seq_at st a < seq_at st b) (unseen st info k n)" and "set (unseen st info k n) \<subseteq> set (fo_file_infos (info k))"
proof -
  let ?xs = "sort_key (seq_at st) (fo_file_infos (info k))"
  have "distinct (map (seq_at st) (fo_file_infos (info k)))" using assms by (simp add: fo_ok_def fm_ok_def unique_by_def)
  then have "inj_on (seq_at st) (set ?xs)" "distinct ?xs" by (simp_all add: distinct_map)
  then have "distinct (map (seq_at st) ?xs)" by (simp add: distinct_map)
  moreover have "sorted (map (seq_at st) ?xs)" by simp
  ultimately have "sorted_wrt (<) (map (seq_at st) ?xs)" by (simp add: strict_sorted_iff)
  then have "sorted_wrt (\<lambda>a b. seq_at st a < seq_at st b) ?xs" by (simp add: sorted_wrt_map)
  then show "sorted_wrt (\<lambda>a b. seq_at st a < seq_at st b) (unseen st info k n)"
    unfolding unseen_def fm_range_def by (rule sorted_wrt_filter)
  show "set (unseen st info k n) \<subseteq> set (fo_file_infos (info k))" by (auto simp: unseen_def fm_range_def)
qed

lemma unseen_Cons:
  assumes "fo_ok st (info k)" and "unseen st info k n = f # fs"
  shows "unseen st info k (seq_at st f) = fs" and "n < seq_at st f"
proof -
  have "f \<in> set (unseen st info k n)" using assms(2) by simp
  then show gt: "n < seq_at st f" by (simp add: unseen_def fm_range_def)
  have "unseen st info k (seq_at st f) = filter (\<lambda>x. seq_at st f + 1 \<le> seq_at st x) (unseen st info k n)"
    using gt unfolding unseen_def fm_range_def filter_filter by (intro filter_cong) auto
  also have "\<dots> = filter (\<lambda>x. seq_at st f + 1 \<le> seq_at st x) fs" by (simp add: assms(2))
  also have "\<dots> = fs"
  proof (rule filter_True)
    show "\<forall>x \<in> set fs. seq_at st f + 1 \<le> seq_at st x"
      using unseen_sorted(1) [of st info k n, OF assms(1)] by (auto simp: assms(2))
  qed
  finally show "unseen st info k (seq_at st f) = fs" .
qed

text \<open>The entries of a map traversed once per key.\<close>

definition streamer_ok :: "store \<Rightarrow> infos \<Rightarrow> streamer \<Rightarrow> bool" where
  "streamer_ok st info s \<longleftrightarrow> distinct (map fst (sm_seen s)) \<and> (\<forall>(k, n) \<in> set (sm_seen s). fo_ok st (info k))
     \<and> (case sm_streaming s of
          None \<Rightarrow> True
        | Some (k, files) \<Rightarrow> map_of (sm_seen s) k \<noteq> None \<and> fm_ok (uuid_at st) (name_at st) (seq_at st) files
            \<and> sort_key (seq_at st) files = unseen st info k (seen_of k (sm_seen s)))"

definition of_folder :: "store \<Rightarrow> infos \<Rightarrow> bytes \<times> int \<Rightarrow> (addr \<times> bytes) list" where
  "of_folder st info = (\<lambda>(k, n). map (\<lambda>f. (f, k)) (unseen st info k n))"

text \<open>What is still to be announced: the folder in progress, then the others one by one.\<close>

definition outstanding :: "store \<Rightarrow> infos \<Rightarrow> streamer \<Rightarrow> (addr \<times> bytes) list" where
  "outstanding st info s = (case sm_streaming s of
       None \<Rightarrow> concat (map (of_folder st info) (sm_seen s))
     | Some (k, _) \<Rightarrow> of_folder st info (k, seen_of k (sm_seen s))
         @ concat (map (of_folder st info) (filter (\<lambda>(j, _). j \<noteq> k) (sm_seen s))))"

lemma set_seen_facts:
  assumes "map_of seen k \<noteq> None"
  shows "map fst (set_seen k n seen) = map fst seen" and "seen_of k (set_seen k n seen) = n"
    and "filter (\<lambda>(j, _). j \<noteq> k) (set_seen k n seen) = filter (\<lambda>(j, _). j \<noteq> k) seen"
    and "map_of (set_seen k n seen) k = Some n"
proof -
  have set: "set_seen k n seen = map (\<lambda>(j, m). if j = k then (j, n) else (j, m)) seen" using assms by (simp add: set_seen_def)
  show "map fst (set_seen k n seen) = map fst seen" by (auto simp: set)
  show "map_of (set_seen k n seen) k = Some n" using assms unfolding set by (induction seen) (auto split: if_splits)
  then show "seen_of k (set_seen k n seen) = n" by (simp add: seen_of_def)
  show "filter (\<lambda>(j, _). j \<noteq> k) (set_seen k n seen) = filter (\<lambda>(j, _). j \<noteq> k) seen"
    unfolding set by (induction seen) auto
qed

lemma put_all_id:
  assumes pick: "\<And>xs. xs \<noteq> [] \<Longrightarrow> pick xs \<in> set xs" and ok: "fm_ok (uuid_at st) (name_at st) (seq_at st) files"
  shows "put_all pick st files = files"
proof -
  have "foldl (\<lambda>m f. fst (fm_put pick (files_agree st) f True m)) old rest = old @ rest"
    if "fm_ok (uuid_at st) (name_at st) (seq_at st) (old @ rest)" for old rest
    using that
  proof (induction rest arbitrary: old)
    case Nil
    then show ?case by simp
  next
    case (Cons f rest)
    have "fm_ok (uuid_at st) (name_at st) (seq_at st) old" "distinct old"
      using Cons.prems by (auto simp: fm_ok_def unique_by_def distinct_map)
    moreover have "filter (files_agree st f) old = []"
      using Cons.prems by (auto simp: fm_ok_def unique_by_def filter_empty_conv files_agree_def fm_agree_def image_iff)
    ultimately have "fst (fm_put pick (files_agree st) f True old) = old @ [f]"
      using file_map_put_eq [of "files_agree st" "uuid_at st" "name_at st" "seq_at st" pick old f] pick
      by (simp add: files_agree_def)
    then show ?case using Cons.IH [of "old @ [f]"] Cons.prems by simp
  qed
  from this [of "[]" files] show ?thesis using ok by (simp add: put_all_def)
qed


lemma next_folder_first:
  "\<forall>(k, n) \<in> set seen. fo_ok st (info k) \<Longrightarrow> (case next_folder st info seen of
     None \<Rightarrow> concat (map (of_folder st info) seen) = []
   | Some (k, n, files) \<Rightarrow> \<exists>before after. seen = before @ (k, n) # after \<and> files \<noteq> [] \<and> files = unseen st info k n
       \<and> concat (map (of_folder st info) before) = [])"
proof (induction seen)
  case Nil
  then show ?case by simp
next
  case (Cons e seen)
  obtain k n where e: "e = (k, n)" by (cases e)
  have none: "unseen st info k n = []" if "\<not> n < fo_max_sequence (info k)"
    using that by (auto simp: unseen_def fm_range_def filter_empty_conv)
  show ?case
  proof (cases "unseen st info k n = []")
    case True
    then have "next_folder st info (e # seen) = next_folder st info seen" "of_folder st info e = []"
      by (simp_all add: e of_folder_def)
    note skip = this
    show ?thesis
    proof (cases "next_folder st info seen")
      case None
      then show ?thesis using skip Cons by simp
    next
      case (Some r)
      obtain j m files where r: "r = (j, m, files)" by (cases r)
      then obtain before after where "seen = before @ (j, m) # after" "files \<noteq> []" "files = unseen st info j m"
        "concat (map (of_folder st info) before) = []"
        using Cons Some by auto
      then have "e # seen = (e # before) @ (j, m) # after \<and> files \<noteq> [] \<and> files = unseen st info j m
          \<and> concat (map (of_folder st info) (e # before)) = []"
        using skip(2) by simp
      then show ?thesis unfolding skip(1) Some r by (simp only: option.case prod.case) blast
    qed
  next
    case False
    then have "next_folder st info (e # seen) = Some (k, n, unseen st info k n)" using none by (auto simp: e)
    moreover have "e # seen = [] @ (k, n) # seen \<and> concat (map (of_folder st info) []) = []" by (simp add: e)
    ultimately show ?thesis using False by (simp only: option.case prod.case) blast
  qed
qed

lemma start_folder_step:
  assumes pick: "\<And>xs. xs \<noteq> [] \<Longrightarrow> pick xs \<in> set xs" and ok: "streamer_ok st info s" and "sm_streaming s = None"
  shows "case start_folder pick st info s of
     (None, s') \<Rightarrow> outstanding st info s = []
   | (Some (f, k, _), s') \<Rightarrow> streamer_ok st info s' \<and> outstanding st info s = (f, k) # outstanding st info s'"
proof -
  have all: "\<forall>(k, n) \<in> set (sm_seen s). fo_ok st (info k)" and keys: "distinct (map fst (sm_seen s))"
    using ok by (auto simp: streamer_ok_def)
  show ?thesis
  proof (cases "next_folder st info (sm_seen s)")
    case None
    then show ?thesis using next_folder_first [OF all] assms(3) by (simp add: start_folder_def outstanding_def)
  next
    case (Some r)
    obtain k n files where r: "r = (k, n, files)" by (cases r)
    obtain before after where seen: "sm_seen s = before @ (k, n) # after" and files: "files \<noteq> []" "files = unseen st info k n"
      and before: "concat (map (of_folder st info) before) = []"
      using next_folder_first [OF all] Some r by auto
    obtain f fs where f: "files = f # fs" using files(1) by (cases files) auto
    have fo: "fo_ok st (info k)" using all seen by auto
    have un: "unseen st info k n = f # fs" using files(2) f by simp
    note tail = unseen_Cons [of st info k n f fs, OF fo un]
    have apart: "k \<notin> fst ` set before" "k \<notin> fst ` set after" using keys seen by auto
    have seen': "set_seen k (seq_at st f) (sm_seen s) = before @ (k, seq_at st f) # after"
    proof -
      have "map (\<lambda>(j, m). if j = k then (j, seq_at st f) else (j, m)) es = es" if "k \<notin> fst ` set es" for es
        using that by (intro map_idI) (auto simp: image_iff split: if_splits)
      moreover have "map_of (sm_seen s) k \<noteq> None" by (auto simp: seen map_of_eq_None_iff)
      ultimately show ?thesis using apart by (simp add: set_seen_def seen)
    qed
    have fs_ok: "fm_ok (uuid_at st) (name_at st) (seq_at st) fs"
    proof -
      have "fs = fm_range (seq_at st) (seq_at st f + 1) (fo_max_sequence (info k)) (fo_file_infos (info k))"
        using tail(1) by (simp add: unseen_def)
      then show ?thesis using fo
        by (auto simp: fo_ok_def fm_ok_def unique_by_def fm_range_def distinct_map intro: inj_on_subset)
    qed
    have here: "of_folder st info (k, n) = (f, k) # of_folder st info (k, seq_at st f)"
      by (simp add: of_folder_def tail(1) un)
    have k: "seen_of k (before @ (k, seq_at st f) # after) = seq_at st f"
    proof -
      have "map_of before k = None" using apart(1) by (simp add: map_of_eq_None_iff)
      then show ?thesis by (simp add: seen_of_def map_add_def)
    qed
    have sorted: "sort_key (seq_at st) fs = fs"
    proof -
      have "sorted (map (seq_at st) fs)" by (simp add: flip: tail(1)) (simp add: unseen_def fm_range_def sorted_filter)
      then show ?thesis by (rule sorted_sort_id [of "map (seq_at st) fs", simplified] sort_key_id_if_sorted)
    qed
    have others: "filter (\<lambda>(j, _). j \<noteq> k) (before @ (k, seq_at st f) # after) = before @ after"
    proof -
      have "filter (\<lambda>(j, _). j \<noteq> k) es = es" if "k \<notin> fst ` set es" for es :: "(bytes \<times> int) list"
        using that by (intro filter_True) (auto simp: image_iff)
      then show ?thesis using apart by simp
    qed
    define s' where "s' = s\<lparr>sm_seen := before @ (k, seq_at st f) # after, sm_streaming := (if fs = [] then None else Some (k, fs))\<rparr>"
    have "start_folder pick st info s = (Some (f, k, n = 0), s')"
      using Some r f seen' put_all_id [OF pick fs_ok] by (simp add: start_folder_def s'_def)
    moreover have "outstanding st info s = (f, k) # of_folder st info (k, seq_at st f) @ concat (map (of_folder st info) after)"
      unfolding outstanding_def assms(3) option.case seen map_append concat_append before by (simp add: here)
    moreover have "outstanding st info s' = of_folder st info (k, seq_at st f) @ concat (map (of_folder st info) after)"
    proof (cases "fs = []")
      case True
      then have "outstanding st info s' = concat (map (of_folder st info) (before @ (k, seq_at st f) # after))"
        by (simp add: outstanding_def s'_def)
      then show ?thesis unfolding map_append concat_append before by simp
    next
      case False
      then have "outstanding st info s' = of_folder st info (k, seq_at st f) @ concat (map (of_folder st info) (before @ after))"
        using k others by (simp add: outstanding_def s'_def del: filter_append)
      then show ?thesis unfolding map_append concat_append before by simp
    qed
    moreover have "streamer_ok st info s'"
    proof -
      have "map_of (before @ (k, seq_at st f) # after) k \<noteq> None" by (auto simp: map_of_eq_None_iff)
      then show ?thesis using keys all seen k sorted fs_ok tail(1) by (auto simp: streamer_ok_def s'_def)
    qed
    ultimately show ?thesis by simp
  qed
qed

text \<open>Removing a file from a map of files with unique keys.\<close>

lemma fm_remove_unique:
  assumes "fm_ok (uuid_at st) (name_at st) (seq_at st) files" and "f \<in> set files"
  shows "fm_remove (uuid_at st) (name_at st) (seq_at st) f files = filter (\<lambda>g. g \<noteq> f) files"
  using assms by (auto simp: fm_remove_def mi_erase_def fm_ok_def unique_by_def distinct_map inj_on_def intro!: filter_cong)

lemma streaming_step:
  assumes ok: "streamer_ok st info s" and streaming: "sm_streaming s = Some (k, files)"
    and f: "sort_key (seq_at st) files = f # fs"
  shows "streamer_ok st info (s\<lparr>sm_seen := set_seen k (seq_at st f) (sm_seen s),
        sm_streaming := Some (k, fm_remove (uuid_at st) (name_at st) (seq_at st) f files)\<rparr>)
    \<and> outstanding st info s = (f, k) # outstanding st info (s\<lparr>sm_seen := set_seen k (seq_at st f) (sm_seen s),
        sm_streaming := Some (k, fm_remove (uuid_at st) (name_at st) (seq_at st) f files)\<rparr>)"
proof -
  have entry: "map_of (sm_seen s) k \<noteq> None" and files: "fm_ok (uuid_at st) (name_at st) (seq_at st) files"
    and un: "unseen st info k (seen_of k (sm_seen s)) = f # fs"
    using ok streaming f by (auto simp: streamer_ok_def)
  have fo: "fo_ok st (info k)" using ok entry by (auto simp: streamer_ok_def dest: map_of_SomeD)
  have mem: "f \<in> set files" using f by (metis list.set_intros(1) set_sort)
  note tail = unseen_Cons [of st info k "seen_of k (sm_seen s)" f fs, OF fo un]
  note seen = set_seen_facts [OF entry, of "seq_at st f"]
  have removed: "fm_remove (uuid_at st) (name_at st) (seq_at st) f files = filter (\<lambda>g. g \<noteq> f) files"
    by (rule fm_remove_unique [OF files mem])
  have "sort_key (seq_at st) (filter (\<lambda>g. g \<noteq> f) files) = filter (\<lambda>g. g \<noteq> f) (f # fs)"
    by (simp add: flip: f) (simp add: filter_sort)
  also have "\<dots> = fs"
    using unseen_sorted(1) [of st info k "seen_of k (sm_seen s)", OF fo] by (auto simp: un intro!: filter_True)
  finally have sorted: "sort_key (seq_at st) (filter (\<lambda>g. g \<noteq> f) files) = fs" .
  have keys: "\<forall>(j, n) \<in> set (set_seen k (seq_at st f) (sm_seen s)). fo_ok st (info j)"
  proof -
    have "fst ` set (set_seen k (seq_at st f) (sm_seen s)) = fst ` set (sm_seen s)"
      using arg_cong [OF seen(1), of set] by simp
    moreover have "\<forall>j \<in> fst ` set (sm_seen s). fo_ok st (info j)" using ok by (auto simp: streamer_ok_def)
    ultimately show ?thesis by (metis case_prodI2 fst_conv image_eqI)
  qed
  have "fm_ok (uuid_at st) (name_at st) (seq_at st) (filter (\<lambda>g. g \<noteq> f) files)"
    using files by (simp add: fm_ok_def unique_by_def distinct_map_filter)
  then show ?thesis
    using ok streaming seen tail un sorted removed keys
    by (simp add: streamer_ok_def outstanding_def of_folder_def) blast
qed

lemma sm_next_step:
  assumes pick: "\<And>xs. xs \<noteq> [] \<Longrightarrow> pick xs \<in> set xs" and ok: "streamer_ok st info s"
  shows "case sm_next pick st info s of
     (None, s') \<Rightarrow> outstanding st info s = []
   | (Some (f, k, _), s') \<Rightarrow> streamer_ok st info s' \<and> outstanding st info s = (f, k) # outstanding st info s'"
proof (cases "sm_streaming s")
  case None
  then show ?thesis using start_folder_step [OF pick ok] by (simp add: sm_next_def)
next
  case (Some r)
  obtain k files where r: "r = (k, files)" by (cases r)
  show ?thesis
  proof (cases "sort_key (seq_at st) files")
    case Nil
    let ?s = "s\<lparr>sm_streaming := None\<rparr>"
    have "streamer_ok st info ?s" using ok by (simp add: streamer_ok_def)
    moreover have same: "outstanding st info s = outstanding st info ?s"
    proof -
      have entry: "map_of (sm_seen s) k \<noteq> None" and none: "unseen st info k (seen_of k (sm_seen s)) = []"
        and keys: "distinct (map fst (sm_seen s))"
        using ok Some r Nil by (auto simp: streamer_ok_def)
      have "concat (map (of_folder st info) (filter (\<lambda>(j, _). j \<noteq> k) es)) = concat (map (of_folder st info) es)"
        if "distinct (map fst es)" "\<And>n. (k, n) \<in> set es \<Longrightarrow> of_folder st info (k, n) = []" for es
        using that by (induction es) auto
      moreover have "of_folder st info (k, n) = []" if "(k, n) \<in> set (sm_seen s)" for n
        using none map_of_is_SomeI [OF keys that] by (simp add: of_folder_def seen_of_def)
      ultimately show ?thesis using keys none Some r by (simp add: outstanding_def of_folder_def)
    qed
    moreover note start_folder_step [OF pick, of st info ?s]
    ultimately show ?thesis using Some r Nil unfolding same by (simp add: sm_next_def)
  next
    case (Cons f fs)
    then show ?thesis using streaming_step [OF ok, of k files f fs] Some r by (simp add: sm_next_def)
  qed
qed

text \<open>
  C20: what is announced to a peer. Calling the streamer again and again gives exactly the local
  files the peer has not seen, each once, folder by folder and within a folder in the order of
  their sequence numbers, and then nothing; this holds at the start as well as in the middle of a
  folder.
\<close>

theorem updates_complete:
  assumes "\<And>xs. xs \<noteq> [] \<Longrightarrow> pick xs \<in> set xs" and "streamer_ok st info s" and "length (outstanding st info s) \<le> n"
  shows "updates pick st info n s = outstanding st info s"
  using assms(2-)
proof (induction n arbitrary: s)
  case 0
  then show ?case by simp
next
  case (Suc n)
  obtain r s' where step: "sm_next pick st info s = (r, s')" by (cases "sm_next pick st info s")
  show ?case
  proof (cases r)
    case None
    then show ?thesis using sm_next_step [OF assms(1) Suc.prems(1)] step by simp
  next
    case (Some u)
    obtain f k i where u: "u = (f, k, i)" by (cases u)
    then show ?thesis using sm_next_step [OF assms(1) Suc.prems(1)] step Some Suc.IH [of s'] Suc.prems(2) by simp
  qed
qed


definition two_local_files :: store where
  "two_local_files = \<lparr>st_files =
     [0 \<mapsto> (blank_file (file_key_prefix # replicate 16 0 @ replicate 16 1))\<lparr>fi_name := ''a'', fi_sequence := 1\<rparr>,
      1 \<mapsto> (blank_file (file_key_prefix # replicate 16 0 @ replicate 16 2))\<lparr>fi_name := ''b'', fi_sequence := 2\<rparr>],
     st_blocks = Map.empty\<rparr>"

definition two_files_info :: infos where
  "two_files_info = (\<lambda>_. (blank_folder_info sample_device [] [])\<lparr>fo_file_infos := [1, 0], fo_max_sequence := 2\<rparr>)"

definition fresh_streamer :: streamer where
  "fresh_streamer = \<lparr>sm_seen = [([7], 0)], sm_streaming = None\<rparr>"

lemma fresh_streamer_facts:
  "streamer_ok two_local_files two_files_info fresh_streamer"
  "outstanding two_local_files two_files_info fresh_streamer = [(0, [7]), (1, [7])]"
  by code_simp+

theorem updates_complete_witness:
  "updates hd two_local_files two_files_info 5 fresh_streamer = [(0, [7]), (1, [7])]"
  using updates_complete [of hd two_local_files two_files_info fresh_streamer 5] fresh_streamer_facts by simp

end
