(* ===== verification/File_Iterator.thy ===== *)
theory File_Iterator
  imports Cluster
begin

text \<open>
  Which remote files are to be fetched next (\<^verbatim>\<open>src/model/misc/file_iterator.cpp\<close>): for every folder
  shared with a peer a queue of the files that differ from the local ones, in the order in which the
  folder wants them, and a turn among the folders.
\<close>

subsection \<open>The order of a queue\<close>

definition char_value :: "char \<Rightarrow> int" where
  "char_value c = (let n = of_char c in if n < 128 then n else n - 256)"

fun lex_less :: "string \<Rightarrow> string \<Rightarrow> bool" where
  "lex_less _ [] = False"
| "lex_less [] (_ # _) = True"
| "lex_less (a # as) (b # bs) =
     (if char_value a < char_value b then True else if char_value b < char_value a then False else lex_less as bs)"

text \<open>The size of a file one of whose blocks is not known, which the code cannot have, is 0 here.\<close>

definition size_at :: "store \<Rightarrow> addr \<Rightarrow> int" where
  "size_at st a = (case fi_get_size st (file_at st a) of Some n \<Rightarrow> n | None \<Rightarrow> 0)"

text \<open>What the pull order compares; a smaller one comes first.\<close>

definition pull_key :: "store \<Rightarrow> pull_order \<Rightarrow> addr \<Rightarrow> int" where
  "pull_key st order a = (case order of
       newest \<Rightarrow> - fi_modified_s (file_at st a)
     | oldest \<Rightarrow> fi_modified_s (file_at st a)
     | smallest \<Rightarrow> size_at st a
     | largest \<Rightarrow> - size_at st a
     | _ \<Rightarrow> 0)"

definition no_blocks :: "store \<Rightarrow> addr \<Rightarrow> bool" where
  "no_blocks st a \<longleftrightarrow> fi_blocks (file_at st a) = []"

definition file_less :: "store \<Rightarrow> pull_order \<Rightarrow> addr \<Rightarrow> addr \<Rightarrow> bool" where
  "file_less st order l r =
     (if no_blocks st l \<and> \<not> no_blocks st r then True
      else if no_blocks st r \<and> \<not> no_blocks st l then False
      else if pull_key st order l < pull_key st order r then True
      else if pull_key st order r < pull_key st order l then False
      else lex_less (name_at st l) (name_at st r))"

text \<open>Insertion into the ordered set: a file that is equivalent to one in it is left out.\<close>

definition queue_insert :: "store \<Rightarrow> pull_order \<Rightarrow> addr \<Rightarrow> addr list \<Rightarrow> addr list" where
  "queue_insert st order x q =
     (if \<exists>y \<in> set q. \<not> file_less st order x y \<and> \<not> file_less st order y x then q
      else takeWhile (\<lambda>y. file_less st order y x) q @ [x] @ dropWhile (\<lambda>y. file_less st order y x) q)"

subsection \<open>State\<close>

text \<open>A folder info is known by the identifier of its folder; the device is the peer of the iterator.\<close>

record folder_iterator =
  fq_folder :: bytes
  fq_queue :: "addr list"
  fq_order :: pull_order
  fq_seen_index :: u64
  fq_seen_sequence :: int
  fq_can_receive :: bool

record file_iterator =
  ft_peer :: bytes
  ft_index :: nat
  ft_folders :: "folder_iterator list"

text \<open>What the decisions about files depend on besides the cluster.\<close>

record platform =
  pl_symlinks_supported :: bool
  pl_path_supported :: "string \<Rightarrow> bool"
  pl_local_time :: "int \<Rightarrow> civil_time"

definition folder_by_uuid :: "bytes \<Rightarrow> cluster \<Rightarrow> folder option" where
  "folder_by_uuid uuid cl = find (\<lambda>fd. fd_uuid fd = uuid) (cl_folders cl)"

definition action_for :: "platform \<Rightarrow> cluster \<Rightarrow> folder \<Rightarrow> folder_info \<Rightarrow> addr \<Rightarrow> advance_action" where
  "action_for pl cl fd local_folder f =
     resolve (pl_symlinks_supported pl) (pl_path_supported pl) (pl_local_time pl) (cl_store cl) f
       (by_name (cl_store cl) (name_at (cl_store cl) f) local_folder) local_folder fd"

text \<open>The files among these that are wanted enter the queue.\<close>

definition enqueue :: "platform \<Rightarrow> cluster \<Rightarrow> folder \<Rightarrow> folder_info \<Rightarrow> pull_order \<Rightarrow> addr list \<Rightarrow> addr list \<Rightarrow> addr list" where
  "enqueue pl cl fd local_folder order files q =
     foldl (\<lambda>q f. if action_for pl cl fd local_folder f \<noteq> ignore then queue_insert (cl_store cl) order f q else q) q files"

subsection \<open>Operations\<close>

text \<open>\<open>None\<close> is a folder without a local folder info.\<close>

definition prepare_folder :: "platform \<Rightarrow> cluster \<Rightarrow> folder \<Rightarrow> folder_info \<Rightarrow> file_iterator \<Rightarrow> file_iterator option" where
  "prepare_folder pl cl fd peer_folder ft = (case by_device (cl_self cl) fd of
       None \<Rightarrow> None
     | Some local_folder \<Rightarrow>
         let order = dfo_pull_order (fd_data fd);
             can_receive = (dfo_folder_type (fd_data fd) \<noteq> send);
             it = \<lparr>fq_folder = fd_uuid fd,
               fq_queue = (if can_receive then enqueue pl cl fd local_folder order (fo_file_infos peer_folder) [] else []),
               fq_order = order,
               fq_seen_index = (if can_receive then fo_index peer_folder else 0),
               fq_seen_sequence = (if can_receive then fo_max_sequence peer_folder else 0),
               fq_can_receive = can_receive\<rparr>
         in Some (ft\<lparr>ft_folders := ft_folders ft @ [it]\<rparr>))"

fun prepare_all :: "platform \<Rightarrow> cluster \<Rightarrow> folder list \<Rightarrow> file_iterator \<Rightarrow> file_iterator option" where
  "prepare_all pl cl [] ft = Some ft"
| "prepare_all pl cl (fd # fds) ft = (case (by_device (ft_peer ft) fd, by_device (cl_self cl) fd) of
       (Some peer_folder, Some _) \<Rightarrow> (case prepare_folder pl cl fd peer_folder ft of
           None \<Rightarrow> None
         | Some ft \<Rightarrow> prepare_all pl cl fds ft)
     | _ \<Rightarrow> prepare_all pl cl fds ft)"

definition make_file_iterator :: "platform \<Rightarrow> cluster \<Rightarrow> bytes \<Rightarrow> file_iterator option" where
  "make_file_iterator pl cl peer = prepare_all pl cl (cl_folders cl) \<lparr>ft_peer = peer, ft_index = 0, ft_folders = []\<rparr>"

text \<open>Whether files of the folder are given out now.\<close>

definition do_scan :: "cluster \<Rightarrow> device \<Rightarrow> folder \<Rightarrow> folder_info \<Rightarrow> bool" where
  "do_scan cl peer fd peer_folder \<longleftrightarrow>
     \<not> dfo_paused (fd_data fd) \<and> \<not> dfo_scheduled (fd_data fd) \<and> \<not> fd_suspended fd
     \<and> (case view_get (dv_sha peer) (fd_id fd) (dv_remote_view_map peer) of
          None \<Rightarrow> False
        | Some (_, max_sequence) \<Rightarrow> max_sequence \<le> fo_max_sequence peer_folder)"

text \<open>The inner loop: files are taken from the queue until one is neither locked nor to be ignored.\<close>

fun take_first :: "platform \<Rightarrow> cluster \<Rightarrow> folder \<Rightarrow> folder_info \<Rightarrow> addr list \<Rightarrow> (addr \<times> addr option \<times> advance_action) option \<times> addr list" where
  "take_first pl cl fd local_folder [] = (None, [])"
| "take_first pl cl fd local_folder (f # q) =
     (if \<not> is_locked (name_at (cl_store cl) f) cl \<and> action_for pl cl fd local_folder f \<noteq> ignore
      then (Some (f, by_name (cl_store cl) (name_at (cl_store cl) f) local_folder, action_for pl cl fd local_folder f), q)
      else take_first pl cl fd local_folder q)"

record found =
  fn_file :: addr
  fn_folder :: bytes
  fn_local :: "addr option"
  fn_action :: advance_action

definition with_queue :: "nat \<Rightarrow> addr list \<Rightarrow> file_iterator \<Rightarrow> file_iterator" where
  "with_queue i q ft = ft\<lparr>ft_folders := (ft_folders ft)[i := (ft_folders ft ! i)\<lparr>fq_queue := q\<rparr>]\<rparr>"

text \<open>
  The outer loop over as many folders; the outer \<open>None\<close> is a folder that is not in the cluster or
  a folder info that is missing.
\<close>

fun scan_folders :: "platform \<Rightarrow> cluster \<Rightarrow> device \<Rightarrow> nat \<Rightarrow> file_iterator \<Rightarrow> (found option \<times> file_iterator) option" where
  "scan_folders pl cl peer 0 ft = Some (None, ft)"
| "scan_folders pl cl peer (Suc n) ft =
     (let i = ft_index ft; it = ft_folders ft ! i;
          turn = ft\<lparr>ft_index := (i + 1) mod length (ft_folders ft)\<rparr>
      in if length (ft_folders ft) \<le> i then None
         else case folder_by_uuid (fq_folder it) cl of
             None \<Rightarrow> None
           | Some fd \<Rightarrow> (case (by_device (ft_peer ft) fd, by_device (cl_self cl) fd) of
                 (Some peer_folder, Some local_folder) \<Rightarrow>
                   if do_scan cl peer fd peer_folder
                   then (case take_first pl cl fd local_folder (fq_queue it) of
                       (Some (f, local, action), q) \<Rightarrow>
                         Some (Some \<lparr>fn_file = f, fn_folder = fq_folder it, fn_local = local, fn_action = action\<rparr>, with_queue i q ft)
                     | (None, q) \<Rightarrow> scan_folders pl cl peer n (with_queue i q turn))
                   else scan_folders pl cl peer n turn
               | _ \<Rightarrow> None))"

definition ft_next :: "platform \<Rightarrow> cluster \<Rightarrow> device \<Rightarrow> file_iterator \<Rightarrow> (found option \<times> file_iterator) option" where
  "ft_next pl cl peer ft = scan_folders pl cl peer (length (ft_folders ft)) ft"

text \<open>
  \<open>populate\<close>: after a change of the index the queue is emptied and the sequence number seen is
  reset, but the files are still taken from the old number on.
\<close>

definition populate :: "platform \<Rightarrow> cluster \<Rightarrow> folder \<Rightarrow> folder_info \<Rightarrow> folder_info \<Rightarrow> folder_iterator \<Rightarrow> folder_iterator" where
  "populate pl cl fd peer_folder local_folder it =
     (let seen_sequence = fq_seen_sequence it;
          q = (if fo_index peer_folder \<noteq> fq_seen_index it then [] else fq_queue it);
          files = fm_range (seq_at (cl_store cl)) (seen_sequence + 1) (fo_max_sequence peer_folder) (fo_file_infos peer_folder)
      in it\<lparr>fq_queue := enqueue pl cl fd local_folder (fq_order it) files q, fq_seen_sequence := fo_max_sequence peer_folder\<rparr>)"

text \<open>The first iterator of the folder that receives, if there is one.\<close>

definition receiving :: "bytes \<Rightarrow> file_iterator \<Rightarrow> nat option" where
  "receiving uuid ft = find (\<lambda>i. fq_folder (ft_folders ft ! i) = uuid \<and> fq_can_receive (ft_folders ft ! i)) [0..<length (ft_folders ft)]"

definition on_upsert_info :: "platform \<Rightarrow> cluster \<Rightarrow> folder \<Rightarrow> folder_info \<Rightarrow> file_iterator \<Rightarrow> file_iterator option" where
  "on_upsert_info pl cl fd peer_folder ft = (case receiving (fd_uuid fd) ft of
       Some i \<Rightarrow> (case by_device (cl_self cl) fd of
           None \<Rightarrow> None
         | Some local_folder \<Rightarrow>
             Some (ft\<lparr>ft_folders := (ft_folders ft)[i := populate pl cl fd peer_folder local_folder (ft_folders ft ! i)]\<rparr>))
     | None \<Rightarrow> prepare_folder pl cl fd peer_folder ft)"

text \<open>A change of the folder itself: its type or its pull order.\<close>

definition upsert_folder_in :: "platform \<Rightarrow> cluster \<Rightarrow> folder \<Rightarrow> folder_info \<Rightarrow> folder_info \<Rightarrow> folder_iterator \<Rightarrow> folder_iterator" where
  "upsert_folder_in pl cl fd peer_folder local_folder it =
     (let order = dfo_pull_order (fd_data fd); can_receive = (dfo_folder_type (fd_data fd) \<noteq> send);
          it = (if can_receive
                then if \<not> fq_can_receive it then populate pl cl fd peer_folder local_folder (it\<lparr>fq_seen_sequence := 0\<rparr>)
                     else if fq_order it \<noteq> order
                     then it\<lparr>fq_order := order, fq_queue := foldl (\<lambda>q f. queue_insert (cl_store cl) order f q) [] (fq_queue it)\<rparr>
                     else it
                else if fq_can_receive it then it\<lparr>fq_queue := []\<rparr> else it)
      in it\<lparr>fq_can_receive := can_receive\<rparr>)"

definition on_upsert_folder :: "platform \<Rightarrow> cluster \<Rightarrow> folder \<Rightarrow> file_iterator \<Rightarrow> file_iterator option" where
  "on_upsert_folder pl cl fd ft =
     (if list_ex (\<lambda>it. fq_folder it = fd_uuid fd) (ft_folders ft)
      then (case (by_device (ft_peer ft) fd, by_device (cl_self cl) fd) of
          (Some peer_folder, Some local_folder) \<Rightarrow>
            Some (ft\<lparr>ft_folders := map (\<lambda>it. if fq_folder it = fd_uuid fd
               then upsert_folder_in pl cl fd peer_folder local_folder it else it) (ft_folders ft)\<rparr>)
        | _ \<Rightarrow> None)
      else Some ft)"

definition on_remove :: "bytes \<Rightarrow> file_iterator \<Rightarrow> file_iterator" where
  "on_remove uuid ft = (case find (\<lambda>i. fq_folder (ft_folders ft ! i) = uuid) [0..<length (ft_folders ft)] of
       None \<Rightarrow> ft
     | Some i \<Rightarrow> ft\<lparr>ft_folders := take i (ft_folders ft) @ drop (Suc i) (ft_folders ft), ft_index := 0\<rparr>)"

definition recheck :: "platform \<Rightarrow> cluster \<Rightarrow> folder \<Rightarrow> addr \<Rightarrow> file_iterator \<Rightarrow> file_iterator option" where
  "recheck pl cl fd remote ft = (case find (\<lambda>i. fq_folder (ft_folders ft ! i) = fd_uuid fd) [0..<length (ft_folders ft)] of
       None \<Rightarrow> Some ft
     | Some i \<Rightarrow>
         let it = ft_folders ft ! i
         in if \<not> fq_can_receive it then Some ft
            else (case by_device (cl_self cl) fd of
                None \<Rightarrow> None
              | Some local_folder \<Rightarrow>
                  Some (with_queue i (enqueue pl cl fd local_folder (fq_order it) [remote] (fq_queue it)) ft)))"


subsection \<open>What is given out\<close>

lemma take_first_found:
  assumes "take_first pl cl fd local_folder q = (Some (f, local, action), q')"
  shows "\<exists>skipped. q = skipped @ f # q' \<and> \<not> is_locked (name_at (cl_store cl) f) cl
    \<and> local = by_name (cl_store cl) (name_at (cl_store cl) f) local_folder
    \<and> action = action_for pl cl fd local_folder f \<and> action \<noteq> ignore
    \<and> (\<forall>g \<in> set skipped. is_locked (name_at (cl_store cl) g) cl \<or> action_for pl cl fd local_folder g = ignore)"
  using assms
proof (induction q)
  case Nil
  then show ?case by simp
next
  case (Cons g q)
  show ?case
  proof (cases "\<not> is_locked (name_at (cl_store cl) g) cl \<and> action_for pl cl fd local_folder g \<noteq> ignore")
    case True
    then show ?thesis using Cons.prems by (auto intro!: exI [of _ "[]"])
  next
    case False
    then have "take_first pl cl fd local_folder q = (Some (f, local, action), q')" using Cons.prems by auto
    then obtain skipped where "q = skipped @ f # q' \<and> \<not> is_locked (name_at (cl_store cl) f) cl
      \<and> local = by_name (cl_store cl) (name_at (cl_store cl) f) local_folder
      \<and> action = action_for pl cl fd local_folder f \<and> action \<noteq> ignore
      \<and> (\<forall>g \<in> set skipped. is_locked (name_at (cl_store cl) g) cl \<or> action_for pl cl fd local_folder g = ignore)"
      using Cons.IH by blast
    then show ?thesis using False by (intro exI [of _ "g # skipped"]) auto
  qed
qed

lemma take_first_none:
  "take_first pl cl fd local_folder q = (None, q') \<Longrightarrow>
    q' = [] \<and> (\<forall>g \<in> set q. is_locked (name_at (cl_store cl) g) cl \<or> action_for pl cl fd local_folder g = ignore)"
  by (induction q) (auto split: if_splits)

text \<open>The folder of an iterator is open: its folder infos are there and files of it may be fetched now.\<close>

definition open_folder :: "cluster \<Rightarrow> device \<Rightarrow> bytes \<Rightarrow> folder_iterator \<Rightarrow> folder \<Rightarrow> folder_info \<Rightarrow> bool" where
  "open_folder cl peer dev it fd local_folder \<longleftrightarrow> folder_by_uuid (fq_folder it) cl = Some fd
     \<and> by_device (cl_self cl) fd = Some local_folder
     \<and> (case by_device dev fd of None \<Rightarrow> False | Some peer_folder \<Rightarrow> do_scan cl peer fd peer_folder)"

text \<open>The files of a queue that can be fetched.\<close>

definition available :: "platform \<Rightarrow> cluster \<Rightarrow> device \<Rightarrow> bytes \<Rightarrow> folder_iterator \<Rightarrow> addr set" where
  "available pl cl peer dev it = {f \<in> set (fq_queue it). \<exists>fd local_folder. open_folder cl peer dev it fd local_folder
     \<and> \<not> is_locked (name_at (cl_store cl) f) cl \<and> action_for pl cl fd local_folder f \<noteq> ignore}"

lemma available_cong:
  "fq_folder it' = fq_folder it \<Longrightarrow> available pl cl peer dev (it'\<lparr>fq_queue := q\<rparr>)
     = {f \<in> set q. \<exists>fd local_folder. open_folder cl peer dev it fd local_folder
         \<and> \<not> is_locked (name_at (cl_store cl) f) cl \<and> action_for pl cl fd local_folder f \<noteq> ignore}"
  by (simp add: available_def open_folder_def)


abbreviation avail :: "platform \<Rightarrow> cluster \<Rightarrow> device \<Rightarrow> file_iterator \<Rightarrow> nat \<Rightarrow> addr set" where
  "avail pl cl peer ft i \<equiv> available pl cl peer (ft_peer ft) (ft_folders ft ! i)"

text \<open>What a search leaves: the availability of every folder, but for the file that was found.\<close>

definition search_result :: "platform \<Rightarrow> cluster \<Rightarrow> device \<Rightarrow> file_iterator \<Rightarrow> nat set \<Rightarrow> found option \<Rightarrow> file_iterator \<Rightarrow> bool" where
  "search_result pl cl peer ft searched r ft' \<longleftrightarrow> ft_peer ft' = ft_peer ft \<and> length (ft_folders ft') = length (ft_folders ft)
     \<and> (case r of
          None \<Rightarrow> (\<forall>i \<in> searched. avail pl cl peer ft i = {})
            \<and> (\<forall>i < length (ft_folders ft). avail pl cl peer ft' i = avail pl cl peer ft i)
        | Some fn \<Rightarrow> (\<exists>i < length (ft_folders ft). fn_folder fn = fq_folder (ft_folders ft ! i) \<and> fn_file fn \<in> avail pl cl peer ft i
            \<and> (\<forall>j < length (ft_folders ft). avail pl cl peer ft' j = (if j = i then avail pl cl peer ft j - {fn_file fn} else avail pl cl peer ft j))))"

lemma with_queue_folders:
  "i < length (ft_folders ft) \<Longrightarrow> ft_folders (with_queue i q ft) ! j = (if j = i then (ft_folders ft ! i)\<lparr>fq_queue := q\<rparr> else ft_folders ft ! j)"
  by (simp add: with_queue_def nth_list_update)

lemma with_queue_simps [simp]:
  "ft_peer (with_queue i q ft) = ft_peer ft" "length (ft_folders (with_queue i q ft)) = length (ft_folders ft)"
  "ft_index (with_queue i q ft) = ft_index ft"
  by (simp_all add: with_queue_def)

lemma search_result_trans:
  assumes "search_result pl cl peer ft1 searched r ft'" and "ft_peer ft1 = ft_peer ft" "length (ft_folders ft1) = length (ft_folders ft)"
    and "\<And>i. i < length (ft_folders ft) \<Longrightarrow> fq_folder (ft_folders ft1 ! i) = fq_folder (ft_folders ft ! i) \<and> avail pl cl peer ft1 i = avail pl cl peer ft i"
    and "searched \<subseteq> {..<length (ft_folders ft)}" "avail pl cl peer ft i = {}"
  shows "search_result pl cl peer ft (insert i searched) r ft'"
proof (cases r)
  case None
  have "avail pl cl peer ft j = {}" if "j \<in> searched" for j
    using assms(1,4,5) that None by (force simp: search_result_def)
  moreover have "avail pl cl peer ft' j = avail pl cl peer ft j" if "j < length (ft_folders ft)" for j
    using assms(1-4) that None by (auto simp: search_result_def)
  ultimately show ?thesis using assms(1-3,6) None by (simp add: search_result_def)
next
  case (Some fn)
  then obtain k where "k < length (ft_folders ft1)" "fn_folder fn = fq_folder (ft_folders ft1 ! k)" "fn_file fn \<in> avail pl cl peer ft1 k"
    "\<forall>j < length (ft_folders ft1). avail pl cl peer ft' j = (if j = k then avail pl cl peer ft1 j - {fn_file fn} else avail pl cl peer ft1 j)"
    using assms(1) by (auto simp: search_result_def)
  then show ?thesis using Some assms by (auto simp: search_result_def intro!: exI [of _ k])
qed

lemma scan_folders_search:
  assumes "scan_folders pl cl peer n ft = Some (r, ft')" and "ft_index ft < length (ft_folders ft)"
    and "\<forall>it \<in> set (ft_folders ft). distinct (fq_queue it)"
  shows "search_result pl cl peer ft ((\<lambda>k. (ft_index ft + k) mod length (ft_folders ft)) ` {..<n}) r ft'"
  using assms
proof (induction n arbitrary: ft)
  case 0
  then show ?case by (auto simp: search_result_def)
next
  case (Suc n)
  define i where "i = ft_index ft"
  define it where "it = ft_folders ft ! i"
  define turn where "turn = ft\<lparr>ft_index := (i + 1) mod length (ft_folders ft)\<rparr>"
  have i: "i < length (ft_folders ft)" using Suc.prems(2) by (simp add: i_def)
  obtain fd where fd: "folder_by_uuid (fq_folder it) cl = Some fd"
    using Suc.prems(1) by (auto simp: Let_def it_def i_def split: if_splits option.splits)
  obtain peer_folder local_folder where infos: "by_device (ft_peer ft) fd = Some peer_folder" "by_device (cl_self cl) fd = Some local_folder"
    using Suc.prems(1) fd by (auto simp: Let_def it_def i_def split: if_splits option.splits)
  have opened: "open_folder cl peer (ft_peer ft) it gd lf \<longleftrightarrow> do_scan cl peer fd peer_folder \<and> gd = fd \<and> lf = local_folder" for gd lf
    using fd infos by (auto simp: open_folder_def)
  have indices: "(\<lambda>k. (ft_index ft + k) mod length (ft_folders ft)) ` {..<Suc n}
      = insert i ((\<lambda>k. (ft_index turn + k) mod length (ft_folders ft)) ` {..<n})"
  proof -
    have "(ft_index turn + k) mod length (ft_folders ft) = (ft_index ft + Suc k) mod length (ft_folders ft)" for k
      by (simp add: turn_def i_def mod_add_left_eq)
    then show ?thesis using i
      by (auto simp: i_def lessThan_Suc_eq_insert_0 image_image)
  qed
  have range: "(\<lambda>k. (ft_index turn + k) mod length (ft_folders ft)) ` {..<n} \<subseteq> {..<length (ft_folders ft)}"
  proof
    fix j assume "j \<in> (\<lambda>k. (ft_index turn + k) mod length (ft_folders ft)) ` {..<n}"
    then show "j \<in> {..<length (ft_folders ft)}" using i by (cases "length (ft_folders ft)") auto
  qed
  have turned: "(i + 1) mod length (ft_folders ft) < length (ft_folders ft)" using i by (intro mod_less_divisor) linarith
  consider (closed) "\<not> do_scan cl peer fd peer_folder"
    | (empty) q where "do_scan cl peer fd peer_folder" and "take_first pl cl fd local_folder (fq_queue it) = (None, q)"
    | (got) f l action q where "do_scan cl peer fd peer_folder"
        and "take_first pl cl fd local_folder (fq_queue it) = (Some (f, l, action), q)"
    by (metis prod.exhaust option.exhaust)
  then show ?case
  proof cases
    case closed
    have "scan_folders pl cl peer n turn = Some (r, ft')"
      using Suc.prems(1) fd infos closed by (auto simp: Let_def it_def i_def turn_def split: if_splits)
    then have "search_result pl cl peer turn ((\<lambda>k. (ft_index turn + k) mod length (ft_folders turn)) ` {..<n}) r ft'"
      using Suc.prems(3) turned by (intro Suc.IH) (simp_all add: turn_def)
    moreover have "avail pl cl peer ft i = {}" using closed opened by (auto simp: available_def it_def)
    ultimately show ?thesis unfolding indices using range
      by (intro search_result_trans [of pl cl peer turn]) (simp_all add: turn_def)
  next
    case empty
    let ?ft = "with_queue i q turn"
    have q: "q = []" and none: "\<forall>g \<in> set (fq_queue it). is_locked (name_at (cl_store cl) g) cl \<or> action_for pl cl fd local_folder g = ignore"
      using take_first_none [OF empty(2)] by auto
    have "scan_folders pl cl peer n ?ft = Some (r, ft')"
      using Suc.prems(1) fd infos empty by (auto simp: Let_def it_def i_def turn_def split: if_splits)
    moreover have "\<forall>it \<in> set (ft_folders ?ft). distinct (fq_queue it)"
      using Suc.prems(3) q i by (auto simp: with_queue_def turn_def dest!: set_update_subset_insert [THEN subsetD])
    ultimately have "search_result pl cl peer ?ft ((\<lambda>k. (ft_index ?ft + k) mod length (ft_folders ?ft)) ` {..<n}) r ft'"
      using turned by (intro Suc.IH) (simp_all add: turn_def)
    moreover have void: "avail pl cl peer ft i = {}" using none opened by (auto simp: available_def it_def)
    moreover have "fq_folder (ft_folders ?ft ! j) = fq_folder (ft_folders ft ! j) \<and> avail pl cl peer ?ft j = avail pl cl peer ft j" for j
      using i q void by (simp add: with_queue_folders turn_def) (auto simp: available_def)
    ultimately show ?thesis unfolding indices using range
      by (intro search_result_trans [of pl cl peer ?ft]) (simp_all add: turn_def)
  next
    case got
    have result: "r = Some \<lparr>fn_file = f, fn_folder = fq_folder it, fn_local = l, fn_action = action\<rparr>" "ft' = with_queue i q ft"
      using Suc.prems(1) fd infos got by (auto simp: Let_def it_def i_def split: if_splits)
    obtain skipped where found: "fq_queue it = skipped @ f # q" "\<not> is_locked (name_at (cl_store cl) f) cl"
        "action_for pl cl fd local_folder f \<noteq> ignore"
        "\<forall>g \<in> set skipped. is_locked (name_at (cl_store cl) g) cl \<or> action_for pl cl fd local_folder g = ignore"
      using take_first_found [OF got(2)] by auto
    have "distinct (fq_queue it)" using Suc.prems(3) i by (simp add: it_def)
    then have rest: "avail pl cl peer ft' i = avail pl cl peer ft i - {f}"
      using found i got(1) opened unfolding result
      by (simp add: with_queue_folders available_cong [of it it, OF refl] flip: it_def) (auto simp: available_def)
    have "f \<in> avail pl cl peer ft i" using found got(1) opened by (auto simp: available_def it_def)
    then show ?thesis using i rest unfolding result
      by (auto simp: search_result_def it_def with_queue_folders intro!: exI [of _ i])
  qed
qed


text \<open>
  C22: the next file to fetch. The search gives nothing only when no file of any queue can be
  fetched: each is locked, no longer wanted, or in a folder that is closed at present. Otherwise it
  gives a file that can be fetched, with its folder, and only this file is no longer available
  afterwards; none is lost.
\<close>

theorem file_iterator_exact:
  assumes "ft_next pl cl peer ft = Some (r, ft')" and "ft_index ft < length (ft_folders ft)"
    and "\<forall>it \<in> set (ft_folders ft). distinct (fq_queue it)"
  shows "case r of
      None \<Rightarrow> \<forall>i < length (ft_folders ft). available pl cl peer (ft_peer ft) (ft_folders ft ! i) = {}
    | Some fn \<Rightarrow> \<exists>i < length (ft_folders ft). fn_folder fn = fq_folder (ft_folders ft ! i)
        \<and> fn_file fn \<in> available pl cl peer (ft_peer ft) (ft_folders ft ! i)
        \<and> (\<forall>j < length (ft_folders ft). available pl cl peer (ft_peer ft) (ft_folders ft' ! j)
             = available pl cl peer (ft_peer ft) (ft_folders ft ! j) - (if j = i then {fn_file fn} else {}))"
proof -
  let ?n = "length (ft_folders ft)"
  have "j \<in> (\<lambda>k. (ft_index ft + k) mod ?n) ` {..<?n}" if "j < ?n" for j
  proof
    show "(j + ?n - ft_index ft) mod ?n \<in> {..<?n}" using that by (auto intro!: mod_less_divisor)
    have "(ft_index ft + (j + ?n - ft_index ft) mod ?n) mod ?n = (ft_index ft + (j + ?n - ft_index ft)) mod ?n"
      by (simp add: mod_add_right_eq)
    also have "\<dots> = j" using assms(2) that by simp
    finally show "j = (ft_index ft + (j + ?n - ft_index ft) mod ?n) mod ?n" by simp
  qed
  moreover have "search_result pl cl peer ft ((\<lambda>k. (ft_index ft + k) mod ?n) ` {..<?n}) r ft'"
    using assms unfolding ft_next_def by (rule scan_folders_search)
  ultimately show ?thesis
    by (cases r) (auto simp: search_result_def)
qed

lemma queue_insert_set: "set (queue_insert st order x q) \<subseteq> insert x (set q)"
  using set_takeWhileD [of _ "\<lambda>y. file_less st order y x" q] set_dropWhileD [of _ "\<lambda>y. file_less st order y x" q]
  by (auto simp: queue_insert_def)

lemma enqueue_set: "set (enqueue pl cl fd local_folder order files q) \<subseteq> set q \<union> set files"
proof (induction files arbitrary: q)
  case Nil
  then show ?case by (simp add: enqueue_def)
next
  case (Cons f files)
  let ?q = "if action_for pl cl fd local_folder f \<noteq> ignore then queue_insert (cl_store cl) order f q else q"
  have "set (enqueue pl cl fd local_folder order (f # files) q) = set (enqueue pl cl fd local_folder order files ?q)"
    by (simp add: enqueue_def)
  moreover have "set ?q \<subseteq> insert f (set q)" using queue_insert_set [of "cl_store cl" order f q] by auto
  ultimately show ?case using Cons.IH [of ?q] by auto
qed

text \<open>A queue holds a file only once.\<close>

lemma lex_less_irrefl: "\<not> lex_less s s"
  by (induction s) simp_all

lemma queue_insert_distinct:
  assumes "distinct q"
  shows "distinct (queue_insert st order x q)"
proof (cases "x \<in> set q")
  case True
  have "\<not> file_less st order x x" by (simp add: file_less_def lex_less_irrefl)
  then show ?thesis using True assms by (auto simp: queue_insert_def)
next
  case False
  let ?P = "\<lambda>y. file_less st order y x"
  have "set (takeWhile ?P q) \<inter> set (dropWhile ?P q) = {}"
    using assms takeWhile_dropWhile_id [of ?P q] by (metis distinct_append)
  then show ?thesis using False assms set_takeWhileD [of x ?P q] set_dropWhileD [of x ?P q]
    by (auto simp: queue_insert_def)
qed

lemma enqueue_distinct: "distinct q \<Longrightarrow> distinct (enqueue pl cl fd local_folder order files q)"
  unfolding enqueue_def by (induction files arbitrary: q) (simp_all add: queue_insert_distinct)

text \<open>
  When a peer has rebuilt its index, the files of the new index up to the sequence number seen
  of the old one are not taken into the queue, although the queue was emptied.
\<close>

theorem new_index_skipped:
  assumes "fo_index peer_folder \<noteq> fq_seen_index it" and "seq_at (cl_store cl) f \<le> fq_seen_sequence it"
  shows "f \<notin> set (fq_queue (populate pl cl fd peer_folder local_folder it))"
proof
  assume "f \<in> set (fq_queue (populate pl cl fd peer_folder local_folder it))"
  then have "f \<in> set (fm_range (seq_at (cl_store cl)) (fq_seen_sequence it + 1) (fo_max_sequence peer_folder) (fo_file_infos peer_folder))"
    using assms(1) subsetD [OF enqueue_set, of f pl cl fd local_folder "fq_order it" _ "[]"] by (simp add: populate_def Let_def)
  then show False using assms(2) by (auto simp: fm_range_def)
qed

subsection \<open>An example\<close>

definition shared_device :: device where
  "shared_device = (new_device \<lparr>did_value = [], did_sha256 = replicate 32 2\<rparr> ''peer'' [] (snd (make_offline 0)))
     \<lparr>dv_remote_view_map := view_push (replicate 32 2) ''f'' 5 1 Map.empty\<rparr>"

definition shared_folder :: folder where
  "shared_folder = (blank_folder [7] \<lparr>dfo_id = ''f'', dfo_label = [], dfo_ignore_permissions = False, dfo_ignore_delete = False,
       dfo_disable_temp_indexes = True, dfo_paused = False, dfo_scheduled = False, dfo_watched = False, dfo_path = ''/f'',
       dfo_folder_type = send_and_receive, dfo_pull_order = alphabetic, dfo_rescan_interval = 0\<rparr>)
     \<lparr>fd_folder_infos := [blank_folder_info sample_device [7] [1],
        (blank_folder_info shared_device [7] [2])\<lparr>fo_file_infos := [0], fo_max_sequence := 1, fo_index := 5\<rparr>]\<rparr>"

definition shared_cluster :: cluster where
  "shared_cluster = (new_cluster sample_device 0)\<lparr>cl_folders := [shared_folder],
     cl_store := put_file 0 ((blank_file (file_key_prefix # replicate 32 0))\<lparr>fi_name := ''a'', fi_sequence := 1\<rparr>) empty_store\<rparr>"

definition any_platform :: platform where
  "any_platform = \<lparr>pl_symlinks_supported = True, pl_path_supported = (\<lambda>_. True), pl_local_time = (\<lambda>_. (2025, 1, 1, 0, 0, 0))\<rparr>"

definition shared_iterator :: file_iterator where
  "shared_iterator = \<lparr>ft_peer = replicate 32 2, ft_index = 0, ft_folders = [\<lparr>fq_folder = [7], fq_queue = [0], fq_order = alphabetic,
     fq_seen_index = 5, fq_seen_sequence = 1, fq_can_receive = True\<rparr>]\<rparr>"

lemma shared_iterator_made: "make_file_iterator any_platform shared_cluster (replicate 32 2) = Some shared_iterator"
  by code_simp

lemma shared_next: "ft_next any_platform shared_cluster shared_device shared_iterator
    = Some (Some \<lparr>fn_file = 0, fn_folder = [7], fn_local = None, fn_action = remote_copy\<rparr>, with_queue 0 [] shared_iterator)"
  by code_simp

theorem file_iterator_exact_witness:
  "0 \<in> available any_platform shared_cluster shared_device (replicate 32 2) (ft_folders shared_iterator ! 0)"
  using file_iterator_exact [OF shared_next] by (simp add: shared_iterator_def)

theorem new_index_skipped_witness:
  "0 \<notin> set (fq_queue (populate any_platform shared_cluster shared_folder
     ((blank_folder_info shared_device [7] [2])\<lparr>fo_file_infos := [0], fo_max_sequence := 1, fo_index := 6\<rparr>)
     (blank_folder_info sample_device [7] [1]) (ft_folders shared_iterator ! 0)))"
  by (rule new_index_skipped) code_simp+

end
