(* ===== verification/Fs_Support.thy ===== *)
theory Fs_Support
  imports Path "HOL-Library.Signed_Division"
begin

text \<open>
  Helpers of the file system side: the division of a file into blocks, temporary names and relative
  paths (\<^verbatim>\<open>src/fs/utils.cpp\<close>), and the list of most recently used items behind the cache of open
  files (\<^verbatim>\<open>src/model/misc/lru_cache.hpp\<close>, \<^verbatim>\<open>src/fs/file_cache.cpp\<close>).
\<close>

subsection \<open>Block sizes\<close>

definition block_sizes :: "int list" where
  "block_sizes = map (\<lambda>i. 2 ^ i * 1024) [7..<15]"

definition max_blocks_count :: int where "max_blocks_count = 2000"

text \<open>The narrowing of a 64-bit value to \<open>std::int32_t\<close>.\<close>

definition narrow32 :: "int \<Rightarrow> int" where "narrow32 i = signed_take_bit 31 i"

definition division_count :: "int \<Rightarrow> int \<Rightarrow> int" where
  "division_count sz bs =
     (if bs \<noteq> 0
      then let count = narrow32 (sz sdiv bs) in if count * bs < sz then narrow32 (count + 1) else count
      else 0)"

text \<open>The previous block size is kept for files of at least the smallest block size.\<close>

definition kept_size :: "int \<Rightarrow> int \<Rightarrow> int" where
  "kept_size sz prev_size =
     (if hd block_sizes \<le> sz then case find (\<lambda>b. b = prev_size) block_sizes of Some b \<Rightarrow> b | None \<Rightarrow> 0 else 0)"

definition chosen_size :: "int \<Rightarrow> int" where
  "chosen_size sz = (case find (\<lambda>b. sz \<le> b * max_blocks_count) block_sizes of
       Some b \<Rightarrow> if sz < b then sz else b
     | None \<Rightarrow> 0)"

definition division_size :: "int \<Rightarrow> int \<Rightarrow> int" where
  "division_size sz prev_size =
     (let bs = kept_size sz prev_size;
          bs = (if bs = 0 then chosen_size sz else bs)
      in if bs = 0 \<and> sz \<noteq> 0 then last block_sizes else bs)"

definition get_block_size :: "int \<Rightarrow> int \<Rightarrow> int \<times> int" where
  "get_block_size sz prev_size =
     (let bs = division_size sz prev_size in (division_count sz bs, narrow32 bs))"

subsection \<open>Names\<close>

definition tmp_suffix :: string where "tmp_suffix = ''.syncspirit-tmp''"

definition make_temporal :: "string \<Rightarrow> string" where "make_temporal p = p @ tmp_suffix"

text \<open>The comparison from the end of the name, character by character.\<close>

fun same_chars :: "string \<Rightarrow> string \<Rightarrow> bool" where
  "same_chars (a # as) (b # bs) = (if a \<noteq> b then False else same_chars as bs)"
| "same_chars _ _ = True"

definition is_temporal :: "string \<Rightarrow> bool" where
  "is_temporal p =
     (if length tmp_suffix \<le> length p then same_chars (drop (length p - length tmp_suffix) p) tmp_suffix else False)"

text \<open>Both paths are given by their components; what follows the common start is the result.\<close>

fun relativize :: "string list \<Rightarrow> string list \<Rightarrow> string list" where
  "relativize (p # ps) (r # rs) = (if p = r then relativize ps rs else p # ps)"
| "relativize ps _ = ps"

subsection \<open>Most recently used items\<close>

text \<open>
  The sequence with a unique key. A new item goes to the front, an item whose key is present moves the present one to the
  front, and the last item leaves a list that has become too long.
\<close>

record 'a mru_list =
  il :: "'a list"
  max_items :: nat

definition to_front :: "'a \<Rightarrow> 'a list \<Rightarrow> 'a list" where
  "to_front x xs = x # remove1 x xs"

definition mru_put :: "('a \<Rightarrow> string) \<Rightarrow> 'a \<Rightarrow> 'a mru_list \<Rightarrow> 'a mru_list" where
  "mru_put key item m = (case find (\<lambda>x. key x = key item) (il m) of
       Some x \<Rightarrow> m\<lparr>il := to_front x (il m)\<rparr>
     | None \<Rightarrow> let xs = item # il m in m\<lparr>il := if max_items m < length xs then butlast xs else xs\<rparr>)"

definition mru_remove :: "('a \<Rightarrow> string) \<Rightarrow> 'a \<Rightarrow> 'a mru_list \<Rightarrow> 'a mru_list" where
  "mru_remove key item m = (case find (\<lambda>x. key x = key item) (il m) of
       Some x \<Rightarrow> m\<lparr>il := remove1 x (il m)\<rparr>
     | None \<Rightarrow> m)"

definition mru_get :: "('a \<Rightarrow> string) \<Rightarrow> string \<Rightarrow> 'a mru_list \<Rightarrow> 'a option \<times> 'a mru_list" where
  "mru_get key k m = (case find (\<lambda>x. key x = k) (il m) of
       Some x \<Rightarrow> (Some x, m\<lparr>il := to_front x (il m)\<rparr>)
     | None \<Rightarrow> (None, m))"

definition mru_clear :: "'a mru_list \<Rightarrow> 'a mru_list" where
  "mru_clear m = m\<lparr>il := []\<rparr>"

subsection \<open>The division covers the file\<close>

lemma block_sizes_list:
  "block_sizes = [131072, 262144, 524288, 1048576, 2097152, 4194304, 8388608, 16777216]"
  by (simp add: block_sizes_def upt_rec)

lemma narrow32_id: "- (2 ^ 31) \<le> i \<Longrightarrow> i < 2 ^ 31 \<Longrightarrow> narrow32 i = i"
  unfolding narrow32_def by (rule signed_take_bit_int_eq_self) auto

lemma block_size_in: "b \<in> set block_sizes \<Longrightarrow> 131072 \<le> b \<and> b \<le> 16777216"
  by (auto simp: block_sizes_list)

lemma kept_size_cases:
  "kept_size sz prev_size = (if 131072 \<le> sz \<and> prev_size \<in> set block_sizes then prev_size else 0)"
proof -
  have "hd block_sizes = 131072" by (simp add: block_sizes_list)
  then show ?thesis
    by (auto simp: kept_size_def find_None_iff_all dest!: find_SomeD split: option.split)
qed

lemma chosen_size_cases:
  assumes "0 < sz"
  obtains "chosen_size sz = sz" and "sz < 131072"
  | "chosen_size sz \<in> set block_sizes" and "chosen_size sz \<le> sz" and "sz \<le> chosen_size sz * 2000"
  | "chosen_size sz = 0" and "2000 * 16777216 < sz"
proof (cases "find (\<lambda>b. sz \<le> b * max_blocks_count) block_sizes")
  case None
  then have "\<forall>b \<in> set block_sizes. b * 2000 < sz" by (auto simp: find_None_iff_all max_blocks_count_def)
  then have "2000 * 16777216 < sz" by (simp add: block_sizes_list)
  then show ?thesis using None that(3) by (simp add: chosen_size_def)
next
  case (Some b)
  then have b: "b \<in> set block_sizes" "sz \<le> b * 2000"
    by (auto dest!: find_SomeD simp: max_blocks_count_def)
  have small: "b = 131072" if "sz < b"
  proof (rule ccontr)
    assume "b \<noteq> 131072"
    then have "sz < 131072 * 2000" using that block_size_in [OF b(1)] by linarith
    then have "find (\<lambda>b. sz \<le> b * max_blocks_count) block_sizes = Some 131072"
      by (simp add: block_sizes_list max_blocks_count_def)
    then show False using Some \<open>b \<noteq> 131072\<close> by simp
  qed
  show ?thesis
  proof (cases "sz < b")
    case True
    then show ?thesis using Some small that(1) by (simp add: chosen_size_def)
  next
    case False
    then show ?thesis using Some b that(2) by (simp add: chosen_size_def)
  qed
qed

lemma division_size_cases:
  assumes "0 < sz"
  obtains (small) "division_size sz prev_size = sz" and "sz < 131072"
  | (kept) "division_size sz prev_size = prev_size" and "prev_size \<in> set block_sizes" and "131072 \<le> sz"
  | (chosen) "division_size sz prev_size \<in> set block_sizes" and "sz \<le> division_size sz prev_size * 2000"
      and "131072 \<le> sz" and "prev_size \<notin> set block_sizes"
  | (large) "division_size sz prev_size = 16777216" and "2000 * 16777216 < sz" and "prev_size \<notin> set block_sizes"
proof (cases "131072 \<le> sz \<and> prev_size \<in> set block_sizes")
  case True
  then have "prev_size \<noteq> 0" using block_size_in [of prev_size] by auto
  then show ?thesis using True kept by (simp add: division_size_def kept_size_cases)
next
  case False
  then have ds: "division_size sz prev_size = (if chosen_size sz = 0 then 16777216 else chosen_size sz)"
    using assms by (auto simp: division_size_def kept_size_cases block_sizes_list)
  from assms show ?thesis
  proof (cases rule: chosen_size_cases)
    case 1
    then show ?thesis using ds assms small by simp
  next
    case 2
    then show ?thesis using ds block_size_in [OF 2(1)] False chosen by auto
  next
    case 3
    then show ?thesis using ds False large by auto
  qed
qed

lemma division_exact:
  assumes "0 < bs" and "0 < sz" and "sz \<le> (2 ^ 31 - 1) * bs"
  shows "division_count sz bs = (sz + bs - 1) div bs"
proof -
  define q r where "q = sz div bs" and "r = sz mod bs"
  have sz: "sz = q * bs + r" and r: "0 \<le> r" "r < bs" and q: "0 \<le> q"
    using assms by (auto simp: q_def r_def pos_imp_zdiv_nonneg_iff)
  have "q * bs \<le> (2 ^ 31 - 1) * bs" using sz r assms(3) by linarith
  then have q31: "q \<le> 2 ^ 31 - 1" using assms(1) by (meson mult_le_cancel_right not_less)
  have edge: "q \<noteq> 2 ^ 31 - 1" if "r \<noteq> 0" using that sz r assms(3) by auto
  have "sz sdiv bs = q" using assms by (simp add: q_def signed_divide_int_def)
  moreover have "(sz + bs - 1) div bs = (if r = 0 then q else q + 1)"
  proof (cases "r = 0")
    case True
    then have "(sz + bs - 1) div bs = (bs - 1 + q * bs) div bs" using sz by (simp add: algebra_simps)
    also have "\<dots> = q" using assms(1) by simp
    finally show ?thesis using True by simp
  next
    case False
    then have "(sz + bs - 1) div bs = (r - 1 + (q + 1) * bs) div bs" using sz by (simp add: algebra_simps)
    also have "\<dots> = (r - 1) div bs + (q + 1)" using assms(1) by (intro div_mult_self1 [THEN trans]) auto
    also have "\<dots> = q + 1" using False r by simp
    finally show ?thesis using False by simp
  qed
  moreover have "narrow32 q = q" "r \<noteq> 0 \<Longrightarrow> narrow32 (q + 1) = q + 1"
    using q q31 edge by (auto intro!: narrow32_id)
  ultimately show ?thesis using assms(1) sz r by (auto simp: division_count_def Let_def)
qed

lemma ceiling_bounds:
  fixes sz bs :: int
  assumes "0 < bs"
  shows "((sz + bs - 1) div bs - 1) * bs < sz" and "sz \<le> (sz + bs - 1) div bs * bs"
proof -
  have "(sz + bs - 1) div bs * bs + (sz + bs - 1) mod bs = sz + bs - 1" by simp
  moreover have "0 \<le> (sz + bs - 1) mod bs" "(sz + bs - 1) mod bs < bs" using assms by simp_all
  ultimately show "((sz + bs - 1) div bs - 1) * bs < sz" and "sz \<le> (sz + bs - 1) div bs * bs"
    unfolding left_diff_distrib by linarith+
qed

lemma division_size_range:
  assumes "0 < sz" and "sz < 2 ^ 47"
  shows "0 < division_size sz prev_size \<and> division_size sz prev_size \<le> 2 ^ 24 \<and> sz \<le> (2 ^ 31 - 1) * division_size sz prev_size"
  using assms(1)
proof (cases rule: division_size_cases [of sz prev_size])
  case small
  then show ?thesis using assms by simp
next
  case kept
  then show ?thesis using assms block_size_in [OF kept(2)] by simp
next
  case chosen
  then show ?thesis using assms block_size_in [OF chosen(1)] by simp
next
  case large
  then show ?thesis using assms by simp
qed

lemma get_block_size_division:
  assumes "0 < sz" and "sz < 2 ^ 47"
  shows "get_block_size sz prev_size =
    ((sz + division_size sz prev_size - 1) div division_size sz prev_size, division_size sz prev_size)"
  using division_size_range [OF assms, of prev_size] division_exact [of "division_size sz prev_size" sz] assms
  by (simp add: get_block_size_def Let_def narrow32_id)

lemma division_count_limit:
  assumes "0 < sz" and "prev_size \<notin> set block_sizes" and "sz \<le> 2000 * 2 ^ 24"
  shows "sz \<le> division_size sz prev_size * 2000"
  using assms(1)
  by (cases rule: division_size_cases [of sz prev_size]) (use assms in auto)

text \<open>
  C40: A file that is not empty and that is shorter than \<open>2 ^ 47\<close> bytes is divided into blocks that cover it: all blocks but the last
  are full and the last one has at least one byte, no block exceeds 16 MiB, and a file that the largest block size can hold in 2000 blocks
  has no more than 2000 blocks unless the block size it had before is kept. An empty file has no blocks.
\<close>

theorem block_division_covers:
  assumes "0 < sz" and "sz < 2 ^ 47" and "get_block_size sz prev_size = (count, bs)"
  shows "1 \<le> count \<and> (count - 1) * bs < sz \<and> sz \<le> count * bs \<and> bs \<le> 2 ^ 24 \<and>
    (prev_size \<notin> set block_sizes \<and> sz \<le> 2000 * 2 ^ 24 \<longrightarrow> count \<le> 2000) \<and>
    (prev_size \<in> set block_sizes \<and> 2 ^ 17 \<le> sz \<longrightarrow> bs = prev_size) \<and>
    get_block_size 0 prev_size = (0, 0)"
proof -
  let ?d = "division_size sz prev_size"
  have d: "0 < ?d" "?d \<le> 2 ^ 24" using division_size_range [OF assms(1,2)] by blast+
  have c: "count = (sz + ?d - 1) div ?d" and bs: "bs = ?d"
    using get_block_size_division [OF assms(1,2), of prev_size] assms(3) by auto
  note cover = ceiling_bounds [OF d(1), of sz]
  have "1 \<le> count" using cover(2) assms(1) d(1) unfolding c by (smt (verit) mult_nonpos_nonneg)
  moreover have "count \<le> 2000" if "prev_size \<notin> set block_sizes" "sz \<le> 2000 * 2 ^ 24"
  proof -
    have "(count - 1) * ?d < 2000 * ?d"
      using cover(1) division_count_limit [OF assms(1) that] unfolding c by linarith
    then show ?thesis using d(1) by simp
  qed
  moreover have "?d = prev_size" if "prev_size \<in> set block_sizes" "2 ^ 17 \<le> sz"
    using assms(1) by (cases rule: division_size_cases [of sz prev_size]) (use that in auto)
  moreover have "get_block_size 0 prev_size = (0, 0)"
    by (simp add: get_block_size_def division_size_def kept_size_cases chosen_size_def block_sizes_list
        max_blocks_count_def division_count_def narrow32_def)
  ultimately show ?thesis using cover d unfolding c bs by blast
qed

theorem block_division_covers_witness:
  "get_block_size 1000000 0 = (8, 131072) \<and> (8 - 1) * 131072 < (1000000 :: int) \<and> 1000000 \<le> 8 * (131072 :: int)"
proof -
  have v: "get_block_size 1000000 0 = (8, 131072)" by code_simp
  show ?thesis using block_division_covers [OF _ _ v] v by simp
qed

subsection \<open>Names and recent items\<close>

lemma same_chars_eq: "length a = length b \<Longrightarrow> same_chars a b \<longleftrightarrow> a = b"
  by (induction a b rule: same_chars.induct) auto

lemma is_temporal_iff: "is_temporal p \<longleftrightarrow> (\<exists>q. p = make_temporal q)"
proof -
  have "drop (length p - length tmp_suffix) p = tmp_suffix \<longleftrightarrow> (\<exists>q. p = q @ tmp_suffix)"
    if "length tmp_suffix \<le> length p"
    by (metis append_take_drop_id append_eq_conv_conj length_append add_diff_cancel_right')
  moreover have "\<not> (\<exists>q. p = q @ tmp_suffix)" if "\<not> length tmp_suffix \<le> length p" using that by auto
  ultimately show ?thesis by (auto simp: is_temporal_def make_temporal_def same_chars_eq)
qed

lemma relativize_below: "relativize (root @ p) root = p"
  by (induction root) auto

text \<open>The invariant of the list of recent items: the keys are distinct and there are not too many.\<close>

definition mru_ok :: "('a \<Rightarrow> string) \<Rightarrow> 'a mru_list \<Rightarrow> bool" where
  "mru_ok key m \<longleftrightarrow> distinct (map key (il m)) \<and> length (il m) \<le> max_items m"

lemma to_front_keys:
  assumes "x \<in> set xs" and "distinct (map key xs)"
  shows "distinct (map key (to_front x xs)) \<and> length (to_front x xs) = length xs \<and> set (to_front x xs) = set xs"
  using assms length_pos_if_in_set [OF assms(1)]
  by (auto simp: to_front_def distinct_map distinct_remove1 length_remove1 inj_on_def dest: notin_set_remove1)

lemma distinct_map_butlast: "distinct (map f xs) \<Longrightarrow> distinct (map f (butlast xs))"
  by (metis distinct_butlast map_butlast)

lemma mru_ok_put: "mru_ok key m \<Longrightarrow> mru_ok key (mru_put key x m)"
  by (auto simp: mru_ok_def mru_put_def Let_def find_None_iff_all distinct_map_butlast to_front_keys
      dest: in_set_butlastD dest!: find_SomeD split: option.splits)

lemma mru_ok_get: "mru_ok key m \<Longrightarrow> mru_ok key (snd (mru_get key k m))"
  by (auto simp: mru_ok_def mru_get_def to_front_keys dest!: find_SomeD split: option.splits)

lemma mru_ok_remove: "mru_ok key m \<Longrightarrow> mru_ok key (mru_remove key x m)"
  by (auto simp: mru_ok_def mru_remove_def length_remove1 distinct_map distinct_remove1 inj_on_def
      dest: notin_set_remove1 split: option.splits)

end
