(* ===== verification/Watcher.thy ===== *)
theory Watcher
  imports Fs_Support Messages "HOL-Library.Char_ord" "HOL-Library.List_Lexorder"
begin

text \<open>
  Changes that the operating system reports for watched folders: the sets of pending updates
  (\<^verbatim>\<open>src/fs/updates_support.cpp\<close>), the mediator that hides the changes the program makes itself
  (\<^verbatim>\<open>src/fs/updates_mediator.cpp\<close>), and the collection of changes over a retention interval
  (\<^verbatim>\<open>src/fs/platform/watcher_base.cpp\<close>). Instants and durations are numbers, \<open>None\<close> is
  \<open>not_a_date_time\<close>.
\<close>

subsection \<open>Sets of updates\<close>

definition ut_CREATED_1 :: u32 where "ut_CREATED_1 = 0b00001"
definition ut_CREATED :: u32 where "ut_CREATED = 0b00010"
definition ut_DELETED :: u32 where "ut_DELETED = 0b00100"
definition ut_META :: u32 where "ut_META = 0b01000"
definition ut_CONTENT :: u32 where "ut_CONTENT = 0b10000"

lemmas ut_values = ut_CREATED_1_def ut_CREATED_def ut_DELETED_def ut_META_def ut_CONTENT_def

datatype update_type = created | deleted | meta | content

definition type_value :: "update_type \<Rightarrow> u32" where
  "type_value t = (case t of created \<Rightarrow> ut_CREATED | deleted \<Rightarrow> ut_DELETED | meta \<Rightarrow> ut_META | content \<Rightarrow> ut_CONTENT)"

record file_update =
  fu_path :: string
  fu_prev_path :: string
  fu_update_type :: u32
  fu_requires_refinement :: bool

text \<open>
  The ordered set whose comparator looks at the paths: the elements in the order of their paths, and
  an insertion that leaves the set alone when the path is present.
\<close>

type_synonym file_updates = "file_update list"

definition us_find :: "string \<Rightarrow> file_updates \<Rightarrow> file_update option" where
  "us_find p us = find (\<lambda>u. fu_path u = p) us"

definition us_erase :: "string \<Rightarrow> file_updates \<Rightarrow> file_updates" where
  "us_erase p us = filter (\<lambda>u. fu_path u \<noteq> p) us"

definition us_emplace :: "file_update \<Rightarrow> file_updates \<Rightarrow> file_updates" where
  "us_emplace u us = (case us_find (fu_path u) us of
       Some _ \<Rightarrow> us
     | None \<Rightarrow> takeWhile (\<lambda>v. fu_path v < fu_path u) us @ u # dropWhile (\<lambda>v. fu_path v < fu_path u) us)"

text \<open>A change of a mutable field of an element.\<close>

definition us_modify :: "string \<Rightarrow> (file_update \<Rightarrow> file_update) \<Rightarrow> file_updates \<Rightarrow> file_updates" where
  "us_modify p f us = map (\<lambda>u. if fu_path u = p then f u else u) us"

subsection \<open>The mediator\<close>

record updates =
  up_updates :: file_updates
  up_deadline :: "int option"

record updates_mediator =
  um_interval :: int
  um_next :: updates
  um_postponed :: updates
  um_enabled :: bool

text \<open>The local function \<open>insert\<close> of \<open>mask\<close>: a path that is present has its counter increased.\<close>

definition count_events :: "u32 \<Rightarrow> string \<Rightarrow> file_updates \<Rightarrow> file_updates" where
  "count_events counter p us = (case us_find p us of
       None \<Rightarrow> us_emplace \<lparr>fu_path = p, fu_prev_path = [], fu_update_type = counter, fu_requires_refinement = False\<rparr> us
     | Some _ \<Rightarrow> us_modify p (\<lambda>u. u\<lparr>fu_update_type := fu_update_type u + counter\<rparr>) us)"

definition count_both :: "u32 \<Rightarrow> string \<Rightarrow> string \<Rightarrow> updates \<Rightarrow> updates" where
  "count_both counter p prev_path target =
     (let us = count_events counter p (up_updates target);
          us = (if prev_path \<noteq> [] \<and> \<not> is_temporal prev_path then count_events counter prev_path us else us)
      in target\<lparr>up_updates := us\<rparr>)"

definition mask :: "string \<Rightarrow> string \<Rightarrow> int \<Rightarrow> updates_mediator \<Rightarrow> updates_mediator" where
  "mask p prev_path deadline m =
     (if \<not> um_enabled m then m
      else if is_temporal p then m
      else case up_deadline (um_next m) of
          None \<Rightarrow> m\<lparr>um_next := count_both 1 p prev_path ((um_next m)\<lparr>up_deadline := Some deadline\<rparr>)\<rparr>
        | Some d \<Rightarrow>
            if d = deadline then m\<lparr>um_next := count_both 1 p prev_path (um_next m)\<rparr>
            else
              let next_us = up_updates (um_next m);
                  counter = (case us_find p next_us of Some u \<Rightarrow> 1 + fu_update_type u | None \<Rightarrow> 1);
                  next_us = us_erase p next_us;
                  target = um_postponed m;
                  target = (if up_updates target = [] then target\<lparr>up_deadline := Some (d + um_interval m)\<rparr> else target)
              in m\<lparr>um_next := (um_next m)\<lparr>up_updates := next_us\<rparr>, um_postponed := count_both counter p prev_path target\<rparr>)"

text \<open>One candidate set of \<open>is_masked\<close>: the events found and the set with one event less.\<close>

definition take_event :: "string \<Rightarrow> updates \<Rightarrow> (u32 \<times> updates) option" where
  "take_event p target = (case up_deadline target of
       None \<Rightarrow> None
     | Some _ \<Rightarrow> (case us_find p (up_updates target) of
           None \<Rightarrow> None
         | Some u \<Rightarrow>
             let events = fu_update_type u;
                 us = us_modify p (\<lambda>u. u\<lparr>fu_update_type := fu_update_type u - 1\<rparr>) (up_updates target);
                 us = (if events - 1 = 0 then us_erase p us else us)
             in Some (events, target\<lparr>up_updates := us\<rparr>)))"

definition is_masked :: "string \<Rightarrow> updates_mediator \<Rightarrow> u32 \<times> updates_mediator" where
  "is_masked p m = (case take_event p (um_postponed m) of
       Some (events, t) \<Rightarrow> (events, m\<lparr>um_postponed := t\<rparr>)
     | None \<Rightarrow> (case take_event p (um_next m) of
           Some (events, t) \<Rightarrow> (events, m\<lparr>um_next := t\<rparr>)
         | None \<Rightarrow> (0, m)))"

definition clean_expired :: "updates_mediator \<Rightarrow> bool \<times> updates_mediator" where
  "clean_expired m =
     (let m = m\<lparr>um_next := um_postponed m, um_postponed := \<lparr>up_updates = [], up_deadline = None\<rparr>\<rparr>
      in (up_updates (um_next m) \<noteq> [], m))"

definition enable :: "bool \<Rightarrow> updates_mediator \<Rightarrow> updates_mediator" where
  "enable value m = m\<lparr>um_enabled := value\<rparr>"

subsection \<open>Merging of changes\<close>

record folder_update =
  fo_folder_id :: string
  fo_updates :: file_updates

record bulk_update =
  bu_deadline :: "int option"
  bu_updates :: "folder_update list"

definition CONTENT_LIKE :: u32 where "CONTENT_LIKE = ut_CONTENT OR ut_CREATED OR ut_CREATED_1"

text \<open>
  The updates of a folder, and those of the same folder that are about to be sent. An earlier record is in one of them: \<open>here\<close>
  says in which.
\<close>

type_synonym merged = "file_updates \<times> file_updates"

definition erase_prev :: "bool \<Rightarrow> file_update \<Rightarrow> merged \<Rightarrow> merged" where
  "erase_prev here prev us =
     (if here then (us_erase (fu_path prev) (fst us), snd us) else (fst us, us_erase (fu_path prev) (snd us)))"

text \<open>A change and a rename of the same file become a deletion and a creation.\<close>

definition split_rename :: "bool \<Rightarrow> file_update \<Rightarrow> string \<Rightarrow> file_update \<Rightarrow> merged \<Rightarrow> merged" where
  "split_rename here prev old_path new us =
     (let new_del = \<lparr>fu_path = old_path, fu_prev_path = [], fu_update_type = ut_DELETED,
            fu_requires_refinement = fu_requires_refinement prev\<rparr>;
          us = erase_prev here prev us
      in (us_emplace (new\<lparr>fu_update_type := ut_CREATED_1, fu_prev_path := []\<rparr>) (us_emplace new_del (fst us)), snd us))"

definition merge_record :: "bool \<Rightarrow> file_update \<Rightarrow> file_update \<Rightarrow> merged \<Rightarrow> bool \<times> merged" where
  "merge_record here prev new us =
     (if fu_update_type prev = ut_META \<and> fu_update_type new = ut_META \<and> fu_prev_path prev = fu_path new then (False, us)
      else if fu_update_type prev AND CONTENT_LIKE \<noteq> 0 \<and> fu_update_type new AND ut_META \<noteq> 0 \<and> fu_prev_path new \<noteq> []
      then (True, split_rename here prev (fu_prev_path new) new us)
      else
        let new = (if fu_update_type prev AND CONTENT_LIKE \<noteq> 0 \<and> fu_update_type new AND ut_META \<noteq> 0
                   then new\<lparr>fu_update_type := fu_update_type prev\<rparr> else new)
        in if fu_update_type prev AND ut_META \<noteq> 0 \<and> fu_prev_path prev \<noteq> [] \<and> fu_update_type new AND CONTENT_LIKE \<noteq> 0
           then (True, split_rename here prev (fu_prev_path prev) new us)
           else
             let new = (if fu_prev_path prev \<noteq> [] then new\<lparr>fu_prev_path := fu_prev_path prev\<rparr> else new);
                 new = (if fu_update_type prev AND ut_CREATED_1 \<noteq> 0
                        then new\<lparr>fu_update_type := fu_update_type new OR ut_CREATED_1\<rparr> else new);
                 new = (if fu_requires_refinement prev \<and> \<not> fu_requires_refinement new
                        then new\<lparr>fu_requires_refinement := True\<rparr> else new);
                 us = erase_prev here prev us
             in (True, (us_emplace new (fst us), snd us)))"

text \<open>The places where an earlier record is looked for, in their order.\<close>

definition earlier_record :: "file_update \<Rightarrow> merged \<Rightarrow> (bool \<times> file_update) option" where
  "earlier_record new us = (case us_find (fu_path new) (fst us) of
       Some u \<Rightarrow> Some (True, u)
     | None \<Rightarrow> (case us_find (fu_prev_path new) (fst us) of
         Some u \<Rightarrow> Some (True, u)
       | None \<Rightarrow> (case us_find (fu_path new) (snd us) of
           Some u \<Rightarrow> Some (False, u)
         | None \<Rightarrow> (case us_find (fu_prev_path new) (snd us) of
             Some u \<Rightarrow> Some (False, u)
           | None \<Rightarrow> None))))"

definition update_record :: "file_update \<Rightarrow> merged \<Rightarrow> bool \<times> merged" where
  "update_record new us = (case earlier_record new us of
       Some (here, prev) \<Rightarrow> merge_record here prev new us
     | None \<Rightarrow> (True, (us_emplace new (fst us), snd us)))"

definition make_record :: "string \<Rightarrow> update_type \<Rightarrow> string \<Rightarrow> bool \<Rightarrow> file_update" where
  "make_record relative_path type prev_path_rel requires_refinement =
     \<lparr>fu_path = relative_path, fu_prev_path = prev_path_rel,
      fu_update_type = (if type = created then ut_CREATED_1 else type_value type),
      fu_requires_refinement = requires_refinement\<rparr>"

subsection \<open>Changes of a folder\<close>

text \<open>What the file system answers; \<open>None\<close> is an error. The last field is the virtual \<open>accept_update\<close> of the platform.\<close>

datatype file_kind = regular | directory | symlink | other_kind

record fs_view =
  fv_symlink_status :: "string \<Rightarrow> (file_kind \<times> u32) option"
  fv_file_size :: "string \<Rightarrow> int option"
  fv_last_write_time :: "string \<Rightarrow> int option"
  fv_read_symlink :: "string \<Rightarrow> string option"
  fv_accept_update :: "file_update \<Rightarrow> file_kind \<times> u32 \<Rightarrow> bool"

record fs_file_info =
  ff_file :: pr_file
  ff_prev_path :: string
  ff_update_reason :: update_type
  ff_requires_refinement :: bool

definition empty_pr_file :: pr_file where
  "empty_pr_file = \<lparr>pf_name = [], pf_type = FILE, pf_size = 0, pf_permissions = 0, pf_modified_s = 0, pf_modified_ns = 0,
     pf_modified_by = 0, pf_deleted = False, pf_invalid = False, pf_no_permissions = False, pf_version = [], pf_sequence = 0,
     pf_block_size = 0, pf_blocks = [], pf_symlink_target = []\<rparr>"

definition full_name :: "string \<Rightarrow> string \<Rightarrow> string" where
  "full_name folder_path sub = folder_path @ (if sub \<noteq> [] then ''/'' @ sub else [])"

text \<open>What is read of a file that exists.\<close>

definition describe :: "fs_view \<Rightarrow> string \<Rightarrow> file_kind \<times> u32 \<Rightarrow> pr_file option" where
  "describe fv p status =
     (let r = empty_pr_file\<lparr>pf_permissions := snd status\<rparr>
      in case fst status of
          regular \<Rightarrow> (case fv_file_size fv p of None \<Rightarrow> None | Some sz \<Rightarrow>
             (case fv_last_write_time fv p of None \<Rightarrow> None | Some t \<Rightarrow>
                Some (r\<lparr>pf_modified_s := t, pf_type := FILE, pf_size := sz\<rparr>)))
        | directory \<Rightarrow> Some (r\<lparr>pf_type := DIRECTORY\<rparr>)
        | symlink \<Rightarrow> (case fv_read_symlink fv p of None \<Rightarrow> None
             | Some target \<Rightarrow> Some (r\<lparr>pf_symlink_target := target, pf_type := SYMLINK\<rparr>))
        | other_kind \<Rightarrow> None)"

definition reason_of :: "u32 \<Rightarrow> update_type" where
  "reason_of t = (if t AND (ut_CREATED OR ut_CREATED_1) \<noteq> 0 then created
     else if t AND ut_CONTENT \<noteq> 0 then content else meta)"

text \<open>
  One update of \<open>FU::make\<close>, the mask apart: \<open>None\<close> when the update is skipped. The name, the previous name and the reason of a change.
\<close>

definition change_of :: "fs_view \<Rightarrow> string \<Rightarrow> file_update \<Rightarrow> fs_file_info option" where
  "change_of fv folder_path u =
     (if fu_update_type u AND ut_DELETED \<noteq> 0 then
        if fu_update_type u AND ut_CREATED_1 \<noteq> 0 then None
        else if fu_prev_path u \<noteq> []
        then Some \<lparr>ff_file = empty_pr_file\<lparr>pf_deleted := True, pf_name := fu_prev_path u\<rparr>, ff_prev_path = [],
               ff_update_reason = deleted, ff_requires_refinement = fu_requires_refinement u\<rparr>
        else Some \<lparr>ff_file = empty_pr_file\<lparr>pf_deleted := True, pf_name := fu_path u\<rparr>, ff_prev_path = [],
               ff_update_reason = deleted, ff_requires_refinement = fu_requires_refinement u\<rparr>
      else
        let p = folder_path @ ''/'' @ fu_path u
        in case fv_symlink_status fv p of
            None \<Rightarrow> None
          | Some status \<Rightarrow>
              if \<not> fv_accept_update fv u status then None
              else case describe fv p status of
                  None \<Rightarrow> None
                | Some r \<Rightarrow> Some \<lparr>ff_file = r\<lparr>pf_name := fu_path u\<rparr>, ff_prev_path = fu_prev_path u,
                     ff_update_reason = reason_of (fu_update_type u), ff_requires_refinement = fu_requires_refinement u\<rparr>)"

text \<open>The assertion of the constructor of \<open>payload::file_info_t\<close>.\<close>

definition info_asserted :: "fs_file_info \<Rightarrow> bool" where
  "info_asserted i \<longleftrightarrow> ff_prev_path i = [] \<or> ff_update_reason i = meta"

text \<open>The changes of a folder; \<open>None\<close> is a failed assertion.\<close>

fun make_changes :: "fs_view \<Rightarrow> string \<Rightarrow> file_updates \<Rightarrow> updates_mediator \<Rightarrow> (fs_file_info list \<times> updates_mediator) option" where
  "make_changes fv folder_path [] m = Some ([], m)"
| "make_changes fv folder_path (u # us) m =
     (let (events, m) = is_masked (full_name folder_path (fu_path u)) m
      in if events \<noteq> 0 then make_changes fv folder_path us m
         else case change_of fv folder_path u of
             None \<Rightarrow> make_changes fv folder_path us m
           | Some i \<Rightarrow> if \<not> info_asserted i then None
               else map_option (\<lambda>(is, m). (i # is, m)) (make_changes fv folder_path us m))"

subsection \<open>The watcher\<close>

record watcher =
  wa_retension :: int
  wa_next :: bulk_update
  wa_postponed :: bulk_update
  wa_mediator :: updates_mediator
  wa_folders :: "string \<rightharpoonup> string"

definition bu_find :: "string \<Rightarrow> bulk_update \<Rightarrow> folder_update option" where
  "bu_find fid b = find (\<lambda>f. fo_folder_id f = fid) (bu_updates b)"

text \<open>\<open>prepare\<close>: the folder's entry is appended when there is none.\<close>

definition prepare :: "string \<Rightarrow> bulk_update \<Rightarrow> bulk_update" where
  "prepare fid b = (case bu_find fid b of Some _ \<Rightarrow> b
     | None \<Rightarrow> b\<lparr>bu_updates := bu_updates b @ [\<lparr>fo_folder_id = fid, fo_updates = []\<rparr>]\<rparr>)"

definition bu_set :: "string \<Rightarrow> file_updates \<Rightarrow> bulk_update \<Rightarrow> bulk_update" where
  "bu_set fid us b = b\<lparr>bu_updates := map (\<lambda>f. if fo_folder_id f = fid then f\<lparr>fo_updates := us\<rparr> else f) (bu_updates b)\<rparr>"

definition bu_get :: "string \<Rightarrow> bulk_update \<Rightarrow> file_updates" where
  "bu_get fid b = (case bu_find fid b of Some f \<Rightarrow> fo_updates f | None \<Rightarrow> [])"

definition has_changes :: "bulk_update \<Rightarrow> bool" where
  "has_changes b = (\<exists>f \<in> set (bu_updates b). fo_updates f \<noteq> [])"

text \<open>
  The folder of an update has to be watched still: \<open>at\<close> throws otherwise, and the exception ends the program. \<open>None\<close> is
  this end or a failed assertion.
\<close>

fun make_folders :: "fs_view \<Rightarrow> (string \<rightharpoonup> string) \<Rightarrow> folder_update list \<Rightarrow> updates_mediator \<Rightarrow>
    ((string \<times> fs_file_info list) list \<times> updates_mediator) option" where
  "make_folders fv paths [] m = Some ([], m)"
| "make_folders fv paths (f # fs) m = (case paths (fo_folder_id f) of
       None \<Rightarrow> None
     | Some path \<Rightarrow> (case make_changes fv path (fo_updates f) m of
       None \<Rightarrow> None
     | Some (is, m) \<Rightarrow> map_option (\<lambda>(r, m). ((if is = [] then [] else [(fo_folder_id f, is)]) @ r, m)) (make_folders fv paths fs m)))"

definition bulk_make :: "fs_view \<Rightarrow> (string \<rightharpoonup> string) \<Rightarrow> bulk_update \<Rightarrow> updates_mediator \<Rightarrow>
    ((string \<times> fs_file_info list) list \<times> bulk_update \<times> updates_mediator) option" where
  "bulk_make fv paths b m = (case bu_deadline b of
       None \<Rightarrow> Some ([], b, m)
     | Some _ \<Rightarrow> map_option (\<lambda>(r, m). (r, \<lparr>bu_deadline = None, bu_updates = []\<rparr>, m)) (make_folders fv paths (bu_updates b) m))"

text \<open>
  An event of the platform's watcher. The flag tells that the timer is started. The lookup in the updates about to be sent is
  done only when the event is put off.
\<close>

definition push :: "int \<Rightarrow> string \<Rightarrow> string \<Rightarrow> string \<Rightarrow> update_type \<Rightarrow> bool \<Rightarrow> watcher \<Rightarrow> bool \<times> watcher" where
  "push deadline fid relative_path prev_path type requires_refinement w =
     (let new = make_record relative_path type prev_path requires_refinement;
          put = (\<lambda>b us recorded. let b = bu_set fid us b in
             if recorded \<and> bu_deadline b = None then b\<lparr>bu_deadline := Some deadline\<rparr> else b)
      in if bu_deadline (wa_next w) = Some deadline \<or> bu_deadline (wa_next w) = None
         then let b = prepare fid (wa_next w);
                  (recorded, us) = update_record new (bu_get fid b, [])
              in (bu_deadline (wa_next w) = None, w\<lparr>wa_next := put b (fst us) recorded\<rparr>)
         else let b = prepare fid (wa_postponed w);
                  (recorded, us) = update_record new (bu_get fid b, bu_get fid (wa_next w))
              in (False, w\<lparr>wa_postponed := put b (fst us) recorded, wa_next := bu_set fid (snd us) (wa_next w)\<rparr>))"

text \<open>
  The end of the retention interval: the changes to send, the flag that tells that the timer is started again, and the state;
  a moved bulk keeps its deadline.
\<close>

definition on_retension_finish :: "fs_view \<Rightarrow> int \<Rightarrow> bool \<Rightarrow> watcher \<Rightarrow>
    ((string \<times> fs_file_info list) list \<times> bool \<times> watcher) option" where
  "on_retension_finish fv now cancelled w =
     (if cancelled then Some ([], False, w)
      else case bulk_make fv (wa_folders w) (wa_next w) (wa_mediator w) of
          None \<Rightarrow> None
        | Some (r, b, m) \<Rightarrow>
            let w = w\<lparr>wa_next := b, wa_mediator := m\<rparr>
            in if has_changes (wa_postponed w)
               then Some (r, True, w\<lparr>wa_next := (wa_postponed w)\<lparr>bu_deadline := Some (now + wa_retension w)\<rparr>,
                      wa_postponed := (wa_postponed w)\<lparr>bu_updates := []\<rparr>\<rparr>)
               else Some (r, False, w))"

subsection \<open>Laws of the sets\<close>

definition us_ok :: "file_updates \<Rightarrow> bool" where
  "us_ok us \<longleftrightarrow> sorted_wrt (<) (map fu_path us)"

lemma us_find_path: "us_find p us = Some u \<Longrightarrow> fu_path u = p \<and> u \<in> set us"
  by (auto simp: us_find_def dest!: find_SomeD)

lemma us_find_append:
  "us_find p (us @ vs) = (case us_find p us of Some u \<Rightarrow> Some u | None \<Rightarrow> us_find p vs)"
  by (induction us) (auto simp: us_find_def)

lemma us_find_Cons: "us_find p (u # us) = (if fu_path u = p then Some u else us_find p us)"
  by (simp add: us_find_def)

lemma us_find_Nil [simp]: "us_find p [] = None"
  by (simp add: us_find_def)

lemma us_find_emplace:
  "us_find p (us_emplace u us) =
    (case us_find p us of Some v \<Rightarrow> Some v | None \<Rightarrow> if fu_path u = p then Some u else None)"
proof (cases "us_find (fu_path u) us")
  case None
  define P where "P = (\<lambda>v :: file_update. fu_path v < fu_path u)"
  have "us_find p us = us_find p (takeWhile P us @ dropWhile P us)" by simp
  then have "us_find p us = (case us_find p (takeWhile P us) of Some v \<Rightarrow> Some v | None \<Rightarrow> us_find p (dropWhile P us))"
    by (simp only: us_find_append)
  then show ?thesis
    using None by (auto simp: us_emplace_def us_find_append us_find_Cons P_def split: option.splits)
qed (auto simp: us_emplace_def split: option.splits)

lemma us_find_erase: "us_find p (us_erase q us) = (if p = q then None else us_find p us)"
  by (induction us) (auto simp: us_erase_def us_find_Cons)

lemma us_erase_Nil [simp]: "us_erase p [] = []"
  by (simp add: us_erase_def)

lemma us_find_modify:
  assumes "\<And>u. fu_path (f u) = fu_path u"
  shows "us_find p (us_modify q f us) = (if p = q then map_option f (us_find p us) else us_find p us)"
  by (induction us) (auto simp: us_modify_def us_find_Cons assms)

lemma us_ok_erase [simp]: "us_ok us \<Longrightarrow> us_ok (us_erase p us)"
  by (auto simp: us_ok_def us_erase_def sorted_wrt_map sorted_wrt_filter)

lemma us_ok_modify [simp]: "(\<And>u. fu_path (f u) = fu_path u) \<Longrightarrow> us_ok (us_modify p f us) \<longleftrightarrow> us_ok us"
proof -
  assume "\<And>u. fu_path (f u) = fu_path u"
  then have "map fu_path (us_modify p f us) = map fu_path us" by (auto simp: us_modify_def)
  then show ?thesis by (simp add: us_ok_def)
qed

lemma us_ok_emplace [simp]:
  assumes "us_ok us"
  shows "us_ok (us_emplace u us)"
proof (cases "us_find (fu_path u) us")
  case None
  then have new: "fu_path v \<noteq> fu_path u" if "v \<in> set us" for v
    using that by (auto simp: us_find_def find_None_iff_all)
  let ?P = "\<lambda>v. fu_path v < fu_path u"
  have s: "sorted_wrt (\<lambda>a b. fu_path a < fu_path b) (takeWhile ?P us @ dropWhile ?P us)"
    using assms by (simp add: us_ok_def sorted_wrt_map)
  have above: "fu_path u < fu_path v" if "v \<in> set (dropWhile ?P us)" for v
  proof -
    obtain w ws where d: "dropWhile ?P us = w # ws" using \<open>v \<in> _\<close> by (cases "dropWhile ?P us") auto
    then have "\<not> ?P w" by (metis hd_dropWhile list.distinct(1) list.sel(1))
    moreover have "w \<in> set us" using d by (metis list.set_intros(1) set_dropWhileD)
    ultimately have "fu_path u < fu_path w" using new by fastforce
    moreover have "v = w \<or> fu_path w < fu_path v" using \<open>v \<in> _\<close> s unfolding d by (auto simp: sorted_wrt_append)
    ultimately show ?thesis by auto
  qed
  have below: "fu_path v < fu_path u" if "v \<in> set (takeWhile ?P us)" for v
    using set_takeWhileD [OF that] by blast
  show ?thesis
    using None s above below
    by (auto simp: us_emplace_def us_ok_def sorted_wrt_map sorted_wrt_append intro: less_trans)
qed (use assms in \<open>auto simp: us_emplace_def\<close>)

lemma us_emplace_not_Nil [simp]: "us_emplace u us \<noteq> []"
  by (auto simp: us_emplace_def split: option.splits)

subsection \<open>Own changes are hidden\<close>

text \<open>
  The contract of the mediator: what has been noted for a path is taken back one by one. A client of the contract sees as
  many hidden events as were noted.
\<close>

locale event_mask =
  fixes events :: "'s \<Rightarrow> string \<Rightarrow> nat" and note_event :: "string \<Rightarrow> int \<Rightarrow> 's \<Rightarrow> 's"
    and take_one :: "string \<Rightarrow> 's \<Rightarrow> bool \<times> 's" and ok :: "'s \<Rightarrow> bool" and maskable :: "string \<Rightarrow> bool" and limit :: nat
  assumes ok_note: "ok s \<Longrightarrow> maskable p \<Longrightarrow> events s p + 1 < limit \<Longrightarrow> ok (note_event p d s)"
    and events_note: "ok s \<Longrightarrow> maskable p \<Longrightarrow> events s p + 1 < limit \<Longrightarrow>
      events (note_event p d s) q = events s q + (if p = q then 1 else 0)"
    and ok_take: "ok s \<Longrightarrow> ok (snd (take_one p s))"
    and fst_take: "ok s \<Longrightarrow> fst (take_one p s) \<longleftrightarrow> 0 < events s p"
    and events_take: "ok s \<Longrightarrow> events (snd (take_one p s)) q = events s q - (if p = q then 1 else 0)"
begin

lemma note_many:
  "ok s \<Longrightarrow> maskable p \<Longrightarrow> events s p + length ds < limit \<Longrightarrow>
    ok (fold (note_event p) ds s) \<and> (\<forall>q. events (fold (note_event p) ds s) q = events s q + (if p = q then length ds else 0))"
  by (induction ds arbitrary: s) (auto simp: ok_note events_note)

lemma take_many:
  "ok s \<Longrightarrow> ok (((snd \<circ> take_one p) ^^ n) s) \<and>
    (\<forall>q. events (((snd \<circ> take_one p) ^^ n) s) q = events s q - (if p = q then n else 0))"
  by (induction n) (auto simp: ok_take events_take)

lemma hidden_exactly:
  assumes "ok s" and "maskable p" and "events s p + length ds < limit"
  shows "fst (take_one p (((snd \<circ> take_one p) ^^ n) (fold (note_event p) ds s))) \<longleftrightarrow> n < events s p + length ds"
proof -
  let ?t = "fold (note_event p) ds s"
  have t: "ok ?t" "events ?t p = events s p + length ds" using note_many [OF assms] by auto
  have u: "ok (((snd \<circ> take_one p) ^^ n) ?t)" "events (((snd \<circ> take_one p) ^^ n) ?t) p = events ?t p - n"
    using take_many [OF t(1), of n p] by auto
  show ?thesis using fst_take [OF u(1), of p] u(2) t(2) by auto
qed

end

definition events_in :: "string \<Rightarrow> updates \<Rightarrow> nat" where
  "events_in p t = (case us_find p (up_updates t) of Some u \<Rightarrow> unat (fu_update_type u) | None \<Rightarrow> 0)"

definition masked_events :: "updates_mediator \<Rightarrow> string \<Rightarrow> nat" where
  "masked_events m p = events_in p (um_postponed m) + events_in p (um_next m)"

text \<open>No counter is zero, and a set that is not empty has a deadline.\<close>

definition updates_ok :: "updates \<Rightarrow> bool" where
  "updates_ok t \<longleftrightarrow> (\<forall>p u. us_find p (up_updates t) = Some u \<longrightarrow> fu_update_type u \<noteq> 0) \<and>
     (up_updates t \<noteq> [] \<longrightarrow> up_deadline t \<noteq> None)"

definition mediator_ok :: "updates_mediator \<Rightarrow> bool" where
  "mediator_ok m \<longleftrightarrow> um_enabled m \<and> updates_ok (um_next m) \<and> updates_ok (um_postponed m)"

definition hides :: "string \<Rightarrow> updates_mediator \<Rightarrow> bool \<times> updates_mediator" where
  "hides p m = (let (events, m) = is_masked p m in (events \<noteq> 0, m))"

lemma us_find_count_events:
  "us_find q (count_events c p us) =
    (if p = q then case us_find p us of
         None \<Rightarrow> Some \<lparr>fu_path = p, fu_prev_path = [], fu_update_type = c, fu_requires_refinement = False\<rparr>
       | Some u \<Rightarrow> Some (u\<lparr>fu_update_type := fu_update_type u + c\<rparr>)
     else us_find q us)"
  by (auto simp: count_events_def us_find_emplace us_find_modify split: option.splits)

lemma unat_plus_nowrap:
  fixes a b :: u32
  shows "unat a + unat b < 2 ^ 32 \<Longrightarrow> unat (a + b) = unat a + unat b"
  by (subst unat_plus_if') simp

lemma nonzero_plus:
  fixes a b :: u32
  assumes "unat a + unat b < 2 ^ 32" and "b \<noteq> 0"
  shows "a + b \<noteq> 0"
  using unat_plus_nowrap [OF assms(1)] assms(2) by (metis add_is_0 unat_eq_zero)

lemma events_count:
  assumes "events_in p t + unat c < 2 ^ 32"
  shows "events_in q (t\<lparr>up_updates := count_events c p (up_updates t)\<rparr>) = events_in q t + (if p = q then unat c else 0)"
  using assms unat_plus_nowrap [of _ c]
  by (auto simp: events_in_def us_find_count_events split: option.splits)

lemma updates_ok_count:
  assumes "updates_ok t" and "c \<noteq> 0" and "events_in p t + unat c < 2 ^ 32" and "up_deadline t \<noteq> None"
  shows "updates_ok (t\<lparr>up_updates := count_events c p (up_updates t)\<rparr>)"
  using assms nonzero_plus [of _ c]
  by (auto simp: updates_ok_def events_in_def us_find_count_events split: if_splits option.splits)

lemma count_both_plain [simp]: "count_both c p [] t = t\<lparr>up_updates := count_events c p (up_updates t)\<rparr>"
  by (simp add: count_both_def)

lemma events_in_deadline [simp]: "events_in q (t\<lparr>up_deadline := d\<rparr>) = events_in q t"
  by (simp add: events_in_def)

lemma events_in_erase:
  "events_in q (t\<lparr>up_updates := us_erase p (up_updates t)\<rparr>) = (if p = q then 0 else events_in q t)"
  by (simp add: events_in_def us_find_erase)

lemma updates_ok_erase: "updates_ok t \<Longrightarrow> updates_ok (t\<lparr>up_updates := us_erase p (up_updates t)\<rparr>)"
  by (auto simp: updates_ok_def us_find_erase split: if_splits)

lemma updates_ok_deadline: "updates_ok t \<Longrightarrow> updates_ok (t\<lparr>up_deadline := Some d\<rparr>)"
  by (simp add: updates_ok_def)

text \<open>The part of \<open>mask\<close> that puts the events of a path off, in terms of the number of events.\<close>

lemma postponed_counter:
  fixes n :: updates
  assumes "events_in p n + 1 < 2 ^ 32"
  shows "unat (case us_find p (up_updates n) of Some u \<Rightarrow> 1 + fu_update_type u | None \<Rightarrow> 1) = events_in p n + 1"
proof (cases "us_find p (up_updates n)")
  case (Some u)
  then show ?thesis using assms unat_plus_nowrap [of 1 "fu_update_type u"] by (simp add: events_in_def)
qed (simp add: events_in_def)

lemma mask_events:
  assumes "mediator_ok m" and "\<not> is_temporal p" and "masked_events m p + 1 < 2 ^ 32"
  shows "mediator_ok (mask p [] d m)"
    and "masked_events (mask p [] d m) q = masked_events m q + (if p = q then 1 else 0)"
proof -
  let ?n = "um_next m" and ?t = "um_postponed m"
  have ok: "um_enabled m" "updates_ok ?n" "updates_ok ?t" using assms(1) by (auto simp: mediator_ok_def)
  have lim: "events_in p ?t + (events_in p ?n + 1) < 2 ^ 32" using assms(3) by (simp add: masked_events_def)
  show "mediator_ok (mask p [] d m)" and "masked_events (mask p [] d m) q = masked_events m q + (if p = q then 1 else 0)"
  proof (atomize (full), cases "up_deadline ?n")
    case None
    show "mediator_ok (mask p [] d m) \<and> masked_events (mask p [] d m) q = masked_events m q + (if p = q then 1 else 0)"
      using None ok lim assms(2) updates_ok_count [OF updates_ok_deadline [OF ok(2), of d], of 1 p]
        events_count [of p "?n\<lparr>up_deadline := Some d\<rparr>" 1 q]
      by (simp add: mask_def mediator_ok_def masked_events_def)
  next
    case (Some e)
    show "mediator_ok (mask p [] d m) \<and> masked_events (mask p [] d m) q = masked_events m q + (if p = q then 1 else 0)"
    proof (cases "e = d")
      case True
      then show ?thesis
        using Some ok lim assms(2) updates_ok_count [OF ok(2), of 1 p] events_count [of p ?n 1 q]
        by (simp add: mask_def mediator_ok_def masked_events_def)
    next
      case False
      define c :: u32 where "c = (case us_find p (up_updates ?n) of Some u \<Rightarrow> 1 + fu_update_type u | None \<Rightarrow> 1)"
      define t where "t = (if up_updates ?t = [] then ?t\<lparr>up_deadline := Some (e + um_interval m)\<rparr> else ?t)"
      have c: "unat c = events_in p ?n + 1" unfolding c_def using lim by (intro postponed_counter) simp
      have t: "updates_ok t" "up_deadline t \<noteq> None" "events_in r t = events_in r ?t" for r
        using ok(3) by (auto simp: t_def updates_ok_def)
      have "mask p [] d m = m\<lparr>um_next := ?n\<lparr>up_updates := us_erase p (up_updates ?n)\<rparr>,
          um_postponed := t\<lparr>up_updates := count_events c p (up_updates t)\<rparr>\<rparr>"
        using Some False ok(1) assms(2) by (simp add: mask_def Let_def c_def t_def)
      moreover have "c \<noteq> 0" using c by (metis Suc_eq_plus1 nat.distinct(1) unat_0)
      ultimately show ?thesis
        using ok c t lim updates_ok_count [OF t(1), of c p] events_count [of p t c q] updates_ok_erase [OF ok(2)]
          events_in_erase [where t = ?n and p = p and q = q]
        by (simp add: mediator_ok_def masked_events_def)
    qed
  qed
qed

lemma take_event_spec:
  assumes "updates_ok t"
  shows "take_event p t = None \<longleftrightarrow> events_in p t = 0"
    and "take_event p t = Some (e, t') \<Longrightarrow>
      unat e = events_in p t \<and> updates_ok t' \<and> (\<forall>q. events_in q t' = events_in q t - (if p = q then 1 else 0))"
proof -
  show "take_event p t = None \<longleftrightarrow> events_in p t = 0"
    using assms by (auto simp: take_event_def events_in_def updates_ok_def Let_def unat_eq_zero split: option.splits)
  assume "take_event p t = Some (e, t')"
  then obtain u where u: "us_find p (up_updates t) = Some u" "e = fu_update_type u" "up_deadline t \<noteq> None"
      and t': "t' = t\<lparr>up_updates := (let us = us_modify p (\<lambda>u. u\<lparr>fu_update_type := fu_update_type u - 1\<rparr>) (up_updates t)
         in if e - 1 = 0 then us_erase p us else us)\<rparr>"
    by (auto simp: take_event_def Let_def split: option.splits)
  have "unat (fu_update_type u - 1) = unat (fu_update_type u) - 1"
    using assms u by (auto simp: updates_ok_def unat_minus_one)
  then show "unat e = events_in p t \<and> updates_ok t' \<and> (\<forall>q. events_in q t' = events_in q t - (if p = q then 1 else 0))"
    using assms u unfolding t'
    by (auto simp: updates_ok_def events_in_def Let_def us_find_erase us_find_modify split: option.splits)
qed

lemma hides_spec:
  assumes "mediator_ok m"
  shows "mediator_ok (snd (hides p m))"
    and "fst (hides p m) \<longleftrightarrow> 0 < masked_events m p"
    and "masked_events (snd (hides p m)) q = masked_events m q - (if p = q then 1 else 0)"
proof -
  have ok: "updates_ok (um_next m)" "updates_ok (um_postponed m)" using assms by (auto simp: mediator_ok_def)
  have none: "take_event p t = None \<Longrightarrow> events_in p t = 0" if "updates_ok t" for t
    using take_event_spec(1) [OF that] by blast
  have some: "take_event p t = Some (e, t') \<Longrightarrow> e \<noteq> 0 \<and> 0 < events_in p t \<and> updates_ok t' \<and>
      (\<forall>q. events_in q t' = events_in q t - (if p = q then 1 else 0))" if "updates_ok t" for t e t'
    using take_event_spec(2) [OF that, of p e t'] take_event_spec(1) [OF that, of p]
    by (metis neq0_conv option.distinct(1) unat_0)
  have "mediator_ok (snd (hides p m)) \<and> (fst (hides p m) \<longleftrightarrow> 0 < masked_events m p) \<and>
      masked_events (snd (hides p m)) q = masked_events m q - (if p = q then 1 else 0)"
  proof (cases "take_event p (um_postponed m)")
    case (Some r)
    then show ?thesis using assms some [OF ok(2), of "fst r" "snd r"]
      by (cases r) (auto simp: hides_def is_masked_def mediator_ok_def masked_events_def)
  next
    case postponed: None
    show ?thesis
    proof (cases "take_event p (um_next m)")
      case (Some r)
      then show ?thesis using assms postponed none [OF ok(2)] some [OF ok(1), of "fst r" "snd r"]
        by (cases r) (auto simp: hides_def is_masked_def mediator_ok_def masked_events_def)
    next
      case None
      then show ?thesis using assms postponed none [OF ok(1)] none [OF ok(2)]
        by (auto simp: hides_def is_masked_def mediator_ok_def masked_events_def)
    qed
  qed
  then show "mediator_ok (snd (hides p m))" and "fst (hides p m) \<longleftrightarrow> 0 < masked_events m p"
    and "masked_events (snd (hides p m)) q = masked_events m q - (if p = q then 1 else 0)"
    by blast+
qed

interpretation own: event_mask masked_events "\<lambda>p d. mask p [] d" hides mediator_ok "\<lambda>p. \<not> is_temporal p" "2 ^ 32"
  by unfold_locales (simp_all add: mask_events hides_spec)


definition fresh_mediator :: updates_mediator where
  "fresh_mediator = \<lparr>um_interval = 5, um_next = \<lparr>up_updates = [], up_deadline = None\<rparr>,
     um_postponed = \<lparr>up_updates = [], up_deadline = None\<rparr>, um_enabled = True\<rparr>"


text \<open>
  A rename moves the events of the new name that wait in the next set, and adds as many to the old name: here the old name gets two
  events for one mask.
\<close>

lemma rename_overcounts:
  "masked_events (mask ''/b'' ''/a'' 9 (mask ''/b'' [] 7 fresh_mediator)) ''/a'' = 2"
  by (simp add: mask_def fresh_mediator_def count_both_def count_events_def us_find_def us_emplace_def us_erase_def is_temporal_def
      tmp_suffix_def masked_events_def events_in_def)

subsection \<open>Changes of one file within an interval\<close>

text \<open>The events of one file, none of them a rename, merged into one record.\<close>

definition record_events :: "string \<Rightarrow> bool \<Rightarrow> update_type list \<Rightarrow> file_updates \<Rightarrow> file_updates" where
  "record_events p refine ts us = fold (\<lambda>t us. fst (snd (update_record (make_record p t [] refine) (us, [])))) ts us"

text \<open>
  The events are consistent with the existence of the file: it is created when it is absent, changed and deleted when it is there.
\<close>

fun consistent :: "bool \<Rightarrow> update_type list \<Rightarrow> bool" where
  "consistent present [] = True"
| "consistent present (t # ts) =
     (if t = created then \<not> present \<and> consistent True ts
      else if t = deleted then present \<and> consistent False ts else present \<and> consistent present ts)"

definition present_after :: "bool \<Rightarrow> update_type list \<Rightarrow> bool" where
  "present_after present ts = fold (\<lambda>t e. if t = created then True else if t = deleted then False else e) ts present"

text \<open>What the record of the file holds.\<close>

definition merged_type :: "bool \<Rightarrow> update_type list \<Rightarrow> u32 \<Rightarrow> bool" where
  "merged_type e ts v = (if e then if created \<in> set ts then v = 1 \<or> v = 17 else if content \<in> set ts then v = 16 else v = 8
     else if created \<in> set ts then v = 5 else v = 4)"

lemma consistent_snoc:
  "consistent e (ts @ [t]) \<longleftrightarrow> consistent e ts \<and>
    (if t = created then \<not> present_after e ts else present_after e ts)"
  by (induction ts arbitrary: e) (auto simp: present_after_def)

lemma present_after_snoc:
  "present_after e (ts @ [t]) = (if t = created then True else if t = deleted then False else present_after e ts)"
  by (simp add: present_after_def)

lemma make_record_sel [simp]:
  "fu_path (make_record p t q r) = p" "fu_prev_path (make_record p t q r) = q"
  "fu_update_type (make_record p t q r) = (case t of created \<Rightarrow> 1 | deleted \<Rightarrow> 4 | meta \<Rightarrow> 8 | content \<Rightarrow> 16)"
  "fu_requires_refinement (make_record p t q r) = r"
  by (cases t; simp add: make_record_def type_value_def ut_values)+

lemma update_record_same:
  assumes "us_find p us = Some u" and "fu_prev_path u = []" and "p \<noteq> []"
    and "fu_update_type u = v"
  shows "\<exists>u'. us_find p (fst (snd (update_record (make_record p t [] refine) (us, [])))) = Some u' \<and> fu_prev_path u' = [] \<and>
    fu_update_type u' = (let w = (case t of created \<Rightarrow> 1 | deleted \<Rightarrow> 4 | meta \<Rightarrow> 8 | content \<Rightarrow> 16);
        w = (if v AND 19 \<noteq> 0 \<and> w AND 8 \<noteq> 0 then v else w) in if v AND 1 \<noteq> 0 then w OR 1 else w)"
  using assms us_find_path [OF assms(1)]
  by (cases t) (simp_all add: update_record_def earlier_record_def merge_record_def Let_def erase_prev_def us_find_emplace
      us_find_erase CONTENT_LIKE_def ut_values)

lemma update_record_first:
  assumes "us_find p us = None" and "us_find [] us = None" and "p \<noteq> []"
  shows "us_find p (fst (snd (update_record (make_record p t [] refine) (us, [])))) = Some (make_record p t [] refine)"
  using assms by (simp add: update_record_def earlier_record_def us_find_emplace)

lemma record_events_merged:
  assumes "consistent e ts" and "ts \<noteq> []" and "p \<noteq> []" and "us_find p us = None" and "us_find [] us = None"
  shows "\<exists>u. us_find p (record_events p refine ts us) = Some u \<and> fu_prev_path u = [] \<and>
    merged_type (present_after e ts) ts (fu_update_type u)"
  using assms(1,2)
proof (induction ts rule: rev_induct)
  case (snoc t ts)
  show ?case
  proof (cases "ts = []")
    case True
    then show ?thesis using snoc.prems update_record_first [OF assms(4,5,3), of t refine]
      by (cases t) (auto simp: record_events_def merged_type_def present_after_def)
  next
    case False
    then obtain u where u: "us_find p (record_events p refine ts us) = Some u" "fu_prev_path u = []"
        "merged_type (present_after e ts) ts (fu_update_type u)"
      using snoc by (auto simp: consistent_snoc)
    let ?v = "fu_update_type u"
    obtain u' where u': "us_find p (record_events p refine (ts @ [t]) us) = Some u'" "fu_prev_path u' = []"
        "fu_update_type u' = (let w = (case t of created \<Rightarrow> 1 | deleted \<Rightarrow> 4 | meta \<Rightarrow> 8 | content \<Rightarrow> 16);
        w = (if ?v AND 19 \<noteq> 0 \<and> w AND 8 \<noteq> 0 then ?v else w) in if ?v AND 1 \<noteq> 0 then w OR 1 else w)"
      using update_record_same [OF u(1,2) assms(3) refl, of t refine] by (auto simp: record_events_def)
    have "consistent e (ts @ [t])" using snoc.prems(1) .
    then have "merged_type (present_after e (ts @ [t])) (ts @ [t]) (fu_update_type u')"
      using u(3) unfolding u'(3)
      by (cases t) (auto simp: merged_type_def consistent_snoc present_after_snoc Let_def split: if_splits)
    then show ?thesis using u' by blast
  qed
qed simp

text \<open>
  Reports of one file within an interval, none of them a rename, are merged into one change with their net effect. A
  file that is there at the end is reported with what was read of it: as created when it was created in the interval, else as changed in content or in
  its attributes. A file that is gone at the end is reported as deleted, unless it was created in the interval; the code does not tell a file that
  was there before, was deleted, created and deleted again, from one that was not: the deletion of the former is dropped.
\<close>

theorem merge_reports_net_effect:
  assumes "consistent e ts" and "ts \<noteq> []" and "p \<noteq> []" and "us_find p us = None" and "us_find [] us = None"
  shows "\<exists>u. us_find p (record_events p refine ts us) = Some u \<and>
    (\<not> present_after e ts \<longrightarrow> change_of fv dir u = (if created \<in> set ts then None
       else Some \<lparr>ff_file = empty_pr_file\<lparr>pf_deleted := True, pf_name := p\<rparr>, ff_prev_path = [], ff_update_reason = deleted,
             ff_requires_refinement = fu_requires_refinement u\<rparr>)) \<and>
    (\<forall>status r. present_after e ts \<and> fv_symlink_status fv (dir @ ''/'' @ p) = Some status \<and> fv_accept_update fv u status \<and>
        describe fv (dir @ ''/'' @ p) status = Some r \<longrightarrow>
       change_of fv dir u = Some \<lparr>ff_file = r\<lparr>pf_name := p\<rparr>, ff_prev_path = [],
         ff_update_reason = (if created \<in> set ts then created else if content \<in> set ts then content else meta),
         ff_requires_refinement = fu_requires_refinement u\<rparr>)"
proof -
  obtain u where u: "us_find p (record_events p refine ts us) = Some u" "fu_prev_path u = []"
      "merged_type (present_after e ts) ts (fu_update_type u)"
    using record_events_merged [OF assms] by blast
  have "fu_path u = p" using us_find_path [OF u(1)] by simp
  then show ?thesis
    using u by (intro exI [of _ u])
      (auto simp: change_of_def merged_type_def reason_of_def ut_values Let_def split: if_splits)
qed

definition quiet_view :: fs_view where
  "quiet_view = \<lparr>fv_symlink_status = (\<lambda>_. Some (regular, 0x1A4)), fv_file_size = (\<lambda>_. Some 3), fv_last_write_time = (\<lambda>_. Some 9),
     fv_read_symlink = (\<lambda>_. None), fv_accept_update = (\<lambda>_ _. True)\<rparr>"

theorem merge_reports_net_effect_witness:
  "(\<exists>u. us_find ''f'' (record_events ''f'' False [deleted, created, deleted] []) = Some u \<and> change_of quiet_view ''/d'' u = None) \<and>
   (\<exists>u. us_find ''f'' (record_events ''f'' False [meta, content] []) = Some u \<and>
     change_of quiet_view ''/d'' u = Some \<lparr>ff_file = empty_pr_file\<lparr>pf_name := ''f'', pf_size := 3, pf_modified_s := 9,
       pf_permissions := 0x1A4\<rparr>, ff_prev_path = [], ff_update_reason = content, ff_requires_refinement = fu_requires_refinement u\<rparr>)"
proof
  show "\<exists>u. us_find ''f'' (record_events ''f'' False [deleted, created, deleted] []) = Some u \<and> change_of quiet_view ''/d'' u = None"
    using merge_reports_net_effect [of True "[deleted, created, deleted]" "''f''" "[]" False quiet_view "''/d''"]
    by (auto simp: present_after_def)
  have d: "describe quiet_view (''/d'' @ ''/'' @ ''f'') (regular, 0x1A4) =
      Some (empty_pr_file\<lparr>pf_size := 3, pf_modified_s := 9, pf_permissions := 0x1A4\<rparr>)"
    by (simp add: describe_def quiet_view_def empty_pr_file_def)
  obtain u where u: "us_find ''f'' (record_events ''f'' False [meta, content] []) = Some u"
      "\<forall>status r. fv_symlink_status quiet_view (''/d'' @ ''/'' @ ''f'') = Some status \<and> fv_accept_update quiet_view u status \<and>
        describe quiet_view (''/d'' @ ''/'' @ ''f'') status = Some r \<longrightarrow>
       change_of quiet_view ''/d'' u = Some \<lparr>ff_file = r\<lparr>pf_name := ''f''\<rparr>, ff_prev_path = [],
         ff_update_reason = content, ff_requires_refinement = fu_requires_refinement u\<rparr>"
    using merge_reports_net_effect [of True "[meta, content]" "''f''" "[]" False quiet_view "''/d''"]
    by (auto simp: present_after_def)
  have "change_of quiet_view ''/d'' u = Some \<lparr>ff_file = empty_pr_file\<lparr>pf_size := 3, pf_modified_s := 9, pf_permissions := 0x1A4, pf_name := ''f''\<rparr>,
      ff_prev_path = [], ff_update_reason = content, ff_requires_refinement = fu_requires_refinement u\<rparr>"
    using u(2) d by (simp add: quiet_view_def)
  then show "\<exists>u. us_find ''f'' (record_events ''f'' False [meta, content] []) = Some u \<and>
     change_of quiet_view ''/d'' u = Some \<lparr>ff_file = empty_pr_file\<lparr>pf_name := ''f'', pf_size := 3, pf_modified_s := 9,
       pf_permissions := 0x1A4\<rparr>, ff_prev_path = [], ff_update_reason = content, ff_requires_refinement = fu_requires_refinement u\<rparr>"
    using u(1) by (simp add: empty_pr_file_def)
qed

text \<open>
  Two more sequences whose effect is lost: a file that is changed and then moved over another changed file stays reported as
  changed, not as deleted, and a moved file that is deleted and created again breaks the assertion of the report.
\<close>

definition gone_view :: fs_view where
  "gone_view = quiet_view\<lparr>fv_symlink_status := (\<lambda>p. if p = ''/d/a'' then None else Some (regular, 0x1A4))\<rparr>"

definition record_list :: "(string \<times> update_type \<times> string) list \<Rightarrow> file_updates" where
  "record_list es = fold (\<lambda>(p, t, q) us. fst (snd (update_record (make_record p t q False) (us, [])))) es []"

lemma move_over_changed_loses_deletion:
  "map_option fst (make_changes gone_view ''/d'' (record_list [(''a'', content, []), (''b'', content, []), (''b'', meta, ''a'')]) fresh_mediator) =
   Some [\<lparr>ff_file = empty_pr_file\<lparr>pf_name := ''b'', pf_size := 3, pf_modified_s := 9, pf_permissions := 0x1A4\<rparr>, ff_prev_path = [],
      ff_update_reason = created, ff_requires_refinement = False\<rparr>]"
  by code_simp

lemma recreated_after_move_asserts:
  "make_changes gone_view ''/d'' (record_list [(''b'', meta, ''a''), (''b'', deleted, []), (''b'', created, [])]) fresh_mediator = None"
  by code_simp

subsection \<open>No change is forgotten\<close>

text \<open>
  The watcher with the flag that its timer runs, as events arrive and the timer ends. The changes sent label the steps.
\<close>

inductive watcher_step :: "fs_view \<Rightarrow> watcher \<times> bool \<Rightarrow> watcher \<times> bool \<Rightarrow> bool" for fv where
  event: "push deadline fid p prev t refine w = (started, w') \<Longrightarrow> watcher_step fv (w, timer) (w', timer \<or> started)"
| finish: "on_retension_finish fv now False w = Some (changes, started, w') \<Longrightarrow> watcher_step fv (w, True) (w', started)"

inductive_cases watcher_stepE: "watcher_step fv s s'"

definition quiet_bulk :: "bulk_update \<Rightarrow> bool" where
  "quiet_bulk b \<longleftrightarrow> distinct (map fo_folder_id (bu_updates b)) \<and> (\<forall>f \<in> set (bu_updates b). us_ok (fo_updates f))"

definition watcher_ok :: "watcher \<times> bool \<Rightarrow> bool" where
  "watcher_ok s = (case s of (w, timer) \<Rightarrow>
     timer = (bu_deadline (wa_next w) \<noteq> None) \<and> (has_changes (wa_next w) \<or> has_changes (wa_postponed w) \<longrightarrow> timer) \<and>
     quiet_bulk (wa_next w) \<and> quiet_bulk (wa_postponed w))"

lemma us_ok_Nil [simp]: "us_ok []"
  by (simp add: us_ok_def)

lemma bu_get_ok: "quiet_bulk b \<Longrightarrow> us_ok (bu_get fid b)"
  by (auto simp: bu_get_def bu_find_def quiet_bulk_def dest!: find_SomeD split: option.split)

lemma bu_get_quiet: "\<not> has_changes b \<Longrightarrow> bu_get fid b = []"
  by (auto simp: bu_get_def bu_find_def has_changes_def dest!: find_SomeD split: option.split)

lemma bulk_simps [simp]:
  "bu_deadline (bu_set fid us b) = bu_deadline b" "bu_deadline (prepare fid b) = bu_deadline b"
  "quiet_bulk (b\<lparr>bu_deadline := d\<rparr>) = quiet_bulk b" "has_changes (b\<lparr>bu_deadline := d\<rparr>) = has_changes b"
  by (auto simp: bu_set_def prepare_def quiet_bulk_def has_changes_def split: option.split)

lemma quiet_set: "quiet_bulk b \<Longrightarrow> us_ok us \<Longrightarrow> quiet_bulk (bu_set fid us b)"
  by (auto simp: quiet_bulk_def bu_set_def comp_def if_distrib cong: if_cong)

lemma quiet_prepare: "quiet_bulk b \<Longrightarrow> quiet_bulk (prepare fid b)"
  by (auto simp: quiet_bulk_def prepare_def bu_find_def find_None_iff_all split: option.split)

lemma has_changes_prepare [simp]: "has_changes (prepare fid b) = has_changes b"
  by (auto simp: has_changes_def prepare_def split: option.split)

lemma update_record_ok:
  assumes "us_ok a" and "us_ok b" and "update_record new (a, b) = (recorded, us)"
  shows "us_ok (fst us) \<and> us_ok (snd us)"
  using assms
  by (auto simp: update_record_def merge_record_def split_rename_def erase_prev_def Let_def split: option.splits if_splits)

lemma update_record_empty: "update_record new ([], b) = (recorded, us) \<Longrightarrow> b = [] \<Longrightarrow> recorded"
  by (auto simp: update_record_def earlier_record_def)

lemma push_ok:
  assumes "watcher_ok (w, timer)" and "push deadline fid p prev t refine w = (started, w')"
  shows "watcher_ok (w', timer \<or> started)"
proof -
  let ?new = "make_record p t prev refine"
  let ?n = "wa_next w" and ?p = "wa_postponed w"
  have ok: "timer = (bu_deadline ?n \<noteq> None)" "has_changes ?n \<or> has_changes ?p \<longrightarrow> timer" "quiet_bulk ?n" "quiet_bulk ?p"
    using assms(1) by (auto simp: watcher_ok_def)
  show ?thesis
  proof (cases "bu_deadline ?n = Some deadline \<or> bu_deadline ?n = None")
    case True
    obtain recorded us where r: "update_record ?new (bu_get fid (prepare fid ?n), []) = (recorded, us)" by (meson prod.exhaust)
    have "us_ok (fst us)" using update_record_ok [OF _ _ r] bu_get_ok [OF quiet_prepare [OF ok(3)]] by simp
    moreover have "recorded" if "bu_deadline ?n = None"
      using r that ok update_record_empty [of ?new "[]" recorded us] bu_get_quiet [of "prepare fid ?n" fid] by auto
    ultimately show ?thesis
      using True assms(2) r ok by (auto simp: push_def Let_def watcher_ok_def quiet_set quiet_prepare)
  next
    case False
    obtain recorded us where r: "update_record ?new (bu_get fid (prepare fid ?p), bu_get fid ?n) = (recorded, us)" by (meson prod.exhaust)
    have "us_ok (fst us) \<and> us_ok (snd us)"
      using update_record_ok [OF _ _ r] bu_get_ok [OF quiet_prepare [OF ok(4)]] bu_get_ok [OF ok(3)] by simp
    then show ?thesis
      using False assms(2) r ok by (auto simp: push_def Let_def watcher_ok_def quiet_set quiet_prepare)
  qed
qed

lemma finish_ok:
  assumes "watcher_ok (w, True)" and "on_retension_finish fv now False w = Some (changes, started, w')"
  shows "watcher_ok (w', started) \<and> \<not> has_changes (wa_postponed w') \<and> bu_updates (wa_next w') = (if started then bu_updates (wa_postponed w) else [])"
proof -
  obtain d where "bu_deadline (wa_next w) = Some d" using assms(1) by (auto simp: watcher_ok_def)
  then show ?thesis
    using assms
    by (auto simp: on_retension_finish_def bulk_make_def watcher_ok_def quiet_bulk_def has_changes_def Let_def
        split: option.splits if_splits)
qed

lemma watcher_step_ok: "watcher_step fv s s' \<Longrightarrow> watcher_ok s \<Longrightarrow> watcher_ok s'"
  by (erule watcher_stepE) (auto dest: push_ok finish_ok)

lemma reachable_watcher_ok: "(watcher_step fv)\<^sup>*\<^sup>* s s' \<Longrightarrow> watcher_ok s \<Longrightarrow> watcher_ok s'"
  by (induction rule: rtranclp_induct) (auto dest: watcher_step_ok)

text \<open>
  A change that has been recorded is not forgotten: in every state that a new watcher reaches, recorded changes wait only while the
  timer runs, the changes of a folder have distinct paths in their order, and after the timer has ended twice without new events
  nothing waits.
\<close>

theorem recorded_changes_sent:
  assumes "(watcher_step fv)\<^sup>*\<^sup>* (w0, False) (w, timer)" and "bu_updates (wa_next w0) = []" and "bu_updates (wa_postponed w0) = []"
    and "bu_deadline (wa_next w0) = None"
  shows "(has_changes (wa_next w) \<or> has_changes (wa_postponed w) \<longrightarrow> timer) \<and>
    (\<forall>f \<in> set (bu_updates (wa_next w)) \<union> set (bu_updates (wa_postponed w)). sorted_wrt (<) (map fu_path (fo_updates f))) \<and>
    (\<forall>now changes started w'. timer \<and> on_retension_finish fv now False w = Some (changes, started, w') \<longrightarrow>
       \<not> has_changes (wa_postponed w') \<and> (\<not> started \<longrightarrow> \<not> has_changes (wa_next w')) \<and>
       (\<forall>now changes started' w''. started \<and> on_retension_finish fv now False w' = Some (changes, started', w'') \<longrightarrow>
          \<not> started' \<and> \<not> has_changes (wa_next w'') \<and> \<not> has_changes (wa_postponed w'')))"
proof -
  have "watcher_ok (w0, False)" using assms(2-4) by (simp add: watcher_ok_def has_changes_def quiet_bulk_def)
  then have ok: "watcher_ok (w, timer)" using reachable_watcher_ok [OF assms(1)] by blast
  have first: "watcher_ok (w', started) \<and> \<not> has_changes (wa_postponed w') \<and> (\<not> started \<longrightarrow> \<not> has_changes (wa_next w'))"
    if "timer" "on_retension_finish fv now False w = Some (changes, started, w')" for now changes started w'
    using finish_ok [of w fv now changes started w'] ok that by (auto simp: has_changes_def)
  have second: "\<not> started' \<and> \<not> has_changes (wa_next w'') \<and> \<not> has_changes (wa_postponed w'')"
    if "watcher_ok (w', True)" "\<not> has_changes (wa_postponed w')" "on_retension_finish fv now False w' = Some (changes, started', w'')"
    for now changes started' w' w''
  proof -
    have "\<not> started'" using that(2,3) by (auto simp: on_retension_finish_def Let_def split: option.splits if_splits)
    then show ?thesis using finish_ok [OF that(1,3)] by (simp add: has_changes_def)
  qed
  have "\<forall>f \<in> set (bu_updates (wa_next w)) \<union> set (bu_updates (wa_postponed w)). sorted_wrt (<) (map fu_path (fo_updates f))"
    using ok by (auto simp: watcher_ok_def quiet_bulk_def us_ok_def)
  moreover have "has_changes (wa_next w) \<or> has_changes (wa_postponed w) \<longrightarrow> timer" using ok by (auto simp: watcher_ok_def)
  ultimately show ?thesis using first second by metis
qed

definition new_watcher :: watcher where
  "new_watcher = \<lparr>wa_retension = 5, wa_next = \<lparr>bu_deadline = None, bu_updates = []\<rparr>,
     wa_postponed = \<lparr>bu_deadline = None, bu_updates = []\<rparr>, wa_mediator = fresh_mediator, wa_folders = [''d'' \<mapsto> ''/d'']\<rparr>"

theorem recorded_changes_sent_witness:
  "has_changes (wa_next (snd (push 5 ''d'' ''f'' [] content False new_watcher))) \<and>
   fst (push 5 ''d'' ''f'' [] content False new_watcher)"
proof -
  obtain started w where p: "push 5 ''d'' ''f'' [] content False new_watcher = (started, w)" by (meson prod.exhaust)
  have "watcher_step quiet_view (new_watcher, False) (w, False \<or> started)" by (rule watcher_step.event [OF p])
  then have "(watcher_step quiet_view)\<^sup>*\<^sup>* (new_watcher, False) (w, started)" by simp
  moreover have "bu_updates (wa_next new_watcher) = []" "bu_updates (wa_postponed new_watcher) = []"
    "bu_deadline (wa_next new_watcher) = None" by (simp_all add: new_watcher_def)
  ultimately have "has_changes (wa_next w) \<longrightarrow> started"
    using recorded_changes_sent [of quiet_view new_watcher w started] by blast
  moreover have "has_changes (wa_next (snd (push 5 ''d'' ''f'' [] content False new_watcher)))"
    by (simp add: push_def prepare_def bu_find_def bu_get_def bu_set_def update_record_def earlier_record_def us_emplace_def
        has_changes_def new_watcher_def)
  ultimately show ?thesis unfolding p by simp
qed

end
