(* ===== verification/Scheduler.thy ===== *)
theory Scheduler
  imports Cluster
begin

text \<open>
  When folders are scanned (\<^verbatim>\<open>src/net/scheduler.cpp\<close>): a queue of requested scans, and a timer for the folder
  whose periodic scan is due first. Instants are microseconds. The clock is read twice, in whole seconds and in microseconds.
\<close>

subsection \<open>State\<close>

datatype subpath_comparison = C_equal | C_includes | C_is_included | C_no_intersection

text \<open>The comparison is one of characters.\<close>

fun prefix_of :: "string \<Rightarrow> string \<Rightarrow> bool" where
  "prefix_of [] _ = True"
| "prefix_of (a # as) [] = True"
| "prefix_of (a # as) (b # bs) = (if a \<noteq> b then False else prefix_of as bs)"

definition compare :: "string \<Rightarrow> string \<Rightarrow> subpath_comparison" where
  "compare a b =
     (if length a < length b then if prefix_of a b then C_includes else C_no_intersection
      else if length b < length a then if prefix_of b a then C_is_included else C_no_intersection
      else if a = b then C_equal else C_no_intersection)"

record scan_item =
  si_folder_id :: string
  si_sub_dir :: string

record next_schedule =
  ns_item :: scan_item
  ns_interval :: int
  ns_at :: int

record scheduler =
  sc_scan_queue :: "scan_item list"
  sc_timer_id :: "nat option"
  sc_schedule_option :: "next_schedule option"
  sc_scan_in_progress :: bool

text \<open>What the scheduler does outside: it sends the start of a scan, starts and cancels timers.\<close>

datatype scheduler_effect = Scan_start string string int | Start_timer nat int | Cancel_timer nat

type_synonym acted = "scheduler_effect list \<times> scheduler"

text \<open>The clock, and the identifier that the next timer gets.\<close>

record clock =
  ck_seconds :: int
  ck_micros :: int
  ck_timer :: nat

definition initiate_scan :: "clock \<Rightarrow> string \<Rightarrow> string \<Rightarrow> scheduler \<Rightarrow> acted" where
  "initiate_scan ck fid sub s = ([Scan_start fid sub (ck_micros ck)], s\<lparr>sc_scan_in_progress := True\<rparr>)"

definition seconds :: "u32 \<Rightarrow> int" where "seconds n = uint n * 1000000"

subsection \<open>The next scan\<close>

definition may_scan :: "folder \<Rightarrow> bool" where
  "may_scan fd \<longleftrightarrow> \<not> folder_is_synchronizing fd \<and> \<not> (fd_suspended fd \<and> fd_suspend_reason fd = None)"

text \<open>The queue up to its first item that can be scanned; the items before it are dropped.\<close>

fun take_request :: "cluster \<Rightarrow> scan_item list \<Rightarrow> (scan_item \<times> scan_item list) option" where
  "take_request cl [] = None"
| "take_request cl (i # is) = (case folders_by_id (si_folder_id i) cl of
       None \<Rightarrow> take_request cl is
     | Some fd \<Rightarrow> if may_scan fd then Some (i, filter (\<lambda>j. j \<noteq> i) is) else take_request cl is)"

definition is_candidate :: "folder \<Rightarrow> bool" where
  "is_candidate fd \<longleftrightarrow> dfo_rescan_interval (fd_data fd) \<noteq> 0 \<and> \<not> is_scanning fd \<and> \<not> folder_is_synchronizing fd \<and> \<not> fd_suspended fd"

definition deadline_of :: "int \<Rightarrow> folder \<Rightarrow> int" where
  "deadline_of now fd = (case fd_scan_finish fd of None \<Rightarrow> now
     | Some prev \<Rightarrow> prev + seconds (dfo_rescan_interval (fd_data fd)))"

definition select_it :: "int \<Rightarrow> folder \<Rightarrow> folder option \<Rightarrow> folder option" where
  "select_it now fd best = (if \<not> is_candidate fd then best
     else case best of None \<Rightarrow> Some fd
       | Some b \<Rightarrow>
           if deadline_of now fd < deadline_of now b \<or>
             deadline_of now fd = deadline_of now b \<and> dfo_rescan_interval (fd_data fd) < dfo_rescan_interval (fd_data b)
           then Some fd else Some b)"

definition select_folder :: "int \<Rightarrow> folder list \<Rightarrow> folder option" where
  "select_folder now fds = fold (select_it now) fds None"

text \<open>The result is the schedule that is left to be set up, if any.\<close>

definition scan_next :: "clock \<Rightarrow> cluster \<Rightarrow> scheduler \<Rightarrow> next_schedule option \<times> acted" where
  "scan_next ck cl s = (case take_request cl (sc_scan_queue s) of
       Some (i, rest) \<Rightarrow> (None, initiate_scan ck (si_folder_id i) (si_sub_dir i) (s\<lparr>sc_scan_queue := rest\<rparr>))
     | None \<Rightarrow>
         let s = s\<lparr>sc_scan_queue := []\<rparr>; now = ck_seconds ck
         in case select_folder now (cl_folders cl) of
             None \<Rightarrow> (None, [], s)
           | Some fd \<Rightarrow>
               if deadline_of now fd \<le> now then (None, initiate_scan ck (fd_id fd) [] s)
               else (Some \<lparr>ns_item = \<lparr>si_folder_id = fd_id fd, si_sub_dir = []\<rparr>, ns_interval = deadline_of now fd - now,
                       ns_at = deadline_of now fd\<rparr>, [], s))"

text \<open>\<open>None\<close> is the use of an absent schedule.\<close>

definition scan_next_or_schedule :: "clock \<Rightarrow> cluster \<Rightarrow> scheduler \<Rightarrow> acted option" where
  "scan_next_or_schedule ck cl s = (case scan_next ck cl s of
       (None, acted) \<Rightarrow> Some acted
     | (Some n, es, s) \<Rightarrow>
         let start = (\<lambda>es. Some (es @ [Start_timer (ck_timer ck) (ns_interval n)],
               s\<lparr>sc_timer_id := Some (ck_timer ck), sc_schedule_option := Some n\<rparr>))
         in case sc_timer_id s of
             None \<Rightarrow> start es
           | Some t \<Rightarrow> (case sc_schedule_option s of
                 None \<Rightarrow> None
               | Some sch \<Rightarrow> if ns_at n < ns_at sch then start (es @ [Cancel_timer t]) else Some (es, s)))"

subsection \<open>Events\<close>

definition on_local_ready :: "clock \<Rightarrow> cluster \<Rightarrow> scheduler \<Rightarrow> acted" where
  "on_local_ready ck cl s = snd (scan_next ck cl s)"

text \<open>\<open>upsert_folder\<close> and \<open>synchronization_finish\<close>.\<close>

definition on_folder_change :: "clock \<Rightarrow> cluster \<Rightarrow> scheduler \<Rightarrow> acted option" where
  "on_folder_change ck cl s = (if \<not> sc_scan_in_progress s then scan_next_or_schedule ck cl s else Some ([], s))"

text \<open>
  The first item of the folder decides: a request that it covers is ignored, and one that covers it takes its place.
\<close>

fun request_in :: "string \<Rightarrow> string \<Rightarrow> scan_item list \<Rightarrow> bool \<times> scan_item list" where
  "request_in fid sub [] = (False, [])"
| "request_in fid sub (i # is) =
     (if si_folder_id i = fid then
        case compare (si_sub_dir i) sub of
          C_equal \<Rightarrow> (True, i # is)
        | C_includes \<Rightarrow> (True, i # is)
        | C_is_included \<Rightarrow> (True, i\<lparr>si_sub_dir := sub\<rparr> # is)
        | C_no_intersection \<Rightarrow> (False, i # is)
      else let (ignored, is) = request_in fid sub is in (ignored, i # is))"

definition on_scan_request :: "clock \<Rightarrow> cluster \<Rightarrow> string \<Rightarrow> string \<Rightarrow> scheduler \<Rightarrow> acted option" where
  "on_scan_request ck cl fid sub s =
     (let (ignored, q) = request_in fid sub (sc_scan_queue s);
          q = (if ignored then q else q @ [\<lparr>si_folder_id = fid, si_sub_dir = sub\<rparr>]);
          s = s\<lparr>sc_scan_queue := q\<rparr>
      in if \<not> ignored \<and> \<not> sc_scan_in_progress s then scan_next_or_schedule ck cl s else Some ([], s))"

definition on_scan_finish :: "clock \<Rightarrow> cluster \<Rightarrow> scheduler \<Rightarrow> acted option" where
  "on_scan_finish ck cl s = scan_next_or_schedule ck cl (s\<lparr>sc_scan_in_progress := False\<rparr>)"

text \<open>The item is moved out of the schedule that stays.\<close>

definition on_timer :: "clock \<Rightarrow> cluster \<Rightarrow> bool \<Rightarrow> scheduler \<Rightarrow> acted option" where
  "on_timer ck cl cancelled s =
     (let s = s\<lparr>sc_timer_id := None\<rparr>
      in if cancelled then Some ([], s)
         else case sc_schedule_option s of
             None \<Rightarrow> None
           | Some sch \<Rightarrow>
               let i = ns_item sch;
                   s = s\<lparr>sc_schedule_option := Some (sch\<lparr>ns_item := \<lparr>si_folder_id = [], si_sub_dir = []\<rparr>\<rparr>)\<rparr>
               in case folders_by_id (si_folder_id i) cl of
                   None \<Rightarrow> Some ([], s)
                 | Some fd \<Rightarrow> (case fd_scan_finish fd of
                       None \<Rightarrow> Some ([], s)
                     | Some last_scan \<Rightarrow>
                         let interval = dfo_rescan_interval (fd_data fd);
                             interval = (if interval = 0 then 1 else interval)
                         in if ck_micros ck - last_scan < seconds interval then scan_next_or_schedule ck cl s
                            else Some (initiate_scan ck (si_folder_id i) (si_sub_dir i) s)))"

subsection \<open>The earliest folder\<close>

text \<open>The order in which folders come: by their deadlines, then by their intervals.\<close>

definition not_later :: "int \<Rightarrow> folder \<Rightarrow> folder \<Rightarrow> bool" where
  "not_later now a b \<longleftrightarrow> deadline_of now a < deadline_of now b \<or>
     deadline_of now a = deadline_of now b \<and> dfo_rescan_interval (fd_data a) \<le> dfo_rescan_interval (fd_data b)"

lemma not_later_trans: "not_later now a b \<Longrightarrow> not_later now b c \<Longrightarrow> not_later now a c"
  unfolding not_later_def
  using order.trans [of "dfo_rescan_interval (fd_data a)" "dfo_rescan_interval (fd_data b)" "dfo_rescan_interval (fd_data c)"]
  by linarith

lemma select_it_None: "select_it now fd None = (if is_candidate fd then Some fd else None)"
  by (simp add: select_it_def)

lemma select_it_Some:
  obtains "select_it now fd (Some b) = Some b" and "is_candidate fd \<longrightarrow> not_later now b fd"
  | "select_it now fd (Some b) = Some fd" and "is_candidate fd" and "not_later now fd b"
proof (cases "is_candidate fd")
  case False
  then show ?thesis using that(1) by (simp add: select_it_def)
next
  case True
  define better where "better \<longleftrightarrow> deadline_of now fd < deadline_of now b \<or>
     deadline_of now fd = deadline_of now b \<and> dfo_rescan_interval (fd_data fd) < dfo_rescan_interval (fd_data b)"
  have s: "select_it now fd (Some b) = Some (if better then fd else b)"
    using True by (simp add: select_it_def better_def)
  have "not_later now fd b" if better using that unfolding better_def not_later_def by (metis order.strict_implies_order)
  moreover have "not_later now b fd" if "\<not> better" using that unfolding better_def not_later_def by (metis linorder_less_linear not_less)
  ultimately show ?thesis using s that True by (cases better) auto
qed

lemma fold_select_Some:
  "\<exists>c. fold (select_it now) fds (Some b) = Some c \<and> not_later now c b \<and>
    (\<forall>fd \<in> set fds. is_candidate fd \<longrightarrow> not_later now c fd) \<and> (c = b \<or> c \<in> set fds \<and> is_candidate c)"
proof (induction fds arbitrary: b)
  case (Cons fd fds)
  obtain c where c: "select_it now fd (Some b) = Some c" "not_later now c b" "is_candidate fd \<longrightarrow> not_later now c fd"
      "c = b \<or> c = fd \<and> is_candidate fd"
    by (rule select_it_Some [of now fd b]) (auto simp: not_later_def)
  obtain d where d: "fold (select_it now) fds (Some c) = Some d" "not_later now d c"
      "\<forall>fd \<in> set fds. is_candidate fd \<longrightarrow> not_later now d fd" "d = c \<or> d \<in> set fds \<and> is_candidate d"
    using Cons by blast
  have "not_later now d b" "is_candidate fd \<longrightarrow> not_later now d fd" using c(2,3) d(2) not_later_trans by blast+
  then show ?case using c(1,4) d(1,3,4) by (intro exI [of _ d]) auto
qed (simp add: not_later_def)

lemma select_folder_spec:
  "(case select_folder now fds of None \<Rightarrow> \<forall>fd \<in> set fds. \<not> is_candidate fd
     | Some c \<Rightarrow> c \<in> set fds \<and> is_candidate c \<and> (\<forall>fd \<in> set fds. is_candidate fd \<longrightarrow> not_later now c fd))"
  unfolding select_folder_def
proof (induction fds)
  case (Cons fd fds)
  show ?case
  proof (cases "is_candidate fd")
    case True
    then have "select_it now fd None = Some fd" by (simp add: select_it_None)
    then show ?thesis using fold_select_Some [of now fds fd] True by auto
  next
    case False
    then have "select_it now fd None = None" by (simp add: select_it_None)
    then show ?thesis using Cons False by (auto split: option.splits)
  qed
qed simp

subsection \<open>Progress\<close>

lemma take_request_None:
  "take_request cl q = None \<longleftrightarrow> (\<forall>i \<in> set q. \<forall>fd. folders_by_id (si_folder_id i) cl = Some fd \<longrightarrow> \<not> may_scan fd)"
  by (induction q) (auto split: option.splits)

lemma take_request_Some:
  "take_request cl q = Some (i, rest) \<Longrightarrow> i \<in> set q \<and> i \<notin> set rest \<and> set rest \<subseteq> set q \<and>
    (\<exists>fd. folders_by_id (si_folder_id i) cl = Some fd \<and> may_scan fd)"
  by (induction q) (auto split: option.splits if_splits)

definition timer_ok :: "scheduler \<Rightarrow> bool" where
  "timer_ok s \<longleftrightarrow> (sc_timer_id s \<noteq> None \<longrightarrow> sc_schedule_option s \<noteq> None)"


definition idle_scheduler :: scheduler where
  "idle_scheduler = \<lparr>sc_scan_queue = [\<lparr>si_folder_id = ''f'', si_sub_dir = []\<rparr>], sc_timer_id = None, sc_schedule_option = None,
     sc_scan_in_progress = True\<rparr>"

definition plain_folder :: folder where
  "plain_folder = blank_folder [] \<lparr>dfo_id = ''f'', dfo_label = ''f'', dfo_ignore_permissions = False,
     dfo_ignore_delete = False, dfo_disable_temp_indexes = False, dfo_paused = False, dfo_scheduled = False, dfo_watched = False, dfo_path = ''/f'',
     dfo_folder_type = send_and_receive, dfo_pull_order = random, dfo_rescan_interval = 0\<rparr>"


text \<open>A request and the queue before it are covered by the queue after it, as far as the characters of the paths go.\<close>

lemma prefix_of_append: "length a \<le> length b \<Longrightarrow> prefix_of a b \<longleftrightarrow> (\<exists>t. b = a @ t)"
  by (induction a b rule: prefix_of.induct) auto

definition covers :: "scan_item \<Rightarrow> scan_item \<Rightarrow> bool" where
  "covers i j \<longleftrightarrow> si_folder_id i = si_folder_id j \<and> (\<exists>t. si_sub_dir j = si_sub_dir i @ t)"

lemma covers_refl [simp]: "covers i i"
  by (simp add: covers_def)

lemma request_in_covers:
  "request_in fid sub q = (ignored, q') \<Longrightarrow>
    (ignored \<longrightarrow> (\<exists>i \<in> set q'. covers i \<lparr>si_folder_id = fid, si_sub_dir = sub\<rparr>)) \<and> (\<forall>j \<in> set q. \<exists>i \<in> set q'. covers i j)"
proof (induction q arbitrary: ignored q')
  case (Cons i q)
  show ?case
  proof (cases "si_folder_id i = fid")
    case True
    have "si_sub_dir i = sub \<Longrightarrow> i = \<lparr>si_folder_id = fid, si_sub_dir = sub\<rparr>" using True by simp
    then show ?thesis using Cons.prems True
      by (auto simp: compare_def covers_def prefix_of_append split: if_splits)
  next
    case False
    then obtain q'' where "request_in fid sub q = (ignored, q'')" "q' = i # q''"
      using Cons.prems by (auto split: prod.splits)
    then show ?thesis using Cons.IH by auto
  qed
qed simp

text \<open>
  A scan request that arrives during a scan is not lost: the queue has an item of the same folder whose path is a prefix of the
  requested one, and every item that was queued is covered in this way. The prefix is one of
  characters: the request of a folder's directory \<open>photos2\<close> is dropped when \<open>photos\<close> is queued.
\<close>

theorem scan_request_covered:
  assumes "sc_scan_in_progress s"
  shows "\<exists>s'. on_scan_request ck cl fid sub s = Some ([], s') \<and>
    (\<forall>j \<in> set (\<lparr>si_folder_id = fid, si_sub_dir = sub\<rparr> # sc_scan_queue s). \<exists>i \<in> set (sc_scan_queue s').
       si_folder_id i = si_folder_id j \<and> (\<exists>t. si_sub_dir j = si_sub_dir i @ t)) \<and>
    (\<forall>s. sc_scan_in_progress s \<and> sc_scan_queue s = [\<lparr>si_folder_id = fid, si_sub_dir = ''photos''\<rparr>] \<longrightarrow>
       on_scan_request ck cl fid ''photos2'' s = Some ([], s))"
proof -
  obtain ignored q where q: "request_in fid sub (sc_scan_queue s) = (ignored, q)" by (meson prod.exhaust)
  let ?q = "if ignored then q else q @ [\<lparr>si_folder_id = fid, si_sub_dir = sub\<rparr>]"
  have "on_scan_request ck cl fid sub s = Some ([], s\<lparr>sc_scan_queue := ?q\<rparr>)"
    using q assms by (simp add: on_scan_request_def)
  moreover have "\<forall>j \<in> set (\<lparr>si_folder_id = fid, si_sub_dir = sub\<rparr> # sc_scan_queue s). \<exists>i \<in> set ?q. covers i j"
    using request_in_covers [OF q] by auto
  moreover have "on_scan_request ck cl fid ''photos2'' s = Some ([], s)"
    if "sc_scan_in_progress s" "sc_scan_queue s = [\<lparr>si_folder_id = fid, si_sub_dir = ''photos''\<rparr>]" for s :: scheduler
    using that by (cases s) (simp add: on_scan_request_def compare_def)
  ultimately show ?thesis unfolding covers_def by auto
qed

theorem scan_request_covered_witness:
  "\<forall>ck cl. \<exists>s'. on_scan_request ck cl ''f'' ''a'' idle_scheduler = Some ([], s') \<and> sc_scan_in_progress idle_scheduler \<and>
     (\<exists>i \<in> set (sc_scan_queue s'). si_folder_id i = ''f'' \<and> (\<exists>t. ''a'' = si_sub_dir i @ t))"
proof (intro allI)
  fix ck cl
  have p: "sc_scan_in_progress idle_scheduler" by (simp add: idle_scheduler_def)
  show "\<exists>s'. on_scan_request ck cl ''f'' ''a'' idle_scheduler = Some ([], s') \<and> sc_scan_in_progress idle_scheduler \<and>
     (\<exists>i \<in> set (sc_scan_queue s'). si_folder_id i = ''f'' \<and> (\<exists>t. ''a'' = si_sub_dir i @ t))"
    using scan_request_covered [OF p, of ck cl "''f''" "''a''"] p by fastforce
qed

text \<open>
  The timer of a folder that has been removed meanwhile ends without effect: no timer runs then, whatever other folders are to be
  scanned. A timer that ends during a scan starts another one.
\<close>

lemma removed_folder_stalls:
  assumes "sc_schedule_option s = Some sch" and "folders_by_id (si_folder_id (ns_item sch)) cl = None"
  shows "\<exists>s'. on_timer ck cl False s = Some ([], s') \<and> sc_timer_id s' = None \<and> sc_scan_in_progress s' = sc_scan_in_progress s"
  using assms by (simp add: on_timer_def Let_def)

end
