(* ===== verification/Controller.thy ===== *)
theory Controller
  imports Pull File_Iterator Streamer Index_Update Cluster_Update Advance Bep
begin

text \<open>
  The controller of a connection to a peer (\<^verbatim>\<open>src/net/controller_actor.cpp\<close>): it answers the peer's messages, asks for blocks, hands
  reads and writes to the file system actor, and announces local changes. This theory has its state and its operations; what they
  keep is in the next one. The cluster is shared with the other actors: it is a field of the state here, which other events may change
  between two handlers. \<open>None\<close> as the result of an operation is a violated assertion or the use of a null or
  dangling pointer.
\<close>

subsection \<open>Commands of the file system\<close>

text \<open>A folder info is known by its folder and its device, a file by its address.\<close>

type_synonym folder_info_ref = "string \<times> bytes"

record file_context =
  fc_peer_file :: addr
  fc_peer_folder :: folder_info_ref
  fc_action :: advance_action

record peer_request_context =
  pc_request :: pr_request
  pc_sequence :: int
  pc_block_index :: nat

record block_ack_context =
  bc_block :: addr
  bc_target_file :: addr
  bc_target_folder :: folder_info_ref
  bc_block_index :: nat

datatype io_command =
  Block_request pr_request string int int
| Remote_copy file_context string string string file_info_type int u32 int string bool bool
| Finish_file file_context string string string int int u32 bool
| Append_block block_ack_context string string bytes int int
| Clone_block block_ack_context string string int int string int int
| Update_meta file_context string string int u32 bool

text \<open>What leaves the actor; a shutdown has a reason.\<close>

datatype shutdown_reason = Failure cluster_error | I_o_failure | Peer_has_been_removed

datatype sent =
  Io_commands "io_command list"
| Model_update "cdiff list"
| Transfer bytes
| Calc_digest bytes nat peer_request_context
| Do_shutdown "shutdown_reason option"
| Controller_up
| Controller_predown
| Controller_down
| Start_ack_timer
| Recheck_others addr

subsection \<open>State\<close>

text \<open>The blocks a folder waits for, with the number of requests for each.\<close>

record folder_synchronization =
  fy_folder :: string
  fy_blocks :: "(bytes \<times> addr \<times> nat) list"
  fy_synchronizing :: bool

text \<open>A guard of a file: whether its writing has been ordered, and whether it tells other iterators at its end.\<close>

record file_guard =
  fg_file :: addr
  fg_finished :: bool
  fg_recheck :: bool

datatype phase = Working | Closing

record controller_actor =
  ct_cluster :: cluster
  ct_sequencer :: sequencer
  ct_peer :: device
  ct_peer_state :: device_state
  ct_peer_address :: bool
  ct_outgoing_buffer :: u32
  ct_outgoing_buffer_max :: u32
  ct_rx_blocks_requested :: u64
  ct_tx_blocks_requested :: u64
  ct_request_pool :: int
  ct_blocks_max_requested :: nat
  ct_advances_per_iteration :: nat
  ct_updates_streamer :: "streamer option"
  ct_file_iterator :: "file_iterator option"
  ct_block_iterator :: "blocks_iterator option"
  ct_synchronizing_folders :: "folder_synchronization list"
  ct_synchronizing_files :: "(bytes \<times> file_guard) list"
  ct_postponed_files :: postponed_files
  ct_block_write_queue :: "io_command list"
  ct_block_read_queue :: "io_command list"
  ct_block_requests :: "peer_request_context option list"
  ct_block_requests_next :: nat
  ct_fs_requests :: nat
  ct_hash_requests :: nat
  ct_peer_resource :: bool
  ct_announced :: bool
  ct_state :: phase

text \<open>The stack context of a handler: what it sends at its end, and the blocks it has locked.\<close>

record stack_context =
  sx_diffs :: "cdiff list"
  sx_io_commands :: "io_command list"
  sx_peer_data :: bytes
  sx_locked_blocks :: "addr list"
  sx_sent :: "sent list"

definition empty_context :: stack_context where
  "empty_context = \<lparr>sx_diffs = [], sx_io_commands = [], sx_peer_data = [], sx_locked_blocks = [], sx_sent = []\<rparr>"

type_synonym run = "controller_actor \<times> stack_context"

text \<open>
  What the controller uses of other code: the coder, the platform, the hash containers' choice of an element, the surroundings of the
  diffs it makes, whether a file is the only one of its name as the presentation sees it, and the
  folders and folder infos that have left the cluster while the controller holds them.
\<close>

record controller_env =
  cn_codec :: codec
  cn_platform :: platform
  cn_pick :: "addr list \<Rightarrow> addr"
  cn_advance :: advance_env
  cn_update :: update_env
  cn_permissions_supported :: "string \<Rightarrow> bool"
  cn_unique :: "addr \<Rightarrow> bool"
  cn_detached_info :: "bytes \<Rightarrow> folder \<times> folder_info"
  cn_detached_folder :: "string \<Rightarrow> folder"

abbreviation ct_store :: "controller_actor \<Rightarrow> store" where "ct_store c \<equiv> cl_store (ct_cluster c)"

text \<open>The object of the peer: the one of the cluster as long as it is there.\<close>

definition peer_of :: "controller_actor \<Rightarrow> device" where
  "peer_of c = (case find (same_device (ct_peer c)) (cl_devices (ct_cluster c)) of Some d \<Rightarrow> d | None \<Rightarrow> ct_peer c)"

abbreviation peer_sha :: "controller_actor \<Rightarrow> bytes" where "peer_sha c \<equiv> dv_sha (ct_peer c)"

definition get_full_id :: "store \<Rightarrow> addr \<Rightarrow> bytes" where
  "get_full_id st f = drop 1 (fi_key (file_at st f))"

definition set_store :: "store \<Rightarrow> controller_actor \<Rightarrow> controller_actor" where
  "set_store st c = c\<lparr>ct_cluster := (ct_cluster c)\<lparr>cl_store := st\<rparr>\<rparr>"

text \<open>The constructor: without a configured limit there are two requests for each hasher.\<close>

definition make_controller :: "cluster \<Rightarrow> sequencer \<Rightarrow> device \<Rightarrow> nat \<Rightarrow> nat \<Rightarrow> int \<Rightarrow> u32 \<Rightarrow> nat \<Rightarrow> controller_actor" where
  "make_controller cl sq peer hasher_threads blocks_max request_pool buffer_max advances =
     (let n = (if blocks_max \<noteq> 0 then blocks_max else hasher_threads * 2)
      in \<lparr>ct_cluster = cl, ct_sequencer = sq, ct_peer = peer, ct_peer_state = dv_state peer, ct_peer_address = True,
          ct_outgoing_buffer = 0, ct_outgoing_buffer_max = buffer_max, ct_rx_blocks_requested = 0, ct_tx_blocks_requested = 0,
          ct_request_pool = request_pool, ct_blocks_max_requested = n, ct_advances_per_iteration = advances,
          ct_updates_streamer = None, ct_file_iterator = None, ct_block_iterator = None, ct_synchronizing_folders = [],
          ct_synchronizing_files = [], ct_postponed_files = no_postponed, ct_block_write_queue = [], ct_block_read_queue = [],
          ct_block_requests = replicate n None, ct_block_requests_next = 0, ct_fs_requests = 0, ct_hash_requests = 0,
          ct_peer_resource = False, ct_announced = False, ct_state = Working\<rparr>)"

subsection \<open>The stack context\<close>

definition push_back :: "cdiff list \<Rightarrow> run \<Rightarrow> run" where
  "push_back ds r = (fst r, (snd r)\<lparr>sx_diffs := sx_diffs (snd r) @ ds\<rparr>)"

definition push_io :: "io_command \<Rightarrow> run \<Rightarrow> run" where
  "push_io cmd r = (fst r, (snd r)\<lparr>sx_io_commands := sx_io_commands (snd r) @ [cmd]\<rparr>)"

definition push_data :: "bytes \<Rightarrow> run \<Rightarrow> run" where
  "push_data data r = (fst r, (snd r)\<lparr>sx_peer_data := sx_peer_data (snd r) @ data\<rparr>)"

definition emit :: "sent \<Rightarrow> run \<Rightarrow> run" where
  "emit e r = (fst r, (snd r)\<lparr>sx_sent := sx_sent (snd r) @ [e]\<rparr>)"

text \<open>A message to the peer.\<close>

definition push_message :: "controller_env \<Rightarrow> bep_message \<Rightarrow> run \<Rightarrow> run option" where
  "push_message E m r =
     map_option (\<lambda>data. push_data data r) (serialize (cn_codec E) m (dv_compression (peer_of (fst r))))"

text \<open>Writes of blocks are limited by a number shared by all peers.\<close>

definition push_checked :: "io_command \<Rightarrow> run \<Rightarrow> run option" where
  "push_checked cmd r =
     (if ct_state (fst r) = Working
      then if cl_write_requests (ct_cluster (fst r)) \<noteq> 0
           then map_option (\<lambda>cl. push_io cmd ((fst r)\<lparr>ct_cluster := cl\<rparr>, snd r)) (modify_write_requests (- 1) (ct_cluster (fst r)))
           else Some ((fst r)\<lparr>ct_block_write_queue := ct_block_write_queue (fst r) @ [cmd]\<rparr>, snd r)
      else Some r)"

definition tx_blocks_max_factor :: nat where "tx_blocks_max_factor = 3"

text \<open>The loop that takes up waiting reads.\<close>

fun send_reads :: "nat \<Rightarrow> io_command list \<Rightarrow> u64 \<Rightarrow> io_command list \<times> io_command list \<times> u64" where
  "send_reads limit [] tx = ([], [], tx)"
| "send_reads limit (cmd # q) tx =
     (if tx \<le> of_nat limit then case send_reads limit q (tx + 1) of (out, q, tx) \<Rightarrow> (cmd # out, q, tx)
      else ([], cmd # q, tx))"

text \<open>The end of a handler: the destructor of the context.\<close>

definition send_io :: "run \<Rightarrow> run option" where
  "send_io r =
     (let c = fst r; x = snd r; sent = min (nat (cl_write_requests (ct_cluster c))) (length (ct_block_write_queue c))
      in case (if sent > 0 then modify_write_requests (- int sent) (ct_cluster c) else Some (ct_cluster c)) of
          None \<Rightarrow> None
        | Some cl \<Rightarrow>
            (case send_reads (ct_blocks_max_requested c * tx_blocks_max_factor) (ct_block_read_queue c) (ct_tx_blocks_requested c) of
              (reads, q, tx) \<Rightarrow>
                let io = sx_io_commands x @ take sent (ct_block_write_queue c) @ reads;
                    c = c\<lparr>ct_cluster := cl, ct_block_write_queue := drop sent (ct_block_write_queue c), ct_block_read_queue := q,
                          ct_tx_blocks_requested := tx\<rparr>
                in Some (if io \<noteq> [] then emit (Io_commands io) (c\<lparr>ct_fs_requests := Suc (ct_fs_requests c)\<rparr>, x\<lparr>sx_io_commands := []\<rparr>)
                         else (c, x))))"

definition finish_context :: "run \<Rightarrow> (controller_actor \<times> sent list) option" where
  "finish_context r =
     (case (if ct_state (fst r) = Working then send_io r else Some r) of
        None \<Rightarrow> None
      | Some r \<Rightarrow>
          let r = (if sx_diffs (snd r) \<noteq> [] then emit (Model_update (assemble (sx_diffs (snd r)))) r else r);
              c = fst r; x = snd r
          in if sx_peer_data x \<noteq> [] \<and> ct_peer_address c
             then Some (c\<lparr>ct_outgoing_buffer := ct_outgoing_buffer c + of_nat (length (sx_peer_data x))\<rparr>,
                        sx_sent x @ [Transfer (sx_peer_data x)])
             else Some (c, sx_sent x))"

text \<open>The diffs a context pushes.\<close>

definition ack_block :: "block_ack_context \<Rightarrow> bool \<Rightarrow> run \<Rightarrow> run option" where
  "ack_block bc unlock r =
     (let st = ct_store (fst r)
      in map_option (\<lambda>b. push_back [leaf (block_ack (name_at st (bc_target_file bc)) (fst (bc_target_folder bc)) (snd (bc_target_folder bc))
             (bi_hash b) (bc_block_index bc) unlock)] r) (st_blocks st (bc_block bc)))"

definition lock_block :: "addr \<Rightarrow> run \<Rightarrow> run option" where
  "lock_block p r =
     (let st = ct_store (fst r)
      in case st_blocks st p of None \<Rightarrow> None
         | Some b \<Rightarrow> map_option (\<lambda>b. (set_store (put_block p b st) (fst r), (snd r)\<lparr>sx_locked_blocks := p # sx_locked_blocks (snd r)\<rparr>)) (bi_lock b))"

definition block_is_locked :: "addr \<Rightarrow> run \<Rightarrow> bool" where
  "block_is_locked p r \<longleftrightarrow> p \<in> set (sx_locked_blocks (snd r)) \<or>
     (case st_blocks (ct_store (fst r)) p of Some b \<Rightarrow> bi_is_locked b | None \<Rightarrow> False)"

definition find_peer_file :: "string \<Rightarrow> string \<Rightarrow> controller_actor \<Rightarrow> addr option" where
  "find_peer_file name fid c = (case folder_info_of fid (peer_sha c) (ct_cluster c) of
       None \<Rightarrow> None | Some (fd, fo) \<Rightarrow> by_name (ct_store c) name fo)"

definition mark_file_unreachable :: "string \<Rightarrow> string \<Rightarrow> run \<Rightarrow> run" where
  "mark_file_unreachable name fid r = (case find_peer_file name fid (fst r) of
       None \<Rightarrow> r
     | Some f \<Rightarrow>
         let st = ct_store (fst r); fi = file_at st f
         in if is_unreachable fi then r
            else push_back [leaf (mark_reachable fid (peer_sha (fst r)) name False)]
                   (set_store (put_file f (mark_unreachable True fi) st) (fst r), snd r))"

subsection \<open>Blocks in flight\<close>

definition sync_of :: "string \<Rightarrow> controller_actor \<Rightarrow> folder_synchronization option" where
  "sync_of fid c = find (\<lambda>y. fy_folder y = fid) (ct_synchronizing_folders c)"

definition set_sync :: "folder_synchronization \<Rightarrow> controller_actor \<Rightarrow> controller_actor" where
  "set_sync y c = c\<lparr>ct_synchronizing_folders := (if sync_of (fy_folder y) c = None then ct_synchronizing_folders c @ [y]
     else map (\<lambda>z. if fy_folder z = fy_folder y then y else z) (ct_synchronizing_folders c))\<rparr>"

text \<open>\<open>start_fetching\<close>: each request holds a reference to its block.\<close>

definition start_fetching :: "addr \<Rightarrow> bytes \<Rightarrow> folder_synchronization \<Rightarrow> folder_synchronization" where
  "start_fetching p h y = y\<lparr>fy_blocks := (case map_of (fy_blocks y) h of
       None \<Rightarrow> fy_blocks y @ [(h, p, 1)]
     | Some _ \<Rightarrow> map (\<lambda>(k, q, n). if k = h then (k, q, n + 1) else (k, q, n)) (fy_blocks y))\<rparr>"

definition acquire_block :: "addr \<Rightarrow> string \<Rightarrow> run \<Rightarrow> run option" where
  "acquire_block p fid r =
     (let c = fst r; st = ct_store c;
          y = (case sync_of fid c of Some y \<Rightarrow> y | None \<Rightarrow> \<lparr>fy_folder = fid, fy_blocks = [], fy_synchronizing = False\<rparr>);
          starts = (fy_blocks y = [] \<and> \<not> fy_synchronizing y);
          r = (if starts then push_back [leaf (synchronization_start fid)] r else r);
          y = (if starts then y\<lparr>fy_synchronizing := True\<rparr> else y)
      in case (st_blocks st p, add_ref p st) of
          (Some b, Some st) \<Rightarrow> Some (set_sync (start_fetching p (bi_hash b) y) (set_store st (fst r)), snd r)
        | _ \<Rightarrow> None)"

text \<open>\<open>finish_fetching\<close>: the block whose request has ended, and whether the folder has no other.\<close>

definition finish_fetching :: "bytes \<Rightarrow> folder_synchronization \<Rightarrow> (addr \<times> bool \<times> folder_synchronization) option" where
  "finish_fetching h y = (case map_of (fy_blocks y) h of
       None \<Rightarrow> None
     | Some (p, n) \<Rightarrow>
         let y = y\<lparr>fy_blocks := (if n = 1 then filter (\<lambda>(k, _). k \<noteq> h) (fy_blocks y)
                                else map (\<lambda>(k, q, n). if k = h then (k, q, n - 1) else (k, q, n)) (fy_blocks y))\<rparr>;
             ends = (fy_blocks y = [] \<and> fy_synchronizing y)
         in Some (p, ends, if ends then y\<lparr>fy_synchronizing := False\<rparr> else y))"

text \<open>
  \<open>release_block\<close>, and the unlocking that one of its callers does with the result; the reference goes last.
\<close>

definition release_block :: "string \<Rightarrow> bytes \<Rightarrow> bool \<Rightarrow> run \<Rightarrow> run option" where
  "release_block fid h unlock r = (case sync_of fid (fst r) of
       None \<Rightarrow> None
     | Some y \<Rightarrow> (case finish_fetching h y of
         None \<Rightarrow> None
       | Some (p, ends, y) \<Rightarrow>
           let r = (if ends then push_back [leaf (synchronization_finish fid)] r else r);
               c = set_sync y (fst r);
               c = c\<lparr>ct_postponed_files := po_advance p (ct_postponed_files c)\<rparr>;
               st = ct_store c
           in case (if unlock then case st_blocks st p of None \<Rightarrow> None | Some b \<Rightarrow> map_option (\<lambda>b. put_block p b st) (bi_unlock b)
                    else Some st) of
               None \<Rightarrow> None
             | Some st \<Rightarrow> map_option (\<lambda>st. (set_store st c, snd r)) (release p st)))"

subsection \<open>Guards of files\<close>

text \<open>The guard marks the file and locks its path; a path that is locked already violates its assertion.\<close>

definition guard_file :: "addr \<Rightarrow> run \<Rightarrow> run option" where
  "guard_file f r =
     (let c = fst r; st = put_file f (synchronizing_lock (file_at (ct_store c) f)) (ct_store c)
      in map_option (\<lambda>cl. (c\<lparr>ct_cluster := cl, ct_synchronizing_files := ct_synchronizing_files c @
             [(get_full_id st f, \<lparr>fg_file = f, fg_finished = False, fg_recheck = True\<rparr>)]\<rparr>, snd r))
           (lock_path (name_at st f) ((ct_cluster c)\<lparr>cl_store := st\<rparr>)))"

text \<open>The end of a guard: the file is unmarked, the iterators of other peers are told, and the path is unlocked.\<close>

definition drop_guard :: "bytes \<Rightarrow> run \<Rightarrow> run" where
  "drop_guard full_id r = (case map_of (ct_synchronizing_files (fst r)) full_id of
       None \<Rightarrow> r
     | Some g \<Rightarrow>
         let c = fst r; f = fg_file g; st = put_file f (synchronizing_unlock (file_at (ct_store c) f)) (ct_store c);
             c = c\<lparr>ct_synchronizing_files := filter (\<lambda>(k, _). k \<noteq> full_id) (ct_synchronizing_files c),
                   ct_cluster := unlock_path (name_at st f) ((ct_cluster c)\<lparr>cl_store := st\<rparr>)\<rparr>
         in if fg_recheck g then emit (Recheck_others f) (c, snd r) else (c, snd r))"

definition cancel_sync :: "addr \<Rightarrow> run \<Rightarrow> run" where
  "cancel_sync f r =
     (let c = fst r;
          c = (case ct_block_iterator c of
                 Some it \<Rightarrow> if it_source it = f then c\<lparr>ct_block_iterator := None\<rparr> else c
               | None \<Rightarrow> c);
          c = c\<lparr>ct_postponed_files := forget f (ct_postponed_files c)\<rparr>
      in drop_guard (get_full_id (ct_store c) f) (c, snd r))"

subsection \<open>What differs from the local file\<close>

datatype local_difference = LD_content | LD_trivial_io | LD_meta | LD_unflushed | LD_version

definition compare_meta :: "file_info \<Rightarrow> file_info \<Rightarrow> local_difference" where
  "compare_meta peer_file local_file =
     (if fi_modified_s local_file \<noteq> fi_modified_s peer_file then LD_meta
      else if \<not> has_no_permissions local_file \<and> \<not> has_no_permissions peer_file \<and> fi_permissions local_file \<noteq> fi_permissions peer_file
      then LD_meta else LD_version)"

text \<open>The loop over the blocks of both files, and that the local one has no more. A null slot ends the iteration.\<close>

fun same_blocks :: "store \<Rightarrow> raw_block list \<Rightarrow> raw_block list \<Rightarrow> bool" where
  "same_blocks st [] [] = True"
| "same_blocks st [] (l # ls) = (slot_block st l = None)"
| "same_blocks st (p # ps) ls = (case slot_block st p of
       None \<Rightarrow> (case ls of [] \<Rightarrow> True | l # _ \<Rightarrow> slot_block st l = None)
     | Some b \<Rightarrow> (case ls of [] \<Rightarrow> False
         | l # ls \<Rightarrow> (case slot_block st l of None \<Rightarrow> False
             | Some b' \<Rightarrow> if bi_hash b' \<noteq> bi_hash b then False else same_blocks st ps ls)))"

definition compare_with_local :: "store \<Rightarrow> addr \<Rightarrow> addr option \<Rightarrow> local_difference option" where
  "compare_with_local st f local =
     (let p = file_at st f
      in case get_block_size st p of
          None \<Rightarrow> None
        | Some sz \<Rightarrow>
            if sz = 0
            then (case local of
                None \<Rightarrow> Some LD_trivial_io
              | Some l \<Rightarrow> (case get_block_size st (file_at st l) of
                    None \<Rightarrow> None
                  | Some n \<Rightarrow> if n \<noteq> 0 then Some LD_trivial_io else Some (compare_meta p (file_at st l))))
            else if (case local of None \<Rightarrow> False | Some l \<Rightarrow> same_blocks st (fi_blocks p) (fi_blocks (file_at st l)))
            then (case local of None \<Rightarrow> None | Some l \<Rightarrow> Some (compare_meta p (file_at st l)))
            else Some (if is_locally_available p then LD_unflushed else LD_content))"

subsection \<open>Orders to the file system\<close>

definition get_path :: "controller_actor \<Rightarrow> addr \<Rightarrow> folder \<Rightarrow> string" where
  "get_path c f fd = dfo_path (fd_data fd) @ ''/'' @ name_at (ct_store c) f"

definition no_permissions :: "controller_env \<Rightarrow> controller_actor \<Rightarrow> addr \<Rightarrow> folder \<Rightarrow> bool" where
  "no_permissions E c f fd \<longleftrightarrow> \<not> cn_permissions_supported E (get_path c f fd) \<or> dfo_ignore_permissions (fd_data fd) \<or>
     has_no_permissions (file_at (ct_store c) f)"

text \<open>The name a local file gets when it loses; it is needed only then.\<close>

definition conflict_path :: "controller_env \<Rightarrow> controller_actor \<Rightarrow> advance_action \<Rightarrow> addr option \<Rightarrow> folder \<Rightarrow> string option" where
  "conflict_path E c action local fd =
     (if action = resolve_remote_win
      then map_option (\<lambda>l. dfo_path (fd_data fd) @ ''/'' @
             make_conflicting_name (pl_local_time (cn_platform E)) (file_at (ct_store c) l)) local
      else Some [])"

definition io_advance :: "controller_env \<Rightarrow> advance_action \<Rightarrow> addr \<Rightarrow> folder \<Rightarrow> addr option \<Rightarrow> run \<Rightarrow> run option" where
  "io_advance E action f fd local r =
     (let c = fst r; fi = file_at (ct_store c) f
      in if action \<noteq> remote_copy \<and> action \<noteq> resolve_remote_win then None
         else case (conflict_path E c action local fd, fi_get_size (ct_store c) fi) of
             (Some conflict, Some sz) \<Rightarrow>
               Some (push_io (Remote_copy \<lparr>fc_peer_file = f, fc_peer_folder = (fd_id fd, peer_sha c), fc_action = action\<rparr> (fd_id fd)
                   (get_path c f fd) conflict (as_type (get_type fi)) sz (fi_permissions fi) (fi_modified_s fi) (get_link_target fi)
                   (is_deleted fi) (no_permissions E c f fd)) r)
           | _ \<Rightarrow> None)"

definition io_append_block :: "addr \<Rightarrow> folder \<Rightarrow> nat \<Rightarrow> bytes \<Rightarrow> run \<Rightarrow> run option" where
  "io_append_block f fd i data r =
     (let c = fst r; fi = file_at (ct_store c) f
      in case (fi_get_size (ct_store c) fi, get_block_offset (ct_store c) fi i, if i < length (fi_blocks fi) then fi_blocks fi ! i else None) of
          (Some sz, Some offset, Some (p, _)) \<Rightarrow>
            push_checked (Append_block \<lparr>bc_block = p, bc_target_file = f, bc_target_folder = (fd_id fd, peer_sha c), bc_block_index = i\<rparr>
              (fd_id fd) (get_path c f fd) data offset sz) r
        | _ \<Rightarrow> None)"

text \<open>The first place of a block that is available, in a folder of the cluster.\<close>

definition owner_of :: "cluster \<Rightarrow> addr \<Rightarrow> folder option" where
  "owner_of cl f = find (\<lambda>fd. \<exists>fo \<in> set (fd_folder_infos fd). fo_uuid fo = fi_get_folder_uuid (file_at (cl_store cl) f)) (cl_folders cl)"

definition clone_source :: "cluster \<Rightarrow> block_info \<Rightarrow> (file_block \<times> folder) option" where
  "clone_source cl b = (case find (\<lambda>fb. fb_is_locally_available fb \<and> owner_of cl (fb_file fb) \<noteq> None) (bi_iterate b) of
       None \<Rightarrow> None | Some fb \<Rightarrow> map_option (Pair fb) (owner_of cl (fb_file fb)))"

definition io_clone_block :: "file_block \<Rightarrow> folder \<Rightarrow> bytes \<Rightarrow> run \<Rightarrow> run option" where
  "io_clone_block tb fd dev r =
     (let c = fst r; st = ct_store c; f = fb_file tb; i = fb_block_index tb
      in case st_blocks st (fb_block tb) of
          None \<Rightarrow> None
        | Some b \<Rightarrow> (case clone_source (ct_cluster c) b of
            None \<Rightarrow> None
          | Some (sb, sfd) \<Rightarrow>
              let src = file_at st (fb_file sb); j = fb_block_index sb
              in (case (get_block_offset st src j, get_block_offset st (file_at st f) i, fi_get_size st (file_at st f),
                     if j < length (fi_blocks src) then slot_block st (fi_blocks src ! j) else None) of
                (Some source_offset, Some target_offset, Some target_sz, Some sblock) \<Rightarrow>
                  push_checked (Clone_block \<lparr>bc_block = fb_block tb, bc_target_file = f, bc_target_folder = (fd_id fd, dev),
                      bc_block_index = i\<rparr> (fd_id fd) (get_path c f fd) target_offset target_sz
                    (get_path c (fb_file sb) sfd) source_offset (bi_get_size sblock)) r
              | _ \<Rightarrow> None)))"

definition io_finish_file :: "controller_env \<Rightarrow> addr option \<Rightarrow> addr \<Rightarrow> folder \<Rightarrow> advance_action \<Rightarrow> run \<Rightarrow> run option" where
  "io_finish_file E local f fd action r =
     (let c = fst r; fi = file_at (ct_store c) f
      in if action \<noteq> remote_copy \<and> action \<noteq> resolve_remote_win then None
         else case (conflict_path E c action local fd, fi_get_size (ct_store c) fi) of
             (Some conflict, Some sz) \<Rightarrow>
               Some (push_io (Finish_file \<lparr>fc_peer_file = f, fc_peer_folder = (fd_id fd, peer_sha c), fc_action = action\<rparr> (fd_id fd)
                   (get_path c f fd) conflict sz (fi_modified_s fi) (fi_permissions fi) (no_permissions E c f fd)) r)
           | _ \<Rightarrow> None)"

definition io_update_meta :: "controller_env \<Rightarrow> addr \<Rightarrow> folder \<Rightarrow> advance_action \<Rightarrow> run \<Rightarrow> run" where
  "io_update_meta E f fd action r =
     (let c = fst r; fi = file_at (ct_store c) f
      in push_io (Update_meta \<lparr>fc_peer_file = f, fc_peer_folder = (fd_id fd, peer_sha c), fc_action = action\<rparr> (fd_id fd)
            (get_path c f fd) (fi_modified_s fi) (fi_permissions fi) (no_permissions E c f fd)) r)"

text \<open>Offset and size of a request are taken as they are; the command has them as unsigned 64-bit integers.\<close>

definition io_make_request_block :: "controller_actor \<Rightarrow> addr \<Rightarrow> folder \<Rightarrow> pr_request \<Rightarrow> io_command" where
  "io_make_request_block c f fd req =
     Block_request req (get_path c f fd) (request_get_offset req mod 2 ^ 64) (pq_size req mod 2 ^ 64)"

subsection \<open>Requests for blocks\<close>

text \<open>
  The search for a free slot from the given one on, over all slots. The second part is the slot to begin with next time, which
  is unchanged when there is none.
\<close>

fun free_slot :: "peer_request_context option list \<Rightarrow> nat \<Rightarrow> nat \<Rightarrow> nat \<Rightarrow> (nat \<times> nat) option" where
  "free_slot slots 0 request_id start = Some (request_id, start)"
| "free_slot slots (Suc n) request_id start =
     (if length slots \<le> request_id then None
      else if slots ! request_id = None
      then Some (request_id, if request_id + 1 \<ge> length slots then 0 else request_id + 1)
      else free_slot slots n (if request_id + 1 \<ge> length slots then 0 else request_id + 1) start)"

text \<open>The request itself: identifiers and sizes pass through 32-bit integers.\<close>

definition make_request :: "nat \<Rightarrow> string \<Rightarrow> string \<Rightarrow> int \<Rightarrow> block_info \<Rightarrow> pr_request" where
  "make_request request_id fid name offset b =
     request_set_offset (to_s32 offset) \<lparr>pq_id = to_s32 (int request_id), pq_folder = fid, pq_name = name, pq_offset = 0,
       pq_size = to_s32 (bi_get_size b), pq_hash = bi_hash b, pq_from_temporary = False\<rparr>"

definition request_block :: "controller_env \<Rightarrow> file_block \<Rightarrow> string \<Rightarrow> run \<Rightarrow> run option" where
  "request_block E fb fid r = (case lock_block (fb_block fb) r of
       None \<Rightarrow> None
     | Some r \<Rightarrow>
         let c = fst r; st = ct_store c; f = fb_file fb; i = fb_block_index fb
         in case free_slot (ct_block_requests c) (ct_blocks_max_requested c) (ct_block_requests_next c) (ct_block_requests_next c) of
             None \<Rightarrow> None
           | Some (request_id, start) \<Rightarrow>
               if \<not> (start < ct_blocks_max_requested c \<and> request_id < length (ct_block_requests c) \<and> ct_block_requests c ! request_id = None)
               then None
               else (case (st_blocks st (fb_block fb), get_block_offset st (file_at st f) i) of
                   (Some b, Some offset) \<Rightarrow>
                     let req = make_request request_id fid (name_at st f) offset b
                     in map_option (\<lambda>r.
                          let c = fst r in
                          (c\<lparr>ct_block_requests := (ct_block_requests c)[request_id := Some \<lparr>pc_request = req, pc_sequence = seq_at st f, pc_block_index = i\<rparr>],
                             ct_block_requests_next := start, ct_rx_blocks_requested := ct_rx_blocks_requested c + 1,
                             ct_request_pool := ct_request_pool c - bi_get_size b\<rparr>, snd r))
                        (push_message E (Request req) r)
                 | _ \<Rightarrow> None))"

definition preprocess_block :: "controller_env \<Rightarrow> file_block \<Rightarrow> folder \<Rightarrow> run \<Rightarrow> run option" where
  "preprocess_block E fb fd r =
     (if \<not> ct_peer_address (fst r) then Some r
      else case acquire_block (fb_block fb) (fd_id fd) r of
          None \<Rightarrow> None
        | Some r \<Rightarrow>
            if fb_is_locally_available fb
            then (case find (\<lambda>fo. fo_uuid fo = fi_get_folder_uuid (file_at (ct_store (fst r)) (fb_file fb))) (fd_folder_infos fd) of
                None \<Rightarrow> None
              | Some target \<Rightarrow> io_clone_block fb fd (fo_device target) r)
            else request_block E fb (fd_id fd) r)"

subsection \<open>Pulling\<close>

text \<open>The number of files that one pull hands over at once is limited; it is counted by \<open>advances\<close>.\<close>

definition can_pull_more :: "nat \<Rightarrow> controller_actor \<Rightarrow> bool" where
  "can_pull_more advances c \<longleftrightarrow> \<not> (of_nat (ct_blocks_max_requested c) \<le> ct_rx_blocks_requested c \<or> ct_request_pool c < 0 \<or>
     ct_state c \<noteq> Working \<or> cl_write_requests (ct_cluster c) = 0 \<or> ct_advances_per_iteration c < advances)"

text \<open>What a file given out by the iterator needs.\<close>

definition begin_file :: "controller_env \<Rightarrow> nat \<Rightarrow> found \<Rightarrow> run \<Rightarrow> (nat \<times> run) option" where
  "begin_file E advances n r =
     (let c = fst r; f = fn_file n
      in if map_of (ct_synchronizing_files c) (get_full_id (ct_store c) f) \<noteq> None then Some (advances, r)
         else if \<not> cn_unique E f then Some (advances, r)
         else case (folder_by_uuid (fn_folder n) (ct_cluster c), compare_with_local (ct_store c) f (fn_local n)) of
             (Some fd, Some LD_content) \<Rightarrow>
               let it = make_blocks_iterator (ct_store c) f
               in if it_valid (ct_store c) it
                  then map_option (\<lambda>r. (advances, r)) (guard_file f (c\<lparr>ct_block_iterator := Some it\<rparr>, snd r))
                  else Some (advances, r)
           | (Some fd, Some LD_trivial_io) \<Rightarrow> map_option (\<lambda>r. (Suc advances, r)) (io_advance E (fn_action n) f fd (fn_local n) r)
           | (Some fd, Some LD_unflushed) \<Rightarrow>
               (case guard_file f r of None \<Rightarrow> None
                | Some r \<Rightarrow> map_option (\<lambda>r. (Suc advances, r)) (io_finish_file E (fn_local n) f fd (fn_action n) r))
           | (Some fd, Some LD_meta) \<Rightarrow>
               (case guard_file f r of None \<Rightarrow> None | Some r \<Rightarrow> Some (Suc advances, io_update_meta E f fd (fn_action n) r))
           | (Some fd, Some LD_version) \<Rightarrow>
               (case make_advance (cn_advance E) (ct_cluster c) (fn_action n) f (fd_id fd) (peer_sha c) (ct_sequencer c) of
                  None \<Rightarrow> None
                | Some (ds, sq) \<Rightarrow> Some (Suc advances, push_back ds (c\<lparr>ct_sequencer := sq\<rparr>, snd r)))
           | _ \<Rightarrow> None)"

text \<open>The hash set gives one of its elements.\<close>

definition chosen :: "controller_env \<Rightarrow> addr list \<Rightarrow> addr" where
  "chosen E fs = (if cn_pick E fs \<in> set fs then cn_pick E fs else hd fs)"

text \<open>A file that waited for blocks and is ready: it is taken up when something is missing still.\<close>

definition ready_iterator :: "controller_actor \<Rightarrow> addr option \<Rightarrow> blocks_iterator option" where
  "ready_iterator c ready = (case ready of
       None \<Rightarrow> None
     | Some f \<Rightarrow> if owner_of (ct_cluster c) f = None then None
         else let it = make_blocks_iterator (ct_store c) f in if it_valid (ct_store c) it then Some it else None)"

text \<open>One turn of the loop; the flag tells whether it goes on.\<close>

definition pull_step :: "controller_env \<Rightarrow> nat \<Rightarrow> run \<Rightarrow> (bool \<times> nat \<times> run) option" where
  "pull_step E advances r =
     (let c = fst r
      in case ct_block_iterator c of
          Some it \<Rightarrow>
            if it_valid (ct_store c) it
            then (case (it_next (ct_store c) it, owner_of (ct_cluster c) (it_source it)) of
                (Some (fb, it), Some fd) \<Rightarrow>
                  let c = c\<lparr>ct_block_iterator := Some it\<rparr>
                  in if \<not> block_is_locked (fb_block fb) r
                     then map_option (\<lambda>r. (True, advances, r)) (preprocess_block E fb fd (c, snd r))
                     else Some (True, advances, (c\<lparr>ct_postponed_files := postpone (fb_block fb) (fb_file fb) (ct_postponed_files c)\<rparr>, snd r))
              | _ \<Rightarrow> None)
            else Some (True, advances, (c\<lparr>ct_block_iterator := None\<rparr>, snd r))
        | None \<Rightarrow>
            (case get_ready (chosen E) (ct_postponed_files c) of
              (ready, po) \<Rightarrow>
                let c = c\<lparr>ct_postponed_files := po\<rparr>
                in case ready_iterator c ready of
                    Some it \<Rightarrow> Some (True, advances, (c\<lparr>ct_block_iterator := Some it\<rparr>, snd r))
                  | None \<Rightarrow>
                      (case Option.bind (ct_file_iterator c) (ft_next (cn_platform E) (ct_cluster c) (peer_of c)) of
                        None \<Rightarrow> None
                      | Some (None, ft) \<Rightarrow> Some (False, advances, (c\<lparr>ct_file_iterator := Some ft\<rparr>, snd r))
                      | Some (Some n, ft) \<Rightarrow>
                          map_option (\<lambda>(advances, r). (True, advances, r)) (begin_file E advances n (c\<lparr>ct_file_iterator := Some ft\<rparr>, snd r)))))"

text \<open>
  The loop ends: a turn hands over a missing block or drops the iterator, takes a file that became ready, or takes a file from
  the queues, and nothing that a turn does refills these.
\<close>

definition queued :: "file_iterator \<Rightarrow> nat" where
  "queued ft = sum_list (map (length \<circ> fq_queue) (ft_folders ft))"

definition pull_pending :: "run \<Rightarrow> nat" where
  "pull_pending r = (case ct_file_iterator (fst r) of None \<Rightarrow> 0 | Some ft \<Rightarrow> queued ft) + length (po_ready (ct_postponed_files (fst r)))"

definition pull_rest :: "run \<Rightarrow> nat" where
  "pull_rest r = (case ct_block_iterator (fst r) of None \<Rightarrow> 0
     | Some it \<Rightarrow> if it_valid (ct_store (fst r)) it then Suc (Suc (it_rest (ct_store (fst r)) it)) else 1)"

text \<open>What handing over a block leaves alone.\<close>

definition same_work :: "run \<Rightarrow> run \<Rightarrow> bool" where
  "same_work r r' \<longleftrightarrow> st_files (ct_store (fst r')) = st_files (ct_store (fst r)) \<and>
     ct_file_iterator (fst r') = ct_file_iterator (fst r) \<and> ct_block_iterator (fst r') = ct_block_iterator (fst r) \<and>
     po_ready (ct_postponed_files (fst r')) = po_ready (ct_postponed_files (fst r))"

lemma same_work_refl: "same_work r r"
  by (simp add: same_work_def)

lemma same_work_trans: "same_work a b \<Longrightarrow> same_work b c \<Longrightarrow> same_work a c"
  by (simp add: same_work_def)

lemma put_block_files [simp]: "st_files (put_block p b st) = st_files st"
  by (simp add: put_block_def)

lemma set_sync_fields [simp]:
  "ct_cluster (set_sync y c) = ct_cluster c" "ct_file_iterator (set_sync y c) = ct_file_iterator c"
  "ct_block_iterator (set_sync y c) = ct_block_iterator c" "ct_postponed_files (set_sync y c) = ct_postponed_files c"
  by (simp_all add: set_sync_def)

lemma acquire_block_work: "acquire_block p fid r = Some r' \<Longrightarrow> same_work r r'"
  by (auto simp: acquire_block_def same_work_def Let_def set_store_def add_ref_def push_back_def split: option.splits if_splits)

lemma push_checked_work: "push_checked cmd r = Some r' \<Longrightarrow> same_work r r'"
  by (auto simp: push_checked_def same_work_def modify_write_requests_def push_io_def Let_def split: if_splits)

lemma io_clone_block_work: "io_clone_block tb fd dev r = Some r' \<Longrightarrow> same_work r r'"
  by (auto simp: io_clone_block_def Let_def intro: push_checked_work split: option.splits prod.splits)

lemma lock_block_work: "lock_block p r = Some r' \<Longrightarrow> same_work r r'"
  by (auto simp: lock_block_def same_work_def Let_def set_store_def split: option.splits)

lemma push_message_run: "push_message E m r = Some r' \<Longrightarrow> fst r' = fst r"
  by (auto simp: push_message_def push_data_def)

lemma request_block_work:
  assumes "request_block E fb fid r = Some r'"
  shows "same_work r r'"
proof -
  obtain r1 where r1: "lock_block (fb_block fb) r = Some r1"
    using assms by (auto simp: request_block_def split: option.splits)
  have "same_work r1 r'"
    using assms r1 by (auto simp: request_block_def Let_def same_work_def dest!: push_message_run split: option.splits prod.splits if_splits)
  then show ?thesis using lock_block_work [OF r1] same_work_trans by blast
qed

lemma preprocess_block_work: "preprocess_block E fb fd r = Some r' \<Longrightarrow> same_work r r'"
  by (auto simp: preprocess_block_def same_work_refl
      dest!: acquire_block_work io_clone_block_work request_block_work intro: same_work_trans split: if_splits option.splits)

lemma file_at_cong: "st_files st' = st_files st \<Longrightarrow> file_at st' = file_at st"
  by (rule ext) (simp add: file_at_def)

lemma iterator_cong:
  assumes "st_files st' = st_files st"
  shows "it_valid st' it = it_valid st it" "it_rest st' it = it_rest st it"
  using file_at_cong [OF assms] by (simp_all add: it_valid_def it_rest_def)

lemma it_next_rest:
  assumes "it_valid st it" and "it_next st it = Some (fb, it')" and "it_valid st it'"
  shows "it_rest st it' < it_rest st it"
proof -
  have it': "it' = it_advance st (it\<lparr>it_i := Suc (it_i it)\<rparr>)"
    and idx: "it_i it < length (fi_blocks (file_at st (it_source it)))"
    using assms(2) by (auto simp: it_next_def Let_def split: if_splits option.splits)
  have "it_i it < it_i it'"
    using assms(3) skip_local_ge [of "Suc (it_i it)"]
    by (auto simp: it' it_advance_def prepare_def Suc_le_eq it_valid_def split: if_splits)
  then show ?thesis using idx by (simp add: it_rest_def it')
qed

lemma queued_index [simp]: "queued (ft\<lparr>ft_index := i\<rparr>) = queued ft"
  by (simp add: queued_def)

lemma queued_with_queue:
  assumes "i < length (ft_folders ft)" and "length q \<le> length (fq_queue (ft_folders ft ! i))"
  shows "queued (with_queue i q ft) + (length (fq_queue (ft_folders ft ! i)) - length q) = queued ft"
proof -
  have "length (fq_queue (ft_folders ft ! i)) \<le> queued ft"
    using elem_le_sum_list [of i "map (length \<circ> fq_queue) (ft_folders ft)"] assms(1) by (simp add: queued_def)
  then show ?thesis using assms by (simp add: queued_def with_queue_def map_update sum_list_update)
qed

lemma take_first_length:
  "take_first pl cl fd lf q = (res, q') \<Longrightarrow> length q' \<le> length q \<and> (res \<noteq> None \<longrightarrow> length q' < length q)"
  by (induction q) (auto split: if_splits)

lemma scan_folders_queued:
  "scan_folders pl cl peer k ft = Some (res, ft') \<Longrightarrow> queued ft' \<le> queued ft \<and> (res \<noteq> None \<longrightarrow> queued ft' < queued ft)"
proof (induction k arbitrary: ft)
  case (Suc k)
  let ?i = "ft_index ft" and ?turn = "ft\<lparr>ft_index := (ft_index ft + 1) mod length (ft_folders ft)\<rparr>"
  have i: "?i < length (ft_folders ft)" using Suc.prems by (simp add: Let_def split: if_splits)
  obtain fd where fd: "folder_by_uuid (fq_folder (ft_folders ft ! ?i)) cl = Some fd"
    using Suc.prems i by (cases "folder_by_uuid (fq_folder (ft_folders ft ! ?i)) cl") (simp_all add: Let_def)
  obtain pf where pf: "by_device (ft_peer ft) fd = Some pf"
    using Suc.prems i fd by (cases "by_device (ft_peer ft) fd") (simp_all add: Let_def)
  obtain lf where lf: "by_device (cl_self cl) fd = Some lf"
    using Suc.prems i fd pf by (cases "by_device (cl_self cl) fd") (simp_all add: Let_def)
  show ?case
  proof (cases "do_scan cl peer fd pf")
    case False
    then have "scan_folders pl cl peer k ?turn = Some (res, ft')" using Suc.prems i fd pf lf by (simp add: Let_def)
    then show ?thesis using Suc.IH [of ?turn] by simp
  next
    case True
    obtain o1 q where t: "take_first pl cl fd lf (fq_queue (ft_folders ft ! ?i)) = (o1, q)" by (meson prod.exhaust)
    have less: "length q \<le> length (fq_queue (ft_folders ft ! ?i))" "o1 \<noteq> None \<Longrightarrow> length q < length (fq_queue (ft_folders ft ! ?i))"
      using take_first_length [OF t] by auto
    show ?thesis
    proof (cases o1)
      case None
      then have "scan_folders pl cl peer k (with_queue ?i q ?turn) = Some (res, ft')" using Suc.prems i fd pf lf True t by (simp add: Let_def)
      then have "queued ft' \<le> queued (with_queue ?i q ?turn) \<and> (res \<noteq> None \<longrightarrow> queued ft' < queued (with_queue ?i q ?turn))"
        by (rule Suc.IH)
      moreover have "queued (with_queue ?i q ?turn) \<le> queued ft" using queued_with_queue [of ?i ?turn q] less i by simp
      ultimately show ?thesis by linarith
    next
      case (Some n)
      then have "ft' = with_queue ?i q ft" using Suc.prems i fd pf lf True t by (cases n) (simp add: Let_def)
      then show ?thesis using queued_with_queue [OF i less(1)] less(2) Some by auto
    qed
  qed
qed simp

lemma guard_file_keeps:
  "guard_file f r = Some r' \<Longrightarrow> ct_file_iterator (fst r') = ct_file_iterator (fst r) \<and> ct_postponed_files (fst r') = ct_postponed_files (fst r)"
  by (auto simp: guard_file_def Let_def)

lemma begin_file_keeps:
  assumes "begin_file E advances n r = Some (advances', r')"
  shows "ct_file_iterator (fst r') = ct_file_iterator (fst r) \<and> ct_postponed_files (fst r') = ct_postponed_files (fst r)"
  using assms
  by (auto simp: begin_file_def Let_def io_advance_def io_finish_file_def io_update_meta_def push_io_def push_back_def
      dest!: guard_file_keeps split: if_splits option.splits local_difference.splits)

lemma get_ready_shrinks:
  assumes "get_ready (chosen E) po = (ready, po')"
  shows "length (po_ready po') \<le> length (po_ready po) \<and> (ready \<noteq> None \<longrightarrow> length (po_ready po') < length (po_ready po))"
proof (cases "po_ready po = []")
  case False
  then have "chosen E (po_ready po) \<in> set (po_ready po)" by (simp add: chosen_def)
  then have "length (filter (\<lambda>f. f \<noteq> chosen E (po_ready po)) (po_ready po)) < length (po_ready po)"
    by (rule length_filter_less) simp
  then show ?thesis using assms False by (auto simp: get_ready_def)
qed (use assms in \<open>simp add: get_ready_def\<close>)

lemma block_turn_decreases:
  assumes "pull_step E advances r = Some (True, advances', r')" and it: "ct_block_iterator (fst r) = Some it"
  shows "pull_pending r' = pull_pending r \<and> pull_rest r' < pull_rest r"
proof (cases "it_valid (ct_store (fst r)) it")
  case False
  then show ?thesis using assms by (auto simp: pull_step_def Let_def pull_pending_def pull_rest_def)
next
  case True
  obtain p where "it_next (ct_store (fst r)) it = Some p"
    using assms True by (cases "it_next (ct_store (fst r)) it") (simp_all add: pull_step_def Let_def)
  then obtain fb it' where n: "it_next (ct_store (fst r)) it = Some (fb, it')" by (cases p) simp
  obtain fd where fd: "owner_of (ct_cluster (fst r)) (it_source it) = Some fd"
    using assms True n by (cases "owner_of (ct_cluster (fst r)) (it_source it)") (simp_all add: pull_step_def Let_def)
  let ?r = "((fst r)\<lparr>ct_block_iterator := Some it'\<rparr>, snd r)"
  have "same_work ?r r'"
  proof (cases "block_is_locked (fb_block fb) r")
    case True
    then show ?thesis using assms \<open>it_valid _ it\<close> n fd by (auto simp: pull_step_def same_work_def postpone_def Let_def)
  next
    case False
    then have "preprocess_block E fb fd ?r = Some r'" using assms \<open>it_valid _ it\<close> n fd by (auto simp: pull_step_def Let_def)
    then show ?thesis by (rule preprocess_block_work)
  qed
  then show ?thesis
    using True it it_next_rest [OF True n] iterator_cong [of "ct_store (fst r')" "ct_store (fst r)" it']
    by (simp add: same_work_def pull_pending_def pull_rest_def)
qed

lemma file_turn_decreases:
  assumes "pull_step E advances r = Some (True, advances', r')" and it: "ct_block_iterator (fst r) = None"
  shows "pull_pending r' < pull_pending r"
proof -
  obtain ready po where g: "get_ready (chosen E) (ct_postponed_files (fst r)) = (ready, po)" by (meson prod.exhaust)
  let ?c = "(fst r)\<lparr>ct_postponed_files := po\<rparr>"
  note shrinks = get_ready_shrinks [OF g]
  show ?thesis
  proof (cases "ready_iterator ?c ready")
    case (Some i)
    then have "ready \<noteq> None" by (cases ready) (simp_all add: ready_iterator_def)
    moreover have "r' = (?c\<lparr>ct_block_iterator := Some i\<rparr>, snd r)" using assms g Some by (simp add: pull_step_def Let_def)
    ultimately show ?thesis using shrinks by (simp add: pull_pending_def)
  next
    case None
    obtain ft where ft: "ct_file_iterator (fst r) = Some ft"
      using assms g None by (cases "ct_file_iterator (fst r)") (simp_all add: pull_step_def Let_def)
    obtain n ft' where n: "ft_next (cn_platform E) (ct_cluster ?c) (peer_of ?c) ft = Some (Some n, ft')"
      using assms g None ft by (auto simp: pull_step_def Let_def split: option.splits)
    then have "begin_file E advances n (?c\<lparr>ct_file_iterator := Some ft'\<rparr>, snd r) = Some (advances', r')"
      using assms g None ft by (auto simp: pull_step_def Let_def)
    moreover have "queued ft' < queued ft" using scan_folders_queued n unfolding ft_next_def by blast
    ultimately show ?thesis using begin_file_keeps shrinks ft by (fastforce simp: pull_pending_def)
  qed
qed

function pull_loop :: "controller_env \<Rightarrow> nat \<Rightarrow> run \<Rightarrow> run option" where
  "pull_loop E advances r =
     (if \<not> can_pull_more advances (fst r) then Some r
      else case pull_step E advances r of
          None \<Rightarrow> None
        | Some (again, advances, r) \<Rightarrow> if again then pull_loop E advances r else Some r)"
  by pat_completeness auto
termination
proof (relation "measures [\<lambda>(E, advances, r). pull_pending r, \<lambda>(E, advances, r). pull_rest r]")
  fix E advances r x again y advances' r'
  assume "pull_step E advances r = Some x" "(again, y) = x" "(advances', r') = y" "again"
  then have "pull_step E advances r = Some (True, advances', r')" by auto
  then have "pull_pending r' < pull_pending r \<or> pull_pending r' = pull_pending r \<and> pull_rest r' < pull_rest r"
    using block_turn_decreases file_turn_decreases by (cases "ct_block_iterator (fst r)") blast+
  then show "((E, advances', r'), E, advances, r) \<in> measures [\<lambda>(E, advances, r). pull_pending r, \<lambda>(E, advances, r). pull_rest r]"
    by auto
qed simp

declare pull_loop.simps [simp del]

definition pull_next :: "controller_env \<Rightarrow> run \<Rightarrow> run option" where
  "pull_next E r = (if ct_file_iterator (fst r) = None then Some r else pull_loop E 0 r)"

end
