(* ===== verification/Controller_Events.thy ===== *)
theory Controller_Events
  imports Controller
begin

text \<open>
  The events of the controller of a connection (\<^verbatim>\<open>src/net/controller_actor.cpp\<close>): start and shutdown, messages of the peer,
  answers of the file system and of the hashers, and changes of the model. Every handler is a function of the state of the actor,
  which gives the new state and what leaves the actor; \<open>None\<close> is a violated assertion or the use of a null or dangling pointer.
\<close>

subsection \<open>Announcing local files\<close>

text \<open>The folder infos the streamer reads; one that has left the cluster is kept alive by the streamer.\<close>

definition info_by_uuid :: "controller_env \<Rightarrow> cluster \<Rightarrow> bytes \<Rightarrow> folder \<times> folder_info" where
  "info_by_uuid E cl k = (case folder_info_by_uuid k cl of Some p \<Rightarrow> p | None \<Rightarrow> cn_detached_info E k)"

definition infos_of :: "controller_env \<Rightarrow> cluster \<Rightarrow> infos" where
  "infos_of E cl k = snd (info_by_uuid E cl k)"

text \<open>The updates of one push: a folder info, the files announced of it, and whether its first file is among them.\<close>

type_synonym index_update = "bytes \<times> pr_file list \<times> bool"

definition add_update :: "bytes \<Rightarrow> pr_file \<Rightarrow> bool \<Rightarrow> index_update list \<Rightarrow> index_update list" where
  "add_update k m first us =
     (if \<exists>u \<in> set us. fst u = k then map (\<lambda>(j, ms, b). if j = k then (j, ms @ [m], b \<or> first) else (j, ms, b)) us
      else us @ [(k, [m], first)])"

text \<open>
  The loop that takes files from the streamer until the room is used. The sizes are unsigned 32-bit integers. The number of turns is
  bounded by \<open>fuel\<close>; the streamer has one file less after each.
\<close>

fun take_updates ::
  "(addr list \<Rightarrow> addr) \<Rightarrow> bytes \<Rightarrow> store \<Rightarrow> infos \<Rightarrow> u32 \<Rightarrow> nat \<Rightarrow> u32 \<Rightarrow> streamer \<Rightarrow> index_update list \<Rightarrow> (index_update list \<times> streamer) option" where
  "take_updates pick empty_digest st info room 0 expected s us = (if expected < room then None else Some (us, s))"
| "take_updates pick empty_digest st info room (Suc fuel) expected s us =
     (if expected < room
      then case sm_next pick st info s of
          (None, s) \<Rightarrow> Some (us, s)
        | (Some (f, k, first), s) \<Rightarrow>
            (case as_proto empty_digest st (file_at st f) True of
               None \<Rightarrow> None
             | Some m \<Rightarrow> take_updates pick empty_digest st info room fuel (expected + of_nat (expected_meta_size (file_at st f))) s
                 (add_update k m first us))
      else Some (us, s))"

text \<open>The messages: a first announcement of a folder goes uncompressed as an index.\<close>

fun push_updates :: "controller_env \<Rightarrow> (bytes \<Rightarrow> string) \<Rightarrow> index_update list \<Rightarrow> run \<Rightarrow> run option" where
  "push_updates E folder_id [] r = Some r"
| "push_updates E folder_id ((k, ms, first) # us) r =
     (let m = \<lparr>pi_folder = folder_id k, pi_files = ms\<rparr>
      in case (if first then serialize (cn_codec E) (Index m) NEVER
               else serialize (cn_codec E) (IndexUpdate m) (dv_compression (peer_of (fst r)))) of
          None \<Rightarrow> None
        | Some data \<Rightarrow> push_updates E folder_id us (push_data data r))"

text \<open>The room is what the outgoing buffer leaves of its maximum, as an unsigned integer.\<close>

definition tx_room :: "controller_actor \<Rightarrow> u32" where
  "tx_room c = ct_outgoing_buffer_max c - ct_outgoing_buffer c"

definition push_pending :: "controller_env \<Rightarrow> run \<Rightarrow> run option" where
  "push_pending E r = (let c = fst r; st = ct_store c; info = infos_of E (ct_cluster c)
      in case ct_updates_streamer c of
          None \<Rightarrow> Some r
        | Some s \<Rightarrow>
            if \<not> ct_peer_address c then Some r
            else (case take_updates (cn_pick E) (ae_empty_digest (cn_advance E)) st info (tx_room c)
                         (Suc (length (outstanding st info s))) 0 s [] of
                None \<Rightarrow> None
              | Some (us, s) \<Rightarrow>
                  push_updates E (\<lambda>k. fd_id (fst (info_by_uuid E (ct_cluster c) k))) us (c\<lparr>ct_updates_streamer := Some s\<rparr>, snd r)))"

text \<open>A refresh of the streamer for every shared folder of which the peer has another index.\<close>

fun refresh_stale :: "controller_actor \<Rightarrow> folder list \<Rightarrow> streamer \<Rightarrow> streamer option" where
  "refresh_stale c [] s = Some s"
| "refresh_stale c (fd # fds) s =
     (let cl = ct_cluster c; peer = peer_of c
      in case (is_shared_with (dv_sha peer) fd, view_get (cl_self cl) (fd_id fd) (dv_remote_view_map peer)) of
          (Some _, Some (index_id, _)) \<Rightarrow>
            (case by_device (cl_self cl) fd of
               None \<Rightarrow> None
             | Some fo \<Rightarrow>
                 if index_id \<noteq> fo_index fo
                 then (case refresh_remote cl peer s of None \<Rightarrow> None | Some s \<Rightarrow> refresh_stale c fds s)
                 else refresh_stale c fds s)
        | _ \<Rightarrow> refresh_stale c fds s)"

definition send_new_indices :: "controller_actor \<Rightarrow> controller_actor option" where
  "send_new_indices c = (case ct_updates_streamer c of
       None \<Rightarrow> Some c
     | Some s \<Rightarrow> if \<not> ct_peer_address c then Some c
         else map_option (\<lambda>s. c\<lparr>ct_updates_streamer := Some s\<rparr>) (refresh_stale c (cl_folders (ct_cluster c)) s))"

definition device_behind :: "cluster \<Rightarrow> bytes \<Rightarrow> device" where
  "device_behind cl sha = (case devices_by_sha256 sha (cl_devices cl) of Some d \<Rightarrow> d | None \<Rightarrow> cl_device cl)"

definition send_cluster_config :: "controller_env \<Rightarrow> run \<Rightarrow> run option" where
  "send_cluster_config E r =
     (let cl = ct_cluster (fst r)
      in case push_message E (ClusterConfig (cluster_generate (device_behind cl) (peer_sha (fst r)) (cl_folders cl))) r of
          None \<Rightarrow> None
        | Some r \<Rightarrow> map_option (\<lambda>c. (c, snd r)) (send_new_indices (fst r)))"

subsection \<open>Start and shutdown\<close>

definition on_start :: "controller_env \<Rightarrow> controller_actor \<Rightarrow> (controller_actor \<times> sent list) option" where
  "on_start E c = (case ds_less (ct_peer_state c) (dv_state (peer_of c)) of
       None \<Rightarrow> None
     | Some True \<Rightarrow> Some (c, [Do_shutdown None])
     | Some False \<Rightarrow> (case send_cluster_config E (emit Controller_up (c, empty_context)) of
         None \<Rightarrow> None
       | Some r \<Rightarrow> finish_context ((fst r)\<lparr>ct_peer_resource := True, ct_announced := True\<rparr>, snd r)))"

definition shutdown_start :: "controller_actor \<Rightarrow> controller_actor \<times> sent list" where
  "shutdown_start c = (c\<lparr>ct_state := Closing\<rparr>, Controller_predown # (if ct_fs_requests c > 0 then [Start_ack_timer] else []))"

text \<open>The destructor of the state of a folder, and of the references it holds.\<close>

fun unlock_all :: "(bytes \<times> addr \<times> nat) list \<Rightarrow> store \<Rightarrow> store option" where
  "unlock_all [] st = Some st"
| "unlock_all ((h, p, n) # bs) st = (case st_blocks st p of
       None \<Rightarrow> None
     | Some b \<Rightarrow> (case (if bi_is_locked b then map_option (\<lambda>b. put_block p b st) (bi_unlock b) else Some st) of
         None \<Rightarrow> None
       | Some st \<Rightarrow> unlock_all bs st))"

fun release_times :: "nat \<Rightarrow> addr \<Rightarrow> store \<Rightarrow> store option" where
  "release_times 0 p st = Some st"
| "release_times (Suc n) p st = (case File_Info.release p st of None \<Rightarrow> None | Some st \<Rightarrow> release_times n p st)"

fun release_all :: "(bytes \<times> addr \<times> nat) list \<Rightarrow> store \<Rightarrow> store option" where
  "release_all [] st = Some st"
| "release_all ((h, p, n) # bs) st = (case release_times n p st of None \<Rightarrow> None | Some st \<Rightarrow> release_all bs st)"

definition drop_sync :: "controller_env \<Rightarrow> folder_synchronization \<Rightarrow> controller_actor \<times> sent list \<Rightarrow> (controller_actor \<times> sent list) option" where
  "drop_sync E y r =
     (let c = fst r; st = ct_store c;
          suspended = fd_suspended (case folders_by_id (fy_folder y) (ct_cluster c) of Some fd \<Rightarrow> fd | None \<Rightarrow> cn_detached_folder E (fy_folder y));
          ends = (fy_blocks y \<noteq> [] \<and> \<not> suspended);
          out = (if ends \<and> fy_synchronizing y then [Model_update [leaf (synchronization_finish (fy_folder y))]] else [])
      in case (if ends then unlock_all (fy_blocks y) st else Some st) of
          None \<Rightarrow> None
        | Some st \<Rightarrow> map_option (\<lambda>st. (set_store st c, snd r @ out)) (release_all (fy_blocks y) st))"

fun drop_syncs :: "controller_env \<Rightarrow> folder_synchronization list \<Rightarrow> controller_actor \<times> sent list \<Rightarrow> (controller_actor \<times> sent list) option" where
  "drop_syncs E [] r = Some r"
| "drop_syncs E (y # ys) r = (case drop_sync E y r of None \<Rightarrow> None | Some r \<Rightarrow> drop_syncs E ys r)"

definition shutdown_finish :: "controller_env \<Rightarrow> controller_actor \<Rightarrow> (controller_actor \<times> sent list) option" where
  "shutdown_finish E c = (case drop_syncs E (ct_synchronizing_folders c) (c\<lparr>ct_file_iterator := None\<rparr>, []) of
       None \<Rightarrow> None
     | Some (c, out) \<Rightarrow>
         let c = c\<lparr>ct_synchronizing_folders := [], ct_postponed_files := po_clear (ct_postponed_files c)\<rparr>;
             r = foldl (\<lambda>r k. drop_guard k r) (c, empty_context) (map fst (ct_synchronizing_files c))
         in Some (fst r, out @ sx_sent (snd r) @ (if ct_announced c then [Controller_down] else [])))"

definition on_tx_signal :: "controller_env \<Rightarrow> controller_actor \<Rightarrow> (controller_actor \<times> sent list) option" where
  "on_tx_signal E c = Option.bind (push_pending E (c, empty_context)) finish_context"

text \<open>The peer of the message is the address the actor has, or another one.\<close>

definition on_peer_down :: "bool \<Rightarrow> cluster_error \<Rightarrow> controller_actor \<Rightarrow> controller_actor \<times> sent list" where
  "on_peer_down same ee c =
     (if same
      then (if ct_peer_resource c then c\<lparr>ct_peer_resource := False, ct_peer_address := False\<rparr> else c, [Do_shutdown (Some (Failure ee))])
      else (c, []))"

definition on_fs_predown :: "controller_actor \<Rightarrow> controller_actor \<times> sent list" where
  "on_fs_predown c = (c, [Do_shutdown None])"

text \<open>The requests to the file system are given up; as many writes are given back.\<close>

definition on_fs_ack_timer :: "bool \<Rightarrow> controller_actor \<Rightarrow> controller_actor option" where
  "on_fs_ack_timer cancelled c =
     (if \<not> cancelled \<and> ct_fs_requests c > 0
      then map_option (\<lambda>cl. c\<lparr>ct_fs_requests := 0, ct_cluster := cl\<rparr>)
             (modify_write_requests (int (ct_fs_requests c)) (ct_cluster c))
      else Some c)"

subsection \<open>Messages of the peer\<close>

text \<open>A diff made from a message: an error ends the connection.\<close>

definition received :: "(cluster_error, cdiff \<times> sequencer) result \<Rightarrow> run \<Rightarrow> run option" where
  "received res r = (case res of
       Inl e \<Rightarrow> if e = assertion_failed then None else Some (emit (Do_shutdown (Some (Failure e))) r)
     | Inr (d, sq) \<Rightarrow> Some (push_back [d] ((fst r)\<lparr>ct_sequencer := sq\<rparr>, snd r)))"

text \<open>What a request of the peer is answered with at once, or the file whose block it gets.\<close>

definition requested_file :: "controller_actor \<Rightarrow> pr_request \<Rightarrow> (bep_code, addr \<times> folder) result option" where
  "requested_file c req = (case folders_by_id (pq_folder req) (ct_cluster c) of
       None \<Rightarrow> Some (Inl NO_SUCH_FILE)
     | Some fd \<Rightarrow>
         if fd_suspended fd then Some (Inl GENERIC)
         else if by_device (peer_sha c) fd = None then Some (Inl NO_SUCH_FILE)
         else (case by_device (cl_self (ct_cluster c)) fd of
             None \<Rightarrow> None
           | Some fo \<Rightarrow> (case by_name (ct_store c) (pq_name req) fo of
               None \<Rightarrow> Some (Inl NO_SUCH_FILE)
             | Some f \<Rightarrow> Some (if is_file (file_at (ct_store c) f) then Inr (f, fd) else Inl GENERIC))))"

definition on_request :: "controller_env \<Rightarrow> pr_request \<Rightarrow> run \<Rightarrow> run option" where
  "on_request E req r = (let c = fst r in case requested_file c req of
       None \<Rightarrow> None
     | Some (Inl code) \<Rightarrow>
         if ct_peer_address c then push_message E (Response \<lparr>ps_id = pq_id req, ps_data = [], ps_code = code\<rparr>) r else Some r
     | Some (Inr (f, fd)) \<Rightarrow>
         let cmd = io_make_request_block c f fd req
         in if of_nat (ct_blocks_max_requested c * tx_blocks_max_factor) < ct_tx_blocks_requested c
            then Some (c\<lparr>ct_block_read_queue := ct_block_read_queue c @ [cmd]\<rparr>, snd r)
            else Some (push_io cmd (c\<lparr>ct_tx_blocks_requested := ct_tx_blocks_requested c + 1\<rparr>, snd r)))"

text \<open>
  The file a request was made for, when it is still the same, with the place of the block in it. A file that has gone from the
  folder is a null pointer.
\<close>

definition answered :: "controller_actor \<Rightarrow> peer_request_context \<Rightarrow> (addr \<times> file_block \<times> block_info) option option" where
  "answered c pc =
     (let st = ct_store c; req = pc_request pc
      in case folders_by_id (pq_folder req) (ct_cluster c) of
          None \<Rightarrow> Some None
        | Some fd \<Rightarrow> if fd_suspended fd then Some None else (case by_device (peer_sha c) fd of
            None \<Rightarrow> Some None
          | Some fo \<Rightarrow> (case by_name st (pq_name req) fo of
              None \<Rightarrow> None
            | Some f \<Rightarrow>
                if seq_at st f \<noteq> pc_sequence pc then Some None
                else let fi = file_at st f; i = pc_block_index pc
                     in case (if is_file fi \<and> i < length (fi_blocks fi) then slot_block st (fi_blocks fi ! i) else None) of
                         None \<Rightarrow> None
                       | Some b \<Rightarrow> Some (map_option (\<lambda>fb. (f, fb, b)) (find (\<lambda>fb. fb_file fb = f) (bi_iterate b))))))"

text \<open>
  What a response does: the context of its own that marks the file, whether more is pulled and whether the block is given back.
\<close>

definition take_response ::
  "peer_request_context \<Rightarrow> (addr \<times> file_block \<times> block_info) option \<Rightarrow> pr_response \<Rightarrow> run \<Rightarrow> run \<times> stack_context \<times> bool \<times> bool" where
  "take_response pc found m r =
     (if ct_state (fst r) \<noteq> Working then (r, empty_context, False, True)
      else case found of
          None \<Rightarrow> (r, empty_context, True, True)
        | Some (f, fb, b) \<Rightarrow>
            if ps_code m \<noteq> NO_BEP_ERROR
            then if is_unreachable (file_at (ct_store (fst r)) f) then (r, empty_context, True, True)
                 else let q = mark_file_unreachable (pq_name (pc_request pc)) (pq_folder (pc_request pc)) (fst r, empty_context)
                      in (cancel_sync f (fst q, snd r), snd q, True, True)
            else (emit (Calc_digest (ps_data m) (fb_block_index fb) pc)
                    ((fst r)\<lparr>ct_request_pool := ct_request_pool (fst r) + bi_get_size b, ct_hash_requests := Suc (ct_hash_requests (fst r))\<rparr>, snd r),
                  empty_context, True, False))"

definition on_response :: "controller_env \<Rightarrow> pr_response \<Rightarrow> run \<Rightarrow> run option" where
  "on_response E m r =
     (let c = (fst r)\<lparr>ct_rx_blocks_requested := ct_rx_blocks_requested (fst r) - 1\<rparr>; request_id = ps_id m
      in if request_id > int (length (ct_block_requests c)) \<or> request_id < 0 then Some (emit (Do_shutdown None) (c, snd r))
         else if length (ct_block_requests c) \<le> nat request_id then None
         else case ct_block_requests c ! nat request_id of
             None \<Rightarrow> Some (emit (Do_shutdown None) (c, snd r))
           | Some pc \<Rightarrow>
               let c = c\<lparr>ct_block_requests := (ct_block_requests c)[nat request_id := None], ct_block_requests_next := nat request_id\<rparr>
               in case answered c pc of
                   None \<Rightarrow> None
                 | Some found \<Rightarrow>
                     (case take_response pc found m (c, snd r) of
                       (r, own, try_next, give_back) \<Rightarrow>
                         (case (if try_next then pull_next E r else Some r) of
                            None \<Rightarrow> None
                          | Some r \<Rightarrow>
                              (case (if give_back then release_block (pq_folder (pc_request pc)) (pq_hash (pc_request pc)) False r else Some r) of
                                 None \<Rightarrow> None
                               | Some r \<Rightarrow> map_option (\<lambda>(c, out). (c, (snd r)\<lparr>sx_sent := sx_sent (snd r) @ out\<rparr>))
                                     (finish_context (fst r, own))))))"

text \<open>The messages that are forwarded; the connection deals with the others itself.\<close>

fun on_message :: "controller_env \<Rightarrow> bep_message \<Rightarrow> run \<Rightarrow> run option" where
  "on_message E (ClusterConfig m) r =
     received (make_cluster_update (cn_update E) (ct_cluster (fst r)) (peer_of (fst r)) m (ct_sequencer (fst r))) r"
| "on_message E (Index m) r = received (make_update_folder (ct_cluster (fst r)) (peer_sha (fst r)) m (ct_sequencer (fst r))) r"
| "on_message E (IndexUpdate m) r = received (make_update_folder (ct_cluster (fst r)) (peer_sha (fst r)) m (ct_sequencer (fst r))) r"
| "on_message E (Request m) r = on_request E m r"
| "on_message E (Response m) r = on_response E m r"
| "on_message E _ r = Some r"

fun on_messages :: "controller_env \<Rightarrow> bep_message list \<Rightarrow> run \<Rightarrow> run option" where
  "on_messages E [] r = Some r"
| "on_messages E (m # ms) r = (case on_message E m r of None \<Rightarrow> None | Some r \<Rightarrow> on_messages E ms r)"

definition on_forward :: "controller_env \<Rightarrow> bep_message list \<Rightarrow> controller_actor \<Rightarrow> (controller_actor \<times> sent list) option" where
  "on_forward E ms c = (if ct_state c \<noteq> Working then Some (c, [])
     else Option.bind (on_messages E ms (c, empty_context)) finish_context)"

subsection \<open>Answers of the file system\<close>

definition advance_file :: "controller_env \<Rightarrow> file_context \<Rightarrow> run \<Rightarrow> run option" where
  "advance_file E x r =
     (let c = fst r
      in map_option (\<lambda>(ds, sq). push_back ds (c\<lparr>ct_sequencer := sq\<rparr>, snd r))
           (make_advance (cn_advance E) (ct_cluster c) (fc_action x) (fc_peer_file x) (fst (fc_peer_folder x)) (snd (fc_peer_folder x))
             (ct_sequencer c)))"

definition file_done :: "controller_env \<Rightarrow> file_context \<Rightarrow> bytes option \<Rightarrow> run \<Rightarrow> run option" where
  "file_done E x result r = (if result \<noteq> None then advance_file E x r
     else Some (mark_file_unreachable (name_at (ct_store (fst r)) (fc_peer_file x)) (fst (fc_peer_folder x)) r))"

definition block_done :: "block_ack_context \<Rightarrow> bool \<Rightarrow> bytes option \<Rightarrow> run \<Rightarrow> run option" where
  "block_done x unlock result r = (if result \<noteq> None then ack_block x unlock r
     else Some (mark_file_unreachable (name_at (ct_store (fst r)) (bc_target_file x)) (fst (bc_target_folder x)) r))"

definition reply_block :: "controller_env \<Rightarrow> pr_request \<Rightarrow> bytes option \<Rightarrow> run \<Rightarrow> run option" where
  "reply_block E req result r =
     (let c = (fst r)\<lparr>ct_tx_blocks_requested := ct_tx_blocks_requested (fst r) - 1\<rparr>
      in if \<not> ct_peer_address c then Some (c, snd r)
         else push_message E (Response (case result of
                None \<Rightarrow> \<lparr>ps_id = pq_id req, ps_data = [], ps_code = GENERIC\<rparr>
              | Some data \<Rightarrow> \<lparr>ps_id = pq_id req, ps_data = data, ps_code = NO_BEP_ERROR\<rparr>)) (c, snd r))"

text \<open>A finished command with its result, \<open>None\<close> being an error; only the one of a read has data.\<close>

fun postprocess_io :: "controller_env \<Rightarrow> io_command \<Rightarrow> bytes option \<Rightarrow> run \<Rightarrow> run option" where
  "postprocess_io E (Block_request req path offset sz) result r = reply_block E req result r"
| "postprocess_io E (Remote_copy x fid path conflict ty sz perms modified tgt del noperm) result r = file_done E x result r"
| "postprocess_io E (Finish_file x fid path conflict sz modified perms noperm) result r = file_done E x result r"
| "postprocess_io E (Append_block x fid path data offset sz) result r = block_done x True result r"
| "postprocess_io E (Clone_block x fid path offset sz spath soffset ssz) result r = block_done x False result r"
| "postprocess_io E (Update_meta x fid path modified perms noperm) result r = file_done E x result r"

fun is_write :: "io_command \<Rightarrow> bool" where
  "is_write (Append_block x fid path data offset sz) = True"
| "is_write (Clone_block x fid path offset sz spath soffset ssz) = True"
| "is_write _ = False"

fun is_read :: "io_command \<Rightarrow> bool" where
  "is_read (Block_request req path offset sz) = True"
| "is_read _ = False"

fun postprocess_all :: "controller_env \<Rightarrow> (io_command \<times> bytes option) list \<Rightarrow> run \<Rightarrow> run option" where
  "postprocess_all E [] r = Some r"
| "postprocess_all E ((cmd, result) # cmds) r =
     (case (if is_write cmd then modify_write_requests 1 (ct_cluster (fst r)) else Some (ct_cluster (fst r))) of
        None \<Rightarrow> None
      | Some cl \<Rightarrow> (case postprocess_io E cmd result ((fst r)\<lparr>ct_cluster := cl\<rparr>, snd r) of
          None \<Rightarrow> None
        | Some r \<Rightarrow> postprocess_all E cmds
            (if \<not> is_read cmd \<and> result = None then emit (Do_shutdown (Some I_o_failure)) r else r)))"

definition on_postprocess_io :: "controller_env \<Rightarrow> (io_command \<times> bytes option) list \<Rightarrow> controller_actor \<Rightarrow> (controller_actor \<times> sent list) option" where
  "on_postprocess_io E cmds c =
     (if ct_fs_requests c = 0 then None
      else case postprocess_all E cmds (c\<lparr>ct_fs_requests := ct_fs_requests c - 1\<rparr>, empty_context) of
          None \<Rightarrow> None
        | Some r \<Rightarrow> Option.bind (pull_next E r) finish_context)"

subsection \<open>Digests\<close>

text \<open>The digest of a block as the hasher found it: whether the block is given back and whether more is pulled.\<close>

definition take_digest ::
  "peer_request_context \<Rightarrow> (addr \<times> file_block \<times> block_info) option \<Rightarrow> bytes \<Rightarrow> bytes option \<Rightarrow> run \<Rightarrow> (run \<times> bool \<times> bool) option" where
  "take_digest pc found data digest r =
     (let c = fst r
      in if ct_state c \<noteq> Working then Some (r, True, False)
         else case found of
             None \<Rightarrow> Some (r, True, False)
           | Some (f, fb, b) \<Rightarrow>
               if \<not> ct_peer_address c then Some (r, True, False)
               else if digest \<noteq> Some (bi_hash b)
               then Some (if is_unreachable (file_at (ct_store c) f) then r
                          else mark_file_unreachable (pq_name (pc_request pc)) (pq_folder (pc_request pc)) r, True, True)
               else if fb_is_locally_available fb then Some (r, True, True)
               else (case folders_by_id (pq_folder (pc_request pc)) (ct_cluster c) of
                   None \<Rightarrow> None
                 | Some fd \<Rightarrow> map_option (\<lambda>r. (r, False, False)) (io_append_block f fd (fb_block_index fb) data r)))"

definition on_digest :: "controller_env \<Rightarrow> peer_request_context \<Rightarrow> bytes \<Rightarrow> bytes option \<Rightarrow> controller_actor \<Rightarrow> (controller_actor \<times> sent list) option" where
  "on_digest E pc data digest c =
     (if ct_hash_requests c = 0 then None
      else let c = c\<lparr>ct_hash_requests := ct_hash_requests c - 1\<rparr>
           in case answered c pc of
               None \<Rightarrow> None
             | Some found \<Rightarrow> (case take_digest pc found data digest (c, empty_context) of
                 None \<Rightarrow> None
               | Some (r, give_back, try_next) \<Rightarrow>
                   (case (if give_back
                          then map_option (\<lambda>r. case found of None \<Rightarrow> r | Some (f, _) \<Rightarrow> cancel_sync f r)
                                 (release_block (pq_folder (pc_request pc)) (pq_hash (pc_request pc)) False r)
                          else Some r) of
                      None \<Rightarrow> None
                    | Some r \<Rightarrow> Option.bind (if try_next then pull_next E r else Some r) finish_context)))"

subsection \<open>Changes of the model\<close>

text \<open>The context of an update: what is sent, and whether the cluster configuration has been sent already.\<close>

type_synonym update_run = "run \<times> bool"

definition config_once :: "controller_env \<Rightarrow> update_run \<Rightarrow> update_run option" where
  "config_once E v = (if snd v then Some v else map_option (\<lambda>r. (r, True)) (send_cluster_config E (fst v)))"

definition with_streamer :: "(streamer \<Rightarrow> streamer option) \<Rightarrow> run \<Rightarrow> run option" where
  "with_streamer upd r = (case ct_updates_streamer (fst r) of
       None \<Rightarrow> Some r
     | Some s \<Rightarrow> map_option (\<lambda>s. ((fst r)\<lparr>ct_updates_streamer := Some s\<rparr>, snd r)) (upd s))"

definition announce :: "controller_env \<Rightarrow> addr \<Rightarrow> folder_info \<Rightarrow> run \<Rightarrow> run option" where
  "announce E f fo r =
     (let c = fst r; cl = ct_cluster c
      in with_streamer (\<lambda>s. map_option snd (on_update (cn_pick E) (cl_store cl) (infos_of E cl) (cl_self cl) f fo s)) r)"

definition after_cluster_update :: "controller_env \<Rightarrow> bool \<Rightarrow> run \<Rightarrow> run option" where
  "after_cluster_update E from_self r =
     (if \<not> from_self then Some r
      else let c = fst r; cl = ct_cluster c
           in case make_streamer cl (peer_of c) of
               None \<Rightarrow> None
             | Some s \<Rightarrow> (case send_new_indices (c\<lparr>ct_updates_streamer := Some s\<rparr>) of
                 None \<Rightarrow> None
               | Some c \<Rightarrow>
                   if ct_file_iterator c \<noteq> None then Some (c, snd r)
                   else map_option (\<lambda>ft. (c\<lparr>ct_file_iterator := Some ft\<rparr>, snd r)) (make_file_iterator (cn_platform E) cl (peer_sha c))))"

fun cancel_files :: "folder_info \<Rightarrow> pr_file list \<Rightarrow> run \<Rightarrow> run option" where
  "cancel_files fo [] r = Some r"
| "cancel_files fo (m # ms) r = (case by_name (ct_store (fst r)) (pf_name m) fo of
       None \<Rightarrow> None
     | Some f \<Rightarrow> cancel_files fo ms (cancel_sync f r))"

definition on_update_folder :: "bool \<Rightarrow> string \<Rightarrow> pr_file list \<Rightarrow> run \<Rightarrow> run option" where
  "on_update_folder from_self fid ms r = (if \<not> from_self then Some r
     else case folder_info_of fid (peer_sha (fst r)) (ct_cluster (fst r)) of
         None \<Rightarrow> None
       | Some (fd, fo) \<Rightarrow> cancel_files fo ms r)"

text \<open>The file of the peer that was advanced is no longer synchronized; the local one is announced.\<close>

definition on_advance :: "controller_env \<Rightarrow> string \<Rightarrow> bytes \<Rightarrow> pr_file \<Rightarrow> pr_file \<Rightarrow> run \<Rightarrow> run option" where
  "on_advance E fid peer_id source local r =
     (let c = fst r; cl = ct_cluster c; st = ct_store c; self = cl_self cl
      in case folders_by_id fid cl of
          None \<Rightarrow> Some r
        | Some fd \<Rightarrow>
            if fd_suspended fd then Some r
            else let local_folder = by_device self fd;
                     file = (case by_device peer_id fd of None \<Rightarrow> None | Some fo \<Rightarrow> by_name st (pf_name source) fo);
                     own = (file \<noteq> None \<and> peer_id = peer_sha c);
                     r = (case file of
                            Some f \<Rightarrow> if own \<and> is_file (file_at st f) \<and> fi_blocks (file_at st f) \<noteq> [] then cancel_sync f r else r
                          | None \<Rightarrow> r)
                 in if \<not> own \<and> peer_id \<noteq> self then Some r
                    else (case local_folder of
                        None \<Rightarrow> None
                      | Some lo \<Rightarrow>
                          let name = (if peer_id = self then pf_name local else pf_name source)
                          in case by_name st name lo of
                              None \<Rightarrow> if peer_id = self then None else Some r
                            | Some f \<Rightarrow> announce E f lo r))"

definition on_peer_state :: "bytes \<Rightarrow> device_state \<Rightarrow> run \<Rightarrow> run option" where
  "on_peer_state peer_id state r = (if peer_id \<noteq> peer_sha (fst r) then Some r
     else map_option (\<lambda>better. if better then emit (Do_shutdown None) r else r) (ds_less (ct_peer_state (fst r)) state))"

definition on_folder_upserted :: "string \<Rightarrow> run \<Rightarrow> run option" where
  "on_folder_upserted fid r =
     (let c = fst r; cl = ct_cluster c
      in case folders_by_id fid cl of
          None \<Rightarrow> None
        | Some fd \<Rightarrow> if is_shared_with (peer_sha c) fd = None then Some r else with_streamer (refresh_remote cl (peer_of c)) r)"

text \<open>The guards of removed files are dropped without telling other iterators.\<close>

definition forget_guard :: "bytes \<Rightarrow> controller_actor \<Rightarrow> controller_actor" where
  "forget_guard full_id c = c\<lparr>ct_synchronizing_files :=
     map (\<lambda>(k, g). if k = full_id then (k, g\<lparr>fg_recheck := False\<rparr>) else (k, g)) (ct_synchronizing_files c)\<rparr>"

definition forget_file :: "bytes \<Rightarrow> run \<Rightarrow> run" where
  "forget_file key r =
     (let c = fst r; full_id = drop 1 key;
          c = (case ct_block_iterator c of
                 Some it \<Rightarrow> if get_full_id (ct_store c) (it_source it) = full_id then c\<lparr>ct_block_iterator := None\<rparr> else c
               | None \<Rightarrow> c)
      in drop_guard full_id (forget_guard full_id c, snd r))"

definition on_remove_files :: "bytes \<Rightarrow> bytes list \<Rightarrow> run \<Rightarrow> run" where
  "on_remove_files dev keys r = (if dev = peer_sha (fst r) then foldl (\<lambda>r key. forget_file key r) r keys else r)"

fun on_remove_folder_infos :: "controller_env \<Rightarrow> bytes list \<Rightarrow> update_run \<Rightarrow> update_run option" where
  "on_remove_folder_infos E [] v = Some v"
| "on_remove_folder_infos E (key # keys) v = (case folder_info_decompose_key key of
       None \<Rightarrow> None
     | Some (device_key, _) \<Rightarrow>
         if device_key = dv_key (ct_peer (fst (fst v))) \<or> device_key = dv_key (cl_device (ct_cluster (fst (fst v)))) then config_once E v
         else on_remove_folder_infos E keys v)"

definition on_mark_reachable :: "controller_env \<Rightarrow> bool \<Rightarrow> string \<Rightarrow> bytes \<Rightarrow> string \<Rightarrow> run \<Rightarrow> run option" where
  "on_mark_reachable E from_self fid dev name r =
     (let cl = ct_cluster (fst r)
      in if devices_by_sha256 dev (cl_devices cl) = None then None
         else case folder_info_of fid dev cl of
             None \<Rightarrow> None
           | Some (fd, fo) \<Rightarrow>
               (case by_name (cl_store cl) name fo of
                  None \<Rightarrow> if from_self \<or> dev = cl_self cl \<and> ct_updates_streamer (fst r) \<noteq> None then None else Some r
                | Some f \<Rightarrow>
                    let r = (if from_self then cancel_sync f r else r)
                    in if dev = cl_self cl then announce E f fo r else Some r))"

text \<open>The last block of a file: the file is finished once, unless it is not wanted any longer.\<close>

definition finish_acked :: "controller_env \<Rightarrow> string \<Rightarrow> string \<Rightarrow> run \<Rightarrow> run option" where
  "finish_acked E name fid r =
     (let c = fst r; cl = ct_cluster c; st = ct_store c
      in case folder_info_of fid (peer_sha c) cl of
          None \<Rightarrow> Some r
        | Some (fd, fo) \<Rightarrow> (case (by_name st name fo, by_device (cl_self cl) fd) of
            (Some f, Some lo) \<Rightarrow>
              if \<not> is_locally_available (file_at st f) then Some r
              else (case map_of (ct_synchronizing_files c) (get_full_id st f) of
                  None \<Rightarrow> Some r
                | Some g \<Rightarrow>
                    if fg_finished g then Some r
                    else let c = c\<lparr>ct_synchronizing_files :=
                               map (\<lambda>(k, g). if k = get_full_id st f then (k, g\<lparr>fg_finished := True\<rparr>) else (k, g)) (ct_synchronizing_files c)\<rparr>;
                             local = by_name st name lo;
                             action = resolve (pl_symlinks_supported (cn_platform E)) (pl_path_supported (cn_platform E))
                               (pl_local_time (cn_platform E)) st f local lo fd
                         in if action = ignore then Some (c, snd r) else io_finish_file E local f fd action (c, snd r))
          | _ \<Rightarrow> Some r))"

definition on_block_ack :: "controller_env \<Rightarrow> string \<Rightarrow> string \<Rightarrow> bytes \<Rightarrow> bytes \<Rightarrow> bool \<Rightarrow> run \<Rightarrow> run option" where
  "on_block_ack E name fid dev h unlock r =
     (if dev \<noteq> peer_sha (fst r) then Some r
      else case finish_acked E name fid r of None \<Rightarrow> None | Some r \<Rightarrow> release_block fid h unlock r)"

text \<open>The visitor, but for a cluster update.\<close>

fun on_change :: "controller_env \<Rightarrow> bool \<Rightarrow> change \<Rightarrow> update_run \<Rightarrow> update_run option" where
  "on_change E from_self (update_folder fid peer_id ms uuids) v = map_option (\<lambda>r. (r, snd v)) (on_update_folder from_self fid ms (fst v))"
| "on_change E from_self (advance action fid peer_id uuid source local) v =
     map_option (\<lambda>r. (r, snd v)) (on_advance E fid peer_id source local (fst v))"
| "on_change E from_self (peer_state peer_id state cn cv was_online) v = map_option (\<lambda>r. (r, snd v)) (on_peer_state peer_id state (fst v))"
| "on_change E from_self (upsert_folder uuid db is_new) v = map_option (\<lambda>r. (r, snd v)) (on_folder_upserted (dfo_id db) (fst v))"
| "on_change E from_self (upsert_folder_info uuid dev ikey fid index_id) v =
     (if dev = peer_sha (fst (fst v)) then config_once E v else Some v)"
| "on_change E from_self (remove_files fid dev keys) v = Some (on_remove_files dev keys (fst v), snd v)"
| "on_change E from_self (remove_folder_infos keys) v = on_remove_folder_infos E keys v"
| "on_change E from_self (mark_reachable fid dev name reachable) v =
     map_option (\<lambda>r. (r, snd v)) (on_mark_reachable E from_self fid dev name (fst v))"
| "on_change E from_self (block_ack name fid dev h i unlock) v =
     map_option (\<lambda>r. (r, snd v)) (on_block_ack E name fid dev h unlock (fst v))"
| "on_change E from_self (remove_peer key) v =
     Some (if drop 1 key = peer_sha (fst (fst v)) then emit (Do_shutdown (Some Peer_has_been_removed)) (fst v) else fst v, snd v)"
| "on_change E from_self _ v = Some v"

text \<open>The diffs in the order of the visit: a diff, its children, its siblings; a cluster update comes after all of these.\<close>

fun visit_diffs :: "controller_env \<Rightarrow> bool \<Rightarrow> cdiff list \<Rightarrow> update_run \<Rightarrow> update_run option" where
  "visit_diffs E from_self [] v = Some v"
| "visit_diffs E from_self (Diff p cs # ds) v =
     (case p of
        change (cluster_update peer_id) \<Rightarrow>
          (case visit_diffs E from_self cs v of
             None \<Rightarrow> None
           | Some v \<Rightarrow> (case visit_diffs E from_self ds v of
               None \<Rightarrow> None
             | Some v \<Rightarrow> map_option (\<lambda>r. (r, snd v)) (after_cluster_update E from_self (fst v))))
      | _ \<Rightarrow>
          (case (case p of change a \<Rightarrow> on_change E from_self a v | _ \<Rightarrow> Some v) of
             None \<Rightarrow> None
           | Some v \<Rightarrow> (case visit_diffs E from_self cs v of
               None \<Rightarrow> None
             | Some v \<Rightarrow> visit_diffs E from_self ds v)))"

text \<open>The handler of a model update, whose diffs the cluster has applied.\<close>

definition visit :: "controller_env \<Rightarrow> bool \<Rightarrow> cdiff list \<Rightarrow> controller_actor \<Rightarrow> (controller_actor \<times> sent list) option" where
  "visit E from_self ds c = (case visit_diffs E from_self ds ((c, empty_context), False) of
       None \<Rightarrow> None
     | Some v \<Rightarrow> Option.bind (Option.bind (pull_next E (fst v)) (push_pending E)) finish_context)"

end
