(* ===== verification/Controller_Safety.thy ===== *)
theory Controller_Safety
  imports Controller_Events
begin

text \<open>
  What the events of the controller keep: the number of writes that all peers share, the slots of the requests for blocks, and that
  only verified blocks are written.
\<close>

subsection \<open>Events\<close>

text \<open>The events of a running controller.\<close>

datatype event =
  Start
| Forward "bep_message list"
| Io_done "(io_command \<times> bytes option) list"
| Digest peer_request_context bytes "bytes option"
| Update bool "cdiff list"
| Tx_signal
| Peer_down bool cluster_error
| Fs_predown

fun handle :: "controller_env \<Rightarrow> event \<Rightarrow> controller_actor \<Rightarrow> (controller_actor \<times> sent list) option" where
  "handle E Start c = on_start E c"
| "handle E (Forward ms) c = on_forward E ms c"
| "handle E (Io_done cmds) c = on_postprocess_io E cmds c"
| "handle E (Digest pc data digest) c = on_digest E pc data digest c"
| "handle E (Update from_self ds) c = visit E from_self ds c"
| "handle E Tx_signal c = on_tx_signal E c"
| "handle E (Peer_down same ee) c = Some (on_peer_down same ee c)"
| "handle E Fs_predown c = Some (on_fs_predown c)"

text \<open>The writes that an event reports as finished.\<close>

definition writes :: "io_command list \<Rightarrow> int" where
  "writes cmds = int (length (filter is_write cmds))"

fun finished_writes :: "event \<Rightarrow> int" where
  "finished_writes (Io_done cmds) = writes (map fst cmds)"
| "finished_writes _ = 0"

fun commands_of :: "sent \<Rightarrow> io_command list" where
  "commands_of (Io_commands cmds) = cmds"
| "commands_of _ = []"

definition sent_commands :: "sent list \<Rightarrow> io_command list" where
  "sent_commands out = concat (map commands_of out)"

fun is_append :: "io_command \<Rightarrow> bool" where
  "is_append (Append_block x fid path data offset sz) = True"
| "is_append _ = False"

subsection \<open>Invariants\<close>

definition books_ok :: "controller_actor \<Rightarrow> bool" where
  "books_ok c \<longleftrightarrow> 0 \<le> cl_write_requests (ct_cluster c) \<and> list_all is_write (ct_block_write_queue c) \<and> list_all is_read (ct_block_read_queue c)"

definition used_slots :: "peer_request_context option list \<Rightarrow> nat" where
  "used_slots slots = length (filter (\<lambda>s. s \<noteq> None) slots)"

definition requests_ok :: "controller_actor \<Rightarrow> bool" where
  "requests_ok c \<longleftrightarrow> length (ct_block_requests c) = ct_blocks_max_requested c \<and> ct_block_requests_next c < ct_blocks_max_requested c \<and>
     ct_blocks_max_requested c < 2 ^ 64 \<and> ct_rx_blocks_requested c = of_nat (used_slots (ct_block_requests c))"

subsection \<open>What a step of a handler may do\<close>

definition budget :: "run \<Rightarrow> int" where
  "budget r = cl_write_requests (ct_cluster (fst r)) + writes (sx_io_commands (snd r)) + writes (sent_commands (sx_sent (snd r)))"

definition appends :: "run \<Rightarrow> io_command set" where
  "appends r = {cmd \<in> set (sx_io_commands (snd r)) \<union> set (ct_block_write_queue (fst r)) \<union> set (sent_commands (sx_sent (snd r))). is_append cmd}"

text \<open>A stray response ends the connection; until then the slots are kept.\<close>

definition calm :: "run \<Rightarrow> bool" where
  "calm r \<longleftrightarrow> requests_ok (fst r) \<or> Do_shutdown None \<in> set (sx_sent (snd r))"

text \<open>A step that takes up \<open>d\<close> finished writes and the writes of new data in \<open>A\<close>.\<close>

definition steady_by :: "int \<Rightarrow> io_command set \<Rightarrow> run \<Rightarrow> run \<Rightarrow> bool" where
  "steady_by d A r r' \<longleftrightarrow> budget r' = budget r + d \<and> appends r' \<subseteq> appends r \<union> A \<and> ct_state (fst r') = ct_state (fst r) \<and>
     (books_ok (fst r) \<longrightarrow> books_ok (fst r')) \<and> (calm r \<longrightarrow> calm r') \<and> set (sx_sent (snd r)) \<subseteq> set (sx_sent (snd r'))"

abbreviation steady :: "run \<Rightarrow> run \<Rightarrow> bool" where "steady \<equiv> steady_by 0 {}"

lemma steady_refl [simp]: "steady r r"
  by (simp add: steady_by_def)

lemma steady_by_trans: "steady_by d A a b \<Longrightarrow> steady_by e B b c \<Longrightarrow> steady_by (d + e) (A \<union> B) a c"
  unfolding steady_by_def by auto

lemma steady_trans: "steady a b \<Longrightarrow> steady b c \<Longrightarrow> steady a c"
  unfolding steady_by_def by auto

lemma steady_before: "steady a b \<Longrightarrow> steady_by d A b c \<Longrightarrow> steady_by d A a c"
  unfolding steady_by_def by auto

text \<open>A step that leaves all of it alone.\<close>

definition aside :: "run \<Rightarrow> run \<Rightarrow> bool" where
  "aside r r' \<longleftrightarrow> cl_write_requests (ct_cluster (fst r')) = cl_write_requests (ct_cluster (fst r)) \<and>
     ct_block_write_queue (fst r') = ct_block_write_queue (fst r) \<and> ct_block_read_queue (fst r') = ct_block_read_queue (fst r) \<and>
     ct_block_requests (fst r') = ct_block_requests (fst r) \<and> ct_block_requests_next (fst r') = ct_block_requests_next (fst r) \<and>
     ct_blocks_max_requested (fst r') = ct_blocks_max_requested (fst r) \<and> ct_rx_blocks_requested (fst r') = ct_rx_blocks_requested (fst r) \<and>
     ct_state (fst r') = ct_state (fst r) \<and>
     sx_io_commands (snd r') = sx_io_commands (snd r) \<and> sx_sent (snd r') = sx_sent (snd r)"

lemma aside_steady: "aside r r' \<Longrightarrow> steady r r'"
  by (auto simp: aside_def steady_by_def budget_def appends_def books_ok_def requests_ok_def calm_def)

lemma aside_trans: "aside a b \<Longrightarrow> aside b c \<Longrightarrow> aside a c"
  by (simp add: aside_def)

lemma writes_append [simp]: "writes (a @ b) = writes a + writes b"
  by (simp add: writes_def)

lemma writes_nil [simp]: "writes [] = 0"
  by (simp add: writes_def)

lemma sent_commands_append [simp]: "sent_commands (a @ b) = sent_commands a @ sent_commands b"
  by (simp add: sent_commands_def)

lemma sent_commands_one [simp]: "sent_commands [e] = commands_of e" "sent_commands [] = []"
  by (simp_all add: sent_commands_def)

lemma emit_steady: "commands_of e = [] \<Longrightarrow> steady r (emit e r)"
  by (auto simp: emit_def steady_by_def budget_def appends_def calm_def)

lemma emit_shutdown [simp]: "steady r (emit (Do_shutdown e) r)"
  by (rule emit_steady) simp

lemma push_io_steady: "\<not> is_write cmd \<Longrightarrow> steady r (push_io cmd r)"
  by (cases cmd) (auto simp: push_io_def steady_by_def budget_def appends_def writes_def calm_def)

lemma push_checked_steady:
  assumes "push_checked cmd r = Some r'" "is_write cmd"
  shows "steady_by 0 (if is_append cmd then {cmd} else {}) r r'"
  using assms
  by (auto simp: push_checked_def modify_write_requests_def push_io_def steady_by_def budget_def appends_def books_ok_def requests_ok_def calm_def
      writes_def Let_def split: if_splits)

lemma set_store_write_requests [simp]: "cl_write_requests (ct_cluster (set_store st c)) = cl_write_requests (ct_cluster c)"
  by (simp add: set_store_def)

lemma push_back_aside: "aside r (push_back ds r)"
  by (simp add: aside_def push_back_def)

lemma push_message_aside: "push_message E m r = Some r' \<Longrightarrow> aside r r'"
  by (auto simp: aside_def push_message_def push_data_def)

lemma acquire_block_aside: "acquire_block p fid r = Some r' \<Longrightarrow> aside r r'"
  by (auto simp: acquire_block_def aside_def Let_def set_store_def set_sync_def push_back_def split: option.splits if_splits)

lemma lock_block_aside: "lock_block p r = Some r' \<Longrightarrow> aside r r'"
  by (auto simp: lock_block_def aside_def Let_def set_store_def split: option.splits)

lemma release_block_aside: "release_block fid h unlock r = Some r' \<Longrightarrow> aside r r'"
  by (auto simp: release_block_def aside_def Let_def set_store_def set_sync_def push_back_def split: option.splits if_splits prod.splits)

lemma mark_file_unreachable_aside: "aside r (mark_file_unreachable name fid r)"
  by (auto simp: mark_file_unreachable_def aside_def Let_def set_store_def push_back_def split: option.splits)

lemma guard_file_aside: "guard_file f r = Some r' \<Longrightarrow> aside r r'"
  by (auto simp: guard_file_def aside_def Let_def lock_path_def split: if_splits)

lemma drop_guard_steady: "steady r (drop_guard k r)"
proof (cases "map_of (ct_synchronizing_files (fst r)) k")
  case None
  then show ?thesis by (simp add: drop_guard_def)
next
  case (Some g)
  let ?st = "put_file (fg_file g) (synchronizing_unlock (file_at (ct_store (fst r)) (fg_file g))) (ct_store (fst r))"
  let ?r = "((fst r)\<lparr>ct_synchronizing_files := filter (\<lambda>(j, _). j \<noteq> k) (ct_synchronizing_files (fst r)),
               ct_cluster := unlock_path (name_at ?st (fg_file g)) ((ct_cluster (fst r))\<lparr>cl_store := ?st\<rparr>)\<rparr>, snd r)"
  have "aside r ?r" by (simp add: aside_def unlock_path_def)
  moreover have "steady ?r (drop_guard k r)" using Some by (simp add: drop_guard_def Let_def emit_steady)
  ultimately show ?thesis using aside_steady steady_trans by blast
qed

lemma cancel_sync_steady: "steady r (cancel_sync f r)"
proof -
  let ?c = "case ct_block_iterator (fst r) of
      Some it \<Rightarrow> if it_source it = f then (fst r)\<lparr>ct_block_iterator := None\<rparr> else fst r | None \<Rightarrow> fst r"
  let ?c' = "?c\<lparr>ct_postponed_files := forget f (ct_postponed_files ?c)\<rparr>"
  have "aside r (?c', snd r)" by (simp add: aside_def split: option.split)
  then show ?thesis unfolding cancel_sync_def Let_def using drop_guard_steady aside_steady steady_trans by blast
qed

subsection \<open>Slots of requests\<close>

lemma used_slots_le: "used_slots slots \<le> length slots"
  by (simp add: used_slots_def)

lemma used_slots_take:
  assumes "i < length slots" "slots ! i = None"
  shows "used_slots (slots[i := Some x]) = Suc (used_slots slots)" "used_slots slots < length slots"
proof -
  have s: "slots = take i slots @ None # drop (Suc i) slots" using assms id_take_nth_drop by metis
  have "slots[i := Some x] = take i slots @ Some x # drop (Suc i) slots" using assms(1) by (rule upd_conv_take_nth_drop)
  then show "used_slots (slots[i := Some x]) = Suc (used_slots slots)" by (subst (2) s) (simp add: used_slots_def)
  have "None \<in> set slots" using assms nth_mem by metis
  then show "used_slots slots < length slots" unfolding used_slots_def by (rule length_filter_less) simp
qed

lemma used_slots_free:
  assumes "i < length slots" "slots ! i = Some x"
  shows "used_slots slots = Suc (used_slots (slots[i := None]))"
proof -
  have s: "slots = take i slots @ Some x # drop (Suc i) slots" using assms id_take_nth_drop by metis
  have "slots[i := None] = take i slots @ None # drop (Suc i) slots" using assms(1) by (rule upd_conv_take_nth_drop)
  then show ?thesis by (subst s) (simp add: used_slots_def)
qed

text \<open>The search goes around the slots and meets each of them.\<close>

lemma free_slot_around:
  assumes "i < length slots" "start < length slots" "\<exists>k < n. slots ! ((i + k) mod length slots) = None"
  shows "\<exists>j s. free_slot slots n i start = Some (j, s) \<and> j < length slots \<and> s < length slots \<and> slots ! j = None"
  using assms
proof (induction n arbitrary: i)
  case (Suc n)
  show ?case
  proof (cases "slots ! i = None")
    case False
    let ?i = "if i + 1 \<ge> length slots then 0 else i + 1"
    have i: "?i = Suc i mod length slots" using Suc.prems(1) by (auto simp: le_Suc_eq mod_Suc)
    obtain k where k: "k < Suc n" "slots ! ((i + k) mod length slots) = None" using Suc.prems(3) by blast
    then obtain k' where "k = Suc k'" using False Suc.prems(1) by (cases k) simp_all
    then have "slots ! ((?i + k') mod length slots) = None" "k' < n" using k unfolding i by (simp_all add: mod_add_left_eq)
    then have "\<exists>k < n. slots ! ((?i + k) mod length slots) = None" by blast
    moreover have "?i < length slots" using Suc.prems(1) by auto
    ultimately show ?thesis using Suc.IH [of ?i] Suc.prems False by simp
  qed (use Suc.prems in auto)
qed simp

lemma free_slot_start:
  "free_slot slots n i start = Some (j, s) \<Longrightarrow> start < length slots \<Longrightarrow> s < length slots"
  by (induction n arbitrary: i) (auto split: if_splits)

lemma some_slot_free:
  assumes "used_slots slots < length slots" "i < length slots"
  shows "\<exists>k < length slots. slots ! ((i + k) mod length slots) = None"
proof -
  have "\<exists>j < length slots. slots ! j = None"
  proof (rule ccontr)
    assume "\<not> (\<exists>j < length slots. slots ! j = None)"
    then have "\<forall>s \<in> set slots. s \<noteq> None" by (metis in_set_conv_nth)
    then show False using assms(1) by (simp add: used_slots_def)
  qed
  then obtain j where j: "j < length slots" "slots ! j = None" by blast
  let ?k = "(j + length slots - i) mod length slots"
  have "(i + ?k) mod length slots = j" using j(1) assms(2) by (simp add: mod_add_right_eq)
  moreover have "?k < length slots" using j(1) by (intro mod_less_divisor) linarith
  ultimately show ?thesis using j(2) by metis
qed

lemma rx_used:
  assumes "requests_ok c"
  shows "unat (ct_rx_blocks_requested c) = used_slots (ct_block_requests c)"
proof -
  have "used_slots (ct_block_requests c) < 2 ^ 64"
    using assms used_slots_le [of "ct_block_requests c"] by (simp add: requests_ok_def)
  then show ?thesis using assms by (simp add: requests_ok_def unat_of_nat take_bit_nat_eq_self)
qed

lemma open_slot:
  assumes "requests_ok c" and "ct_rx_blocks_requested c < of_nat (ct_blocks_max_requested c)"
  shows "used_slots (ct_block_requests c) < ct_blocks_max_requested c"
proof -
  have "unat (of_nat (ct_blocks_max_requested c) :: u64) = ct_blocks_max_requested c"
    using assms(1) by (simp add: requests_ok_def unat_of_nat take_bit_nat_eq_self)
  then show ?thesis using assms(2) rx_used [OF assms(1)] by (simp add: word_less_nat_alt)
qed

lemma request_block_steady:
  assumes "request_block E fb fid r = Some r'"
  shows "steady r r'"
proof -
  obtain r1 where r1: "lock_block (fb_block fb) r = Some r1"
    using assms by (auto simp: request_block_def split: option.splits)
  let ?slots = "ct_block_requests (fst r1)"
  obtain i s where i: "free_slot ?slots (ct_blocks_max_requested (fst r1)) (ct_block_requests_next (fst r1)) (ct_block_requests_next (fst r1)) = Some (i, s)"
    and ok: "s < ct_blocks_max_requested (fst r1)" "i < length ?slots" "?slots ! i = None"
    using assms r1 by (auto simp: request_block_def Let_def split: option.splits if_splits)
  obtain m pc sz r2 where r2: "push_message E m r1 = Some r2"
    and r': "r' = ((fst r2)\<lparr>ct_block_requests := (ct_block_requests (fst r2))[i := Some pc], ct_block_requests_next := s,
        ct_rx_blocks_requested := ct_rx_blocks_requested (fst r2) + 1, ct_request_pool := ct_request_pool (fst r2) - sz\<rparr>, snd r2)"
    using assms r1 i ok by (auto simp: request_block_def Let_def split: option.splits)
  have a: "aside r r2" using lock_block_aside [OF r1] push_message_aside [OF r2] by (rule aside_trans)
  have same: "ct_block_requests (fst r2) = ?slots" "ct_blocks_max_requested (fst r2) = ct_blocks_max_requested (fst r1)"
    using push_message_aside [OF r2] by (simp_all add: aside_def)
  have "requests_ok (fst r2) \<Longrightarrow> requests_ok (fst r')"
    using ok used_slots_take(1) [OF ok(2,3), of pc] by (simp add: requests_ok_def r' same)
  then have "steady r2 r'"
    by (auto simp: steady_by_def r' budget_def appends_def books_ok_def calm_def)
  then show ?thesis using aside_steady [OF a] steady_trans by blast
qed

subsection \<open>Pulling\<close>

lemma io_clone_block_steady: "io_clone_block tb fd dev r = Some r' \<Longrightarrow> steady r r'"
  by (auto simp: io_clone_block_def Let_def dest!: push_checked_steady split: option.splits prod.splits)

lemma preprocess_block_steady: "preprocess_block E fb fd r = Some r' \<Longrightarrow> steady r r'"
  by (auto simp: preprocess_block_def dest!: acquire_block_aside io_clone_block_steady request_block_steady
      intro: steady_trans aside_steady split: if_splits option.splits)

lemma io_advance_steady: "io_advance E action f fd local r = Some r' \<Longrightarrow> steady r r'"
  by (auto simp: io_advance_def Let_def intro: push_io_steady split: if_splits option.splits)

lemma io_finish_file_steady: "io_finish_file E local f fd action r = Some r' \<Longrightarrow> steady r r'"
  by (auto simp: io_finish_file_def Let_def intro: push_io_steady split: if_splits option.splits)

lemma io_update_meta_steady: "steady r (io_update_meta E f fd action r)"
  by (auto simp: io_update_meta_def Let_def intro: push_io_steady)

lemma begin_file_steady:
  assumes "begin_file E advances n r = Some (advances', r')"
  shows "steady r r'"
proof -
  let ?c = "fst r"
  have iterator: "aside r (?c\<lparr>ct_block_iterator := it\<rparr>, snd r)" for it by (simp add: aside_def)
  have version: "aside r (push_back ds (?c\<lparr>ct_sequencer := sq\<rparr>, snd r))" for ds sq by (simp add: aside_def push_back_def)
  note steps = steady_trans [OF aside_steady, OF guard_file_aside] steady_trans [OF aside_steady [OF iterator]]
  show ?thesis using assms
    by (auto simp: begin_file_def Let_def
        intro: steps io_advance_steady io_finish_file_steady io_update_meta_steady aside_steady [OF guard_file_aside] aside_steady [OF version]
        split: if_splits option.splits local_difference.splits)
qed

lemma block_turn_steady:
  assumes "pull_step E advances r = Some (again, advances', r')" and it: "ct_block_iterator (fst r) = Some it"
  shows "steady r r'"
proof -
  have iterator: "aside r ((fst r)\<lparr>ct_block_iterator := i\<rparr>, snd r)" for i by (simp add: aside_def)
  have postponed: "aside r ((fst r)\<lparr>ct_block_iterator := i, ct_postponed_files := po\<rparr>, snd r)" for i po by (simp add: aside_def)
  show ?thesis using assms
    by (auto simp: pull_step_def Let_def
        intro: aside_steady [OF iterator] aside_steady [OF postponed] steady_trans [OF aside_steady [OF iterator] preprocess_block_steady]
        split: if_splits option.splits)
qed

lemma file_turn_steady:
  assumes "pull_step E advances r = Some (again, advances', r')" and it: "ct_block_iterator (fst r) = None"
  shows "steady r r'"
proof -
  have ready: "aside r ((fst r)\<lparr>ct_postponed_files := po, ct_block_iterator := i\<rparr>, snd r)" for i po by (simp add: aside_def)
  have files: "aside r ((fst r)\<lparr>ct_postponed_files := po, ct_file_iterator := i\<rparr>, snd r)" for i po by (simp add: aside_def)
  show ?thesis using assms
    by (auto simp: pull_step_def Let_def
        intro: aside_steady [OF ready] aside_steady [OF files] steady_trans [OF aside_steady [OF files] begin_file_steady]
        split: option.splits prod.splits)
qed

lemma pull_loop_steady: "pull_loop E advances r = Some r' \<Longrightarrow> steady r r'"
proof (induction E advances r rule: pull_loop.induct)
  case (1 E advances r)
  show ?case
  proof (cases "can_pull_more advances (fst r)")
    case True
    then obtain again advances' r1 where step: "pull_step E advances r = Some (again, advances', r1)"
      using "1.prems" by (subst (asm) pull_loop.simps) (auto split: option.splits)
    have "steady r r1" using step block_turn_steady file_turn_steady by (cases "ct_block_iterator (fst r)") blast+
    moreover have "steady r1 r'"
    proof (cases again)
      case True
      then have "pull_loop E advances' r1 = Some r'"
        using "1.prems" \<open>can_pull_more _ _\<close> step by (subst (asm) pull_loop.simps) simp
      then show ?thesis using "1.IH" \<open>can_pull_more _ _\<close> step True by blast
    next
      case False
      then show ?thesis using "1.prems" \<open>can_pull_more _ _\<close> step by (subst (asm) pull_loop.simps) simp
    qed
    ultimately show ?thesis by (rule steady_trans)
  next
    case False
    then show ?thesis using "1.prems" by (subst (asm) pull_loop.simps) simp
  qed
qed

lemma pull_next_steady: "pull_next E r = Some r' \<Longrightarrow> steady r r'"
  by (auto simp: pull_next_def intro: pull_loop_steady split: if_splits)

subsection \<open>The end of a handler\<close>

lemma send_reads_partition: "send_reads limit q tx = (out, rest, tx') \<Longrightarrow> q = out @ rest"
  by (induction limit q tx arbitrary: out rest tx' rule: send_reads.induct) (auto split: if_splits prod.splits)

lemma writes_all: "list_all is_write cmds \<Longrightarrow> writes cmds = int (length cmds)"
  by (simp add: writes_def list_all_iff)

lemma is_read_not: "is_read cmd \<Longrightarrow> \<not> is_write cmd \<and> \<not> is_append cmd"
  by (cases cmd) simp_all

lemma no_writes: "list_all is_read cmds \<Longrightarrow> writes cmds = 0"
  using is_read_not by (fastforce simp: writes_def list_all_iff filter_empty_conv)

text \<open>What is in the queues and in the context goes out or stays in the queues.\<close>

lemma send_io_books:
  assumes "send_io r = Some r'" and books: "books_ok (fst r)"
  shows "cl_write_requests (ct_cluster (fst r')) + writes (sent_commands (sx_sent (snd r'))) = budget r"
    and "books_ok (fst r')" and "appends r' \<subseteq> appends r" and "sx_diffs (snd r') = sx_diffs (snd r)" and "sx_peer_data (snd r') = sx_peer_data (snd r)"
    and "requests_ok (fst r) \<Longrightarrow> requests_ok (fst r')" and "set (sx_sent (snd r)) \<subseteq> set (sx_sent (snd r'))"
proof -
  let ?c = "fst r" and ?x = "snd r"
  let ?sent = "min (nat (cl_write_requests (ct_cluster ?c))) (length (ct_block_write_queue ?c))"
  obtain reads rest tx where reads: "send_reads (ct_blocks_max_requested ?c * tx_blocks_max_factor) (ct_block_read_queue ?c) (ct_tx_blocks_requested ?c) = (reads, rest, tx)"
    by (rule prod_cases3)
  let ?out = "sx_io_commands ?x @ take ?sent (ct_block_write_queue ?c) @ reads"
  let ?cl = "(ct_cluster ?c)\<lparr>cl_write_requests := cl_write_requests (ct_cluster ?c) - int ?sent\<rparr>"
  have cl: "(if ?sent > 0 then modify_write_requests (- int ?sent) (ct_cluster ?c) else Some (ct_cluster ?c)) = Some ?cl"
    using books by (auto simp: modify_write_requests_def books_ok_def Let_def)
  let ?c' = "?c\<lparr>ct_cluster := ?cl, ct_block_write_queue := drop ?sent (ct_block_write_queue ?c), ct_block_read_queue := rest, ct_tx_blocks_requested := tx\<rparr>"
  have r': "r' = (if ?out \<noteq> [] then emit (Io_commands ?out) (?c'\<lparr>ct_fs_requests := Suc (ct_fs_requests ?c')\<rparr>, ?x\<lparr>sx_io_commands := []\<rparr>) else (?c', ?x))"
    using assms(1) cl reads by (simp add: send_io_def Let_def)
  have q: "ct_block_read_queue ?c = reads @ rest" using send_reads_partition [OF reads] .
  have w: "list_all is_write (take ?sent (ct_block_write_queue ?c))" "list_all is_write (drop ?sent (ct_block_write_queue ?c))"
    using books by (auto simp: books_ok_def list_all_iff dest: in_set_takeD in_set_dropD)
  have rd: "list_all is_read reads" "list_all is_read rest" using books by (simp_all add: books_ok_def q)
  have count: "writes ?out = writes (sx_io_commands ?x) + int ?sent" using writes_all [OF w(1)] no_writes [OF rd(1)] by simp
  have out_nil: "?out = [] \<Longrightarrow> sx_io_commands ?x = [] \<and> ?sent = 0" by auto
  show "cl_write_requests (ct_cluster (fst r')) + writes (sent_commands (sx_sent (snd r'))) = budget r"
    unfolding r' using count out_nil by (auto simp: emit_def budget_def simp del: append_is_Nil_conv)
  show "books_ok (fst r')" unfolding r' using books w rd by (auto simp: emit_def books_ok_def)
  show "requests_ok (fst r) \<Longrightarrow> requests_ok (fst r')" unfolding r' by (auto simp: emit_def requests_ok_def)
  show "appends r' \<subseteq> appends r" unfolding r' using is_read_not rd
    by (auto simp: emit_def appends_def list_all_iff dest: in_set_takeD in_set_dropD)
  show "sx_diffs (snd r') = sx_diffs (snd r)" "sx_peer_data (snd r') = sx_peer_data (snd r)" "set (sx_sent (snd r)) \<subseteq> set (sx_sent (snd r'))"
    unfolding r' by (auto simp: emit_def)
qed

text \<open>What a handler leaves behind, given what it had done before its end.\<close>

definition open_appends :: "controller_actor \<Rightarrow> sent list \<Rightarrow> io_command set" where
  "open_appends c out = {cmd \<in> set (ct_block_write_queue c) \<union> set (sent_commands out). is_append cmd}"

definition completes :: "run \<Rightarrow> controller_actor \<Rightarrow> sent list \<Rightarrow> bool" where
  "completes r c out \<longleftrightarrow> cl_write_requests (ct_cluster c) + writes (sent_commands out) = budget r \<and> books_ok c \<and>
     ct_state c = ct_state (fst r) \<and> (calm r \<longrightarrow> requests_ok c \<or> Do_shutdown None \<in> set out) \<and> set (sx_sent (snd r)) \<subseteq> set out \<and> open_appends c out \<subseteq> appends r"

lemma finish_completes:
  assumes "finish_context r = Some (c, out)" and "ct_state (fst r) = Working" and "books_ok (fst r)"
  shows "completes r c out"
proof -
  obtain r' where r': "send_io r = Some r'" using assms by (cases "send_io r") (auto simp: finish_context_def)
  note facts = send_io_books [OF r' assms(3)]
  have "ct_state (fst r') = ct_state (fst r)"
    using r' by (auto simp: send_io_def Let_def emit_def modify_write_requests_def split: option.splits prod.splits if_splits)
  moreover have "\<exists>b tail. c = (fst r')\<lparr>ct_outgoing_buffer := b\<rparr> \<and> out = sx_sent (snd r') @ tail \<and> sent_commands tail = []"
    using assms(1,2) r'
    by (fastforce simp: finish_context_def emit_def sent_commands_def Let_def
        intro: exI [of _ "ct_outgoing_buffer (fst r')"] exI [of _ "[]"] split: if_splits)
  then obtain b tail where c: "c = (fst r')\<lparr>ct_outgoing_buffer := b\<rparr>" "out = sx_sent (snd r') @ tail" "sent_commands tail = []" by blast
  moreover have "open_appends c out \<subseteq> appends r'" by (auto simp: c open_appends_def appends_def)
  moreover have "books_ok c" using facts(2) by (simp add: c books_ok_def)
  moreover have "calm r \<Longrightarrow> requests_ok c \<or> Do_shutdown None \<in> set out"
    using facts(6,7) by (auto simp: c requests_ok_def calm_def)
  ultimately show ?thesis unfolding completes_def using facts(1,3,7) by (simp add: c) blast
qed

subsection \<open>Steps of the handlers\<close>

lemma push_updates_aside: "push_updates E folder_id us r = Some r' \<Longrightarrow> aside r r'"
proof (induction E folder_id us r rule: push_updates.induct)
  case (2 E folder_id k ms first us r)
  then obtain data where "push_updates E folder_id us (push_data data r) = Some r'" and IH: "aside (push_data data r) r'"
    by (auto simp: Let_def split: option.splits if_splits)
  moreover have "aside r (push_data data r)" by (simp add: aside_def push_data_def)
  ultimately show ?case using aside_trans by blast
qed (simp add: aside_def)

lemma aside_refl [simp]: "aside r r"
  by (simp add: aside_def)

lemma push_pending_aside:
  assumes "push_pending E r = Some r'"
  shows "aside r r'"
proof (cases "ct_updates_streamer (fst r) = None \<or> \<not> ct_peer_address (fst r)")
  case True
  then show ?thesis using assms by (auto simp: push_pending_def Let_def split: option.splits)
next
  case False
  let ?f = "\<lambda>k. fd_id (fst (info_by_uuid E (ct_cluster (fst r)) k))"
  obtain us s where "push_updates E ?f us ((fst r)\<lparr>ct_updates_streamer := Some s\<rparr>, snd r) = Some r'"
    using assms False by (auto simp: push_pending_def Let_def simp del: take_updates.simps split: option.splits)
  moreover have "aside r ((fst r)\<lparr>ct_updates_streamer := Some s\<rparr>, snd r)" by (simp add: aside_def)
  ultimately show ?thesis using aside_trans push_updates_aside by blast
qed

lemma send_new_indices_aside: "send_new_indices c = Some c' \<Longrightarrow> aside (c, x) (c', x)"
  by (auto simp: send_new_indices_def aside_def split: option.splits if_splits)

lemma send_cluster_config_aside: "send_cluster_config E r = Some r' \<Longrightarrow> aside r r'"
  by (auto simp: send_cluster_config_def Let_def dest!: push_message_aside intro: aside_trans [OF _ send_new_indices_aside] split: option.splits)

lemma received_steady: "received res r = Some r' \<Longrightarrow> steady r r'"
proof -
  assume p: "received res r = Some r'"
  have s: "aside r (push_back ds ((fst r)\<lparr>ct_sequencer := sq\<rparr>, snd r))" for ds sq by (simp add: aside_def push_back_def)
  show ?thesis using p by (auto simp: received_def intro: emit_steady aside_steady [OF s] split: sum.splits if_splits)
qed

lemma on_request_steady: "on_request E req r = Some r' \<Longrightarrow> steady r r'"
proof -
  assume p: "on_request E req r = Some r'"
  have tx: "aside r ((fst r)\<lparr>ct_tx_blocks_requested := n\<rparr>, snd r)" for n by (simp add: aside_def)
  have q: "steady r ((fst r)\<lparr>ct_block_read_queue := ct_block_read_queue (fst r) @ [io_make_request_block (fst r) f fd req]\<rparr>, snd r)" for f fd
    by (auto simp: steady_by_def budget_def appends_def books_ok_def calm_def requests_ok_def io_make_request_block_def)
  have io: "steady r (push_io (io_make_request_block (fst r) f fd req) ((fst r)\<lparr>ct_tx_blocks_requested := n\<rparr>, snd r))" for f fd n
    by (rule steady_trans [OF aside_steady [OF tx] push_io_steady]) (simp add: io_make_request_block_def)
  show ?thesis using p
    by (auto simp: on_request_def Let_def intro: q io aside_steady [OF push_message_aside] split: option.splits sum.splits if_splits)
qed

text \<open>An answer for an open slot frees it.\<close>

lemma slot_freed:
  assumes "requests_ok c" "i < length (ct_block_requests c)" "ct_block_requests c ! i = Some pc"
  shows "requests_ok (c\<lparr>ct_rx_blocks_requested := ct_rx_blocks_requested c - 1, ct_block_requests := (ct_block_requests c)[i := None],
           ct_block_requests_next := i\<rparr>)"
  using assms used_slots_free [OF assms(2,3)] by (simp add: requests_ok_def)

lemma empty_context_nothing [simp]: "sx_io_commands empty_context = []" "sx_sent empty_context = []"
  by (simp_all add: empty_context_def)

lemma take_response_steady:
  assumes "take_response pc found m r = (r', own, try_next, give_back)"
  shows "steady r r' \<and> sx_io_commands own = [] \<and> sx_sent own = []"
proof -
  let ?q = "mark_file_unreachable (pq_name (pc_request pc)) (pq_folder (pc_request pc)) (fst r, empty_context)"
  have q: "aside (fst r, empty_context) ?q" by (rule mark_file_unreachable_aside)
  then have own: "sx_io_commands (snd ?q) = []" "sx_sent (snd ?q) = []" by (simp_all add: aside_def)
  have "aside r (fst ?q, snd r)" using q by (simp add: aside_def)
  then have cancel: "steady r (cancel_sync f (fst ?q, snd r))" for f using cancel_sync_steady aside_steady steady_trans by blast
  have pool: "aside r ((fst r)\<lparr>ct_request_pool := a, ct_hash_requests := b\<rparr>, snd r)" for a b by (simp add: aside_def)
  have digest: "steady r (emit (Calc_digest d i pc) ((fst r)\<lparr>ct_request_pool := a, ct_hash_requests := b\<rparr>, snd r))" for a b d i
    by (rule steady_trans [OF aside_steady [OF pool] emit_steady]) simp
  note defs = take_response_def Let_def
  show ?thesis
  proof (cases found)
    case None
    then show ?thesis using assms by (simp add: defs split: if_splits)
  next
    case (Some p)
    obtain f fb b where "p = (f, fb, b)" by (rule prod_cases3)
    then show ?thesis using assms Some digest cancel own by (auto simp: defs split: if_splits)
  qed
qed

text \<open>A context of its own that has sent nothing so far ends within a handler.\<close>

lemma inner_finish_steady:
  assumes "finish_context (fst r, own) = Some (c, out)" "sx_io_commands own = []" "sx_sent own = []" "ct_state (fst r) = Working" "books_ok (fst r)"
  shows "steady r (c, (snd r)\<lparr>sx_sent := sx_sent (snd r) @ out\<rparr>)"
proof -
  have d: "completes (fst r, own) c out" using assms by (intro finish_completes) simp_all
  have "requests_ok (fst r) \<Longrightarrow> requests_ok c \<or> Do_shutdown None \<in> set out" using d by (auto simp: completes_def calm_def)
  then show ?thesis using d assms(2,3)
    by (auto simp: completes_def steady_by_def budget_def appends_def open_appends_def calm_def)
qed

lemma steady_working: "steady_by d A r r' \<Longrightarrow> ct_state (fst r) = Working \<Longrightarrow> ct_state (fst r') = Working"
  by (simp add: steady_by_def)

lemma steady_books: "steady_by d A r r' \<Longrightarrow> books_ok (fst r) \<Longrightarrow> books_ok (fst r')"
  by (simp add: steady_by_def)

text \<open>The end of the handler of a response: more is pulled, the block is given back, and the context of its own ends.\<close>

lemma response_tail_steady:
  assumes "(case (if try_next then pull_next E r else Some r) of
      None \<Rightarrow> None
    | Some r \<Rightarrow> (case (if give_back then release_block fid h False r else Some r) of
        None \<Rightarrow> None
      | Some r \<Rightarrow> map_option (\<lambda>(c, out). (c, (snd r)\<lparr>sx_sent := sx_sent (snd r) @ out\<rparr>)) (finish_context (fst r, own)))) = Some r'"
    and "sx_io_commands own = []" "sx_sent own = []" "ct_state (fst r) = Working" "books_ok (fst r)"
  shows "steady r r'"
proof -
  obtain r1 where r1: "(if try_next then pull_next E r else Some r) = Some r1" using assms(1) by (auto split: option.splits)
  obtain r2 where r2: "(if give_back then release_block fid h False r1 else Some r1) = Some r2" using assms(1) r1 by (auto split: option.splits)
  obtain c out where e: "finish_context (fst r2, own) = Some (c, out)" and r': "r' = (c, (snd r2)\<lparr>sx_sent := sx_sent (snd r2) @ out\<rparr>)"
    using assms(1) r1 r2 by (auto simp: map_option_case split: option.splits)
  have "steady r r1" using r1 by (auto intro: pull_next_steady split: if_splits)
  moreover have "steady r1 r2" using r2 by (auto intro: aside_steady release_block_aside split: if_splits)
  ultimately have s: "steady r r2" by (rule steady_trans)
  moreover have "steady r2 r'" unfolding r'
    using inner_finish_steady [OF e assms(2,3)] steady_working [OF s assms(4)] steady_books [OF s assms(5)] by blast
  ultimately show ?thesis by (rule steady_trans)
qed

lemma stray_steady:
  "steady r (emit (Do_shutdown None) ((fst r)\<lparr>ct_rx_blocks_requested := n\<rparr>, snd r))"
  by (auto simp: steady_by_def emit_def budget_def appends_def books_ok_def calm_def)

lemma on_response_steady:
  assumes "on_response E m r = Some r'" "ct_state (fst r) = Working" "books_ok (fst r)"
  shows "steady r r'"
proof -
  let ?c = "(fst r)\<lparr>ct_rx_blocks_requested := ct_rx_blocks_requested (fst r) - 1\<rparr>" and ?i = "nat (ps_id m)"
  show ?thesis
  proof (cases "ps_id m > int (length (ct_block_requests (fst r))) \<or> ps_id m < 0 \<or> ct_block_requests (fst r) ! ?i = None")
    case True
    then have "r' = emit (Do_shutdown None) (?c, snd r)" using assms(1) by (auto simp: on_response_def Let_def split: if_splits)
    then show ?thesis using stray_steady by simp
  next
    case False
    then obtain pc where pc: "ct_block_requests (fst r) ! ?i = Some pc" by blast
    have i: "?i < length (ct_block_requests (fst r))" using assms(1) False by (auto simp: on_response_def Let_def not_less split: if_splits)
    let ?r = "(?c\<lparr>ct_block_requests := (ct_block_requests ?c)[?i := None], ct_block_requests_next := ?i\<rparr>, snd r)"
    obtain found where found: "answered (fst ?r) pc = Some found"
      using assms(1) False pc i by (auto simp: on_response_def Let_def split: option.splits)
    obtain r1 own try_next give_back where t: "take_response pc found m ?r = (r1, own, try_next, give_back)" by (metis prod_cases4)
    have "steady r ?r" using slot_freed [OF _ i pc] by (auto simp: steady_by_def budget_def appends_def books_ok_def calm_def)
    moreover have r1: "steady ?r r1 \<and> sx_io_commands own = [] \<and> sx_sent own = []" by (rule take_response_steady [OF t])
    ultimately have s: "steady r r1" using steady_trans by blast
    have "steady r1 r'"
    proof (rule response_tail_steady [where try_next = try_next and give_back = give_back and own = own and E = E and
          fid = "pq_folder (pc_request pc)" and h = "pq_hash (pc_request pc)"])
      show "(case (if try_next then pull_next E r1 else Some r1) of
          None \<Rightarrow> None
        | Some r \<Rightarrow> (case (if give_back then release_block (pq_folder (pc_request pc)) (pq_hash (pc_request pc)) False r else Some r) of
            None \<Rightarrow> None
          | Some r \<Rightarrow> map_option (\<lambda>(c, out). (c, (snd r)\<lparr>sx_sent := sx_sent (snd r) @ out\<rparr>)) (finish_context (fst r, own)))) = Some r'"
        using assms(1) False pc i found t by (simp add: on_response_def Let_def)
    qed (use r1 steady_working [OF s assms(2)] steady_books [OF s assms(3)] in simp_all)
    then show ?thesis using s steady_trans by blast
  qed
qed

lemma on_message_steady:
  assumes "on_message E m r = Some r'" "ct_state (fst r) = Working" "books_ok (fst r)"
  shows "steady r r'"
  using assms by (cases m) (auto intro: received_steady on_request_steady on_response_steady)

lemma on_messages_steady:
  assumes "on_messages E ms r = Some r'" "ct_state (fst r) = Working" "books_ok (fst r)"
  shows "steady r r'"
  using assms
proof (induction ms arbitrary: r)
  case (Cons m ms)
  then obtain r1 where r1: "on_message E m r = Some r1" "on_messages E ms r1 = Some r'" by (auto split: option.splits)
  have s: "steady r r1" using on_message_steady [OF r1(1)] Cons.prems by blast
  then have "steady r1 r'" using Cons.IH [OF r1(2)] Cons.prems steady_working steady_books by blast
  then show ?case using s steady_trans by blast
qed simp

lemma postprocess_io_steady: "postprocess_io E cmd result r = Some r' \<Longrightarrow> steady r r'"
proof -
  assume p: "postprocess_io E cmd result r = Some r'"
  have pushed: "aside r (push_back ds ((fst r)\<lparr>ct_sequencer := sq\<rparr>, snd r))" for ds sq by (simp add: aside_def push_back_def)
  have of_file: "file_done E x result r = Some r' \<Longrightarrow> aside r r'" for x
    by (auto simp: file_done_def advance_file_def Let_def intro: mark_file_unreachable_aside pushed split: if_splits)
  have of_block: "block_done x unlock result r = Some r' \<Longrightarrow> aside r r'" for x unlock
    by (auto simp: block_done_def ack_block_def Let_def intro: mark_file_unreachable_aside push_back_aside split: if_splits)
  have tx: "aside r ((fst r)\<lparr>ct_tx_blocks_requested := n\<rparr>, snd r)" for n by (simp add: aside_def)
  have reply: "reply_block E req result r = Some r' \<Longrightarrow> aside r r'" for req
    by (auto simp: reply_block_def Let_def intro: tx aside_trans [OF tx push_message_aside] split: if_splits)
  show ?thesis using p by (cases cmd) (auto intro: aside_steady of_file of_block reply)
qed

lemma writes_cons: "writes (cmd # cmds) = (if is_write cmd then 1 else 0) + writes cmds"
  by (simp add: writes_def)

lemma postprocess_all_steady: "postprocess_all E cmds r = Some r' \<Longrightarrow> steady_by (writes (map fst cmds)) {} r r'"
proof (induction E cmds r rule: postprocess_all.induct)
  case (2 E cmd result cmds r)
  then obtain cl where cl: "(if is_write cmd then modify_write_requests 1 (ct_cluster (fst r)) else Some (ct_cluster (fst r))) = Some cl"
    by (auto split: option.splits)
  let ?r = "((fst r)\<lparr>ct_cluster := cl\<rparr>, snd r)"
  obtain r1 where r1: "postprocess_io E cmd result ?r = Some r1" using "2.prems" cl by (auto split: option.splits)
  let ?r2 = "if \<not> is_read cmd \<and> result = None then emit (Do_shutdown (Some I_o_failure)) r1 else r1"
  have rest: "postprocess_all E cmds ?r2 = Some r'" using "2.prems" cl r1 by simp
  have "steady_by (if is_write cmd then 1 else 0) {} r ?r" using cl
    by (auto simp: steady_by_def modify_write_requests_def budget_def appends_def books_ok_def calm_def requests_ok_def Let_def split: if_splits)
  moreover have "steady ?r ?r2" using postprocess_io_steady [OF r1] emit_steady [of "Do_shutdown (Some I_o_failure)" r1] steady_trans by auto
  ultimately have "steady_by (if is_write cmd then 1 else 0) {} r ?r2" using steady_by_trans by fastforce
  moreover have "steady_by (writes (map fst cmds)) {} ?r2 r'" using "2.IH" [OF cl r1 rest] .
  ultimately show ?case using steady_by_trans by (fastforce simp: writes_cons)
qed simp

lemma io_append_block_steady:
  assumes "io_append_block f fd i data r = Some r'"
  obtains cmd where "is_append cmd" and "steady_by 0 {cmd} r r'"
    and "\<exists>x path offset sz. cmd = Append_block x (fd_id fd) path data offset sz \<and> bc_target_file x = f \<and> bc_block_index x = i \<and>
       get_block_offset (ct_store (fst r)) (file_at (ct_store (fst r)) f) i = Some offset"
proof -
  let ?fi = "file_at (ct_store (fst r)) f"
  obtain sz offset p where "fi_get_size (ct_store (fst r)) ?fi = Some sz" and off: "get_block_offset (ct_store (fst r)) ?fi i = Some offset"
    and c: "push_checked (Append_block \<lparr>bc_block = p, bc_target_file = f, bc_target_folder = (fd_id fd, peer_sha (fst r)), bc_block_index = i\<rparr>
              (fd_id fd) (get_path (fst r) f fd) data offset sz) r = Some r'"
    using assms by (auto simp: io_append_block_def Let_def split: option.splits prod.splits if_splits)
  show ?thesis using that [OF _ push_checked_steady [OF c, simplified]] off by simp
qed

text \<open>The write of a block whose data has the digest of the block at that place of the file.\<close>

definition verified_append :: "controller_actor \<Rightarrow> peer_request_context \<Rightarrow> bytes \<Rightarrow> bytes option \<Rightarrow> io_command \<Rightarrow> bool" where
  "verified_append c pc data digest cmd \<longleftrightarrow> (\<exists>f fb b x fid path offset sz. answered c pc = Some (Some (f, fb, b)) \<and> digest = Some (bi_hash b) \<and>
     cmd = Append_block x fid path data offset sz \<and> bc_target_file x = f \<and> bc_block_index x = fb_block_index fb \<and>
     get_block_offset (ct_store c) (file_at (ct_store c) f) (fb_block_index fb) = Some offset)"

lemma take_digest_steady:
  assumes "take_digest pc found data digest r = Some (r', give_back, try_next)" and found: "answered (fst r) pc = Some found"
  shows "steady_by 0 {cmd. verified_append (fst r) pc data digest cmd} r r'"
proof (cases "steady r r'")
  case True
  then show ?thesis by (auto simp: steady_by_def)
next
  case False
  have unreachable: "steady r (mark_file_unreachable n g r)" for n g by (rule aside_steady [OF mark_file_unreachable_aside])
  obtain f fb b fd where f: "found = Some (f, fb, b)" "digest = Some (bi_hash b)" "io_append_block f fd (fb_block_index fb) data r = Some r'"
    using assms False unreachable by (auto simp: take_digest_def Let_def split: if_splits option.splits)
  obtain cmd where cmd: "steady_by 0 {cmd} r r'"
    and c: "\<exists>x path offset sz. cmd = Append_block x (fd_id fd) path data offset sz \<and> bc_target_file x = f \<and> bc_block_index x = fb_block_index fb \<and>
       get_block_offset (ct_store (fst r)) (file_at (ct_store (fst r)) f) (fb_block_index fb) = Some offset"
    by (rule io_append_block_steady [OF f(3)]) blast
  then have "verified_append (fst r) pc data digest cmd" using found f by (auto simp: verified_append_def)
  then show ?thesis using cmd by (auto simp: steady_by_def)
qed

lemma answered_cong [simp]: "answered (c\<lparr>ct_hash_requests := n\<rparr>) pc = answered c pc"
  unfolding answered_def by (simp cong: option.case_cong if_cong)

subsection \<open>Changes of the model\<close>

lemma with_streamer_aside: "with_streamer upd r = Some r' \<Longrightarrow> aside r r'"
  by (auto simp: with_streamer_def aside_def split: option.splits)

lemma announce_aside: "announce E f fo r = Some r' \<Longrightarrow> aside r r'"
  by (auto simp: announce_def Let_def intro: with_streamer_aside)

lemma after_cluster_update_aside:
  assumes "after_cluster_update E from_self r = Some r'"
  shows "aside r r'"
proof (cases from_self)
  case True
  obtain s where s: "make_streamer (ct_cluster (fst r)) (peer_of (fst r)) = Some s"
    using assms True by (auto simp: after_cluster_update_def Let_def split: option.splits)
  obtain c where c: "send_new_indices ((fst r)\<lparr>ct_updates_streamer := Some s\<rparr>) = Some c"
    using assms True s by (auto simp: after_cluster_update_def Let_def split: option.splits)
  have "aside r (c, snd r)" using send_new_indices_aside [OF c, of "snd r"] by (simp add: aside_def)
  moreover have "aside (c, snd r) r'"
    using assms True s c by (auto simp: after_cluster_update_def Let_def aside_def split: if_splits)
  ultimately show ?thesis by (rule aside_trans)
qed (use assms in \<open>simp add: after_cluster_update_def\<close>)

lemma cancel_files_steady: "cancel_files fo ms r = Some r' \<Longrightarrow> steady r r'"
  by (induction fo ms r rule: cancel_files.induct) (auto intro: steady_trans [OF cancel_sync_steady] split: option.splits)

lemma on_advance_steady: "on_advance E fid peer_id source local r = Some r' \<Longrightarrow> steady r r'"
  by (auto simp: on_advance_def Let_def cancel_sync_steady intro: steady_trans [OF cancel_sync_steady aside_steady] aside_steady announce_aside
      split: option.splits if_splits)

lemma forget_file_steady: "steady r (forget_file key r)"
proof -
  have "aside r (forget_guard k (case ct_block_iterator (fst r) of
      Some it \<Rightarrow> if get_full_id (ct_store (fst r)) (it_source it) = k then (fst r)\<lparr>ct_block_iterator := None\<rparr> else fst r | None \<Rightarrow> fst r), snd r)" for k
    by (simp add: aside_def forget_guard_def split: option.split)
  then show ?thesis unfolding forget_file_def Let_def using aside_steady drop_guard_steady steady_trans by blast
qed

lemma on_remove_files_steady: "steady r (on_remove_files dev keys r)"
proof -
  have "steady r (foldl (\<lambda>r key. forget_file key r) r keys)"
  proof (induction keys arbitrary: r)
    case (Cons key keys)
    show ?case using steady_trans [OF forget_file_steady Cons.IH] by simp
  qed simp
  then show ?thesis by (simp add: on_remove_files_def)
qed

lemma config_once_steady: "config_once E v = Some v' \<Longrightarrow> steady (fst v) (fst v')"
  by (auto simp: config_once_def intro: aside_steady dest!: send_cluster_config_aside split: if_splits)

lemma on_remove_folder_infos_steady: "on_remove_folder_infos E keys v = Some v' \<Longrightarrow> steady (fst v) (fst v')"
  by (induction E keys v rule: on_remove_folder_infos.induct) (auto dest!: config_once_steady split: option.splits if_splits)

lemma on_mark_reachable_steady: "on_mark_reachable E from_self fid dev name r = Some r' \<Longrightarrow> steady r r'"
  by (auto simp: on_mark_reachable_def Let_def cancel_sync_steady dest!: announce_aside
      intro: steady_trans [OF cancel_sync_steady aside_steady] aside_steady split: option.splits if_splits)

lemma finish_acked_steady:
  assumes "finish_acked E name fid r = Some r'"
  shows "steady r r'"
proof -
  have "aside r ((fst r)\<lparr>ct_synchronizing_files := fs\<rparr>, snd r)" for fs by (simp add: aside_def)
  note guards = aside_steady [OF this]
  show ?thesis using assms
    by (auto simp: finish_acked_def Let_def intro: guards steady_trans [OF guards io_finish_file_steady] split: option.splits if_splits)
qed

lemma on_block_ack_steady: "on_block_ack E name fid dev h unlock r = Some r' \<Longrightarrow> steady r r'"
  by (auto simp: on_block_ack_def intro: steady_trans [OF finish_acked_steady aside_steady [OF release_block_aside]] split: option.splits if_splits)

lemma on_change_steady:
  assumes "on_change E from_self a v = Some v'"
  shows "steady (fst v) (fst v')"
proof -
  have peer: "on_peer_state p st r = Some r' \<Longrightarrow> steady r r'" for p st r r'
    by (auto simp: on_peer_state_def intro: emit_steady split: if_splits)
  have upserted: "on_folder_upserted f r = Some r' \<Longrightarrow> steady r r'" for f r r'
    by (auto simp: on_folder_upserted_def Let_def intro: aside_steady with_streamer_aside split: option.splits if_splits)
  have updated: "on_update_folder b f ms r = Some r' \<Longrightarrow> steady r r'" for b f ms r r'
    by (auto simp: on_update_folder_def intro: cancel_files_steady split: option.splits if_splits)
  show ?thesis using assms
    by (cases a) (auto intro: peer upserted updated on_advance_steady config_once_steady on_remove_files_steady
        on_remove_folder_infos_steady on_mark_reachable_steady on_block_ack_steady split: if_splits)
qed

lemma visit_diffs_steady: "visit_diffs E from_self ds v = Some v' \<Longrightarrow> steady (fst v) (fst v')"
proof (induction ds arbitrary: v v' rule: measure_induct_rule [of "size_list size"])
  case (less ds)
  show ?case
  proof (cases ds)
    case Nil
    then show ?thesis using less.prems by simp
  next
    case (Cons d rest)
    obtain p cs where d: "d = Diff p cs" by (cases d)
    have IH: "visit_diffs E from_self cs w = Some w' \<Longrightarrow> steady (fst w) (fst w')"
      "visit_diffs E from_self rest w = Some w' \<Longrightarrow> steady (fst w) (fst w')" for w w'
      using less.IH [of cs] less.IH [of rest] by (simp_all add: Cons d)
    show ?thesis
    proof (cases "\<exists>peer_id. p = change (cluster_update peer_id)")
      case True
      then obtain v1 v2 r where v: "visit_diffs E from_self cs v = Some v1" "visit_diffs E from_self rest v1 = Some v2"
        "after_cluster_update E from_self (fst v2) = Some r" "v' = (r, snd v2)"
        using less.prems by (auto simp: Cons d split: option.splits)
      show ?thesis using steady_trans [OF IH(1) [OF v(1)] steady_trans [OF IH(2) [OF v(2)] aside_steady [OF after_cluster_update_aside [OF v(3)]]]] v(4)
        by simp
    next
      case False
      then have "visit_diffs E from_self ds v = (case (case p of change a \<Rightarrow> on_change E from_self a v | _ \<Rightarrow> Some v) of
             None \<Rightarrow> None
           | Some v \<Rightarrow> (case visit_diffs E from_self cs v of None \<Rightarrow> None | Some v \<Rightarrow> visit_diffs E from_self rest v))"
        by (auto simp: Cons d split: item.split change.split)
      then obtain v1 v2 where v: "(case p of change a \<Rightarrow> on_change E from_self a v | _ \<Rightarrow> Some v) = Some v1"
        "visit_diffs E from_self cs v1 = Some v2" "visit_diffs E from_self rest v2 = Some v'"
        using less.prems by (auto split: option.splits)
      have "steady (fst v) (fst v1)" using v(1) on_change_steady by (auto split: item.splits)
      then show ?thesis using steady_trans [OF _ steady_trans [OF IH(1) [OF v(2)] IH(2) [OF v(3)]]] by blast
    qed
  qed
qed

subsection \<open>Properties\<close>

definition new_appends :: "event \<Rightarrow> controller_actor \<Rightarrow> io_command set" where
  "new_appends ev c = {cmd. \<exists>pc data digest. ev = Digest pc data digest \<and> verified_append c pc data digest cmd}"

definition handled :: "event \<Rightarrow> controller_actor \<Rightarrow> controller_actor \<Rightarrow> sent list \<Rightarrow> bool" where
  "handled ev c c' out \<longleftrightarrow>
     cl_write_requests (ct_cluster c') + writes (sent_commands out) = cl_write_requests (ct_cluster c) + finished_writes ev \<and> books_ok c' \<and>
     (requests_ok c \<longrightarrow> requests_ok c' \<or> Do_shutdown None \<in> set out) \<and> open_appends c' out \<subseteq> open_appends c [] \<union> new_appends ev c"

lemma handled_by_steps:
  assumes "steady_by (finished_writes ev) (new_appends ev c) (c, empty_context) r" "finish_context r = Some (c', out)" "ct_state c = Working" "books_ok c"
  shows "handled ev c c' out"
proof -
  have "completes r c' out"
    using finish_completes [OF assms(2)] steady_working [OF assms(1)] steady_books [OF assms(1)] assms(3,4) by simp
  then show ?thesis using assms(1)
    by (auto simp: handled_def completes_def steady_by_def budget_def appends_def open_appends_def calm_def)
qed

lemma steady_widen: "steady_by d {} r r' \<Longrightarrow> steady_by d A r r'"
  by (auto simp: steady_by_def)

lemma start_handled:
  assumes "on_start E c = Some (c', out)" "ct_state c = Working" "books_ok c"
  shows "handled Start c c' out"
proof (cases "ds_less (ct_peer_state c) (dv_state (peer_of c)) = Some True")
  case True
  then show ?thesis using assms by (auto simp: on_start_def handled_def open_appends_def)
next
  case False
  obtain r where r: "send_cluster_config E (emit Controller_up (c, empty_context)) = Some r"
    and e: "finish_context ((fst r)\<lparr>ct_peer_resource := True, ct_announced := True\<rparr>, snd r) = Some (c', out)"
    using assms(1) False by (auto simp: on_start_def split: option.splits bool.splits)
  have "steady (c, empty_context) r"
    using steady_trans [OF emit_steady aside_steady [OF send_cluster_config_aside [OF r]]] by simp
  moreover have "aside r ((fst r)\<lparr>ct_peer_resource := True, ct_announced := True\<rparr>, snd r)" by (simp add: aside_def)
  ultimately have "steady (c, empty_context) ((fst r)\<lparr>ct_peer_resource := True, ct_announced := True\<rparr>, snd r)"
    using aside_steady steady_trans by blast
  then show ?thesis using handled_by_steps [OF _ e] assms(2,3) steady_widen by simp
qed

lemma digest_handled:
  assumes "on_digest E pc data digest c = Some (c', out)" "ct_state c = Working" "books_ok c"
  shows "handled (Digest pc data digest) c c' out"
proof -
  let ?c = "c\<lparr>ct_hash_requests := ct_hash_requests c - 1\<rparr>" and ?A = "{cmd. verified_append c pc data digest cmd}"
  obtain found where found: "answered c pc = Some found" using assms(1) by (auto simp: on_digest_def Let_def split: if_splits option.splits)
  obtain r give_back try_next where t: "take_digest pc found data digest (?c, empty_context) = Some (r, give_back, try_next)"
    using assms(1) found by (auto simp: on_digest_def Let_def split: if_splits option.splits)
  obtain r1 where r1: "(if give_back then map_option (\<lambda>r. case found of None \<Rightarrow> r | Some (f, _) \<Rightarrow> cancel_sync f r)
      (release_block (pq_folder (pc_request pc)) (pq_hash (pc_request pc)) False r) else Some r) = Some r1"
    using assms(1) found t by (fastforce simp: on_digest_def Let_def split: if_splits option.splits)
  obtain r2 where r2: "(if try_next then pull_next E r1 else Some r1) = Some r2" and e: "finish_context r2 = Some (c', out)"
    using assms(1) found t r1 by (cases "if try_next then pull_next E r1 else Some r1") (auto simp: on_digest_def Let_def split: if_splits)
  have "verified_append ?c pc data digest cmd = verified_append c pc data digest cmd" for cmd by (simp add: verified_append_def)
  then have "steady_by 0 ?A (?c, empty_context) r" using take_digest_steady [OF t] found by simp
  moreover have "steady (c, empty_context) (?c, empty_context)" by (intro aside_steady) (simp add: aside_def)
  moreover have "steady r r1" using r1
    by (auto intro: steady_trans [OF aside_steady [OF release_block_aside]] cancel_sync_steady aside_steady release_block_aside split: if_splits option.splits)
  moreover have "steady r1 r2" using r2 pull_next_steady by (auto split: if_splits)
  ultimately have "steady_by 0 ?A (c, empty_context) r2" by (auto simp: steady_by_def)
  then show ?thesis using handled_by_steps [OF _ e] assms(2,3) by (simp add: new_appends_def)
qed

lemma handle_handled:
  assumes "handle E ev c = Some (c', out)" "ct_state c = Working" "books_ok c"
  shows "handled ev c c' out"
proof -
  note ending = handled_by_steps [OF steady_widen _ assms(2,3)]
  show ?thesis
  proof (cases ev)
    case Start
    then show ?thesis using assms start_handled by simp
  next
    case (Forward ms)
    then obtain r where r: "on_messages E ms (c, empty_context) = Some r" "finish_context r = Some (c', out)"
      using assms(1,2) by (auto simp: on_forward_def bind_eq_Some_conv)
    have "steady (c, empty_context) r" using on_messages_steady [OF r(1)] assms(2,3) by simp
    then show ?thesis using ending [OF _ r(2)] Forward by simp
  next
    case (Io_done cmds)
    let ?c = "c\<lparr>ct_fs_requests := ct_fs_requests c - 1\<rparr>"
    obtain r r1 where r: "postprocess_all E cmds (?c, empty_context) = Some r" "pull_next E r = Some r1" "finish_context r1 = Some (c', out)"
      using assms(1) Io_done by (auto simp: on_postprocess_io_def bind_eq_Some_conv split: if_splits option.splits)
    have "steady (c, empty_context) (?c, empty_context)" by (intro aside_steady) (simp add: aside_def)
    then have "steady_by (writes (map fst cmds)) {} (c, empty_context) r1"
      using steady_by_trans [OF postprocess_all_steady [OF r(1)] pull_next_steady [OF r(2)]] steady_before by simp
    then show ?thesis using ending [OF _ r(3)] Io_done by simp
  next
    case (Digest pc data digest)
    then show ?thesis using assms digest_handled by simp
  next
    case (Update from_self ds)
    then obtain v r r1 where r: "visit_diffs E from_self ds ((c, empty_context), False) = Some v" "pull_next E (fst v) = Some r"
      "push_pending E r = Some r1" "finish_context r1 = Some (c', out)"
      using assms(1) by (auto simp: visit_def bind_eq_Some_conv split: option.splits)
    have "steady (c, empty_context) r1"
      using steady_trans [OF visit_diffs_steady [OF r(1)] steady_trans [OF pull_next_steady [OF r(2)] aside_steady [OF push_pending_aside [OF r(3)]]]] by simp
    then show ?thesis using ending [OF _ r(4)] Update by simp
  next
    case Tx_signal
    then obtain r where r: "push_pending E (c, empty_context) = Some r" "finish_context r = Some (c', out)"
      using assms(1) by (auto simp: on_tx_signal_def bind_eq_Some_conv)
    have "steady (c, empty_context) r" by (rule aside_steady [OF push_pending_aside [OF r(1)]])
    then show ?thesis using ending [OF _ r(2)] Tx_signal by simp
  next
    case (Peer_down same ee)
    then show ?thesis using assms
      by (auto simp: on_peer_down_def handled_def open_appends_def books_ok_def requests_ok_def split: if_splits)
  next
    case Fs_predown
    then show ?thesis using assms by (auto simp: on_fs_predown_def handled_def open_appends_def)
  qed
qed

text \<open>
  C6: a write of a block is ordered only while the number that all connections share allows it, and the number is given back
  with the answer: whatever a running controller handles, what is left of it and the writes sent out make up what was left before and
  the writes that have finished. It never gets negative.
\<close>

theorem write_requests_conserved:
  assumes "handle E ev c = Some (c', out)" and "ct_state c = Working" and "books_ok c"
  shows "cl_write_requests (ct_cluster c') + writes (sent_commands out) = cl_write_requests (ct_cluster c) + finished_writes ev \<and>
    0 \<le> cl_write_requests (ct_cluster c') \<and> books_ok c'"
  using handle_handled [OF assms] by (simp add: handled_def books_ok_def)

text \<open>
  C2: data of a peer is written only when its digest is that of the block at that place of the file: every write of new data that a
  running controller sends out or has waiting after an event was waiting before, or the event is the digest of the block, as
  computed, and the write puts the data to the offset of the block.
\<close>

theorem only_verified_blocks_written:
  assumes "handle E ev c = Some (c', out)" and "ct_state c = Working" and "books_ok c"
    and "cmd \<in> set (ct_block_write_queue c') \<union> set (sent_commands out)" and "is_append cmd"
  shows "cmd \<in> set (ct_block_write_queue c) \<or>
    (\<exists>pc data digest. ev = Digest pc data digest \<and> verified_append c pc data digest cmd)"
  using handle_handled [OF assms(1-3)] assms(4,5) by (auto simp: handled_def open_appends_def new_appends_def)


text \<open>
  When more may be pulled, the search for a slot of a request finds a free one, so its assertions hold, wherever it starts.
\<close>

theorem request_finds_slot:
  assumes "requests_ok c" and "can_pull_more advances c"
  shows "\<exists>i s. free_slot (ct_block_requests c) (ct_blocks_max_requested c) (ct_block_requests_next c) (ct_block_requests_next c) = Some (i, s) \<and>
    i < length (ct_block_requests c) \<and> s < ct_blocks_max_requested c \<and> ct_block_requests c ! i = None"
proof -
  have n: "length (ct_block_requests c) = ct_blocks_max_requested c" "ct_block_requests_next c < ct_blocks_max_requested c"
    using assms(1) by (simp_all add: requests_ok_def)
  have "ct_rx_blocks_requested c < of_nat (ct_blocks_max_requested c)" using assms(2) by (auto simp: can_pull_more_def not_le)
  then have "used_slots (ct_block_requests c) < length (ct_block_requests c)" using open_slot [OF assms(1)] n by simp
  then have "\<exists>k < length (ct_block_requests c). ct_block_requests c ! ((ct_block_requests_next c + k) mod length (ct_block_requests c)) = None"
    using n by (intro some_slot_free) simp_all
  then show ?thesis unfolding n(1) [symmetric] using n by (intro free_slot_around) simp_all
qed

subsection \<open>An example\<close>

definition awaited_block :: block_info where
  "awaited_block = \<lparr>bi_hash = [2], bi_file_blocks = multi [\<lparr>fb_block = 11, fb_file = 0, fb_block_idx = 0\<rparr>], bi_size = 5, bi_counter = 2\<rparr>"

definition busy_cluster :: cluster where
  "busy_cluster = shared_cluster\<lparr>cl_write_requests := 1, cl_store := \<lparr>st_files = [0 \<mapsto> (blank_file (file_key_prefix # replicate 32 0))\<lparr>fi_name := ''a'',
     fi_sequence := 1, fi_content := file_content [Some (11, False)], fi_flags := f_type_file\<rparr>], st_blocks = [11 \<mapsto> awaited_block]\<rparr>\<rparr>"

definition open_request :: peer_request_context where
  "open_request = \<lparr>pc_request = make_request 0 ''f'' ''a'' 0 awaited_block, pc_sequence = 1, pc_block_index = 0\<rparr>"

definition busy_env :: controller_env where
  "busy_env = \<lparr>cn_codec = sample_codec, cn_platform = any_platform, cn_pick = hd,
     cn_advance = \<lparr>ae_unset_uuid = [], ae_empty_digest = [], ae_local_time = pl_local_time any_platform\<rparr>,
     cn_update = \<lparr>ce_url = \<lparr>ul_parse_uri = Map.empty, ul_set_port_number = (\<lambda>_ u. u)\<rparr>, ce_make_dirs = (\<lambda>_. None)\<rparr>, cn_permissions_supported = (\<lambda>_. True), cn_unique = (\<lambda>_. True),
     cn_detached_info = (\<lambda>_. (shared_folder, blank_folder_info shared_device [7] [2])), cn_detached_folder = (\<lambda>_. shared_folder)\<rparr>"

definition busy_controller :: controller_actor where
  "busy_controller = (make_controller busy_cluster sample_sequencer shared_device 1 2 100 1000 10)
     \<lparr>ct_block_requests := [Some open_request, None], ct_block_requests_next := 1, ct_rx_blocks_requested := 1, ct_hash_requests := 1,
      ct_synchronizing_folders := [\<lparr>fy_folder = ''f'', fy_blocks = [([2], 11, 1)], fy_synchronizing = True\<rparr>]\<rparr>"

lemmas busy_defs = busy_controller_def make_controller_def busy_cluster_def shared_cluster_def new_cluster_def

lemma busy_ok: "ct_state busy_controller = Working" "books_ok busy_controller" "requests_ok busy_controller"
  "can_pull_more 0 busy_controller"
  by (simp_all add: busy_defs books_ok_def requests_ok_def can_pull_more_def used_slots_def word_le_nat_alt)

text \<open>A response, a digest that matches, and the answer to the write.\<close>

definition written :: io_command where
  "written = Append_block \<lparr>bc_block = 11, bc_target_file = 0, bc_target_folder = (''f'', replicate 32 2), bc_block_index = 0\<rparr> ''f'' ''/f/a'' [3] 0 5"

lemma busy_verified: "case handle busy_env (Digest open_request [3] (Some [2])) busy_controller of None \<Rightarrow> False
   | Some (c', out) \<Rightarrow> sent_commands out = [written] \<and> cl_write_requests (ct_cluster c') = 0"
  by code_simp

lemma busy_response: "case handle busy_env (Forward [Response \<lparr>ps_id = 0, ps_data = [3], ps_code = NO_BEP_ERROR\<rparr>]) busy_controller of
     None \<Rightarrow> False | Some (c', out) \<Rightarrow> length out = 1 \<and> \<not> list_ex (\<lambda>e. case e of Do_shutdown _ \<Rightarrow> True | _ \<Rightarrow> False) out"
  by code_simp

theorem write_requests_conserved_witness:
  "\<exists>c' out. handle busy_env (Digest open_request [3] (Some [2])) busy_controller = Some (c', out) \<and>
     cl_write_requests (ct_cluster c') + writes (sent_commands out) = 1 \<and> cl_write_requests (ct_cluster c') = 0"
proof -
  obtain c' out where h: "handle busy_env (Digest open_request [3] (Some [2])) busy_controller = Some (c', out)"
    and z: "cl_write_requests (ct_cluster c') = 0"
    using busy_verified by (auto split: option.splits)
  moreover have "cl_write_requests (ct_cluster busy_controller) = 1" by (simp add: busy_defs)
  ultimately show ?thesis using write_requests_conserved [OF h busy_ok(1,2)] by auto
qed

theorem only_verified_blocks_written_witness:
  "verified_append busy_controller open_request [3] (Some [2]) written"
proof -
  obtain c' out where h: "handle busy_env (Digest open_request [3] (Some [2])) busy_controller = Some (c', out)"
    and z: "sent_commands out = [written]"
    using busy_verified by (auto split: option.splits)
  moreover have "ct_block_write_queue busy_controller = []" by (simp add: busy_defs)
  moreover have "is_append written" by (simp add: written_def)
  ultimately show ?thesis using only_verified_blocks_written [OF h busy_ok(1,2), of written] by auto
qed


theorem request_finds_slot_witness:
  "\<exists>i s. free_slot (ct_block_requests busy_controller) 2 1 1 = Some (i, s) \<and> i < 2 \<and> s < 2"
proof -
  have "ct_blocks_max_requested busy_controller = 2" "ct_block_requests_next busy_controller = 1" "length (ct_block_requests busy_controller) = 2"
    by (simp_all add: busy_defs)
  then show ?thesis using request_finds_slot [OF busy_ok(3,4)] by auto
qed

end
