(* ===== verification/Controller_Limits.thy ===== *)
theory Controller_Limits
  imports Controller_Safety
begin

text \<open>
  How much the controller of a connection sends: the announcements of local files against the room of the outgoing buffer. The last
  part shows where its accounts of requests, locks and writes are not kept.
\<close>

subsection \<open>Announcements\<close>

text \<open>What is announced for a folder info.\<close>

definition announced_for :: "bytes \<Rightarrow> index_update list \<Rightarrow> pr_file list" where
  "announced_for k us = (case map_of us k of None \<Rightarrow> [] | Some (ms, _) \<Rightarrow> ms)"

definition meta_total :: "store \<Rightarrow> (addr \<times> bytes) list \<Rightarrow> u32" where
  "meta_total st fs = sum_list (map (\<lambda>(f, _). of_nat (expected_meta_size (file_at st f))) fs)"

lemma map_of_add:
  "map_of (map (\<lambda>(i, ms, b). if i = k then (i, ms @ [m], b \<or> first) else (i, ms, b)) us) j
    = map_option (\<lambda>(ms, b). if j = k then (ms @ [m], b \<or> first) else (ms, b)) (map_of us j)"
  by (induction us) (auto split: if_splits)

lemma announced_add:
  "announced_for j (add_update k m first us) = announced_for j us @ (if j = k then [m] else [])"
proof (cases "map_of us k = None")
  case True
  then have "\<not> (\<exists>u \<in> set us. fst u = k)" by (force simp: map_of_eq_None_iff)
  then show ?thesis using True by (auto simp: add_update_def announced_for_def map_add_def split: option.splits)
next
  case False
  then obtain v where "map_of us k = Some v" by blast
  then have "\<exists>u \<in> set us. fst u = k" by (metis fst_conv map_of_SomeD)
  then show ?thesis using False by (auto simp: add_update_def announced_for_def map_of_add split: option.split)
qed

text \<open>When nothing is left the streamer only forgets the folder it was at.\<close>

lemma sm_next_none:
  assumes "\<And>xs. xs \<noteq> [] \<Longrightarrow> pick xs \<in> set xs" and "streamer_ok st info s" and "sm_next pick st info s = (None, s')"
  shows "outstanding st info s = []" and "streamer_ok st info s'" and "outstanding st info s' = []"
proof -
  show empty: "outstanding st info s = []" using sm_next_step [OF assms(1,2)] assms(3) by simp
  have s': "s' = s\<lparr>sm_streaming := None\<rparr>"
    using assms(3) by (auto simp: sm_next_def start_folder_def split: option.splits list.splits prod.splits)
  show "streamer_ok st info s'" using assms(2) by (simp add: s' streamer_ok_def)
  have "of_folder st info (k, n) = []" if "(k, n) \<in> set (sm_seen s)" for k n
  proof -
    have "seen_of k (sm_seen s) = n" using that assms(2) by (simp add: seen_of_def streamer_ok_def map_of_is_SomeI)
    then show ?thesis using empty that
      by (cases "\<exists>files. sm_streaming s = Some (k, files)") (auto simp: outstanding_def split: option.splits)
  qed
  then show "outstanding st info s' = []" by (auto simp: s' outstanding_def)
qed

lemma take_updates_prefix:
  assumes pick: "\<And>xs. xs \<noteq> [] \<Longrightarrow> pick xs \<in> set xs" and "streamer_ok st info s"
    and "\<forall>(f, k) \<in> set (outstanding st info s). as_proto d st (file_at st f) True \<noteq> None" and "length (outstanding st info s) < fuel"
  shows "\<exists>us' s' done_now. take_updates pick d st info room fuel expected s us = Some (us', s') \<and> streamer_ok st info s' \<and>
    outstanding st info s = done_now @ outstanding st info s' \<and>
    (\<forall>k. announced_for k us' = announced_for k us @ map (\<lambda>(f, _). the (as_proto d st (file_at st f) True)) (filter (\<lambda>(_, j). j = k) done_now)) \<and>
    (outstanding st info s' = [] \<or> room \<le> expected + meta_total st done_now) \<and>
    (\<forall>n < length done_now. expected + meta_total st (take n done_now) < room)"
  using assms(2-)
proof (induction fuel arbitrary: expected s us)
  case (Suc fuel)
  show ?case
  proof (cases "expected < room")
    case False
    then show ?thesis using Suc.prems(1) by (intro exI [of _ us] exI [of _ s] exI [of _ "[]"]) (auto simp: meta_total_def)
  next
    case True
    obtain res s1 where n: "sm_next pick st info s = (res, s1)" by fastforce
    show ?thesis
    proof (cases res)
      case None
      then have "sm_next pick st info s = (None, s1)" using n by simp
      note facts = sm_next_none [OF pick Suc.prems(1) this]
      then show ?thesis using True n None
        by (intro exI [of _ us] exI [of _ s1] exI [of _ "[]"]) (simp add: meta_total_def)
    next
      case (Some t)
      obtain f k first where t: "t = (f, k, first)" by (rule prod_cases3)
      have step: "streamer_ok st info s1" "outstanding st info s = (f, k) # outstanding st info s1"
        using sm_next_step [OF pick Suc.prems(1)] n by (simp_all add: Some t)
      obtain m where m: "as_proto d st (file_at st f) True = Some m" using Suc.prems(2) step(2) by auto
      let ?e = "expected + of_nat (expected_meta_size (file_at st f))" and ?us = "add_update k m first us"
      obtain us' s' later where l: "take_updates pick d st info room fuel ?e s1 ?us = Some (us', s')" "streamer_ok st info s'"
        "outstanding st info s1 = later @ outstanding st info s'"
        "\<forall>j. announced_for j us' = announced_for j ?us @ map (\<lambda>(f, _). the (as_proto d st (file_at st f) True)) (filter (\<lambda>(_, i). i = j) later)"
        "outstanding st info s' = [] \<or> room \<le> ?e + meta_total st later" "\<forall>n < length later. ?e + meta_total st (take n later) < room"
        using Suc.IH [of s1 ?e ?us] Suc.prems step by auto
      have "expected + meta_total st (take i ((f, k) # later)) < room" if "i < length ((f, k) # later)" for i
        using that l(6) True by (cases i) (auto simp: meta_total_def add.assoc)
      then show ?thesis using True n m l
        by (intro exI [of _ us'] exI [of _ s'] exI [of _ "(f, k) # later"])
          (auto simp: Some t step(2) announced_add meta_total_def add.assoc)
    qed
  qed
qed simp


text \<open>
  C21: what \<open>push_pending\<close> announces: the files that the streamer has outstanding, in their order and each in the message
  of its folder, as many as the room of the outgoing buffer allows; the last one may exceed it. The loop ends within the turns given to it.
\<close>

theorem push_pending_announces:
  assumes "ct_updates_streamer c = Some s" "ct_peer_address c" "\<And>xs. xs \<noteq> [] \<Longrightarrow> cn_pick E xs \<in> set xs"
    and "streamer_ok (ct_store c) (infos_of E (ct_cluster c)) s"
    and "\<forall>(f, k) \<in> set (outstanding (ct_store c) (infos_of E (ct_cluster c)) s).
      as_proto (ae_empty_digest (cn_advance E)) (ct_store c) (file_at (ct_store c) f) True \<noteq> None"
  shows "\<exists>us s' now. push_pending E (c, x) = push_updates E (\<lambda>k. fd_id (fst (info_by_uuid E (ct_cluster c) k))) us (c\<lparr>ct_updates_streamer := Some s'\<rparr>, x) \<and>
    outstanding (ct_store c) (infos_of E (ct_cluster c)) s = now @ outstanding (ct_store c) (infos_of E (ct_cluster c)) s' \<and>
    (\<forall>k. announced_for k us = map (\<lambda>(f, _). the (as_proto (ae_empty_digest (cn_advance E)) (ct_store c) (file_at (ct_store c) f) True))
      (filter (\<lambda>(_, j). j = k) now)) \<and>
    (outstanding (ct_store c) (infos_of E (ct_cluster c)) s' = [] \<or> tx_room c \<le> meta_total (ct_store c) now) \<and>
    (\<forall>n < length now. meta_total (ct_store c) (take n now) < tx_room c)"
proof -
  let ?st = "ct_store c" and ?info = "infos_of E (ct_cluster c)" and ?d = "ae_empty_digest (cn_advance E)"
  obtain us s' now where t: "take_updates (cn_pick E) ?d ?st ?info (tx_room c) (Suc (length (outstanding ?st ?info s))) 0 s [] = Some (us, s')"
    and rest: "outstanding ?st ?info s = now @ outstanding ?st ?info s'"
      "\<forall>k. announced_for k us = announced_for k [] @ map (\<lambda>(f, _). the (as_proto ?d ?st (file_at ?st f) True)) (filter (\<lambda>(_, j). j = k) now)"
      "outstanding ?st ?info s' = [] \<or> tx_room c \<le> 0 + meta_total ?st now" "\<forall>n < length now. 0 + meta_total ?st (take n now) < tx_room c"
    using take_updates_prefix [OF assms(3-5) lessI, where expected = 0 and us = "[]" and room = "tx_room c"] by blast
  have "push_pending E (c, x) = push_updates E (\<lambda>k. fd_id (fst (info_by_uuid E (ct_cluster c) k))) us (c\<lparr>ct_updates_streamer := Some s'\<rparr>, x)"
    using assms(1,2) t by (simp add: push_pending_def Let_def del: take_updates.simps)
  then show ?thesis using rest by (intro exI [of _ us] exI [of _ s'] exI [of _ now]) (simp add: announced_for_def)
qed

text \<open>The room is what is left, as long as the buffer does not exceed its maximum; beyond it the subtraction wraps.\<close>

lemma tx_room_left: "ct_outgoing_buffer c \<le> ct_outgoing_buffer_max c \<Longrightarrow> unat (tx_room c) + unat (ct_outgoing_buffer c) = unat (ct_outgoing_buffer_max c)"
  by (simp add: tx_room_def unat_sub_if' word_le_nat_alt)

lemma tx_room_wraps:
  "ct_outgoing_buffer_max c < ct_outgoing_buffer c \<Longrightarrow>
   unat (tx_room c) + unat (ct_outgoing_buffer c) = unat (ct_outgoing_buffer_max c) + 2 ^ 32"
  by (simp add: tx_room_def unat_sub_if' word_less_nat_alt) (use unsigned_less [of "ct_outgoing_buffer c", where ?'a = nat] in simp)

definition announcing_controller :: controller_actor where
  "announcing_controller = (make_controller ((new_cluster sample_device 0)\<lparr>cl_store := two_local_files\<rparr>) sample_sequencer shared_device 1 2 100 60 10)
     \<lparr>ct_updates_streamer := Some fresh_streamer\<rparr>"

definition announcing_env :: controller_env where
  "announcing_env = busy_env\<lparr>cn_detached_info := (\<lambda>k. (shared_folder, two_files_info k))\<rparr>"

lemma announcing_facts:
  "ct_updates_streamer announcing_controller = Some fresh_streamer" "ct_peer_address announcing_controller"
  "xs \<noteq> [] \<Longrightarrow> cn_pick announcing_env xs \<in> set xs"
  "ct_store announcing_controller = two_local_files" "infos_of announcing_env (ct_cluster announcing_controller) = two_files_info"
  by (auto simp: announcing_controller_def make_controller_def announcing_env_def busy_env_def infos_of_def info_by_uuid_def folder_info_by_uuid_def
      new_cluster_def fun_eq_iff)

lemma announcing_files:
  "\<forall>(f, k) \<in> set (outstanding two_local_files two_files_info fresh_streamer).
     as_proto (ae_empty_digest (cn_advance announcing_env)) two_local_files (file_at two_local_files f) True \<noteq> None"
  "tx_room announcing_controller = 60" "meta_total two_local_files [(0, [7])] = 49"
  by code_simp+

theorem push_pending_announces_witness:
  "\<exists>s' now. [(0, [7]), (1, [7])] = now @ outstanding two_local_files two_files_info s' \<and> now \<noteq> []"
proof -
  note at = announcing_facts announcing_files fresh_streamer_facts
  obtain us s' now where p: "outstanding two_local_files two_files_info fresh_streamer = now @ outstanding two_local_files two_files_info s'"
    and room: "outstanding two_local_files two_files_info s' = [] \<or> 60 \<le> meta_total two_local_files now"
    using push_pending_announces [of announcing_controller fresh_streamer announcing_env] unfolding at(4,5,7)
    by (metis at(1,2,3,6,9))
  have "now \<noteq> []"
  proof
    assume "now = []"
    then show False using p room at(10) by (simp add: meta_total_def)
  qed
  then show ?thesis using p at(10) by metis
qed

subsection \<open>Where accounts are not kept\<close>

text \<open>
  The number of a response is compared with the number of slots by \<open>>\<close>: the number of slots itself is let through and the access
  is out of bounds.
\<close>

lemma response_past_slots: "ps_id m = int (length (ct_block_requests (fst r))) \<Longrightarrow> on_response E m r = None"
  by (simp add: on_response_def Let_def)

text \<open>A response that belongs to no request lowers the counter of requests all the same.\<close>

lemma stray_response_counts:
  assumes "ps_id m < 0"
  shows "\<exists>r'. on_response E m r = Some r' \<and> ct_rx_blocks_requested (fst r') = ct_rx_blocks_requested (fst r) - 1 \<and>
    ct_block_requests (fst r') = ct_block_requests (fst r)"
  using assms by (simp add: on_response_def Let_def emit_def)

text \<open>Giving back a block without unlocking it, as after an error or a digest that differs, leaves it locked.\<close>

lemma release_locked:
  assumes "File_Info.release q st = Some st'" "st_blocks st p = Some b" "bi_is_locked b" "st_blocks st' p = Some b'"
  shows "bi_is_locked b'"
  using assms
  by (auto simp: File_Info.release_def put_block_def is_locked_bit refcouner_dec_def Let_def bit_simps bit_masks
      split: option.splits if_splits prod.splits)

lemma released_block_stays_locked:
  assumes "release_block fid h False r = Some r'" "st_blocks (ct_store (fst r)) p = Some b" "bi_is_locked b" "st_blocks (ct_store (fst r')) p = Some b'"
  shows "bi_is_locked b'"
proof -
  obtain q where "File_Info.release q (ct_store (fst r)) = Some (ct_store (fst r'))"
    using assms(1) by (auto simp: release_block_def Let_def set_store_def set_sync_def push_back_def split: option.splits prod.splits if_splits)
  then show ?thesis using release_locked assms(2-4) by blast
qed

text \<open>
  A timer that gives up the requests to the file system returns one write for each batch of commands, however many writes were in
  the batch.
\<close>

lemma ack_timer_returns_batches:
  assumes "0 \<le> cl_write_requests (ct_cluster c)"
  shows "\<exists>c'. on_fs_ack_timer False c = Some c' \<and> cl_write_requests (ct_cluster c') = cl_write_requests (ct_cluster c) + int (ct_fs_requests c)"
  using assms by (auto simp: on_fs_ack_timer_def modify_write_requests_def Let_def)

end
