(* ===== verification/Hashing.thy ===== *)
theory Hashing
  imports Fs_Support Messages Resolver "HOL-Library.Multiset"
begin

text \<open>
  The hashing of local files, in pieces (\<^verbatim>\<open>src/net/local_keeper/hash_base.cpp\<close>, the functions \<open>schedule_hash\<close> and
  \<open>post_process\<close> for digests of \<^verbatim>\<open>src/net/local_keeper/folder_context.cpp\<close>, and \<^verbatim>\<open>src/fs/task/segment_iterator.cpp\<close>). A file
  is divided into blocks; segments of consecutive blocks are read and hashed as far as the pool of hashers allows, the
  digests come back in any order, and the file is ready with the last one.
\<close>

subsection \<open>State\<close>

text \<open>What was found on the disk; presences are known by their address.\<close>

record child_info =
  ci_path :: string
  ci_link_target :: string
  ci_last_write_time :: int
  ci_size :: int
  ci_type :: file_info_type
  ci_perms :: u32
  ci_self :: "nat option"
  ci_parent :: "nat option"
  ci_generation :: nat

record hash_base =
  hb_info :: child_info
  hb_block_size :: int
  hb_total_blocks :: int
  hb_unprocessed_blocks :: int
  hb_unhashed_blocks :: int
  hb_errored_blocks :: int
  hb_blocks :: "pr_block list"
  hb_action :: advance_action
  hb_incomplete :: bool

record segment =
  sg_path :: string
  sg_offset :: int
  sg_block_index :: int
  sg_block_count :: int
  sg_block_size :: int
  sg_last_block_size :: int
  sg_last_write_time :: int

definition no_block :: pr_block where
  "no_block = \<lparr>pb_offset = 0, pb_size = 0, pb_hash = []\<rparr>"

subsection \<open>Operations\<close>

text \<open>
  The constructor. With a given block size the number of blocks is found by a division, whose remainder is taken by the
  number of blocks; dividing by zero has no result.
\<close>

definition block_count_for :: "int \<Rightarrow> int \<Rightarrow> int option" where
  "block_count_for sz bs =
     (let blocks_count = sz div bs
      in if bs = 0 \<or> blocks_count = 0 then None else Some (narrow32 (if sz mod blocks_count \<noteq> 0 then blocks_count + 1 else blocks_count)))"

definition hash_of_blocks :: "child_info \<Rightarrow> int \<Rightarrow> int \<Rightarrow> hash_base" where
  "hash_of_blocks info bs blocks_count =
     \<lparr>hb_info = info, hb_block_size = bs, hb_total_blocks = blocks_count, hb_unprocessed_blocks = blocks_count, hb_unhashed_blocks = blocks_count,
      hb_errored_blocks = 0, hb_blocks = replicate (nat blocks_count) no_block, hb_action = ignore, hb_incomplete = False\<rparr>"

definition make_hash :: "child_info \<Rightarrow> int \<Rightarrow> hash_base option" where
  "make_hash info given_size =
     (if given_size = 0 then case Fs_Support.get_block_size (ci_size info) 0 of (blocks_count, bs) \<Rightarrow> Some (hash_of_blocks info bs blocks_count)
      else map_option (hash_of_blocks info given_size) (block_count_for (ci_size info) given_size))"

text \<open>A file that was being received is divided like the file of the peer.\<close>

definition make_hash_incomplete :: "child_info \<Rightarrow> nat \<Rightarrow> int \<Rightarrow> int \<Rightarrow> advance_action \<Rightarrow> hash_base" where
  "make_hash_incomplete info presence bs blocks_count action =
     (hash_of_blocks (info\<lparr>ci_self := Some presence\<rparr>) bs blocks_count)\<lparr>hb_action := action, hb_incomplete := True\<rparr>"

definition commit_error :: "int \<Rightarrow> hash_base \<Rightarrow> bool \<times> hash_base" where
  "commit_error delta hb =
     (let hb = hb\<lparr>hb_errored_blocks := hb_errored_blocks hb + delta\<rparr>
      in (hb_errored_blocks hb + hb_unprocessed_blocks hb = hb_unhashed_blocks hb, hb))"

definition last_block_sz :: "hash_base \<Rightarrow> int \<Rightarrow> int" where
  "last_block_sz hb max_blocks =
     (if hb_unprocessed_blocks hb = max_blocks \<and> hb_total_blocks hb > 1
      then narrow32 (ci_size (hb_info hb) - hb_block_size hb * (hb_total_blocks hb - 1))
      else hb_block_size hb)"

text \<open>
  What is scheduled with the given pool: the result of the function, the segment when there is one, the rest of the pool and the
  file. \<open>None\<close> is a violated assertion.
\<close>

definition schedule_hash :: "int \<Rightarrow> hash_base \<Rightarrow> (int \<times> segment option \<times> int \<times> hash_base) option" where
  "schedule_hash pool hb =
     (if hb_errored_blocks hb \<noteq> 0 then Some (1, None, pool, hb)
      else if pool = 0 then Some (- 1, None, pool, hb)
      else let first_block = hb_total_blocks hb - hb_unprocessed_blocks hb;
               max_blocks = min pool (hb_unprocessed_blocks hb);
               last_sz = last_block_sz hb max_blocks;
               left = hb_unprocessed_blocks hb - max_blocks
           in if last_sz \<le> 0 \<or> max_blocks \<le> 0 then None
              else Some (if left \<noteq> 0 then - 1 else 0,
                     Some \<lparr>sg_path = ci_path (hb_info hb), sg_offset = first_block * hb_block_size hb, sg_block_index = first_block,
                       sg_block_count = max_blocks, sg_block_size = hb_block_size hb, sg_last_block_size = last_sz,
                       sg_last_write_time = ci_last_write_time (hb_info hb)\<rparr>,
                     pool - max_blocks, hb\<lparr>hb_unprocessed_blocks := left\<rparr>))"

text \<open>The blocks a segment reads: index, offset and number of bytes.\<close>

definition segment_blocks :: "segment \<Rightarrow> (int \<times> int \<times> int) list" where
  "segment_blocks s = map (\<lambda>j. (sg_block_index s + j, sg_offset s + sg_block_size s * j,
     if j + 1 = sg_block_count s then sg_last_block_size s else sg_block_size s)) [0..sg_block_count s - 1]"

text \<open>
  The task: the file is opened, must have the time of its last modification, and every block is read; only then the
  hashes are ordered. The second part is the number of blocks whose reading was tried.
\<close>

definition process_segment :: "bool \<Rightarrow> int option \<Rightarrow> (int \<Rightarrow> int \<Rightarrow> bytes option) \<Rightarrow> segment \<Rightarrow> (int \<times> bytes) list option \<times> int" where
  "process_segment opens modified read s =
     (if \<not> opens \<or> modified \<noteq> Some (sg_last_write_time s) then (None, 0)
      else let parts = map (\<lambda>(i, off, n). (i, read off n)) (segment_blocks s); good = takeWhile (\<lambda>(_, r). r \<noteq> None) parts
           in if length good = length parts then (Some (map (\<lambda>(i, r). (i, the r)) good), sg_block_count s)
              else (None, int (length good) + 1))"

text \<open>Reading from an open file that has the given content.\<close>

definition read_file :: "bytes \<Rightarrow> int \<Rightarrow> int \<Rightarrow> bytes option" where
  "read_file content off n =
     (if nat off + nat n \<le> length content then Some (take (nat n) (drop (nat off) content)) else None)"

text \<open>What the last digest of a file gives.\<close>

datatype hash_outcome = Aborted_hash string | Rehashed child_info "pr_block list" advance_action | Ready child_info "pr_block list"

definition outcome_of :: "hash_base \<Rightarrow> hash_outcome" where
  "outcome_of hb =
     (if hb_errored_blocks hb \<noteq> 0 then Aborted_hash (ci_path (hb_info hb))
      else if hb_incomplete hb then Rehashed (hb_info hb) (hb_blocks hb) (hb_action hb)
      else Ready (hb_info hb) (hb_blocks hb))"

text \<open>A digest of a block, or an error. The offset is computed with 32-bit integers.\<close>

definition take_hash :: "int \<Rightarrow> nat \<Rightarrow> bytes option \<Rightarrow> hash_base \<Rightarrow> (hash_outcome option \<times> hash_base) option" where
  "take_hash index data_size digest hb =
     (let hb = hb\<lparr>hb_unhashed_blocks := hb_unhashed_blocks hb - 1\<rparr>
      in case (case digest of
            None \<Rightarrow> Some (hb\<lparr>hb_errored_blocks := hb_errored_blocks hb + 1\<rparr>)
          | Some h \<Rightarrow> if 0 \<le> index \<and> nat index < length (hb_blocks hb)
              then Some (hb\<lparr>hb_blocks := (hb_blocks hb)[nat index :=
                     \<lparr>pb_offset = narrow32 (index * hb_block_size hb), pb_size = narrow32 (int data_size), pb_hash = h\<rparr>]\<rparr>)
              else None) of
          None \<Rightarrow> None
        | Some hb \<Rightarrow> Some (if hb_unhashed_blocks hb = 0 then Some (outcome_of hb) else None, hb))"

subsection \<open>The segments cover the file\<close>

text \<open>Scheduling again and again with whatever the pool has.\<close>

fun schedule_all :: "int list \<Rightarrow> hash_base \<Rightarrow> segment list option" where
  "schedule_all [] hb = Some []"
| "schedule_all (pool # pools) hb =
     (if hb_unprocessed_blocks hb = 0 then Some []
      else case schedule_hash pool hb of
          None \<Rightarrow> None
        | Some (_, s, _, hb) \<Rightarrow> map_option (\<lambda>ss. (case s of None \<Rightarrow> [] | Some s \<Rightarrow> [s]) @ ss) (schedule_all pools hb))"

text \<open>The blocks of a file by the division: full ones and the rest.\<close>

definition division_blocks :: "hash_base \<Rightarrow> int \<Rightarrow> int \<Rightarrow> (int \<times> int \<times> int) list" where
  "division_blocks hb a b = map (\<lambda>i. (i, i * hb_block_size hb, min (hb_block_size hb) (ci_size (hb_info hb) - i * hb_block_size hb))) [a..b - 1]"

definition divided :: "hash_base \<Rightarrow> bool" where
  "divided hb \<longleftrightarrow> 0 < hb_block_size hb \<and> hb_block_size hb < 2 ^ 31 \<and> 1 \<le> hb_total_blocks hb \<and> hb_errored_blocks hb = 0 \<and>
     hb_block_size hb \<le> ci_size (hb_info hb) \<and> (hb_total_blocks hb - 1) * hb_block_size hb < ci_size (hb_info hb) \<and> ci_size (hb_info hb) \<le> hb_total_blocks hb * hb_block_size hb"

lemma division_size_le:
  assumes "0 < sz"
  shows "division_size sz 0 \<le> sz"
proof -
  have "division_size sz 0 = (if chosen_size sz = 0 then 16777216 else chosen_size sz)"
    using assms by (auto simp: division_size_def kept_size_cases block_sizes_list)
  then show ?thesis using assms by (cases rule: chosen_size_cases [OF assms]) auto
qed

lemma make_hash_divided:
  assumes "make_hash info 0 = Some hb" and "0 < ci_size info" and "ci_size info < 2 ^ 47"
  shows "divided hb \<and> hb_unprocessed_blocks hb = hb_total_blocks hb \<and> hb_unhashed_blocks hb = hb_total_blocks hb \<and>
    length (hb_blocks hb) = nat (hb_total_blocks hb) \<and> hb_info hb = info \<and> \<not> hb_incomplete hb"
proof -
  let ?sz = "ci_size info"
  let ?bs = "division_size ?sz 0"
  have r: "0 < ?bs" "?bs \<le> 2 ^ 24" using division_size_range [OF assms(2,3), of 0] by auto
  have le: "?bs \<le> ?sz" by (rule division_size_le [OF assms(2)])
  have "Fs_Support.get_block_size ?sz 0 = ((?sz + ?bs - 1) div ?bs, ?bs)" by (rule get_block_size_division [OF assms(2,3)])
  then have hb: "hb = hash_of_blocks info ?bs ((?sz + ?bs - 1) div ?bs)" using assms(1) by (simp add: make_hash_def)
  have c: "((?sz + ?bs - 1) div ?bs - 1) * ?bs < ?sz" "?sz \<le> (?sz + ?bs - 1) div ?bs * ?bs" using ceiling_bounds [OF r(1)] by auto
  have "1 \<le> (?sz + ?bs - 1) div ?bs"
  proof (rule ccontr)
    assume "\<not> 1 \<le> (?sz + ?bs - 1) div ?bs"
    then have "(?sz + ?bs - 1) div ?bs * ?bs \<le> 0" using r(1) by (simp add: mult_nonpos_nonneg)
    then show False using c(2) assms(2) by linarith
  qed
  then show ?thesis using r c le by (simp add: hb divided_def hash_of_blocks_def)
qed


lemma upto_shift: "map ((+) a) [b..c] = [a + b..a + c]" for a b c :: int
proof (induction b c rule: upto.induct)
  case (1 b c)
  then show ?case by (cases "b \<le> c") (simp_all add: upto_rec1 [of b c] upto_rec1 [of "a + b" "a + c"] add.assoc)
qed

lemma upto_joined: "a \<le> b \<Longrightarrow> b \<le> c \<Longrightarrow> [a..b - 1] @ [b..c - 1] = [a..c - 1]" for a b c :: int
  using upto_split1 [of a "b" "c - 1"] by (cases "b = c") auto

lemma division_blocks_joined: "a \<le> b \<Longrightarrow> b \<le> c \<Longrightarrow> division_blocks hb a b @ division_blocks hb b c = division_blocks hb a c"
  unfolding division_blocks_def by (simp flip: map_append add: upto_joined)

lemma dividedD:
  assumes "divided hb"
  shows "0 < hb_block_size hb" "hb_block_size hb < 2 ^ 31" "1 \<le> hb_total_blocks hb" "hb_block_size hb \<le> ci_size (hb_info hb)"
    "(hb_total_blocks hb - 1) * hb_block_size hb < ci_size (hb_info hb)"
    "ci_size (hb_info hb) - (hb_total_blocks hb - 1) * hb_block_size hb \<le> hb_block_size hb"
  using assms by (auto simp: divided_def algebra_simps)

lemma divided_whole:
  assumes "divided hb" and "i < hb_total_blocks hb - 1"
  shows "hb_block_size hb \<le> ci_size (hb_info hb) - i * hb_block_size hb"
proof -
  have "(i + 1) * hb_block_size hb \<le> (hb_total_blocks hb - 1) * hb_block_size hb"
    using assms dividedD(1) [OF assms(1)] by (intro mult_right_mono) auto
  then show ?thesis using dividedD(5) [OF assms(1)] by (simp add: algebra_simps)
qed

text \<open>The size of the last block of a segment is what the file has left there.\<close>

lemma last_block_sz_min:
  assumes "divided hb" and "m \<le> hb_unprocessed_blocks hb" and l: "l = hb_total_blocks hb - hb_unprocessed_blocks hb + m - 1"
  shows "last_block_sz hb m = min (hb_block_size hb) (ci_size (hb_info hb) - l * hb_block_size hb) \<and> 0 < last_block_sz hb m"
proof -
  note d = dividedD [OF assms(1)]
  have "last_block_sz hb m = min (hb_block_size hb) (ci_size (hb_info hb) - l * hb_block_size hb)"
  proof (cases "hb_unprocessed_blocks hb = m")
    case True
    have "narrow32 (ci_size (hb_info hb) - hb_block_size hb * (hb_total_blocks hb - 1)) =
        ci_size (hb_info hb) - hb_block_size hb * (hb_total_blocks hb - 1)"
      using d by (intro narrow32_id) (auto simp: mult.commute)
    then show ?thesis using True d l
      by (cases "hb_total_blocks hb = 1") (auto simp: last_block_sz_def mult.commute min_def)
  next
    case False
    then show ?thesis using divided_whole [OF assms(1), of l] assms(2) l by (simp add: last_block_sz_def)
  qed
  moreover have "l * hb_block_size hb \<le> (hb_total_blocks hb - 1) * hb_block_size hb"
    using assms(2) l d(1) by (intro mult_right_mono) auto
  ultimately show ?thesis using d by linarith
qed

lemma segment_of_division:
  assumes "divided hb" and "m \<le> hb_unprocessed_blocks hb"
    and first: "first = hb_total_blocks hb - hb_unprocessed_blocks hb"
    and s: "sg_block_index s = first" "sg_offset s = first * hb_block_size hb" "sg_block_count s = m"
      "sg_block_size s = hb_block_size hb" "sg_last_block_size s = last_block_sz hb m"
  shows "segment_blocks s = division_blocks hb first (first + m)"
proof -
  let ?bs = "hb_block_size hb" and ?sz = "ci_size (hb_info hb)"
  have "segment_blocks s = map (\<lambda>i. (i, i * ?bs, min ?bs (?sz - i * ?bs))) (map ((+) first) [0..m - 1])"
    unfolding segment_blocks_def map_map comp_def
  proof (intro map_cong)
    fix j assume j: "j \<in> set [0..m - 1]"
    have "last_block_sz hb m = min ?bs (?sz - (first + j) * ?bs)" if "j + 1 = m"
      using last_block_sz_min [OF assms(1,2), of "first + j"] that first by auto
    moreover have "?bs = min ?bs (?sz - (first + j) * ?bs)" if "j + 1 \<noteq> m"
      using divided_whole [OF assms(1), of "first + j"] j that assms(2) first by auto
    ultimately show "(sg_block_index s + j, sg_offset s + sg_block_size s * j,
        if j + 1 = sg_block_count s then sg_last_block_size s else sg_block_size s) =
      (first + j, (first + j) * ?bs, min ?bs (?sz - (first + j) * ?bs))"
      using s by (auto simp: distrib_right mult.commute [of ?bs])
  qed (use s in simp)
  then show ?thesis by (simp add: upto_shift division_blocks_def add_diff_eq)
qed

lemma schedule_hash_step:
  assumes "divided hb" and "0 < pool" and "0 < hb_unprocessed_blocks hb" and "hb_unprocessed_blocks hb \<le> hb_total_blocks hb"
  obtains s where "schedule_hash pool hb =
      Some (if pool < hb_unprocessed_blocks hb then - 1 else 0, Some s, pool - min pool (hb_unprocessed_blocks hb),
        hb\<lparr>hb_unprocessed_blocks := hb_unprocessed_blocks hb - min pool (hb_unprocessed_blocks hb)\<rparr>)"
    and "segment_blocks s = division_blocks hb (hb_total_blocks hb - hb_unprocessed_blocks hb)
      (hb_total_blocks hb - hb_unprocessed_blocks hb + min pool (hb_unprocessed_blocks hb))"
    and "sg_last_write_time s = ci_last_write_time (hb_info hb)" and "sg_block_count s = min pool (hb_unprocessed_blocks hb)"
proof -
  let ?m = "min pool (hb_unprocessed_blocks hb)" and ?first = "hb_total_blocks hb - hb_unprocessed_blocks hb"
  let ?s = "\<lparr>sg_path = ci_path (hb_info hb), sg_offset = ?first * hb_block_size hb, sg_block_index = ?first,
    sg_block_count = ?m, sg_block_size = hb_block_size hb, sg_last_block_size = last_block_sz hb ?m,
    sg_last_write_time = ci_last_write_time (hb_info hb)\<rparr>"
  have "segment_blocks ?s = division_blocks hb ?first (?first + ?m)"
    by (rule segment_of_division [OF assms(1)]) auto
  moreover have "0 < last_block_sz hb ?m" using last_block_sz_min [OF assms(1) min.cobounded2 refl] by blast
  moreover have "hb_errored_blocks hb = 0" using assms(1) by (simp add: divided_def)
  ultimately show ?thesis using assms(2,3) by (intro that [of ?s]) (auto simp: schedule_hash_def Let_def min_def)
qed

lemma schedule_all_covers:
  assumes "divided hb" and "\<forall>p \<in> set pools. 0 < p" and "0 \<le> hb_unprocessed_blocks hb"
    and "hb_unprocessed_blocks hb \<le> hb_total_blocks hb" and "hb_unprocessed_blocks hb \<le> sum_list pools"
  shows "\<exists>ss. schedule_all pools hb = Some ss \<and>
    concat (map segment_blocks ss) = division_blocks hb (hb_total_blocks hb - hb_unprocessed_blocks hb) (hb_total_blocks hb) \<and>
    (\<forall>s \<in> set ss. 0 < sg_block_count s \<and> sg_last_write_time s = ci_last_write_time (hb_info hb))"
  using assms
proof (induction pools arbitrary: hb)
  case Nil
  then show ?case by (simp add: division_blocks_def)
next
  case (Cons p pools)
  show ?case
  proof (cases "hb_unprocessed_blocks hb = 0")
    case True
    then show ?thesis by (simp add: division_blocks_def)
  next
    case False
    let ?u = "hb_unprocessed_blocks hb" and ?t = "hb_total_blocks hb"
    let ?m = "min p ?u"
    let ?hb = "hb\<lparr>hb_unprocessed_blocks := ?u - ?m\<rparr>"
    obtain s where s: "schedule_hash p hb = Some (if p < ?u then - 1 else 0, Some s, p - ?m, ?hb)"
        "segment_blocks s = division_blocks hb (?t - ?u) (?t - ?u + ?m)" "sg_last_write_time s = ci_last_write_time (hb_info hb)"
        "sg_block_count s = ?m"
    proof (rule schedule_hash_step [of hb p])
      show "divided hb" "0 < p" "0 < ?u" "?u \<le> ?t" using Cons.prems False by auto
    qed (rule that)
    have dv: "divided ?hb" using Cons.prems(1) by (simp add: divided_def)
    have "\<exists>ss. schedule_all pools ?hb = Some ss \<and>
        concat (map segment_blocks ss) = division_blocks ?hb (?t - (?u - ?m)) ?t \<and>
        (\<forall>s \<in> set ss. 0 < sg_block_count s \<and> sg_last_write_time s = ci_last_write_time (hb_info hb))"
    proof -
      have "0 \<le> sum_list pools" using Cons.prems(2) by (intro sum_list_nonneg) auto
      then have "?u - ?m \<le> ?t \<and> ?u - ?m \<le> sum_list pools" using Cons.prems by (auto simp: min_def)
      then show ?thesis using Cons.IH [OF dv] Cons.prems by simp
    qed
    then obtain ss where ss: "schedule_all pools ?hb = Some ss" "concat (map segment_blocks ss) = division_blocks ?hb (?t - (?u - ?m)) ?t"
      "\<forall>s \<in> set ss. 0 < sg_block_count s \<and> sg_last_write_time s = ci_last_write_time (hb_info hb)" by blast
    have "division_blocks ?hb = division_blocks hb" by (simp add: division_blocks_def fun_eq_iff)
    then have "concat (map segment_blocks (s # ss)) = division_blocks hb (?t - ?u) ?t"
      using ss(2) s(2) division_blocks_joined [of "?t - ?u" "?t - ?u + ?m" ?t hb] Cons.prems False by (simp add: algebra_simps)
    then show ?thesis using s ss False Cons.prems by simp
  qed
qed


subsection \<open>The digests complete the file\<close>

text \<open>Digests that arrive one after the other: what each of them gives.\<close>

fun take_hashes :: "(int \<times> nat \<times> bytes option) list \<Rightarrow> hash_base \<Rightarrow> (hash_outcome option list \<times> hash_base) option" where
  "take_hashes [] hb = Some ([], hb)"
| "take_hashes ((i, n, d) # ds) hb =
     (case take_hash i n d hb of
          None \<Rightarrow> None
        | Some (r, hb) \<Rightarrow> map_option (\<lambda>(rs, hb). (r # rs, hb)) (take_hashes ds hb))"

definition digest_block :: "hash_base \<Rightarrow> int \<times> nat \<times> bytes \<Rightarrow> pr_block" where
  "digest_block hb d = \<lparr>pb_offset = narrow32 (fst d * hb_block_size hb), pb_size = narrow32 (int (fst (snd d))), pb_hash = snd (snd d)\<rparr>"

lemma take_hash_good:
  assumes "0 \<le> i" and "nat i < length (hb_blocks hb)"
  shows "take_hash i n (Some h) hb =
    (let hb' = hb\<lparr>hb_unhashed_blocks := hb_unhashed_blocks hb - 1, hb_blocks := (hb_blocks hb)[nat i := digest_block hb (i, n, h)]\<rparr>
     in Some (if hb_unhashed_blocks hb = 1 then Some (outcome_of hb') else None, hb'))"
  using assms by (simp add: take_hash_def digest_block_def Let_def)

lemma take_hashes_good:
  assumes "\<forall>(i, n, h) \<in> set ds. 0 \<le> i \<and> nat i < length (hb_blocks hb)" and "distinct (map fst ds)"
    and "hb_unhashed_blocks hb = int (length ds)" and "ds \<noteq> []"
  shows "\<exists>bs. take_hashes (map (\<lambda>(i, n, h). (i, n, Some h)) ds) hb =
      Some (replicate (length ds - 1) None @ [Some (outcome_of (hb\<lparr>hb_unhashed_blocks := 0, hb_blocks := bs\<rparr>))],
        hb\<lparr>hb_unhashed_blocks := 0, hb_blocks := bs\<rparr>) \<and>
    length bs = length (hb_blocks hb) \<and> (\<forall>d \<in> set ds. bs ! nat (fst d) = digest_block hb d) \<and>
    (\<forall>k < length bs. int k \<notin> fst ` set ds \<longrightarrow> bs ! k = hb_blocks hb ! k)"
  using assms
proof (induction ds arbitrary: hb)
  case Nil
  then show ?case by simp
next
  case (Cons d ds)
  obtain i n h where d: "d = (i, n, h)" by (cases d)
  let ?hb = "hb\<lparr>hb_unhashed_blocks := hb_unhashed_blocks hb - 1, hb_blocks := (hb_blocks hb)[nat i := digest_block hb d]\<rparr>"
  have i: "0 \<le> i" "nat i < length (hb_blocks hb)" using Cons.prems(1) d by auto
  have fresh: "i \<notin> fst ` set ds" using Cons.prems(2) d by simp
  have apart: "nat (fst e) \<noteq> nat i" if "e \<in> set ds" for e
    using that fresh i Cons.prems(1) by (force simp: nat_eq_iff2)
  show ?case
  proof (cases "ds = []")
    case True
    then show ?thesis using Cons.prems(3) i
      by (intro exI [of _ "(hb_blocks hb)[nat i := digest_block hb d]"]) (auto simp: d take_hash_good Let_def)
  next
    case False
    have "\<exists>bs. take_hashes (map (\<lambda>(i, n, h). (i, n, Some h)) ds) ?hb =
        Some (replicate (length ds - 1) None @ [Some (outcome_of (?hb\<lparr>hb_unhashed_blocks := 0, hb_blocks := bs\<rparr>))],
          ?hb\<lparr>hb_unhashed_blocks := 0, hb_blocks := bs\<rparr>) \<and>
      length bs = length (hb_blocks ?hb) \<and> (\<forall>d \<in> set ds. bs ! nat (fst d) = digest_block ?hb d) \<and>
      (\<forall>k < length bs. int k \<notin> fst ` set ds \<longrightarrow> bs ! k = hb_blocks ?hb ! k)"
      by (rule Cons.IH) (use Cons.prems False in auto)
    then obtain bs where bs: "take_hashes (map (\<lambda>(i, n, h). (i, n, Some h)) ds) ?hb =
        Some (replicate (length ds - 1) None @ [Some (outcome_of (?hb\<lparr>hb_unhashed_blocks := 0, hb_blocks := bs\<rparr>))],
          ?hb\<lparr>hb_unhashed_blocks := 0, hb_blocks := bs\<rparr>)"
      "length bs = length (hb_blocks hb)" "\<forall>d \<in> set ds. bs ! nat (fst d) = digest_block hb d"
      "\<forall>k < length bs. int k \<notin> fst ` set ds \<longrightarrow> bs ! k = (hb_blocks hb)[nat i := digest_block hb d] ! k"
      by (auto simp: digest_block_def)
    have "take_hash i n (Some h) hb = Some (None, ?hb)"
      using i Cons.prems(3) False by (simp add: take_hash_good Let_def d)
    moreover have "bs ! nat i = digest_block hb d" using bs(2,4) i fresh by simp
    moreover have "length ds = Suc (length ds - 1)" using False by simp
    ultimately show ?thesis using bs i
      by (intro exI [of _ bs]) (auto simp: d simp flip: replicate_Suc append_Cons)
  qed
qed


subsection \<open>A file is hashed\<close>

lemma division_blocks_sum:
  assumes "divided hb" and "0 \<le> b" and "b \<le> hb_total_blocks hb"
  shows "(\<Sum>(i, off, n) \<leftarrow> division_blocks hb 0 b. n) = min (ci_size (hb_info hb)) (b * hb_block_size hb)"
  using assms(2,3)
proof (induction b rule: int_ge_induct)
  case base
  then show ?case using dividedD [OF assms(1)] by (simp add: division_blocks_def)
next
  case (step b)
  have "[0..b] = [0..b - 1] @ [b]" using step.hyps by (simp add: upto_rec2)
  then have "division_blocks hb 0 (b + 1) = division_blocks hb 0 b @
      [(b, b * hb_block_size hb, min (hb_block_size hb) (ci_size (hb_info hb) - b * hb_block_size hb))]"
    by (simp add: division_blocks_def)
  moreover have "b * hb_block_size hb < ci_size (hb_info hb)"
  proof -
    have "b * hb_block_size hb \<le> (hb_total_blocks hb - 1) * hb_block_size hb"
      using step.prems dividedD(1) [OF assms(1)] by (intro mult_right_mono) auto
    then show ?thesis using dividedD(5) [OF assms(1)] by linarith
  qed
  ultimately show ?case using step by (simp add: algebra_simps min_def)
qed

lemma division_blocks_range:
  assumes "divided hb" and "(i, off, n) \<in> set (division_blocks hb a b)" and "0 \<le> a" and "b \<le> hb_total_blocks hb"
  shows "0 \<le> i" "i < hb_total_blocks hb" "off = i * hb_block_size hb" "0 \<le> off" "0 < n" "n \<le> hb_block_size hb"
    "off + n \<le> ci_size (hb_info hb)"
proof -
  have i: "0 \<le> i" "i < hb_total_blocks hb" and off: "off = i * hb_block_size hb"
    and n: "n = min (hb_block_size hb) (ci_size (hb_info hb) - i * hb_block_size hb)"
    using assms(2-4) by (auto simp: division_blocks_def)
  have "i * hb_block_size hb \<le> (hb_total_blocks hb - 1) * hb_block_size hb"
    using i dividedD(1) [OF assms(1)] by (intro mult_right_mono) auto
  then have "i * hb_block_size hb < ci_size (hb_info hb)" using dividedD(5) [OF assms(1)] by linarith
  then show "0 \<le> i" "i < hb_total_blocks hb" "off = i * hb_block_size hb" "0 \<le> off" "0 < n" "n \<le> hb_block_size hb"
      "off + n \<le> ci_size (hb_info hb)"
    using i off n dividedD [OF assms(1)] by auto
qed

lemma takeWhile_True: "takeWhile (\<lambda>x. True) xs = xs"
  by (induction xs) auto

lemma division_blocks_inside:
  assumes "divided hb" and "(i, off, n) \<in> set (division_blocks hb 0 (hb_total_blocks hb))" and "int (length content) = ci_size (hb_info hb)"
  shows "nat off + nat n \<le> length content"
  using division_blocks_range(4,5,7) [OF assms(1,2)] assms(3) by simp

lemma process_segment_reads:
  assumes "\<forall>(i, off, n) \<in> set (segment_blocks s). nat off + nat n \<le> length content"
  shows "process_segment True (Some (sg_last_write_time s)) (read_file content) s =
    (Some (map (\<lambda>(i, off, n). (i, take (nat n) (drop (nat off) content))) (segment_blocks s)), sg_block_count s)"
proof -
  have r: "read_file content off n = Some (take (nat n) (drop (nat off) content))" if "(i, off, n) \<in> set (segment_blocks s)" for i off n
    using assms that by (force simp: read_file_def)
  then have parts: "map (\<lambda>(i, off, n). (i, read_file content off n)) (segment_blocks s) =
      map (\<lambda>(i, off, n). (i, Some (take (nat n) (drop (nat off) content)))) (segment_blocks s)"
    by (auto intro!: map_cong)
  show ?thesis
    unfolding process_segment_def parts Let_def by (simp add: takeWhile_map comp_def split_def takeWhile_True)
qed


text \<open>
  The segments that are scheduled for a new file, however the pool of hashers grows and shrinks between the calls, read every
  block of the file exactly once and in order: together they are the division of the file, whose blocks have as many bytes as the file.
\<close>

theorem segments_cover_file:
  assumes "make_hash info 0 = Some hb" and "0 < ci_size info" and "ci_size info < 2 ^ 47"
    and "\<forall>p \<in> set pools. 0 < p" and "hb_total_blocks hb \<le> sum_list pools"
  shows "\<exists>ss. schedule_all pools hb = Some ss \<and> concat (map segment_blocks ss) = division_blocks hb 0 (hb_total_blocks hb) \<and>
    (\<Sum>(i, off, n) \<leftarrow> concat (map segment_blocks ss). n) = ci_size info \<and>
    (\<forall>s \<in> set ss. 0 < sg_block_count s \<and> sg_last_write_time s = ci_last_write_time info)"
proof -
  have m: "divided hb" "hb_unprocessed_blocks hb = hb_total_blocks hb" "hb_info hb = info"
    using make_hash_divided [OF assms(1-3)] by auto
  have "(\<Sum>(i, off, n) \<leftarrow> division_blocks hb 0 (hb_total_blocks hb). n) = ci_size info"
    using division_blocks_sum [OF m(1), of "hb_total_blocks hb"] dividedD [OF m(1)] m(3) by (simp add: algebra_simps)
  then show ?thesis using schedule_all_covers [OF m(1) assms(4)] dividedD(3) [OF m(1)] m assms(5) by fastforce
qed

definition sample_child :: child_info where
  "sample_child = \<lparr>ci_path = ''/f/x'', ci_link_target = [], ci_last_write_time = 7, ci_size = 300000, ci_type = FILE,
     ci_perms = 0, ci_self = None, ci_parent = None, ci_generation = 0\<rparr>"

theorem segments_cover_file_witness:
  "\<exists>hb ss. make_hash sample_child 0 = Some hb \<and> schedule_all [2, 5] hb = Some ss \<and>
    concat (map segment_blocks ss) = [(0, 0, 131072), (1, 131072, 131072), (2, 262144, 37856)]"
proof -
  obtain hb where hb: "make_hash sample_child 0 = Some hb" "hb_total_blocks hb = 3" "hb_block_size hb = 131072" "hb_info hb = sample_child"
    by (simp add: make_hash_def hash_of_blocks_def sample_child_def Fs_Support.get_block_size_def division_size_def kept_size_def
        chosen_size_def division_count_def block_sizes_list max_blocks_count_def narrow32_def)
  have sz: "ci_size sample_child = 300000" by (simp add: sample_child_def)
  show ?thesis using segments_cover_file [OF hb(1), of "[2, 5]"] hb
    by (auto simp: sz division_blocks_def upto_rec1)
qed

lemma digest_blocks_of_division:
  assumes "divided hb" and "ci_size (hb_info hb) < 2 ^ 31" and "(i, off, n) \<in> set (division_blocks hb 0 (hb_total_blocks hb))"
  shows "digest_block hb (i, nat n, h) = \<lparr>pb_offset = off, pb_size = n, pb_hash = h\<rparr>"
proof -
  note r = division_blocks_range [OF assms(1,3)]
  have "narrow32 off = off" using r(4,5,7) assms(2) by (intro narrow32_id) linarith+
  moreover have "narrow32 n = n" using r(4,5,7) assms(2) by (intro narrow32_id) linarith+
  ultimately show ?thesis using r by (simp add: digest_block_def)
qed

lemma division_blocks_nth:
  assumes "k < nat (hb_total_blocks hb)"
  shows "division_blocks hb 0 (hb_total_blocks hb) ! k = (int k, int k * hb_block_size hb,
    min (hb_block_size hb) (ci_size (hb_info hb) - int k * hb_block_size hb))"
  using assms by (simp add: division_blocks_def)

lemma digests_of_division:
  assumes ds: "mset ds = mset (map (\<lambda>(i, off, n). (i, nat n, f off n)) (division_blocks hb 0 (hb_total_blocks hb)))"
    and "divided hb" and "ci_size (hb_info hb) < 2 ^ 31" and "hb_unhashed_blocks hb = hb_total_blocks hb"
    and "length (hb_blocks hb) = nat (hb_total_blocks hb)"
  shows "\<exists>bs. take_hashes (map (\<lambda>(i, n, h). (i, n, Some h)) ds) hb =
      Some (replicate (length ds - 1) None @ [Some (outcome_of (hb\<lparr>hb_unhashed_blocks := 0, hb_blocks := bs\<rparr>))],
        hb\<lparr>hb_unhashed_blocks := 0, hb_blocks := bs\<rparr>) \<and>
    bs = map (\<lambda>(i, off, n). \<lparr>pb_offset = off, pb_size = n, pb_hash = f off n\<rparr>) (division_blocks hb 0 (hb_total_blocks hb))"
proof -
  let ?t = "hb_total_blocks hb"
  let ?D = "division_blocks hb 0 ?t"
  note range = division_blocks_range [OF assms(2)]
  have len: "length ?D = nat ?t" by (simp add: division_blocks_def)
  have "size (mset ds) = nat ?t" unfolding ds by (simp add: len)
  then have lds: "length ds = nat ?t" by simp
  have set_ds: "set ds = (\<lambda>(i, off, n). (i, nat n, f off n)) ` set ?D" using mset_eq_setD [OF ds] by simp
  have "mset (map fst ds) = mset [0..?t - 1]"
    using arg_cong [OF ds, of "image_mset fst"] by (simp add: division_blocks_def comp_def flip: mset_map)
  then have dist: "distinct (map fst ds)" by (metis distinct_upto mset_eq_imp_distinct_iff)
  have "\<forall>(i, n, h) \<in> set ds. 0 \<le> i \<and> nat i < length (hb_blocks hb)"
    using range(1,2) unfolding set_ds assms(5) by fastforce
  moreover have "ds \<noteq> []" using lds dividedD(3) [OF assms(2)] by auto
  ultimately obtain bs where bs: "take_hashes (map (\<lambda>(i, n, h). (i, n, Some h)) ds) hb =
      Some (replicate (length ds - 1) None @ [Some (outcome_of (hb\<lparr>hb_unhashed_blocks := 0, hb_blocks := bs\<rparr>))],
        hb\<lparr>hb_unhashed_blocks := 0, hb_blocks := bs\<rparr>)"
    "length bs = nat ?t" "\<forall>d \<in> set ds. bs ! nat (fst d) = digest_block hb d"
    using take_hashes_good [of ds hb] dist lds assms(4,5) dividedD(3) [OF assms(2)] by auto
  have "bs = map (\<lambda>(i, off, n). \<lparr>pb_offset = off, pb_size = n, pb_hash = f off n\<rparr>) ?D"
  proof (rule nth_equalityI)
    fix k assume "k < length bs"
    then have k: "k < nat ?t" using bs(2) by simp
    obtain off n where e: "?D ! k = (int k, off, n)" using division_blocks_nth [OF k] by simp
    then have i: "(int k, off, n) \<in> set ?D" using nth_mem [of k ?D] k len by simp
    then have "(int k, nat n, f off n) \<in> set ds" unfolding set_ds by force
    then have "bs ! k = digest_block hb (int k, nat n, f off n)" using bs(3) by fastforce
    then show "bs ! k = map (\<lambda>(i, off, n). \<lparr>pb_offset = off, pb_size = n, pb_hash = f off n\<rparr>) ?D ! k"
      using digest_blocks_of_division [OF assms(2,3) i] e k len by simp
  qed (use bs(2) len in simp)
  then show ?thesis using bs(1) by blast
qed

lemma segments_read_division:
  assumes "divided hb" and "int (length content) = ci_size (hb_info hb)"
    and ss: "concat (map segment_blocks ss) = division_blocks hb 0 (hb_total_blocks hb)" "\<forall>s \<in> set ss. sg_last_write_time s = t"
  shows "concat (map (\<lambda>s. the (fst (process_segment True (Some t) (read_file content) s))) ss) =
    map (\<lambda>(i, off, n). (i, take (nat n) (drop (nat off) content))) (division_blocks hb 0 (hb_total_blocks hb))"
proof -
  let ?part = "\<lambda>(i, off, n). (i, take (nat n) (drop (nat off) content))"
  have "the (fst (process_segment True (Some t) (read_file content) s)) = map ?part (segment_blocks s)" if "s \<in> set ss" for s
  proof -
    have "set (segment_blocks s) \<subseteq> set (division_blocks hb 0 (hb_total_blocks hb))" using that unfolding ss(1) [symmetric] by auto
    then have "\<forall>(i, off, n) \<in> set (segment_blocks s). nat off + nat n \<le> length content"
      using division_blocks_inside [OF assms(1) _ assms(2)] by blast
    then show ?thesis using process_segment_reads [of s content] ss(2) that by simp
  qed
  then show ?thesis by (simp add: map_concat comp_def flip: ss(1) cong: map_cong)
qed

text \<open>
  C28: A new file of less than 2 GiB is hashed: every segment is read, and when the digests of all its blocks have come
  back, in whatever order, also between two calls that schedule segments, exactly the last of them gives the file with the digests of
  its blocks, each at its offset and with its size.
\<close>

theorem file_hashed:
  fixes sha :: "bytes \<Rightarrow> bytes"
  assumes "make_hash info 0 = Some hb" and "0 < ci_size info" and "ci_size info < 2 ^ 31" and "int (length content) = ci_size info"
    and "\<forall>p \<in> set pools. 0 < p" and "hb_total_blocks hb \<le> sum_list pools" and "schedule_all pools hb = Some ss"
    and "mset ds = mset (map (\<lambda>(i, data). (i, length data, sha data))
      (concat (map (\<lambda>s. the (fst (process_segment True (Some (ci_last_write_time info)) (read_file content) s))) ss)))"
  shows "\<exists>hb'. take_hashes (map (\<lambda>(i, n, h). (i, n, Some h)) ds) (hb\<lparr>hb_unprocessed_blocks := u\<rparr>) =
    Some (replicate (length ds - 1) None @ [Some (Ready info
      (map (\<lambda>(i, off, n). \<lparr>pb_offset = off, pb_size = n, pb_hash = sha (take (nat n) (drop (nat off) content))\<rparr>)
        (division_blocks hb 0 (hb_total_blocks hb))))], hb')"
proof -
  let ?t = "hb_total_blocks hb"
  let ?D = "division_blocks hb 0 ?t"
  let ?part = "\<lambda>(i, off, n). (i, take (nat n) (drop (nat off) content))"
  let ?digest = "\<lambda>(i, off, n). (i, nat n, sha (take (nat n) (drop (nat off) content)))"
  let ?hb = "hb\<lparr>hb_unprocessed_blocks := u\<rparr>"
  have m: "divided hb" "hb_unprocessed_blocks hb = ?t" "hb_info hb = info" "hb_unhashed_blocks hb = ?t"
      "length (hb_blocks hb) = nat ?t" "\<not> hb_incomplete hb"
    using make_hash_divided [OF assms(1,2)] assms(3) by auto
  have ss: "concat (map segment_blocks ss) = ?D" "\<forall>s \<in> set ss. sg_last_write_time s = ci_last_write_time info"
    using schedule_all_covers [OF m(1) assms(5)] dividedD(3) [OF m(1)] m assms(6,7) by auto
  have "concat (map (\<lambda>s. the (fst (process_segment True (Some (ci_last_write_time info)) (read_file content) s))) ss) = map ?part ?D"
    by (rule segments_read_division [OF m(1) _ ss]) (use assms(4) m(3) in simp)
  moreover have "length (take (nat n) (drop (nat off) content)) = nat n" if "(i, off, n) \<in> set ?D" for i off n
    using division_blocks_inside [OF m(1) that, of content] assms(4) m(3) by simp
  then have "map (\<lambda>(i, data). (i, length data, sha data)) (map ?part ?D) = map ?digest ?D" by auto
  ultimately have ds: "mset ds = mset (map ?digest ?D)" using assms(8) by (simp only:)
  have "\<exists>bs. take_hashes (map (\<lambda>(i, n, h). (i, n, Some h)) ds) ?hb =
      Some (replicate (length ds - 1) None @ [Some (outcome_of (?hb\<lparr>hb_unhashed_blocks := 0, hb_blocks := bs\<rparr>))],
        ?hb\<lparr>hb_unhashed_blocks := 0, hb_blocks := bs\<rparr>) \<and>
    bs = map (\<lambda>(i, off, n). \<lparr>pb_offset = off, pb_size = n, pb_hash = sha (take (nat n) (drop (nat off) content))\<rparr>) ?D"
  proof -
    have D: "division_blocks ?hb 0 ?t = ?D" by (simp add: division_blocks_def)
    have "divided ?hb" using m(1) by (simp add: divided_def)
    then show ?thesis
      using digests_of_division [of ds "\<lambda>off n. sha (take (nat n) (drop (nat off) content))" ?hb] ds m assms(3) by (simp add: D)
  qed
  then show ?thesis using m by (auto simp: outcome_of_def divided_def)
qed


theorem file_hashed_witness:
  "\<exists>hb ss hb'. make_hash (sample_child\<lparr>ci_size := 3\<rparr>) 0 = Some hb \<and> schedule_all [1] hb = Some ss \<and>
    take_hashes [(0, 3, Some [3, 2, 1])] hb =
      Some ([Some (Ready (sample_child\<lparr>ci_size := 3\<rparr>) [\<lparr>pb_offset = 0, pb_size = 3, pb_hash = [3, 2, 1]\<rparr>])], hb')"
proof -
  let ?info = "sample_child\<lparr>ci_size := 3\<rparr>"
  obtain hb where hb: "make_hash ?info 0 = Some hb" "hb_total_blocks hb = 1" "hb_block_size hb = 3" "hb_info hb = ?info"
      "hb_unprocessed_blocks hb = 1" "hb_errored_blocks hb = 0"
    by (simp add: make_hash_def hash_of_blocks_def sample_child_def Fs_Support.get_block_size_def division_size_def kept_size_def
        chosen_size_def division_count_def block_sizes_list max_blocks_count_def narrow32_def)
  let ?s = "\<lparr>sg_path = ''/f/x'', sg_offset = 0, sg_block_index = 0, sg_block_count = 1, sg_block_size = 3, sg_last_block_size = 3,
    sg_last_write_time = 7\<rparr>"
  have ss: "schedule_all [1] hb = Some [?s]" using hb by (simp add: schedule_hash_def last_block_sz_def sample_child_def)
  have sz: "ci_size ?info = 3" "ci_last_write_time ?info = 7" by (simp_all add: sample_child_def)
  have u: "hb\<lparr>hb_unprocessed_blocks := 1\<rparr> = hb" using hb(5) by (cases hb) simp
  have "\<exists>hb'. take_hashes (map (\<lambda>(i, n, h). (i, n, Some h)) [(0, 3, [3, 2, 1])]) (hb\<lparr>hb_unprocessed_blocks := 1\<rparr>) =
    Some (replicate (length [(0 :: int, 3 :: nat, [3, 2, 1 :: u8])] - 1) None @ [Some (Ready ?info
      (map (\<lambda>(i, off, n). \<lparr>pb_offset = off, pb_size = n, pb_hash = rev (take (nat n) (drop (nat off) [1, 2, 3]))\<rparr>)
        (division_blocks hb 0 (hb_total_blocks hb))))], hb')"
  proof (rule file_hashed [OF hb(1), of _ "[1]" "[?s]"])
    have "process_segment True (Some 7) (read_file [1, 2, 3]) ?s = (Some [(0, [1, 2, 3])], 1)"
      by (simp add: process_segment_def segment_blocks_def read_file_def)
    then show "mset [(0, 3, [3, 2, 1])] = mset (map (\<lambda>(i, data). (i, length data, rev data)) (concat (map (\<lambda>s.
        the (fst (process_segment True (Some (ci_last_write_time ?info)) (read_file [1, 2, 3]) s))) [?s])))"
      by (simp add: sz)
  qed (use ss hb(2) in \<open>simp_all only: list.set sum_list.Cons sum_list.Nil sz, simp_all\<close>)
  then show ?thesis using hb ss unfolding u by (simp add: division_blocks_def sz)
qed

subsection \<open>The hashers\<close>

text \<open>
  Blocks go to the hasher with the least bytes so far (\<^verbatim>\<open>src/hasher/hasher_plugin.cpp\<close>). The counters are 32-bit integers; the least of
  them is taken away from all of them at the next block.
\<close>

record hashers =
  hs_usages :: "int list"
  hs_min_usage :: int

definition configure_hashers :: "nat \<Rightarrow> hashers" where
  "configure_hashers number = \<lparr>hs_usages = replicate number 0, hs_min_usage = 0\<rparr>"

text \<open>The loop over the counters: the index and the value of the least one below the limit.\<close>

fun least_used :: "nat \<Rightarrow> int list \<Rightarrow> int \<times> int \<Rightarrow> int \<times> int" where
  "least_used i [] best = best"
| "least_used i (v # vs) (min_index, min_value) =
     least_used (Suc i) vs (if v < min_value then (int i, v) else (min_index, min_value))"

definition calc_digest :: "int \<Rightarrow> hashers \<Rightarrow> (nat \<times> hashers) option" where
  "calc_digest data_size h =
     (if hs_usages h = [] then None
      else if length (hs_usages h) > 1
      then let us = map (\<lambda>v. narrow32 (v - hs_min_usage h)) (hs_usages h);
               (i, least) = least_used 0 us (- 1, 2 ^ 31 - 1)
           in if i < 0 then None
              else Some (nat i, \<lparr>hs_usages = us[nat i := narrow32 (us ! nat i + narrow32 data_size)], hs_min_usage = least\<rparr>)
      else Some (0, h))"

lemma least_used_least:
  assumes "least_used i vs (m, v) = (j, w)"
  shows "(j = m \<and> w = v \<and> (\<forall>x \<in> set vs. v \<le> x)) \<or>
    (\<exists>k < length vs. j = int (i + k) \<and> w = vs ! k \<and> w < v \<and> (\<forall>x \<in> set vs. w \<le> x))"
  using assms
proof (induction vs arbitrary: i m v)
  case Nil
  then show ?case by simp
next
  case (Cons x vs)
  have "least_used (Suc i) vs (if x < v then (int i, x) else (m, v)) = (j, w)" using Cons.prems by simp
  then show ?case
  proof (cases "x < v")
    case True
    then have "least_used (Suc i) vs (int i, x) = (j, w)" using Cons.prems by simp
    from Cons.IH [OF this] show ?thesis
    proof
      assume "\<exists>k < length vs. j = int (Suc i + k) \<and> w = vs ! k \<and> w < x \<and> (\<forall>y \<in> set vs. w \<le> y)"
      then obtain k where "k < length vs" "j = int (Suc i + k)" "w = vs ! k" "w < x" "\<forall>y \<in> set vs. w \<le> y" by blast
      then show ?thesis using True by (intro disjI2 exI [of _ "Suc k"]) auto
    qed (use True in \<open>intro disjI2 exI [of _ 0], auto\<close>)
  next
    case False
    then have "least_used (Suc i) vs (m, v) = (j, w)" using Cons.prems by simp
    from Cons.IH [OF this] show ?thesis
    proof
      assume "\<exists>k < length vs. j = int (Suc i + k) \<and> w = vs ! k \<and> w < v \<and> (\<forall>y \<in> set vs. w \<le> y)"
      then obtain k where "k < length vs" "j = int (Suc i + k)" "w = vs ! k" "w < v" "\<forall>y \<in> set vs. w \<le> y" by blast
      then show ?thesis using False by (intro disjI2 exI [of _ "Suc k"]) auto
    qed (use False in auto)
  qed
qed


text \<open>
  With at least two hashers and blocks of at most \<open>m\<close> bytes, the counters less the least of the previous round stay between zero
  and \<open>m\<close>.
\<close>

definition balanced :: "int \<Rightarrow> hashers \<Rightarrow> bool" where
  "balanced m h \<longleftrightarrow> (\<forall>v \<in> set (hs_usages h). hs_min_usage h \<le> v \<and> v - hs_min_usage h \<le> m) \<and> 0 \<le> hs_min_usage h \<and> hs_min_usage h \<le> m"

lemma configure_balanced: "0 \<le> m \<Longrightarrow> balanced m (configure_hashers number)"
  by (simp add: balanced_def configure_hashers_def)

lemma calc_digest_step:
  assumes "balanced m h" and "0 \<le> sz" and "sz \<le> m" and "m < 2 ^ 30" and "2 \<le> length (hs_usages h)"
  obtains k h' where "calc_digest sz h = Some (k, h')" and "k < length (hs_usages h)"
    and "\<forall>v \<in> set (hs_usages h). hs_usages h ! k \<le> v"
    and "hs_usages h' = (map (\<lambda>v. v - hs_min_usage h) (hs_usages h))[k := hs_usages h ! k - hs_min_usage h + sz]"
    and "hs_min_usage h' = hs_usages h ! k - hs_min_usage h"
proof -
  let ?us = "map (\<lambda>v. v - hs_min_usage h) (hs_usages h)"
  have r: "0 \<le> v - hs_min_usage h \<and> v - hs_min_usage h \<le> m" if "v \<in> set (hs_usages h)" for v
    using assms(1) that by (auto simp: balanced_def)
  have us: "map (\<lambda>v. narrow32 (v - hs_min_usage h)) (hs_usages h) = ?us"
  proof (rule map_cong [OF refl])
    show "narrow32 (v - hs_min_usage h) = v - hs_min_usage h" if "v \<in> set (hs_usages h)" for v
      using r [OF that] assms(4) by (intro narrow32_id) auto
  qed
  obtain j w where jw: "least_used 0 ?us (- 1, 2 ^ 31 - 1) = (j, w)" by fastforce
  have ne: "hs_usages h ! 0 \<in> set (hs_usages h)" using assms(5) by (intro nth_mem) auto
  then have "\<not> (\<forall>x \<in> set ?us. 2 ^ 31 - 1 \<le> x)" using r [OF ne] assms(4) by (auto intro!: bexI [OF _ ne])
  then obtain k where k: "k < length (hs_usages h)" "j = int k" "w = hs_usages h ! k - hs_min_usage h" "\<forall>x \<in> set ?us. w \<le> x"
    using least_used_least [OF jw] by auto
  have "narrow32 (hs_usages h ! k - hs_min_usage h + narrow32 sz) = hs_usages h ! k - hs_min_usage h + sz"
    using r [OF nth_mem [OF k(1)]] assms(2-4) by (simp add: narrow32_id)
  then have "calc_digest sz h = Some (k, \<lparr>hs_usages = ?us[k := hs_usages h ! k - hs_min_usage h + sz], hs_min_usage = w\<rparr>)"
    using assms(5) jw k by (auto simp: calc_digest_def us Let_def)
  then show ?thesis using k by (intro that) auto
qed

lemma calc_digest_least:
  assumes "balanced m h" and "0 \<le> sz" and "sz \<le> m" and "m < 2 ^ 30" and "2 \<le> length (hs_usages h)"
  shows "\<exists>k h'. calc_digest sz h = Some (k, h') \<and> k < length (hs_usages h) \<and> (\<forall>v \<in> set (hs_usages h). hs_usages h ! k \<le> v)"
  by (rule calc_digest_step [OF assms]) blast

lemma calc_digest_balanced:
  assumes "balanced m h" and "0 \<le> sz" and "sz \<le> m" and "m < 2 ^ 30" and "2 \<le> length (hs_usages h)"
    and "calc_digest sz h = Some (k, h')"
  shows "balanced m h' \<and> length (hs_usages h') = length (hs_usages h)"
proof -
  from assms(1-5) obtain k h' where c: "calc_digest sz h = Some (k, h')" "k < length (hs_usages h)"
    "\<forall>v \<in> set (hs_usages h). hs_usages h ! k \<le> v"
    "hs_usages h' = (map (\<lambda>v. v - hs_min_usage h) (hs_usages h))[k := hs_usages h ! k - hs_min_usage h + sz]"
    "hs_min_usage h' = hs_usages h ! k - hs_min_usage h"
    by (rule calc_digest_step)
  have r: "hs_min_usage h \<le> v \<and> v - hs_min_usage h \<le> m" if "v \<in> set (hs_usages h)" for v
    using assms(1) that by (auto simp: balanced_def)
  have "hs_min_usage h' \<le> v \<and> v - hs_min_usage h' \<le> m" if "v \<in> set (hs_usages h')" for v
  proof -
    have "v = hs_usages h ! k - hs_min_usage h + sz \<or> (\<exists>x \<in> set (hs_usages h). v = x - hs_min_usage h)"
      using that set_update_subset_insert unfolding c(4) by fastforce
    then show ?thesis using assms(2,3) c(3,5) r [OF nth_mem [OF c(2)]] r by force
  qed
  then show ?thesis using c r [OF nth_mem [OF c(2)]] assms(6) by (auto simp: balanced_def)
qed

fun calc_digests :: "int list \<Rightarrow> hashers \<Rightarrow> (nat list \<times> hashers) option" where
  "calc_digests [] h = Some ([], h)"
| "calc_digests (n # ns) h =
     (case calc_digest n h of
          None \<Rightarrow> None
        | Some (k, h) \<Rightarrow> map_option (\<lambda>(ks, h). (k # ks, h)) (calc_digests ns h))"

lemma calc_digests_balanced:
  assumes "balanced m h" and "length (hs_usages h) = number" and "2 \<le> number" and "\<forall>n \<in> set ns. 0 \<le> n \<and> n \<le> m" and "m < 2 ^ 30"
  shows "\<exists>ks h'. calc_digests ns h = Some (ks, h') \<and> length ks = length ns \<and> set ks \<subseteq> {..<number} \<and> balanced m h' \<and>
    length (hs_usages h') = number"
  using assms
proof (induction ns arbitrary: h)
  case Nil
  then show ?case by simp
next
  case (Cons n ns)
  have n: "0 \<le> n" "n \<le> m" "2 \<le> length (hs_usages h)" using Cons.prems by auto
  obtain k h' where k: "calc_digest n h = Some (k, h')" "k < number"
    using calc_digest_least [OF Cons.prems(1) n(1,2) Cons.prems(5) n(3)] Cons.prems(2) by auto
  have "balanced m h'" "length (hs_usages h') = number"
    using calc_digest_balanced [OF Cons.prems(1) n(1,2) Cons.prems(5) n(3) k(1)] Cons.prems(2) by auto
  then obtain ks h'' where "calc_digests ns h' = Some (ks, h'')" "length ks = length ns" "set ks \<subseteq> {..<number}" "balanced m h''"
      "length (hs_usages h'') = number"
    using Cons.IH [of h'] Cons.prems by auto
  then show ?case using k by simp
qed

text \<open>
  With two hashers or more and blocks below 1 GiB, every block is given to a hasher whose counter is a least one, no counter overflows, and
  no two counters are ever further apart than the largest block.
\<close>

theorem hashers_balanced:
  assumes "2 \<le> number" and "\<forall>n \<in> set ns. 0 \<le> n \<and> n \<le> m" and "0 \<le> m" and "m < 2 ^ 30"
  shows "\<exists>ks h. calc_digests ns (configure_hashers number) = Some (ks, h) \<and> length ks = length ns \<and> set ks \<subseteq> {..<number} \<and>
    (\<forall>v \<in> set (hs_usages h). \<forall>w \<in> set (hs_usages h). v - w \<le> m \<and> v < 2 ^ 31) \<and>
    (\<forall>n. 0 \<le> n \<and> n \<le> m \<longrightarrow> (\<exists>k h'. calc_digest n h = Some (k, h') \<and> k < number \<and> (\<forall>v \<in> set (hs_usages h). hs_usages h ! k \<le> v)))"
proof -
  have c: "balanced m (configure_hashers number)" "length (hs_usages (configure_hashers number)) = number"
    using configure_balanced [OF assms(3)] by (auto simp: configure_hashers_def)
  obtain ks h where h: "calc_digests ns (configure_hashers number) = Some (ks, h)"
      "length ks = length ns" "set ks \<subseteq> {..<number}" "balanced m h" "length (hs_usages h) = number"
    using calc_digests_balanced [OF c assms(1,2,4)] by blast
  have "v - w \<le> m \<and> v < 2 ^ 31" if "v \<in> set (hs_usages h)" "w \<in> set (hs_usages h)" for v w
  proof -
    have "hs_min_usage h \<le> w" "v - hs_min_usage h \<le> m" "hs_min_usage h \<le> m" using h(4) that by (auto simp: balanced_def)
    then show ?thesis using assms(4) by auto
  qed
  moreover have "\<exists>k h'. calc_digest n h = Some (k, h') \<and> k < number \<and> (\<forall>v \<in> set (hs_usages h). hs_usages h ! k \<le> v)"
    if "0 \<le> n" "n \<le> m" for n
    using calc_digest_least [OF h(4) that assms(4)] h(5) assms(1) by auto
  ultimately show ?thesis using h by blast
qed

theorem hashers_balanced_witness:
  "calc_digests [5, 3, 1, 1] (configure_hashers 2) = Some ([0, 1, 1, 1], \<lparr>hs_usages = [2, 2], hs_min_usage = 1\<rparr>) \<and>
   (\<exists>ks h. calc_digests [5, 3, 1, 1] (configure_hashers 2) = Some (ks, h) \<and> (\<forall>v \<in> set (hs_usages h). v < 2 ^ 31))"
proof
  show "calc_digests [5, 3, 1, 1] (configure_hashers 2) = Some ([0, 1, 1, 1], \<lparr>hs_usages = [2, 2], hs_min_usage = 1\<rparr>)" by code_simp
  show "\<exists>ks h. calc_digests [5, 3, 1, 1] (configure_hashers 2) = Some (ks, h) \<and> (\<forall>v \<in> set (hs_usages h). v < 2 ^ 31)"
    using hashers_balanced [of 2 "[5, 3, 1, 1]" 5] by fastforce
qed

end
