(* ===== verification/Presence.thy ===== *)
theory Presence
  imports Resolver "HOL-Library.Char_ord" "HOL-Library.List_Lexorder" "HOL-Library.Product_Lexorder"
begin

text \<open>
  The tree of a folder's files as the devices have them (\<^verbatim>\<open>src/presentation/\<close>): an entity for every path, and for every device that has
  the file a presence of the entity. The scanner of local files and the controller look things up in this tree; this theory has what
  they use: the features, the best presence, the children and the search by name. Presences and entities are known by their
  addresses. The counters of sizes and entries, which only the user interface shows, are left out.
\<close>

subsection \<open>Data\<close>

definition fe_folder :: u32 where "fe_folder = push_bit 0 1"
definition fe_file :: u32 where "fe_file = push_bit 1 1"
definition fe_directory :: u32 where "fe_directory = push_bit 2 1"
definition fe_missing :: u32 where "fe_missing = push_bit 3 1"
definition fe_cluster :: u32 where "fe_cluster = push_bit 4 1"
definition fe_peer :: u32 where "fe_peer = push_bit 5 1"
definition fe_local :: u32 where "fe_local = push_bit 6 1"
definition fe_deleted :: u32 where "fe_deleted = push_bit 7 1"
definition fe_symblink :: u32 where "fe_symblink = push_bit 9 1"
definition fe_unreachable :: u32 where "fe_unreachable = push_bit 10 1"

text \<open>The presence of a missing file has no device; the one of a folder has no parent.\<close>

record presence =
  prs_entity :: nat
  prs_parent :: "nat option"
  prs_device :: "bytes option"
  prs_children :: "nat list"
  prs_features :: u32
  prs_default_features :: u32
  prs_file :: addr

text \<open>The children of an entity are a set ordered by their own names.\<close>

record entity =
  en_path :: path
  en_parent :: "nat option"
  en_presences :: "nat list"
  en_children :: "nat list"
  en_best :: "nat option"

record tree =
  tr_presences :: "nat \<Rightarrow> presence"
  tr_entities :: "nat \<Rightarrow> entity"

definition has_feature :: "tree \<Rightarrow> nat \<Rightarrow> u32 \<Rightarrow> bool" where
  "has_feature t p f \<longleftrightarrow> prs_features (tr_presences t p) AND f \<noteq> 0"

definition entity_of :: "tree \<Rightarrow> nat \<Rightarrow> entity" where "entity_of t p = tr_entities t (prs_entity (tr_presences t p))"

definition own_name :: "tree \<Rightarrow> nat \<Rightarrow> string" where "own_name t p = get_own_name (en_path (entity_of t p))"

subsection \<open>Features and the best presence\<close>

definition refresh_features :: "store \<Rightarrow> presence \<Rightarrow> presence" where
  "refresh_features st p =
     (let f = file_at st (prs_file p)
      in p\<lparr>prs_features := prs_default_features p OR fe_cluster OR (if is_dir f then fe_directory else fe_file) OR
             (if is_deleted f then fe_deleted else 0) OR (if is_link f then fe_symblink else 0) OR
             (if is_unreachable f then fe_unreachable else 0)\<rparr>)"

text \<open>\<open>determine_best\<close> of a presence without a file keeps the other one.\<close>

definition determine_best :: "store \<Rightarrow> tree \<Rightarrow> nat \<Rightarrow> nat \<Rightarrow> nat" where
  "determine_best st t p other =
     (if \<not> has_feature t p fe_cluster then other
      else if \<not> has_feature t other fe_cluster then p
      else if compare (file_at st (prs_file (tr_presences t p))) (file_at st (prs_file (tr_presences t other))) \<ge> 0 then p else other)"

definition recalc_best :: "store \<Rightarrow> nat \<Rightarrow> tree \<Rightarrow> nat option \<times> tree" where
  "recalc_best st e t =
     (let en = tr_entities t e;
          best = (if en_parent en = None then None
                  else fold (\<lambda>p b. if prs_device (tr_presences t p) = None then b
                              else case b of None \<Rightarrow> Some p | Some o' \<Rightarrow> Some (determine_best st t p o')) (en_presences en) None)
      in (best, t\<lparr>tr_entities := (tr_entities t)(e := en\<lparr>en_best := best\<rparr>)\<rparr>))"

text \<open>The presence for a device, else the last one that has no device.\<close>

fun presence_loop :: "tree \<Rightarrow> bytes option \<Rightarrow> nat list \<Rightarrow> nat option \<Rightarrow> nat option" where
  "presence_loop t device [] r = r"
| "presence_loop t device (p # ps) r =
     (if prs_device (tr_presences t p) = device then Some p
      else presence_loop t device ps (if prs_device (tr_presences t p) = None then Some p else r))"

definition get_presence :: "tree \<Rightarrow> nat \<Rightarrow> bytes option \<Rightarrow> nat option" where
  "get_presence t e device = presence_loop t device (en_presences (tr_entities t e)) None"

subsection \<open>Children\<close>

text \<open>Directories come first; a missing file is placed by the best presence of its entity.\<close>

definition child_key :: "tree \<Rightarrow> nat \<Rightarrow> bool \<times> string" where
  "child_key t p =
     (let q = (if has_feature t p fe_missing then (case en_best (entity_of t p) of None \<Rightarrow> p | Some b \<Rightarrow> b) else p)
      in (\<not> has_feature t q fe_directory, own_name t q))"

definition fresh_children :: "tree \<Rightarrow> nat \<Rightarrow> nat list" where
  "fresh_children t p =
     sort_key (child_key t) (filter (\<lambda>c. en_best (entity_of t c) \<noteq> None)
       (List.map_filter (\<lambda>e. get_presence t e (prs_device (tr_presences t p))) (en_children (entity_of t p))))"

definition get_children :: "tree \<Rightarrow> nat \<Rightarrow> nat list" where
  "get_children t p =
     (let cached = prs_children (tr_presences t p)
      in if length cached = length (en_children (entity_of t p)) then cached else fresh_children t p)"

text \<open>\<open>std::lower_bound\<close>: the first element that does not come before.\<close>

fun lower_bound :: "('a \<Rightarrow> bool) \<Rightarrow> 'a list \<Rightarrow> 'a option" where
  "lower_bound before [] = None"
| "lower_bound before (x # xs) = (if before x then lower_bound before xs else Some x)"

definition presence_child :: "tree \<Rightarrow> nat \<Rightarrow> string \<Rightarrow> bool \<Rightarrow> nat option" where
  "presence_child t p name dir =
     (case lower_bound (\<lambda>c. child_key t c < (\<not> dir, name)) (get_children t p) of
          None \<Rightarrow> None
        | Some c \<Rightarrow> if own_name t c = name \<and> has_feature t c fe_directory = dir \<and> \<not> has_feature t c fe_missing then Some c else None)"

definition get_child :: "tree \<Rightarrow> nat option \<Rightarrow> string \<Rightarrow> bool \<Rightarrow> nat option" where
  "get_child t parent name dir = (case parent of None \<Rightarrow> None | Some p \<Rightarrow> presence_child t p name dir)"

text \<open>\<open>get_link\<close> of a folder: the parent of the named child and the child.\<close>

fun link_loop :: "tree \<Rightarrow> nat option \<Rightarrow> string list \<Rightarrow> bool \<Rightarrow> nat option \<times> nat option" where
  "link_loop t None _ _ = (None, None)"
| "link_loop t (Some p) [] dir = (Some p, presence_child t p [] dir)"
| "link_loop t (Some p) [n] dir = (Some p, presence_child t p n dir)"
| "link_loop t (Some p) (n # m # ns) dir =
     link_loop t (presence_child t p n True) (m # ns) dir"

definition get_link :: "tree \<Rightarrow> nat \<Rightarrow> string \<Rightarrow> bool \<Rightarrow> nat option \<times> nat option" where
  "get_link t p name dir = link_loop t (Some p) (split_slash name) dir"


subsection \<open>The search finds the child\<close>

text \<open>The presences of an entity are its own, a missing one among them, and siblings have different names.\<close>

definition tree_ok :: "tree \<Rightarrow> nat \<Rightarrow> bool" where
  "tree_ok t p \<longleftrightarrow> distinct (map (\<lambda>e. get_own_name (en_path (tr_entities t e))) (en_children (entity_of t p))) \<and>
     (\<forall>e \<in> set (en_children (entity_of t p)).
        (\<forall>q \<in> set (en_presences (tr_entities t e)). prs_entity (tr_presences t q) = e) \<and>
        (\<exists>q \<in> set (en_presences (tr_entities t e)). prs_device (tr_presences t q) = None) \<and>
        (\<forall>b. en_best (tr_entities t e) = Some b \<longrightarrow> b \<in> set (en_presences (tr_entities t e)))) \<and>
     (length (prs_children (tr_presences t p)) = length (en_children (entity_of t p)) \<longrightarrow> prs_children (tr_presences t p) = fresh_children t p)"

lemma presence_loop_mem: "presence_loop t d ps r = Some q \<Longrightarrow> q \<in> set ps \<or> r = Some q"
  by (induction t d ps r rule: presence_loop.induct) (auto split: if_splits)

lemma get_presence_mem: "get_presence t e d = Some q \<Longrightarrow> q \<in> set (en_presences (tr_entities t e))"
  unfolding get_presence_def by (auto dest: presence_loop_mem)

lemma get_children_fresh: "tree_ok t p \<Longrightarrow> get_children t p = fresh_children t p"
  by (auto simp: get_children_def tree_ok_def Let_def)

lemma child_entity:
  assumes "tree_ok t p" and "c \<in> set (fresh_children t p)"
  shows "prs_entity (tr_presences t c) \<in> set (en_children (entity_of t p)) \<and>
    get_presence t (prs_entity (tr_presences t c)) (prs_device (tr_presences t p)) = Some c \<and> en_best (entity_of t c) \<noteq> None"
proof -
  obtain e where e: "e \<in> set (en_children (entity_of t p))" "get_presence t e (prs_device (tr_presences t p)) = Some c"
      "en_best (entity_of t c) \<noteq> None"
    using assms(2) by (auto simp: fresh_children_def map_filter_def)
  then have "prs_entity (tr_presences t c) = e" using get_presence_mem [OF e(2)] assms(1) by (auto simp: tree_ok_def)
  then show ?thesis using e by simp
qed

lemma child_key_name:
  assumes "tree_ok t p" and "c \<in> set (fresh_children t p)"
  shows "snd (child_key t c) = own_name t c"
proof -
  let ?e = "prs_entity (tr_presences t c)"
  have e: "?e \<in> set (en_children (entity_of t p))" "en_best (tr_entities t ?e) \<noteq> None"
    using child_entity [OF assms] by (auto simp: entity_of_def)
  then obtain b where b: "en_best (tr_entities t ?e) = Some b" by blast
  then have "prs_entity (tr_presences t b) = ?e" using e(1) assms(1) unfolding tree_ok_def by blast
  then show ?thesis using b by (simp add: child_key_def own_name_def entity_of_def Let_def)
qed

lemma map_filter_names:
  assumes "distinct (map n es)" and "\<forall>e \<in> set es. \<forall>q. g e = Some q \<longrightarrow> m q = n e"
  shows "distinct (map m (List.map_filter g es)) \<and> m ` set (List.map_filter g es) \<subseteq> n ` set es"
  using assms
proof (induction es)
  case Nil
  then show ?case by (simp add: map_filter_simps)
next
  case (Cons e es)
  then have IH: "distinct (map m (List.map_filter g es))" "m ` set (List.map_filter g es) \<subseteq> n ` set es" by auto
  have "m q \<notin> m ` set (List.map_filter g es)" if "g e = Some q" for q
  proof -
    have "m q = n e" "n e \<notin> n ` set es" using that Cons.prems by auto
    then show ?thesis using IH(2) by auto
  qed
  then show ?case using IH Cons.prems(2) by (auto simp: map_filter_simps split: option.split)
qed

lemma fresh_children_names:
  assumes "tree_ok t p"
  shows "distinct (map (own_name t) (fresh_children t p))"
proof -
  let ?g = "\<lambda>e. get_presence t e (prs_device (tr_presences t p))"
  let ?n = "\<lambda>e. get_own_name (en_path (tr_entities t e))"
  have d: "distinct (map ?n (en_children (entity_of t p)))" using assms unfolding tree_ok_def by blast
  have "own_name t q = ?n e" if "e \<in> set (en_children (entity_of t p))" "?g e = Some q" for e q
  proof -
    have "prs_entity (tr_presences t q) = e" using get_presence_mem [OF that(2)] that(1) assms unfolding tree_ok_def by blast
    then show ?thesis by (simp add: own_name_def entity_of_def)
  qed
  then have "distinct (map (own_name t) (List.map_filter ?g (en_children (entity_of t p))))"
    using map_filter_names [OF d, of ?g "own_name t"] by blast
  then have "distinct (map (own_name t) (filter (\<lambda>c. en_best (entity_of t c) \<noteq> None) (List.map_filter ?g (en_children (entity_of t p)))))"
    by (rule distinct_map_filter)
  then show ?thesis unfolding fresh_children_def by (simp only: distinct_map distinct_sort set_sort simp_thms)
qed

lemma lower_bound_sorted:
  assumes "sorted (map k xs)" and "distinct (map k xs)" and "x \<in> set xs"
  shows "lower_bound (\<lambda>y. k y < k x) xs = Some x"
  using assms
proof (induction xs)
  case (Cons y ys)
  show ?case
  proof (cases "x = y")
    case False
    then have "k y < k x" using Cons.prems by (auto simp: order.strict_iff_order)
    then show ?thesis using Cons False by auto
  qed simp
qed simp

lemma lower_bound_mem: "lower_bound P xs = Some x \<Longrightarrow> x \<in> set xs"
  by (induction xs) (auto split: if_splits)

text \<open>
  In a tree whose siblings have different names, the search by name finds exactly the child that has the name, is a
  directory or not as asked for, and is not missing.
\<close>

theorem presence_child_found:
  assumes "tree_ok t p"
  shows "presence_child t p name dir = Some c \<longleftrightarrow>
    c \<in> set (fresh_children t p) \<and> own_name t c = name \<and> has_feature t c fe_directory = dir \<and> \<not> has_feature t c fe_missing"
proof
  assume "presence_child t p name dir = Some c"
  then show "c \<in> set (fresh_children t p) \<and> own_name t c = name \<and> has_feature t c fe_directory = dir \<and> \<not> has_feature t c fe_missing"
    by (auto simp: presence_child_def get_children_fresh [OF assms] dest: lower_bound_mem split: option.splits if_splits)
next
  assume c: "c \<in> set (fresh_children t p) \<and> own_name t c = name \<and> has_feature t c fe_directory = dir \<and> \<not> has_feature t c fe_missing"
  then have key: "child_key t c = (\<not> dir, name)" by (simp add: child_key_def Let_def)
  have names: "map snd (map (child_key t) (fresh_children t p)) = map (own_name t) (fresh_children t p)"
    using child_key_name [OF assms] by simp
  have "distinct (map snd (map (child_key t) (fresh_children t p)))" unfolding names by (rule fresh_children_names [OF assms])
  then have "distinct (map (child_key t) (fresh_children t p))" by (rule distinct_map [THEN iffD1, THEN conjunct1])
  moreover have "sorted (map (child_key t) (fresh_children t p))" by (simp add: fresh_children_def)
  ultimately have "lower_bound (\<lambda>y. child_key t y < child_key t c) (fresh_children t p) = Some c"
    by (intro lower_bound_sorted) (use c in simp_all)
  then show "presence_child t p name dir = Some c" using c by (simp add: presence_child_def get_children_fresh [OF assms] key)
qed


definition sample_presence :: "nat \<Rightarrow> bytes option \<Rightarrow> u32 \<Rightarrow> presence" where
  "sample_presence e d f = \<lparr>prs_entity = e, prs_parent = (if e = 0 then None else Some 0), prs_device = d, prs_children = [], prs_features = f,
     prs_default_features = 0, prs_file = e\<rparr>"

text \<open>A folder with two files; the local device has the first one.\<close>

definition sample_tree :: tree where
  "sample_tree = \<lparr>tr_presences = (\<lambda>_. sample_presence 0 (Some [1]) fe_folder)
       (1 := sample_presence 1 None fe_missing, 2 := sample_presence 1 (Some [1]) (fe_cluster OR fe_local OR fe_file),
        3 := sample_presence 2 None fe_missing, 4 := sample_presence 2 (Some [2]) (fe_cluster OR fe_peer OR fe_file)),
     tr_entities = (\<lambda>_. \<lparr>en_path = make_path [], en_parent = None, en_presences = [0], en_children = [1, 2], en_best = None\<rparr>)
       (1 := \<lparr>en_path = make_path ''a'', en_parent = Some 0, en_presences = [1, 2], en_children = [], en_best = Some 2\<rparr>,
        2 := \<lparr>en_path = make_path ''b'', en_parent = Some 0, en_presences = [3, 4], en_children = [], en_best = Some 4\<rparr>)\<rparr>"

theorem presence_child_found_witness:
  "presence_child sample_tree 0 ''a'' False = Some 2 \<and> presence_child sample_tree 0 ''b'' False \<noteq> Some 3"
proof -
  have f: "fresh_children sample_tree 0 = [2, 3]" by code_simp
  have d: "distinct (map (\<lambda>e. get_own_name (en_path (tr_entities sample_tree e))) (en_children (entity_of sample_tree 0)))" by code_simp
  have "tree_ok sample_tree 0"
    unfolding tree_ok_def using d by (simp add: sample_tree_def entity_of_def sample_presence_def)
  from presence_child_found [OF this] have
    "presence_child sample_tree 0 n dir = Some c \<longleftrightarrow> c \<in> {2, 3} \<and> own_name sample_tree c = n \<and>
       has_feature sample_tree c fe_directory = dir \<and> \<not> has_feature sample_tree c fe_missing" for n dir c
    by (simp add: f)
  moreover have "own_name sample_tree 2 = ''a''" "\<not> has_feature sample_tree 2 fe_directory" "\<not> has_feature sample_tree 2 fe_missing"
      "has_feature sample_tree 3 fe_missing" by code_simp+
  ultimately show ?thesis by simp
qed

end
