(* ===== verification/Scanner.thy ===== *)
theory Scanner
  imports Hashing Presence Advance "HOL-Library.Monad_Syntax" "HOL-Library.AList"
begin

text \<open>
  The scanner of a local folder (\<^verbatim>\<open>src/net/local_keeper/folder_context.cpp\<close>, \<^verbatim>\<open>folder_slave.cpp\<close>, \<^verbatim>\<open>child_info.cpp\<close>): a stack of items that are
  processed until I/O is needed, the tasks that go to the file system actor, and what happens when a task or a digest comes
  back. The differences it finds become diffs of the model. The cluster and the tree of presences do not change while the stack is processed.
  \<open>None\<close> as a result is a violated assertion or undefined behaviour; where a loop may not end the result has a further \<open>option\<close>,
  and \<open>None\<close> of that one is a loop that does not end.
\<close>

subsection \<open>State\<close>

datatype stack_item =
  Unscanned_dir string "nat option" string nat bool bool
| Unexamined child_info bool bool bool
| Incomplete child_info
| Complete_scan bool
| Child_ready child_info "pr_block list"
| Undo_child_ready string
| Hash_new_file nat
| Hash_existing_file nat
| Hash_incomplete_file nat
| Rehashed_incomplete child_info "pr_block list" advance_action
| Abort_hashing string
| Removed_dir nat
| Confirmed_deleted nat
| Suspend_scan nat
| Unsuspend_scan

text \<open>The tasks; a segment knows the file that is hashed by its address.\<close>

datatype io_task =
  Scan_dir string "nat option" string bool bool bool
| Segment_iterator segment nat
| Remove_file string
| Rename_file string string int child_info advance_action
| Noop

text \<open>What a child of a scanned directory is on the disk.\<close>

datatype disk_type = Disk_file | Disk_directory | Disk_symlink

record disk_child =
  dc_path :: string
  dc_target :: string
  dc_type :: disk_type
  dc_perms :: u32
  dc_last_write_time :: int
  dc_size :: int
  dc_error :: bool

text \<open>A task that came back: the error, and what the task found or did.\<close>

datatype done_task =
  Scanned_dir string "nat option" string bool bool "nat option" "disk_child list"
| Segment_done segment nat "nat option" int
| Removed_file string "nat option"
| Renamed_file string string child_info advance_action "nat option"
| Noop_done

record folder_context =
  fx_folder :: string
  fx_stack :: "stack_item list"
  fx_pending_io :: "io_task list"
  fx_ignore_permissions :: bool
  fx_in_progress :: int
  fx_hashing :: int
  fx_io_generation :: nat
  fx_scan_generation :: "string \<Rightarrow> nat option"
  fx_hashing_files :: "(string \<times> int) list"
  fx_hashes :: "nat \<Rightarrow> hash_base"
  fx_next_hash :: nat

record scan_context =
  kx_cluster :: cluster
  kx_sequencer :: sequencer
  kx_tree :: tree
  kx_hashes_pool :: int
  kx_diffs :: "change assembler"
  kx_io_in_progress :: bool

text \<open>
  What the scanner uses of other code: the surroundings of diffs, clocks, the platform, the validity of names, whether the watcher wants to know of scanned
  directories, the augmentations of files and folders, and the folder infos that have left the cluster.
\<close>

record scan_env =
  ke_advance :: advance_env
  ke_clock :: u64
  ke_now :: int
  ke_local_time :: int
  ke_symlinks_supported :: bool
  ke_path_supported :: "string \<Rightarrow> bool"
  ke_permissions_supported :: "string \<Rightarrow> bool"
  ke_utf8_valid :: "string \<Rightarrow> bool"
  ke_watcher_notified :: bool
  ke_presence_of :: "addr \<Rightarrow> nat"
  ke_folder_entity :: "string \<Rightarrow> nat"
  ke_detached :: "string \<Rightarrow> folder \<times> folder_info"
  ke_no_such_file :: nat

abbreviation kx_store :: "scan_context \<Rightarrow> store" where "kx_store x \<equiv> cl_store (kx_cluster x)"

type_synonym scan_run = "folder_context \<times> scan_context"

definition tmp_min_age :: int where "tmp_min_age = 10"

subsection \<open>Diffs\<close>

definition push_diffs :: "cdiff list \<Rightarrow> scan_context \<Rightarrow> scan_context option" where
  "push_diffs ds x = map_option (\<lambda>(a, _). x\<lparr>kx_diffs := a\<rparr>) (push_back ds (kx_diffs x))"

definition push_leaf :: "change \<Rightarrow> scan_context \<Rightarrow> scan_context option" where
  "push_leaf c = push_diffs [Diff (change c) []]"

definition push_update :: "scan_env \<Rightarrow> string \<Rightarrow> pr_file \<Rightarrow> scan_context \<Rightarrow> scan_context option" where
  "push_update E fid f x =
     do {
       (d, sq) \<leftarrow> make_local_update (ke_advance E) (ke_clock E) (kx_cluster x) f fid False (kx_sequencer x);
       push_diffs [d] (x\<lparr>kx_sequencer := sq\<rparr>)
     }"

text \<open>The local folder of a context.\<close>

definition local_folder :: "scan_env \<Rightarrow> scan_context \<Rightarrow> string \<Rightarrow> folder \<times> folder_info" where
  "local_folder E x fid =
     (case folder_info_of fid (cl_self (kx_cluster x)) (kx_cluster x) of None \<Rightarrow> ke_detached E fid | Some r \<Rightarrow> r)"

definition folder_path :: "scan_env \<Rightarrow> scan_context \<Rightarrow> string \<Rightarrow> string" where
  "folder_path E x fid = dfo_path (fd_data (fst (local_folder E x fid)))"

definition same_path :: "string \<Rightarrow> string \<Rightarrow> bool" where "same_path p q \<longleftrightarrow> fs_components p = fs_components q"

definition join_path :: "string list \<Rightarrow> string" where
  "join_path ps = (case ps of [] \<Rightarrow> [] | p # qs \<Rightarrow> if p = ''/'' then p @ join_slash qs else join_slash ps)"

definition relative_name :: "scan_env \<Rightarrow> scan_context \<Rightarrow> string \<Rightarrow> string \<Rightarrow> string" where
  "relative_name E x fid p = join_path (relativize (fs_components p) (fs_components (folder_path E x fid)))"

definition file_name :: "string \<Rightarrow> string" where "file_name p = get_own_name (make_path p)"

text \<open>The update that says a file of the model is gone.\<close>

definition push_deleted :: "scan_env \<Rightarrow> string \<Rightarrow> nat \<Rightarrow> scan_context \<Rightarrow> scan_context option" where
  "push_deleted E fid p x =
     do {
       f \<leftarrow> as_proto (ae_empty_digest (ke_advance E)) (kx_store x) (file_at (kx_store x) (prs_file (tr_presences (kx_tree x) p))) False;
       push_update E fid (f\<lparr>pf_deleted := True\<rparr>) x
     }"

definition push_available :: "string \<Rightarrow> addr \<Rightarrow> scan_context \<Rightarrow> scan_context option" where
  "push_available fid f x = push_leaf (file_availability fid (name_at (kx_store x) f) (fi_version (file_at (kx_store x) f))) x"

subsection \<open>Child infos\<close>

definition make_child_info :: "disk_child \<Rightarrow> nat option \<Rightarrow> nat option \<Rightarrow> nat \<Rightarrow> child_info option" where
  "make_child_info d self parent generation =
     (if dc_path d = [] then None
      else Some \<lparr>ci_path = dc_path d, ci_link_target = dc_target d, ci_last_write_time = dc_last_write_time d, ci_size = dc_size d,
        ci_type = (case dc_type d of Disk_directory \<Rightarrow> DIRECTORY | Disk_symlink \<Rightarrow> SYMLINK | Disk_file \<Rightarrow> FILE), ci_perms = dc_perms d,
        ci_self = self, ci_parent = parent, ci_generation = generation\<rparr>)"

definition child_info_of_proto :: "pr_file \<Rightarrow> string \<Rightarrow> nat option \<Rightarrow> nat option \<Rightarrow> nat \<Rightarrow> child_info" where
  "child_info_of_proto f p self parent generation =
     \<lparr>ci_path = p, ci_link_target = pf_symlink_target f, ci_last_write_time = pf_modified_s f, ci_size = pf_size f, ci_type = pf_type f,
      ci_perms = pf_permissions f, ci_self = self, ci_parent = parent, ci_generation = generation\<rparr>"

text \<open>With a size there must be a first block.\<close>

definition serialize_child :: "scan_env \<Rightarrow> scan_context \<Rightarrow> string \<Rightarrow> child_info \<Rightarrow> pr_block list \<Rightarrow> bool \<Rightarrow> pr_file option" where
  "serialize_child E x fid ci blocks ignore_permissions =
     (if ci_size ci \<noteq> 0 \<and> blocks = [] then None
      else Some \<lparr>pf_name = relative_name E x fid (ci_path ci), pf_type = ci_type ci, pf_size = ci_size ci,
        pf_permissions = (if ignore_permissions then 0x1B6 else ci_perms ci), pf_modified_s = ci_last_write_time ci, pf_modified_ns = 0,
        pf_modified_by = 0, pf_deleted = False, pf_invalid = False,
        pf_no_permissions = (ignore_permissions \<or> ci_type ci = SYMLINK), pf_version = [], pf_sequence = 0,
        pf_block_size = (if ci_size ci \<noteq> 0 then pb_size (hd blocks) else 0), pf_blocks = (if ci_size ci \<noteq> 0 then blocks else []),
        pf_symlink_target = (if ci_type ci = SYMLINK then ci_link_target ci else [])\<rparr>)"

definition fetch_model :: "scan_env \<Rightarrow> scan_context \<Rightarrow> string \<Rightarrow> child_info \<Rightarrow> addr option" where
  "fetch_model E x fid ci = by_name (kx_store x) (relative_name E x fid (ci_path ci)) (snd (local_folder E x fid))"

subsection \<open>Contexts\<close>

definition new_folder_context :: "scan_env \<Rightarrow> scan_context \<Rightarrow> string \<Rightarrow> stack_item list \<Rightarrow> string \<Rightarrow> folder_context" where
  "new_folder_context E x fid stack initial_path =
     \<lparr>fx_folder = fid, fx_stack = stack, fx_pending_io = [],
      fx_ignore_permissions = (dfo_ignore_permissions (fd_data (fst (local_folder E x fid))) \<or> \<not> ke_permissions_supported E initial_path),
      fx_in_progress = 0, fx_hashing = 0, fx_io_generation = 0, fx_scan_generation = Map.empty, fx_hashing_files = [],
      fx_hashes = (\<lambda>_. hash_of_blocks \<lparr>ci_path = [], ci_link_target = [], ci_last_write_time = 0, ci_size = 0, ci_type = FILE, ci_perms = 0,
        ci_self = None, ci_parent = None, ci_generation = 0\<rparr> 0 0), fx_next_hash = 0\<rparr>"

text \<open>From the folder down the named directories.\<close>

fun descend :: "tree \<Rightarrow> nat \<Rightarrow> string list \<Rightarrow> nat option" where
  "descend t p [] = Some p"
| "descend t p (n # ns) = (case presence_child t p n True of None \<Rightarrow> None | Some c \<Rightarrow> descend t c ns)"

text \<open>Up as long as the parent is deleted: the presence and its parent. The fuel is the depth; an ascent that uses it up has no result.\<close>

fun ascend :: "nat \<Rightarrow> tree \<Rightarrow> nat \<Rightarrow> (nat \<times> nat) option" where
  "ascend 0 t p = None"
| "ascend (Suc n) t p = (case prs_parent (tr_presences t p) of
       None \<Rightarrow> None
     | Some q \<Rightarrow> if has_feature t q fe_deleted then ascend n t q else Some (p, q))"

text \<open>
  The initial path is read after it has been moved from; it is empty then. \<open>Some None\<close> is the null result.
\<close>

definition make_context :: "scan_env \<Rightarrow> scan_context \<Rightarrow> string \<Rightarrow> string \<Rightarrow> bool \<Rightarrow> folder_context option option" where
  "make_context E x fid start_subdir recurse =
     (let t = kx_tree x; root_path = folder_path E x fid
      in case get_presence t (ke_folder_entity E fid) (Some (cl_self (kx_cluster x))) of
          None \<Rightarrow> None
        | Some root \<Rightarrow>
           (case descend t root (fs_components start_subdir) of
               None \<Rightarrow> Some None
             | Some p \<Rightarrow>
                if p = root
                then Some (Some (new_folder_context E x fid [Unscanned_dir root_path (Some p) [] 0 recurse False, Complete_scan False] []))
                else (case ascend (Suc (length (fs_components start_subdir))) t p of
                    None \<Rightarrow> None
                  | Some (q, parent) \<Rightarrow>
                     (let path = (if parent = root then root_path
                                  else root_path @ ''/'' @ name_at (kx_store x) (prs_file (tr_presences t parent)));
                          child = own_name t q
                      in Some (Some (new_folder_context E x fid
                           [Unscanned_dir path (Some parent) child 0 recurse False, Complete_scan (child \<noteq> [])] []))))))"

definition make_items_context :: "scan_env \<Rightarrow> scan_context \<Rightarrow> string \<Rightarrow> stack_item list \<Rightarrow> folder_context" where
  "make_items_context E x fid items = new_folder_context E x fid items []"


subsection \<open>Processing of items\<close>

definition push_item :: "stack_item \<Rightarrow> scan_run \<Rightarrow> scan_run" where
  "push_item it r = (fst r\<lparr>fx_stack := it # fx_stack (fst r)\<rparr>, snd r)"

definition push_task :: "io_task \<Rightarrow> scan_run \<Rightarrow> scan_run" where
  "push_task t r = (fst r\<lparr>fx_pending_io := fx_pending_io (fst r) @ [t]\<rparr>, snd r)"

definition has_no_tasks :: "folder_context \<Rightarrow> bool" where "has_no_tasks c \<longleftrightarrow> fx_pending_io c = []"

definition new_hash :: "hash_base \<Rightarrow> (nat \<Rightarrow> stack_item) \<Rightarrow> scan_run \<Rightarrow> scan_run" where
  "new_hash h item r =
     (let c = fst r; i = fx_next_hash c
      in push_item (item i) (c\<lparr>fx_hashes := (fx_hashes c)(i := h), fx_next_hash := Suc i\<rparr>, snd r))"

definition on_diffs :: "(scan_context \<Rightarrow> scan_context option) \<Rightarrow> scan_run \<Rightarrow> scan_run option" where
  "on_diffs f r = map_option (Pair (fst r)) (f (snd r))"

text \<open>
  The item is taken from the stack before it is processed; an item whose result is negative goes back. The result is positive
  when the next item may be processed.
\<close>

definition process_complete_scan :: "scan_env \<Rightarrow> scan_run \<Rightarrow> (int \<times> scan_run) option" where
  "process_complete_scan E r =
     (if has_no_tasks (fst r) \<and> \<not> kx_io_in_progress (snd r) \<and> fx_hashing (fst r) = 0
      then map_option (Pair 1) (on_diffs (push_leaf (scan_finish (fx_folder (fst r)) (ke_local_time E))) r)
      else Some (- 1, r))"

definition process_unscanned_dir :: "scan_env \<Rightarrow> string \<Rightarrow> nat option \<Rightarrow> string \<Rightarrow> nat \<Rightarrow> bool \<Rightarrow> bool \<Rightarrow> scan_run \<Rightarrow> int \<times> scan_run" where
  "process_unscanned_dir E path p single_child generation recurse refine r =
     (let skip = (case fx_scan_generation (fst r) path of None \<Rightarrow> False | Some g \<Rightarrow> generation < g);
          fd = fst (local_folder E (snd r) (fx_folder (fst r)));
          notify = (ke_watcher_notified E \<and> dfo_watched (fd_data fd))
      in if skip then (1, r) else (0, push_task (Scan_dir path p single_child notify recurse refine) r))"

text \<open>The block size of the best file of this name, for a size that is the same.\<close>

fun best_block_size :: "scan_env \<Rightarrow> scan_context \<Rightarrow> string \<Rightarrow> int \<Rightarrow> folder_info list \<Rightarrow> int option" where
  "best_block_size E x name sz [] = Some 0"
| "best_block_size E x name sz (fo # fos) =
     (case by_name (kx_store x) name fo of
          None \<Rightarrow> best_block_size E x name sz fos
        | Some f \<Rightarrow>
           (case en_best (entity_of (kx_tree x) (ke_presence_of E f)) of
               None \<Rightarrow> best_block_size E x name sz fos
             | Some b \<Rightarrow>
                if has_feature (kx_tree x) b fe_cluster
                then (let g = file_at (kx_store x) (prs_file (tr_presences (kx_tree x) b))
                      in case fi_get_size (kx_store x) g of
                          None \<Rightarrow> None
                        | Some n \<Rightarrow> if is_file g \<and> n = sz then File_Info.get_block_size (kx_store x) g
                                    else best_block_size E x name sz fos)
                else best_block_size E x name sz fos))"

definition recently_written :: "scan_env \<Rightarrow> child_info \<Rightarrow> bool" where
  "recently_written E ci \<longleftrightarrow> ke_now E - ci_last_write_time ci < tmp_min_age"

definition process_unexamined :: "scan_env \<Rightarrow> child_info \<Rightarrow> bool \<Rightarrow> bool \<Rightarrow> bool \<Rightarrow> scan_run \<Rightarrow> (int \<times> scan_run) option" where
  "process_unexamined E ci recurse recurse_children refine r =
     (let fid = fx_folder (fst r); known = fetch_model E (snd r) fid ci
      in if ci_type ci = DIRECTORY
         then let r = (if same_path (ci_path ci) (folder_path E (snd r) fid) then r else push_item (Child_ready ci []) r)
              in Some (1, if recurse \<or> known = None
                   then push_item (Unscanned_dir (ci_path ci) (ci_self ci) [] (ci_generation ci) recurse_children refine) r else r)
         else if ci_type ci = SYMLINK then Some (1, push_item (Child_ready ci []) r)
         else if ci_type ci \<noteq> FILE then None
         else if is_temporal (ci_path ci) \<and> recently_written E ci then Some (1, r)
         else if ci_size ci = 0 \<or> known \<noteq> None then Some (1, push_item (Child_ready ci []) r)
         else if ci_path ci \<in> fst ` set (fx_hashing_files (fst r)) then Some (1, r)
         else do {
           bs \<leftarrow> best_block_size E (snd r) (relative_name E (snd r) fid (ci_path ci)) (ci_size ci)
                  (fd_folder_infos (fst (local_folder E (snd r) fid)));
           h \<leftarrow> make_hash ci bs;
           Some (1, new_hash h Hash_new_file r)
         })"

text \<open>All items but the last leave the stack.\<close>

definition process_suspend_scan :: "nat \<Rightarrow> scan_run \<Rightarrow> (int \<times> scan_run) option" where
  "process_suspend_scan ec r =
     (let st = fx_stack (fst r)
      in map_option (\<lambda>(c, x). (1, c\<lparr>fx_stack := (if st = [] then [] else [last st])\<rparr>, x))
           (on_diffs (push_leaf (suspend_folder (fx_folder (fst r)) True (Some ec))) r))"

definition process_unsuspend_scan :: "scan_run \<Rightarrow> (int \<times> scan_run) option" where
  "process_unsuspend_scan r = map_option (Pair 1) (on_diffs (push_leaf (suspend_folder (fx_folder (fst r)) False None)) r)"

text \<open>Whether the file of the model is what was found.\<close>

definition same_as_model :: "bool \<Rightarrow> store \<Rightarrow> child_info \<Rightarrow> file_info \<Rightarrow> bool option" where
  "same_as_model ignore_permissions st ci f =
     (if (ci_type ci = SYMLINK \<or> ci_type ci = DIRECTORY \<or> ci_last_write_time ci = fi_modified_s f) \<and>
         ci_type ci = as_type (get_type f) \<and>
         (ignore_permissions \<or> has_no_permissions f \<or> ci_perms ci = fi_permissions f)
      then if ci_type ci = SYMLINK then Some (get_link_target f = ci_link_target ci)
           else map_option (\<lambda>n. n = ci_size ci) (fi_get_size st f)
      else Some False)"

definition hash_or_update :: "scan_env \<Rightarrow> child_info \<Rightarrow> pr_block list \<Rightarrow> scan_run \<Rightarrow> scan_run option" where
  "hash_or_update E ci blocks r =
     (if ci_size ci \<noteq> 0 \<and> blocks = [] then map_option (\<lambda>h. new_hash h Hash_existing_file r) (make_hash ci 0)
      else do {
        f \<leftarrow> serialize_child E (snd r) (fx_folder (fst r)) ci blocks (fx_ignore_permissions (fst r));
        on_diffs (push_update E (fx_folder (fst r)) f) r
      })"

definition process_child_ready :: "scan_env \<Rightarrow> child_info \<Rightarrow> pr_block list \<Rightarrow> scan_run \<Rightarrow> (int \<times> scan_run) option" where
  "process_child_ready E ci blocks r =
     (let st = kx_store (snd r)
      in map_option (Pair 1) (case fetch_model E (snd r) (fx_folder (fst r)) ci of
          None \<Rightarrow> hash_or_update E ci blocks r
        | Some f \<Rightarrow>
           if is_deleted (file_at st f) then hash_or_update E ci blocks r
           else (case same_as_model (fx_ignore_permissions (fst r)) st ci (file_at st f) of
               None \<Rightarrow> None
             | Some True \<Rightarrow> if is_local (file_at st f) then Some r else on_diffs (push_available (fx_folder (fst r)) f) r
             | Some False \<Rightarrow> hash_or_update E ci blocks r)))"

text \<open>The first item that is ready and has the path leaves the stack.\<close>

fun undo_ready :: "string \<Rightarrow> stack_item list \<Rightarrow> stack_item list" where
  "undo_ready p [] = []"
| "undo_ready p (it # its) =
     (case it of Child_ready ci _ \<Rightarrow> if same_path (ci_path ci) p then its else it # undo_ready p its | _ \<Rightarrow> it # undo_ready p its)"

definition process_undo :: "string \<Rightarrow> scan_run \<Rightarrow> int \<times> scan_run" where
  "process_undo p r = (1, fst r\<lparr>fx_stack := undo_ready p (fx_stack (fst r))\<rparr>, snd r)"

definition process_hash :: "nat \<Rightarrow> scan_run \<Rightarrow> (int \<times> scan_run) option" where
  "process_hash i r =
     (case schedule_hash (kx_hashes_pool (snd r)) (fx_hashes (fst r) i) of
          None \<Rightarrow> None
        | Some (v, s, pool, h) \<Rightarrow>
           (let r = (fst r\<lparr>fx_hashes := (fx_hashes (fst r))(i := h)\<rparr>, snd r\<lparr>kx_hashes_pool := pool\<rparr>)
            in Some (v, case s of None \<Rightarrow> r | Some s \<Rightarrow> push_task (Segment_iterator s i) r)))"

text \<open>
  The walk over a removed directory: local children go before their parent, which is visited again after
  them. The order of the visits is the result.
\<close>

partial_function (option) removed_order :: "tree \<Rightarrow> nat list \<Rightarrow> nat set \<Rightarrow> nat list option" where
  "removed_order t queue processed =
     (case queue of
          [] \<Rightarrow> Some []
        | p # rest \<Rightarrow>
           (if (has_feature t p fe_local \<or> has_feature t p fe_directory) \<and> p \<notin> processed \<and> get_children t p \<noteq> []
            then removed_order t (filter (\<lambda>c. has_feature t c fe_local) (get_children t p) @ queue) (insert p processed)
            else do { ps \<leftarrow> removed_order t rest (processed - {p}); Some (p # ps) }))"

fun each_diff :: "(nat \<Rightarrow> scan_context \<Rightarrow> scan_context option) \<Rightarrow> nat list \<Rightarrow> scan_context \<Rightarrow> scan_context option" where
  "each_diff f [] x = Some x"
| "each_diff f (p # ps) x = (case f p x of None \<Rightarrow> None | Some x \<Rightarrow> each_diff f ps x)"

definition process_removed_dir :: "scan_env \<Rightarrow> nat \<Rightarrow> scan_run \<Rightarrow> (int \<times> scan_run) option option" where
  "process_removed_dir E p r =
     map_option (\<lambda>ps. map_option (Pair 1) (on_diffs (each_diff (push_deleted E (fx_folder (fst r))) ps) r))
       (removed_order (kx_tree (snd r)) [p] {})"

text \<open>Directories go to a stack of their own, which is emptied onto the other one at the end.\<close>

definition process_confirmed_deleted :: "nat \<Rightarrow> scan_run \<Rightarrow> (int \<times> scan_run) option" where
  "process_confirmed_deleted p r =
     (let t = kx_tree (snd r); fid = fx_folder (fst r); file_of = (\<lambda>q. prs_file (tr_presences t q));
          local_children = filter (\<lambda>c. has_feature t c fe_local) (get_children t p);
          dirs = filter (\<lambda>c. has_feature t c fe_directory) local_children;
          files = filter (\<lambda>c. \<not> has_feature t c fe_directory) local_children
      in map_option (\<lambda>(c, x). (1, c\<lparr>fx_stack := map Confirmed_deleted dirs @ fx_stack c\<rparr>, x))
           (on_diffs (each_diff (\<lambda>q. push_available fid (file_of q)) (p # files)) r))"

text \<open>
  A temporary file: the best file of another device with its name, the action, or nothing to be done (\<open>None\<close>).
\<close>

definition incomplete_candidate :: "scan_context \<Rightarrow> child_info \<Rightarrow> nat option" where
  "incomplete_candidate x ci =
     (case ci_parent ci of
          None \<Rightarrow> None
        | Some p \<Rightarrow>
           (let t = kx_tree x; name = file_stem (file_name (ci_path ci))
            in case find (\<lambda>e. get_own_name (en_path (tr_entities t e)) = name) (en_children (entity_of t p)) of
                None \<Rightarrow> None
              | Some e \<Rightarrow>
                 (case en_best (tr_entities t e) of
                     None \<Rightarrow> None
                   | Some b \<Rightarrow> if prs_device (tr_presences t b) = Some (cl_self (kx_cluster x)) then None else Some b)))"

definition incomplete_action :: "scan_env \<Rightarrow> string \<Rightarrow> scan_context \<Rightarrow> nat \<Rightarrow> advance_action" where
  "incomplete_action E fid x b =
     (let t = kx_tree x; (fd, fo) = local_folder E x fid;
          lp = get_presence t (prs_entity (tr_presences t b)) (Some (cl_self (kx_cluster x)));
          local_file = (case lp of None \<Rightarrow> None
            | Some l \<Rightarrow> if has_feature t l fe_cluster then Some (prs_file (tr_presences t l)) else None)
      in resolve (ke_symlinks_supported E) (ke_path_supported E) (ae_local_time (ke_advance E)) (kx_store x)
           (prs_file (tr_presences t b)) local_file fo fd)"

definition process_incomplete :: "scan_env \<Rightarrow> child_info \<Rightarrow> scan_run \<Rightarrow> (int \<times> scan_run) option" where
  "process_incomplete E ci r =
     (let x = snd r; t = kx_tree x; st = kx_store x; removal = Some (1, push_task (Remove_file (ci_path ci)) r)
      in if recently_written E ci then Some (1, r)
         else case incomplete_candidate x ci of
             None \<Rightarrow> removal
           | Some b \<Rightarrow>
              (let f = file_at st (prs_file (tr_presences t b))
               in case fi_get_size st f of
                   None \<Rightarrow> None
                 | Some n \<Rightarrow>
                    if n \<noteq> ci_size ci then removal
                    else if is_synchronizing f then Some (1, r)
                    else let action = incomplete_action E (fx_folder (fst r)) x b
                         in if action = ignore then removal
                            else do {
                              bs \<leftarrow> File_Info.get_block_size st f;
                              Some (1, new_hash (make_hash_incomplete ci b bs (int (length (fi_blocks f))) action) Hash_incomplete_file r)
                            }))"

text \<open>Which blocks of the peer's file the local blocks are; a null slot has no result.\<close>

fun valid_blocks :: "store \<Rightarrow> raw_block list \<Rightarrow> pr_block list \<Rightarrow> bool list option" where
  "valid_blocks st (raw # raws) (b # bs) =
     (case slot_block st raw of None \<Rightarrow> None | Some pb \<Rightarrow> map_option ((#) (bi_hash pb = pb_hash b)) (valid_blocks st raws bs))"
| "valid_blocks st _ _ = Some []"

definition rename_target :: "scan_env \<Rightarrow> scan_context \<Rightarrow> nat \<Rightarrow> advance_action \<Rightarrow> string option" where
  "rename_target E x self action =
     (let f = file_at (kx_store x) (prs_file (tr_presences (kx_tree x) self))
      in if action = remote_copy then Some (get_own_name (make_path (fi_name f)))
         else if action = resolve_remote_win
         then Some (file_name (make_conflicting_name (ae_local_time (ke_advance E)) f)) else None)"

definition process_rehashed :: "scan_env \<Rightarrow> child_info \<Rightarrow> pr_block list \<Rightarrow> advance_action \<Rightarrow> scan_run \<Rightarrow> (int \<times> scan_run) option" where
  "process_rehashed E ci blocks action r =
     (case ci_self ci of
          None \<Rightarrow> None
        | Some self \<Rightarrow>
           (let x = snd r; st = kx_store x; p = tr_presences (kx_tree x) self; f = file_at st (prs_file p);
                removal = Some (1, push_task (Remove_file (ci_path ci)) r)
            in if length (fi_blocks f) \<noteq> length blocks then removal
               else case valid_blocks st (fi_blocks f) blocks of
                   None \<Rightarrow> None
                 | Some valid \<Rightarrow>
                    if list_all id valid
                    then map_option (\<lambda>name. (1, push_task (Rename_file (ci_path ci) name (fi_modified_s f) ci action) r))
                           (rename_target E x self action)
                    else if True \<in> set valid
                    then if is_locally_available f then None
                         else map_option (Pair 1) (on_diffs (push_leaf (blocks_availability (fx_folder (fst r)) (the (prs_device p))
                                (fi_name f) valid)) r)
                    else removal))"

text \<open>The item itself is erased, and erased again unless the stack is empty then.\<close>

definition process_abort_hashing :: "scan_run \<Rightarrow> (int \<times> scan_run) option" where
  "process_abort_hashing r = (if fx_stack (fst r) = [] then Some (1, r) else None)"

fun process_item :: "scan_env \<Rightarrow> stack_item \<Rightarrow> scan_run \<Rightarrow> (int \<times> scan_run) option option" where
  "process_item E (Unscanned_dir p q s g rec refine) r = Some (Some (process_unscanned_dir E p q s g rec refine r))"
| "process_item E (Unexamined ci rec rec_children refine) r = Some (process_unexamined E ci rec rec_children refine r)"
| "process_item E (Incomplete ci) r = Some (process_incomplete E ci r)"
| "process_item E (Complete_scan _) r = Some (process_complete_scan E r)"
| "process_item E (Child_ready ci bs) r = Some (process_child_ready E ci bs r)"
| "process_item E (Undo_child_ready p) r = Some (Some (process_undo p r))"
| "process_item E (Hash_new_file i) r = Some (process_hash i r)"
| "process_item E (Hash_existing_file i) r = Some (process_hash i r)"
| "process_item E (Hash_incomplete_file i) r = Some (process_hash i r)"
| "process_item E (Rehashed_incomplete ci bs a) r = Some (process_rehashed E ci bs a r)"
| "process_item E (Abort_hashing _) r = Some (process_abort_hashing r)"
| "process_item E (Removed_dir p) r = process_removed_dir E p r"
| "process_item E (Confirmed_deleted p) r = Some (process_confirmed_deleted p r)"
| "process_item E (Suspend_scan ec) r = Some (process_suspend_scan ec r)"
| "process_item E Unsuspend_scan r = Some (process_unsuspend_scan r)"

text \<open>The loop; the result also says whether there is I/O to do.\<close>

partial_function (option) process_stack :: "scan_env \<Rightarrow> scan_run \<Rightarrow> (bool \<times> scan_run) option option" where
  "process_stack E r =
     (case fx_stack (fst r) of
          [] \<Rightarrow> Some (Some (fx_pending_io (fst r) \<noteq> [], r))
        | it # its \<Rightarrow>
           (case process_item E it (fst r\<lparr>fx_stack := its\<rparr>, snd r) of
               None \<Rightarrow> None
             | Some None \<Rightarrow> Some None
             | Some (Some (v, r)) \<Rightarrow>
                (let r = (if v < 0 then push_item it r else r)
                 in if v \<le> 0 then Some (Some (fx_pending_io (fst r) \<noteq> [], r))
                    else if is_overused (kx_diffs (snd r)) \<and> fx_stack (fst r) \<noteq> [] \<and> has_no_tasks (fst r)
                    then Some (Some (True, push_task Noop r))
                    else process_stack E r)))"


subsection \<open>Results of tasks\<close>

definition ensure_folder_existance :: "scan_run \<Rightarrow> bool \<times> scan_run" where
  "ensure_folder_existance r =
     (if folders_by_id (fx_folder (fst r)) (kx_cluster (snd r)) = None
      then (False, fst r\<lparr>fx_stack := [], fx_pending_io := []\<rparr>, snd r) else (True, r))"

text \<open>The number of blocks of a path that are being hashed.\<close>

definition hashing_of :: "(string \<times> int) list \<Rightarrow> string \<Rightarrow> int" where
  "hashing_of m p = (case map_of m p of None \<Rightarrow> 0 | Some n \<Rightarrow> n)"

definition hashing_add :: "string \<Rightarrow> int \<Rightarrow> (string \<times> int) list \<Rightarrow> (string \<times> int) list" where
  "hashing_add p n m = AList.update p (hashing_of m p + n) m"

text \<open>A count that becomes zero is erased; a path that is not there has no result.\<close>

definition hashing_sub :: "string \<Rightarrow> int \<Rightarrow> (string \<times> int) list \<Rightarrow> (string \<times> int) list option" where
  "hashing_sub p n m = (case map_of m p of
       None \<Rightarrow> None
     | Some k \<Rightarrow> Some (if k - n = 0 then AList.delete p m else AList.update p (k - n) m))"

definition item_of_outcome :: "hash_outcome \<Rightarrow> stack_item" where
  "item_of_outcome o' = (case o' of
       Aborted_hash p \<Rightarrow> Abort_hashing p
     | Rehashed ci bs a \<Rightarrow> Rehashed_incomplete ci bs a
     | Ready ci bs \<Rightarrow> Child_ready ci bs)"

text \<open>A digest, or an error of the hasher, of a block of the file with the given address.\<close>

definition post_digest :: "nat \<Rightarrow> int \<Rightarrow> nat \<Rightarrow> bytes option \<Rightarrow> scan_run \<Rightarrow> scan_run option" where
  "post_digest i index data_size digest r =
     (case ensure_folder_existance r of
          (False, r) \<Rightarrow> Some r
        | (True, r) \<Rightarrow>
           (let c = fst r
            in if fx_hashing c \<le> 0 then None
               else do {
                 files \<leftarrow> hashing_sub (ci_path (hb_info (fx_hashes c i))) 1 (fx_hashing_files c);
                 (o', h) \<leftarrow> take_hash index data_size digest (fx_hashes c i);
                 let r = (c\<lparr>fx_hashing := fx_hashing c - 1, fx_hashing_files := files, fx_hashes := (fx_hashes c)(i := h)\<rparr>,
                          snd r\<lparr>kx_hashes_pool := kx_hashes_pool (snd r) + 1\<rparr>);
                 Some (case o' of None \<Rightarrow> r | Some o' \<Rightarrow> push_item (item_of_outcome o') r)
               }))"

text \<open>A directory that cannot be read: everything local below it becomes unreachable, breadth first.\<close>

partial_function (option) unreachable_order :: "tree \<Rightarrow> nat list \<Rightarrow> nat list option" where
  "unreachable_order t queue =
     (case queue of
          [] \<Rightarrow> Some []
        | p # rest \<Rightarrow> do { ps \<leftarrow> unreachable_order t (rest @ filter (\<lambda>c. has_feature t c fe_local) (get_children t p)); Some (p # ps) })"

definition push_unreachable :: "string \<Rightarrow> nat \<Rightarrow> scan_context \<Rightarrow> scan_context option" where
  "push_unreachable fid p x =
     push_leaf (mark_reachable fid (cl_self (kx_cluster x)) (name_at (kx_store x) (prs_file (tr_presences (kx_tree x) p))) False) x"

definition handle_scan_error :: "string \<Rightarrow> nat option \<Rightarrow> scan_run \<Rightarrow> scan_run option option" where
  "handle_scan_error path p r =
     map_option (\<lambda>ps. map_option (push_item (Undo_child_ready path)) (on_diffs (each_diff (push_unreachable (fx_folder (fst r))) ps) r))
       (case p of
            None \<Rightarrow> Some []
          | Some d \<Rightarrow> if has_feature (kx_tree (snd r)) d fe_local then unreachable_order (kx_tree (snd r)) [d] else Some [])"

text \<open>The children that were found: each one becomes an item; the names of the known ones are the second part.\<close>

fun found_children :: "scan_env \<Rightarrow> nat option \<Rightarrow> bool \<Rightarrow> bool \<Rightarrow> nat \<Rightarrow> tree \<Rightarrow> disk_child list \<Rightarrow> (stack_item list \<times> string list) option" where
  "found_children E parent recurse refine generation t [] = Some ([], [])"
| "found_children E parent recurse refine generation t (d # ds) =
     (let name = file_name (dc_path d)
      in if \<not> ke_utf8_valid E name then found_children E parent recurse refine generation t ds
         else let p = get_child t parent name (dc_type d = Disk_directory); known = (case p of None \<Rightarrow> [] | Some q \<Rightarrow> [own_name t q])
              in do {
                (its, names) \<leftarrow> found_children E parent recurse refine generation t ds;
                if dc_error d then Some (its, known @ names)
                else do {
                  ci \<leftarrow> make_child_info d p parent generation;
                  Some (its @ [if is_temporal (dc_path d) then Incomplete ci else Unexamined ci recurse recurse refine], known @ names)
                }
              })"

text \<open>
  The local children of the directory that were not found: files are deleted at once, directories and what has been deleted
  before become items.
\<close>

definition lost_children :: "tree \<Rightarrow> nat \<Rightarrow> string \<Rightarrow> string list \<Rightarrow> nat list" where
  "lost_children t d single_child checked =
     filter (\<lambda>c. has_feature t c fe_local \<and> own_name t c \<notin> set checked \<and> (single_child = [] \<or> own_name t c = single_child)) (get_children t d)"

definition lost_items :: "tree \<Rightarrow> nat list \<Rightarrow> stack_item list" where
  "lost_items t cs = map (\<lambda>c. if has_feature t c fe_deleted then Confirmed_deleted c else Removed_dir c)
     (filter (\<lambda>c. has_feature t c fe_deleted \<or> has_feature t c fe_directory) cs)"

definition lost_files :: "tree \<Rightarrow> nat list \<Rightarrow> nat list" where
  "lost_files t cs = filter (\<lambda>c. \<not> has_feature t c fe_deleted \<and> \<not> has_feature t c fe_directory) cs"

text \<open>
  The entities that no device has any longer. The loop looks at the first one and takes the last one away. The
  entities in the order of their updates are the result; \<open>Some None\<close> is an entity with no best presence.
\<close>

partial_function (option) deleted_order :: "tree \<Rightarrow> nat list \<Rightarrow> nat list option option" where
  "deleted_order t queue =
     (case queue of
          [] \<Rightarrow> Some (Some [])
        | e # _ \<Rightarrow>
           (case en_best (tr_entities t e) of
               None \<Rightarrow> Some None
             | Some b \<Rightarrow> do {
                 ps \<leftarrow> deleted_order t (butlast queue @
                        (if has_feature t b fe_directory \<and> has_feature t b fe_deleted then en_children (tr_entities t e) else []));
                 Some (map_option ((#) b) ps)
               }))"

definition deleted_entities :: "tree \<Rightarrow> nat \<Rightarrow> string list \<Rightarrow> nat list option" where
  "deleted_entities t d checked =
     (let es = filter (\<lambda>e. get_own_name (en_path (tr_entities t e)) \<notin> set checked) (en_children (entity_of t d))
      in if list_all (\<lambda>e. en_best (tr_entities t e) \<noteq> None) es
         then Some (filter (\<lambda>e. has_feature t (the (en_best (tr_entities t e))) fe_deleted) es) else None)"

definition push_remote_deleted :: "scan_env \<Rightarrow> string \<Rightarrow> nat \<Rightarrow> scan_context \<Rightarrow> scan_context option" where
  "push_remote_deleted E fid b x =
     do {
       f \<leftarrow> as_proto (ae_empty_digest (ke_advance E)) (kx_store x) (file_at (kx_store x) (prs_file (tr_presences (kx_tree x) b))) True;
       push_update E fid f x
     }"

text \<open>What a readable directory gives.\<close>

definition scanned_known :: "scan_env \<Rightarrow> nat \<Rightarrow> string \<Rightarrow> string list \<Rightarrow> scan_run \<Rightarrow> scan_run option option" where
  "scanned_known E d single_child names r =
     (let t = kx_tree (snd r); fid = fx_folder (fst r); lost = lost_children t d single_child names;
          local_names = map (own_name t) (filter (\<lambda>c. has_feature t c fe_local) (get_children t d))
      in case deleted_entities t d (names @ local_names) of
          None \<Rightarrow> Some None
        | Some es \<Rightarrow> do {
            bs \<leftarrow> deleted_order t es;
            Some (do {
              bs \<leftarrow> bs;
              r \<leftarrow> on_diffs (each_diff (push_deleted E fid) (lost_files t lost)) r;
              (c, x) \<leftarrow> on_diffs (each_diff (push_remote_deleted E fid) bs) r;
              Some (c\<lparr>fx_stack := lost_items t lost @ fx_stack c\<rparr>, x)
            })
          })"

definition scanned_children :: "scan_env \<Rightarrow> nat option \<Rightarrow> string \<Rightarrow> bool \<Rightarrow> bool \<Rightarrow> disk_child list \<Rightarrow> scan_run \<Rightarrow> scan_run option option" where
  "scanned_children E p single_child recurse refine infos r =
     (let c = fst r; x = snd r; t = kx_tree x;
          ready = (case fx_stack c of Child_ready ci bs # _ \<Rightarrow> [Child_ready ci bs] | _ \<Rightarrow> [])
      in case found_children E p recurse refine (fx_io_generation c) t infos of
          None \<Rightarrow> Some None
        | Some (its, names) \<Rightarrow>
           (let r = (c\<lparr>fx_stack := its @ drop (length ready) (fx_stack c)\<rparr>, x)
            in map_option (map_option (\<lambda>(c, x). (c\<lparr>fx_stack := ready @ fx_stack c\<rparr>, x)))
                 (case p of None \<Rightarrow> Some (Some r) | Some d \<Rightarrow> scanned_known E d single_child names r)))"

definition parent_path :: "string \<Rightarrow> string" where "parent_path p = get_parent_name (make_path p)"

definition post_scan_dir ::
  "scan_env \<Rightarrow> string \<Rightarrow> nat option \<Rightarrow> string \<Rightarrow> bool \<Rightarrow> bool \<Rightarrow> nat option \<Rightarrow> disk_child list \<Rightarrow> scan_run \<Rightarrow> scan_run option option" where
  "post_scan_dir E path p single_child recurse refine ec infos r =
     (let c = fst r; x = snd r; g = Suc (fx_io_generation c);
          c = c\<lparr>fx_io_generation := g, fx_scan_generation := (fx_scan_generation c)(path \<mapsto> g)\<rparr>;
          fd = fst (local_folder E x (fx_folder c));
          root = (same_path path (dfo_path (fd_data fd)) \<and> single_child = [])
      in case ec of
          Some e \<Rightarrow>
            if root then Some (Some (push_item (Suspend_scan e) (c, x)))
            else if single_child = [] \<or> e \<noteq> ke_no_such_file E then handle_scan_error path p (c, x)
            else (case p of
                None \<Rightarrow> Some None
              | Some d \<Rightarrow> if has_feature (kx_tree x) d fe_folder then Some None
                  else Some (Some (push_task (Scan_dir (parent_path path) (prs_parent (tr_presences (kx_tree x) d))
                  (get_own_name (make_path (name_at (kx_store x) (prs_file (tr_presences (kx_tree x) d))))) False False False) (c, x))))
        | None \<Rightarrow> scanned_children E p single_child recurse refine infos
                    (if root \<and> fd_suspended fd then push_item Unsuspend_scan (c, x) else (c, x)))"

text \<open>A segment that could not be read. \<open>tried\<close> is the number of blocks whose reading was tried.\<close>

definition post_segment :: "segment \<Rightarrow> nat \<Rightarrow> nat option \<Rightarrow> int \<Rightarrow> scan_run \<Rightarrow> scan_run option" where
  "post_segment s i ec tried r =
     (let c = fst r; x = snd r; c = c\<lparr>fx_io_generation := Suc (fx_io_generation c)\<rparr>
      in if ec = None then Some (c, x)
         else do {
           files \<leftarrow> hashing_sub (sg_path s) (sg_block_count s) (fx_hashing_files c);
           let delta = sg_block_count s - tried;
           let (over, h) = commit_error delta (fx_hashes c i);
           let c = c\<lparr>fx_hashing := fx_hashing c - sg_block_count s, fx_hashing_files := files, fx_hashes := (fx_hashes c)(i := h)\<rparr>;
           let x = x\<lparr>kx_hashes_pool := kx_hashes_pool x + delta\<rparr>;
           (if \<not> over then Some (c, x)
            else case ci_self (hb_info h) of
                Some p \<Rightarrow> if has_feature (kx_tree x) p fe_local then on_diffs (push_unreachable (fx_folder c) p) (c, x)
                          else if hb_incomplete h then Some (push_task (Remove_file (sg_path s)) (c, x)) else Some (c, x)
              | None \<Rightarrow> if hb_incomplete h then Some (push_task (Remove_file (sg_path s)) (c, x)) else Some (c, x))
         })"

definition post_rename :: "scan_env \<Rightarrow> string \<Rightarrow> child_info \<Rightarrow> advance_action \<Rightarrow> nat option \<Rightarrow> scan_run \<Rightarrow> scan_run option" where
  "post_rename E path ci action ec r =
     (if ec \<noteq> None then Some (push_task (Remove_file path) r)
      else case ci_self ci of
          None \<Rightarrow> None
        | Some self \<Rightarrow>
           (let x = snd r; p = tr_presences (kx_tree x) self
            in do {
              device \<leftarrow> prs_device p;
              (ds, sq) \<leftarrow> make_advance (ke_advance E) (kx_cluster x) action (prs_file p) (fx_folder (fst r)) device (kx_sequencer x);
              on_diffs (push_diffs ds) (fst r, x\<lparr>kx_sequencer := sq\<rparr>)
            }))"

fun post_task :: "scan_env \<Rightarrow> done_task \<Rightarrow> scan_run \<Rightarrow> scan_run option option" where
  "post_task E (Scanned_dir path p single_child recurse refine ec infos) r = post_scan_dir E path p single_child recurse refine ec infos r"
| "post_task E (Segment_done s i ec tried) r = Some (post_segment s i ec tried r)"
| "post_task E (Removed_file _ _) r = Some (Some r)"
| "post_task E (Renamed_file path name ci action ec) r = Some (post_rename E path ci action ec r)"
| "post_task E Noop_done r = Some (Some r)"

fun post_tasks :: "scan_env \<Rightarrow> done_task list \<Rightarrow> scan_run \<Rightarrow> scan_run option option" where
  "post_tasks E [] r = Some (Some r)"
| "post_tasks E (t # ts) r = (case post_task E t r of None \<Rightarrow> None | Some None \<Rightarrow> Some None | Some (Some r) \<Rightarrow> post_tasks E ts r)"

definition post_process :: "scan_env \<Rightarrow> done_task list \<Rightarrow> scan_run \<Rightarrow> scan_run option option" where
  "post_process E ts r =
     (case ensure_folder_existance r of
          (False, r) \<Rightarrow> Some (Some r)
        | (True, r) \<Rightarrow> if fx_in_progress (fst r) \<le> 0 then Some None
                       else post_tasks E ts (fst r\<lparr>fx_in_progress := fx_in_progress (fst r) - 1\<rparr>, snd r))"

text \<open>The next task; the blocks of a segment are counted when it leaves.\<close>

definition pop_task :: "folder_context \<Rightarrow> (io_task \<times> folder_context) option" where
  "pop_task c = (case fx_pending_io c of
       [] \<Rightarrow> None
     | t # ts \<Rightarrow>
        (let c = c\<lparr>fx_pending_io := ts, fx_in_progress := fx_in_progress c + 1\<rparr>
         in Some (t, case t of
              Segment_iterator s i \<Rightarrow> c\<lparr>fx_hashing := fx_hashing c + sg_block_count s,
                fx_hashing_files := hashing_add (sg_path s) (sg_block_count s) (fx_hashing_files c)\<rparr>
            | _ \<Rightarrow> c)))"

definition is_done :: "folder_context \<Rightarrow> bool" where
  "is_done c \<longleftrightarrow> fx_in_progress c = 0 \<and> fx_hashing c = 0 \<and> fx_stack c = [] \<and> fx_pending_io c = []"


subsection \<open>The slave\<close>

text \<open>The contexts of several folders; the first one is processed.\<close>

definition adjust_generation :: "nat \<Rightarrow> folder_context \<Rightarrow> folder_context" where
  "adjust_generation g c = c\<lparr>fx_stack := map (\<lambda>it. case it of
       Unexamined ci rec rec_children refine \<Rightarrow> Unexamined (ci\<lparr>ci_generation := g\<rparr>) rec rec_children refine | _ \<Rightarrow> it) (fx_stack c)\<rparr>"

definition slave_push :: "folder_context list \<Rightarrow> folder_context list \<Rightarrow> folder_context list" where
  "slave_push new cs =
     (let g = (case cs of [] \<Rightarrow> 0 | c # _ \<Rightarrow> fx_io_generation c)
      in cs @ (if g \<noteq> 0 then map (adjust_generation g) new else new))"

definition pop_context :: "folder_context list \<Rightarrow> folder_context list" where
  "pop_context cs = (case cs of
       c # d # rest \<Rightarrow> d\<lparr>fx_io_generation := fx_io_generation c, fx_scan_generation := fx_scan_generation c\<rparr> # rest
     | _ \<Rightarrow> [])"

lemma pop_context_shorter [simp]: "length (pop_context (c # cs)) = length cs"
  by (cases cs) (simp_all add: pop_context_def)

function slave_loop :: "scan_env \<Rightarrow> folder_context list \<Rightarrow> scan_context \<Rightarrow> (bool \<times> folder_context list \<times> scan_context) option option" where
  "slave_loop E [] x = Some (Some (False, [], x))"
| "slave_loop E (c # cs) x =
     (case process_stack E (c, x) of
          None \<Rightarrow> None
        | Some None \<Rightarrow> Some None
        | Some (Some (io, c, x)) \<Rightarrow>
           if is_done c then (if io then Some (Some (io, pop_context (c # cs), x)) else slave_loop E (pop_context (c # cs)) x)
           else Some (Some (io, c # cs, x)))"
  by pat_completeness auto
termination
  by (relation "measure (\<lambda>(E, cs, x). length cs)") auto

definition slave_rest :: "scan_env \<Rightarrow> bool \<times> scan_run \<Rightarrow> folder_context list \<Rightarrow> (bool \<times> folder_context list \<times> scan_context) option option" where
  "slave_rest E v cs =
     (case v of (io, c, x) \<Rightarrow>
        if io then Some (Some (io, c # cs, x))
        else slave_loop E (if is_done c then pop_context (c # cs) else c # cs) x)"

definition slave_process_stack :: "scan_env \<Rightarrow> folder_context list \<Rightarrow> scan_context \<Rightarrow> (bool \<times> folder_context list \<times> scan_context) option option" where
  "slave_process_stack E cs x = (case cs of
       [] \<Rightarrow> Some None
     | c # cs \<Rightarrow> (case process_stack E (c, x) of None \<Rightarrow> None | Some None \<Rightarrow> Some None | Some (Some v) \<Rightarrow> slave_rest E v cs))"

definition slave_post_process ::
  "scan_env \<Rightarrow> done_task list \<Rightarrow> folder_context list \<Rightarrow> scan_context \<Rightarrow> (bool \<times> folder_context list \<times> scan_context) option option" where
  "slave_post_process E ts cs x = (case cs of
       [] \<Rightarrow> Some None
     | c # cs \<Rightarrow> (case post_process E ts (c, x) of
          None \<Rightarrow> None
        | Some None \<Rightarrow> Some None
        | Some (Some r) \<Rightarrow> (case process_stack E r of None \<Rightarrow> None | Some None \<Rightarrow> Some None | Some (Some v) \<Rightarrow> slave_rest E v cs)))"

text \<open>The context of the digest, by its place among the contexts.\<close>

definition slave_post_digest ::
  "scan_env \<Rightarrow> nat \<Rightarrow> nat \<Rightarrow> int \<Rightarrow> nat \<Rightarrow> bytes option \<Rightarrow> folder_context list \<Rightarrow> scan_context \<Rightarrow>
     (bool \<times> folder_context list \<times> scan_context) option option" where
  "slave_post_digest E k i index data_size digest cs x =
     (if k < length cs
      then case post_digest i index data_size digest (cs ! k, x) of
          None \<Rightarrow> Some None
        | Some (c, x) \<Rightarrow> slave_loop E (cs[k := c]) x
      else Some None)"

definition prepare_task :: "folder_context list \<Rightarrow> (io_task \<times> folder_context list) option" where
  "prepare_task cs = (case cs of [] \<Rightarrow> None | c # cs \<Rightarrow> map_option (\<lambda>(t, c). (t, c # cs)) (pop_task c))"

end
