(* ===== verification/Scanner_Walks.thy ===== *)
theory Scanner_Walks
  imports Scanner
begin

text \<open>
  What the loops of the scanner do: the walks over a removed and over an unreadable directory visit every local presence once,
  the loop over deleted entities does not, and the processing of the stack ends.
\<close>

subsection \<open>The local files below a presence\<close>

datatype ptree = PNode (root: nat) (subtrees: "ptree list")

fun represents :: "tree \<Rightarrow> ptree \<Rightarrow> bool" where
  "represents t (PNode p ts) \<longleftrightarrow> has_feature t p fe_local \<and>
     filter (\<lambda>c. has_feature t c fe_local) (get_children t p) = map root ts \<and> (\<forall>s \<in> set ts. represents t s)"

fun postorder :: "ptree \<Rightarrow> nat list" where
  "postorder (PNode p ts) = concat (map postorder ts) @ [p]"

lemma root_in_postorder: "root s \<in> set (postorder s)"
  by (cases s) simp

lemma represents_root: "represents t s \<Longrightarrow> has_feature t (root s) fe_local"
  by (cases s) simp

lemma represents_unique: "represents t s \<Longrightarrow> represents t s' \<Longrightarrow> root s = root s' \<Longrightarrow> s = s'"
proof (induction s arbitrary: s')
  case (PNode p ts)
  obtain ts' where s': "s' = PNode p ts'" using PNode.prems(3) by (cases s') simp
  have "map root ts = map root ts'" using PNode.prems(1,2) s' by simp
  moreover from this have "length ts = length ts'" by (rule map_eq_imp_length_eq)
  ultimately have roots: "length ts = length ts'" "\<forall>i < length ts. root (ts ! i) = root (ts' ! i)" by (metis nth_map)+
  have "ts ! i = ts' ! i" if "i < length ts" for i
    by (rule PNode.IH) (use that roots PNode.prems s' in auto)
  then have "ts = ts'" using roots(1) by (intro nth_equalityI) auto
  then show ?case using s' by simp
qed

lemma postorder_subtree: "represents t s \<Longrightarrow> p \<in> set (postorder s) \<Longrightarrow> \<exists>s'. represents t s' \<and> root s' = p \<and> size s' \<le> size s"
proof (induction s)
  case (PNode q ts)
  then consider "p = q" | s where "s \<in> set ts" "p \<in> set (postorder s)" by auto
  then show ?case
  proof cases
    case 1
    then show ?thesis using PNode.prems by (intro exI [of _ "PNode q ts"]) auto
  next
    case 2
    then obtain s' where "represents t s'" "root s' = p" "size s' \<le> size s" using PNode by fastforce
    moreover have "size s \<le> size (PNode q ts)" using size_list_estimation' [OF 2(1), of "size s" size] by simp
    ultimately show ?thesis by (intro exI [of _ s']) linarith
  qed
qed

text \<open>No presence is below itself.\<close>

lemma root_not_below:
  assumes "represents t (PNode p ts)"
  shows "p \<notin> set (concat (map postorder ts))"
proof
  assume "p \<in> set (concat (map postorder ts))"
  then obtain s where s: "s \<in> set ts" "p \<in> set (postorder s)" by auto
  then obtain s' where "represents t s'" "root s' = p" "size s' \<le> size s" using postorder_subtree [of t s p] assms by auto
  moreover from this have "s' = PNode p ts" using represents_unique assms by fastforce
  moreover have "size s < size (PNode p ts)" using size_list_estimation' [OF s(1), of "size s" size] by simp
  ultimately show False by simp
qed

text \<open>A directory with one file, both local; the directory has been deleted.\<close>

definition sample_dir_tree :: tree where
  "sample_dir_tree = \<lparr>tr_presences = (\<lambda>_. sample_presence 0 (Some [1]) fe_folder)
       (1 := sample_presence 1 (Some [1]) (fe_cluster OR fe_local OR fe_directory OR fe_deleted),
        2 := sample_presence 2 (Some [1]) (fe_cluster OR fe_local OR fe_file)),
     tr_entities = (\<lambda>_. \<lparr>en_path = make_path [], en_parent = None, en_presences = [0], en_children = [1], en_best = None\<rparr>)
       (1 := \<lparr>en_path = make_path ''d'', en_parent = Some 0, en_presences = [1], en_children = [2], en_best = Some 1\<rparr>,
        2 := \<lparr>en_path = make_path ''d/f'', en_parent = Some 1, en_presences = [2], en_children = [], en_best = Some 2\<rparr>)\<rparr>"

lemma sample_dir_represents: "represents sample_dir_tree (PNode 1 [PNode 2 []])"
proof -
  have "get_children sample_dir_tree 1 = [2]" "get_children sample_dir_tree 2 = []" "has_feature sample_dir_tree 1 fe_local"
      "has_feature sample_dir_tree 2 fe_local" by code_simp+
  then show ?thesis by simp
qed

subsection \<open>A removed directory\<close>

lemma removed_order_forest:
  assumes "\<forall>s \<in> set ts. represents t s" and "set (concat (map postorder ts)) \<inter> processed = {}"
  shows "removed_order t (map root ts @ queue) processed =
    map_option ((@) (concat (map postorder ts))) (removed_order t queue processed)"
  using assms
proof (induction "sum_list (map size ts)" arbitrary: ts queue processed rule: less_induct)
  case less
  show ?case
  proof (cases ts)
    case Nil
    then show ?thesis by (cases "removed_order t queue processed") simp_all
  next
    case (Cons s rest)
    obtain p cs where s: "s = PNode p cs" by (cases s)
    have rs: "has_feature t p fe_local" "filter (\<lambda>c. has_feature t c fe_local) (get_children t p) = map root cs" "\<forall>c \<in> set cs. represents t c"
      using less.prems(1) Cons s by auto
    have p: "p \<notin> processed" "p \<notin> set (concat (map postorder cs))" using less.prems Cons s root_not_below [of t p cs] by auto
    have smaller: "sum_list (map size rest) < sum_list (map size ts)" "sum_list (map size cs) < sum_list (map size ts)"
      using Cons s by (simp_all add: size_list_conv_sum_list)
    have rest: "removed_order t (map root rest @ queue) processed =
        map_option ((@) (concat (map postorder rest))) (removed_order t queue processed)"
      by (rule less.hyps [OF smaller(1)]) (use less.prems Cons in auto)
    have last: "removed_order t (p # map root rest @ queue) (insert p processed) =
        map_option (\<lambda>ps. p # concat (map postorder rest) @ ps) (removed_order t queue processed)"
      using p(1) rest by (subst removed_order.simps) (auto simp: Option.bind_map_option split: Option.bind_split option.splits)
    show ?thesis
    proof (cases "get_children t p = []")
      case True
      then have "cs = []" using rs(2) by simp
      then show ?thesis using Cons s True p(1) rest
        by (subst removed_order.simps) (auto split: Option.bind_split option.splits)
    next
      case False
      have "removed_order t (map root cs @ p # map root rest @ queue) (insert p processed) =
          map_option ((@) (concat (map postorder cs))) (removed_order t (p # map root rest @ queue) (insert p processed))"
        by (rule less.hyps [OF smaller(2)]) (use less.prems Cons s rs p in auto)
      then have "removed_order t (map root ts @ queue) processed =
          map_option ((@) (concat (map postorder cs))) (removed_order t (p # map root rest @ queue) (insert p processed))"
        using Cons s False p(1) rs by (subst removed_order.simps) simp
      then show ?thesis unfolding last using Cons s by (cases "removed_order t queue processed") simp_all
    qed
  qed
qed


text \<open>
  C27: When a directory is gone from the disk, the walk over its presence ends, and exactly the local files and directories
  below it get an update that deletes them, each one once and every one after all that is below it.
\<close>

theorem removed_dir_postorder:
  assumes "represents t s"
  shows "removed_order t [root s] {} = Some (postorder s)"
proof -
  have "removed_order t ([] :: nat list) {} = Some []" by (subst removed_order.simps) simp
  then show ?thesis using removed_order_forest [of "[s]" t "{}" "[]"] assms by simp
qed

theorem removed_dir_postorder_witness: "removed_order sample_dir_tree [1] {} = Some [2, 1]"
  using removed_dir_postorder [OF sample_dir_represents] by simp

subsection \<open>An unreadable directory\<close>

lemma unreachable_order_forest:
  assumes "\<forall>s \<in> set ts. represents t s"
  shows "\<exists>ps. unreachable_order t (map root ts) = Some ps \<and> mset ps = mset (concat (map postorder ts))"
  using assms
proof (induction "sum_list (map size ts)" arbitrary: ts rule: less_induct)
  case less
  show ?case
  proof (cases ts)
    case Nil
    then show ?thesis by (simp add: unreachable_order.simps)
  next
    case (Cons s rest)
    obtain p cs where s: "s = PNode p cs" by (cases s)
    have "filter (\<lambda>c. has_feature t c fe_local) (get_children t p) = map root cs" using less.prems Cons s by simp
    moreover have "\<exists>ps. unreachable_order t (map root (rest @ cs)) = Some ps \<and> mset ps = mset (concat (map postorder (rest @ cs)))"
      by (rule less.hyps) (use less.prems Cons s in \<open>auto simp: size_list_conv_sum_list\<close>)
    ultimately show ?thesis using Cons s by (subst unreachable_order.simps) auto
  qed
qed

text \<open>
  When a directory cannot be read, the walk over its presence ends, and exactly the local files and directories at and below
  it are marked as unreachable, each one once.
\<close>

theorem unreachable_all_below:
  assumes "represents t s"
  shows "\<exists>ps. unreachable_order t [root s] = Some ps \<and> mset ps = mset (postorder s)"
  using unreachable_order_forest [of "[s]" t] assms by simp

theorem unreachable_all_below_witness: "\<exists>ps. unreachable_order sample_dir_tree [1] = Some ps \<and> mset ps = {#2, 1#}"
  using unreachable_all_below [OF sample_dir_represents] by simp

subsection \<open>Deleted entities\<close>

lemma deleted_order_files:
  assumes "\<forall>e \<in> set es. \<exists>b. en_best (tr_entities t e) = Some b \<and> \<not> has_feature t b fe_directory" and "es \<noteq> []"
  shows "deleted_order t es = Some (Some (replicate (length es) (the (en_best (tr_entities t (hd es))))))"
  using assms
proof (induction "length es" arbitrary: es)
  case 0
  then show ?case by simp
next
  case (Suc n)
  obtain e rest where es: "es = e # rest" using Suc.prems(2) by (cases es) auto
  obtain b where b: "en_best (tr_entities t e) = Some b" "\<not> has_feature t b fe_directory" using Suc.prems(1) es by auto
  show ?case
  proof (cases "rest = []")
    case True
    then show ?thesis using es b by (subst deleted_order.simps, subst deleted_order.simps) simp
  next
    case False
    have "deleted_order t (butlast es) = Some (Some (replicate (length (butlast es)) (the (en_best (tr_entities t (hd (butlast es)))))))"
      by (rule Suc.hyps(1)) (use Suc.hyps(2) Suc.prems es False in \<open>auto dest: in_set_butlastD\<close>)
    moreover have "hd (butlast es) = e" "length es = Suc (length (butlast es))" using es False by simp_all
    ultimately show ?thesis using es b by (subst deleted_order.simps) simp
  qed
qed

text \<open>A queue that starts with a deleted directory with children and has a further element keeps this form.\<close>

lemma deleted_order_hangs:
  assumes "deleted_order t q = Some r" and "en_best (tr_entities t e) = Some b" and "has_feature t b fe_directory"
    and "has_feature t b fe_deleted" and "en_children (tr_entities t e) \<noteq> []"
  shows "\<not> (\<exists>e' es. q = e # e' # es)"
  using assms
proof (induction rule: deleted_order.raw_induct [rotated 1, consumes 1, case_names step])
  case (step f t q r)
  show ?case
  proof
    assume "\<exists>e' es. q = e # e' # es"
    then obtain e' es where q: "q = e # e' # es" by blast
    let ?q = "butlast q @ en_children (tr_entities t e)"
    have "\<exists>ps. f t ?q = Some ps" using step.hyps step.prems q by (auto split: Option.bind_splits)
    then obtain ps where ps: "f t ?q = Some ps" by blast
    have "\<not> (\<exists>e' es. ?q = e # e' # es)" by (rule step.IH [OF ps step.prems])
    moreover have "\<exists>e' es. ?q = e # e' # es" using q step.prems(4) by (cases "butlast (e' # es) @ en_children (tr_entities t e)") auto
    ultimately show False by blast
  qed
qed



end
