(* ===== verification/Scanner_Safety.thy ===== *)
theory Scanner_Safety
  imports Scanner_Walks
begin

text \<open>
  The processing of the scanner's stack ends, and the counters of tasks and blocks are exact: a scan is reported as finished only when no
  task is with the file system and no block with a hasher.
\<close>

subsection \<open>What items leave as it is\<close>

text \<open>The cluster, the tree and the counters; new segments have blocks.\<close>

definition task_ok :: "io_task \<Rightarrow> bool" where
  "task_ok t = (case t of Segment_iterator s _ \<Rightarrow> 0 < sg_block_count s | _ \<Rightarrow> True)"

definition kept :: "scan_run \<Rightarrow> scan_run \<Rightarrow> bool" where
  "kept r r' \<longleftrightarrow> kx_tree (snd r') = kx_tree (snd r) \<and> kx_cluster (snd r') = kx_cluster (snd r) \<and>
     kx_io_in_progress (snd r') = kx_io_in_progress (snd r) \<and> fx_folder (fst r') = fx_folder (fst r) \<and>
     fx_hashing (fst r') = fx_hashing (fst r) \<and> fx_hashing_files (fst r') = fx_hashing_files (fst r) \<and>
     fx_in_progress (fst r') = fx_in_progress (fst r) \<and>
     (list_all task_ok (fx_pending_io (fst r)) \<longrightarrow> list_all task_ok (fx_pending_io (fst r')))"

lemma kept_refl [simp]: "kept r r" by (simp add: kept_def)

lemma kept_trans: "kept r s \<Longrightarrow> kept s u \<Longrightarrow> kept r u" by (simp add: kept_def)

definition same_context :: "scan_context \<Rightarrow> scan_context \<Rightarrow> bool" where
  "same_context x y \<longleftrightarrow> kx_tree y = kx_tree x \<and> kx_cluster y = kx_cluster x \<and> kx_io_in_progress y = kx_io_in_progress x"

lemma same_context_refl [simp]: "same_context x x" by (simp add: same_context_def)

lemma push_diffs_same: "push_diffs ds x = Some y \<Longrightarrow> same_context x y"
  by (auto simp: push_diffs_def same_context_def)

lemma push_leaf_same: "push_leaf c x = Some y \<Longrightarrow> same_context x y"
  unfolding push_leaf_def by (rule push_diffs_same)

lemma push_update_same: "push_update E fid f x = Some y \<Longrightarrow> same_context x y"
  by (auto simp: push_update_def same_context_def split: Option.bind_splits dest!: push_diffs_same)

lemma push_deleted_same: "push_deleted E fid p x = Some y \<Longrightarrow> same_context x y"
  by (auto simp: push_deleted_def split: Option.bind_splits dest: push_update_same)

lemma push_available_same: "push_available fid f x = Some y \<Longrightarrow> same_context x y"
  by (auto simp: push_available_def dest: push_leaf_same)

lemma push_unreachable_same: "push_unreachable fid p x = Some y \<Longrightarrow> same_context x y"
  by (auto simp: push_unreachable_def dest: push_leaf_same)

lemma push_remote_deleted_same: "push_remote_deleted E fid b x = Some y \<Longrightarrow> same_context x y"
  by (auto simp: push_remote_deleted_def split: Option.bind_splits dest: push_update_same)

lemma each_diff_same:
  assumes "\<And>p x y. f p x = Some y \<Longrightarrow> same_context x y"
  shows "each_diff f ps x = Some y \<Longrightarrow> same_context x y"
proof (induction ps arbitrary: x)
  case (Cons p ps)
  then obtain z where "f p x = Some z" "each_diff f ps z = Some y" by (auto split: option.splits)
  then show ?case using assms [of p x z] Cons.IH [of z] by (simp add: same_context_def)
qed simp

lemma on_diffs_kept:
  assumes "\<And>x y. f x = Some y \<Longrightarrow> same_context x y" and "on_diffs f r = Some r'"
  shows "kept r r' \<and> fst r' = fst r"
  using assms by (auto simp: on_diffs_def kept_def same_context_def)

lemma push_item_kept [simp]: "kept r (push_item it r)" by (simp add: kept_def push_item_def)
lemma push_task_kept [simp]: "task_ok t \<Longrightarrow> kept r (push_task t r)" by (simp add: kept_def push_task_def)
lemma new_hash_kept [simp]: "kept r (new_hash h f r)" by (simp add: kept_def new_hash_def push_item_def Let_def)

subsection \<open>The stack gets lighter\<close>

definition walk :: "tree \<Rightarrow> nat \<Rightarrow> ptree \<Rightarrow> bool" where "walk t p s \<longleftrightarrow> represents t s \<and> root s = p"

definition walk_size :: "tree \<Rightarrow> nat \<Rightarrow> nat" where "walk_size t p = size (THE s. walk t p s)"

lemma walk_size: "walk t p s \<Longrightarrow> walk_size t p = size s"
  unfolding walk_size_def walk_def by (metis (mono_tags, lifting) represents_unique the_equality)

text \<open>The presences of removed and deleted directories have finitely many local ones below them.\<close>

definition walkable :: "tree \<Rightarrow> stack_item \<Rightarrow> bool" where
  "walkable t it = (case it of Removed_dir p \<Rightarrow> \<exists>s. walk t p s | Confirmed_deleted p \<Rightarrow> \<exists>s. walk t p s | _ \<Rightarrow> True)"

definition weight :: "tree \<Rightarrow> stack_item \<Rightarrow> nat" where
  "weight t it = (case it of Unexamined _ _ _ _ \<Rightarrow> 4 | Child_ready _ _ \<Rightarrow> 2 | Incomplete _ \<Rightarrow> 2 | Confirmed_deleted p \<Rightarrow> Suc (walk_size t p) | _ \<Rightarrow> 1)"

definition load :: "scan_run \<Rightarrow> nat" where "load r = sum_list (map (weight (kx_tree (snd r))) (fx_stack (fst r)))"

definition stack_ok :: "scan_run \<Rightarrow> bool" where "stack_ok r \<longleftrightarrow> (\<forall>it \<in> set (fx_stack (fst r)). walkable (kx_tree (snd r)) it)"

text \<open>Items \<open>its\<close> on the stack are replaced by lighter ones.\<close>

definition lighter :: "nat \<Rightarrow> scan_run \<Rightarrow> scan_run \<Rightarrow> bool" where
  "lighter n r r' \<longleftrightarrow> kept r r' \<and> (stack_ok r \<longrightarrow> stack_ok r' \<and> load r' < load r + n)"

lemma lighter_same: "kept r r' \<Longrightarrow> fst r' = fst r \<Longrightarrow> 0 < n \<Longrightarrow> lighter n r r'"
  by (auto simp: lighter_def kept_def stack_ok_def load_def)

lemma lighter_push_item:
  "walkable (kx_tree (snd r)) it \<Longrightarrow> weight (kx_tree (snd r)) it < n \<Longrightarrow> lighter n r (push_item it r)"
  by (auto simp: lighter_def stack_ok_def load_def push_item_def kept_def)

lemma lighter_push_task: "task_ok t \<Longrightarrow> 0 < n \<Longrightarrow> lighter n r (push_task t r)"
  by (auto simp: lighter_def stack_ok_def load_def push_task_def kept_def)

lemma lighter_new_hash:
  assumes "\<And>i. weight (kx_tree (snd r)) (f i) < n \<and> walkable (kx_tree (snd r)) (f i)"
  shows "lighter n r (new_hash h f r)"
  using assms by (auto simp: lighter_def stack_ok_def load_def new_hash_def push_item_def kept_def Let_def)


lemma lighter_on_diffs:
  assumes "\<And>x y. f x = Some y \<Longrightarrow> same_context x y" and "on_diffs f r = Some r'" and "0 < n"
  shows "lighter n r r'"
  using on_diffs_kept [OF assms(1,2)] assms(3) by (intro lighter_same) auto

lemma lighter_less: "lighter m r r' \<Longrightarrow> m \<le> n \<Longrightarrow> lighter n r r'"
  by (auto simp: lighter_def)

lemma complete_scan_lighter: "process_complete_scan E r = Some (v, r') \<Longrightarrow> 0 < n \<Longrightarrow> lighter n r r'"
  by (auto simp: process_complete_scan_def intro: lighter_same lighter_on_diffs [OF push_leaf_same] split: if_splits)

lemma unscanned_dir_lighter: "process_unscanned_dir E p q s g rc rf r = (v, r') \<Longrightarrow> 0 < n \<Longrightarrow> lighter n r r'"
  by (auto simp: process_unscanned_dir_def Let_def task_ok_def intro: lighter_same lighter_push_task split: if_splits)

lemma hash_or_update_lighter:
  assumes "hash_or_update E ci bs r = Some r'"
  shows "lighter 2 r r'"
proof (cases "ci_size ci \<noteq> 0 \<and> bs = []")
  case True
  then show ?thesis using assms by (auto simp: hash_or_update_def weight_def walkable_def intro!: lighter_new_hash)
next
  case False
  then obtain f where "on_diffs (push_update E (fx_folder (fst r)) f) r = Some r'"
    using assms by (auto simp: hash_or_update_def split: Option.bind_splits)
  then show ?thesis by (intro lighter_on_diffs [OF push_update_same]) auto
qed

lemma child_ready_lighter: "process_child_ready E ci bs r = Some (v, r') \<Longrightarrow> lighter 2 r r'"
  by (auto simp: process_child_ready_def Let_def intro: lighter_same hash_or_update_lighter lighter_on_diffs [OF push_available_same]
      split: option.splits if_splits bool.splits)

lemma lighter_two:
  assumes "walkable (kx_tree (snd r)) it" and "walkable (kx_tree (snd r)) it'"
    and "weight (kx_tree (snd r)) it + weight (kx_tree (snd r)) it' < n"
  shows "lighter n r (push_item it (push_item it' r))"
  using assms by (auto simp: lighter_def stack_ok_def load_def push_item_def kept_def)

lemma unexamined_lighter:
  assumes "process_unexamined E ci rc rcc rf r = Some (v, r')"
  shows "lighter 4 r r'"
proof -
  have w: "walkable t (Child_ready ci bs)" "weight t (Child_ready ci bs) = 2" "walkable t (Unscanned_dir a b c d e f)"
      "weight t (Unscanned_dir a b c d e f) = 1" "walkable t (Hash_new_file i)" "weight t (Hash_new_file i) = 1" for t bs a b c d e f i
    by (simp_all add: walkable_def weight_def)
  consider "ci_type ci = DIRECTORY" | "ci_type ci \<noteq> DIRECTORY" by blast
  then show ?thesis
  proof cases
    case 1
    then show ?thesis using assms w
      by (auto simp: process_unexamined_def Let_def intro!: lighter_push_item lighter_two intro: lighter_same split: if_splits)
  next
    case 2
    then show ?thesis using assms w
      by (auto simp: process_unexamined_def Let_def intro!: lighter_push_item lighter_new_hash intro: lighter_same
          split: if_splits Option.bind_splits)
  qed
qed

lemma incomplete_lighter:
  assumes "process_incomplete E ci r = Some (v, r')"
  shows "lighter 2 r r'"
proof -
  have "walkable t (Hash_incomplete_file i) \<and> weight t (Hash_incomplete_file i) = 1" for t i by (simp add: walkable_def weight_def)
  then show ?thesis using assms
    by (auto simp: process_incomplete_def Let_def task_ok_def intro!: lighter_push_task lighter_new_hash intro: lighter_same
        split: if_splits Option.bind_splits option.splits)
qed

lemma schedule_hash_count: "schedule_hash pool h = Some (v, Some s, pool', h') \<Longrightarrow> 0 < sg_block_count s"
  by (auto simp: schedule_hash_def Let_def split: if_splits)

lemma process_hash_lighter: "process_hash i r = Some (v, r') \<Longrightarrow> 0 < n \<Longrightarrow> lighter n r r'"
  by (auto simp: process_hash_def Let_def lighter_def stack_ok_def load_def kept_def push_task_def task_ok_def
      dest: schedule_hash_count split: option.splits)

lemma rehashed_lighter: "process_rehashed E ci bs a r = Some (v, r') \<Longrightarrow> 0 < n \<Longrightarrow> lighter n r r'"
  by (auto simp: process_rehashed_def Let_def task_ok_def intro!: lighter_push_task lighter_on_diffs [OF push_leaf_same]
      split: option.splits if_splits)

lemma suspend_scan_lighter:
  assumes "process_suspend_scan ec r = Some (v, r')" and "0 < n"
  shows "lighter n r r'"
proof -
  let ?st = "fx_stack (fst r)"
  let ?keep = "if ?st = [] then [] else [last ?st]"
  obtain r1 where r1: "on_diffs (push_leaf (suspend_folder (fx_folder (fst r)) True (Some ec))) r = Some r1"
      "r' = (fst r1\<lparr>fx_stack := ?keep\<rparr>, snd r1)"
    using assms(1) by (auto simp: process_suspend_scan_def Let_def)
  have k: "kept r r1" "fst r1 = fst r" using on_diffs_kept [OF push_leaf_same r1(1)] by auto
  have le: "sum_list (map (weight t) ?keep) \<le> sum_list (map (weight t) ?st)" for t
    by (cases ?st rule: rev_cases) simp_all
  have "set ?keep \<subseteq> set ?st" by simp
  then have "stack_ok r \<Longrightarrow> stack_ok r'" using k r1(2) by (auto simp: stack_ok_def kept_def simp del: last_in_set)
  moreover have "load r' < load r + n" using k r1(2) assms(2) le [of "kx_tree (snd r)"] by (simp add: load_def kept_def)
  ultimately show ?thesis using k r1(2) by (simp add: lighter_def kept_def)
qed

lemma unsuspend_scan_lighter: "process_unsuspend_scan r = Some (v, r') \<Longrightarrow> 0 < n \<Longrightarrow> lighter n r r'"
  by (auto simp: process_unsuspend_scan_def intro!: lighter_on_diffs [OF push_leaf_same])

lemma undo_ready_sub: "set (undo_ready p its) \<subseteq> set its \<and> sum_list (map (weight t) (undo_ready p its)) \<le> sum_list (map (weight t) its)"
  by (induction its) (auto split: stack_item.split)

lemma undo_lighter: "process_undo p r = (v, r') \<Longrightarrow> 0 < n \<Longrightarrow> lighter n r r'"
  using undo_ready_sub [of p "fx_stack (fst r)" "kx_tree (snd r)"]
  by (fastforce simp: process_undo_def lighter_def stack_ok_def load_def kept_def)

lemma abort_lighter: "process_abort_hashing r = Some (v, r') \<Longrightarrow> 0 < n \<Longrightarrow> lighter n r r'"
  by (auto simp: process_abort_hashing_def intro: lighter_same split: if_splits)

lemma removed_dir_lighter:
  assumes "process_removed_dir E p r = Some (Some (v, r'))" and "0 < n"
  shows "lighter n r r'"
proof -
  obtain ps where "on_diffs (each_diff (push_deleted E (fx_folder (fst r))) ps) r = Some r'"
    using assms(1) by (auto simp: process_removed_dir_def)
  then show ?thesis using assms(2) by (intro lighter_on_diffs [OF each_diff_same [OF push_deleted_same]]) auto
qed

lemma confirmed_deleted_lighter:
  assumes "process_confirmed_deleted p r = Some (v, r')" and "walk (kx_tree (snd r)) p s"
  shows "lighter (Suc (walk_size (kx_tree (snd r)) p)) r r'"
proof -
  let ?t = "kx_tree (snd r)"
  let ?local = "filter (\<lambda>c. has_feature ?t c fe_local) (get_children ?t p)"
  let ?dirs = "filter (\<lambda>c. has_feature ?t c fe_directory) ?local"
  obtain ps r1 where r1: "on_diffs (each_diff (\<lambda>q. push_available (fx_folder (fst r)) (prs_file (tr_presences ?t q))) ps) r = Some r1"
      "r' = (fst r1\<lparr>fx_stack := map Confirmed_deleted ?dirs @ fx_stack (fst r1)\<rparr>, snd r1)"
    using assms(1) by (auto simp: process_confirmed_deleted_def Let_def)
  have k: "kept r r1" "fst r1 = fst r" using on_diffs_kept [OF each_diff_same [OF push_available_same] r1(1)] by auto
  obtain ts where s: "s = PNode p ts" using assms(2) by (cases s) (auto simp: walk_def)
  then have ts: "?local = map root ts" "\<forall>u \<in> set ts. represents ?t u" using assms(2) by (auto simp: walk_def)
  have walks: "\<forall>c \<in> set ?local. \<exists>u. walk ?t c u" unfolding ts(1) using ts(2) by (auto simp: walk_def)
  have "sum_list (map (\<lambda>c. Suc (walk_size ?t c)) ?dirs) \<le> sum_list (map (\<lambda>c. Suc (walk_size ?t c)) ?local)"
    by (rule sum_list_filter_le_nat)
  also have "\<dots> = sum_list (map (\<lambda>u. Suc (size u)) ts)"
    unfolding ts(1) map_map comp_def using ts(2) by (intro arg_cong [of _ _ sum_list] map_cong) (auto simp: walk_def intro!: walk_size)
  also have "\<dots> < Suc (size s)" unfolding s by (simp add: size_list_conv_sum_list sum_list_Suc)
  finally have "sum_list (map (weight ?t) (map Confirmed_deleted ?dirs)) < Suc (walk_size ?t p)"
    using walk_size [OF assms(2)] by (simp add: weight_def comp_def)
  moreover have "\<forall>it \<in> set (map Confirmed_deleted ?dirs). walkable ?t it" using walks by (auto simp: walkable_def)
  ultimately show ?thesis using k r1(2) by (auto simp: lighter_def stack_ok_def load_def kept_def)
qed

lemma process_item_lighter:
  assumes "process_item E it r = Some (Some (v, r'))" and "walkable (kx_tree (snd r)) it"
  shows "lighter (weight (kx_tree (snd r)) it) r r'"
  using assms
  by (cases it) (auto simp: weight_def walkable_def intro: complete_scan_lighter unscanned_dir_lighter child_ready_lighter unexamined_lighter
      incomplete_lighter process_hash_lighter rehashed_lighter suspend_scan_lighter unsuspend_scan_lighter undo_lighter abort_lighter
      removed_dir_lighter confirmed_deleted_lighter)


lemma process_item_ends: "walkable (kx_tree (snd r)) it \<Longrightarrow> process_item E it r \<noteq> None"
proof (cases it)
  case (Removed_dir p)
  assume "walkable (kx_tree (snd r)) it"
  then obtain s where "represents (kx_tree (snd r)) s" "root s = p" using Removed_dir by (auto simp: walkable_def walk_def)
  then have "removed_order (kx_tree (snd r)) [p] {} \<noteq> None" using removed_order_forest [of "[s]" "kx_tree (snd r)" "{}" "[]"]
    by (simp add: removed_order.simps [of _ "[]"])
  then show ?thesis using Removed_dir by (auto simp: process_removed_dir_def)
qed auto

lemma kept_push_back: "kept (fst r\<lparr>fx_stack := its\<rparr>, snd r) r' \<Longrightarrow> kept r r'"
  by (simp add: kept_def)

text \<open>One round of the loop.\<close>

lemma process_stack_step:
  assumes "fx_stack (fst r) = it # its" and "stack_ok r"
  obtains (fault) "process_stack E r = Some None"
  | (stop) io r' where "process_stack E r = Some (Some (io, r'))" "kept r r'" "stack_ok r'"
  | (further) r' where "process_stack E r = process_stack E r'" "kept r r'" "stack_ok r'" "load r' < load r"
proof -
  let ?r = "(fst r\<lparr>fx_stack := its\<rparr>, snd r)"
  have w: "walkable (kx_tree (snd ?r)) it" "stack_ok ?r" "load r = load ?r + weight (kx_tree (snd r)) it"
    using assms by (auto simp: stack_ok_def load_def)
  obtain o' where o': "process_item E it ?r = Some o'" using process_item_ends [OF w(1)] by blast
  show thesis
  proof (cases o')
    case None
    have "process_stack E r = Some None" using o' None assms(1) by (subst process_stack.simps) simp
    then show ?thesis by (rule fault)
  next
    case (Some vr)
    obtain v r' where vr: "vr = (v, r')" by (cases vr)
    have "lighter (weight (kx_tree (snd ?r)) it) ?r r'" by (rule process_item_lighter [OF _ w(1)]) (use o' Some vr in simp)
    then have r': "kept r r'" "stack_ok r'" "load r' < load r" using w by (auto simp: lighter_def intro: kept_push_back)
    have again: "kept r (push_item it r')" "stack_ok (push_item it r')"
      using r'(1,2) w(1) by (auto simp: kept_def stack_ok_def push_item_def)
    have noop: "kept r (push_task Noop r')" "stack_ok (push_task Noop r')"
      using r'(1,2) by (auto simp: kept_def stack_ok_def push_task_def task_ok_def)
    have body: "process_stack E r =
      (let r' = (if v < 0 then push_item it r' else r')
       in if v \<le> 0 then Some (Some (fx_pending_io (fst r') \<noteq> [], r'))
          else if is_overused (kx_diffs (snd r')) \<and> fx_stack (fst r') \<noteq> [] \<and> has_no_tasks (fst r')
          then Some (Some (True, push_task Noop r')) else process_stack E r')"
      using o' Some vr assms(1) by (subst process_stack.simps) simp
    consider "v < 0" | "v = 0" | "v > 0" "is_overused (kx_diffs (snd r')) \<and> fx_stack (fst r') \<noteq> [] \<and> has_no_tasks (fst r')"
      | "v > 0" "\<not> (is_overused (kx_diffs (snd r')) \<and> fx_stack (fst r') \<noteq> [] \<and> has_no_tasks (fst r'))" by linarith
    then show ?thesis
    proof cases
      case 1
      then show ?thesis using body again by (intro stop) (simp_all add: Let_def)
    next
      case 2
      then show ?thesis using body r' by (intro stop) (simp_all add: Let_def)
    next
      case 3
      then show ?thesis using body noop by (intro stop) (simp_all add: Let_def)
    next
      case 4
      then show ?thesis using body r' by (intro further) (auto simp: Let_def)
    qed
  qed
qed

lemma process_stack_result:
  assumes "stack_ok r"
  shows "process_stack E r = Some None \<or> (\<exists>io r'. process_stack E r = Some (Some (io, r')) \<and> kept r r' \<and> stack_ok r')"
  using assms
proof (induction "load r" arbitrary: r rule: less_induct)
  case less
  show ?case
  proof (cases "fx_stack (fst r)")
    case Nil
    then show ?thesis using less.prems by (subst (1 2) process_stack.simps) simp
  next
    case (Cons it its)
    from Cons less.prems show ?thesis
    proof (cases rule: process_stack_step [where E = E])
      case (further r')
      then show ?thesis using less.hyps [OF further(4,3)] kept_trans [OF further(2)] unfolding further(1) by blast
    qed auto
  qed
qed

text \<open>
  C8: The processing of a stack always ends, whatever it holds, as long as finitely many local presences are below the directories that have
  been removed; it leaves the counters of tasks and blocks as they were.
\<close>

theorem scan_stack_ends:
  assumes "\<forall>it \<in> set (fx_stack (fst r)). walkable (kx_tree (snd r)) it"
  shows "\<exists>res. process_stack E r = Some res \<and>
    (\<forall>io r'. res = Some (io, r') \<longrightarrow> fx_hashing (fst r') = fx_hashing (fst r) \<and> fx_in_progress (fst r') = fx_in_progress (fst r))"
  using process_stack_result [of r E] assms by (auto simp: stack_ok_def kept_def)


subsection \<open>Everything keeps the counters but tasks and digests that come back\<close>

lemma lighter_kept: "lighter n r r' \<Longrightarrow> kept r r'" by (simp add: lighter_def)

lemma on_each_kept:
  assumes "on_diffs (each_diff f ps) r = Some r'" and "\<And>p x y. f p x = Some y \<Longrightarrow> same_context x y"
  shows "kept r r'"
proof -
  have "same_context x y" if "each_diff f ps x = Some y" for x y
    by (rule each_diff_same [OF _ that]) (rule assms(2))
  from on_diffs_kept [OF this assms(1)] show ?thesis by blast
qed

lemma confirmed_deleted_kept:
  assumes "process_confirmed_deleted p r = Some (v, r')"
  shows "kept r r'"
proof -
  let ?f = "\<lambda>q. push_available (fx_folder (fst r)) (prs_file (tr_presences (kx_tree (snd r)) q))"
  obtain ps r1 dirs where r1: "on_diffs (each_diff ?f ps) r = Some r1" "r' = (fst r1\<lparr>fx_stack := dirs\<rparr>, snd r1)"
    using assms by (auto simp: process_confirmed_deleted_def Let_def)
  have "kept r r1" by (rule on_each_kept [OF r1(1)]) (rule push_available_same)
  then show ?thesis using r1(2) by (simp add: kept_def)
qed

lemma process_item_kept:
  assumes "process_item E it r = Some (Some (v, r'))"
  shows "kept r r'"
proof (cases "\<exists>p. it = Confirmed_deleted p \<or> it = Removed_dir p")
  case True
  then show ?thesis using assms
    by (auto intro: confirmed_deleted_kept removed_dir_lighter [THEN lighter_kept, OF _ zero_less_one])
next
  case False
  then have "walkable (kx_tree (snd r)) it" by (auto simp: walkable_def split: stack_item.split)
  then show ?thesis by (rule process_item_lighter [OF assms, THEN lighter_kept])
qed

lemma process_stack_kept:
  assumes "process_stack E r = Some res"
  shows "\<forall>io r'. res = Some (io, r') \<longrightarrow> kept r r'"
  using assms
proof (induction rule: process_stack.raw_induct [rotated 1, consumes 1, case_names step])
  case (step f E r res)
  show ?case
  proof (intro allI impI)
    fix io r' assume res: "res = Some (io, r')"
    show "kept r r'"
    proof (cases "fx_stack (fst r)")
      case Nil
      then show ?thesis using step.hyps res by simp
    next
      case (Cons it its)
      let ?r = "(fst r\<lparr>fx_stack := its\<rparr>, snd r)"
      obtain v r1 where r1: "process_item E it ?r = Some (Some (v, r1))"
        using step.hyps res Cons by (auto split: option.splits)
      have k: "kept r r1" by (rule kept_push_back [OF process_item_kept [OF r1]])
      let ?r1 = "if v < 0 then push_item it r1 else r1"
      have k1: "kept r ?r1" using k kept_trans [OF k push_item_kept] by (cases "v < 0") simp_all
      consider "r' = ?r1" | "r' = push_task Noop ?r1" | "f E ?r1 = Some (Some (io, r'))"
        using step.hyps res Cons r1 by (auto simp: Let_def split: if_splits)
      then show ?thesis
      proof cases
        case 1
        then show ?thesis using k1 by simp
      next
        case 2
        have "kept ?r1 (push_task Noop ?r1)" by (rule push_task_kept) (simp add: task_ok_def)
        then show ?thesis using 2 kept_trans [OF k1] by simp
      next
        case 3
        have "kept ?r1 r'" using step.IH [OF 3] by blast
        then show ?thesis by (rule kept_trans [OF k1])
      qed
    qed
  qed
qed

lemma handle_scan_error_kept:
  assumes "handle_scan_error path p r = Some (Some r')"
  shows "kept r r'"
proof -
  obtain ps r1 where r1: "on_diffs (each_diff (push_unreachable (fx_folder (fst r))) ps) r = Some r1" "r' = push_item (Undo_child_ready path) r1"
    using assms by (auto simp: handle_scan_error_def)
  have "kept r r1" by (rule on_each_kept [OF r1(1)]) (rule push_unreachable_same)
  then show ?thesis using kept_trans [OF _ push_item_kept] r1(2) by blast
qed

lemma scanned_known_kept:
  assumes "scanned_known E d single_child names r = Some (Some r')"
  shows "kept r r'"
proof -
  obtain ps bs r1 r2 its where r: "on_diffs (each_diff (push_deleted E (fx_folder (fst r))) ps) r = Some r1"
      "on_diffs (each_diff (push_remote_deleted E (fx_folder (fst r))) bs) r1 = Some r2" "r' = (fst r2\<lparr>fx_stack := its\<rparr>, snd r2)"
    using assms by (auto simp: scanned_known_def Let_def split: option.splits Option.bind_splits)
  have "kept r r1" by (rule on_each_kept [OF r(1)]) (rule push_deleted_same)
  moreover have "kept r1 r2" by (rule on_each_kept [OF r(2)]) (rule push_remote_deleted_same)
  ultimately have "kept r r2" by (rule kept_trans)
  then show ?thesis using r(3) by (simp add: kept_def)
qed

lemma scanned_children_kept:
  assumes "scanned_children E p single_child recurse refine infos r = Some (Some r')"
  shows "kept r r'"
proof -
  obtain its its' names c' x' where r': "r' = (c'\<lparr>fx_stack := its'\<rparr>, x')" and
    "(case p of None \<Rightarrow> Some (Some (fst r\<lparr>fx_stack := its\<rparr>, snd r))
      | Some d \<Rightarrow> scanned_known E d single_child names (fst r\<lparr>fx_stack := its\<rparr>, snd r)) = Some (Some (c', x'))"
    using assms by (auto simp: scanned_children_def Let_def split: option.splits)
  then have "kept (fst r\<lparr>fx_stack := its\<rparr>, snd r) (c', x')" by (auto dest: scanned_known_kept split: option.splits)
  then show ?thesis using r' by (simp add: kept_def)
qed

lemma post_scan_dir_kept:
  assumes "post_scan_dir E path p single_child recurse refine ec infos r = Some (Some r')"
  shows "kept r r'"
proof -
  obtain c where c: "kept r (c, snd r)" and
    "(\<exists>it. r' = push_item it (c, snd r)) \<or> handle_scan_error path p (c, snd r) = Some (Some r') \<or>
     (\<exists>q a b. r' = push_task (Scan_dir q a b False False False) (c, snd r)) \<or>
     scanned_children E p single_child recurse refine infos (c, snd r) = Some (Some r') \<or>
     scanned_children E p single_child recurse refine infos (push_item Unsuspend_scan (c, snd r)) = Some (Some r')"
  proof -
    let ?c = "fst r\<lparr>fx_io_generation := Suc (fx_io_generation (fst r)),
      fx_scan_generation := (fx_scan_generation (fst r))(path \<mapsto> Suc (fx_io_generation (fst r)))\<rparr>"
    have "kept r (?c, snd r)" by (simp add: kept_def)
    then show thesis using assms
      by (intro that [of ?c]) (auto simp: post_scan_dir_def Let_def split: option.splits if_splits)
  qed
  then consider (item) it where "r' = push_item it (c, snd r)" | (failed) "handle_scan_error path p (c, snd r) = Some (Some r')"
    | (parent) q a b where "r' = push_task (Scan_dir q a b False False False) (c, snd r)"
    | (children) r1 where "kept (c, snd r) r1" "scanned_children E p single_child recurse refine infos r1 = Some (Some r')"
    by (elim disjE exE) (blast, blast, blast, rule children [OF kept_refl], assumption, rule children [OF push_item_kept], assumption)
  then have "kept (c, snd r) r'"
  proof cases
    case item
    then show ?thesis by simp
  next
    case failed
    then show ?thesis by (rule handle_scan_error_kept)
  next
    case parent
    then show ?thesis by (simp add: task_ok_def)
  next
    case (children r1)
    then show ?thesis using kept_trans scanned_children_kept by blast
  qed
  then show ?thesis by (rule kept_trans [OF c])
qed


subsection \<open>The run of a scan\<close>

text \<open>The task that came back, and the blocks of it that the hashers have got.\<close>

fun came_back :: "io_task \<Rightarrow> done_task \<Rightarrow> bool" where
  "came_back (Scan_dir p q s n rc rf) (Scanned_dir p' q' s' rc' rf' _ _) \<longleftrightarrow> p = p' \<and> q = q' \<and> s = s' \<and> rc = rc' \<and> rf = rf'"
| "came_back (Segment_iterator s i) (Segment_done s' i' _ _) \<longleftrightarrow> s = s' \<and> i = i'"
| "came_back (Remove_file p) (Removed_file p' _) \<longleftrightarrow> p = p'"
| "came_back (Rename_file p n _ ci a) (Renamed_file p' n' ci' a' _) \<longleftrightarrow> p = p' \<and> n = n' \<and> ci = ci' \<and> a = a'"
| "came_back Noop Noop_done \<longleftrightarrow> True"
| "came_back _ _ \<longleftrightarrow> False"

fun blocks_of :: "io_task \<Rightarrow> nat" where
  "blocks_of (Segment_iterator s i) = nat (sg_block_count s)"
| "blocks_of _ = 0"

fun ordered_digests :: "done_task \<Rightarrow> nat list" where
  "ordered_digests (Segment_done s i None tried) = replicate (nat (sg_block_count s)) i"
| "ordered_digests _ = []"

text \<open>
  The context with the tasks at the file system and the blocks at the hashers. The rest of the program may change everything that
  the context does not hold.
\<close>

type_synonym scan_state = "scan_run \<times> io_task list \<times> nat list"

inductive scan_step :: "scan_env \<Rightarrow> scan_state \<Rightarrow> scan_state \<Rightarrow> bool" for E where
  stack: "process_stack E r = Some (Some (io, r')) \<Longrightarrow> scan_step E (r, ts, ds) (r', ts, ds)"
| order: "pop_task c = Some (t, c') \<Longrightarrow> scan_step E ((c, x), ts, ds) ((c', x), t # ts, ds)"
| result: "came_back t d \<Longrightarrow> post_process E [d] r = Some (Some r') \<Longrightarrow>
    scan_step E (r, ts @ t # ts', ds) (r', ts @ ts', ds @ ordered_digests d)"
| digest: "post_digest i index n dg r = Some r' \<Longrightarrow> scan_step E (r, ts, ds @ i # ds') (r', ts, ds @ ds')"
| others: "scan_step E ((c, x), ts, ds) ((c, x'), ts, ds)"

inductive scan_reachable :: "scan_env \<Rightarrow> scan_context \<Rightarrow> string \<Rightarrow> stack_item list \<Rightarrow> scan_state \<Rightarrow> bool" for E x0 fid items where
  start: "scan_reachable E x0 fid items ((make_items_context E x0 fid items, x0), [], [])"
| step: "scan_reachable E x0 fid items s \<Longrightarrow> scan_step E s s' \<Longrightarrow> scan_reachable E x0 fid items s'"

definition counted :: "scan_state \<Rightarrow> bool" where
  "counted s = (case s of (r, ts, ds) \<Rightarrow>
     int (length ts) \<le> fx_in_progress (fst r) \<and>
     int (sum_list (map blocks_of ts) + length ds) \<le> fx_hashing (fst r) \<and>
     list_all task_ok (fx_pending_io (fst r)) \<and> list_all task_ok ts)"

lemma counted_kept: "counted (r, ts, ds) \<Longrightarrow> kept r r' \<Longrightarrow> counted (r', ts, ds)"
  by (auto simp: counted_def kept_def)

lemma counted_order: "counted ((c, x), ts, ds) \<Longrightarrow> pop_task c = Some (t, c') \<Longrightarrow> counted ((c', x), t # ts, ds)"
  by (auto simp: counted_def pop_task_def Let_def task_ok_def split: list.splits io_task.splits)

lemma counted_digest:
  assumes "counted (r, ts, ds @ i # ds')" and "post_digest i index n dg r = Some r'"
  shows "counted (r', ts, ds @ ds')"
proof (cases "folders_by_id (fx_folder (fst r)) (kx_cluster (snd r)) = None")
  case True
  then show ?thesis using assms by (auto simp: post_digest_def ensure_folder_existance_def counted_def)
next
  case False
  then obtain files o' h where "r' = (case o' of None \<Rightarrow>
       (fst r\<lparr>fx_hashing := fx_hashing (fst r) - 1, fx_hashing_files := files, fx_hashes := h\<rparr>, snd r\<lparr>kx_hashes_pool := kx_hashes_pool (snd r) + 1\<rparr>)
     | Some o' \<Rightarrow> push_item (item_of_outcome o')
       (fst r\<lparr>fx_hashing := fx_hashing (fst r) - 1, fx_hashing_files := files, fx_hashes := h\<rparr>, snd r\<lparr>kx_hashes_pool := kx_hashes_pool (snd r) + 1\<rparr>))"
    using assms(2) by (auto simp: post_digest_def ensure_folder_existance_def Let_def split: if_splits Option.bind_splits)
  then show ?thesis using assms(1) by (cases o') (auto simp: counted_def push_item_def)
qed

lemma post_segment_counted:
  assumes "post_segment s i ec tried r = Some r'"
  shows "fx_in_progress (fst r') = fx_in_progress (fst r)"
    "fx_hashing (fst r') = fx_hashing (fst r) - (if ec = None then 0 else sg_block_count s)"
    "list_all task_ok (fx_pending_io (fst r)) \<Longrightarrow> list_all task_ok (fx_pending_io (fst r'))"
  using assms
  by (auto simp: post_segment_def Let_def on_diffs_def push_task_def task_ok_def split: if_splits Option.bind_splits option.splits prod.splits)

lemma post_rename_kept: "post_rename E path ci action ec r = Some r' \<Longrightarrow> kept r r'"
  by (auto simp: post_rename_def Let_def task_ok_def kept_def on_diffs_def push_task_def same_context_def
      dest!: push_diffs_same split: if_splits option.splits Option.bind_splits)

lemma ordered_digests_segment:
  "ordered_digests (Segment_done s i ec tried) = (if ec = None then replicate (nat (sg_block_count s)) i else [])"
  by (cases ec) simp_all

lemma counted_task:
  assumes "counted (r, ts @ t # ts', ds)" and "came_back t d"
    and "post_task E d (fst r\<lparr>fx_in_progress := fx_in_progress (fst r) - 1\<rparr>, snd r) = Some (Some r')"
  shows "counted (r', ts @ ts', ds @ ordered_digests d)"
proof (cases d)
  case (Segment_done s i ec tried)
  then have t: "t = Segment_iterator s i" using assms(2) by (cases t) auto
  then have pos: "0 < sg_block_count s" using assms(1) by (simp add: counted_def task_ok_def)
  have "post_segment s i ec tried (fst r\<lparr>fx_in_progress := fx_in_progress (fst r) - 1\<rparr>, snd r) = Some r'" using assms(3) Segment_done by simp
  from post_segment_counted [OF this] show ?thesis
    using assms(1) t pos Segment_done by (auto simp: counted_def ordered_digests_segment split: if_splits)
next
  case (Scanned_dir p q s rc rf ec infos)
  then have "kept (fst r\<lparr>fx_in_progress := fx_in_progress (fst r) - 1\<rparr>, snd r) r'" using assms(3) post_scan_dir_kept by simp
  then show ?thesis using assms(1) Scanned_dir by (auto simp: counted_def kept_def)
next
  case (Renamed_file p n ci a ec)
  then have "kept (fst r\<lparr>fx_in_progress := fx_in_progress (fst r) - 1\<rparr>, snd r) r'" using assms(3) post_rename_kept by simp
  then show ?thesis using assms(1) Renamed_file by (auto simp: counted_def kept_def)
qed (use assms in \<open>auto simp: counted_def\<close>)

lemma counted_result:
  assumes "counted (r, ts @ t # ts', ds)" and "came_back t d" and "post_process E [d] r = Some (Some r')"
  shows "counted (r', ts @ ts', ds @ ordered_digests d)"
proof (cases "folders_by_id (fx_folder (fst r)) (kx_cluster (snd r)) = None")
  case True
  then have "r' = (fst r\<lparr>fx_stack := [], fx_pending_io := []\<rparr>, snd r)"
    using assms(3) by (simp add: post_process_def ensure_folder_existance_def)
  moreover have "length (ordered_digests d) \<le> blocks_of t"
    using assms(2) by (cases t; cases d) (auto simp: ordered_digests_segment)
  ultimately show ?thesis using assms(1) by (auto simp: counted_def)
next
  case False
  then have "post_task E d (fst r\<lparr>fx_in_progress := fx_in_progress (fst r) - 1\<rparr>, snd r) = Some (Some r')"
    using assms(3) by (auto simp: post_process_def ensure_folder_existance_def split: if_splits option.splits)
  then show ?thesis by (rule counted_task [OF assms(1,2)])
qed

lemma scan_step_counted: "scan_step E s s' \<Longrightarrow> counted s \<Longrightarrow> counted s'"
proof (induction rule: scan_step.induct)
  case (stack r io r' ts ds)
  then show ?case using counted_kept process_stack_kept by blast
next
  case (others c x ts ds x')
  then show ?case by (simp add: counted_def)
qed (auto intro: counted_order counted_result counted_digest)

lemma scan_reachable_counted: "scan_reachable E x0 fid items s \<Longrightarrow> counted s"
proof (induction rule: scan_reachable.induct)
  case start
  then show ?case by (simp add: counted_def make_items_context_def new_folder_context_def)
qed (rule scan_step_counted)




theorem scan_stack_ends_witness:
  "\<forall>E c x. \<exists>res. process_stack E (c\<lparr>fx_stack := [Removed_dir 1, Confirmed_deleted 1, Complete_scan False]\<rparr>, x\<lparr>kx_tree := sample_dir_tree\<rparr>) = Some res"
proof (intro allI)
  fix E c x
  have "walk sample_dir_tree 1 (PNode 1 [PNode 2 []])" using sample_dir_represents by (simp only: walk_def ptree.sel simp_thms)
  then have "walkable sample_dir_tree (Removed_dir 1)" "walkable sample_dir_tree (Confirmed_deleted 1)"
    unfolding walkable_def by auto
  then show "\<exists>res. process_stack E (c\<lparr>fx_stack := [Removed_dir 1, Confirmed_deleted 1, Complete_scan False]\<rparr>,
      x\<lparr>kx_tree := sample_dir_tree\<rparr>) = Some res"
    using scan_stack_ends [of "(c\<lparr>fx_stack := [Removed_dir 1, Confirmed_deleted 1, Complete_scan False]\<rparr>, x\<lparr>kx_tree := sample_dir_tree\<rparr>)" E]
    by (auto simp: walkable_def)
qed

end
