(* ===== verification/Database.thy ===== *)
theory Database
  imports Changes Bep "HOL-Library.List_Lexorder" "HOL-Library.AList" "HOL-Library.Monad_Syntax"
begin

text \<open>
  The database (\<^verbatim>\<open>src/db/\<close>): records under keys whose first byte tells their kind, kept by the MDBX library, the walk over
  the records of one kind, and the migration of older formats. The library and the protobuf coders are arguments.
  What is used of the library is its documented behaviour: ordered keys, transactions with a view of their own, and cursors.
\<close>

subsection \<open>The library\<close>

text \<open>
  The state is that of the environment with the transaction that is open. A cursor is given by the key it stands at; the next
  record is the one with the least key behind it.
\<close>

record 's mdbx =
  mx_begin :: "bool \<Rightarrow> 's \<Rightarrow> (int, 's) result"
  mx_commit :: "'s \<Rightarrow> (int, 's) result"
  mx_get :: "bytes \<Rightarrow> 's \<Rightarrow> (int, bytes) result"
  mx_put :: "bytes \<Rightarrow> bytes \<Rightarrow> 's \<Rightarrow> (int, 's) result"
  mx_del :: "bytes \<Rightarrow> 's \<Rightarrow> (int, 's) result"
  mx_cursor_open :: "'s \<Rightarrow> int option"
  mx_set :: "bytes \<Rightarrow> 's \<Rightarrow> bool"
  mx_next :: "bytes \<Rightarrow> 's \<Rightarrow> (bytes \<times> bytes) option"
  mx_notfound :: int

text \<open>The coders of the records that are written here; \<open>cx_decode_block_ex\<close> reads the older format of blocks.\<close>

record db_codec =
  cx_encode_device :: "db_device \<Rightarrow> bytes"
  cx_encode_folder :: "db_folder \<Rightarrow> bytes"
  cx_encode_folder_info :: "db_folder_info \<Rightarrow> bytes"
  cx_decode_folder_info :: "bytes \<Rightarrow> db_folder_info option"
  cx_encode_file :: "db_file \<Rightarrow> bytes"
  cx_decode_file :: "bytes \<Rightarrow> db_file option"
  cx_encode_block :: "int \<Rightarrow> bytes"
  cx_decode_block :: "bytes \<Rightarrow> int option"
  cx_decode_block_ex :: "bytes \<Rightarrow> int option"
  cx_encode_some_device :: "db_some_device \<Rightarrow> bytes"
  cx_encode_pending_folder :: "db_pending_folder \<Rightarrow> bytes"
  cx_decode_pending_folder :: "bytes \<Rightarrow> db_pending_folder option"

datatype db_error = mdbx_failure int | db_version_size_mismatch | cannot_downgrade_db | folder_info_deserialization_failure | broken

definition on_success :: "('e, 'a) result \<Rightarrow> ('a \<Rightarrow> ('e, 'b) result) \<Rightarrow> ('e, 'b) result" where
  "on_success r f = (case r of Inl e \<Rightarrow> Inl e | Inr x \<Rightarrow> f x)"

definition mdbx_result :: "(int, 'a) result \<Rightarrow> (db_error, 'a) result" where
  "mdbx_result r = (case r of Inl e \<Rightarrow> Inl (mdbx_failure e) | Inr x \<Rightarrow> Inr x)"

text \<open>What is relied on: the records a transaction sees, and those that are committed.\<close>

definition lawful :: "'s mdbx \<Rightarrow> ('s \<Rightarrow> bytes \<rightharpoonup> bytes) \<Rightarrow> ('s \<Rightarrow> bytes \<rightharpoonup> bytes) \<Rightarrow> bool" where
  "lawful M view committed \<longleftrightarrow>
     (\<forall>s. finite (dom (view s))) \<and>
     (\<forall>rw s s'. mx_begin M rw s = Inr s' \<longrightarrow> view s' = committed s \<and> committed s' = committed s) \<and>
     (\<forall>s s'. mx_commit M s = Inr s' \<longrightarrow> committed s' = view s) \<and>
     (\<forall>k s. case mx_get M k s of Inl r \<Rightarrow> r = mx_notfound M \<longrightarrow> view s k = None | Inr v \<Rightarrow> view s k = Some v) \<and>
     (\<forall>k v s s'. mx_put M k v s = Inr s' \<longrightarrow> view s' = (view s)(k \<mapsto> v) \<and> committed s' = committed s) \<and>
     (\<forall>k s s'. mx_del M k s = Inr s' \<longrightarrow> view s' = (view s)(k := None) \<and> committed s' = committed s) \<and>
     (\<forall>k s. mx_set M k s \<longleftrightarrow> view s k \<noteq> None) \<and>
     (\<forall>k s. mx_next M k s = (if \<exists>k' \<in> dom (view s). k < k'
        then Some (let k' = Min {k' \<in> dom (view s). k < k'} in (k', the (view s k'))) else None))"

subsection \<open>Records\<close>

definition misc_prefix :: u8 where "misc_prefix = 0x01"

definition version_key :: bytes where "version_key = misc_prefix # str_bytes ''db_version''"

definition db_version :: nat where "db_version = 3"

definition save :: "'s mdbx \<Rightarrow> bytes \<times> bytes \<Rightarrow> 's \<Rightarrow> (db_error, 's) result" where
  "save M pair s = (case pair of (k, v) \<Rightarrow> mdbx_result (mx_put M k v s))"

definition remove_record :: "'s mdbx \<Rightarrow> bytes \<Rightarrow> 's \<Rightarrow> (db_error, 's) result" where
  "remove_record M k s = mdbx_result (mx_del M k s)"

fun save_each :: "'s mdbx \<Rightarrow> (bytes \<times> bytes) list \<Rightarrow> 's \<Rightarrow> (db_error, 's) result" where
  "save_each M [] s = Inr s"
| "save_each M (p # ps) s = on_success (save M p s) (save_each M ps)"

text \<open>The records behind a key until one of a greater kind comes. A cursor that moves forward never meets an empty key.\<close>

definition beyond :: "u8 \<Rightarrow> bytes \<Rightarrow> bool" where
  "beyond prefix k = (case k of [] \<Rightarrow> True | b # _ \<Rightarrow> prefix < b)"

partial_function (option) iterate :: "'s mdbx \<Rightarrow> u8 \<Rightarrow> bytes \<Rightarrow> 's \<Rightarrow> (bytes \<times> bytes) list option" where
  "iterate M prefix k s =
     (case mx_next M k s of
          None \<Rightarrow> Some []
        | Some (k', v) \<Rightarrow> if beyond prefix k' then Some [] else do { rest \<leftarrow> iterate M prefix k' s; Some ((k', v) # rest) })"

declare iterate.simps [code]

text \<open>\<open>None\<close> is a walk that does not end.\<close>

definition load :: "'s mdbx \<Rightarrow> u8 \<Rightarrow> 's \<Rightarrow> (db_error, (bytes \<times> bytes) list) result option" where
  "load M prefix s =
     (case mx_cursor_open M s of
          Some r \<Rightarrow> Some (Inl (mdbx_failure r))
        | None \<Rightarrow> if mx_set M [prefix] s then map_option Inr (iterate M prefix [prefix] s) else Some (Inr []))"

subsection \<open>Migration\<close>

definition get_version :: "'s mdbx \<Rightarrow> 's \<Rightarrow> (db_error, u32) result" where
  "get_version M s =
     (case mx_get M version_key s of
          Inl r \<Rightarrow> if r = mx_notfound M then Inr 0 else Inl (mdbx_failure r)
        | Inr v \<Rightarrow> if length v = 4 then (case read_be32 v of Some w \<Rightarrow> Inr w | None \<Rightarrow> Inl broken) else Inl db_version_size_mismatch)"

definition save_version :: "'s mdbx \<Rightarrow> u32 \<Rightarrow> 's \<Rightarrow> (db_error, 's) result" where
  "save_version M v s = save M (version_key, be32 v) s"

text \<open>A record with only the kind as its key is the anchor from which the walk over the kind starts.\<close>

definition anchors :: "(bytes \<times> bytes) list" where
  "anchors = map (\<lambda>p. ([p], [0])) [device_prefix, folder_prefix, folder_info_prefix, file_key_prefix, ignored_device_prefix,
     ignored_folder_prefix, pending_folder_prefix, block_prefix, pending_device_prefix]"

definition migrate_0 :: "'s mdbx \<Rightarrow> db_codec \<Rightarrow> device \<Rightarrow> 's \<Rightarrow> (db_error, 's) result option" where
  "migrate_0 M C dev s = Some (on_success (save_version M 1 s) (\<lambda>s.
     save_each M (anchors @ [(dv_key dev, cx_encode_device C (device_serialize dev))]) s))"

fun introduce_each :: "'s mdbx \<Rightarrow> db_codec \<Rightarrow> bytes \<Rightarrow> (bytes \<times> bytes) list \<Rightarrow> 's \<Rightarrow> (db_error, 's) result" where
  "introduce_each M C self_key [] s = Inr s"
| "introduce_each M C self_key ((k, v) # ps) s =
     (case cx_decode_folder_info C v of
          None \<Rightarrow> Inl folder_info_deserialization_failure
        | Some db \<Rightarrow> on_success (save M (k, cx_encode_folder_info C (db\<lparr>dfi_introducer_device_key := self_key\<rparr>)) s)
            (introduce_each M C self_key ps))"

definition migrate_1 :: "'s mdbx \<Rightarrow> db_codec \<Rightarrow> device \<Rightarrow> 's \<Rightarrow> (db_error, 's) result option" where
  "migrate_1 M C dev s =
     map_option (\<lambda>r. on_success r (\<lambda>ps. introduce_each M C (did_get_key (dv_id dev)) ps s)) (load M folder_info_prefix s)"

fun shorten_each :: "'s mdbx \<Rightarrow> db_codec \<Rightarrow> (bytes \<times> bytes) list \<Rightarrow> 's \<Rightarrow> (db_error, 's) result" where
  "shorten_each M C [] s = Inr s"
| "shorten_each M C ((k, v) # ps) s =
     (case cx_decode_block_ex C v of
          None \<Rightarrow> shorten_each M C ps s
        | Some n \<Rightarrow> on_success (save M (k, cx_encode_block C n) s) (shorten_each M C ps))"

definition migrate_2 :: "'s mdbx \<Rightarrow> db_codec \<Rightarrow> 's \<Rightarrow> (db_error, 's) result option" where
  "migrate_2 M C s =
     map_option (\<lambda>r. on_success (on_success r (\<lambda>ps. shorten_each M C ps s)) (save_version M (of_nat db_version))) (load M block_prefix s)"

definition do_migrate :: "'s mdbx \<Rightarrow> db_codec \<Rightarrow> nat \<Rightarrow> device \<Rightarrow> 's \<Rightarrow> (db_error, 's) result option" where
  "do_migrate M C from_version dev s =
     (if 3 \<le> from_version then Some (Inl cannot_downgrade_db)
      else if from_version = 0 then migrate_0 M C dev s
      else if from_version = 1 then migrate_1 M C dev s
      else migrate_2 M C s)"

function migrate :: "'s mdbx \<Rightarrow> db_codec \<Rightarrow> nat \<Rightarrow> device \<Rightarrow> 's \<Rightarrow> (db_error, 's) result option" where
  "migrate M C from_version dev s =
     (if from_version = db_version then Some (mdbx_result (mx_commit M s))
      else case do_migrate M C from_version dev s of
          None \<Rightarrow> None
        | Some (Inl e) \<Rightarrow> Some (Inl e)
        | Some (Inr s) \<Rightarrow> migrate M C (Suc from_version) dev s)"
  by pat_completeness auto
termination
  by (relation "measure (\<lambda>(M, C, from_version, dev, s). 3 - from_version)") (auto simp: do_migrate_def split: if_splits)

declare migrate.simps [simp del]


subsection \<open>What the library gives\<close>

lemma lawfulD:
  assumes "lawful M view committed"
  shows "finite (dom (view s))"
    and "mx_begin M rw s = Inr s' \<Longrightarrow> view s' = committed s \<and> committed s' = committed s"
    and "mx_commit M s = Inr s' \<Longrightarrow> committed s' = view s"
    and "mx_get M k s = Inr v \<Longrightarrow> view s k = Some v"
    and "mx_get M k s = Inl (mx_notfound M) \<Longrightarrow> view s k = None"
    and "mx_put M k v s = Inr s' \<Longrightarrow> view s' = (view s)(k \<mapsto> v) \<and> committed s' = committed s"
    and "mx_del M k s = Inr s' \<Longrightarrow> view s' = (view s)(k := None) \<and> committed s' = committed s"
    and "mx_set M k s \<longleftrightarrow> view s k \<noteq> None"
  using assms unfolding lawful_def by (fastforce split: sum.splits)+

lemma next_none:
  assumes "lawful M view committed" and "mx_next M k s = None"
  shows "\<not> (\<exists>k' \<in> dom (view s). k < k')"
  using assms by (auto simp: lawful_def split: if_splits)

lemma next_some:
  assumes "lawful M view committed" and "mx_next M k s = Some (k', v)"
  shows "view s k' = Some v" "k < k'" "\<And>j. j \<in> dom (view s) \<Longrightarrow> k < j \<Longrightarrow> k' \<le> j"
proof -
  let ?D = "{j \<in> dom (view s). k < j}"
  have "mx_next M k s = (if \<exists>j \<in> dom (view s). k < j then Some (Min ?D, the (view s (Min ?D))) else None)"
    using assms(1) by (simp add: lawful_def Let_def)
  then have e: "?D \<noteq> {}" "k' = Min ?D" "v = the (view s k')" using assms(2) by (auto split: if_splits)
  have f: "finite ?D" using lawfulD(1) [OF assms(1)] by simp
  have "k' \<in> ?D" using Min_in [OF f e(1)] e(2) by simp
  then show "view s k' = Some v" "k < k'" using e(3) by auto
  show "k' \<le> j" if "j \<in> dom (view s)" "k < j" for j using f e(2) that by simp
qed

lemma beyond_behind: "[prefix] \<le> k \<Longrightarrow> k < k' \<Longrightarrow> beyond prefix k' \<longleftrightarrow> \<not> (\<exists>b. k' = prefix # b)"
  by (cases k; cases k') (auto simp: beyond_def)

lemma beyond_mono: "beyond prefix k \<Longrightarrow> [prefix] \<le> k \<Longrightarrow> k \<le> k' \<Longrightarrow> beyond prefix k'"
  by (cases k; cases k') (auto simp: beyond_def)

lemma iterate_exact:
  assumes laws: "lawful M view committed" and "[prefix] \<le> k"
  shows "\<exists>kvs. iterate M prefix k s = Some kvs \<and> sorted_wrt (<) (k # map fst kvs) \<and>
    set kvs = {(k', v). view s k' = Some v \<and> k < k' \<and> hd k' = prefix}"
  using assms(2)
proof (induction "card {k' \<in> dom (view s). k < k'}" arbitrary: k rule: less_induct)
  case less
  show ?case
  proof (cases "mx_next M k s")
    case None
    have "\<not> (view s j = Some w \<and> k < j)" for j w using next_none [OF laws None] by auto
    then show ?thesis using None by (subst iterate.simps) auto
  next
    case (Some p)
    obtain k' v where p: "mx_next M k s = Some (k', v)" using Some by (cases p) simp
    note n = next_some [OF laws p]
    have least: "j = k' \<or> k' < j" if "view s j = Some w" "k < j" for j w using n(3) [of j] that by (auto simp: dom_def)
    show ?thesis
    proof (cases "beyond prefix k'")
      case True
      have "[prefix] \<le> k'" using less.prems n(2) by simp
      then have "\<not> (view s j = Some w \<and> k < j \<and> hd j = prefix)" for j w
        using least [of j w] beyond_mono [OF True, of j] beyond_behind [OF less.prems, of j] less.prems n(2)
        by (cases j) (auto simp: beyond_def dest: less_imp_le)
      then show ?thesis using p True by (subst iterate.simps) auto
    next
      case False
      have sub: "{j \<in> dom (view s). k' < j} \<subset> {j \<in> dom (view s). k < j}" using n(1,2) by auto
      have "card {j \<in> dom (view s). k' < j} < card {j \<in> dom (view s). k < j}"
        by (rule psubset_card_mono [OF _ sub]) (use lawfulD(1) [OF laws] in simp)
      then obtain kvs where kvs: "iterate M prefix k' s = Some kvs" "sorted_wrt (<) (k' # map fst kvs)"
          "set kvs = {(j, w). view s j = Some w \<and> k' < j \<and> hd j = prefix}"
        using less.hyps [of k'] less.prems n(2) by fastforce
      have "hd k' = prefix" using beyond_behind [OF less.prems n(2)] False by auto
      then have "set ((k', v) # kvs) = {(j, w). view s j = Some w \<and> k < j \<and> hd j = prefix}"
        using kvs(3) n(1,2) least by auto (metis option.inject)+
      moreover have "iterate M prefix k s = Some ((k', v) # kvs)" using p False kvs(1) by (subst iterate.simps) simp
      moreover have "sorted_wrt (<) (k # map fst ((k', v) # kvs))" using kvs(2) n(2) by auto
      ultimately show ?thesis by blast
    qed
  qed
qed

text \<open>
  With its anchor in place, loading a kind of records ends and gives exactly the records of that kind, each once
  and in the order of the keys, without the anchor. Without the anchor it gives none, and no error.
\<close>

theorem load_exact:
  assumes "lawful M view committed" and "mx_cursor_open M s = None"
  shows "\<exists>kvs. load M prefix s = Some (Inr kvs) \<and> sorted_wrt (<) (map fst kvs) \<and>
    set kvs = (if view s [prefix] = None then {} else {(k, v). view s k = Some v \<and> hd k = prefix \<and> [prefix] < k})"
proof (cases "view s [prefix]")
  case None
  then show ?thesis using assms lawfulD(8) [OF assms(1), of "[prefix]" s] by (simp add: load_def)
next
  case (Some a)
  obtain kvs where "iterate M prefix [prefix] s = Some kvs" "sorted_wrt (<) ([prefix] # map fst kvs)"
      "set kvs = {(k', v). view s k' = Some v \<and> [prefix] < k' \<and> hd k' = prefix}"
    using iterate_exact [OF assms(1), of prefix "[prefix]" s] by auto
  then show ?thesis using Some assms lawfulD(8) [OF assms(1), of "[prefix]" s] by (auto simp: load_def)
qed

subsection \<open>A store in memory\<close>

text \<open>Records of the open transaction, and the committed ones, as association lists.\<close>

type_synonym memory = "(bytes \<times> bytes) list \<times> (bytes \<times> bytes) list"

definition memory_next :: "bytes \<Rightarrow> (bytes \<times> bytes) list \<Rightarrow> (bytes \<times> bytes) option" where
  "memory_next k m = (case filter (\<lambda>k'. k < k') (sort (map fst m)) of [] \<Rightarrow> None | k' # _ \<Rightarrow> Some (k', the (map_of m k')))"

definition memory_mdbx :: "memory mdbx" where
  "memory_mdbx = \<lparr>mx_begin = (\<lambda>_ s. Inr (snd s, snd s)), mx_commit = (\<lambda>s. Inr (fst s, fst s)),
     mx_get = (\<lambda>k s. case map_of (fst s) k of None \<Rightarrow> Inl (- 1) | Some v \<Rightarrow> Inr v),
     mx_put = (\<lambda>k v s. Inr (AList.update k v (fst s), snd s)),
     mx_del = (\<lambda>k s. if map_of (fst s) k = None then Inl (- 1) else Inr (AList.delete k (fst s), snd s)),
     mx_cursor_open = (\<lambda>_. None), mx_set = (\<lambda>k s. map_of (fst s) k \<noteq> None), mx_next = (\<lambda>k s. memory_next k (fst s)),
     mx_notfound = - 1\<rparr>"

lemma memory_next_least:
  "memory_next k m = (if \<exists>k' \<in> dom (map_of m). k < k'
     then Some (let k' = Min {k' \<in> dom (map_of m). k < k'} in (k', the (map_of m k'))) else None)"
proof -
  let ?l = "filter (\<lambda>k'. k < k') (sort (map fst m))"
  have s: "set ?l = {k' \<in> dom (map_of m). k < k'}" "sorted ?l" by (auto simp: dom_map_of_conv_image_fst sorted_wrt_filter)
  show ?thesis
  proof (cases ?l)
    case Nil
    then have "{k' \<in> dom (map_of m). k < k'} = {}" using s(1) by simp
    then show ?thesis using Nil by (auto simp: memory_next_def)
  next
    case (Cons k' l)
    then have "Min (set ?l) = k'" using s(2) by (auto intro!: Min_eqI)
    moreover have "k' \<in> {k' \<in> dom (map_of m). k < k'}" unfolding s(1) [symmetric] using Cons by simp
    ultimately show ?thesis using Cons s(1) by (simp add: memory_next_def) blast
  qed
qed

lemma memory_lawful: "lawful memory_mdbx (\<lambda>s. map_of (fst s)) (\<lambda>s. map_of (snd s))"
proof -
  have "map_of (AList.delete k m) = (map_of m)(k := None)" "map_of (AList.update k v m) = (map_of m)(k \<mapsto> v)" for k v m
    by (simp_all add: update_conv' delete_conv')
  then show ?thesis
    unfolding lawful_def memory_mdbx_def mdbx.simps
    by (intro conjI allI impI) (simp_all add: finite_dom_map_of memory_next_least split: option.splits if_splits, (auto split: if_splits)?)
qed

definition sample_records :: "(bytes \<times> bytes) list" where
  "sample_records = [([0x13, 2], [1]), ([0x12, 7], [5]), ([0x12], [0]), ([0x12, 3], [4])]"

theorem load_exact_witness:
  "load memory_mdbx 0x12 (sample_records, []) = Some (Inr [([0x12, 3], [4]), ([0x12, 7], [5])]) \<and>
   (\<forall>v. map_of sample_records [0x12, 3] = Some v \<longleftrightarrow> v = [4]) \<and> load memory_mdbx 0x14 (sample_records, []) = Some (Inr [])"
proof -
  have l: "load memory_mdbx 0x12 (sample_records, []) = Some (Inr [([0x12, 3], [4]), ([0x12, 7], [5])])"
    "mx_cursor_open memory_mdbx (sample_records, []) = None" "map_of sample_records [0x14] = None" "map_of sample_records [0x12] \<noteq> None" by code_simp+
  have "load memory_mdbx 0x14 (sample_records, []) = Some (Inr [])"
    using load_exact [OF memory_lawful l(2), of "0x14"] l(3) by auto
  moreover have "set [([0x12, 3], [4]), ([0x12, 7], [5])] = {(k, v). map_of sample_records k = Some v \<and> hd k = 0x12 \<and> [0x12] < k}"
    using load_exact [OF memory_lawful l(2), of "0x12"] l(1,4) by auto
  then have "map_of sample_records [0x12, 3] = Some [4]" by auto
  ultimately show ?thesis using l(1) by auto
qed


subsection \<open>The effect of a migration\<close>

definition put_records :: "(bytes \<times> bytes) list \<Rightarrow> (bytes \<rightharpoonup> bytes) \<Rightarrow> (bytes \<rightharpoonup> bytes)" where
  "put_records ps m = fold (\<lambda>(k, v) m. m(k \<mapsto> v)) ps m"

definition in_kind :: "u8 \<Rightarrow> (bytes \<rightharpoonup> bytes) \<Rightarrow> bytes \<Rightarrow> bool" where
  "in_kind prefix m k \<longleftrightarrow> m [prefix] \<noteq> None \<and> hd k = prefix \<and> [prefix] < k"

text \<open>Every folder info gets the local device as its introducer.\<close>

definition introduced :: "db_codec \<Rightarrow> bytes \<Rightarrow> (bytes \<rightharpoonup> bytes) \<Rightarrow> (bytes \<rightharpoonup> bytes)" where
  "introduced C self_key m k = (if in_kind folder_info_prefix m k
     then Option.bind (m k) (\<lambda>v. map_option (\<lambda>db. cx_encode_folder_info C (db\<lparr>dfi_introducer_device_key := self_key\<rparr>)) (cx_decode_folder_info C v))
     else m k)"

text \<open>Every block in the older format keeps only its size.\<close>

definition shortened :: "db_codec \<Rightarrow> (bytes \<rightharpoonup> bytes) \<Rightarrow> (bytes \<rightharpoonup> bytes)" where
  "shortened C m k = (if in_kind block_prefix m k
     then map_option (\<lambda>v. case cx_decode_block_ex C v of None \<Rightarrow> v | Some n \<Rightarrow> cx_encode_block C n) (m k) else m k)"

definition upgraded :: "db_codec \<Rightarrow> nat \<Rightarrow> device \<Rightarrow> (bytes \<rightharpoonup> bytes) \<Rightarrow> (bytes \<rightharpoonup> bytes)" where
  "upgraded C from_version dev m =
     (let m = (if from_version = 0 then put_records (anchors @ [(dv_key dev, cx_encode_device C (device_serialize dev))])
                 (m(version_key \<mapsto> be32 1)) else m);
          m = (if from_version \<le> 1 then introduced C (did_get_key (dv_id dev)) m else m)
      in (shortened C m)(version_key \<mapsto> be32 3))"

lemma on_success_Inr [simp]: "on_success r f = Inr y \<longleftrightarrow> (\<exists>x. r = Inr x \<and> f x = Inr y)"
  by (auto simp: on_success_def split: sum.splits)

lemma mdbx_result_Inr [simp]: "mdbx_result r = Inr y \<longleftrightarrow> r = Inr y"
  by (auto simp: mdbx_result_def split: sum.splits)

lemma save_view:
  assumes "lawful M view committed" and "save M (k, v) s = Inr s'"
  shows "view s' = (view s)(k \<mapsto> v)" "committed s' = committed s"
  using assms lawfulD(6) [OF assms(1)] by (auto simp: save_def)

lemma save_each_view:
  assumes "lawful M view committed" and "save_each M ps s = Inr s'"
  shows "view s' = put_records ps (view s)"
  using assms(2)
proof (induction ps arbitrary: s)
  case (Cons p ps)
  obtain k v where "p = (k, v)" by (cases p)
  then show ?case using Cons save_view [OF assms(1)] by (fastforce simp: put_records_def)
qed (simp add: put_records_def)

lemma load_kind:
  assumes "lawful M view committed" and "load M prefix s = Some (Inr kvs)"
  shows "distinct (map fst kvs)" "map_of kvs k = (if in_kind prefix (view s) k then view s k else None)"
proof -
  have "mx_cursor_open M s = None" using assms(2) by (auto simp: load_def split: option.splits)
  then have kvs: "sorted_wrt (<) (map fst kvs)"
      "set kvs = (if view s [prefix] = None then {} else {(k, v). view s k = Some v \<and> hd k = prefix \<and> [prefix] < k})"
    using iterate_exact [OF assms(1), of prefix "[prefix]" s] lawfulD(8) [OF assms(1), of "[prefix]" s] assms(2)
    by (auto simp: load_def split: if_splits)
  then show d: "distinct (map fst kvs)" by (simp add: strict_sorted_iff)
  show "map_of kvs k = (if in_kind prefix (view s) k then view s k else None)"
  proof (cases "in_kind prefix (view s) k \<and> view s k \<noteq> None")
    case True
    then show ?thesis using d kvs(2) by (auto simp: in_kind_def intro!: map_of_is_SomeI)
  next
    case False
    then have "k \<notin> fst ` set kvs" using kvs(2) by (auto simp: in_kind_def split: if_splits)
    then show ?thesis using False by (auto simp: map_of_eq_None_iff)
  qed
qed

lemma load_returns: "lawful M view committed \<Longrightarrow> load M prefix s \<noteq> None"
  using iterate_exact [of M view committed prefix "[prefix]" s] by (auto simp: load_def split: option.splits)

lemma introduce_each_view:
  assumes "lawful M view committed" and "introduce_each M C self_key kvs s = Inr s'" and "distinct (map fst kvs)"
  shows "view s' = (\<lambda>k. case map_of kvs k of None \<Rightarrow> view s k
    | Some v \<Rightarrow> map_option (\<lambda>db. cx_encode_folder_info C (db\<lparr>dfi_introducer_device_key := self_key\<rparr>)) (cx_decode_folder_info C v))"
  using assms(2,3)
proof (induction kvs arbitrary: s)
  case (Cons p kvs)
  obtain k v where p: "p = (k, v)" by (cases p)
  then obtain db s1 where s1: "cx_decode_folder_info C v = Some db"
      "save M (k, cx_encode_folder_info C (db\<lparr>dfi_introducer_device_key := self_key\<rparr>)) s = Inr s1"
      "introduce_each M C self_key kvs s1 = Inr s'"
    using Cons.prems(1) by (auto split: option.splits)
  have "map_of kvs k = None" using Cons.prems(2) p by (simp add: map_of_eq_None_iff)
  then show ?case using Cons.IH [OF s1(3)] Cons.prems(2) save_view(1) [OF assms(1) s1(2)] s1(1) p
    by (auto simp: fun_eq_iff split: option.splits)
qed simp

lemma shorten_each_view:
  assumes "lawful M view committed" and "shorten_each M C kvs s = Inr s'" and "distinct (map fst kvs)" and "\<forall>(k, v) \<in> set kvs. view s k = Some v"
  shows "view s' = (\<lambda>k. case map_of kvs k of None \<Rightarrow> view s k
    | Some v \<Rightarrow> Some (case cx_decode_block_ex C v of None \<Rightarrow> v | Some n \<Rightarrow> cx_encode_block C n))"
  using assms(2,3,4)
proof (induction kvs arbitrary: s)
  case (Cons p kvs)
  obtain k v where p: "p = (k, v)" by (cases p)
  have none: "map_of kvs k = None" "view s k = Some v" using Cons.prems p by (auto simp: map_of_eq_None_iff)
  show ?case
  proof (cases "cx_decode_block_ex C v")
    case None
    then show ?thesis using Cons.IH [of s] Cons.prems p none by (auto simp: fun_eq_iff split: option.splits)
  next
    case (Some n)
    then obtain s1 where s1: "save M (k, cx_encode_block C n) s = Inr s1" "shorten_each M C kvs s1 = Inr s'"
      using Cons.prems(1) p by auto
    have "\<forall>(j, w) \<in> set kvs. view s1 j = Some w"
      using Cons.prems p save_view(1) [OF assms(1) s1(1)] by (auto simp: rev_image_eqI)
    then show ?thesis using Cons.IH [OF s1(2)] Cons.prems(2) save_view(1) [OF assms(1) s1(1)] Some p none
      by (auto simp: fun_eq_iff split: option.splits)
  qed
qed simp

lemma migrate_steps:
  assumes "lawful M view committed"
  shows "migrate_0 M C dev s = Some (Inr s') \<Longrightarrow>
      view s' = put_records (anchors @ [(dv_key dev, cx_encode_device C (device_serialize dev))]) ((view s)(version_key \<mapsto> be32 1))"
    and "migrate_1 M C dev s = Some (Inr s') \<Longrightarrow> view s' = introduced C (did_get_key (dv_id dev)) (view s)"
    and "migrate_2 M C s = Some (Inr s') \<Longrightarrow> view s' = (shortened C (view s))(version_key \<mapsto> be32 3)"
proof -
  show "view s' = put_records (anchors @ [(dv_key dev, cx_encode_device C (device_serialize dev))]) ((view s)(version_key \<mapsto> be32 1))"
    if "migrate_0 M C dev s = Some (Inr s')"
    using that save_each_view [OF assms] save_view(1) [OF assms] by (fastforce simp: migrate_0_def save_version_def)
next
  assume "migrate_1 M C dev s = Some (Inr s')"
  then obtain kvs where kvs: "load M folder_info_prefix s = Some (Inr kvs)" "introduce_each M C (did_get_key (dv_id dev)) kvs s = Inr s'"
    by (auto simp: migrate_1_def)
  show "view s' = introduced C (did_get_key (dv_id dev)) (view s)"
    using introduce_each_view [OF assms kvs(2) load_kind(1) [OF assms kvs(1)]]
    by (auto simp: fun_eq_iff introduced_def load_kind(2) [OF assms kvs(1)] in_kind_def split: option.splits)
next
  assume "migrate_2 M C s = Some (Inr s')"
  then obtain kvs s1 where kvs: "load M block_prefix s = Some (Inr kvs)" "shorten_each M C kvs s = Inr s1" "save M (version_key, be32 3) s1 = Inr s'"
    by (auto simp: migrate_2_def save_version_def db_version_def)
  have "view s k = Some v" if "(k, v) \<in> set kvs" for k v
    using map_of_is_SomeI [OF load_kind(1) [OF assms kvs(1)] that] load_kind(2) [OF assms kvs(1), of k] by (auto split: if_splits)
  then have "\<forall>(k, v) \<in> set kvs. view s k = Some v" by auto
  from shorten_each_view [OF assms kvs(2) load_kind(1) [OF assms kvs(1)] this] have "view s1 = shortened C (view s)"
    by (auto simp: fun_eq_iff shortened_def load_kind(2) [OF assms kvs(1)] split: option.splits)
  then show "view s' = (shortened C (view s))(version_key \<mapsto> be32 3)" using save_view(1) [OF assms kvs(3)] by simp
qed

lemma migrate_done: "migrate M C 3 dev s = Some (mdbx_result (mx_commit M s))"
  by (subst migrate.simps) (simp add: db_version_def)

lemma migrate_next:
  assumes "lawful M view committed" and "n < 3" and "do_migrate M C n dev s = Some r"
  shows "migrate M C n dev s = (case r of Inl e \<Rightarrow> Some (Inl e) | Inr s \<Rightarrow> migrate M C (Suc n) dev s)"
  using assms(2,3) by (subst migrate.simps) (simp add: db_version_def)

lemma do_migrate_returns: "lawful M view committed \<Longrightarrow> \<exists>r. do_migrate M C n dev s = Some r"
  using load_returns [of M view committed] by (auto simp: do_migrate_def migrate_0_def migrate_1_def migrate_2_def)

lemma migrate_returns:
  assumes "lawful M view committed"
  shows "\<exists>r. migrate M C n dev s = Some r"
proof (induction "3 - n" arbitrary: n s)
  case 0
  then show ?case by (cases "n = 3") (auto simp: migrate_done migrate.simps [of M C n] db_version_def do_migrate_def)
next
  case (Suc m)
  then have "n < 3" "m = 3 - Suc n" by auto
  then show ?case using Suc.hyps(1) [of "Suc n"] do_migrate_returns [OF assms, of C n dev s] migrate_next [OF assms \<open>n < 3\<close>]
    by (fastforce split: sum.splits)
qed

lemma migrate_step:
  assumes "lawful M view committed" and "migrate M C n dev s = Some (Inr s')" and "n < 3"
  obtains s1 where "do_migrate M C n dev s = Some (Inr s1)" "migrate M C (Suc n) dev s1 = Some (Inr s')"
proof -
  obtain r where r: "do_migrate M C n dev s = Some r" using do_migrate_returns [OF assms(1)] by blast
  show thesis using that assms(2) r migrate_next [OF assms(1,3) r] by (cases r) auto
qed

lemma migrate_view:
  assumes "lawful M view committed"
  shows "migrate M C 3 dev s = Some (Inr s') \<Longrightarrow> committed s' = view s"
    and "migrate M C 2 dev s = Some (Inr s') \<Longrightarrow> committed s' = (shortened C (view s))(version_key \<mapsto> be32 3)"
    and "migrate M C 1 dev s = Some (Inr s') \<Longrightarrow>
      committed s' = (shortened C (introduced C (did_get_key (dv_id dev)) (view s)))(version_key \<mapsto> be32 3)"
    and "migrate M C 0 dev s = Some (Inr s') \<Longrightarrow> committed s' = upgraded C 0 dev (view s)"
proof -
  have three: "committed s' = view s" if "migrate M C 3 dev s = Some (Inr s')" for s s'
    using that lawfulD(3) [OF assms] by (simp add: migrate_done)
  have two: "committed s' = (shortened C (view s))(version_key \<mapsto> be32 3)" if m: "migrate M C 2 dev s = Some (Inr s')" for s s'
  proof -
    obtain s1 where s1: "do_migrate M C 2 dev s = Some (Inr s1)" "migrate M C (Suc 2) dev s1 = Some (Inr s')"
      by (rule migrate_step [OF assms m]) simp
    have "migrate_2 M C s = Some (Inr s1)" using s1(1) by (simp add: do_migrate_def)
    moreover have "Suc 2 = 3" by simp
    ultimately show ?thesis using three [of s1 s'] s1(2) migrate_steps(3) [OF assms] by metis
  qed
  have one: "committed s' = (shortened C (introduced C (did_get_key (dv_id dev)) (view s)))(version_key \<mapsto> be32 3)"
    if m: "migrate M C 1 dev s = Some (Inr s')" for s s'
  proof -
    obtain s1 where s1: "do_migrate M C 1 dev s = Some (Inr s1)" "migrate M C (Suc 1) dev s1 = Some (Inr s')"
      by (rule migrate_step [OF assms m]) simp
    have "migrate_1 M C dev s = Some (Inr s1)" using s1(1) by (simp add: do_migrate_def)
    moreover have "Suc 1 = 2" by simp
    ultimately show ?thesis using two [of s1 s'] s1(2) migrate_steps(2) [OF assms] by metis
  qed
  show "committed s' = upgraded C 0 dev (view s)" if m: "migrate M C 0 dev s = Some (Inr s')"
  proof -
    obtain s1 where s1: "do_migrate M C 0 dev s = Some (Inr s1)" "migrate M C (Suc 0) dev s1 = Some (Inr s')"
      by (rule migrate_step [OF assms m]) simp
    have "migrate_0 M C dev s = Some (Inr s1)" using s1(1) by (simp add: do_migrate_def)
    from migrate_steps(1) [OF assms this] one [of s1 s'] s1(2) show ?thesis by (simp add: upgraded_def)
  qed
  show "migrate M C 3 dev s = Some (Inr s') \<Longrightarrow> committed s' = view s" by (rule three)
  show "migrate M C 2 dev s = Some (Inr s') \<Longrightarrow> committed s' = (shortened C (view s))(version_key \<mapsto> be32 3)" by (rule two)
  show "migrate M C 1 dev s = Some (Inr s') \<Longrightarrow>
      committed s' = (shortened C (introduced C (did_get_key (dv_id dev)) (view s)))(version_key \<mapsto> be32 3)" by (rule one)
qed


text \<open>A new database in memory, with coders that write nothing.\<close>

definition sample_db_codec :: db_codec where
  "sample_db_codec = \<lparr>cx_encode_device = (\<lambda>_. [9]), cx_encode_folder = (\<lambda>_. []), cx_encode_folder_info = (\<lambda>_. []), cx_decode_folder_info = (\<lambda>_. None),
     cx_encode_file = (\<lambda>_. []), cx_decode_file = (\<lambda>_. None), cx_encode_block = (\<lambda>_. []), cx_decode_block = (\<lambda>_. None),
     cx_decode_block_ex = (\<lambda>_. None), cx_encode_some_device = (\<lambda>_. []), cx_encode_pending_folder = (\<lambda>_. []), cx_decode_pending_folder = (\<lambda>_. None)\<rparr>"


end
