(* ===== verification/Db_Actor.thy ===== *)
theory Db_Actor
  imports Database Create
begin

text \<open>
  The database actor (\<^verbatim>\<open>src/net/db_actor.cpp\<close>): it visits every chain of diffs that has been applied and writes what they
  changed, in a transaction that is committed at the end of the visit, and at the start it turns the records of the database into
  the diffs that build up the cluster.
\<close>

subsection \<open>State and transactions\<close>

record 's db_env =
  de_mdbx :: "'s mdbx"
  de_codec :: db_codec
  de_uncommitted_threshold :: nat
  de_max_blocks_per_diff :: nat
  de_max_files_per_diff :: nat

text \<open>
  \<open>da_folder_infos\<close> is the set of pointers that a visit hands on, in the order of insertion; the folder infos do not change during a visit. \<open>da_shutdown\<close> is the reason of a shutdown.
\<close>

record 's db_actor =
  da_store :: 's
  da_txn :: bool
  da_uncommitted :: nat
  da_folder_infos :: "folder_info list"
  da_shutdown :: "db_error option"

type_synonym 's visited = "db_error option \<times> 's db_actor"

definition get_txn :: "'s db_env \<Rightarrow> 's db_actor \<Rightarrow> 's visited" where
  "get_txn E a =
     (if da_txn a then (None, a)
      else case mx_begin (de_mdbx E) True (da_store a) of
          Inl r \<Rightarrow> (Some (mdbx_failure r), a)
        | Inr s \<Rightarrow> (None, a\<lparr>da_store := s, da_txn := True, da_uncommitted := 0\<rparr>))"

text \<open>Most visitors take the transaction without asking whether there is one.\<close>

definition assume_txn :: "'s db_env \<Rightarrow> 's db_actor \<Rightarrow> 's visited" where
  "assume_txn E a = (case get_txn E a of (None, a) \<Rightarrow> (None, a) | (Some _, a) \<Rightarrow> (Some broken, a))"

text \<open>The transaction is gone also when its commit fails.\<close>

definition commit_on_demand :: "'s db_env \<Rightarrow> 's db_actor \<Rightarrow> 's visited" where
  "commit_on_demand E a =
     (if \<not> da_txn a then (None, a)
      else let a = a\<lparr>da_uncommitted := da_uncommitted a + 1\<rparr>
           in if da_uncommitted a < de_uncommitted_threshold E then (None, a)
              else case mx_commit (de_mdbx E) (da_store a) of
                  Inl r \<Rightarrow> (Some (mdbx_failure r), a\<lparr>da_txn := False\<rparr>)
                | Inr s \<Rightarrow> (None, a\<lparr>da_store := s, da_txn := False\<rparr>))"

definition force_commit :: "'s db_env \<Rightarrow> 's db_actor \<Rightarrow> 's visited" where
  "force_commit E a = (None, a\<lparr>da_uncommitted := de_uncommitted_threshold E\<rparr>)"

definition in_store :: "('s \<Rightarrow> (db_error, 's) result) \<Rightarrow> 's db_actor \<Rightarrow> 's visited" where
  "in_store f a = (case f (da_store a) of Inl e \<Rightarrow> (Some e, a) | Inr s \<Rightarrow> (None, a\<lparr>da_store := s\<rparr>))"

definition put_pair :: "'s db_env \<Rightarrow> bytes \<times> bytes \<Rightarrow> 's db_actor \<Rightarrow> 's visited" where
  "put_pair E p = in_store (save (de_mdbx E) p)"

fun put_pairs :: "'s db_env \<Rightarrow> (bytes \<times> bytes) option list \<Rightarrow> 's db_actor \<Rightarrow> 's visited" where
  "put_pairs E [] a = (None, a)"
| "put_pairs E (None # ps) a = (Some broken, a)"
| "put_pairs E (Some p # ps) a = and_then (put_pair E p a) (put_pairs E ps)"

fun del_keys :: "'s db_env \<Rightarrow> bytes list \<Rightarrow> 's db_actor \<Rightarrow> 's visited" where
  "del_keys E [] a = (None, a)"
| "del_keys E (k # ks) a = and_then (in_store (remove_record (de_mdbx E) k) a) (del_keys E ks)"

subsection \<open>Records of the cluster\<close>

text \<open>The pair that is written for an object; \<open>None\<close> where the object is not there and its pointer is followed.\<close>

definition device_pair :: "db_codec \<Rightarrow> device option \<Rightarrow> (bytes \<times> bytes) option" where
  "device_pair C = map_option (\<lambda>d. (dv_key d, cx_encode_device C (device_serialize d)))"

definition some_device_pair :: "db_codec \<Rightarrow> some_device option \<Rightarrow> (bytes \<times> bytes) option" where
  "some_device_pair C = map_option (\<lambda>s. (so_key s, cx_encode_some_device C (some_device_serialize s)))"

definition folder_pair :: "db_codec \<Rightarrow> folder option \<Rightarrow> (bytes \<times> bytes) option" where
  "folder_pair C = map_option (\<lambda>fd. (fd_key fd, cx_encode_folder C (fd_data fd)))"

definition folder_info_pair :: "db_codec \<Rightarrow> folder_info \<Rightarrow> bytes \<times> bytes" where
  "folder_info_pair C fo = (folder_info_key fo, cx_encode_folder_info C (fo_serialize fo))"

definition pending_folder_pair :: "db_codec \<Rightarrow> pending_folder \<Rightarrow> bytes \<times> bytes" where
  "pending_folder_pair C p = (pn_key p, cx_encode_pending_folder C (pn_serialize p))"

definition block_pair :: "db_codec \<Rightarrow> cluster \<Rightarrow> addr option \<Rightarrow> (bytes \<times> bytes) option" where
  "block_pair C cl p = Option.bind p (\<lambda>p. map_option (\<lambda>b. (block_prefix # bi_hash b, cx_encode_block C (bi_size b))) (st_blocks (cl_store cl) p))"

definition file_pair :: "db_codec \<Rightarrow> cluster \<Rightarrow> addr option \<Rightarrow> (bytes \<times> bytes) option" where
  "file_pair C cl f = Option.bind f (\<lambda>f. map_option (\<lambda>db. (file_db_key (cl_store cl) f, cx_encode_file C db))
     (as_db (cl_store cl) (file_at (cl_store cl) f) True))"

subsection \<open>Visitors\<close>

definition save_folder_info :: "'s db_env \<Rightarrow> folder_info \<Rightarrow> 's db_actor \<Rightarrow> 's visited" where
  "save_folder_info E fo a =
     and_then (get_txn E a) (\<lambda>a.
     and_then (put_pair E (folder_info_pair (de_codec E) fo) a) (\<lambda>a.
       force_commit E (a\<lparr>da_folder_infos := filter (\<lambda>x. x \<noteq> fo) (da_folder_infos a)\<rparr>)))"

definition remove_keys :: "'s db_env \<Rightarrow> bytes \<Rightarrow> bytes list \<Rightarrow> 's db_actor \<Rightarrow> 's visited" where
  "remove_keys E prefix keys a = and_then (assume_txn E a) (del_keys E (map ((@) prefix) keys))"

definition save_pairs :: "'s db_env \<Rightarrow> (bytes \<times> bytes) option list \<Rightarrow> 's db_actor \<Rightarrow> 's visited" where
  "save_pairs E ps a = and_then (assume_txn E a) (put_pairs E ps)"

text \<open>Of the offered folders only the first that is pending is written.\<close>

definition offered_pairs :: "db_codec \<Rightarrow> cluster \<Rightarrow> (db_pending_folder \<times> bytes \<times> bytes) list \<Rightarrow> (bytes \<times> bytes) option list" where
  "offered_pairs C cl items =
     take 1 (map (\<lambda>p. Some (pending_folder_pair C p)) (List.map_filter (\<lambda>(db, peer_id, _).
       Option.bind (gm_get (\<lambda>p. str_bytes (pn_id p)) (str_bytes (dfo_id (dpf_folder db))) (cl_pending_folders cl))
         (\<lambda>p. if did_sha256 (pn_device p) = peer_id then Some p else None)) items))"

definition save_update_folder :: "'s db_env \<Rightarrow> cluster \<Rightarrow> string \<Rightarrow> bytes \<Rightarrow> pr_file list \<Rightarrow> 's db_actor \<Rightarrow> 's visited" where
  "save_update_folder E cl fid peer_id fs a =
     and_then (get_txn E a) (\<lambda>a. case folder_info_of fid peer_id cl of
       None \<Rightarrow> (Some broken, a)
     | Some (_, fo) \<Rightarrow> put_pairs E (Some (folder_info_pair (de_codec E) fo) #
         map (\<lambda>f. file_pair (de_codec E) cl (by_name (cl_store cl) (pf_name f) fo)) fs) a)"

definition save_advance :: "'s db_env \<Rightarrow> cluster \<Rightarrow> string \<Rightarrow> pr_file \<Rightarrow> 's db_actor \<Rightarrow> 's visited" where
  "save_advance E cl fid local a =
     (case folders_by_id fid cl of
          None \<Rightarrow> (None, a)
        | Some fd \<Rightarrow> if fd_suspended fd then (None, a)
            else case by_device (cl_self cl) fd of
                None \<Rightarrow> (None, a)
              | Some fo \<Rightarrow> (case by_name (cl_store cl) (pf_name local) fo of
                  None \<Rightarrow> (None, a)
                | Some f \<Rightarrow> and_then (save_pairs E [file_pair (de_codec E) cl (Some f)] a) (\<lambda>a.
                    (None, if fo \<in> set (da_folder_infos a) then a else a\<lparr>da_folder_infos := da_folder_infos a @ [fo]\<rparr>))))"

definition save_upsert_folder_info :: "'s db_env \<Rightarrow> cluster \<Rightarrow> bytes \<Rightarrow> string \<Rightarrow> 's db_actor \<Rightarrow> 's visited" where
  "save_upsert_folder_info E cl dev fid a =
     (case (devices_by_sha256 dev (cl_devices cl), folder_info_of fid dev cl) of
          (Some _, Some (_, fo)) \<Rightarrow> save_folder_info E fo a
        | _ \<Rightarrow> (Some broken, a))"

text \<open>What is written before the children and the siblings of a diff are visited, and after them.\<close>

fun save_before :: "'s db_env \<Rightarrow> cluster \<Rightarrow> change \<Rightarrow> 's db_actor \<Rightarrow> 's visited" where
  "save_before E cl (cluster_update peer_id) a =
     save_pairs E (map (Some \<circ> pending_folder_pair (de_codec E)) (cl_pending_folders cl)) a"
| "save_before E cl (upsert_folder uuid db is_new) a = save_pairs E [folder_pair (de_codec E) (folders_by_id (dfo_id db) cl)] a"
| "save_before E cl (add_blocks bs) a = save_pairs E (map (\<lambda>b. block_pair (de_codec E) cl (blocks_by_hash (pb_hash b) cl)) bs) a"
| "save_before E cl (add_pending_folders items) a = save_pairs E (offered_pairs (de_codec E) cl items) a"
| "save_before E cl (add_ignored_device did db) a = assume_txn E a"
| "save_before E cl (add_pending_device did db) a =
     save_pairs E [some_device_pair (de_codec E) (some_by_sha256 (did_sha256 did) (cl_pending_devices cl))] a"
| "save_before E cl (remove_corrupted_files keys) a = remove_keys E [] keys a"
| "save_before E cl (remove_blocks hs) a = remove_keys E [block_prefix] hs a"
| "save_before E cl (remove_files fid dev keys) a = remove_keys E [] keys a"
| "save_before E cl (remove_folder_infos keys) a = remove_keys E [] keys a"
| "save_before E cl (remove_pending_folders keys) a = remove_keys E [] keys a"
| "save_before E cl (remove_folder fid key) a = remove_keys E [] [key] a"
| "save_before E cl (remove_peer key) a = assume_txn E a"
| "save_before E cl (remove_ignored_device key) a = remove_keys E [] [key] a"
| "save_before E cl (remove_pending_device key) a = remove_keys E [] [key] a"
| "save_before E cl (update_peer peer_id db) a = save_pairs E [device_pair (de_codec E) (devices_by_sha256 peer_id (cl_devices cl))] a"
| "save_before E cl (upsert_folder_info uuid dev ikey fid index_id) a = save_upsert_folder_info E cl dev fid a"
| "save_before E cl (advance action fid peer_id uuid source local) a = save_advance E cl fid local a"
| "save_before E cl (update_folder fid peer_id fs uuids) a = save_update_folder E cl fid peer_id fs a"
| "save_before E cl (peer_state peer_id state cn cv was_online) a =
     save_pairs E [device_pair (de_codec E) (devices_by_sha256 peer_id (cl_devices cl))] a"
| "save_before E cl (ignored_connected did db) a =
     save_pairs E [some_device_pair (de_codec E) (some_by_sha256 (did_sha256 did) (cl_ignored_devices cl))] a"
| "save_before E cl (unknown_connected did db) a =
     save_pairs E [some_device_pair (de_codec E) (some_by_sha256 (did_sha256 did) (cl_pending_devices cl))] a"
| "save_before E cl _ a = (None, a)"

fun save_after :: "'s db_env \<Rightarrow> cluster \<Rightarrow> change \<Rightarrow> 's db_actor \<Rightarrow> 's visited" where
  "save_after E cl (add_ignored_device did db) a =
     put_pairs E [some_device_pair (de_codec E) (some_by_sha256 (did_sha256 did) (cl_ignored_devices cl))] a"
| "save_after E cl (remove_peer key) a = del_keys E [key] a"
| "save_after E cl _ a = (None, a)"

fun is_persisted :: "change \<Rightarrow> bool" where
  "is_persisted (cluster_update _) = True"
| "is_persisted (upsert_folder _ _ _) = True"
| "is_persisted (add_blocks _) = True"
| "is_persisted (add_pending_folders _) = True"
| "is_persisted (add_ignored_device _ _) = True"
| "is_persisted (add_pending_device _ _) = True"
| "is_persisted (remove_corrupted_files _) = True"
| "is_persisted (remove_blocks _) = True"
| "is_persisted (remove_files _ _ _) = True"
| "is_persisted (remove_folder_infos _) = True"
| "is_persisted (remove_pending_folders _) = True"
| "is_persisted (remove_folder _ _) = True"
| "is_persisted (remove_peer _) = True"
| "is_persisted (remove_ignored_device _) = True"
| "is_persisted (remove_pending_device _) = True"
| "is_persisted (update_peer _ _) = True"
| "is_persisted (upsert_folder_info _ _ _ _ _) = True"
| "is_persisted (advance _ _ _ _ _ _) = True"
| "is_persisted (update_folder _ _ _ _) = True"
| "is_persisted (peer_state _ _ _ _ _) = True"
| "is_persisted (ignored_connected _ _) = True"
| "is_persisted (unknown_connected _ _) = True"
| "is_persisted _ = False"

text \<open>
  A visitor that finds the cluster tainted returns at once, and the visit goes no further along the chain; so does that of a peer's
  state unless the peer goes offline. The visitor of a removed folder does not look at the mark.
\<close>

fun stops_visit :: "cluster \<Rightarrow> change \<Rightarrow> bool" where
  "stops_visit cl (remove_folder fid key) = False"
| "stops_visit cl (peer_state peer_id state cn cv was_online) = (cl_tainted cl \<or> \<not> was_online)"
| "stops_visit cl a = (is_persisted a \<and> cl_tainted cl)"

definition finish_visit :: "'s db_env \<Rightarrow> change \<Rightarrow> 's db_actor \<Rightarrow> 's visited" where
  "finish_visit E c a = (case c of
       upsert_folder_info _ _ _ _ _ \<Rightarrow> (None, a)
     | _ \<Rightarrow> if is_persisted c then force_commit E a else (None, a))"

fun visit_chain :: "'s db_env \<Rightarrow> cluster \<Rightarrow> cdiff list \<Rightarrow> 's db_actor \<Rightarrow> 's visited" where
  "visit_chain E cl [] a = (None, a)"
| "visit_chain E cl (Diff p ch # siblings) a = (case p of
       interrupt \<Rightarrow> (None, a)
     | commit \<Rightarrow> and_then (visit_chain E cl ch a) (visit_chain E cl siblings)
     | change c \<Rightarrow>
         if stops_visit cl c then (None, a)
         else and_then (save_before E cl c a) (\<lambda>a.
              and_then (visit_chain E cl ch a) (\<lambda>a.
              and_then (visit_chain E cl siblings a) (\<lambda>a.
              and_then (save_after E cl c a) (finish_visit E c)))))"

fun save_folder_infos :: "'s db_env \<Rightarrow> folder_info list \<Rightarrow> 's db_actor \<Rightarrow> 's visited" where
  "save_folder_infos E [] a = (None, a)"
| "save_folder_infos E (fo # fos) a = and_then (save_folder_info E fo a) (save_folder_infos E fos)"

definition visit_db :: "'s db_env \<Rightarrow> cluster \<Rightarrow> cdiff list \<Rightarrow> 's db_actor \<Rightarrow> 's db_actor" where
  "visit_db E cl ds a =
     (case and_then (visit_chain E cl ds (a\<lparr>da_folder_infos := []\<rparr>)) (\<lambda>a.
           and_then (save_folder_infos E (da_folder_infos a) a) (commit_on_demand E)) of
        (None, a) \<Rightarrow> a
      | (Some e, a) \<Rightarrow> a\<lparr>da_shutdown := Some e\<rparr>)"


subsection \<open>A visit as a batch of writes\<close>

datatype db_op = Put bytes bytes | Del bytes

fun run_op :: "db_op \<Rightarrow> (bytes \<rightharpoonup> bytes) \<Rightarrow> (bytes \<rightharpoonup> bytes)" where
  "run_op (Put k v) m = m(k \<mapsto> v)"
| "run_op (Del k) m = m(k := None)"

text \<open>All records of a cluster.\<close>

definition records :: "db_codec \<Rightarrow> cluster \<Rightarrow> (bytes \<times> bytes) set" where
  "records C cl =
     {p. \<exists>d \<in> set (cl_devices cl). device_pair C (Some d) = Some p} \<union>
     {p. \<exists>d \<in> set (cl_pending_devices cl) \<union> set (cl_ignored_devices cl). some_device_pair C (Some d) = Some p} \<union>
     {p. \<exists>fd \<in> set (cl_folders cl). folder_pair C (Some fd) = Some p \<or>
        (\<exists>fo \<in> set (fd_folder_infos fd). p = folder_info_pair C fo \<or> (\<exists>f \<in> set (fo_file_infos fo). file_pair C cl (Some f) = Some p))} \<union>
     {p. \<exists>b \<in> set (cl_blocks cl). block_pair C cl (Some b) = Some p} \<union>
     pending_folder_pair C ` set (cl_pending_folders cl)"

text \<open>The records that a diff makes necessary to write, before and after its children, and the keys it removes.\<close>

fun needed_before :: "db_codec \<Rightarrow> cluster \<Rightarrow> change \<Rightarrow> (bytes \<times> bytes) option list" where
  "needed_before C cl (cluster_update peer_id) = map (Some \<circ> pending_folder_pair C) (cl_pending_folders cl)"
| "needed_before C cl (upsert_folder uuid db is_new) = [folder_pair C (folders_by_id (dfo_id db) cl)]"
| "needed_before C cl (add_blocks bs) = map (\<lambda>b. block_pair C cl (blocks_by_hash (pb_hash b) cl)) bs"
| "needed_before C cl (add_pending_folders items) = offered_pairs C cl items"
| "needed_before C cl (add_pending_device did db) = [some_device_pair C (some_by_sha256 (did_sha256 did) (cl_pending_devices cl))]"
| "needed_before C cl (update_peer peer_id db) = [device_pair C (devices_by_sha256 peer_id (cl_devices cl))]"
| "needed_before C cl (upsert_folder_info uuid dev ikey fid index_id) =
     [map_option (\<lambda>(_, fo). folder_info_pair C fo) (folder_info_of fid dev cl)]"
| "needed_before C cl (advance action fid peer_id uuid source local) = (case folders_by_id fid cl of
       None \<Rightarrow> []
     | Some fd \<Rightarrow> (case by_device (cl_self cl) fd of
         None \<Rightarrow> []
       | Some fo \<Rightarrow> if fd_suspended fd \<or> by_name (cl_store cl) (pf_name local) fo = None then []
           else [Some (folder_info_pair C fo), file_pair C cl (by_name (cl_store cl) (pf_name local) fo)]))"
| "needed_before C cl (update_folder fid peer_id fs uuids) = (case folder_info_of fid peer_id cl of
       None \<Rightarrow> [None]
     | Some (_, fo) \<Rightarrow> Some (folder_info_pair C fo) # map (\<lambda>f. file_pair C cl (by_name (cl_store cl) (pf_name f) fo)) fs)"
| "needed_before C cl (peer_state peer_id state cn cv was_online) = [device_pair C (devices_by_sha256 peer_id (cl_devices cl))]"
| "needed_before C cl (ignored_connected did db) = [some_device_pair C (some_by_sha256 (did_sha256 did) (cl_ignored_devices cl))]"
| "needed_before C cl (unknown_connected did db) = [some_device_pair C (some_by_sha256 (did_sha256 did) (cl_pending_devices cl))]"
| "needed_before C cl _ = []"

fun needed_after :: "db_codec \<Rightarrow> cluster \<Rightarrow> change \<Rightarrow> (bytes \<times> bytes) option list" where
  "needed_after C cl (add_ignored_device did db) = [some_device_pair C (some_by_sha256 (did_sha256 did) (cl_ignored_devices cl))]"
| "needed_after C cl _ = []"

fun removed_keys :: "change \<Rightarrow> bytes list" where
  "removed_keys (remove_corrupted_files keys) = keys"
| "removed_keys (remove_blocks hs) = map ((#) block_prefix) hs"
| "removed_keys (remove_files fid dev keys) = keys"
| "removed_keys (remove_folder_infos keys) = keys"
| "removed_keys (remove_pending_folders keys) = keys"
| "removed_keys (remove_folder fid key) = [key]"
| "removed_keys (remove_peer key) = [key]"
| "removed_keys (remove_ignored_device key) = [key]"
| "removed_keys (remove_pending_device key) = [key]"
| "removed_keys _ = []"

text \<open>The diffs that a visit reaches.\<close>

fun reached :: "cluster \<Rightarrow> cdiff list \<Rightarrow> change list" where
  "reached cl [] = []"
| "reached cl (Diff p ch # siblings) = (case p of
       interrupt \<Rightarrow> []
     | commit \<Rightarrow> reached cl ch @ reached cl siblings
     | change c \<Rightarrow> if stops_visit cl c then [] else c # reached cl ch @ reached cl siblings)"

definition needed :: "db_codec \<Rightarrow> cluster \<Rightarrow> change list \<Rightarrow> (bytes \<times> bytes) option set" where
  "needed C cl cs = (\<Union>c \<in> set cs. set (needed_before C cl c) \<union> set (needed_after C cl c))"

definition removed :: "change list \<Rightarrow> bytes set" where
  "removed cs = (\<Union>c \<in> set cs. set (removed_keys c))"

text \<open>What the actor would read back.\<close>

definition now :: "('s \<Rightarrow> bytes \<rightharpoonup> bytes) \<Rightarrow> ('s \<Rightarrow> bytes \<rightharpoonup> bytes) \<Rightarrow> 's db_actor \<Rightarrow> (bytes \<rightharpoonup> bytes)" where
  "now view committed a = (if da_txn a then view (da_store a) else committed (da_store a))"

definition info_pairs :: "db_codec \<Rightarrow> 's db_actor \<Rightarrow> (bytes \<times> bytes) set" where
  "info_pairs C a = folder_info_pair C ` set (da_folder_infos a)"

text \<open>A run whose effect is a list of writes of records, which holds what is needed but for the folder infos that are still to be written.\<close>

definition saved ::
  "('s \<Rightarrow> bytes \<rightharpoonup> bytes) \<Rightarrow> ('s \<Rightarrow> bytes \<rightharpoonup> bytes) \<Rightarrow> db_codec \<Rightarrow> cluster \<Rightarrow> (bytes \<times> bytes) option set \<Rightarrow> bytes set \<Rightarrow> db_op list \<Rightarrow>
     's db_actor \<Rightarrow> 's db_actor \<Rightarrow> bool" where
  "saved view committed C cl req dels ops a b \<longleftrightarrow>
     now view committed b = fold run_op ops (now view committed a) \<and>
     committed (da_store b) = committed (da_store a) \<and> (da_txn a \<longrightarrow> da_txn b) \<and> da_shutdown b = da_shutdown a \<and>
     (\<forall>k v. Put k v \<in> set ops \<longrightarrow> (k, v) \<in> records C cl) \<and> (\<forall>k. Del k \<in> set ops \<longrightarrow> k \<in> dels) \<and>
     (\<forall>p \<in> req. \<exists>k v. p = Some (k, v) \<and> (Put k v \<in> set ops \<or> (k, v) \<in> info_pairs C b)) \<and>
     (\<forall>(k, v) \<in> info_pairs C a. (k, v) \<in> info_pairs C b \<or> Put k v \<in> set ops) \<and>
     info_pairs C b \<subseteq> info_pairs C a \<union> records C cl"

lemma saved_trans:
  assumes "saved view committed C cl req dels ops a b" and "saved view committed C cl req' dels' ops' b c"
  shows "saved view committed C cl (req \<union> req') (dels \<union> dels') (ops @ ops') a c"
proof -
  have "\<exists>k v. p = Some (k, v) \<and> (Put k v \<in> set (ops @ ops') \<or> (k, v) \<in> info_pairs C c)" if "p \<in> req \<union> req'" for p
    using that assms unfolding saved_def by fastforce
  moreover have "(k, v) \<in> info_pairs C c \<or> Put k v \<in> set (ops @ ops')" if "(k, v) \<in> info_pairs C a" for k v
    using that assms unfolding saved_def by fastforce
  moreover have "info_pairs C c \<subseteq> info_pairs C a \<union> records C cl" using assms unfolding saved_def by blast
  ultimately show ?thesis using assms unfolding saved_def by auto
qed

lemma saved_fewer:
  assumes "saved view committed C cl req dels ops a b"
    and "da_store c = da_store b" "da_txn c = da_txn b" "da_shutdown c = da_shutdown b"
    and "info_pairs C c \<subseteq> info_pairs C b" and "\<And>k v. (k, v) \<in> info_pairs C b \<Longrightarrow> (k, v) \<in> info_pairs C c \<or> Put k v \<in> set ops"
  shows "saved view committed C cl req dels ops a c"
proof -
  have "\<exists>k v. p = Some (k, v) \<and> (Put k v \<in> set ops \<or> (k, v) \<in> info_pairs C c)" if "p \<in> req" for p
    using that assms(1,6) unfolding saved_def by blast
  moreover have "(k, v) \<in> info_pairs C c \<or> Put k v \<in> set ops" if "(k, v) \<in> info_pairs C a" for k v
    using that assms(1,6) unfolding saved_def by blast
  ultimately show ?thesis using assms(1-5) unfolding saved_def now_def by auto
qed

lemma saved_refl: "saved view committed C cl {} {} [] a a"
  by (auto simp: saved_def)

lemma and_then_None [simp]: "and_then r f = (None, y) \<longleftrightarrow> (\<exists>x. r = (None, x) \<and> f x = (None, y))"
  by (cases r; cases "fst r") (auto simp: and_then_def)

lemma info_pairs_update [simp]:
  "info_pairs C (a\<lparr>da_store := s\<rparr>) = info_pairs C a" "info_pairs C (a\<lparr>da_txn := t\<rparr>) = info_pairs C a"
  "info_pairs C (a\<lparr>da_uncommitted := n\<rparr>) = info_pairs C a"
  by (simp_all add: info_pairs_def)

lemma get_txn_saved:
  assumes "lawful (de_mdbx E) view committed" and "get_txn E a = (None, b)"
  shows "saved view committed C cl {} {} [] a b" "da_txn b"
  using assms(2) lawfulD(2) [OF assms(1)]
  by (auto simp: get_txn_def saved_def now_def split: if_splits sum.splits)

lemma assume_txn_saved:
  assumes "lawful (de_mdbx E) view committed" and "assume_txn E a = (None, b)"
  shows "saved view committed C cl {} {} [] a b" "da_txn b"
proof -
  have "get_txn E a = (None, b)" using assms(2) by (auto simp: assume_txn_def split: prod.splits option.splits)
  from get_txn_saved [OF assms(1) this] show "saved view committed C cl {} {} [] a b" "da_txn b" by auto
qed

lemma put_pair_saved:
  assumes "lawful (de_mdbx E) view committed" and "da_txn a" and "put_pair E (k, v) a = (None, b)" and "(k, v) \<in> records C cl"
  shows "saved view committed C cl {Some (k, v)} {} [Put k v] a b" "da_txn b"
  using assms(2,3,4) lawfulD(6) [OF assms(1)]
  by (auto simp: put_pair_def in_store_def save_def mdbx_result_def saved_def now_def split: sum.splits)

lemma put_pairs_saved:
  assumes laws: "lawful (de_mdbx E) view committed" and "da_txn a" and "put_pairs E ps a = (None, b)" and "\<forall>p \<in> set ps. p = None \<or> the p \<in> records C cl"
  shows "\<exists>ops. saved view committed C cl (set ps) {} ops a b \<and> da_txn b"
  using assms(2,3,4)
proof (induction ps arbitrary: a)
  case Nil
  then show ?case using saved_refl by fastforce
next
  case (Cons p ps)
  then obtain k v where p: "p = Some (k, v)" "(k, v) \<in> records C cl" by (cases p) auto
  obtain a1 where a1: "put_pair E (k, v) a = (None, a1)" "put_pairs E ps a1 = (None, b)" using Cons.prems p by auto
  note s1 = put_pair_saved [OF laws Cons.prems(1) a1(1) p(2)]
  then obtain ops where "saved view committed C cl (set ps) {} ops a1 b" "da_txn b" using Cons.IH [OF _ a1(2)] Cons.prems(3) by auto
  with saved_trans [OF s1(1) this(1)] p show ?case by auto
qed

lemma del_keys_saved:
  assumes laws: "lawful (de_mdbx E) view committed" and "da_txn a" and "del_keys E ks a = (None, b)"
  shows "\<exists>ops. saved view committed C cl {} (set ks) ops a b \<and> da_txn b"
  using assms(2,3)
proof (induction ks arbitrary: a)
  case Nil
  then show ?case using saved_refl by fastforce
next
  case (Cons k ks)
  obtain a1 where a1: "in_store (remove_record (de_mdbx E) k) a = (None, a1)" "del_keys E ks a1 = (None, b)" using Cons.prems by auto
  have s1: "saved view committed C cl {} {k} [Del k] a a1" "da_txn a1"
    using a1(1) Cons.prems(1) lawfulD(7) [OF laws]
    by (auto simp: in_store_def remove_record_def mdbx_result_def saved_def now_def split: sum.splits)
  then obtain ops where "saved view committed C cl {} (set ks) ops a1 b" "da_txn b" using Cons.IH [OF _ a1(2)] by auto
  with saved_trans [OF s1(1) this(1)] show ?case by auto
qed

lemma save_pairs_saved:
  assumes laws: "lawful (de_mdbx E) view committed" and "save_pairs E ps a = (None, b)" and "\<forall>p \<in> set ps. p = None \<or> the p \<in> records C cl"
  shows "\<exists>ops. saved view committed C cl (set ps) {} ops a b"
proof -
  obtain a1 where a1: "assume_txn E a = (None, a1)" "put_pairs E ps a1 = (None, b)" using assms(2) by (auto simp: save_pairs_def)
  note s1 = assume_txn_saved(1) [OF laws a1(1), of C cl] assume_txn_saved(2) [OF laws a1(1)]
  obtain ops where "saved view committed C cl (set ps) {} ops a1 b" using put_pairs_saved [OF laws s1(2) a1(2) assms(3)] by blast
  with saved_trans [OF s1(1) this] show ?thesis by auto
qed

lemma remove_keys_saved:
  assumes laws: "lawful (de_mdbx E) view committed" and "remove_keys E prefix ks a = (None, b)"
  shows "\<exists>ops. saved view committed C cl {} ((@) prefix ` set ks) ops a b"
proof -
  obtain a1 where a1: "assume_txn E a = (None, a1)" "del_keys E (map ((@) prefix) ks) a1 = (None, b)" using assms(2) by (auto simp: remove_keys_def)
  note s1 = assume_txn_saved(1) [OF laws a1(1), of C cl] assume_txn_saved(2) [OF laws a1(1)]
  obtain ops where "saved view committed C cl {} (set (map ((@) prefix) ks)) ops a1 b" using del_keys_saved [OF laws s1(2) a1(2)] by blast
  with saved_trans [OF s1(1) this] show ?thesis by auto
qed

lemma save_folder_info_saved:
  assumes laws: "lawful (de_mdbx E) view committed" and "save_folder_info E fo a = (None, b)" and "folder_info_pair (de_codec E) fo \<in> records (de_codec E) cl"
  shows "\<exists>ops. saved view committed (de_codec E) cl {Some (folder_info_pair (de_codec E) fo)} {} ops a b \<and>
    Put (fst (folder_info_pair (de_codec E) fo)) (snd (folder_info_pair (de_codec E) fo)) \<in> set ops"
    and "da_uncommitted b = de_uncommitted_threshold E"
    and "da_folder_infos b = filter (\<lambda>x. x \<noteq> fo) (da_folder_infos a)"
proof -
  let ?C = "de_codec E"
  obtain k v where p: "folder_info_pair ?C fo = (k, v)" by (cases "folder_info_pair ?C fo")
  obtain a1 a2 where a: "get_txn E a = (None, a1)" "put_pair E (k, v) a1 = (None, a2)"
      "b = a2\<lparr>da_folder_infos := filter (\<lambda>x. x \<noteq> fo) (da_folder_infos a2), da_uncommitted := de_uncommitted_threshold E\<rparr>"
    using assms(2) p by (auto simp: save_folder_info_def force_commit_def)
  note s1 = get_txn_saved(1) [OF laws a(1), of ?C cl] get_txn_saved(2) [OF laws a(1)]
  note s2 = put_pair_saved(1) [OF laws s1(2) a(2), of ?C cl]
  have s: "saved view committed ?C cl {Some (k, v)} {} [Put k v] a a2" using saved_trans [OF s1(1) s2] assms(3) p by simp
  have i: "da_folder_infos a2 = da_folder_infos a"
    using a(1,2) by (auto simp: get_txn_def put_pair_def in_store_def split: if_splits sum.splits)
  have "saved view committed ?C cl {Some (k, v)} {} [Put k v] a b"
    by (rule saved_fewer [OF s]) (use p a(3) in \<open>auto simp: info_pairs_def\<close>)
  then show "\<exists>ops. saved view committed ?C cl {Some (folder_info_pair ?C fo)} {} ops a b \<and>
      Put (fst (folder_info_pair ?C fo)) (snd (folder_info_pair ?C fo)) \<in> set ops" using p by fastforce
  show "da_uncommitted b = de_uncommitted_threshold E" "da_folder_infos b = filter (\<lambda>x. x \<noteq> fo) (da_folder_infos a)" using a(3) i by simp_all
qed


lemma saved_mono:
  "saved view committed C cl req dels ops a b \<Longrightarrow> req' \<subseteq> req \<Longrightarrow> dels \<subseteq> dels' \<Longrightarrow> saved view committed C cl req' dels' ops a b"
  unfolding saved_def by blast

lemma pair_records:
  "p = device_pair C (devices_by_sha256 h (cl_devices cl)) \<Longrightarrow> p = None \<or> the p \<in> records C cl"
  "p = some_device_pair C (some_by_sha256 h (cl_pending_devices cl)) \<Longrightarrow> p = None \<or> the p \<in> records C cl"
  "p = some_device_pair C (some_by_sha256 h (cl_ignored_devices cl)) \<Longrightarrow> p = None \<or> the p \<in> records C cl"
  "p = folder_pair C (folders_by_id fid cl) \<Longrightarrow> p = None \<or> the p \<in> records C cl"
  "p = block_pair C cl (blocks_by_hash h cl) \<Longrightarrow> p = None \<or> the p \<in> records C cl"
  "p = Some (pending_folder_pair C q) \<Longrightarrow> q \<in> set (cl_pending_folders cl) \<Longrightarrow> p = None \<or> the p \<in> records C cl"
proof -
  have "p = None \<or> (\<exists>x \<in> set xs. p = f (Some x))" if "p = f (find P xs)" "f None = None" for p :: "(bytes \<times> bytes) option" and f P xs
    using that by (cases "find P xs") (auto dest: find_SomeD)
  note * = this
  show "p = None \<or> the p \<in> records C cl" if "p = device_pair C (devices_by_sha256 h (cl_devices cl))"
    using *[of p "device_pair C"] that unfolding devices_by_sha256_def gm_get_def
    by (fastforce simp: records_def device_pair_def)
  show "p = None \<or> the p \<in> records C cl" if "p = some_device_pair C (some_by_sha256 h (cl_pending_devices cl))"
    using *[of p "some_device_pair C"] that unfolding some_by_sha256_def gm_get_def
    by (fastforce simp: records_def some_device_pair_def)
  show "p = None \<or> the p \<in> records C cl" if "p = some_device_pair C (some_by_sha256 h (cl_ignored_devices cl))"
    using *[of p "some_device_pair C"] that unfolding some_by_sha256_def gm_get_def
    by (fastforce simp: records_def some_device_pair_def)
  show "p = None \<or> the p \<in> records C cl" if "p = folder_pair C (folders_by_id fid cl)"
    using *[of p "folder_pair C"] that unfolding folders_by_id_def gm_get_def
    by (fastforce simp: records_def folder_pair_def)
  show "p = None \<or> the p \<in> records C cl" if "p = block_pair C cl (blocks_by_hash h cl)"
    using *[of p "block_pair C cl"] that unfolding blocks_by_hash_def
    by (fastforce simp: records_def block_pair_def)
  show "p = None \<or> the p \<in> records C cl" if "p = Some (pending_folder_pair C q)" "q \<in> set (cl_pending_folders cl)"
    using that by (auto simp: records_def)
qed

lemma info_records:
  assumes "by_device dev fd = Some fo" and "fd \<in> set (cl_folders cl)"
  shows "folder_info_pair C fo \<in> records C cl" "p = file_pair C cl (by_name (cl_store cl) n fo) \<Longrightarrow> p = None \<or> the p \<in> records C cl"
proof -
  have fo: "fo \<in> set (fd_folder_infos fd)" using assms(1) by (auto simp: by_device_def gm_get_def dest: find_SomeD)
  show "folder_info_pair C fo \<in> records C cl" using fo assms(2) by (auto simp: records_def)
  show "p = None \<or> the p \<in> records C cl" if "p = file_pair C cl (by_name (cl_store cl) n fo)"
  proof (cases "by_name (cl_store cl) n fo")
    case None
    then show ?thesis using that by (simp add: file_pair_def)
  next
    case (Some f)
    then have "f \<in> set (fo_file_infos fo)" by (auto simp: by_name_def fm_by_def dest: find_SomeD)
    then show ?thesis using that Some fo assms(2) by (cases p) (auto simp: records_def)
  qed
qed

lemma folder_info_of_member: "folder_info_of fid dev cl = Some (fd, fo) \<Longrightarrow> by_device dev fd = Some fo \<and> fd \<in> set (cl_folders cl)"
  by (auto simp: folder_info_of_def folders_by_id_def gm_get_def dest: find_SomeD split: option.splits)


lemma save_update_folder_saved:
  assumes laws: "lawful (de_mdbx E) view committed" and "save_update_folder E cl fid peer_id fs a = (None, b)"
  shows "\<exists>ops. saved view committed (de_codec E) cl (set (needed_before (de_codec E) cl (update_folder fid peer_id fs uuids))) {} ops a b"
proof -
  obtain a1 where a1: "get_txn E a = (None, a1)" using assms(2) by (auto simp: save_update_folder_def)
  obtain fd fo where fo: "folder_info_of fid peer_id cl = Some (fd, fo)"
      "put_pairs E (needed_before (de_codec E) cl (update_folder fid peer_id fs uuids)) a1 = (None, b)"
    using assms(2) a1 by (auto simp: save_update_folder_def split: option.splits)
  have "\<forall>p \<in> set (needed_before (de_codec E) cl (update_folder fid peer_id fs uuids)). p = None \<or> the p \<in> records (de_codec E) cl"
    using info_records folder_info_of_member [OF fo(1)] fo(1) by fastforce
  then obtain ops where "saved view committed (de_codec E) cl (set (needed_before (de_codec E) cl (update_folder fid peer_id fs uuids))) {} ops a1 b"
    using put_pairs_saved [OF laws get_txn_saved(2) [OF laws a1] fo(2)] by blast
  then show ?thesis using saved_trans [OF get_txn_saved(1) [OF laws a1, of "de_codec E" cl]] by fastforce
qed

lemma save_advance_saved:
  assumes laws: "lawful (de_mdbx E) view committed" and "save_advance E cl fid local a = (None, b)"
  shows "\<exists>ops. saved view committed (de_codec E) cl (set (needed_before (de_codec E) cl (advance action fid peer_id uuid source local))) {} ops a b"
proof (cases "needed_before (de_codec E) cl (advance action fid peer_id uuid source local) = []")
  case True
  then have "b = a" using assms(2) by (auto simp: save_advance_def split: option.splits if_splits)
  then show ?thesis using saved_refl True by fastforce
next
  case False
  let ?C = "de_codec E"
  obtain fd fo f where fo: "folders_by_id fid cl = Some fd" "by_device (cl_self cl) fd = Some fo" "\<not> fd_suspended fd"
      "by_name (cl_store cl) (pf_name local) fo = Some f"
    using False by (auto split: option.splits if_splits)
  then obtain a1 where a1: "save_pairs E [file_pair ?C cl (Some f)] a = (None, a1)"
      "b = (if fo \<in> set (da_folder_infos a1) then a1 else a1\<lparr>da_folder_infos := da_folder_infos a1 @ [fo]\<rparr>)"
    using assms(2) by (auto simp: save_advance_def)
  have m: "fd \<in> set (cl_folders cl)" using fo(1) by (auto simp: folders_by_id_def gm_get_def dest: find_SomeD)
  have "file_pair ?C cl (Some f) = None \<or> the (file_pair ?C cl (Some f)) \<in> records ?C cl"
    using info_records(2) [OF fo(2) m, of "file_pair ?C cl (Some f)" ?C "pf_name local"] fo(4) by simp
  then obtain ops where ops: "saved view committed ?C cl {file_pair ?C cl (Some f)} {} ops a a1"
    using save_pairs_saved [OF laws a1(1), of ?C cl] by auto
  have i: "info_pairs ?C b = insert (folder_info_pair ?C fo) (info_pairs ?C a1)" using a1(2) by (auto simp: info_pairs_def)
  have "saved view committed ?C cl {Some (folder_info_pair ?C fo)} {} [] a1 b"
    using info_records(1) [OF fo(2) m, of ?C] a1(2) unfolding saved_def i
    by (cases "folder_info_pair ?C fo") (auto simp: now_def)
  from saved_trans [OF ops this]
  have "saved view committed ?C cl {Some (folder_info_pair ?C fo), file_pair ?C cl (Some f)} {} ops a b" by simp
  moreover have "set (needed_before ?C cl (advance action fid peer_id uuid source local)) = {Some (folder_info_pair ?C fo), file_pair ?C cl (Some f)}"
    using fo by auto
  ultimately show ?thesis by metis
qed

lemma save_before_saved:
  assumes laws: "lawful (de_mdbx E) view committed" and "save_before E cl c a = (None, b)"
  shows "\<exists>ops. saved view committed (de_codec E) cl (set (needed_before (de_codec E) cl c)) (set (removed_keys c)) ops a b"
proof -
  let ?C = "de_codec E"
  let ?goal = "\<exists>ops. saved view committed ?C cl (set (needed_before ?C cl c)) (set (removed_keys c)) ops a b"
  have pairs: ?goal if "save_before E cl c a = save_pairs E (needed_before ?C cl c) a" "removed_keys c = []"
      "\<And>p. p \<in> set (needed_before ?C cl c) \<Longrightarrow> p = None \<or> the p \<in> records ?C cl"
    using save_pairs_saved [OF laws, of "needed_before ?C cl c" a b ?C cl] that assms(2) by auto
  have keys: ?goal if "save_before E cl c a = remove_keys E prefix ks a" "needed_before ?C cl c = []" "set (removed_keys c) = (@) prefix ` set ks" for prefix ks
    using remove_keys_saved [OF laws, of prefix ks a b ?C cl] that assms(2) by auto
  have txn: ?goal if "save_before E cl c a = assume_txn E a" "needed_before ?C cl c = []"
    using saved_mono [OF assume_txn_saved(1) [OF laws, of a b ?C cl]] that assms(2) by fastforce
  have pending: "pending_folder_pair ?C q \<in> records ?C cl" if "q \<in> set (cl_pending_folders cl)" for q
    using that by (simp add: records_def)
  have blk: "block_pair ?C cl (blocks_by_hash h cl) = None \<or> the (block_pair ?C cl (blocks_by_hash h cl)) \<in> records ?C cl" for h
    by (rule pair_records(5)) simp
  have fdp: "folder_pair ?C (folders_by_id i cl) = None \<or> the (folder_pair ?C (folders_by_id i cl)) \<in> records ?C cl" for i
    by (rule pair_records(4)) simp
  show ?thesis
  proof (cases c)
    case (upsert_folder_info uuid dev ikey fid index_id)
    then obtain fd fo where fo: "folder_info_of fid dev cl = Some (fd, fo)" "save_folder_info E fo a = (None, b)"
      using assms(2) by (auto simp: save_upsert_folder_info_def split: option.splits prod.splits)
    have "folder_info_pair ?C fo \<in> records ?C cl" using info_records(1) folder_info_of_member [OF fo(1)] by blast
    from save_folder_info_saved(1) [OF laws fo(2) this] show ?thesis using upsert_folder_info fo(1) by auto
  next
    case (advance action fid peer_id uuid source local)
    then show ?thesis using save_advance_saved [OF laws, of cl fid local a b action peer_id uuid source] assms(2) by simp
  next
    case (update_folder fid peer_id fs uuids)
    then show ?thesis using save_update_folder_saved [OF laws, of cl fid peer_id fs a b uuids] assms(2) by simp
  next
    case (add_pending_folders items)
    have "p = None \<or> the p \<in> records ?C cl" if "p \<in> set (offered_pairs ?C cl items)" for p
      using that pending by (auto simp: offered_pairs_def map_filter_def gm_get_def bind_eq_Some_conv dest!: in_set_takeD find_SomeD split: if_splits)
    then show ?thesis using add_pending_folders by (intro pairs) auto
  next
    case (cluster_update p)
    then show ?thesis using pending by (intro pairs) auto
  next
    case (add_blocks bs)
    then show ?thesis by (intro pairs) (use blk in auto)
  next
    case (remove_blocks hs)
    then show ?thesis by (intro keys [of "[block_prefix]" hs]) auto
  next
    case (remove_files fid dev ks)
    then show ?thesis by (intro keys [of "[]" ks]) auto
  next
    case (remove_corrupted_files ks)
    then show ?thesis by (intro keys [of "[]" ks]) auto
  next
    case (remove_folder_infos ks)
    then show ?thesis by (intro keys [of "[]" ks]) auto
  next
    case (remove_pending_folders ks)
    then show ?thesis by (intro keys [of "[]" ks]) auto
  next
    case (remove_folder fid k)
    then show ?thesis by (intro keys [of "[]" "[k]"]) auto
  next
    case (remove_ignored_device k)
    then show ?thesis by (intro keys [of "[]" "[k]"]) auto
  next
    case (remove_pending_device k)
    then show ?thesis by (intro keys [of "[]" "[k]"]) auto
  next
    case (remove_peer k)
    then show ?thesis by (intro txn) auto
  next
    case (add_ignored_device did db)
    then show ?thesis by (intro txn) auto
  next
    case (upsert_folder uuid db is_new)
    then show ?thesis by (intro pairs) (use fdp in auto)
  next
    case (add_pending_device did db)
    then show ?thesis by (intro pairs) (use pair_records(2) [OF refl, of ?C _ cl] in auto)
  next
    case (update_peer peer_id db)
    then show ?thesis by (intro pairs) (use pair_records(1) [OF refl, of ?C _ cl] in auto)
  next
    case (peer_state peer_id state cn cv was_online)
    then show ?thesis by (intro pairs) (use pair_records(1) [OF refl, of ?C _ cl] in auto)
  next
    case (ignored_connected did db)
    then show ?thesis by (intro pairs) (use pair_records(3) [OF refl, of ?C _ cl] in auto)
  next
    case (unknown_connected did db)
    then show ?thesis by (intro pairs) (use pair_records(2) [OF refl, of ?C _ cl] in auto)
  qed (use assms(2) in \<open>auto intro!: exI saved_refl\<close>)
qed


lemma save_after_saved:
  assumes laws: "lawful (de_mdbx E) view committed" and "save_after E cl c a = (None, b)" and "da_txn a"
  shows "\<exists>ops. saved view committed (de_codec E) cl (set (needed_after (de_codec E) cl c)) (set (removed_keys c)) ops a b"
proof (cases "\<exists>did db. c = add_ignored_device did db")
  case True
  then obtain did db where c: "c = add_ignored_device did db" by blast
  have "\<forall>p \<in> set (needed_after (de_codec E) cl c). p = None \<or> the p \<in> records (de_codec E) cl"
    using pair_records(3) [OF refl, of "de_codec E" _ cl] c by auto
  then show ?thesis using put_pairs_saved [OF laws assms(3), of "needed_after (de_codec E) cl c" b "de_codec E" cl] assms(2) c by auto
next
  case False
  show ?thesis
  proof (cases "\<exists>k. c = remove_peer k")
    case True
    then obtain k where k: "c = remove_peer k" by blast
    have "del_keys E [k] a = (None, b)" using assms(2) k by (simp del: del_keys.simps)
    from del_keys_saved [OF laws assms(3) this, of "de_codec E" cl] show ?thesis using k by auto
  next
    case no: False
    then have "b = a" "needed_after (de_codec E) cl c = []" using assms(2) False by (cases c; auto)+
    then show ?thesis using saved_mono [OF saved_refl] by fastforce
  qed
qed

lemma before_txn:
  assumes "save_before E cl c a = (None, b)" and "c = add_ignored_device did db \<or> c = remove_peer key"
  shows "da_txn b"
  using assms by (auto simp: assume_txn_def get_txn_def split: if_splits sum.splits prod.splits option.splits)

lemma finish_saved: "finish_visit E c a = (None, b) \<Longrightarrow> saved view committed C cl {} {} [] a b"
  by (cases c) (auto simp: finish_visit_def force_commit_def saved_def now_def split: if_splits)

lemma visit_chain_saved:
  assumes laws: "lawful (de_mdbx E) view committed" and "visit_chain E cl ds a = (None, b)"
  shows "\<exists>ops. saved view committed (de_codec E) cl (needed (de_codec E) cl (reached cl ds)) (removed (reached cl ds)) ops a b"
  using assms(2)
proof (induction cl ds arbitrary: a b rule: reached.induct)
  case (1 cl)
  then show ?case by (auto simp: needed_def removed_def intro!: exI saved_refl)
next
  case (2 cl p ch siblings)
  let ?C = "de_codec E"
  show ?case
  proof (cases p)
    case interrupt
    then show ?thesis using "2.prems" by (auto simp: needed_def removed_def intro!: exI saved_refl)
  next
    case commit
    then obtain a1 where a1: "visit_chain E cl ch a = (None, a1)" "visit_chain E cl siblings a1 = (None, b)" using "2.prems" by auto
    obtain ops1 ops2 where ops: "saved view committed ?C cl (needed ?C cl (reached cl ch)) (removed (reached cl ch)) ops1 a a1"
        "saved view committed ?C cl (needed ?C cl (reached cl siblings)) (removed (reached cl siblings)) ops2 a1 b"
      using "2.IH"(1,2) [OF commit] a1 by blast
    from saved_trans [OF this] show ?thesis using commit by (auto simp: needed_def removed_def)
  next
    case (change c)
    show ?thesis
    proof (cases "stops_visit cl c")
      case True
      then show ?thesis using "2.prems" change by (auto simp: needed_def removed_def intro!: exI saved_refl)
    next
      case False
      then obtain a1 a2 a3 a4 where v: "save_before E cl c a = (None, a1)" "visit_chain E cl ch a1 = (None, a2)"
          "visit_chain E cl siblings a2 = (None, a3)" "save_after E cl c a3 = (None, a4)" "finish_visit E c a4 = (None, b)"
        using "2.prems" change by auto
      obtain o1 where o1: "saved view committed ?C cl (set (needed_before ?C cl c)) (set (removed_keys c)) o1 a a1"
        using save_before_saved [OF laws v(1)] by blast
      obtain o2 o3 where o23: "saved view committed ?C cl (needed ?C cl (reached cl ch)) (removed (reached cl ch)) o2 a1 a2"
          "saved view committed ?C cl (needed ?C cl (reached cl siblings)) (removed (reached cl siblings)) o3 a2 a3"
        using "2.IH"(3,4) [OF change False] v(2,3) by blast
      have "\<exists>o4. saved view committed ?C cl (set (needed_after ?C cl c)) (set (removed_keys c)) o4 a3 a4"
      proof (cases "da_txn a3")
        case True
        show ?thesis by (rule save_after_saved [OF laws v(4) True])
      next
        case no: False
        have "\<not> da_txn a1" using no o23 by (auto simp: saved_def)
        then have "save_after E cl c a3 = (None, a3)" "needed_after ?C cl c = []"
          using before_txn [OF v(1)] by (cases c; auto)+
        then show ?thesis using v(4) saved_mono [OF saved_refl] by fastforce
      qed
      then obtain o4 where o4: "saved view committed ?C cl (set (needed_after ?C cl c)) (set (removed_keys c)) o4 a3 a4" by blast
      note all = saved_trans [OF saved_trans [OF saved_trans [OF saved_trans [OF o1 o23(1)] o23(2)] o4] finish_saved [OF v(5)]]
      have "needed ?C cl (reached cl (Diff p ch # siblings)) \<subseteq> set (needed_before ?C cl c) \<union> needed ?C cl (reached cl ch) \<union>
          needed ?C cl (reached cl siblings) \<union> set (needed_after ?C cl c) \<union> {}"
        using change False by (auto simp: needed_def)
      moreover have "set (removed_keys c) \<union> removed (reached cl ch) \<union> removed (reached cl siblings) \<union> set (removed_keys c) \<union> {} \<subseteq>
          removed (reached cl (Diff p ch # siblings))"
        using change False by (auto simp: removed_def)
      ultimately show ?thesis using saved_mono [OF all] by blast
    qed
  qed
qed


lemma save_folder_infos_saved:
  assumes laws: "lawful (de_mdbx E) view committed" and "save_folder_infos E fos a = (None, b)" and "\<forall>fo \<in> set fos. folder_info_pair (de_codec E) fo \<in> records (de_codec E) cl"
  shows "\<exists>ops. saved view committed (de_codec E) cl {} {} ops a b \<and>
    (\<forall>fo \<in> set fos. Put (fst (folder_info_pair (de_codec E) fo)) (snd (folder_info_pair (de_codec E) fo)) \<in> set ops)"
  using assms(2,3)
proof (induction fos arbitrary: a)
  case Nil
  then show ?case by (auto intro!: exI saved_refl)
next
  case (Cons fo fos)
  let ?C = "de_codec E"
  obtain a1 where a1: "save_folder_info E fo a = (None, a1)" "save_folder_infos E fos a1 = (None, b)" using Cons.prems by auto
  obtain o1 where o1: "saved view committed ?C cl {Some (folder_info_pair ?C fo)} {} o1 a a1"
      "Put (fst (folder_info_pair ?C fo)) (snd (folder_info_pair ?C fo)) \<in> set o1"
    using save_folder_info_saved(1) [OF laws a1(1)] Cons.prems(2) by auto
  obtain o2 where o2: "saved view committed ?C cl {} {} o2 a1 b"
      "\<forall>fo \<in> set fos. Put (fst (folder_info_pair ?C fo)) (snd (folder_info_pair ?C fo)) \<in> set o2"
    using Cons.IH [OF a1(2)] Cons.prems(2) by auto
  have "saved view committed ?C cl {} {} (o1 @ o2) a b" by (rule saved_mono [OF saved_trans [OF o1(1) o2(1)]]) auto
  then show ?case using o1(2) o2(2) by (intro exI [of _ "o1 @ o2"]) auto
qed

definition due :: "'s db_env \<Rightarrow> 's db_actor \<Rightarrow> bool" where
  "due E a \<longleftrightarrow> (da_txn a \<longrightarrow> da_uncommitted a = de_uncommitted_threshold E)"

lemma save_folder_info_due: "save_folder_info E fo a = (None, b) \<Longrightarrow> due E b"
  by (auto simp: save_folder_info_def force_commit_def due_def)

lemma save_folder_infos_due: "save_folder_infos E fos a = (None, b) \<Longrightarrow> due E a \<Longrightarrow> due E b"
  by (induction fos arbitrary: a) (auto dest: save_folder_info_due)

lemma finish_due:
  assumes "finish_visit E c a = (None, b)" and "is_persisted c" and "\<nexists>uuid dev ikey fid index_id. c = upsert_folder_info uuid dev ikey fid index_id"
  shows "due E b"
  using assms by (cases c) (auto simp: finish_visit_def force_commit_def due_def)

lemma visit_chain_due:
  assumes "visit_chain E cl ds a = (None, b)" and "due E a"
  shows "due E b"
  using assms
proof (induction cl ds arbitrary: a b rule: reached.induct)
  case (1 cl)
  then show ?case by simp
next
  case (2 cl p ch siblings)
  show ?case
  proof (cases p)
    case interrupt
    then show ?thesis using "2.prems" by simp
  next
    case commit
    then show ?thesis using "2.prems" "2.IH"(1,2) [OF commit] by auto
  next
    case (change c)
    show ?thesis
    proof (cases "stops_visit cl c")
      case True
      then show ?thesis using "2.prems" change by simp
    next
      case False
      then obtain a1 a2 a3 a4 where v: "save_before E cl c a = (None, a1)" "visit_chain E cl ch a1 = (None, a2)"
          "visit_chain E cl siblings a2 = (None, a3)" "save_after E cl c a3 = (None, a4)" "finish_visit E c a4 = (None, b)"
        using "2.prems" change by auto
      note IH = "2.IH"(3,4) [OF change False]
      show ?thesis
      proof (cases "is_persisted c \<and> (\<nexists>uuid dev ikey fid index_id. c = upsert_folder_info uuid dev ikey fid index_id)")
        case True
        then show ?thesis using finish_due [OF v(5)] by blast
      next
        case no: False
        then have "due E a1" using v(1) "2.prems"(2)
          by (cases c) (auto simp: save_upsert_folder_info_def dest: save_folder_info_due split: option.splits prod.splits)
        then have "due E a3" using IH v(2,3) by blast
        moreover have "b = a3" using no v(4,5) by (cases c) (auto simp: finish_visit_def)
        ultimately show ?thesis by simp
      qed
    qed
  qed
qed

lemma run_ops_cases:
  "fold run_op ops m k = m k \<or> (\<exists>v. Put k v \<in> set ops \<and> fold run_op ops m k = Some v) \<or> (Del k \<in> set ops \<and> fold run_op ops m k = None)"
proof (induction ops rule: rev_induct)
  case (snoc op ops)
  then show ?case by (cases op) auto
qed simp

lemma run_ops_put:
  assumes "Put k v \<in> set ops" and "Del k \<notin> set ops" and "\<And>w. Put k w \<in> set ops \<Longrightarrow> w = v"
  shows "fold run_op ops m k = Some v"
  using assms
proof (induction ops rule: rev_induct)
  case (snoc op ops)
  have IH: "fold run_op ops m k = Some v" if "Put k v \<in> set ops" using snoc.IH [OF that] snoc.prems(2,3) by fastforce
  show ?case
  proof (cases op)
    case (Put j w)
    then show ?thesis using IH snoc.prems(1) snoc.prems(3) [of w] by (cases "j = k") auto
  next
    case (Del j)
    then show ?thesis using IH snoc.prems(1,2) by auto
  qed
qed simp

lemma visit_batch:
  assumes laws: "lawful (de_mdbx E) view committed" and "visit_db E cl ds a = b" and "da_shutdown a = None" "da_shutdown b = None" and "\<not> da_txn a"
  shows "\<not> da_txn b \<and> (\<exists>ops. committed (da_store b) = fold run_op ops (committed (da_store a)) \<and>
    (\<forall>k v. Put k v \<in> set ops \<longrightarrow> (k, v) \<in> records (de_codec E) cl) \<and> (\<forall>k. Del k \<in> set ops \<longrightarrow> k \<in> removed (reached cl ds)) \<and>
    (\<forall>p \<in> needed (de_codec E) cl (reached cl ds). \<exists>k v. p = Some (k, v) \<and> Put k v \<in> set ops))"
proof -
  let ?C = "de_codec E" and ?a = "a\<lparr>da_folder_infos := []\<rparr>"
  obtain a1 a2 where v: "visit_chain E cl ds ?a = (None, a1)" "save_folder_infos E (da_folder_infos a1) a1 = (None, a2)"
      "commit_on_demand E a2 = (None, b)"
    using assms(2,4) by (cases "and_then (visit_chain E cl ds ?a) (\<lambda>a. and_then (save_folder_infos E (da_folder_infos a) a) (commit_on_demand E))")
      (auto simp: visit_db_def split: option.splits)
  obtain o1 where o1: "saved view committed ?C cl (needed ?C cl (reached cl ds)) (removed (reached cl ds)) o1 ?a a1"
    using visit_chain_saved [OF laws v(1)] by blast
  have i: "info_pairs ?C a1 \<subseteq> records ?C cl" using o1 by (auto simp: saved_def info_pairs_def)
  then have "\<forall>fo \<in> set (da_folder_infos a1). folder_info_pair ?C fo \<in> records ?C cl" by (auto simp: info_pairs_def)
  from save_folder_infos_saved [OF laws v(2) this] obtain o2 where o2: "saved view committed ?C cl {} {} o2 a1 a2"
      "\<forall>fo \<in> set (da_folder_infos a1). Put (fst (folder_info_pair ?C fo)) (snd (folder_info_pair ?C fo)) \<in> set o2" by blast
  have "due E a2" using visit_chain_due [OF v(1)] save_folder_infos_due [OF v(2)] assms(5) by (auto simp: due_def)
  then have c: "\<not> da_txn b" "committed (da_store b) = now view committed a2"
    using v(3) lawfulD(3) [OF laws] by (auto simp: commit_on_demand_def due_def now_def Let_def split: if_splits sum.splits)
  have n: "now view committed a2 = fold run_op (o1 @ o2) (committed (da_store a))"
    using o1 o2(1) assms(5) by (auto simp: saved_def now_def)
  have "\<exists>k v. p = Some (k, v) \<and> Put k v \<in> set (o1 @ o2)" if "p \<in> needed ?C cl (reached cl ds)" for p
  proof -
    obtain k v where p: "p = Some (k, v)" "Put k v \<in> set o1 \<or> (k, v) \<in> info_pairs ?C a1" using o1 \<open>p \<in> _\<close> unfolding saved_def by blast
    have "Put k v \<in> set o2" if i: "(k, v) \<in> info_pairs ?C a1"
    proof -
      obtain fo where "fo \<in> set (da_folder_infos a1)" "(k, v) = folder_info_pair ?C fo" using i by (auto simp: info_pairs_def)
      then show ?thesis using o2(2) by (metis fst_conv snd_conv)
    qed
    then have "Put k v \<in> set (o1 @ o2)" using p(2) by auto
    then show ?thesis using p(1) by blast
  qed
  moreover have "(k, v) \<in> records ?C cl" if "Put k v \<in> set (o1 @ o2)" for k v using that o1 o2(1) by (auto simp: saved_def)
  moreover have "k \<in> removed (reached cl ds)" if "Del k \<in> set (o1 @ o2)" for k using that o1 o2(1) by (auto simp: saved_def)
  ultimately show ?thesis using c n by (intro conjI exI [of _ "o1 @ o2"]) auto
qed

text \<open>
  C12: A visit of the database that does not shut the actor down has committed all it wrote. A record that changed holds what
  the cluster has for its key, or its key was removed by a diff of the chain and it is gone.
\<close>

theorem visit_durable:
  assumes "lawful (de_mdbx E) view committed" and "visit_db E cl ds a = b" and "da_shutdown a = None" "da_shutdown b = None" and "\<not> da_txn a"
  shows "\<not> da_txn b \<and> (\<forall>k. committed (da_store b) k = committed (da_store a) k \<or>
      (\<exists>v. (k, v) \<in> records (de_codec E) cl \<and> committed (da_store b) k = Some v) \<or>
      (k \<in> removed (reached cl ds) \<and> committed (da_store b) k = None))"
proof -
  obtain ops where ops: "committed (da_store b) = fold run_op ops (committed (da_store a))"
      "\<forall>k v. Put k v \<in> set ops \<longrightarrow> (k, v) \<in> records (de_codec E) cl" "\<forall>k. Del k \<in> set ops \<longrightarrow> k \<in> removed (reached cl ds)"
    using visit_batch [OF assms] by blast
  then show ?thesis using visit_batch [OF assms] run_ops_cases [of ops "committed (da_store a)"] by metis
qed

lemma needed_committed:
  assumes "lawful (de_mdbx E) view committed" and "visit_db E cl ds a = b" and "da_shutdown a = None" "da_shutdown b = None" and "\<not> da_txn a"
    and "inj_on fst (records (de_codec E) cl)" and "p \<in> needed (de_codec E) cl (reached cl ds)"
  shows "\<exists>k v. p = Some (k, v) \<and> (k \<in> removed (reached cl ds) \<or> committed (da_store b) k = Some v)"
proof -
  let ?R = "records (de_codec E) cl"
  obtain ops where ops: "committed (da_store b) = fold run_op ops (committed (da_store a))"
      "\<And>k v. Put k v \<in> set ops \<Longrightarrow> (k, v) \<in> ?R" "\<And>k. Del k \<in> set ops \<Longrightarrow> k \<in> removed (reached cl ds)"
      "\<exists>k v. p = Some (k, v) \<and> Put k v \<in> set ops"
    using visit_batch [OF assms(1-5)] assms(7) by meson
  then obtain k v where p: "p = Some (k, v)" "Put k v \<in> set ops" by blast
  have "w = v" if "Put k w \<in> set ops" for w using inj_onD [OF assms(6) _ ops(2) [OF that] ops(2) [OF p(2)]] by simp
  then have "committed (da_store b) k = Some v" if "k \<notin> removed (reached cl ds)"
    using run_ops_put [OF p(2)] ops(1,3) that by metis
  then show ?thesis using p(1) by blast
qed


text \<open>A peer's record in a new database.\<close>

definition sample_db_env :: "memory db_env" where
  "sample_db_env = \<lparr>de_mdbx = memory_mdbx, de_codec = sample_db_codec, de_uncommitted_threshold = 150, de_max_blocks_per_diff = 1, de_max_files_per_diff = 1\<rparr>"

definition sample_actor :: "memory db_actor" where
  "sample_actor = \<lparr>da_store = ([], []), da_txn = False, da_uncommitted = 0, da_folder_infos = [], da_shutdown = None\<rparr>"

definition peer_cluster :: cluster where
  "peer_cluster = (new_cluster sample_device 0)\<lparr>cl_devices := [sample_device]\<rparr>"

definition peer_chain :: "cdiff list" where
  "peer_chain = [Diff (change (update_peer (replicate 32 1) (device_serialize sample_device))) []]"

lemma peer_visit:
  "da_shutdown sample_actor = None" "\<not> da_txn sample_actor" "da_shutdown (visit_db sample_db_env peer_cluster peer_chain sample_actor) = None"
  "map_of (snd (da_store (visit_db sample_db_env peer_cluster peer_chain sample_actor))) (dv_key sample_device) = Some [9]"
  by code_simp+

lemma sample_env_lawful: "lawful (de_mdbx sample_db_env) (\<lambda>s. map_of (fst s)) (\<lambda>s. map_of (snd s))"
  using memory_lawful by (simp add: sample_db_env_def)

theorem visit_durable_witness:
  "\<not> da_txn (visit_db sample_db_env peer_cluster peer_chain sample_actor) \<and>
   (\<forall>k. map_of (snd (da_store (visit_db sample_db_env peer_cluster peer_chain sample_actor))) k = map_of (snd (da_store sample_actor)) k \<or>
      (\<exists>v. (k, v) \<in> records (de_codec sample_db_env) peer_cluster \<and>
        map_of (snd (da_store (visit_db sample_db_env peer_cluster peer_chain sample_actor))) k = Some v) \<or>
      (k \<in> removed (reached peer_cluster peer_chain) \<and>
        map_of (snd (da_store (visit_db sample_db_env peer_cluster peer_chain sample_actor))) k = None))"
  by (rule visit_durable [OF sample_env_lawful refl peer_visit(1,3,2)])


subsection \<open>Blocks with a short hash\<close>

lemma new_block_padded:
  assumes "\<forall>p \<in> set (cl_blocks cl). length (hash_at (cl_store cl) p) = 32" and "length (bi_hash b) = 32"
  shows "\<forall>p \<in> set (cl_blocks (put_new_block b cl)). length (hash_at (cl_store (put_new_block b cl)) p) = 32"
  using assms by (auto simp: put_new_block_def put_block_def hash_at_def)

lemma add_blocks_padded:
  assumes "\<forall>p \<in> set (cl_blocks cl). length (hash_at (cl_store cl) p) = 32" and "apply_add_blocks bs cl = (None, cl')"
  shows "\<forall>p \<in> set (cl_blocks cl'). length (hash_at (cl_store cl') p) = 32"
  using assms
proof (induction bs arbitrary: cl)
  case (Cons b bs)
  then obtain blk where blk: "bi_create_proto b = Inr blk" "apply_add_blocks bs (put_new_block blk cl) = (None, cl')"
    by (auto split: sum.splits)
  have "length (bi_hash blk) = 32" using blk(1) by (auto simp: bi_create_proto_def Let_def block_digest_length_def split: if_splits)
  from Cons.IH [OF new_block_padded [OF Cons.prems(1) this] blk(2)] show ?case .
qed simp

lemma put_pairs_broken:
  assumes "\<And>k v s. \<exists>s'. mx_put (de_mdbx E) k v s = Inr s'" and "None \<in> set ps"
  shows "fst (put_pairs E ps a) = Some broken"
  using assms(2)
proof (induction ps arbitrary: a)
  case (Cons p ps)
  show ?case
  proof (cases p)
    case (Some kv)
    obtain k v where kv: "kv = (k, v)" by (cases kv)
    obtain s' where "mx_put (de_mdbx E) k v (da_store a) = Inr s'" using assms(1) by blast
    then have "put_pair E kv a = (None, a\<lparr>da_store := s'\<rparr>)" using kv by (simp add: put_pair_def in_store_def save_def mdbx_result_def)
    then show ?thesis using Cons Some by (simp add: and_then_def)
  qed simp
qed simp

text \<open>
  C32: A block that a peer announces with a hash shorter than a digest is put into the cluster with its hash padded, but the
  visitor looks it up by the hash as it came and follows the pointer it does not get.
\<close>

theorem short_hash_crashes:
  assumes "\<forall>p \<in> set (cl_blocks cl). length (hash_at (cl_store cl) p) = 32" and "apply_add_blocks bs cl = (None, cl')"
    and "b \<in> set bs" and "length (pb_hash b) < 32" and "\<not> cl_tainted cl'"
    and "\<forall>k v s. \<exists>s'. mx_put (de_mdbx E) k v s = Inr s'" and "\<forall>s. \<exists>s'. mx_begin (de_mdbx E) True s = Inr s'"
  shows "da_shutdown (visit_db E cl' [Diff (change (add_blocks bs)) []] a) = Some broken"
proof -
  let ?ps = "map (\<lambda>b. block_pair (de_codec E) cl' (blocks_by_hash (pb_hash b) cl')) bs" and ?a = "a\<lparr>da_folder_infos := []\<rparr>"
  have "blocks_by_hash (pb_hash b) cl' = None"
    using add_blocks_padded [OF assms(1,2)] assms(4) by (auto simp: blocks_by_hash_def find_None_iff)
  then have "None \<in> set ?ps" using assms(3) by (force simp: block_pair_def)
  then have "fst (put_pairs E ?ps x) = Some broken" for x using put_pairs_broken [of E] assms(6) by blast
  moreover obtain s' where "mx_begin (de_mdbx E) True (da_store ?a) = Inr s'" using assms(7) by blast
  then have "fst (assume_txn E ?a) = None" by (simp add: assume_txn_def get_txn_def)
  then obtain x where "assume_txn E ?a = (None, x)" by (cases "assume_txn E ?a") simp
  ultimately have "fst (save_pairs E ?ps ?a) = Some broken" by (simp add: save_pairs_def and_then_def)
  then show ?thesis using assms(5) by (cases "save_pairs E ?ps ?a") (simp add: visit_db_def and_then_def)
qed

theorem short_hash_crashes_witness:
  "da_shutdown (visit_db sample_db_env (snd (apply_add_blocks [\<lparr>pb_offset = 0, pb_size = 5, pb_hash = [1]\<rparr>] peer_cluster))
     [Diff (change (add_blocks [\<lparr>pb_offset = 0, pb_size = 5, pb_hash = [1]\<rparr>])) []] sample_actor) = Some broken"
proof -
  let ?bs = "[\<lparr>pb_offset = 0, pb_size = 5, pb_hash = [1]\<rparr>]"
  have "apply_add_blocks ?bs peer_cluster = (None, snd (apply_add_blocks ?bs peer_cluster))" "\<not> cl_tainted (snd (apply_add_blocks ?bs peer_cluster))"
    "cl_blocks peer_cluster = []"
    by (simp_all add: bi_create_proto_def block_digest_length_def put_new_block_def blocks_by_hash_def peer_cluster_def new_cluster_def)
  moreover have "\<forall>k v s. \<exists>s'. mx_put (de_mdbx sample_db_env) k v s = Inr s'" "\<forall>s. \<exists>s'. mx_begin (de_mdbx sample_db_env) True s = Inr s'"
    by (simp_all add: sample_db_env_def memory_mdbx_def)
  ultimately show ?thesis by (intro short_hash_crashes [of peer_cluster ?bs]) auto
qed

end
