(* ===== verification/Db_Loading.thy ===== *)
theory Db_Loading
  imports Db_Actor
begin

text \<open>
  The start of the database actor (\<^verbatim>\<open>src/net/db_actor.cpp\<close>): opening with a migration where it is due, and loading,
  which turns the records of the database into a tree of diffs, in turns of bounded size, with what is found broken among them.
\<close>

subsection \<open>Opening\<close>

text \<open>
  The environment is open. Where the version cannot be read the error is the code of the last call to the library, which is that of
  success. The transaction that reads the version ends before the one that writes begins.
\<close>

definition open_db :: "'s mdbx \<Rightarrow> db_codec \<Rightarrow> device \<Rightarrow> 's \<Rightarrow> (db_error, 's) result option" where
  "open_db M C dev s =
     (case mx_begin M False s of
          Inl _ \<Rightarrow> Some (Inl (mdbx_failure 0))
        | Inr s \<Rightarrow> (case get_version M s of
            Inl _ \<Rightarrow> Some (Inl (mdbx_failure 0))
          | Inr v \<Rightarrow>
              if unat v = db_version then Some (Inr (case mx_commit M s of Inl _ \<Rightarrow> s | Inr s \<Rightarrow> s))
              else case mx_commit M s of
                  Inl _ \<Rightarrow> Some (Inl broken)
                | Inr s \<Rightarrow> (case mx_begin M True s of
                    Inl _ \<Rightarrow> Some (Inl broken)
                  | Inr s \<Rightarrow> migrate M C (unat v) dev s)))"

subsection \<open>Loading\<close>

text \<open>
  The children of the diff that is being made, the hashes and folder infos seen so far, and the records still to unpack; a pointer into a
  container is what is left of it, and the null pointer the empty rest.
\<close>

record 's partial_load =
  pl_totals :: "nat \<times> nat"
  pl_chain :: "cdiff list"
  pl_known_hashes :: "bytes list"
  pl_blocks_left :: "(bytes \<times> bytes) list"
  pl_files_left :: "(bytes \<times> bytes) list"
  pl_uuids :: "bytes list"
  pl_corrupted :: "bytes list"
  pl_store :: 's

abbreviation leaf :: "change \<Rightarrow> cdiff" where "leaf c \<equiv> Diff (change c) []"

definition loading :: "'s mdbx \<Rightarrow> u8 \<Rightarrow> 's \<Rightarrow> ((bytes \<times> bytes) list \<Rightarrow> (db_error, 'a) result option) \<Rightarrow> (db_error, 'a) result option" where
  "loading M prefix s f = (case load M prefix s of
     None \<Rightarrow> None | Some (Inl e) \<Rightarrow> Some (Inl e) | Some (Inr kvs) \<Rightarrow> f kvs)"

fun unpack_folder_infos :: "db_codec \<Rightarrow> (bytes \<times> bytes) list \<Rightarrow> (db_error, bytes list \<times> (bytes \<times> db_folder_info) list) result" where
  "unpack_folder_infos C [] = Inr ([], [])"
| "unpack_folder_infos C ((k, v) # ps) = (case folder_info_decompose_key k of
       None \<Rightarrow> Inl broken
     | Some (_, _, uuid) \<Rightarrow> (case cx_decode_folder_info C v of
         None \<Rightarrow> Inl folder_info_deserialization_failure
       | Some db \<Rightarrow> on_success (unpack_folder_infos C ps) (\<lambda>(uuids, items). Inr (uuid # uuids, (k, db) # items))))"

definition on_cluster_load_trigger :: "'s db_env \<Rightarrow> 's \<Rightarrow> (db_error, 's partial_load) result option" where
  "on_cluster_load_trigger E s = (let M = de_mdbx E; C = de_codec E in case mx_begin M False s of
       Inl r \<Rightarrow> Some (Inl (mdbx_failure r))
     | Inr s \<Rightarrow>
         loading M device_prefix s (\<lambda>devices.
         loading M block_prefix s (\<lambda>blocks.
         loading M ignored_device_prefix s (\<lambda>ignored_devices.
         loading M ignored_folder_prefix s (\<lambda>ignored_folders.
         loading M folder_prefix s (\<lambda>folders.
         loading M folder_info_prefix s (\<lambda>infos. case unpack_folder_infos C infos of
             Inl e \<Rightarrow> Some (Inl e)
           | Inr (uuids, folder_infos) \<Rightarrow>
         loading M file_key_prefix s (\<lambda>files.
         loading M pending_device_prefix s (\<lambda>pending_devices.
         loading M pending_folder_prefix s (\<lambda>pending_folders.
           Some (Inr \<lparr>pl_totals = (length blocks, length files),
             pl_chain = [leaf (load_devices devices), leaf (load_ignored_devices ignored_devices), leaf (load_ignored_folders ignored_folders),
               leaf (load_folders folders), leaf (load_folder_infos folder_infos), leaf (load_pending_devices pending_devices),
               leaf (load_pending_folders (map (\<lambda>(k, v). (k, cx_decode_pending_folder C v)) pending_folders))],
             pl_known_hashes = [], pl_blocks_left = blocks, pl_files_left = files, pl_uuids = uuids, pl_corrupted = [],
             pl_store = s\<rparr>)))))))))))"

text \<open>Blocks and files that cannot be decoded are passed over.\<close>

definition unpack_blocks :: "db_codec \<Rightarrow> (bytes \<times> bytes) list \<Rightarrow> (bytes \<times> int) list" where
  "unpack_blocks C kvs = List.map_filter (\<lambda>(k, v). map_option (Pair k) (cx_decode_block C v)) kvs"

text \<open>The files to load and the keys of the corrupted ones. The identifier of the folder info is read from the key, whatever its length.\<close>

fun unpack_files :: "db_codec \<Rightarrow> bytes list \<Rightarrow> bytes list \<Rightarrow> (bytes \<times> bytes) list \<Rightarrow> bytes list \<Rightarrow>
    (db_error, (bytes \<times> db_file) list \<times> bytes list) result" where
  "unpack_files C known uuids [] bad = Inr ([], bad)"
| "unpack_files C known uuids ((k, v) # ps) bad = (case cx_decode_file C v of
       None \<Rightarrow> unpack_files C known uuids ps bad
     | Some db \<Rightarrow>
         if \<not> list_all (\<lambda>h. h \<in> set known) (df_blocks db) then unpack_files C known uuids ps (insort_insert k bad)
         else if length k < 1 + uuid_length then Inl broken
         else if take uuid_length (drop 1 k) \<notin> set uuids then unpack_files C known uuids ps (insort_insert k bad)
         else on_success (unpack_files C known uuids ps bad) (\<lambda>(items, bad). Inr ((k, db) # items, bad)))"

datatype 's load_turn = bounced "'s partial_load" | loaded cdiff | load_failed db_error

definition interrupts :: "'a list \<Rightarrow> cdiff list" where
  "interrupts rest = (if rest = [] then [] else [Diff interrupt []])"

definition blocks_turn :: "'s db_env \<Rightarrow> 's partial_load \<Rightarrow> 's partial_load" where
  "blocks_turn E p =
     (let items = unpack_blocks (de_codec E) (take (de_max_blocks_per_diff E) (pl_blocks_left p));
          rest = drop (de_max_blocks_per_diff E) (pl_blocks_left p)
      in p\<lparr>pl_known_hashes := pl_known_hashes p @ map (drop 1 \<circ> fst) items,
           pl_chain := pl_chain p @ leaf (load_blocks items) # interrupts rest, pl_blocks_left := rest\<rparr>)"

definition files_turn :: "'s db_env \<Rightarrow> 's partial_load \<Rightarrow> 's load_turn" where
  "files_turn E p =
     (let rest = drop (de_max_files_per_diff E) (pl_files_left p)
      in case unpack_files (de_codec E) (pl_known_hashes p) (pl_uuids p) (take (de_max_files_per_diff E) (pl_files_left p)) (pl_corrupted p) of
          Inl e \<Rightarrow> load_failed e
        | Inr (items, bad) \<Rightarrow> bounced (p\<lparr>pl_corrupted := bad,
            pl_chain := pl_chain p @ leaf (load_file_infos items) # interrupts rest, pl_files_left := rest\<rparr>))"

definition finish_load :: "'s partial_load \<Rightarrow> cdiff" where
  "finish_load p = (case pl_totals p of (nb, nf) \<Rightarrow> Diff (change (load_cluster nb nf))
     (pl_chain p @ (if pl_corrupted p = [] then [] else [leaf (remove_corrupted_files (pl_corrupted p))]) @ [Diff commit []]))"

text \<open>An actor that is shutting down, for a reason, gives the loading up.\<close>

definition on_patrial_load :: "'s db_env \<Rightarrow> db_error option \<Rightarrow> 's partial_load \<Rightarrow> 's load_turn" where
  "on_patrial_load E shutdown_reason p =
     (case shutdown_reason of
          Some reason \<Rightarrow> (case mx_commit (de_mdbx E) (pl_store p) of
              Inl r \<Rightarrow> load_failed (mdbx_failure r) | Inr _ \<Rightarrow> load_failed reason)
        | None \<Rightarrow>
            if pl_blocks_left p \<noteq> [] then bounced (blocks_turn E p)
            else if pl_files_left p \<noteq> [] then files_turn E p
            else loaded (finish_load p))"

text \<open>The turns until the loading is over. \<open>None\<close> is a loading that does not end.\<close>

partial_function (option) run_load :: "'s db_env \<Rightarrow> 's partial_load \<Rightarrow> (db_error, cdiff) result option" where
  "run_load E p =
     (case on_patrial_load E None p of
          bounced q \<Rightarrow> run_load E q
        | loaded d \<Rightarrow> Some (Inr d)
        | load_failed e \<Rightarrow> Some (Inl e))"

declare run_load.simps [code]

text \<open>What an actor that stops still has to commit.\<close>

definition db_shutdown_finish :: "'s db_env \<Rightarrow> 's db_actor \<Rightarrow> 's db_actor" where
  "db_shutdown_finish E a =
     (if da_txn a \<and> da_uncommitted a \<noteq> 0
      then (snd (commit_on_demand E (a\<lparr>da_uncommitted := de_uncommitted_threshold E\<rparr>)))\<lparr>da_txn := False\<rparr> else a)"

subsection \<open>What is loaded\<close>

text \<open>The records in a list of diffs.\<close>

fun blocks_of :: "cdiff \<Rightarrow> (bytes \<times> int) list" where
  "blocks_of (Diff (change (load_blocks items)) _) = items"
| "blocks_of _ = []"

fun files_of :: "cdiff \<Rightarrow> (bytes \<times> db_file) list" where
  "files_of (Diff (change (load_file_infos items)) _) = items"
| "files_of _ = []"

fun infos_of :: "cdiff \<Rightarrow> (bytes \<times> db_folder_info) list" where
  "infos_of (Diff (change (load_folder_infos items)) _) = items"
| "infos_of _ = []"

fun corrupted_of :: "cdiff \<Rightarrow> bytes list" where
  "corrupted_of (Diff (change (remove_corrupted_files keys)) _) = keys"
| "corrupted_of _ = []"

abbreviation all_of :: "(cdiff \<Rightarrow> 'a list) \<Rightarrow> cdiff list \<Rightarrow> 'a list" where "all_of f ds \<equiv> concat (map f ds)"

text \<open>A file is whole when its blocks and its folder info are loaded.\<close>

definition whole :: "bytes set \<Rightarrow> bytes set \<Rightarrow> bytes \<Rightarrow> db_file \<Rightarrow> bool" where
  "whole hashes uuids k db \<longleftrightarrow> set (df_blocks db) \<subseteq> hashes \<and> take uuid_length (drop 1 k) \<in> uuids"

definition decoded_files :: "db_codec \<Rightarrow> (bytes \<times> bytes) list \<Rightarrow> (bytes \<times> db_file) list" where
  "decoded_files C kvs = List.map_filter (\<lambda>(k, v). map_option (Pair k) (cx_decode_file C v)) kvs"

lemma decoded_simps [simp]:
  "unpack_blocks C [] = []" "unpack_blocks C (xs @ ys) = unpack_blocks C xs @ unpack_blocks C ys"
  "decoded_files C [] = []"
  "decoded_files C ((k, v) # ps) = (case cx_decode_file C v of None \<Rightarrow> decoded_files C ps | Some db \<Rightarrow> (k, db) # decoded_files C ps)"
  by (auto simp: unpack_blocks_def decoded_files_def map_filter_def split: option.splits)

lemma unpack_files_spec:
  assumes "\<forall>(k, v) \<in> set kvs. 1 + uuid_length \<le> length k"
  shows "unpack_files C known uuids kvs bad = Inr (filter (\<lambda>(k, db). whole (set known) (set uuids) k db) (decoded_files C kvs),
    fold insort_insert (map fst (filter (\<lambda>(k, db). \<not> whole (set known) (set uuids) k db) (decoded_files C kvs))) bad)"
  using assms
proof (induction kvs arbitrary: bad)
  case (Cons p kvs)
  obtain k v where p: "p = (k, v)" by (cases p)
  show ?case
  proof (cases "cx_decode_file C v")
    case None
    then show ?thesis using Cons p by simp
  next
    case (Some db)
    have "list_all (\<lambda>h. h \<in> set known) (df_blocks db) \<longleftrightarrow> set (df_blocks db) \<subseteq> set known" by (auto simp: list_all_iff)
    then show ?thesis using Cons p Some by (auto simp: whole_def on_success_def)
  qed
qed simp

text \<open>A stretch of the chain in which the diffs of one kind alternate with interrupts, each of bounded size.\<close>

definition block_chunks :: "nat \<Rightarrow> cdiff list \<Rightarrow> bool" where
  "block_chunks n ds \<longleftrightarrow> (\<forall>d \<in> set ds. d = Diff interrupt [] \<or> (\<exists>items. d = leaf (load_blocks items) \<and> length items \<le> n))"

definition file_chunks :: "nat \<Rightarrow> cdiff list \<Rightarrow> bool" where
  "file_chunks n ds \<longleftrightarrow> (\<forall>d \<in> set ds. d = Diff interrupt [] \<or> (\<exists>items. d = leaf (load_file_infos items) \<and> length items \<le> n))"

lemma unpack_blocks_length: "length (unpack_blocks C kvs) \<le> length kvs"
  by (simp add: unpack_blocks_def map_filter_def)

lemma decoded_files_length: "length (decoded_files C kvs) \<le> length kvs"
  by (simp add: decoded_files_def map_filter_def)

lemma interrupts_of [simp]: "all_of blocks_of (interrupts xs) = []" "all_of files_of (interrupts xs) = []"
  by (simp_all add: interrupts_def)

lemma nothing_left [simp]:
  "pl_blocks_left p = [] \<Longrightarrow> p\<lparr>pl_blocks_left := []\<rparr> = p" "pl_files_left p = [] \<Longrightarrow> p\<lparr>pl_files_left := []\<rparr> = p"
  by (cases p; simp)+

lemma run_blocks:
  assumes "0 < de_max_blocks_per_diff E"
  shows "\<exists>ds. run_load E p = run_load E (p\<lparr>pl_blocks_left := [], pl_chain := pl_chain p @ ds,
      pl_known_hashes := pl_known_hashes p @ map (drop 1 \<circ> fst) (unpack_blocks (de_codec E) (pl_blocks_left p))\<rparr>) \<and>
    block_chunks (de_max_blocks_per_diff E) ds \<and> all_of blocks_of ds = unpack_blocks (de_codec E) (pl_blocks_left p)"
proof (induction "length (pl_blocks_left p)" arbitrary: p rule: less_induct)
  case less
  let ?n = "de_max_blocks_per_diff E" and ?C = "de_codec E"
  show ?case
  proof (cases "pl_blocks_left p = []")
    case True
    then show ?thesis by (intro exI [of _ "[]"]) (simp add: block_chunks_def)
  next
    case False
    let ?q = "blocks_turn E p" and ?items = "unpack_blocks ?C (take ?n (pl_blocks_left p))"
    have "length (pl_blocks_left ?q) < length (pl_blocks_left p)" using False assms by (simp add: blocks_turn_def Let_def)
    then obtain ds where ds: "run_load E ?q = run_load E (?q\<lparr>pl_blocks_left := [], pl_chain := pl_chain ?q @ ds,
          pl_known_hashes := pl_known_hashes ?q @ map (drop 1 \<circ> fst) (unpack_blocks ?C (pl_blocks_left ?q))\<rparr>)"
        "block_chunks ?n ds" "all_of blocks_of ds = unpack_blocks ?C (pl_blocks_left ?q)"
      using less.hyps by blast
    let ?ds = "leaf (load_blocks ?items) # interrupts (drop ?n (pl_blocks_left p)) @ ds"
    have split: "unpack_blocks ?C (pl_blocks_left p) = ?items @ unpack_blocks ?C (drop ?n (pl_blocks_left p))"
      by (metis append_take_drop_id decoded_simps(2))
    have "run_load E p = run_load E ?q" using False by (subst run_load.simps) (simp add: on_patrial_load_def)
    moreover have "length ?items \<le> ?n" using unpack_blocks_length [of ?C "take ?n (pl_blocks_left p)"] by simp
    ultimately show ?thesis using ds split
      by (intro exI [of _ ?ds]) (auto simp: blocks_turn_def Let_def block_chunks_def interrupts_def)
  qed
qed

lemma run_files:
  assumes "0 < de_max_files_per_diff E" and "pl_blocks_left p = []" and "\<forall>(k, v) \<in> set (pl_files_left p). 1 + uuid_length \<le> length k"
  shows "\<exists>ds. run_load E p = run_load E (p\<lparr>pl_files_left := [], pl_chain := pl_chain p @ ds,
      pl_corrupted := fold insort_insert (map fst (filter (\<lambda>(k, db). \<not> whole (set (pl_known_hashes p)) (set (pl_uuids p)) k db)
        (decoded_files (de_codec E) (pl_files_left p)))) (pl_corrupted p)\<rparr>) \<and>
    file_chunks (de_max_files_per_diff E) ds \<and>
    all_of files_of ds = filter (\<lambda>(k, db). whole (set (pl_known_hashes p)) (set (pl_uuids p)) k db) (decoded_files (de_codec E) (pl_files_left p))"
  using assms(2,3)
proof (induction "length (pl_files_left p)" arbitrary: p rule: less_induct)
  case less
  let ?n = "de_max_files_per_diff E" and ?C = "de_codec E"
  let ?w = "\<lambda>(k, db). whole (set (pl_known_hashes p)) (set (pl_uuids p)) k db"
    and ?b = "\<lambda>(k, db). \<not> whole (set (pl_known_hashes p)) (set (pl_uuids p)) k db"
  show ?case
  proof (cases "pl_files_left p = []")
    case True
    then show ?thesis by (intro exI [of _ "[]"]) (simp add: file_chunks_def)
  next
    case False
    let ?now = "decoded_files ?C (take ?n (pl_files_left p))" and ?later = "decoded_files ?C (drop ?n (pl_files_left p))"
    define q where "q = p\<lparr>pl_corrupted := fold insort_insert (map fst (filter ?b ?now)) (pl_corrupted p),
      pl_chain := pl_chain p @ leaf (load_file_infos (filter ?w ?now)) # interrupts (drop ?n (pl_files_left p)), pl_files_left := drop ?n (pl_files_left p)\<rparr>"
    have "\<forall>(k, v) \<in> set (take ?n (pl_files_left p)). 1 + uuid_length \<le> length k" using less.prems(2) by (auto dest: in_set_takeD)
    from unpack_files_spec [OF this] have turn: "files_turn E p = bounced q" by (simp add: files_turn_def q_def Let_def)
    have "length (pl_files_left q) < length (pl_files_left p)" using False assms(1) by (simp add: q_def)
    moreover have "pl_blocks_left q = []" "\<forall>(k, v) \<in> set (pl_files_left q). 1 + uuid_length \<le> length k"
      using less.prems by (auto simp: q_def dest: in_set_dropD)
    ultimately obtain ds where ds: "run_load E q = run_load E (q\<lparr>pl_files_left := [], pl_chain := pl_chain q @ ds,
          pl_corrupted := fold insort_insert (map fst (filter ?b ?later)) (pl_corrupted q)\<rparr>)"
        "file_chunks ?n ds" "all_of files_of ds = filter ?w ?later"
      using less.hyps [of q] by (auto simp: q_def)
    let ?ds = "leaf (load_file_infos (filter ?w ?now)) # interrupts (drop ?n (pl_files_left p)) @ ds"
    have split: "decoded_files ?C (pl_files_left p) = ?now @ ?later"
      unfolding decoded_files_def map_filter_def by (metis append_take_drop_id filter_append map_append)
    have "run_load E p = run_load E q" using False less.prems(1) turn by (subst run_load.simps) (simp add: on_patrial_load_def)
    moreover have "length (filter ?w ?now) \<le> ?n"
      by (rule le_trans [OF length_filter_le]) (use decoded_files_length [of ?C "take ?n (pl_files_left p)"] in simp)
    ultimately show ?thesis using ds split
      by (intro exI [of _ ?ds]) (auto simp: q_def file_chunks_def interrupts_def)
  qed
qed

lemma run_finish: "pl_blocks_left p = [] \<Longrightarrow> pl_files_left p = [] \<Longrightarrow> run_load E p = Some (Inr (finish_load p))"
  by (subst run_load.simps) (simp add: on_patrial_load_def)

lemma insort_fold: "set (fold insort_insert xs ys) = set xs \<union> set ys" for xs :: "bytes list"
  by (induction xs arbitrary: ys) (auto simp: set_insort_insert)

lemma run_load_result:
  assumes "0 < de_max_blocks_per_diff E" and "0 < de_max_files_per_diff E"
    and "\<forall>(k, v) \<in> set (pl_files_left p). 1 + uuid_length \<le> length k" and "pl_corrupted p = []" and "pl_known_hashes p = []"
  shows "\<exists>bs fs tail. run_load E p = Some (Inr (Diff (change (load_cluster (fst (pl_totals p)) (snd (pl_totals p)))) (pl_chain p @ bs @ fs @ tail @ [Diff commit []]))) \<and>
    block_chunks (de_max_blocks_per_diff E) bs \<and> file_chunks (de_max_files_per_diff E) fs \<and>
    (tail = [] \<or> (\<exists>keys. tail = [leaf (remove_corrupted_files keys)])) \<and>
    all_of blocks_of bs = unpack_blocks (de_codec E) (pl_blocks_left p) \<and>
    all_of files_of fs = filter (\<lambda>(k, db). whole ((drop 1 \<circ> fst) ` set (all_of blocks_of bs)) (set (pl_uuids p)) k db) (decoded_files (de_codec E) (pl_files_left p)) \<and>
    set (all_of corrupted_of tail) =
      fst ` set (filter (\<lambda>(k, db). \<not> whole ((drop 1 \<circ> fst) ` set (all_of blocks_of bs)) (set (pl_uuids p)) k db) (decoded_files (de_codec E) (pl_files_left p)))"
proof -
  let ?C = "de_codec E"
  obtain bs where bs: "run_load E p = run_load E (p\<lparr>pl_blocks_left := [], pl_chain := pl_chain p @ bs,
        pl_known_hashes := map (drop 1 \<circ> fst) (unpack_blocks ?C (pl_blocks_left p))\<rparr>)"
      "block_chunks (de_max_blocks_per_diff E) bs" "all_of blocks_of bs = unpack_blocks ?C (pl_blocks_left p)"
    using run_blocks [OF assms(1), of p] assms(5) by auto
  define q where "q = p\<lparr>pl_blocks_left := [], pl_chain := pl_chain p @ bs, pl_known_hashes := map (drop 1 \<circ> fst) (unpack_blocks ?C (pl_blocks_left p))\<rparr>"
  have known: "set (pl_known_hashes q) = (drop 1 \<circ> fst) ` set (all_of blocks_of bs)" by (simp add: q_def bs(3))
  let ?bad = "fold insort_insert (map fst (filter (\<lambda>(k, db). \<not> whole (set (pl_known_hashes q)) (set (pl_uuids q)) k db) (decoded_files ?C (pl_files_left q)))) []"
  obtain fs where fs: "run_load E q = run_load E (q\<lparr>pl_files_left := [], pl_chain := pl_chain q @ fs, pl_corrupted := ?bad\<rparr>)"
      "file_chunks (de_max_files_per_diff E) fs"
      "all_of files_of fs = filter (\<lambda>(k, db). whole (set (pl_known_hashes q)) (set (pl_uuids q)) k db) (decoded_files ?C (pl_files_left q))"
    using run_files [OF assms(2), of q] assms(3,4) by (auto simp: q_def)
  have "run_load E q = Some (Inr (finish_load (q\<lparr>pl_files_left := [], pl_chain := pl_chain q @ fs, pl_corrupted := ?bad\<rparr>)))"
    using fs(1) by (simp add: run_finish q_def)
  then have r: "run_load E p = Some (Inr (finish_load (q\<lparr>pl_files_left := [], pl_chain := pl_chain q @ fs, pl_corrupted := ?bad\<rparr>)))"
    using bs(1) by (simp add: q_def)
  have same: "pl_uuids q = pl_uuids p" "pl_files_left q = pl_files_left p" "pl_chain q = pl_chain p @ bs" "pl_totals q = pl_totals p" by (simp_all add: q_def)
  define bad where "bad = ?bad"
  define tail where "tail = (if bad = [] then [] else [leaf (remove_corrupted_files bad)])"
  have bad: "set (all_of corrupted_of tail) = set ?bad" by (simp add: tail_def bad_def)
  have "finish_load (q\<lparr>pl_files_left := [], pl_chain := pl_chain q @ fs, pl_corrupted := bad\<rparr>) =
      Diff (change (load_cluster (fst (pl_totals p)) (snd (pl_totals p)))) (pl_chain p @ bs @ fs @ tail @ [Diff commit []])"
    by (simp add: finish_load_def same tail_def split: prod.splits)
  with r have r: "run_load E p = Some (Inr (Diff (change (load_cluster (fst (pl_totals p)) (snd (pl_totals p)))) (pl_chain p @ bs @ fs @ tail @ [Diff commit []])))"
    by (simp add: bad_def)
  have t: "tail = [] \<or> (\<exists>keys. tail = [leaf (remove_corrupted_files keys)])" by (simp add: tail_def)
  show ?thesis
    by (rule exI [of _ bs], rule exI [of _ fs], rule exI [of _ tail], intro conjI)
      (rule r bs(2) fs(2) t bs(3) fs(3) [unfolded known same] bad [unfolded insort_fold known same list.set_map list.set(1) Un_empty_right])+
qed

subsection \<open>The whole loading\<close>

lemma loading_Inr [simp]: "loading M prefix s f = Some (Inr r) \<longleftrightarrow> (\<exists>kvs. load M prefix s = Some (Inr kvs) \<and> f kvs = Some (Inr r))"
  by (auto simp: loading_def split: option.splits sum.splits)

definition info_uuids :: "(bytes \<times> db_folder_info) list \<Rightarrow> bytes set" where
  "info_uuids items = {uuid. \<exists>k db dk fk. (k, db) \<in> set items \<and> folder_info_decompose_key k = Some (dk, fk, uuid)}"

lemma unpacked_uuids: "unpack_folder_infos C kvs = Inr (uuids, items) \<Longrightarrow> set uuids = info_uuids items"
proof (induction kvs arbitrary: uuids items)
  case (Cons p kvs)
  obtain k v where p: "p = (k, v)" by (cases p)
  obtain dk fk uuid db us its where o: "folder_info_decompose_key k = Some (dk, fk, uuid)"
      "unpack_folder_infos C kvs = Inr (us, its)" "uuids = uuid # us" "items = (k, db) # its"
    using Cons.prems p by (auto split: option.splits prod.splits)
  show ?case using Cons.IH [OF o(2)] o by (auto simp: info_uuids_def)
qed (simp add: info_uuids_def)

lemma unpacked_Inr:
  "(case r of Inl e \<Rightarrow> Some (Inl e) | Inr (x, y) \<Rightarrow> f x y) = Some (Inr z) \<longleftrightarrow> (\<exists>x y. r = Inr (x, y) \<and> f x y = Some (Inr z))"
  by (auto split: sum.splits)

lemma trigger_facts:
  assumes "on_cluster_load_trigger E s = Some (Inr p)"
  shows "\<exists>s0. mx_begin (de_mdbx E) False s = Inr s0 \<and> load (de_mdbx E) block_prefix s0 = Some (Inr (pl_blocks_left p)) \<and>
    load (de_mdbx E) file_key_prefix s0 = Some (Inr (pl_files_left p))"
    and "set (pl_uuids p) = info_uuids (all_of infos_of (pl_chain p))"
    and "all_of blocks_of (pl_chain p) = []" "all_of files_of (pl_chain p) = []" "all_of corrupted_of (pl_chain p) = []"
    and "pl_corrupted p = []" "pl_known_hashes p = []"
proof -
  let ?M = "de_mdbx E"
  obtain s0 devices blocks igd igf folders infos uuids items files pd pf where o: "mx_begin ?M False s = Inr s0"
      "load ?M block_prefix s0 = Some (Inr blocks)" "load ?M file_key_prefix s0 = Some (Inr files)"
      "unpack_folder_infos (de_codec E) infos = Inr (uuids, items)"
      "p = \<lparr>pl_totals = (length blocks, length files),
         pl_chain = [leaf (load_devices devices), leaf (load_ignored_devices igd), leaf (load_ignored_folders igf), leaf (load_folders folders),
           leaf (load_folder_infos items), leaf (load_pending_devices pd), leaf (load_pending_folders pf)],
         pl_known_hashes = [], pl_blocks_left = blocks, pl_files_left = files, pl_uuids = uuids, pl_corrupted = [], pl_store = s0\<rparr>"
    using assms unfolding on_cluster_load_trigger_def Let_def by (cases "mx_begin ?M False s") (auto simp: unpacked_Inr)
  show "\<exists>s0. mx_begin ?M False s = Inr s0 \<and> load ?M block_prefix s0 = Some (Inr (pl_blocks_left p)) \<and>
    load ?M file_key_prefix s0 = Some (Inr (pl_files_left p))" using o by simp
  show "set (pl_uuids p) = info_uuids (all_of infos_of (pl_chain p))" using unpacked_uuids [OF o(4)] by (simp add: o(5))
qed (use assms in \<open>auto simp: on_cluster_load_trigger_def Let_def unpacked_Inr split: sum.splits\<close>)

lemma loaded_records:
  assumes "lawful M view committed" and "load M prefix s = Some (Inr kvs)"
  shows "(k, v) \<in> set kvs \<longleftrightarrow> in_kind prefix (view s) k \<and> view s k = Some v"
proof -
  have "(k, v) \<in> set kvs \<longleftrightarrow> map_of kvs k = Some v" using map_of_eq_Some_iff [OF load_kind(1) [OF assms]] by simp
  then show ?thesis using load_kind(2) [OF assms, of k] by (simp split: if_splits)
qed

lemma chunks_of:
  "block_chunks n ds \<Longrightarrow> all_of files_of ds = [] \<and> all_of infos_of ds = [] \<and> all_of corrupted_of ds = []"
  "file_chunks n ds \<Longrightarrow> all_of blocks_of ds = [] \<and> all_of infos_of ds = [] \<and> all_of corrupted_of ds = []"
  by (auto simp: block_chunks_def file_chunks_def)

lemma in_decoded:
  "(k, n) \<in> set (unpack_blocks C kvs) \<longleftrightarrow> (\<exists>v. (k, v) \<in> set kvs \<and> cx_decode_block C v = Some n)"
  "(k, db) \<in> set (decoded_files C kvs) \<longleftrightarrow> (\<exists>v. (k, v) \<in> set kvs \<and> cx_decode_file C v = Some db)"
  by (force simp: unpack_blocks_def decoded_files_def map_filter_def)+

text \<open>
  C11: Loading ends, and the diffs it gives hold the committed records: every block that decodes, and every file that decodes and
  is whole, which means that its blocks and its folder info are loaded too. Of the other files that decode the keys are removed.
\<close>

theorem cluster_loaded:
  assumes "lawful (de_mdbx E) view committed" and "0 < de_max_blocks_per_diff E" and "0 < de_max_files_per_diff E"
    and "on_cluster_load_trigger E s = Some (Inr p)"
    and "\<And>k. committed s k \<noteq> None \<Longrightarrow> in_kind file_key_prefix (committed s) k \<Longrightarrow> 1 + uuid_length \<le> length k"
  shows "\<exists>nb nf ch. run_load E p = Some (Inr (Diff (change (load_cluster nb nf)) ch)) \<and>
    (\<forall>k n. (k, n) \<in> set (all_of blocks_of ch) \<longleftrightarrow>
      (\<exists>v. committed s k = Some v \<and> in_kind block_prefix (committed s) k \<and> cx_decode_block (de_codec E) v = Some n)) \<and>
    (\<forall>k db. (k, db) \<in> set (all_of files_of ch) \<longleftrightarrow>
      (\<exists>v. committed s k = Some v \<and> in_kind file_key_prefix (committed s) k \<and> cx_decode_file (de_codec E) v = Some db) \<and>
      whole ((drop 1 \<circ> fst) ` set (all_of blocks_of ch)) (info_uuids (all_of infos_of ch)) k db) \<and>
    (\<forall>k. k \<in> set (all_of corrupted_of ch) \<longleftrightarrow>
      (\<exists>v db. committed s k = Some v \<and> in_kind file_key_prefix (committed s) k \<and> cx_decode_file (de_codec E) v = Some db \<and>
        \<not> whole ((drop 1 \<circ> fst) ` set (all_of blocks_of ch)) (info_uuids (all_of infos_of ch)) k db))"
proof -
  note facts = trigger_facts [OF assms(4)]
  obtain s0 where s0: "mx_begin (de_mdbx E) False s = Inr s0" "load (de_mdbx E) block_prefix s0 = Some (Inr (pl_blocks_left p))"
      "load (de_mdbx E) file_key_prefix s0 = Some (Inr (pl_files_left p))"
    using facts(1) by blast
  have v: "view s0 = committed s" using lawfulD(2) [OF assms(1) s0(1)] by simp
  note blocks = loaded_records [OF assms(1) s0(2), unfolded v] and files = loaded_records [OF assms(1) s0(3), unfolded v]
  have "\<forall>(k, v) \<in> set (pl_files_left p). 1 + uuid_length \<le> length k" using files assms(5) by blast
  from run_load_result [OF assms(2,3) this facts(6,7)] obtain bs fs tail where r:
      "run_load E p = Some (Inr (Diff (change (load_cluster (fst (pl_totals p)) (snd (pl_totals p)))) (pl_chain p @ bs @ fs @ tail @ [Diff commit []])))"
      "block_chunks (de_max_blocks_per_diff E) bs" "file_chunks (de_max_files_per_diff E) fs"
      "tail = [] \<or> (\<exists>keys. tail = [leaf (remove_corrupted_files keys)])"
      "all_of blocks_of bs = unpack_blocks (de_codec E) (pl_blocks_left p)"
      "all_of files_of fs = filter (\<lambda>(k, db). whole ((drop 1 \<circ> fst) ` set (all_of blocks_of bs)) (set (pl_uuids p)) k db) (decoded_files (de_codec E) (pl_files_left p))"
      "set (all_of corrupted_of tail) =
        fst ` set (filter (\<lambda>(k, db). \<not> whole ((drop 1 \<circ> fst) ` set (all_of blocks_of bs)) (set (pl_uuids p)) k db) (decoded_files (de_codec E) (pl_files_left p)))"
    by blast
  define ch where "ch = pl_chain p @ bs @ fs @ tail @ [Diff commit []]"
  have tail: "all_of blocks_of tail = []" "all_of files_of tail = []" "all_of infos_of tail = []" using r(4) by auto
  have b: "all_of blocks_of ch = all_of blocks_of bs" using chunks_of(2) [OF r(3)] facts(3) tail by (simp add: ch_def del: concat_eq_Nil_conv)
  have f: "all_of files_of ch = all_of files_of fs" using chunks_of(1) [OF r(2)] facts(4) tail by (simp add: ch_def del: concat_eq_Nil_conv)
  have i: "info_uuids (all_of infos_of ch) = set (pl_uuids p)" using chunks_of(1) [OF r(2)] chunks_of(2) [OF r(3)] facts(2) tail by (simp add: ch_def del: concat_eq_Nil_conv)
  have c: "all_of corrupted_of ch = all_of corrupted_of tail" using chunks_of(1) [OF r(2)] chunks_of(2) [OF r(3)] facts(5) by (simp add: ch_def del: concat_eq_Nil_conv)
  have "(k, n) \<in> set (all_of blocks_of ch) \<longleftrightarrow>
      (\<exists>v. committed s k = Some v \<and> in_kind block_prefix (committed s) k \<and> cx_decode_block (de_codec E) v = Some n)" for k n
    unfolding b r(5) in_decoded(1) blocks by blast
  moreover have "(k, db) \<in> set (all_of files_of ch) \<longleftrightarrow>
      (\<exists>v. committed s k = Some v \<and> in_kind file_key_prefix (committed s) k \<and> cx_decode_file (de_codec E) v = Some db) \<and>
      whole ((drop 1 \<circ> fst) ` set (all_of blocks_of ch)) (info_uuids (all_of infos_of ch)) k db" for k db
    unfolding f i r(6) b set_filter mem_Collect_eq in_decoded(2) files prod.case by blast
  moreover have "k \<in> set (all_of corrupted_of ch) \<longleftrightarrow>
      (\<exists>v db. committed s k = Some v \<and> in_kind file_key_prefix (committed s) k \<and> cx_decode_file (de_codec E) v = Some db \<and>
        \<not> whole ((drop 1 \<circ> fst) ` set (all_of blocks_of ch)) (info_uuids (all_of infos_of ch)) k db)" for k
  proof -
    let ?W = "whole ((drop 1 \<circ> fst) ` set (all_of blocks_of bs)) (set (pl_uuids p))"
    have "k \<in> set (all_of corrupted_of tail) \<longleftrightarrow> (\<exists>db. (k, db) \<in> set (decoded_files (de_codec E) (pl_files_left p)) \<and> \<not> ?W k db)"
      unfolding r(7) by force
    then show ?thesis unfolding c i b in_decoded(2) files by blast
  qed
  ultimately show ?thesis using r(1) unfolding ch_def [symmetric] by blast
qed

text \<open>
  With a chunk size of zero blocks the loading of a database that has blocks never ends: each turn adds an empty diff and
  an interrupt to the chain.
\<close>

theorem zero_chunk_hangs:
  assumes "de_max_blocks_per_diff E = 0" and "pl_blocks_left p \<noteq> []"
  shows "run_load E p = None"
proof -
  have "de_max_blocks_per_diff E \<noteq> 0 \<or> pl_blocks_left p = []" if "run_load E p = Some r" for r
  proof (rule run_load.raw_induct [OF _ that])
    fix run :: "'a db_env \<Rightarrow> 'a partial_load \<Rightarrow> (db_error, cdiff) result option" and E p r
    assume IH: "\<And>E p r. run E p = Some r \<Longrightarrow> de_max_blocks_per_diff E \<noteq> 0 \<or> pl_blocks_left p = []"
      and step: "(case on_patrial_load E None p of bounced q \<Rightarrow> run E q | loaded d \<Rightarrow> Some (Inr d) | load_failed e \<Rightarrow> Some (Inl e)) = Some r"
    show "de_max_blocks_per_diff E \<noteq> 0 \<or> pl_blocks_left p = []"
    proof (rule ccontr)
      assume c: "\<not> (de_max_blocks_per_diff E \<noteq> 0 \<or> pl_blocks_left p = [])"
      then have "run E (blocks_turn E p) = Some r" using step by (simp add: on_patrial_load_def)
      from IH [OF this] show False using c by (simp add: blocks_turn_def Let_def)
    qed
  qed
  then show ?thesis using assms by (cases "run_load E p") auto
qed

subsection \<open>What has been saved is loaded\<close>

lemma stored_block_loaded:
  assumes "lawful (de_mdbx E) view committed" and "0 < de_max_blocks_per_diff E" and "0 < de_max_files_per_diff E"
    and "on_cluster_load_trigger E s = Some (Inr p)"
    and "\<And>k. committed s k \<noteq> None \<Longrightarrow> in_kind file_key_prefix (committed s) k \<Longrightarrow> 1 + uuid_length \<le> length k"
    and "committed s k = Some v" "in_kind block_prefix (committed s) k" "cx_decode_block (de_codec E) v = Some n"
  shows "\<exists>nb nf ch. run_load E p = Some (Inr (Diff (change (load_cluster nb nf)) ch)) \<and> (k, n) \<in> set (all_of blocks_of ch)"
proof -
  note facts = trigger_facts [OF assms(4)]
  obtain s0 where s0: "mx_begin (de_mdbx E) False s = Inr s0" "load (de_mdbx E) block_prefix s0 = Some (Inr (pl_blocks_left p))"
      "load (de_mdbx E) file_key_prefix s0 = Some (Inr (pl_files_left p))"
    using facts(1) by blast
  have v: "view s0 = committed s" using lawfulD(2) [OF assms(1) s0(1)] by simp
  note blocks = loaded_records [OF assms(1) s0(2), unfolded v] and files = loaded_records [OF assms(1) s0(3), unfolded v]
  have "\<forall>(k, v) \<in> set (pl_files_left p). 1 + uuid_length \<le> length k" using files assms(5) by blast
  from run_load_result [OF assms(2,3) this facts(6,7)] obtain bs fs tail where r:
      "run_load E p = Some (Inr (Diff (change (load_cluster (fst (pl_totals p)) (snd (pl_totals p)))) (pl_chain p @ bs @ fs @ tail @ [Diff commit []])))"
      "all_of blocks_of bs = unpack_blocks (de_codec E) (pl_blocks_left p)" by blast
  have "(k, n) \<in> set (all_of blocks_of bs)" unfolding r(2) in_decoded(1) blocks using assms(6,7,8) by blast
  then show ?thesis using r(1) by auto
qed

text \<open>
  C10: A block that a visit has saved, and that no diff of the same chain removes, is among the blocks that the next loading gives,
  with its size, where the coder of blocks gives back what was encoded.
\<close>

theorem saved_block_loaded:
  assumes "lawful (de_mdbx E) view committed" and "0 < de_max_blocks_per_diff E" and "0 < de_max_files_per_diff E"
    and "visit_db E cl ds a = b" "da_shutdown a = None" "da_shutdown b = None" "\<not> da_txn a" and "inj_on fst (records (de_codec E) cl)"
    and "add_blocks bs \<in> set (reached cl ds)" "x \<in> set bs" "blocks_by_hash (pb_hash x) cl = Some q" "st_blocks (cl_store cl) q = Some blk"
    and "bi_hash blk \<noteq> []" "block_prefix # bi_hash blk \<notin> removed (reached cl ds)"
    and "cx_decode_block (de_codec E) (cx_encode_block (de_codec E) (bi_size blk)) = Some (bi_size blk)"
    and "committed (da_store b) [block_prefix] \<noteq> None" "on_cluster_load_trigger E (da_store b) = Some (Inr p)"
    and "\<And>k. committed (da_store b) k \<noteq> None \<Longrightarrow> in_kind file_key_prefix (committed (da_store b)) k \<Longrightarrow> 1 + uuid_length \<le> length k"
  shows "\<exists>nb nf ch. run_load E p = Some (Inr (Diff (change (load_cluster nb nf)) ch)) \<and>
    (block_prefix # bi_hash blk, bi_size blk) \<in> set (all_of blocks_of ch)"
proof -
  let ?v = "cx_encode_block (de_codec E) (bi_size blk)"
  have "block_pair (de_codec E) cl (blocks_by_hash (pb_hash x) cl) = Some (block_prefix # bi_hash blk, ?v)"
    using assms(11,12) by (simp add: block_pair_def)
  then have "Some (block_prefix # bi_hash blk, ?v) \<in> set (needed_before (de_codec E) cl (add_blocks bs))"
    using assms(10) by (auto simp: image_iff intro!: bexI [of _ x])
  then have "Some (block_prefix # bi_hash blk, ?v) \<in> needed (de_codec E) cl (reached cl ds)"
    using assms(9) unfolding needed_def by blast
  from needed_committed [OF assms(1,4,5,6,7,8) this] have c: "committed (da_store b) (block_prefix # bi_hash blk) = Some ?v"
    using assms(14) by simp
  have "in_kind block_prefix (committed (da_store b)) (block_prefix # bi_hash blk)"
    using assms(13,16) by (cases "bi_hash blk") (auto simp: in_kind_def)
  from stored_block_loaded [OF assms(1,2,3,17,18) c this assms(15)] show ?thesis by simp
qed

subsection \<open>Opening and the version\<close>

lemma migrated_version:
  assumes "lawful M view committed" and "migrate M C n dev s = Some (Inr s')" and "n \<noteq> 3"
  shows "n < 3 \<and> committed s' version_key = Some (be32 3)"
proof -
  have "n < 3"
  proof (rule ccontr)
    assume "\<not> n < 3"
    then show False using assms(2,3) by (subst (asm) migrate.simps) (simp add: db_version_def do_migrate_def)
  qed
  then consider "n = 0" | "n = 1" | "n = 2" by linarith
  then show ?thesis using assms(2) migrate_view [OF assms(1)] by cases (auto simp: upgraded_def)
qed

lemma unat_three: "unat w = 3 \<Longrightarrow> w = 3" for w :: u32
  by (simp add: word_unat_eq_iff)

text \<open>
  Opening always returns, and when it succeeds the committed records carry the present version; a database of a later version is
  never opened.
\<close>

theorem open_present:
  assumes "lawful M view committed"
  shows "\<exists>r. open_db M C dev s = Some r \<and>
    (\<forall>s'. r = Inr s' \<longrightarrow> (\<exists>v. committed s' version_key = Some v \<and> length v = 4 \<and> read_be32 v = Some 3)) \<and>
    (\<forall>v w. committed s version_key = Some v \<and> read_be32 v = Some w \<and> 3 < unat w \<longrightarrow> (\<exists>e. r = Inl e))"
proof -
  have db: "db_version = 3" by (simp add: db_version_def)
  note three = unat_three
  have be: "length (be32 3) = 4" "read_be32 (be32 3) = Some 3" using read_be32_be32 [of 3 "[]"] by simp_all
  show ?thesis
  proof (cases "mx_begin M False s")
    case Inl
    then show ?thesis by (simp add: open_db_def)
  next
    case (Inr s1)
    have v1: "view s1 = committed s" "committed s1 = committed s" using lawfulD(2) [OF assms Inr] by auto
    show ?thesis
    proof (cases "get_version M s1")
      case Inl
      then show ?thesis using Inr by (simp add: open_db_def)
    next
      case version: (Inr n)
      have stored: "\<exists>v. committed s version_key = Some v \<and> length v = 4 \<and> read_be32 v = Some n" if "n \<noteq> 0"
        using version that lawfulD(4) [OF assms, of version_key s1] v1
        by (fastforce simp: get_version_def split: sum.splits if_splits option.splits)
      have same: "w = n" if "committed s version_key = Some v" "read_be32 v = Some w" for v w
        using version that lawfulD(4,5) [OF assms, of version_key s1] v1
        by (fastforce simp: get_version_def split: sum.splits if_splits option.splits)
      show ?thesis
      proof (cases "unat n = 3")
        case True
        then obtain v where v: "committed s version_key = Some v" "length v = 4" "read_be32 v = Some 3" using stored three by force
        obtain s2 where s2: "open_db M C dev s = Some (Inr s2)" "committed s2 = committed s"
          using Inr version True db v1 lawfulD(3) [OF assms, of s1] by (cases "mx_commit M s1") (auto simp: open_db_def)
        show ?thesis using s2 v by auto
      next
        case False
        have "(\<exists>e. open_db M C dev s = Some (Inl e)) \<or> (\<exists>s3. open_db M C dev s = migrate M C (unat n) dev s3)"
          using Inr version False db by (auto simp: open_db_def split: sum.splits)
        then show ?thesis
        proof (elim disjE exE)
          fix s3 assume o: "open_db M C dev s = migrate M C (unat n) dev s3"
          obtain r where r: "migrate M C (unat n) dev s3 = Some r" using migrate_returns [OF assms] by blast
          have "unat n < 3 \<and> committed s' version_key = Some (be32 3)" if "r = Inr s'" for s'
            using migrated_version [OF assms _ False] r that by blast
          then show ?thesis using o r be same by (cases r) auto
        qed auto
      qed
    qed
  qed
qed

lemma shutdown_commits:
  assumes "lawful (de_mdbx E) view committed" and "da_txn a" "da_uncommitted a \<noteq> 0" and "mx_commit (de_mdbx E) (da_store a) = Inr s"
  shows "\<not> da_txn (db_shutdown_finish E a) \<and> committed (da_store (db_shutdown_finish E a)) = view (da_store a)"
  using assms lawfulD(3) [OF assms(1,4)] by (simp add: db_shutdown_finish_def commit_on_demand_def Let_def)

subsection \<open>A small database\<close>

text \<open>A block and a file that names another block.\<close>

definition lost_file :: db_file where
  "lost_file = \<lparr>df_name = ''a'', df_type = FILE, df_size = 5, df_permissions = 0, df_modified_s = 0, df_modified_ns = 0, df_modified_by = 0,
     df_deleted = False, df_invalid = False, df_no_permissions = False, df_version = [], df_sequence = 1, df_block_size = 5,
     df_symlink_target = [], df_blocks = [replicate 32 9]\<rparr>"

definition load_env :: "memory db_env" where
  "load_env = sample_db_env\<lparr>de_codec := sample_db_codec\<lparr>cx_encode_block := \<lambda>_. [5], cx_decode_block := \<lambda>v. if v = [5] then Some 5 else None,
     cx_decode_file := \<lambda>_. Some lost_file\<rparr>\<rparr>"

definition saved_records :: "(bytes \<times> bytes) list" where
  "saved_records = [([block_prefix], [0]), (block_prefix # replicate 32 1, [5]), ([file_key_prefix], [0]), (file_key_prefix # replicate 32 2, [7])]"

lemma load_env_lawful: "lawful (de_mdbx load_env) (\<lambda>s. map_of (fst s)) (\<lambda>s. map_of (snd s))"
  using memory_lawful by (simp add: load_env_def sample_db_env_def)

lemma load_env_chunks: "0 < de_max_blocks_per_diff load_env" "0 < de_max_files_per_diff load_env"
  by (simp_all add: load_env_def sample_db_env_def)

definition sample_load :: "memory partial_load" where
  "sample_load = (case on_cluster_load_trigger load_env ([], saved_records) of Some (Inr p) \<Rightarrow> p)"

lemma sample_trigger: "on_cluster_load_trigger load_env ([], saved_records) = Some (Inr sample_load)"
proof -
  have "case on_cluster_load_trigger load_env ([], saved_records) of Some (Inr p) \<Rightarrow> True | _ \<Rightarrow> False" by code_simp
  then show ?thesis by (auto simp: sample_load_def split: option.splits sum.splits)
qed

theorem cluster_loaded_witness:
  "\<exists>nb nf ch. run_load load_env sample_load = Some (Inr (Diff (change (load_cluster nb nf)) ch)) \<and>
    (block_prefix # replicate 32 1, 5) \<in> set (all_of blocks_of ch) \<and>
    (file_key_prefix # replicate 32 2, lost_file) \<notin> set (all_of files_of ch) \<and> file_key_prefix # replicate 32 2 \<in> set (all_of corrupted_of ch)"
proof -
  let ?m = "map_of saved_records" and ?k = "file_key_prefix # replicate 32 2"
  have long: "1 + uuid_length \<le> length k" if "?m k \<noteq> None" "in_kind file_key_prefix ?m k" for k
    using that by (auto simp: saved_records_def in_kind_def file_key_prefix_def block_prefix_def uuid_length_def split: if_splits)
  have r: "?m (block_prefix # replicate 32 1) = Some [5]" "?m ?k = Some [7]" "in_kind block_prefix ?m (block_prefix # replicate 32 1)"
      "in_kind file_key_prefix ?m ?k"
    by (simp_all add: saved_records_def in_kind_def file_key_prefix_def block_prefix_def numeral_eq_Suc)
  have c: "cx_decode_block (de_codec load_env) [5] = Some 5" "\<And>v. cx_decode_file (de_codec load_env) v = Some lost_file"
      "\<And>v n. cx_decode_block (de_codec load_env) v = Some n \<Longrightarrow> v = [5]"
    by (auto simp: load_env_def split: if_splits)
  obtain nb nf ch where l: "run_load load_env sample_load = Some (Inr (Diff (change (load_cluster nb nf)) ch))"
      "\<forall>k n. (k, n) \<in> set (all_of blocks_of ch) \<longleftrightarrow>
        (\<exists>v. ?m k = Some v \<and> in_kind block_prefix ?m k \<and> cx_decode_block (de_codec load_env) v = Some n)"
      "\<forall>k db. (k, db) \<in> set (all_of files_of ch) \<longleftrightarrow>
        (\<exists>v. ?m k = Some v \<and> in_kind file_key_prefix ?m k \<and> cx_decode_file (de_codec load_env) v = Some db) \<and>
        whole ((drop 1 \<circ> fst) ` set (all_of blocks_of ch)) (info_uuids (all_of infos_of ch)) k db"
      "\<forall>k. k \<in> set (all_of corrupted_of ch) \<longleftrightarrow>
        (\<exists>v db. ?m k = Some v \<and> in_kind file_key_prefix ?m k \<and> cx_decode_file (de_codec load_env) v = Some db \<and>
          \<not> whole ((drop 1 \<circ> fst) ` set (all_of blocks_of ch)) (info_uuids (all_of infos_of ch)) k db)"
    using cluster_loaded [OF load_env_lawful load_env_chunks sample_trigger] long by (simp only: snd_conv) blast
  have "replicate 32 9 \<notin> (drop 1 \<circ> fst) ` set (all_of blocks_of ch)"
  proof
    assume "replicate 32 9 \<in> (drop 1 \<circ> fst) ` set (all_of blocks_of ch)"
    then obtain k n where "(k, n) \<in> set (all_of blocks_of ch)" "drop 1 k = replicate 32 9" by force
    then have "?m k = Some [5]" "drop 1 k = replicate 32 9" using l(2) c(3) by metis+
    then show False by (auto simp: saved_records_def split: if_splits)
  qed
  then have "\<not> whole ((drop 1 \<circ> fst) ` set (all_of blocks_of ch)) (info_uuids (all_of infos_of ch)) ?k lost_file"
    by (simp add: whole_def lost_file_def)
  then show ?thesis using l r c by metis
qed

theorem zero_chunk_hangs_witness: "run_load (load_env\<lparr>de_max_blocks_per_diff := 0\<rparr>) sample_load = None"
proof -
  have "pl_blocks_left sample_load \<noteq> []" by code_simp
  then show ?thesis by (intro zero_chunk_hangs) simp_all
qed

theorem open_present_witness:
  "\<exists>s'. open_db memory_mdbx sample_db_codec sample_device ([], []) = Some (Inr s') \<and> (\<exists>v. map_of (snd s') version_key = Some v \<and> read_be32 v = Some 3)"
proof -
  have "case open_db memory_mdbx sample_db_codec sample_device ([], []) of Some (Inr s') \<Rightarrow> True | _ \<Rightarrow> False" by code_simp
  then obtain s' where s': "open_db memory_mdbx sample_db_codec sample_device ([], []) = Some (Inr s')" by (auto split: option.splits sum.splits)
  then show ?thesis using open_present [OF memory_lawful, of sample_db_codec sample_device "([], [])"] by (cases s') auto
qed

text \<open>The block is added, saved and loaded again.\<close>

definition added_block :: pr_block where
  "added_block = \<lparr>pb_offset = 0, pb_size = 5, pb_hash = replicate 32 1\<rparr>"

definition block_cluster :: cluster where
  "block_cluster = snd (apply_add_blocks [added_block] (new_cluster sample_device 0))"

definition block_actor :: "memory db_actor" where
  "block_actor = sample_actor\<lparr>da_store := ([], [([block_prefix], [0])])\<rparr>"

definition block_visited :: "memory db_actor" where
  "block_visited = visit_db load_env block_cluster [leaf (add_blocks [added_block])] block_actor"

definition block_load :: "memory partial_load" where
  "block_load = (case on_cluster_load_trigger load_env (da_store block_visited) of Some (Inr p) \<Rightarrow> p)"

theorem saved_block_loaded_witness:
  "\<exists>nb nf ch. run_load load_env block_load = Some (Inr (Diff (change (load_cluster nb nf)) ch)) \<and>
    (block_prefix # replicate 32 1, 5) \<in> set (all_of blocks_of ch)"
proof -
  let ?ds = "[leaf (add_blocks [added_block])]"
  have "case on_cluster_load_trigger load_env (da_store block_visited) of Some (Inr p) \<Rightarrow> True | _ \<Rightarrow> False" by code_simp
  then have t: "on_cluster_load_trigger load_env (da_store block_visited) = Some (Inr block_load)"
    by (auto simp: block_load_def split: option.splits sum.splits)
  have v: "da_shutdown block_actor = None" "da_shutdown block_visited = None" "\<not> da_txn block_actor" "map_of (snd (da_store block_visited)) [block_prefix] \<noteq> None"
    "reached block_cluster ?ds = [add_blocks [added_block]]" "blocks_by_hash (pb_hash added_block) block_cluster = Some 0"
    "map fst (snd (da_store block_visited)) = [[block_prefix], block_prefix # replicate 32 1]" by code_simp+
  obtain blk where blk: "st_blocks (cl_store block_cluster) 0 = Some blk" "bi_hash blk = replicate 32 1" "bi_size blk = 5"
    by (simp add: block_cluster_def added_block_def bi_create_proto_def block_digest_length_def put_new_block_def blocks_by_hash_def new_cluster_def put_block_def)
  have "records (de_codec load_env) block_cluster = {(block_prefix # replicate 32 1, [5])}"
    by (auto simp: records_def block_pair_def block_cluster_def added_block_def bi_create_proto_def block_digest_length_def put_new_block_def
        blocks_by_hash_def new_cluster_def put_block_def load_env_def)
  then have inj: "inj_on fst (records (de_codec load_env) block_cluster)" by simp
  have long: "1 + uuid_length \<le> length k" if "map_of (snd (da_store block_visited)) k \<noteq> None" "in_kind file_key_prefix (map_of (snd (da_store block_visited))) k" for k
  proof -
    have "k \<in> set (map fst (snd (da_store block_visited)))" using that(1) by (auto simp: map_of_eq_None_iff)
    then show ?thesis using that(2) v(7) by (auto simp: in_kind_def file_key_prefix_def block_prefix_def)
  qed
  show ?thesis
    using saved_block_loaded [OF load_env_lawful load_env_chunks block_visited_def [symmetric] v(1,2,3) inj _ _ v(6) blk(1) _ _ _ v(4) t] long blk v(5)
    by (auto simp: removed_def load_env_def)
qed

end
