(* ===== verification/File_Actor.thy ===== *)
theory File_Actor
  imports Controller Watcher "HOL-Library.AList"
begin

text \<open>
  The file actor (\<^verbatim>\<open>src/fs/file_actor.cpp\<close>) with the files it keeps open (\<^verbatim>\<open>src/fs/file.cpp\<close>) and the calls that tell the watcher
  about expected events (\<^verbatim>\<open>src/fs/fs_proxy.cpp\<close>): what the commands of a controller do to the disk. The file system is an argument.
\<close>

subsection \<open>The file system\<close>

text \<open>
  The calls, each with the error it gives and the state of the disk, which a failed call may have changed too. The stream of an
  open file is known by its path: no file is renamed while it is open. Sizes are in bytes; \<open>fy_stat\<close> gives the size.
\<close>

type_synonym 'd call = "'d \<Rightarrow> int option \<times> 'd"

datatype 'd write_outcome = not_written 'd | not_flushed 'd | written 'd

record 'd file_system =
  fy_windows :: bool
  fy_parent :: "string \<Rightarrow> string"
  fy_stat :: "string \<Rightarrow> 'd \<Rightarrow> nat option"
  fy_exists :: "string \<Rightarrow> 'd \<Rightarrow> bool"
  fy_is_symlink :: "string \<Rightarrow> 'd \<Rightarrow> bool"
  fy_read_symlink :: "string \<Rightarrow> 'd \<Rightarrow> string"
  fy_open :: "string \<Rightarrow> 'd \<Rightarrow> int option"
  fy_read :: "string \<Rightarrow> nat \<Rightarrow> nat \<Rightarrow> 'd \<Rightarrow> bytes option"
  fy_write :: "string \<Rightarrow> nat \<Rightarrow> bytes \<Rightarrow> 'd \<Rightarrow> 'd write_outcome"
  fy_create :: "string \<Rightarrow> 'd call"
  fy_resize :: "string \<Rightarrow> nat \<Rightarrow> 'd call"
  fy_rename :: "string \<Rightarrow> string \<Rightarrow> 'd call"
  fy_remove_all :: "string \<Rightarrow> 'd call"
  fy_create_directories :: "string \<Rightarrow> 'd call"
  fy_last_write_time :: "string \<Rightarrow> int \<Rightarrow> 'd call"
  fy_permissions :: "string \<Rightarrow> u32 \<Rightarrow> 'd call"
  fy_create_symlink :: "string \<Rightarrow> string \<Rightarrow> 'd call"

text \<open>Writing and resizing of the bytes of a file; a gap is filled with zeros.\<close>

definition resized :: "nat \<Rightarrow> bytes \<Rightarrow> bytes" where
  "resized n b = take n b @ replicate (n - length b) 0"

definition write_at :: "nat \<Rightarrow> bytes \<Rightarrow> bytes \<Rightarrow> bytes" where
  "write_at off data b = resized off b @ data @ drop (off + length data) b"

definition below :: "string \<Rightarrow> string \<Rightarrow> bool" where
  "below p q \<longleftrightarrow> q = p \<or> (\<exists>r. q = p @ CHR ''/'' # r)"

text \<open>What is relied on, of the bytes of regular files.\<close>

definition fs_lawful :: "'d file_system \<Rightarrow> ('d \<Rightarrow> string \<rightharpoonup> bytes) \<Rightarrow> bool" where
  "fs_lawful F bytes_of \<longleftrightarrow>
     (\<forall>p d n b. fy_stat F p d = Some n \<and> bytes_of d p = Some b \<longrightarrow> n = length b) \<and>
     (\<forall>p off n d data. fy_read F p off n d = Some data \<longrightarrow>
        (\<exists>b. bytes_of d p = Some b \<and> off + n \<le> length b \<and> data = take n (drop off b))) \<and>
     (\<forall>p off data d. case fy_write F p off data d of
          written d' \<Rightarrow> (\<forall>q. q \<noteq> p \<longrightarrow> bytes_of d' q = bytes_of d q) \<and> bytes_of d' p = map_option (write_at off data) (bytes_of d p)
        | not_flushed d' \<Rightarrow> (\<forall>q. q \<noteq> p \<longrightarrow> bytes_of d' q = bytes_of d q)
        | not_written d' \<Rightarrow> (\<forall>q. q \<noteq> p \<longrightarrow> bytes_of d' q = bytes_of d q)) \<and>
     (\<forall>p d e d'. fy_create F p d = (e, d') \<longrightarrow>
        (\<forall>q. q \<noteq> p \<longrightarrow> bytes_of d' q = bytes_of d q) \<and> (e = None \<longrightarrow> bytes_of d' p = Some [])) \<and>
     (\<forall>p n d e d'. fy_resize F p n d = (e, d') \<longrightarrow>
        (\<forall>q. q \<noteq> p \<longrightarrow> bytes_of d' q = bytes_of d q) \<and> (e = None \<longrightarrow> bytes_of d' p = map_option (resized n) (bytes_of d p))) \<and>
     (\<forall>p q d e d'. fy_rename F p q d = (e, d') \<longrightarrow>
        (if e = None then \<forall>b. bytes_of d p = Some b \<longrightarrow> bytes_of d' = (bytes_of d)(p := None, q \<mapsto> b) else bytes_of d' = bytes_of d)) \<and>
     (\<forall>p d e d'. fy_remove_all F p d = (e, d') \<longrightarrow>
        (\<forall>q. \<not> below p q \<longrightarrow> bytes_of d' q = bytes_of d q) \<and> (e = None \<longrightarrow> bytes_of d' p = None)) \<and>
     (\<forall>p d e d'. fy_create_directories F p d = (e, d') \<longrightarrow>
        bytes_of d' = bytes_of d \<and> (\<forall>q. \<not> below q p \<longrightarrow> fy_stat F q d' = fy_stat F q d)) \<and>
     (\<forall>p. length (fy_parent F p) \<le> length p) \<and>
     (\<forall>p t d e d'. fy_last_write_time F p t d = (e, d') \<longrightarrow> bytes_of d' = bytes_of d) \<and>
     (\<forall>p m d e d'. fy_permissions F p m d = (e, d') \<longrightarrow> bytes_of d' = bytes_of d) \<and>
     (\<forall>t p d e d'. fy_create_symlink F t p d = (e, d') \<longrightarrow> (\<forall>q. q \<noteq> p \<longrightarrow> bytes_of d' q = bytes_of d q))"

subsection \<open>State\<close>

text \<open>A file that is open for writing: its path, the size it is to have, and whether its stream has not failed yet.\<close>

record file_handle =
  fl_path :: string
  fl_size :: nat
  fl_good :: bool

text \<open>The open files are kept for each context, which is a controller.\<close>

record 'd file_actor =
  fa_disk :: 'd
  fa_mediator :: updates_mediator
  fa_cache :: "nat \<times> string \<Rightarrow> file_handle option"
  fa_updates :: nat
  fa_timer :: bool

datatype fs_error = os_error int | io_error | flush_non_opened | misused

type_synonym 'd fs_step = "fs_error option \<times> 'd file_actor"

definition symlinks_supported :: "'d file_system \<Rightarrow> bool" where "symlinks_supported F \<longleftrightarrow> \<not> fy_windows F"
definition permissions_supported :: "'d file_system \<Rightarrow> bool" where "permissions_supported F \<longleftrightarrow> \<not> fy_windows F"

subsection \<open>Calls that mask their events\<close>

definition masked_call :: "'d call \<Rightarrow> string \<Rightarrow> string \<Rightarrow> int \<Rightarrow> 'd file_actor \<Rightarrow> 'd fs_step" where
  "masked_call f p prev deadline a = (case f (fa_disk a) of
       (Some r, d) \<Rightarrow> (Some (os_error r), a\<lparr>fa_disk := d\<rparr>)
     | (None, d) \<Rightarrow> (None, a\<lparr>fa_disk := d, fa_mediator := mask p prev deadline (fa_mediator a), fa_updates := fa_updates a + 1\<rparr>))"

definition px_open_write :: "'d file_system \<Rightarrow> int \<Rightarrow> string \<Rightarrow> nat \<Rightarrow> 'd file_actor \<Rightarrow> 'd fs_step" where
  "px_open_write F deadline p file_size a =
     (let st = fy_stat F p (fa_disk a);
          need_resize = (case st of None \<Rightarrow> True | Some n \<Rightarrow> n = file_size);
          resize = (\<lambda>a. if need_resize
            then and_then (if st = None then masked_call (fy_create F p) p [] deadline a else (None, a))
                   (masked_call (fy_resize F p file_size) p [] deadline)
            else (None, a))
      in and_then (resize a) (\<lambda>a. (map_option os_error (fy_open F p (fa_disk a)), a)))"

definition px_rename :: "'d file_system \<Rightarrow> int \<Rightarrow> string \<Rightarrow> string \<Rightarrow> 'd file_actor \<Rightarrow> 'd fs_step" where
  "px_rename F deadline p q = masked_call (fy_rename F p q) q p deadline"

definition px_last_write_time :: "'d file_system \<Rightarrow> int \<Rightarrow> string \<Rightarrow> int \<Rightarrow> 'd file_actor \<Rightarrow> 'd fs_step" where
  "px_last_write_time F deadline p modification_s = masked_call (fy_last_write_time F p modification_s) p [] deadline"

definition px_remove :: "'d file_system \<Rightarrow> int \<Rightarrow> string \<Rightarrow> 'd file_actor \<Rightarrow> 'd fs_step" where
  "px_remove F deadline p = masked_call (fy_remove_all F p) p [] deadline"

definition px_set_perms :: "'d file_system \<Rightarrow> int \<Rightarrow> string \<Rightarrow> u32 \<Rightarrow> 'd file_actor \<Rightarrow> 'd fs_step" where
  "px_set_perms F deadline p permissions = masked_call (fy_permissions F p permissions) p [] deadline"

definition px_create_link :: "'d file_system \<Rightarrow> int \<Rightarrow> string \<Rightarrow> string \<Rightarrow> 'd file_actor \<Rightarrow> 'd fs_step" where
  "px_create_link F deadline target p = masked_call (fy_create_symlink F target p) p [] deadline"

definition px_create_directories :: "'d file_system \<Rightarrow> int \<Rightarrow> string \<Rightarrow> 'd file_actor \<Rightarrow> 'd fs_step" where
  "px_create_directories F deadline p = masked_call (fy_create_directories F p) p [] deadline"

definition px_write :: "'d file_system \<Rightarrow> int \<Rightarrow> string \<Rightarrow> nat \<Rightarrow> bytes \<Rightarrow> 'd file_actor \<Rightarrow> 'd fs_step" where
  "px_write F deadline p off data a =
     (let m = mask p [] deadline (fa_mediator a)
      in case fy_write F p off data (fa_disk a) of
          not_written d \<Rightarrow> (Some io_error, a\<lparr>fa_disk := d\<rparr>)
        | not_flushed d \<Rightarrow> (Some io_error, a\<lparr>fa_disk := d, fa_mediator := m\<rparr>)
        | written d \<Rightarrow> (None, a\<lparr>fa_disk := d, fa_mediator := mask p [] deadline m\<rparr>))"

subsection \<open>Open files\<close>

text \<open>A context with the deadline of its masks.\<close>

record io_context =
  ic_key :: nat
  ic_deadline :: int

definition put_handle :: "io_context \<Rightarrow> string \<Rightarrow> file_handle option \<Rightarrow> 'd file_actor \<Rightarrow> 'd file_actor" where
  "put_handle cx p h a = a\<lparr>fa_cache := (fa_cache a)((ic_key cx, p) := h)\<rparr>"

text \<open>A file with content is written under a temporary name.\<close>

definition file_open_write :: "'d file_system \<Rightarrow> io_context \<Rightarrow> string \<Rightarrow> nat \<Rightarrow> 'd file_actor \<Rightarrow> 'd fs_step" where
  "file_open_write F cx model_path file_size a =
     (let p = (if 0 < file_size then make_temporal model_path else model_path)
      in and_then (px_open_write F (ic_deadline cx) p file_size a) (\<lambda>a.
           (None, put_handle cx model_path (Some \<lparr>fl_path = p, fl_size = file_size, fl_good = True\<rparr>) a)))"

definition open_file_rw :: "'d file_system \<Rightarrow> io_context \<Rightarrow> string \<Rightarrow> nat \<Rightarrow> 'd file_actor \<Rightarrow> 'd fs_step" where
  "open_file_rw F cx p file_size a =
     (case fa_cache a (ic_key cx, p) of
          Some _ \<Rightarrow> (None, a)
        | None \<Rightarrow>
            and_then (if fy_exists F (fy_parent F p) (fa_disk a) then (None, a)
              else case fy_create_directories F (fy_parent F p) (fa_disk a) of
                  (e, d) \<Rightarrow> (map_option os_error e, a\<lparr>fa_disk := d\<rparr>))
              (file_open_write F cx p file_size))"

text \<open>A stream that failed once stays so.\<close>

definition file_read :: "'d file_system \<Rightarrow> file_handle \<Rightarrow> nat \<Rightarrow> nat \<Rightarrow> 'd file_actor \<Rightarrow> bytes option" where
  "file_read F h off n a = (if fl_good h then fy_read F (fl_path h) off n (fa_disk a) else None)"

definition file_write :: "'d file_system \<Rightarrow> io_context \<Rightarrow> string \<Rightarrow> nat \<Rightarrow> bytes \<Rightarrow> 'd file_actor \<Rightarrow> 'd fs_step" where
  "file_write F cx p off data a = (case fa_cache a (ic_key cx, p) of
       None \<Rightarrow> (Some misused, a)
     | Some h \<Rightarrow>
         if fl_size h < off + length data then (Some misused, a)
         else if \<not> fl_good h then (Some io_error, a)
         else case px_write F (ic_deadline cx) (fl_path h) off data a of
             (None, a) \<Rightarrow> (None, a)
           | (Some e, a) \<Rightarrow> (Some e, put_handle cx p (Some (h\<lparr>fl_good := False\<rparr>)) a))"

text \<open>Closing of a file that was written, with its final name.\<close>

definition file_close :: "'d file_system \<Rightarrow> io_context \<Rightarrow> file_handle \<Rightarrow> int \<Rightarrow> string \<Rightarrow> 'd file_actor \<Rightarrow> 'd fs_step" where
  "file_close F cx h modification_s local_name a =
     (if fl_size h = 0 then (Some misused, a)
      else and_then (px_rename F (ic_deadline cx) (fl_path h) local_name a) (\<lambda>a.
        if modification_s \<noteq> 0 then px_last_write_time F (ic_deadline cx) local_name modification_s a else (None, a)))"

subsection \<open>Commands\<close>

datatype io_result = data_result "fs_error + bytes" | done_result "fs_error option"

text \<open>A request is answered from the file that is being written when its controller has it open.\<close>

definition process_block_request :: "'d file_system \<Rightarrow> io_context \<Rightarrow> string \<Rightarrow> nat \<Rightarrow> nat \<Rightarrow> 'd file_actor \<Rightarrow> (fs_error + bytes) \<times> 'd file_actor" where
  "process_block_request F cx p off n a = (case fa_cache a (ic_key cx, p) of
       Some h \<Rightarrow> (case file_read F h off n a of
           Some data \<Rightarrow> (Inr data, a) | None \<Rightarrow> (Inl io_error, put_handle cx p (Some (h\<lparr>fl_good := False\<rparr>)) a))
     | None \<Rightarrow> (case fy_open F p (fa_disk a) of
           Some r \<Rightarrow> (Inl (os_error r), a)
         | None \<Rightarrow> (case fy_read F p off n (fa_disk a) of Some data \<Rightarrow> (Inr data, a) | None \<Rightarrow> (Inl io_error, a))))"

definition copy_symlink :: "'d file_system \<Rightarrow> io_context \<Rightarrow> string \<Rightarrow> string \<Rightarrow> 'd file_actor \<Rightarrow> 'd fs_step" where
  "copy_symlink F cx target p a =
     (if symlinks_supported F \<and> (\<not> fy_exists F p (fa_disk a) \<or> \<not> fy_is_symlink F p (fa_disk a) \<or> fy_read_symlink F p (fa_disk a) \<noteq> target)
      then px_create_link F (ic_deadline cx) target p a else (None, a))"

definition copy_content :: "'d file_system \<Rightarrow> io_context \<Rightarrow> string \<Rightarrow> file_info_type \<Rightarrow> nat \<Rightarrow> int \<Rightarrow> string \<Rightarrow> 'd file_actor \<Rightarrow> 'd fs_step" where
  "copy_content F cx p ty sz modification_s target a = (case ty of
       FILE \<Rightarrow> and_then (px_open_write F (ic_deadline cx) p sz a) (px_last_write_time F (ic_deadline cx) p modification_s)
     | DIRECTORY \<Rightarrow> px_create_directories F (ic_deadline cx) p a
     | SYMLINK \<Rightarrow> copy_symlink F cx target p a
     | _ \<Rightarrow> (None, a))"

definition process_remote_copy ::
  "'d file_system \<Rightarrow> io_context \<Rightarrow> string \<Rightarrow> string \<Rightarrow> file_info_type \<Rightarrow> nat \<Rightarrow> u32 \<Rightarrow> int \<Rightarrow> string \<Rightarrow> bool \<Rightarrow> bool \<Rightarrow> 'd file_actor \<Rightarrow> 'd fs_step" where
  "process_remote_copy F cx p conflict ty sz permissions modification_s target removal no_perms a =
     and_then (if conflict \<noteq> [] then px_rename F (ic_deadline cx) p conflict a else (None, a)) (\<lambda>a.
       if removal then (if fy_exists F p (fa_disk a) then px_remove F (ic_deadline cx) p a else (None, a))
       else and_then (if fy_exists F (fy_parent F p) (fa_disk a) then (None, a) else px_create_directories F (ic_deadline cx) (fy_parent F p) a) (\<lambda>a.
            and_then (copy_content F cx p ty sz modification_s target a) (\<lambda>a.
              if (ty = FILE \<or> ty = DIRECTORY) \<and> \<not> no_perms \<and> permissions_supported F
              then px_set_perms F (ic_deadline cx) p permissions a else (None, a))))"

definition process_finish_file ::
  "'d file_system \<Rightarrow> io_context \<Rightarrow> string \<Rightarrow> string \<Rightarrow> nat \<Rightarrow> int \<Rightarrow> u32 \<Rightarrow> bool \<Rightarrow> 'd file_actor \<Rightarrow> 'd fs_step" where
  "process_finish_file F cx p conflict file_size modification_s permissions no_perms a =
     and_then (if fa_cache a (ic_key cx, p) \<noteq> None then (None, a)
       else if \<not> fy_exists F (make_temporal p) (fa_disk a) then (Some flush_non_opened, a)
       else file_open_write F cx p file_size a) (\<lambda>a.
     and_then (if conflict \<noteq> [] then px_rename F (ic_deadline cx) p conflict a else (None, a)) (\<lambda>a.
       case fa_cache a (ic_key cx, p) of
         None \<Rightarrow> (Some misused, a)
       | Some h \<Rightarrow> and_then (file_close F cx h modification_s p (put_handle cx p None a)) (\<lambda>a.
           if no_perms then (None, a) else px_set_perms F (ic_deadline cx) p permissions a)))"

definition process_append_block :: "'d file_system \<Rightarrow> io_context \<Rightarrow> string \<Rightarrow> bytes \<Rightarrow> nat \<Rightarrow> nat \<Rightarrow> 'd file_actor \<Rightarrow> 'd fs_step" where
  "process_append_block F cx p data off file_size a = and_then (open_file_rw F cx p file_size a) (file_write F cx p off data)"

definition process_clone_block ::
  "'d file_system \<Rightarrow> io_context \<Rightarrow> string \<Rightarrow> nat \<Rightarrow> nat \<Rightarrow> string \<Rightarrow> nat \<Rightarrow> nat \<Rightarrow> 'd file_actor \<Rightarrow> 'd fs_step" where
  "process_clone_block F cx p target_off target_sz source source_off n a =
     and_then (open_file_rw F cx p target_sz a) (\<lambda>a. case fa_cache a (ic_key cx, source) of
       Some h \<Rightarrow> (case file_read F h source_off n a of
           Some data \<Rightarrow> file_write F cx p target_off data a
         | None \<Rightarrow> (Some io_error, put_handle cx source (Some (h\<lparr>fl_good := False\<rparr>)) a))
     | None \<Rightarrow> (case fy_open F source (fa_disk a) of
           Some r \<Rightarrow> (Some (os_error r), a)
         | None \<Rightarrow> (case fy_read F source source_off n (fa_disk a) of
             Some data \<Rightarrow> file_write F cx p target_off data a | None \<Rightarrow> (Some io_error, a))))"

text \<open>An error code becomes a result that holds an error, also when it is the code of success.\<close>

definition process_update_meta :: "'d file_system \<Rightarrow> io_context \<Rightarrow> string \<Rightarrow> int \<Rightarrow> u32 \<Rightarrow> bool \<Rightarrow> 'd file_actor \<Rightarrow> 'd fs_step" where
  "process_update_meta F cx p modification_s permissions no_perms a =
     (case and_then (if \<not> no_perms \<and> permissions_supported F then px_set_perms F (ic_deadline cx) p permissions a else (None, a))
         (px_last_write_time F (ic_deadline cx) p modification_s) of
        (None, a) \<Rightarrow> (Some (os_error 0), a) | (Some e, a) \<Rightarrow> (Some e, a))"

definition process_command :: "'d file_system \<Rightarrow> io_context \<Rightarrow> io_command \<Rightarrow> 'd file_actor \<Rightarrow> io_result \<times> 'd file_actor" where
  "process_command F cx cmd a =
     (case cmd of
          Block_request req p off n \<Rightarrow> apfst data_result (process_block_request F cx p (nat off) (nat n) a)
        | Remote_copy ctx fid p conflict ty sz perms modified target removal no_perms \<Rightarrow>
            apfst done_result (process_remote_copy F cx p conflict ty (nat sz) perms modified target removal no_perms a)
        | Finish_file ctx fid p conflict sz modified perms no_perms \<Rightarrow>
            apfst done_result (process_finish_file F cx p conflict (nat sz) modified perms no_perms a)
        | Append_block ctx fid p data off sz \<Rightarrow> apfst done_result (process_append_block F cx p data (nat off) (nat sz) a)
        | Clone_block ctx fid p target_off target_sz source source_off n \<Rightarrow>
            apfst done_result (process_clone_block F cx p (nat target_off) (nat target_sz) source (nat source_off) (nat n) a)
        | Update_meta ctx fid p modified perms no_perms \<Rightarrow> apfst done_result (process_update_meta F cx p modified perms no_perms a))"

fun command_folder :: "io_command \<Rightarrow> string" where
  "command_folder (Block_request _ _ _ _) = []"
| "command_folder (Remote_copy _ fid _ _ _ _ _ _ _ _ _) = fid"
| "command_folder (Finish_file _ fid _ _ _ _ _ _) = fid"
| "command_folder (Append_block _ fid _ _ _ _) = fid"
| "command_folder (Clone_block _ fid _ _ _ _ _ _) = fid"
| "command_folder (Update_meta _ fid _ _ _ _) = fid"

fun process_commands :: "'d file_system \<Rightarrow> string set \<Rightarrow> io_context \<Rightarrow> io_command list \<Rightarrow> 'd file_actor \<Rightarrow> io_result list \<times> 'd file_actor" where
  "process_commands F watched cx [] a = ([], a)"
| "process_commands F watched cx (cmd # cmds) a =
     (case process_command F cx cmd (a\<lparr>fa_mediator := enable (command_folder cmd \<in> watched) (fa_mediator a)\<rparr>) of
        (r, a) \<Rightarrow> apfst ((#) r) (process_commands F watched cx cmds a))"

definition on_io_commands :: "'d file_system \<Rightarrow> string set \<Rightarrow> io_context \<Rightarrow> io_command list \<Rightarrow> 'd file_actor \<Rightarrow> io_result list \<times> 'd file_actor" where
  "on_io_commands F watched cx cmds a =
     (case process_commands F watched cx cmds (a\<lparr>fa_updates := 0\<rparr>) of
        (rs, a) \<Rightarrow> (rs, a\<lparr>fa_timer := fa_timer a \<or> fa_updates a \<noteq> 0\<rparr>))"

definition fa_on_retension_finish :: "bool \<Rightarrow> 'd file_actor \<Rightarrow> 'd file_actor" where
  "fa_on_retension_finish cancelled a =
     (if cancelled then a\<lparr>fa_timer := False\<rparr>
      else case clean_expired (fa_mediator a) of (respawn, m) \<Rightarrow> a\<lparr>fa_timer := respawn, fa_mediator := m\<rparr>)"

definition on_controller_predown :: "nat \<Rightarrow> bool \<Rightarrow> 'd file_actor \<Rightarrow> 'd file_actor" where
  "on_controller_predown key started a = (if started then a\<lparr>fa_cache := \<lambda>(k, p). if k = key then None else fa_cache a (k, p)\<rparr> else a)"

subsection \<open>What the calls do to the bytes\<close>

lemma fs_lawfulD:
  assumes "fs_lawful F bytes_of"
  shows "fy_stat F p d = Some n \<Longrightarrow> bytes_of d p = Some b \<Longrightarrow> n = length b"
    and "fy_read F p off n d = Some data \<Longrightarrow> \<exists>b. bytes_of d p = Some b \<and> off + n \<le> length b \<and> data = take n (drop off b)"
    and "fy_write F p off data d = written d' \<Longrightarrow> bytes_of d' = (bytes_of d)(p := map_option (write_at off data) (bytes_of d p))"
    and "fy_write F p off data d = not_written d' \<Longrightarrow> q \<noteq> p \<Longrightarrow> bytes_of d' q = bytes_of d q"
    and "fy_write F p off data d = not_flushed d' \<Longrightarrow> q \<noteq> p \<Longrightarrow> bytes_of d' q = bytes_of d q"
    and "fy_create F p d = (e, d') \<Longrightarrow> q \<noteq> p \<Longrightarrow> bytes_of d' q = bytes_of d q"
    and "fy_create F p d = (None, d') \<Longrightarrow> bytes_of d' = (bytes_of d)(p \<mapsto> [])"
    and "fy_resize F p n d = (e, d') \<Longrightarrow> q \<noteq> p \<Longrightarrow> bytes_of d' q = bytes_of d q"
    and "fy_resize F p n d = (None, d') \<Longrightarrow> bytes_of d' = (bytes_of d)(p := map_option (resized n) (bytes_of d p))"
    and "fy_rename F p q d = (None, d') \<Longrightarrow> bytes_of d p = Some b \<Longrightarrow> bytes_of d' = (bytes_of d)(p := None, q \<mapsto> b)"
    and "fy_create_directories F p d = (e, d') \<Longrightarrow> bytes_of d' = bytes_of d"
    and "fy_last_write_time F p t d = (e, d') \<Longrightarrow> bytes_of d' = bytes_of d"
    and "fy_permissions F p m d = (e, d') \<Longrightarrow> bytes_of d' = bytes_of d"
proof -
  have w: "case fy_write F p off data d of
      written d' \<Rightarrow> (\<forall>q. q \<noteq> p \<longrightarrow> bytes_of d' q = bytes_of d q) \<and> bytes_of d' p = map_option (write_at off data) (bytes_of d p)
    | not_flushed d' \<Rightarrow> (\<forall>q. q \<noteq> p \<longrightarrow> bytes_of d' q = bytes_of d q)
    | not_written d' \<Rightarrow> (\<forall>q. q \<noteq> p \<longrightarrow> bytes_of d' q = bytes_of d q)"
    using assms by (simp add: fs_lawful_def)
  show "bytes_of d' = (bytes_of d)(p := map_option (write_at off data) (bytes_of d p))" if "fy_write F p off data d = written d'"
    using w that by (simp add: fun_eq_iff)
  show "bytes_of d' q = bytes_of d q" if "fy_write F p off data d = not_written d'" "q \<noteq> p" using w that by simp
  show "bytes_of d' q = bytes_of d q" if "fy_write F p off data d = not_flushed d'" "q \<noteq> p" using w that by simp
qed (use assms in \<open>auto simp: fs_lawful_def fun_eq_iff\<close>)

lemma parents_keep_stat:
  assumes "fs_lawful F bytes_of" and "fy_create_directories F (fy_parent F p) d = (e, d')"
  shows "fy_stat F (make_temporal p) d' = fy_stat F (make_temporal p) d"
proof -
  have "length (fy_parent F p) \<le> length p" using assms(1) by (simp add: fs_lawful_def)
  then have "\<not> below (make_temporal p) (fy_parent F p)" by (auto simp: below_def make_temporal_def tmp_suffix_def dest: arg_cong [where f = length])
  then show ?thesis using assms by (simp add: fs_lawful_def)
qed

lemma resized_same [simp]: "length b = n \<Longrightarrow> resized n b = b" "resized n [] = replicate n 0" "length (resized n b) = n"
  by (auto simp: resized_def)

lemma write_at_within:
  assumes "off + length data \<le> length b"
  shows "write_at off data b = take off b @ data @ drop (off + length data) b" "length (write_at off data b) = length b"
  using assms by (simp_all add: write_at_def resized_def)

lemma write_at_nth:
  assumes "off + length data \<le> length b" and "i < length b"
  shows "write_at off data b ! i = (if off \<le> i \<and> i < off + length data then data ! (i - off) else b ! i)"
  using assms by (auto simp: write_at_within(1) nth_append min_def)

lemma masked_call_cases:
  assumes "masked_call f p prev dl a = (e, b)"
  obtains r d where "f (fa_disk a) = (r, d)" "e = map_option os_error r" "fa_disk b = d" "fa_cache b = fa_cache a"
  using assms by (auto simp: masked_call_def split: prod.splits option.splits)

lemma open_write_frame:
  assumes "fs_lawful F bytes_of" and "px_open_write F dl p n a = (e, b)"
  shows "fa_cache b = fa_cache a" "q \<noteq> p \<Longrightarrow> bytes_of (fa_disk b) q = bytes_of (fa_disk a) q"
proof -
  have "fa_cache b = fa_cache a \<and> (q \<noteq> p \<longrightarrow> bytes_of (fa_disk b) q = bytes_of (fa_disk a) q)"
    using assms(2) fs_lawfulD(6,8) [OF assms(1)]
    by (auto simp: px_open_write_def Let_def and_then_def masked_call_def split: if_splits option.splits prod.splits)
  then show "fa_cache b = fa_cache a" "q \<noteq> p \<Longrightarrow> bytes_of (fa_disk b) q = bytes_of (fa_disk a) q" by auto
qed

lemma open_write_bytes:
  assumes "fs_lawful F bytes_of" and "px_open_write F dl p n a = (None, b)"
  shows "bytes_of (fa_disk b) p = (if fy_stat F p (fa_disk a) = None then Some (replicate n 0) else bytes_of (fa_disk a) p)"
proof (cases "fy_stat F p (fa_disk a)")
  case None
  then show ?thesis using assms(2) fs_lawfulD(7,9) [OF assms(1)]
    by (auto simp: px_open_write_def Let_def and_then_def masked_call_def split: if_splits option.splits prod.splits)
next
  case (Some m)
  have "map_option (resized n) (bytes_of (fa_disk a) p) = bytes_of (fa_disk a) p" if "m = n"
    using fs_lawfulD(1) [OF assms(1) Some] that by (cases "bytes_of (fa_disk a) p") auto
  then show ?thesis using assms(2) Some fs_lawfulD(9) [OF assms(1)]
    by (auto simp: px_open_write_def Let_def and_then_def masked_call_def split: if_splits option.splits prod.splits)
qed

subsection \<open>Receiving a file\<close>

text \<open>The stretch of the target that a command writes.\<close>

fun stretch :: "io_command \<Rightarrow> nat set" where
  "stretch (Append_block ctx fid p data off sz) = {nat off ..< nat off + length data}"
| "stretch (Clone_block ctx fid p off sz source source_off n) = {nat off ..< nat off + nat n}"
| "stretch _ = {}"

text \<open>A command that writes a part of the content \<open>D\<close>: as it comes, or from a file on the disk that holds it.\<close>

fun brings :: "('d \<Rightarrow> string \<rightharpoonup> bytes) \<Rightarrow> io_context \<Rightarrow> 'd file_actor \<Rightarrow> string \<Rightarrow> bytes \<Rightarrow> io_command \<Rightarrow> bool" where
  "brings bytes_of cx a p D (Append_block ctx fid q data off sz) \<longleftrightarrow>
     q = p \<and> nat sz = length D \<and> nat off + length data \<le> length D \<and> data = take (length data) (drop (nat off) D)"
| "brings bytes_of cx a p D (Clone_block ctx fid q off sz source source_off n) \<longleftrightarrow>
     q = p \<and> nat sz = length D \<and> nat off + nat n \<le> length D \<and> source \<noteq> p \<and> source \<noteq> make_temporal p \<and> fa_cache a (ic_key cx, source) = None \<and>
     (\<exists>b. bytes_of (fa_disk a) source = Some b \<and> take (nat n) (drop (nat source_off) b) = take (nat n) (drop (nat off) D))"
| "brings bytes_of cx a p D _ \<longleftrightarrow> False"

text \<open>A file of content \<open>D\<close> is being received into what its temporary file was at first.\<close>

definition receiving ::
  "('d \<Rightarrow> string \<rightharpoonup> bytes) \<Rightarrow> io_context \<Rightarrow> 'd file_actor \<Rightarrow> string \<Rightarrow> bytes \<Rightarrow> bytes \<Rightarrow> nat set \<Rightarrow> 'd file_actor \<Rightarrow> bool" where
  "receiving bytes_of cx a p base D got b \<longleftrightarrow>
     (\<exists>t. fa_cache b (ic_key cx, p) = Some \<lparr>fl_path = make_temporal p, fl_size = length D, fl_good = True\<rparr> \<and>
        bytes_of (fa_disk b) (make_temporal p) = Some t \<and> length t = length base \<and>
        (\<forall>i < length base. t ! i = (if i \<in> got then D ! i else base ! i))) \<and>
     (\<forall>q. q \<noteq> make_temporal p \<longrightarrow> bytes_of (fa_disk b) q = bytes_of (fa_disk a) q) \<and>
     (\<forall>k. k \<noteq> (ic_key cx, p) \<longrightarrow> fa_cache b k = fa_cache a k)"

text \<open>The temporary file as it is after opening.\<close>

definition opened_temporal :: "'d file_system \<Rightarrow> ('d \<Rightarrow> string \<rightharpoonup> bytes) \<Rightarrow> 'd file_actor \<Rightarrow> string \<Rightarrow> nat \<Rightarrow> bytes option" where
  "opened_temporal F bytes_of a p n =
     (if fy_stat F (make_temporal p) (fa_disk a) = None then Some (replicate n 0) else bytes_of (fa_disk a) (make_temporal p))"

lemma open_rw_receives:
  assumes laws: "fs_lawful F bytes_of" and "D \<noteq> []" and "open_file_rw F cx p (length D) a = (None, b)" and "fa_cache a (ic_key cx, p) = None"
    and "opened_temporal F bytes_of a p (length D) = Some base"
  shows "receiving bytes_of cx a p base D {} b"
proof -
  obtain a1 where a1: "file_open_write F cx p (length D) a1 = (None, b)" "bytes_of (fa_disk a1) = bytes_of (fa_disk a)" "fa_cache a1 = fa_cache a"
      "fy_stat F (make_temporal p) (fa_disk a1) = fy_stat F (make_temporal p) (fa_disk a)"
  proof (cases "fy_exists F (fy_parent F p) (fa_disk a)")
    case True
    then show ?thesis using that assms(3,4) by (simp add: open_file_rw_def and_then_def)
  next
    case False
    obtain e d where d: "fy_create_directories F (fy_parent F p) (fa_disk a) = (e, d)" by fastforce
    have e: "e = None" using assms(3,4) False d by (auto simp: open_file_rw_def and_then_def split: option.splits)
    show ?thesis using that [of "a\<lparr>fa_disk := d\<rparr>"] assms(3,4) False d e fs_lawfulD(11) [OF laws d] parents_keep_stat [OF laws d]
      by (simp add: open_file_rw_def and_then_def)
  qed
  obtain a2 where a2: "px_open_write F (ic_deadline cx) (make_temporal p) (length D) a1 = (None, a2)"
      "b = put_handle cx p (Some \<lparr>fl_path = make_temporal p, fl_size = length D, fl_good = True\<rparr>) a2"
    using a1(1) assms(2) by (auto simp: file_open_write_def Let_def and_then_def split: prod.splits option.splits)
  have "bytes_of (fa_disk a2) (make_temporal p) = Some base"
    using open_write_bytes [OF laws a2(1)] a1(2,4) assms(5) by (cases "fy_stat F (make_temporal p) (fa_disk a) = None") (auto simp: opened_temporal_def)
  then show ?thesis using a2(2) open_write_frame [OF laws a2(1)] a1(2,3) by (auto simp: receiving_def put_handle_def)
qed

lemma write_receives:
  assumes laws: "fs_lawful F bytes_of" and "receiving bytes_of cx a p base D got b" and "file_write F cx p off data b = (None, c)"
    and "length D \<le> length base" and "data = take (length data) (drop off D)"
  shows "receiving bytes_of cx a p base D (got \<union> {off ..< off + length data}) c"
proof -
  let ?h = "\<lparr>fl_path = make_temporal p, fl_size = length D, fl_good = True\<rparr>"
  obtain t where t: "fa_cache b (ic_key cx, p) = Some ?h" "bytes_of (fa_disk b) (make_temporal p) = Some t" "length t = length base"
      "\<forall>i < length base. t ! i = (if i \<in> got then D ! i else base ! i)"
    using assms(2) by (auto simp: receiving_def)
  have fit: "off + length data \<le> length D" using assms(3) t(1) by (auto simp: file_write_def split: if_splits)
  then have "px_write F (ic_deadline cx) (make_temporal p) off data b = (None, c)"
    using assms(3) t(1) by (auto simp: file_write_def split: if_splits prod.splits option.splits)
  then obtain d where d: "fy_write F (make_temporal p) off data (fa_disk b) = written d" "fa_disk c = d" "fa_cache c = fa_cache b"
    by (auto simp: px_write_def Let_def split: write_outcome.splits)
  have bytes: "bytes_of d = (bytes_of (fa_disk b))(make_temporal p \<mapsto> write_at off data t)" using fs_lawfulD(3) [OF laws d(1)] t(2) by simp
  have len: "off + length data \<le> length t" using fit assms(4) t(3) by simp
  have "write_at off data t ! i = (if i \<in> got \<union> {off ..< off + length data} then D ! i else base ! i)" if "i < length base" for i
  proof (cases "off \<le> i \<and> i < off + length data")
    case True
    have "data ! (i - off) = drop off D ! (i - off)" using assms(5) True by (metis less_diff_conv2 nth_take add.commute)
    then show ?thesis using write_at_nth [OF len] that t(3) True fit by auto
  next
    case False
    then show ?thesis using write_at_nth [OF len] that t(3,4) by auto
  qed
  then show ?thesis using assms(2) t(1,3) d(2,3) bytes write_at_within(2) [OF len] by (auto simp: receiving_def)
qed

definition started ::
  "'d file_system \<Rightarrow> ('d \<Rightarrow> string \<rightharpoonup> bytes) \<Rightarrow> io_context \<Rightarrow> 'd file_actor \<Rightarrow> string \<Rightarrow> bytes \<Rightarrow> bytes \<Rightarrow> nat set \<Rightarrow> 'd file_actor \<Rightarrow> bool" where
  "started F bytes_of cx a p base D got b \<longleftrightarrow>
     (fa_disk b = fa_disk a \<and> fa_cache b = fa_cache a \<and> got = {} \<and> fa_cache a (ic_key cx, p) = None \<and>
       opened_temporal F bytes_of a p (length D) = Some base) \<or> receiving bytes_of cx a p base D got b"

lemma started_frame:
  assumes "started F bytes_of cx a p base D got b"
  shows "q \<noteq> make_temporal p \<Longrightarrow> bytes_of (fa_disk b) q = bytes_of (fa_disk a) q" "q \<noteq> p \<Longrightarrow> fa_cache b (ic_key cx, q) = fa_cache a (ic_key cx, q)"
  using assms by (auto simp: started_def receiving_def)

lemma started_mediator [simp]:
  "started F bytes_of cx a p base D got (b\<lparr>fa_mediator := m\<rparr>) \<longleftrightarrow> started F bytes_of cx a p base D got b"
  by (simp add: started_def receiving_def)

lemma open_started:
  assumes "fs_lawful F bytes_of" and "D \<noteq> []" and "started F bytes_of cx a p base D got b" and "open_file_rw F cx p (length D) b = (None, c)"
  shows "receiving bytes_of cx a p base D got c"
proof (cases "fa_cache b (ic_key cx, p)")
  case None
  then have same: "fa_disk b = fa_disk a" "fa_cache b = fa_cache a" "got = {}" "opened_temporal F bytes_of a p (length D) = Some base"
    using assms(3) by (auto simp: started_def receiving_def)
  have "opened_temporal F bytes_of b p (length D) = Some base" using same(4) unfolding opened_temporal_def same(1) .
  from open_rw_receives [OF assms(1,2,4) None this] have "receiving bytes_of cx b p base D {} c" .
  then show ?thesis using same by (simp add: receiving_def)
next
  case (Some h)
  then have "receiving bytes_of cx a p base D got b" using assms(3) by (auto simp: started_def)
  then show ?thesis using assms(4) Some by (simp add: open_file_rw_def)
qed

lemma command_receives:
  assumes laws: "fs_lawful F bytes_of" and "D \<noteq> []" and s: "started F bytes_of cx a p base D got b" and "brings bytes_of cx a p D cmd"
    and "process_command F cx cmd b = (done_result None, c)" and "length D \<le> length base"
  shows "receiving bytes_of cx a p base D (got \<union> stretch cmd) c"
proof (cases cmd)
  case (Append_block ctx fid q data off sz)
  then have q: "q = p" "nat sz = length D" "data = take (length data) (drop (nat off) D)" using assms(4) by auto
  obtain b1 where b1: "open_file_rw F cx p (length D) b = (None, b1)" "file_write F cx p (nat off) data b1 = (None, c)"
    using assms(5) Append_block q(1,2)
    by (cases "open_file_rw F cx p (length D) b"; cases "fst (open_file_rw F cx p (length D) b)")
      (auto simp: process_command_def process_append_block_def and_then_def apfst_def map_prod_def split: prod.splits)
  from write_receives [OF laws open_started [OF laws assms(2) s b1(1)] b1(2) assms(6) q(3)] show ?thesis using Append_block by simp
next
  case (Clone_block ctx fid q off sz source source_off n)
  then have q: "q = p" "nat sz = length D" "nat off + nat n \<le> length D" "source \<noteq> p" "source \<noteq> make_temporal p" "fa_cache a (ic_key cx, source) = None"
    using assms(4) by auto
  obtain bs where bs: "bytes_of (fa_disk a) source = Some bs" "take (nat n) (drop (nat source_off) bs) = take (nat n) (drop (nat off) D)"
    using assms(4) Clone_block by auto
  obtain b1 where b1: "open_file_rw F cx p (length D) b = (None, b1)"
    using assms(5) Clone_block q(1,2)
    by (cases "open_file_rw F cx p (length D) b"; cases "fst (open_file_rw F cx p (length D) b)")
      (auto simp: process_command_def process_clone_block_def and_then_def apfst_def map_prod_def)
  note r1 = open_started [OF laws assms(2) s b1]
  have same: "fa_cache b1 (ic_key cx, source) = None" "bytes_of (fa_disk b1) source = Some bs"
    using r1 q bs(1) by (auto simp: receiving_def)
  obtain data where data: "fy_read F source (nat source_off) (nat n) (fa_disk b1) = Some data" "file_write F cx p (nat off) data b1 = (None, c)"
    using assms(5) Clone_block q(1,2) b1 same(1)
    by (auto simp: process_command_def process_clone_block_def and_then_def apfst_def map_prod_def split: prod.splits option.splits)
  have d: "data = take (nat n) (drop (nat off) D)" using fs_lawfulD(2) [OF laws data(1)] same(2) bs(2) by simp
  then have "length data = nat n" using q(3) by simp
  with write_receives [OF laws r1 data(2) assms(6)] d show ?thesis using Clone_block by simp
qed (use assms(4) in auto)

lemma commands_receive:
  assumes laws: "fs_lawful F bytes_of" and "D \<noteq> []" and "length D \<le> length base" and "started F bytes_of cx a p base D got b"
    and "\<forall>cmd \<in> set cmds. brings bytes_of cx a p D cmd" and "process_commands F watched cx cmds b = (rs, c)" and "\<forall>r \<in> set rs. r = done_result None"
  shows "started F bytes_of cx a p base D (got \<union> (\<Union>cmd \<in> set cmds. stretch cmd)) c"
  using assms(4-)
proof (induction cmds arbitrary: got b rs)
  case (Cons cmd cmds)
  let ?b = "b\<lparr>fa_mediator := enable (command_folder cmd \<in> watched) (fa_mediator b)\<rparr>"
  obtain r b1 where b1: "process_command F cx cmd ?b = (r, b1)" by fastforce
  obtain rs1 where rs1: "process_commands F watched cx cmds b1 = (rs1, c)" "rs = r # rs1"
    using Cons.prems(3) b1 by (auto simp: apfst_def map_prod_def split: prod.splits)
  have "receiving bytes_of cx a p base D (got \<union> stretch cmd) b1"
    using command_receives [OF laws assms(2), of cx a p base got ?b cmd b1] Cons.prems b1 rs1(2) assms(3) by simp
  then have "started F bytes_of cx a p base D (got \<union> stretch cmd) b1" by (simp add: started_def)
  from Cons.IH [OF this _ rs1(1)] show ?case using Cons.prems(2,4) rs1(2) by (simp add: Un_assoc)
qed simp

lemma finish_bytes:
  assumes laws: "fs_lawful F bytes_of" and "receiving bytes_of cx a p base D got b" and "D \<noteq> []"
    and "process_finish_file F cx p conflict n modified perms no_perms b = (None, c)"
    and "conflict = [] \<or> (bytes_of (fa_disk a) p = Some old \<and> conflict \<noteq> p \<and> conflict \<noteq> make_temporal p)"
  obtains t where "bytes_of (fa_disk b) (make_temporal p) = Some t" "fa_cache c (ic_key cx, p) = None"
    "bytes_of (fa_disk c) = (if conflict = [] then bytes_of (fa_disk b) else (bytes_of (fa_disk b))(conflict \<mapsto> old))(make_temporal p := None, p \<mapsto> t)"
proof -
  let ?h = "\<lparr>fl_path = make_temporal p, fl_size = length D, fl_good = True\<rparr>"
  have ne: "make_temporal p \<noteq> p" by (simp add: make_temporal_def tmp_suffix_def)
  obtain t where t: "fa_cache b (ic_key cx, p) = Some ?h" "bytes_of (fa_disk b) (make_temporal p) = Some t" "bytes_of (fa_disk b) p = bytes_of (fa_disk a) p"
    using assms(2) ne by (auto simp: receiving_def)
  obtain b1 where b1: "(if conflict \<noteq> [] then px_rename F (ic_deadline cx) p conflict b else (None, b)) = (None, b1)"
      "and_then (file_close F cx (the (fa_cache b1 (ic_key cx, p))) modified p (put_handle cx p None b1))
        (\<lambda>a. if no_perms then (None, a) else px_set_perms F (ic_deadline cx) p perms a) = (None, c)" "fa_cache b1 = fa_cache b"
    using assms(4) t(1)
    by (auto simp: process_finish_file_def and_then_def px_rename_def masked_call_def split: if_splits option.splits prod.splits)
  have bytes1: "bytes_of (fa_disk b1) = (if conflict = [] then bytes_of (fa_disk b) else (bytes_of (fa_disk b))(p := None, conflict \<mapsto> old))"
  proof (cases "conflict = []")
    case False
    then obtain d where d: "fy_rename F p conflict (fa_disk b) = (None, d)" "fa_disk b1 = d"
      using b1(1) by (auto simp: px_rename_def masked_call_def split: option.splits prod.splits)
    then show ?thesis using fs_lawfulD(10) [OF laws d(1), of old] assms(5) t(3) False by simp
  qed (use b1(1) in simp)
  obtain b2 where b2: "px_rename F (ic_deadline cx) (make_temporal p) p (put_handle cx p None b1) = (None, b2)"
      "bytes_of (fa_disk c) = bytes_of (fa_disk b2)" "fa_cache c = fa_cache b2"
    using b1(2,3) t(1) assms(3) fs_lawfulD(12,13) [OF laws]
    by (auto simp: file_close_def and_then_def px_rename_def px_last_write_time_def px_set_perms_def masked_call_def split: if_splits option.splits prod.splits)
  obtain d where d: "fy_rename F (make_temporal p) p (fa_disk b1) = (None, d)" "fa_disk b2 = d" "fa_cache b2 = fa_cache (put_handle cx p None b1)"
    using b2(1) by (auto simp: px_rename_def masked_call_def put_handle_def split: option.splits prod.splits)
  have "bytes_of (fa_disk b1) (make_temporal p) = Some t" using bytes1 t(2) assms(5) ne by auto
  from fs_lawfulD(10) [OF laws d(1) this] have "bytes_of (fa_disk c) = (bytes_of (fa_disk b1))(make_temporal p := None, p \<mapsto> t)"
    using b2(2) d(2) by simp
  also have "\<dots> = (if conflict = [] then bytes_of (fa_disk b) else (bytes_of (fa_disk b))(conflict \<mapsto> old))(make_temporal p := None, p \<mapsto> t)"
    using bytes1 by (auto simp: fun_eq_iff)
  finally show ?thesis using that [OF t(2)] b2(3) d(3) by (simp add: put_handle_def)
qed

lemma all_received:
  assumes "fs_lawful F bytes_of" and "D \<noteq> []" and "length D \<le> length base" and "fa_cache a (ic_key cx, p) = None"
    and "opened_temporal F bytes_of a p (length D) = Some base" and "\<forall>cmd \<in> set cmds. brings bytes_of cx a p D cmd"
    and "{..< length D} \<subseteq> (\<Union>cmd \<in> set cmds. stretch cmd)"
    and "process_commands F watched cx cmds a = (rs, b)" and "\<forall>r \<in> set rs. r = done_result None"
  shows "\<exists>got. receiving bytes_of cx a p base D got b" "bytes_of (fa_disk b) (make_temporal p) = Some (D @ drop (length D) base)"
proof -
  let ?got = "\<Union>cmd \<in> set cmds. stretch cmd"
  have "started F bytes_of cx a p base D {} a" using assms(4,5) by (simp add: started_def)
  from commands_receive [OF assms(1,2,3) this assms(6,8,9)] have s: "started F bytes_of cx a p base D ?got b" by simp
  have "?got \<noteq> {}" using assms(2,7) by fastforce
  then have r: "receiving bytes_of cx a p base D ?got b" using s by (auto simp: started_def)
  then show "\<exists>got. receiving bytes_of cx a p base D got b" by blast
  obtain t where t: "bytes_of (fa_disk b) (make_temporal p) = Some t" "length t = length base"
      "\<forall>i < length base. t ! i = (if i \<in> ?got then D ! i else base ! i)"
    using r by (auto simp: receiving_def)
  have outside: "i \<notin> ?got" if "length D \<le> i" for i
  proof
    assume "i \<in> ?got"
    then obtain cmd where cmd: "cmd \<in> set cmds" "i \<in> stretch cmd" by blast
    have "brings bytes_of cx a p D cmd" using assms(6) cmd(1) by blast
    then show False using that cmd(2) by (cases cmd) auto
  qed
  have "t = D @ drop (length D) base"
  proof (rule nth_equalityI)
    fix i assume "i < length t"
    then show "t ! i = (D @ drop (length D) base) ! i"
      using t assms(3,7) outside [of i] by (cases "i < length D") (auto simp: nth_append)
  qed (use t(2) assms(3) in simp)
  then show "bytes_of (fa_disk b) (make_temporal p) = Some (D @ drop (length D) base)" using t(1) by simp
qed

text \<open>
  C3: A file is received whole. When there was no temporary file, all commands that bring its blocks succeed, in whatever
  order, by whatever mixture of received data and copies from other files, and they cover it, then a successful finish leaves exactly its
  content under its name; a conflicting file keeps its content under the other name, the temporary file is gone, and no other file changes.
\<close>

theorem received_file_complete:
  assumes "fs_lawful F bytes_of" and "D \<noteq> []" and "fa_cache a (ic_key cx, p) = None" and "fy_stat F (make_temporal p) (fa_disk a) = None"
    and "\<forall>cmd \<in> set cmds. brings bytes_of cx a p D cmd" and "{..< length D} \<subseteq> (\<Union>cmd \<in> set cmds. stretch cmd)"
    and "process_commands F watched cx cmds a = (rs, b)" and "\<forall>r \<in> set rs. r = done_result None"
    and "process_command F cx (Finish_file ctx fid p conflict sz modified perms no_perms) b = (done_result None, c)"
    and "conflict = [] \<or> (bytes_of (fa_disk a) p = Some old \<and> conflict \<noteq> p \<and> conflict \<noteq> make_temporal p)"
  shows "bytes_of (fa_disk c) =
    (if conflict = [] then bytes_of (fa_disk a) else (bytes_of (fa_disk a))(conflict \<mapsto> old))(make_temporal p := None, p \<mapsto> D)"
proof -
  have base: "opened_temporal F bytes_of a p (length D) = Some (replicate (length D) 0)" using assms(4) by (simp add: opened_temporal_def)
  obtain got where r: "receiving bytes_of cx a p (replicate (length D) 0) D got b"
    using all_received(1) [OF assms(1,2) _ assms(3) base assms(5-8)] by auto
  have t: "bytes_of (fa_disk b) (make_temporal p) = Some D" using all_received(2) [OF assms(1,2) _ assms(3) base assms(5-8)] by simp
  have f: "process_finish_file F cx p conflict (nat sz) modified perms no_perms b = (None, c)"
    using assms(9) by (auto simp: process_command_def apfst_def map_prod_def split: prod.splits)
  obtain t' where "bytes_of (fa_disk b) (make_temporal p) = Some t'"
      "bytes_of (fa_disk c) = (if conflict = [] then bytes_of (fa_disk b) else (bytes_of (fa_disk b))(conflict \<mapsto> old))(make_temporal p := None, p \<mapsto> t')"
    using finish_bytes [OF assms(1) r assms(2) f assms(10)] by blast
  then show ?thesis using t r by (auto simp: receiving_def fun_eq_iff)
qed

text \<open>
  C31: A temporary file that is left from an earlier attempt and has another size is not resized. When it is longer than the
  file, the same successful commands and finish leave the received content with the rest of the old temporary file behind it.
\<close>

theorem stale_temporary_kept:
  assumes "fs_lawful F bytes_of" and "D \<noteq> []" and "fa_cache a (ic_key cx, p) = None"
    and "fy_stat F (make_temporal p) (fa_disk a) \<noteq> None" "bytes_of (fa_disk a) (make_temporal p) = Some stale" "length D < length stale"
    and "\<forall>cmd \<in> set cmds. brings bytes_of cx a p D cmd" and "{..< length D} \<subseteq> (\<Union>cmd \<in> set cmds. stretch cmd)"
    and "process_commands F watched cx cmds a = (rs, b)" and "\<forall>r \<in> set rs. r = done_result None"
    and "process_command F cx (Finish_file ctx fid p [] sz modified perms no_perms) b = (done_result None, c)"
  shows "bytes_of (fa_disk c) p = Some (D @ drop (length D) stale) \<and> bytes_of (fa_disk c) p \<noteq> Some D"
proof -
  have base: "opened_temporal F bytes_of a p (length D) = Some stale" using assms(4,5) by (auto simp: opened_temporal_def)
  have le: "length D \<le> length stale" using assms(6) by simp
  obtain got where r: "receiving bytes_of cx a p stale D got b" using all_received(1) [OF assms(1,2) le assms(3) base assms(7-10)] by auto
  have t: "bytes_of (fa_disk b) (make_temporal p) = Some (D @ drop (length D) stale)"
    using all_received(2) [OF assms(1,2) le assms(3) base assms(7-10)] by simp
  have f: "process_finish_file F cx p [] (nat sz) modified perms no_perms b = (None, c)"
    using assms(11) by (auto simp: process_command_def apfst_def map_prod_def split: prod.splits)
  have "bytes_of (fa_disk c) p = bytes_of (fa_disk b) (make_temporal p)"
    by (rule finish_bytes [OF assms(1) r assms(2) f disjI1 [OF refl]]) simp
  then have "bytes_of (fa_disk c) p = Some (D @ drop (length D) stale)" using t by simp
  then show ?thesis using assms(6) by simp
qed

text \<open>
  When a peer has emptied a file, the command that takes the change over succeeds and leaves the old content in place.
\<close>

theorem emptied_file_kept:
  assumes "fs_lawful F bytes_of" and "bytes_of (fa_disk a) p = Some old" "old \<noteq> []" and "fy_stat F p (fa_disk a) \<noteq> None" "fy_exists F (fy_parent F p) (fa_disk a)"
    and "process_command F cx (Remote_copy ctx fid p [] FILE 0 perms modified target False no_perms) a = (done_result None, c)"
  shows "bytes_of (fa_disk c) p = Some old"
proof -
  have f: "process_remote_copy F cx p [] FILE 0 perms modified target False no_perms a = (None, c)"
    using assms(6) by (auto simp: process_command_def apfst_def map_prod_def split: prod.splits)
  obtain b1 where b1: "px_open_write F (ic_deadline cx) p 0 a = (None, b1)" "bytes_of (fa_disk c) = bytes_of (fa_disk b1)"
    using f assms(5) fs_lawfulD(12,13) [OF assms(1)]
    by (auto simp: process_remote_copy_def copy_content_def and_then_def px_last_write_time_def px_set_perms_def masked_call_def
        split: if_splits option.splits prod.splits)
  then show ?thesis using open_write_bytes [OF assms(1) b1(1)] assms(2,4) by auto
qed

text \<open>An update of metadata is never reported as a success, also when both calls succeed.\<close>

lemma metadata_update_fails: "fst (process_command F cx (Update_meta ctx fid p modified perms no_perms) a) \<noteq> done_result None"
  by (simp add: process_command_def process_update_meta_def apfst_def map_prod_def split: prod.splits option.splits)

subsection \<open>Nothing unfinished is seen\<close>

text \<open>Files that are open for writing are temporary ones.\<close>

definition writes_temporal :: "'d file_actor \<Rightarrow> bool" where
  "writes_temporal a \<longleftrightarrow> (\<forall>k p h. fa_cache a (k, p) = Some h \<longrightarrow> fl_path h = make_temporal p)"

definition same_visible :: "('d \<Rightarrow> string \<rightharpoonup> bytes) \<Rightarrow> 'd file_actor \<Rightarrow> 'd file_actor \<Rightarrow> bool" where
  "same_visible bytes_of a b \<longleftrightarrow> (\<forall>q. (\<forall>p. q \<noteq> make_temporal p) \<longrightarrow> bytes_of (fa_disk b) q = bytes_of (fa_disk a) q)"

lemma open_rw_hidden:
  assumes laws: "fs_lawful F bytes_of" and "0 < n" and "open_file_rw F cx p n a = (e, b)" and "writes_temporal a"
  shows "writes_temporal b \<and> same_visible bytes_of a b"
proof (cases "fa_cache a (ic_key cx, p)")
  case (Some h)
  then show ?thesis using assms(3,4) by (simp add: open_file_rw_def same_visible_def)
next
  case None
  obtain e1 a1 where a1: "(if fy_exists F (fy_parent F p) (fa_disk a) then (None, a)
        else case fy_create_directories F (fy_parent F p) (fa_disk a) of (e, d) \<Rightarrow> (map_option os_error e, a\<lparr>fa_disk := d\<rparr>)) = (e1, a1)"
      "and_then (e1, a1) (file_open_write F cx p n) = (e, b)"
    using assms(3) None by (cases "(if fy_exists F (fy_parent F p) (fa_disk a) then (None, a)
        else case fy_create_directories F (fy_parent F p) (fa_disk a) of (e, d) \<Rightarrow> (map_option os_error e, a\<lparr>fa_disk := d\<rparr>))")
      (simp add: open_file_rw_def)
  have same: "bytes_of (fa_disk a1) = bytes_of (fa_disk a)" "fa_cache a1 = fa_cache a"
    using a1(1) fs_lawfulD(11) [OF laws] by (auto split: if_splits prod.splits)
  show ?thesis
  proof (cases e1)
    case (Some x)
    then show ?thesis using a1(2) same assms(4) by (simp add: and_then_def writes_temporal_def same_visible_def)
  next
    case None
    obtain e2 a2 where a2: "px_open_write F (ic_deadline cx) (make_temporal p) n a1 = (e2, a2)" by fastforce
    note fr = open_write_frame [OF laws a2]
    have "b = a2 \<or> b = put_handle cx p (Some \<lparr>fl_path = make_temporal p, fl_size = n, fl_good = True\<rparr>) a2"
      using a1(2) None a2 assms(2) by (auto simp: and_then_def file_open_write_def Let_def split: option.splits)
    then show ?thesis using fr same assms(4) by (auto simp: writes_temporal_def same_visible_def put_handle_def split: if_splits)
  qed
qed

lemma write_hidden:
  assumes laws: "fs_lawful F bytes_of" and "file_write F cx p off data a = (e, b)" and "writes_temporal a"
  shows "writes_temporal b \<and> same_visible bytes_of a b"
proof (cases "fa_cache a (ic_key cx, p)")
  case None
  then show ?thesis using assms(2,3) by (simp add: file_write_def same_visible_def)
next
  case (Some h)
  have h: "fl_path h = make_temporal p" using assms(3) Some by (simp add: writes_temporal_def)
  obtain e1 a1 where a1: "px_write F (ic_deadline cx) (fl_path h) off data a = (e1, a1)" by fastforce
  have fr: "fa_cache a1 = fa_cache a" "q \<noteq> make_temporal p \<Longrightarrow> bytes_of (fa_disk a1) q = bytes_of (fa_disk a) q" for q
    using a1 h fs_lawfulD(3,4,5) [OF laws] by (auto simp: px_write_def Let_def split: write_outcome.splits)
  have "b = a \<or> b = a1 \<or> b = put_handle cx p (Some (h\<lparr>fl_good := False\<rparr>)) a1"
    using assms(2) Some a1 by (auto simp: file_write_def split: if_splits option.splits)
  then show ?thesis using fr assms(3) h by (auto simp: writes_temporal_def same_visible_def put_handle_def split: if_splits)
qed

lemma hidden_trans: "same_visible bytes_of a b \<Longrightarrow> same_visible bytes_of b c \<Longrightarrow> same_visible bytes_of a c"
  by (simp add: same_visible_def)

lemma poisoned_hidden:
  "writes_temporal a \<Longrightarrow> fa_cache a (ic_key cx, p) = Some h \<Longrightarrow> writes_temporal (put_handle cx p (Some (h\<lparr>fl_good := False\<rparr>)) a)"
  "same_visible bytes_of a (put_handle cx p x a)" "same_visible bytes_of a a"
  by (auto simp: writes_temporal_def same_visible_def put_handle_def)

fun writes_block :: "io_command \<Rightarrow> bool" where
  "writes_block (Append_block ctx fid p data off sz) \<longleftrightarrow> 0 < sz"
| "writes_block (Clone_block ctx fid p off sz source source_off n) \<longleftrightarrow> 0 < sz"
| "writes_block _ \<longleftrightarrow> False"

lemma block_hidden:
  assumes laws: "fs_lawful F bytes_of" and "writes_block cmd" and "process_command F cx cmd a = (r, b)" and "writes_temporal a"
  shows "writes_temporal b \<and> same_visible bytes_of a b"
proof (cases cmd)
  case (Append_block ctx fid p data off sz)
  obtain e1 a1 where a1: "open_file_rw F cx p (nat sz) a = (e1, a1)" by fastforce
  have h1: "writes_temporal a1" "same_visible bytes_of a a1" using open_rw_hidden [OF laws _ a1 assms(4)] assms(2) Append_block by auto
  have "b = a1 \<or> (\<exists>e. file_write F cx p (nat off) data a1 = (e, b))"
    using assms(3) Append_block a1 by (cases e1) (auto simp: process_command_def process_append_block_def and_then_def apfst_def map_prod_def split: prod.splits)
  then show ?thesis using h1 write_hidden [OF laws _ h1(1)] hidden_trans [OF h1(2)] by blast
next
  case (Clone_block ctx fid p off sz source source_off n)
  obtain e1 a1 where a1: "open_file_rw F cx p (nat sz) a = (e1, a1)" by fastforce
  have h1: "writes_temporal a1" "same_visible bytes_of a a1" using open_rw_hidden [OF laws _ a1 assms(4)] assms(2) Clone_block by auto
  have "b = a1 \<or> (\<exists>data e. file_write F cx p (nat off) data a1 = (e, b)) \<or>
      (\<exists>h. fa_cache a1 (ic_key cx, source) = Some h \<and> b = put_handle cx source (Some (h\<lparr>fl_good := False\<rparr>)) a1)"
    using assms(3) Clone_block a1
    by (cases e1) (auto simp: process_command_def process_clone_block_def and_then_def apfst_def map_prod_def split: prod.splits option.splits)
  then show ?thesis using h1 write_hidden [OF laws _ h1(1)] hidden_trans [OF h1(2)] poisoned_hidden(1) [OF h1(1)] poisoned_hidden(2) by blast
qed (use assms(2) in auto)

text \<open>
  C4: Whatever blocks are written, in whatever order, and whichever of the calls fail: until a file is finished nothing but
  temporary files changes, and open files stay temporary ones.
\<close>

theorem unfinished_hidden:
  assumes "fs_lawful F bytes_of" and "\<forall>cmd \<in> set cmds. writes_block cmd" and "on_io_commands F watched cx cmds a = (rs, b)" and "writes_temporal a"
  shows "writes_temporal b \<and> (\<forall>q. (\<forall>p. q \<noteq> make_temporal p) \<longrightarrow> bytes_of (fa_disk b) q = bytes_of (fa_disk a) q)"
proof -
  have "writes_temporal c \<and> same_visible bytes_of a0 c"
    if "process_commands F watched cx cmds a0 = (rs, c)" "writes_temporal a0" "\<forall>cmd \<in> set cmds. writes_block cmd" for cmds a0 c rs
    using that
  proof (induction cmds arbitrary: a0 rs)
    case Nil
    then show ?case by (simp add: same_visible_def)
  next
    case (Cons cmd cmds)
    let ?a = "a0\<lparr>fa_mediator := enable (command_folder cmd \<in> watched) (fa_mediator a0)\<rparr>"
    obtain r a1 where a1: "process_command F cx cmd ?a = (r, a1)" by fastforce
    have "writes_temporal ?a" using Cons.prems(2) by (simp add: writes_temporal_def)
    then have h1: "writes_temporal a1" "same_visible bytes_of a0 a1"
      using block_hidden [OF assms(1) _ a1] Cons.prems(3) by (auto simp: same_visible_def)
    obtain rs1 where "process_commands F watched cx cmds a1 = (rs1, c)"
      using Cons.prems(1) a1 by (auto simp: apfst_def map_prod_def split: prod.splits)
    from Cons.IH [OF this h1(1)] Cons.prems(3) show ?case using hidden_trans [OF h1(2)] by auto
  qed
  from this [of cmds "a\<lparr>fa_updates := 0\<rparr>"] show ?thesis
    using assms(2,3,4) by (auto simp: on_io_commands_def writes_temporal_def same_visible_def split: prod.splits)
qed

subsection \<open>A disk in memory\<close>

type_synonym memory_disk = "(string \<times> bytes) list"

definition change_bytes :: "string \<Rightarrow> (bytes \<Rightarrow> bytes) \<Rightarrow> memory_disk \<Rightarrow> memory_disk" where
  "change_bytes p f d = (case map_of d p of None \<Rightarrow> d | Some b \<Rightarrow> AList.update p (f b) d)"

definition memory_fs :: "memory_disk file_system" where
  "memory_fs = \<lparr>fy_windows = False, fy_parent = (\<lambda>p. []), fy_stat = (\<lambda>p d. map_option length (map_of d p)),
     fy_exists = (\<lambda>p d. p = [] \<or> map_of d p \<noteq> None), fy_is_symlink = (\<lambda>p d. False), fy_read_symlink = (\<lambda>p d. []),
     fy_open = (\<lambda>p d. if map_of d p = None then Some 2 else None),
     fy_read = (\<lambda>p off n d. Option.bind (map_of d p) (\<lambda>b. if off + n \<le> length b then Some (take n (drop off b)) else None)),
     fy_write = (\<lambda>p off data d. written (change_bytes p (write_at off data) d)),
     fy_create = (\<lambda>p d. (None, AList.update p [] d)), fy_resize = (\<lambda>p n d. (None, change_bytes p (resized n) d)),
     fy_rename = (\<lambda>p q d. case map_of d p of None \<Rightarrow> (Some 2, d) | Some b \<Rightarrow> (None, AList.update q b (AList.delete p d))),
     fy_remove_all = (\<lambda>p d. (None, AList.delete p d)), fy_create_directories = (\<lambda>p d. (None, d)),
     fy_last_write_time = (\<lambda>p t d. (None, d)), fy_permissions = (\<lambda>p m d. (None, d)), fy_create_symlink = (\<lambda>t p d. (None, d))\<rparr>"

lemma change_bytes_of: "map_of (change_bytes p f d) = (map_of d)(p := map_option f (map_of d p))"
  by (auto simp: change_bytes_def update_conv' fun_eq_iff split: option.splits)

lemma memory_fs_lawful: "fs_lawful memory_fs map_of"
  unfolding fs_lawful_def memory_fs_def file_system.simps
  by (intro conjI allI impI)
    (auto simp: change_bytes_of update_conv' delete_conv' below_def bind_eq_Some_conv fun_eq_iff split: if_splits option.splits)

definition sample_io :: io_context where "sample_io = \<lparr>ic_key = 1, ic_deadline = 10\<rparr>"

definition sample_disk :: "memory_disk \<Rightarrow> memory_disk file_actor" where
  "sample_disk d = \<lparr>fa_disk = d, fa_mediator = fresh_mediator, fa_cache = (\<lambda>_. None), fa_updates = 0, fa_timer = False\<rparr>"

definition sample_ack :: block_ack_context where
  "sample_ack = \<lparr>bc_block = 0, bc_target_file = 0, bc_target_folder = ([], []), bc_block_index = 0\<rparr>"

definition sample_finish :: "string \<Rightarrow> io_command" where
  "sample_finish conflict = Finish_file \<lparr>fc_peer_file = 0, fc_peer_folder = ([], []), fc_action = remote_copy\<rparr> ''f'' ''a'' conflict 3 0 0 False"

text \<open>A file of three bytes: two come from the peer, after the first was copied from another file.\<close>

definition sample_blocks :: "io_command list" where
  "sample_blocks = [Clone_block sample_ack ''f'' ''a'' 0 3 ''b'' 1 1, Append_block sample_ack ''f'' ''a'' [8, 9] 1 3]"

definition sample_files :: memory_disk where "sample_files = [(''a'', [1]), (''b'', [6, 7])]"

lemma sample_brought:
  "\<forall>cmd \<in> set sample_blocks. brings map_of sample_io (sample_disk sample_files) ''a'' [7, 8, 9] cmd"
  "\<forall>cmd \<in> set sample_blocks. brings map_of sample_io (sample_disk ((make_temporal ''a'', b) # sample_files)) ''a'' [7, 8, 9] cmd"
  by (auto simp: sample_blocks_def sample_disk_def sample_files_def sample_io_def make_temporal_def tmp_suffix_def)

lemma sample_covers: "{..< length [7, 8, 9 :: u8]} \<subseteq> (\<Union>cmd \<in> set sample_blocks. stretch cmd)"
  by (auto simp: sample_blocks_def)

definition sample_received :: "memory_disk \<Rightarrow> memory_disk file_actor" where
  "sample_received d = snd (process_commands memory_fs {} sample_io sample_blocks (sample_disk d))"

definition sample_finished :: "memory_disk \<Rightarrow> string \<Rightarrow> memory_disk file_actor" where
  "sample_finished d conflict = snd (process_command memory_fs sample_io (sample_finish conflict) (sample_received d))"

lemma sample_runs:
  "fst (process_commands memory_fs {} sample_io sample_blocks (sample_disk sample_files)) = [done_result None, done_result None]"
  "fst (process_command memory_fs sample_io (sample_finish ''c'') (sample_received sample_files)) = done_result None"
  "fst (process_commands memory_fs {} sample_io sample_blocks (sample_disk ((make_temporal ''a'', [1, 1, 1, 1, 1]) # sample_files))) = [done_result None, done_result None]"
  "fst (process_command memory_fs sample_io (sample_finish []) (sample_received ((make_temporal ''a'', [1, 1, 1, 1, 1]) # sample_files))) = done_result None"
  by code_simp+

theorem received_file_complete_witness:
  "map_of (fa_disk (sample_finished sample_files ''c'')) =
     (map_of sample_files)(''c'' \<mapsto> [1], make_temporal ''a'' := None, ''a'' \<mapsto> [7, 8, 9])"
proof -
  let ?a = "sample_disk sample_files" and ?b = "sample_received sample_files"
  have runs: "process_commands memory_fs {} sample_io sample_blocks ?a = ([done_result None, done_result None], ?b)"
    "process_command memory_fs sample_io (sample_finish ''c'') ?b = (done_result None, sample_finished sample_files ''c'')"
    using sample_runs(1,2) by (simp_all add: sample_received_def sample_finished_def prod_eq_iff)
  have fresh: "fa_cache ?a (ic_key sample_io, ''a'') = None" "fy_stat memory_fs (make_temporal ''a'') (fa_disk ?a) = None"
    by (simp_all add: sample_disk_def sample_files_def memory_fs_def make_temporal_def tmp_suffix_def)
  have c: "''c'' = [] \<or> (map_of (fa_disk ?a) ''a'' = Some [1] \<and> ''c'' \<noteq> ''a'' \<and> ''c'' \<noteq> make_temporal ''a'')"
    by (simp add: sample_disk_def sample_files_def make_temporal_def tmp_suffix_def)
  have "\<forall>r \<in> set [done_result None, done_result None]. r = done_result None" by simp
  from received_file_complete [OF memory_fs_lawful _ fresh sample_brought(1) sample_covers runs(1) this runs(2) [unfolded sample_finish_def] c]
  show ?thesis by (simp add: sample_disk_def)
qed

theorem stale_temporary_kept_witness:
  "map_of (fa_disk (sample_finished ((make_temporal ''a'', [1, 1, 1, 1, 1]) # sample_files) [])) ''a'' = Some [7, 8, 9, 1, 1]"
proof -
  let ?d = "(make_temporal ''a'', [1, 1, 1, 1, 1]) # sample_files"
  let ?a = "sample_disk ?d" and ?b = "sample_received ?d"
  have runs: "process_commands memory_fs {} sample_io sample_blocks ?a = ([done_result None, done_result None], ?b)"
    "process_command memory_fs sample_io (sample_finish []) ?b = (done_result None, sample_finished ?d [])"
    using sample_runs(3,4) by (simp_all add: sample_received_def sample_finished_def prod_eq_iff)
  have stale: "fa_cache ?a (ic_key sample_io, ''a'') = None" "fy_stat memory_fs (make_temporal ''a'') (fa_disk ?a) \<noteq> None"
    "map_of (fa_disk ?a) (make_temporal ''a'') = Some [1, 1, 1, 1, 1]" "length [7, 8, 9 :: u8] < length [1, 1, 1, 1, 1 :: u8]"
    by (simp_all add: sample_disk_def memory_fs_def)
  have "\<forall>r \<in> set [done_result None, done_result None]. r = done_result None" by simp
  from stale_temporary_kept [OF memory_fs_lawful _ stale sample_brought(2) sample_covers runs(1) this runs(2) [unfolded sample_finish_def]]
  show ?thesis by simp
qed

theorem emptied_file_kept_witness:
  "map_of (fa_disk (snd (process_command memory_fs sample_io (Remote_copy \<lparr>fc_peer_file = 0, fc_peer_folder = ([], []), fc_action = remote_copy\<rparr>
     ''f'' ''b'' [] FILE 0 0 0 [] False False) (sample_disk sample_files)))) ''b'' = Some [6, 7]"
proof -
  let ?cmd = "Remote_copy \<lparr>fc_peer_file = 0, fc_peer_folder = ([], []), fc_action = remote_copy\<rparr> ''f'' ''b'' [] FILE 0 0 0 [] False False"
    and ?a = "sample_disk sample_files"
  have "fst (process_command memory_fs sample_io ?cmd ?a) = done_result None" by code_simp
  then have r: "process_command memory_fs sample_io ?cmd ?a = (done_result None, snd (process_command memory_fs sample_io ?cmd ?a))"
    by (simp add: prod_eq_iff)
  have d: "map_of (fa_disk ?a) ''b'' = Some [6, 7]" "[6, 7 :: u8] \<noteq> []" "fy_stat memory_fs ''b'' (fa_disk ?a) \<noteq> None"
    "fy_exists memory_fs (fy_parent memory_fs ''b'') (fa_disk ?a)"
    by (simp_all add: sample_disk_def sample_files_def memory_fs_def)
  show ?thesis by (rule emptied_file_kept [OF memory_fs_lawful d r])
qed

theorem unfinished_hidden_witness:
  "map_of (fa_disk (snd (on_io_commands memory_fs {} sample_io sample_blocks (sample_disk sample_files)))) ''a'' = Some [1]"
proof -
  let ?r = "on_io_commands memory_fs {} sample_io sample_blocks (sample_disk sample_files)"
  have "\<forall>cmd \<in> set sample_blocks. writes_block cmd" by (simp add: sample_blocks_def)
  moreover have "?r = (fst ?r, snd ?r)" by simp
  moreover have "writes_temporal (sample_disk sample_files)" by (simp add: writes_temporal_def sample_disk_def)
  ultimately have "\<forall>q. (\<forall>p. q \<noteq> make_temporal p) \<longrightarrow> map_of (fa_disk (snd ?r)) q = map_of (fa_disk (sample_disk sample_files)) q"
    using unfinished_hidden [OF memory_fs_lawful] by blast
  moreover have "\<forall>p. ''a'' \<noteq> make_temporal p" by (auto simp: make_temporal_def tmp_suffix_def dest: arg_cong [where f = length])
  ultimately show ?thesis by (simp add: sample_disk_def sample_files_def)
qed

end
