(* ===== verification/Spec2Isabelle.thy ===== *)
theory Spec2Isabelle
  imports Prelude Version Base32 Device_Id Messages Block_Info File_Info File_Links Multi_Index Path Device Folder Resolver Diff_Chain Orphaned_Blocks Cluster Changes Create Index_Update Advance Cluster_Update Key_Invariant Bep Relay Peer Pull Streamer File_Iterator Fs_Support Watcher Scheduler Controller Controller_Events Controller_Safety Controller_Limits
    Hashing Presence Scanner Scanner_Walks Scanner_Safety Database Db_Actor Db_Loading File_Actor
begin

text \<open>
  A verification library for syncspirit, a continuous file synchronisation program that
  speaks the Block Exchange Protocol.

  \<^bold>\<open>The program.\<close> A device shares folders with other devices. The model layer (\<^verbatim>\<open>src/model\<close>)
  keeps the cluster: devices, folders, one view of every folder per device with its files, and the
  blocks the files consist of, each known by its hash and shared between files. The cluster changes
  only by diffs (\<^verbatim>\<open>src/model/diff\<close>), which are made from messages of peers, from scans of the disk and
  from the user, chained, and applied by the coordinator. Around it actors (\<^verbatim>\<open>src/net\<close>, \<^verbatim>\<open>src/fs\<close>,
  \<^verbatim>\<open>src/hasher\<close>) talk to peers, the disk and the database. The wire formats are in \<^verbatim>\<open>src/proto\<close> and
  \<^verbatim>\<open>src/utils\<close>.

  \<^bold>\<open>Theories, in the order of the layers.\<close>
  \<^item> \<open>Prelude\<close>: machine integers, byte strings, results, shared list facts.
  \<^item> \<open>Version\<close> (\<^verbatim>\<open>model/version.cpp\<close>): version vectors with the mark of the best counter in the top bit;
    round trip to the wire, and that an update supersedes.
  \<^item> \<open>Base32\<close> (\<^verbatim>\<open>utils/base32.cpp\<close>, \<^verbatim>\<open>proto/luhn32.cpp\<close>) and \<open>Device_Id\<close> (\<^verbatim>\<open>model/device_id.cpp\<close>): the text
    form of identifiers; round trips and error detection.
  \<^item> \<open>Messages\<close> (\<^verbatim>\<open>proto/proto-helpers-*.h\<close>): protobuf messages as records.
  \<^item> \<open>Block_Info\<close> (\<^verbatim>\<open>model/block_info.cpp\<close>), \<open>File_Info\<close> (\<^verbatim>\<open>model/file_info.cpp\<close>), \<open>File_Links\<close>: blocks, files
    and the pointers between them in an explicit store; the pointers of both sides agree and reference
    counts are exact in every reachable store.
  \<^item> \<open>Multi_Index\<close> (\<^verbatim>\<open>model/misc/map.hpp\<close>, \<^verbatim>\<open>model/misc/file_info_map.h\<close> and their users): keyed containers.
  \<^item> \<open>Path\<close>, \<open>Device\<close>, \<open>Folder\<close>: relative paths, devices and their connection states, folders and folder infos.
  \<^item> \<open>Resolver\<close> (\<^verbatim>\<open>model/misc/resolver.cpp\<close>): which of two versions of a file wins, and that two peers
    decide oppositely.
  \<^item> \<open>Diff_Chain\<close> (\<^verbatim>\<open>model/diff/cluster_diff.cpp\<close>, \<^verbatim>\<open>iterative_controller.cpp\<close>, \<^verbatim>\<open>diff_assembler.cpp\<close>): trees of
    diffs, their interruptible application, the controller; serializability, transparency of
    interrupts, and that the controller comes to rest.
  \<^item> \<open>Orphaned_Blocks\<close>, \<open>Cluster\<close>, \<open>Changes\<close>: unused blocks, the cluster and the application of every
    diff class; \<open>Key_Invariant\<close>: unique keys in all containers at all times.
  \<^item> \<open>Create\<close>, \<open>Index_Update\<close>, \<open>Cluster_Update\<close>, \<open>Advance\<close>: how diffs are made, from user requests,
    index and cluster configuration messages of peers, and decisions about single files.
  \<^item> \<open>Bep\<close> (\<^verbatim>\<open>proto/bep_support.cpp\<close>), \<open>Relay\<close> (\<^verbatim>\<open>proto/relay_support.cpp\<close>): framing of messages between peers
    and with relays; round trips, partial and concatenated frames.
  \<^item> \<open>Peer\<close> (\<^verbatim>\<open>net/peer_actor.cpp\<close>): the connection to a peer, with its queue of outgoing data, its
    receiving loop and its timers.
  \<^item> \<open>Pull\<close>, \<open>File_Iterator\<close>, \<open>Streamer\<close> (\<^verbatim>\<open>model/misc/block_iterator.cpp\<close>, \<^verbatim>\<open>postponed_files.cpp\<close>, \<^verbatim>\<open>file_iterator.cpp\<close>,
    \<^verbatim>\<open>updates_streamer.cpp\<close>): which blocks of a file are missing, which file of a peer comes next, and which local files a peer
    has not seen; all of them exactly once.
  \<^item> \<open>Controller\<close>, \<open>Controller_Events\<close> (\<^verbatim>\<open>net/controller_actor.cpp\<close>): the controller of a connection, its operations
    and its events, from the messages of the peer to the writes of blocks; \<open>Controller_Safety\<close>, \<open>Controller_Limits\<close>: only verified data is written,
    writes and requests are accounted for in every event, and announcements keep within the room of the outgoing buffer.
  \<^item> \<open>Fs_Support\<close> (\<^verbatim>\<open>fs/utils.cpp\<close>, \<^verbatim>\<open>model/misc/lru_cache.hpp\<close>): the division of files into blocks, names of temporary
    files, the list of recently used items.
  \<^item> \<open>Watcher\<close> (\<^verbatim>\<open>fs/updates_support.cpp\<close>, \<^verbatim>\<open>fs/updates_mediator.cpp\<close>, \<^verbatim>\<open>fs/platform/watcher_base.cpp\<close>): merging of file system
    events, and hiding of those the program causes itself.
  \<^item> \<open>Scheduler\<close> (\<^verbatim>\<open>net/scheduler.cpp\<close>): when which folder is scanned.
  \<^item> \<open>Hashing\<close> (\<^verbatim>\<open>net/local_keeper/hash_base.cpp\<close>, \<^verbatim>\<open>fs/task/segment_iterator.cpp\<close>, \<^verbatim>\<open>hasher/hasher_plugin.cpp\<close>): how a local file is
    divided into segments, read and hashed; every byte is read once and the digests find their places.
  \<^item> \<open>Presence\<close> (\<^verbatim>\<open>presentation/presence.cpp\<close>, \<^verbatim>\<open>entity.cpp\<close>, \<^verbatim>\<open>cluster_file_presence.cpp\<close>, \<^verbatim>\<open>folder_presence.cpp\<close>): the tree of what each
    device has of a file; the search by name.
  \<^item> \<open>Scanner\<close> (\<^verbatim>\<open>net/local_keeper/folder_context.cpp\<close>, \<^verbatim>\<open>folder_slave.cpp\<close>, \<^verbatim>\<open>child_info.cpp\<close>): the comparison of the disk with the model;
    \<open>Scanner_Walks\<close>: its walks over the tree of presences; \<open>Scanner_Safety\<close>: the processing of its stack ends, and the end of a scan is
    reported only when nothing is read or hashed any more.
  \<^item> \<open>Database\<close> (\<^verbatim>\<open>db/utils.cpp\<close>, \<^verbatim>\<open>db/cursor.h\<close>): records under prefixed keys, the walk over a kind of them and the migration of older
    formats; the walk gives all records of the kind, and a migration commits the upgraded database or fails.
  \<^item> \<open>Db_Actor\<close>, \<open>Db_Loading\<close> (\<^verbatim>\<open>net/db_actor.cpp\<close>): what is written for a chain of diffs, and how the database is opened and loaded;
    a visit that succeeds is durable and complete, what was saved is loaded again, and files that miss a block or a folder are removed.
  \<^item> \<open>File_Actor\<close> (\<^verbatim>\<open>fs/file_actor.cpp\<close>, \<^verbatim>\<open>fs/file.cpp\<close>, \<^verbatim>\<open>fs/fs_proxy.cpp\<close>): what the commands of a controller do to the disk; blocks that
    cover a file make up its content under its name when it is finished, and nothing unfinished is seen before.
  \<^item> This theory: properties that span components.

  \<^bold>\<open>Conventions.\<close> A class is a record, a set of diffs a datatype, a method a function on the state it
  changes. Unsigned integers whose width matters are words, the others are \<open>nat\<close>; signed ones are
  \<open>int\<close>, with the conversion written out where the code narrows. Objects that are shared and mutated
  (files, blocks) live in a store of addresses; objects that are only replaced are values. A violated
  assertion, a null pointer followed or an index out of range is \<open>None\<close>, or the error
  \<open>assertion_failed\<close> where a function already returns errors; reading beyond received bytes is
  \<open>Out_of_bounds\<close>. Boost multi-index containers are lists of their elements; where one of several
  elements with an equal key is chosen by the container, the choice is an argument. Ordered sets of keys are
  sorted lists. Handlers of actors append what they send to a list of effects.

  \<^bold>\<open>Parameters.\<close> Code of other packages appears as arguments: the protobuf coder and LZ4 (\<open>codec\<close>), the
  URL and JSON parsers, the clock, random identifiers (\<open>sequencer\<close>), the digest of certificates and the
  decoders of database records (\<open>env\<close>), the MDBX library (\<open>mdbx\<close>, with its documented behaviour as \<open>lawful\<close>) and the coders of its
  records (\<open>db_codec\<close>), and the file system (\<open>file_system\<close>, with what is relied on of the bytes of files as \<open>fs_lawful\<close>). What a theorem needs of them is among its hypotheses, and its
  witness has a concrete instance.

  \<^bold>\<open>Interfaces.\<close> The locales state what clients rely on: places of a block (interpreted by the packed
  representation of \<open>Block_Info\<close>), keyed containers (by the generic map), steps of a diff
  that keep a property (by unique keys over all diffs), a mask of expected events (by the mediator of the watcher). The
  loop over received bytes is a partial function proved to return; the loop that pulls files and blocks carries
  a measure of what is queued and what is missing; the loop that announces files has as fuel one turn more than there are files outstanding, which
  is proved to be enough; the ascent from a scanned directory has its depth as fuel; the stack of the scanner and its walks, the walk
  over records and the turns of the loading are partial functions, proved to return; the other recursions are structural.

  \<^bold>\<open>Not modelled.\<close> The user interfaces (\<^verbatim>\<open>src/ui-fltk\<close>, \<^verbatim>\<open>src/ui-daemon\<close>) and the statistics of the presentation tree, the storage
  of the database library, transports and TLS, discovery and UPnP clients, the system calls of the watchers and of the tasks
  of the scanner, the actor around the scanner (\<^verbatim>\<open>net/local_keeper.cpp\<close>), configuration and logging: they move data between libraries and the parts above.
\<close>

subsection \<open>From a local edit to the peers\<close>

text \<open>
  C5: the version that a local modification of a known file gets wins at every peer that still
  holds the file as it was: such a peer copies the file, and this device ignores the old one.
\<close>

theorem local_edit_reaches_peers:
  assumes "make_local_update A clock cl f fid keep sq = Some (d, sq')" "folder_info_of fid (cl_self cl) cl = Some (fd, fo)"
    and "get_original (cl_store cl) (cl_self cl) f (fd_folder_infos fd) None = Some None"
    and "by_name (cl_store cl) (pf_name f) fo = Some g" "old = file_at (cl_store cl) g"
    and "plain v" "version_of_proto v = Some (fi_version old)" "distinct (map counter_id v)"
    and "counter_value (get_best (fi_version old)) < 0x7FFFFFFFFFFFFFFF" "clock < 0x8000000000000000"
  shows "\<exists>uuid source local ch. d = Diff (change (advance local_update fid (cl_self cl) uuid source local)) ch \<and>
    pf_name local = pf_name f \<and> pf_blocks local = pf_blocks f \<and>
    (\<forall>r. version_of_proto (pf_version local) = Some (fi_version r) \<longrightarrow>
       compare_by_version r old = remote_copy \<and> compare_by_version old r = ignore)"
  using make_local_update_known [OF assms(1-4)] updated_wins [OF assms(6-10)] assms(5) by fastforce

text \<open>The sample cluster with one local file.\<close>

definition edited_cluster :: cluster where
  "edited_cluster = sample_cluster\<lparr>cl_store := put_file 0 (sample_file 1) empty_store, cl_next := 1, cl_folders :=
     [(blank_folder (replicate 16 2) sample_db_folder)\<lparr>fd_folder_infos :=
        [(blank_folder_info sample_device (replicate 16 2) (replicate 16 3))\<lparr>fo_file_infos := [0], fo_max_sequence := 1\<rparr>]\<rparr>]\<rparr>"

definition sample_advance_env :: advance_env where
  "sample_advance_env = \<lparr>ae_unset_uuid = [], ae_empty_digest = [], ae_local_time = \<lambda>_. (2025, 1, 1, 0, 0, 0)\<rparr>"

lemma edited_update: "case make_local_update sample_advance_env 7 edited_cluster (sample_info 3) ''f'' False sample_sequencer of
    None \<Rightarrow> False | Some (d, sq) \<Rightarrow> True"
  by code_simp

lemma edited_facts:
  "case folder_info_of ''f'' (cl_self edited_cluster) edited_cluster of None \<Rightarrow> False
   | Some (fd, fo) \<Rightarrow> get_original (cl_store edited_cluster) (cl_self edited_cluster) (sample_info 3) (fd_folder_infos fd) None = Some None \<and>
       by_name (cl_store edited_cluster) (pf_name (sample_info 3)) fo = Some 0"
  "version_of_proto [\<lparr>counter_id = 1, counter_value = 1\<rparr>] = Some (fi_version (file_at (cl_store edited_cluster) 0))"
  "counter_value (get_best (fi_version (file_at (cl_store edited_cluster) 0))) < 0x7FFFFFFFFFFFFFFF"
  by code_simp+

theorem local_edit_reaches_peers_witness:
  "\<exists>uuid source local ch d sq. make_local_update sample_advance_env 7 edited_cluster (sample_info 3) ''f'' False sample_sequencer = Some (d, sq) \<and>
     d = Diff (change (advance local_update ''f'' (cl_self edited_cluster) uuid source local)) ch \<and>
     (\<forall>r. version_of_proto (pf_version local) = Some (fi_version r) \<longrightarrow>
       compare_by_version r (file_at (cl_store edited_cluster) 0) = remote_copy)"
proof -
  obtain d sq where d: "make_local_update sample_advance_env 7 edited_cluster (sample_info 3) ''f'' False sample_sequencer = Some (d, sq)"
    using edited_update by (auto split: option.splits)
  obtain fd fo where fo: "folder_info_of ''f'' (cl_self edited_cluster) edited_cluster = Some (fd, fo)"
      "get_original (cl_store edited_cluster) (cl_self edited_cluster) (sample_info 3) (fd_folder_infos fd) None = Some None"
      "by_name (cl_store edited_cluster) (pf_name (sample_info 3)) fo = Some 0"
    using edited_facts(1) by (auto split: option.splits)
  have "plain [\<lparr>counter_id = 1, counter_value = 1\<rparr>]" by (simp add: plain_def)
  then show ?thesis
    using local_edit_reaches_peers [OF d fo refl _ edited_facts(2) _ edited_facts(3)] d by (fastforce simp: word_less_def)
qed

text \<open>A cluster with an empty local file, and a remote version of it.\<close>

definition conflict_cluster :: cluster where
  "conflict_cluster = edited_cluster\<lparr>cl_store := put_file 0
     (the (create_file (replicate 16 9) ((sample_info 1)\<lparr>pf_size := 0, pf_blocks := []\<rparr>) (replicate 16 8))) empty_store\<rparr>"

lemma initialize_empty:
  assumes "folder_info_of fid (cl_self cl) cl = Some (fd, fo)" "pf_size source = 0" "\<not> pf_deleted source"
  shows "\<exists>r. initialize A cl keep action fid source name sq = Some r"
  using assms by (auto simp: initialize_def Let_def split: option.splits prod.splits)

lemma conflict_facts:
  "case folder_info_of ''f'' (cl_self conflict_cluster) conflict_cluster of None \<Rightarrow> False
   | Some (fd, fo) \<Rightarrow> by_name (cl_store conflict_cluster) ''a'' fo = Some 0"
  "case as_proto [] (cl_store conflict_cluster) (file_at (cl_store conflict_cluster) 0) True of None \<Rightarrow> False
   | Some p \<Rightarrow> pf_size p = 0 \<and> \<not> pf_deleted p"
  by code_simp+

lemma conflict_resolved: "\<exists>ds sq. make_remote_win sample_advance_env conflict_cluster ((sample_info 3)\<lparr>pf_size := 0, pf_blocks := []\<rparr>) ''f'' (replicate 32 1)
      sample_sequencer = Some (ds, sq)"
proof -
  let ?cl = conflict_cluster and ?f = "(sample_info 3)\<lparr>pf_size := 0, pf_blocks := []\<rparr>"
  obtain fd fo where fo: "folder_info_of ''f'' (cl_self ?cl) ?cl = Some (fd, fo)" "by_name (cl_store ?cl) (pf_name ?f) fo = Some 0"
    using conflict_facts(1) by (auto simp: sample_info_def split: option.splits)
  obtain p where p: "as_proto (ae_empty_digest sample_advance_env) (cl_store ?cl) (file_at (cl_store ?cl) 0) True = Some p" "pf_size p = 0" "\<not> pf_deleted p"
    using conflict_facts(2) by (auto simp: sample_advance_env_def split: option.splits)
  obtain r where r: "initialize sample_advance_env ?cl False resolve_remote_win ''f'' p
      (make_conflicting_name (ae_local_time sample_advance_env) (file_at (cl_store ?cl) 0)) sample_sequencer = Some r"
    using initialize_empty [OF fo(1) p(2,3)] by blast
  obtain d sq where d: "advance_diff resolve_remote_win ''f'' (replicate 32 1) r = (d, sq)" by (cases "advance_diff resolve_remote_win ''f'' (replicate 32 1) r")
  obtain r' where "initialize sample_advance_env ?cl True remote_copy ''f'' ?f [] sq = Some r'"
    using initialize_empty [OF fo(1), of ?f sample_advance_env True remote_copy "[]" sq] by (auto simp: sample_info_def)
  then show ?thesis using fo p r d by (auto simp: make_remote_win_def make_remote_copy_def split: prod.splits)
qed

theorem remote_win_unset_uuid_witness:
  "\<exists>d source local ch sq. make_remote_win sample_advance_env conflict_cluster ((sample_info 3)\<lparr>pf_size := 0, pf_blocks := []\<rparr>) ''f''
      (replicate 32 1) sample_sequencer = Some ([d, Diff (change (advance remote_copy ''f'' (replicate 32 1) [] source local)) ch], sq)"
proof -
  obtain ds sq where ds: "make_remote_win sample_advance_env conflict_cluster ((sample_info 3)\<lparr>pf_size := 0, pf_blocks := []\<rparr>) ''f''
      (replicate 32 1) sample_sequencer = Some (ds, sq)"
    using conflict_resolved by blast
  show ?thesis using remote_win_unset_uuid [OF ds] ds by (auto simp: sample_advance_env_def)
qed

end
